(* ===== verification/Prelude.thy ===== *)
theory Prelude
  imports Main "HOL-Library.Word" "HOL-Library.Monad_Syntax"
begin

text \<open>
  Shared vocabulary of the development: machine integers as words, undefined behaviour as
  \<open>None\<close>, little-endian byte encodings, byte arrays addressed by offset, and the library
  facts about them that the component theories use.

  The C++ sources copy registers with \<^verbatim>\<open>std::memcpy\<close> between a \<^verbatim>\<open>uint32_t\<close> and a byte array.
  On every host the platform is built for the byte order is little endian, and that is the
  order \<open>le_word\<close> and \<open>le_bytes\<close> spell out. A \<^verbatim>\<open>std::array<uint8_t, N>\<close> is a function from
  offsets to bytes together with its size \<open>N\<close>: \<open>arr_read\<close> and \<open>arr_write\<close> give \<open>None\<close> for
  a range that leaves the array, which is undefined behaviour in C++.
\<close>

unbundle bit_operations_syntax

subsection \<open>Types\<close>

type_synonym u8 = "8 word"
type_synonym u16 = "16 word"
type_synonym u32 = "32 word"
type_synonym u64 = "64 word"

text \<open>A computation that may run into undefined behaviour: \<open>None\<close> is undefined behaviour.\<close>

type_synonym 'a ub = "'a option"

text \<open>The contents of a fixed-size byte array; its size is carried by the operations.\<close>

type_synonym byte_array = "nat \<Rightarrow> u8"

subsection \<open>Little-endian encodings\<close>

primrec le_word :: "u8 list \<Rightarrow> 'a::len word" where
  "le_word [] = 0"
| "le_word (b # bs) = ucast b OR push_bit 8 (le_word bs)"

primrec le_bytes :: "nat \<Rightarrow> 'a::len word \<Rightarrow> u8 list" where
  "le_bytes 0 w = []"
| "le_bytes (Suc n) w = ucast w # le_bytes n (drop_bit 8 w)"

subsection \<open>Byte arrays\<close>

definition mem_read :: "byte_array \<Rightarrow> nat \<Rightarrow> nat \<Rightarrow> u8 list" where
  "mem_read m off len = map m [off..<off + len]"

definition mem_write :: "byte_array \<Rightarrow> nat \<Rightarrow> u8 list \<Rightarrow> byte_array" where
  "mem_write m off bs = (\<lambda>i. if off \<le> i \<and> i < off + length bs then bs ! (i - off) else m i)"

definition arr_read :: "nat \<Rightarrow> byte_array \<Rightarrow> nat \<Rightarrow> nat \<Rightarrow> u8 list ub" where
  "arr_read n m off len = (if off + len \<le> n then Some (mem_read m off len) else None)"

definition arr_write :: "nat \<Rightarrow> byte_array \<Rightarrow> nat \<Rightarrow> u8 list \<Rightarrow> byte_array ub" where
  "arr_write n m off bs =
     (if off + length bs \<le> n then Some (mem_write m off bs) else None)"

subsection \<open>A guest memory addressed by 64-bit words\<close>

text \<open>
  Buses carry 64-bit addresses and address arithmetic wraps, so the byte at distance \<open>d\<close>
  from \<open>a\<close> is at \<open>a + d\<close> modulo \<open>2 ^ 64\<close>.
\<close>

type_synonym ram = "u64 \<Rightarrow> u8"

definition ram_read :: "ram \<Rightarrow> u64 \<Rightarrow> nat \<Rightarrow> u8 list" where
  "ram_read m a len = map (\<lambda>i. m (a + of_nat i)) [0..<len]"

definition ram_write :: "ram \<Rightarrow> u64 \<Rightarrow> u8 list \<Rightarrow> ram" where
  "ram_write m a bs =
     (\<lambda>x. if unat (x - a) < length bs then bs ! unat (x - a) else m x)"

subsection \<open>Facts about little-endian encodings\<close>

lemma length_le_bytes [simp]: "length (le_bytes n w) = n"
  by (induction n arbitrary: w) auto

lemma bit_ucast_u8 [simp]: "bit (ucast (b::u8) :: 'a::len word) i \<longleftrightarrow> bit b i \<and> i < LENGTH('a)"
  by (simp add: bit_simps conj_commute)

lemma le_word_le_bytes_take:
  "le_word (le_bytes n w) = (take_bit (8 * n) w :: 'a::len word)"
proof (induction n arbitrary: w)
  case (Suc n)
  show ?case
    by (rule bit_word_eqI) (auto simp: Suc bit_simps)
qed simp

lemma le_word_le_bytes:
  "LENGTH('a) \<le> 8 * n \<Longrightarrow> le_word (le_bytes n w) = (w :: 'a::len word)"
  by (simp add: le_word_le_bytes_take take_bit_word_eq_self)

lemma le_word_le_bytes_32 [simp]: "le_word (le_bytes 4 w) = (w :: u32)"
  by (rule le_word_le_bytes) simp

lemma le_word_le_bytes_64 [simp]: "le_word (le_bytes 8 w) = (w :: u64)"
  by (rule le_word_le_bytes) simp

lemma le_word_le_bytes_16 [simp]: "le_word (le_bytes 2 w) = (w :: u16)"
  by (rule le_word_le_bytes) simp

lemma bit_le_word_bound:
  "bit (le_word bs :: 'a::len word) i \<Longrightarrow> i < 8 * length bs"
proof (induction bs arbitrary: i)
  case (Cons b bs)
  from Cons.prems consider "bit b i" | "8 \<le> i" "bit (le_word bs :: 'a word) (i - 8)"
    by (auto simp: bit_simps)
  then show ?case
  proof cases
    case 1
    then have "i < 8" by (auto dest: bit_imp_le_length)
    then show ?thesis by simp
  next
    case 2
    then show ?thesis using Cons.IH[of "i - 8"] by auto
  qed
qed simp

lemma ucast_or_push_u8:
  "8 \<le> LENGTH('a) \<Longrightarrow> (ucast (ucast (b::u8) OR push_bit 8 (x :: 'a::len word)) :: u8) = b"
  by (rule bit_word_eqI) (auto simp: bit_simps)

lemma drop_or_push_u8:
  assumes "\<And>i. bit (x :: 'a::len word) i \<Longrightarrow> i + 8 < LENGTH('a)"
  shows "drop_bit 8 (ucast (b::u8) OR push_bit 8 x) = x"
proof (rule bit_word_eqI)
  fix i assume "i < LENGTH('a)"
  then show "bit (drop_bit 8 (ucast b OR push_bit 8 x)) i = bit x i"
    using assms[of i] by (auto simp: bit_simps dest: bit_imp_le_length)
qed

lemma le_bytes_le_word:
  "8 * length bs \<le> LENGTH('a) \<Longrightarrow> le_bytes (length bs) (le_word bs :: 'a::len word) = bs"
proof (induction bs)
  case (Cons b bs)
  have "i + 8 < LENGTH('a)" if "bit (le_word bs :: 'a word) i" for i
    using bit_le_word_bound[OF that] Cons.prems by simp
  then have "drop_bit 8 (ucast b OR push_bit 8 (le_word bs :: 'a word)) = le_word bs"
    by (rule drop_or_push_u8)
  then show ?case
    using Cons by (simp add: ucast_or_push_u8 del: drop_bit_or)
qed simp

lemma le_bytes_le_word_32 [simp]: "length bs = 4 \<Longrightarrow> le_bytes 4 (le_word bs :: u32) = bs"
  using le_bytes_le_word[of bs, where 'a = 32] by simp

lemma le_bytes_le_word_64 [simp]: "length bs = 8 \<Longrightarrow> le_bytes 8 (le_word bs :: u64) = bs"
  using le_bytes_le_word[of bs, where 'a = 64] by simp

lemma nth_le_bytes: "i < n \<Longrightarrow> le_bytes n w ! i = ucast (drop_bit (8 * i) w)"
proof (induction n arbitrary: i w)
  case (Suc n)
  then show ?case by (cases i) (auto simp: add.commute)
qed simp

subsection \<open>Facts about byte arrays\<close>

lemma length_mem_read [simp]: "length (mem_read m off len) = len"
  by (simp add: mem_read_def)

lemma nth_mem_read [simp]: "i < len \<Longrightarrow> mem_read m off len ! i = m (off + i)"
  by (simp add: mem_read_def)

lemma mem_write_Nil [simp]: "mem_write m off [] = m"
  by (rule ext) (auto simp: mem_write_def)

lemma mem_write_outside:
  "i < off \<or> off + length bs \<le> i \<Longrightarrow> mem_write m off bs i = m i"
  by (auto simp: mem_write_def)

lemma mem_write_inside:
  "off \<le> i \<Longrightarrow> i < off + length bs \<Longrightarrow> mem_write m off bs i = bs ! (i - off)"
  by (simp add: mem_write_def)

lemma mem_read_write_same [simp]:
  "length bs = len \<Longrightarrow> mem_read (mem_write m off bs) off len = bs"
  by (auto intro: nth_equalityI simp: mem_write_def)

lemma mem_read_write_disjoint [simp]:
  "off + length bs \<le> off' \<or> off' + len \<le> off \<Longrightarrow>
   mem_read (mem_write m off bs) off' len = mem_read m off' len"
  by (auto intro!: nth_equalityI simp: mem_write_def)

lemma mem_read_cong:
  "(\<And>i. off \<le> i \<Longrightarrow> i < off + len \<Longrightarrow> m i = m' i) \<Longrightarrow> mem_read m off len = mem_read m' off len"
  by (auto intro!: nth_equalityI)

lemma arr_read_Some [simp]:
  "arr_read n m off len = Some bs \<longleftrightarrow> off + len \<le> n \<and> bs = mem_read m off len"
  by (auto simp: arr_read_def)

lemma arr_write_Some [simp]:
  "arr_write n m off bs = Some m' \<longleftrightarrow> off + length bs \<le> n \<and> m' = mem_write m off bs"
  by (auto simp: arr_write_def)

subsection \<open>Facts about guest memory\<close>

lemma length_ram_read [simp]: "length (ram_read m a len) = len"
  by (simp add: ram_read_def)

lemma nth_ram_read [simp]: "i < len \<Longrightarrow> ram_read m a len ! i = m (a + of_nat i)"
  by (simp add: ram_read_def)

lemma ram_write_Nil [simp]: "ram_write m a [] = m"
  by (auto simp: ram_write_def)

subsection \<open>Facts about words\<close>

lemma unat_bound: "unat (x :: 'a::len word) < 2 ^ LENGTH('a)"
  by (rule unsigned_less)

lemma unat_of_nat_small: "n < 2 ^ LENGTH('a) \<Longrightarrow> unat (of_nat n :: 'a::len word) = n"
  by (simp add: unsigned_of_nat take_bit_nat_eq_self)

lemma unat_add_small:
  "unat a + unat b < 2 ^ LENGTH('a) \<Longrightarrow> unat (a + b :: 'a::len word) = unat a + unat b"
  by (simp add: unat_add_lem[THEN iffD1])

lemma unat_ucast_32_64 [simp]: "unat (ucast (x :: u32) :: u64) = unat x"
  using unat_bound[of x] by (simp add: unsigned_ucast_eq take_bit_nat_eq_self)

lemma unat_add_wrap:
  assumes "2 ^ LENGTH('a) \<le> unat a + unat b"
  shows "unat (a + b :: 'a::len word) = unat a + unat b - 2 ^ LENGTH('a)"
proof -
  have "unat a + unat b - 2 ^ LENGTH('a) < 2 ^ LENGTH('a)"
    using unat_bound[of a] unat_bound[of b] by linarith
  then show ?thesis using assms by (simp add: unat_word_ariths(1) le_mod_geq)
qed

lemma u32_and_not_self [simp]: "(x AND NOT x :: 'a::len word) = 0"
  by (rule bit_word_eqI) (simp add: bit_simps)

lemma and_not_eq_self_iff: "(x AND NOT y = x) \<longleftrightarrow> (x AND y = (0 :: 'a::len word))"
  by (auto simp: bit_eq_iff bit_simps)

lemma or_eq_0_iff [simp]: "(x OR y = (0 :: 'a::len word)) \<longleftrightarrow> x = 0 \<and> y = 0"
  by (auto simp: bit_eq_iff bit_simps)

lemma bit_or_mask: "bit (x OR y :: 'a::len word) i \<longleftrightarrow> bit x i \<or> bit y i"
  by (simp add: bit_simps)

lemma sint_u64: "sint (w::u64) = (if bit w 63 then uint w - 2 ^ 64 else uint w)"
proof -
  have "take_bit 64 (uint w) = uint w"
    using unsigned_less[of w] by (simp add: take_bit_int_eq_self_iff)
  then show ?thesis
    by (simp add: sint_uint signed_take_bit_eq_take_bit_minus bit_uint_iff)
qed

lemma uint_u64_bound: "0 \<le> uint (w::u64)" "uint w < 2 ^ 64"
  using unsigned_less[of w] by simp_all

lemma uint_u32_bound: "0 \<le> uint (v::u32)" "uint v < 2 ^ 32"
  using uint_lt2p[of v] by simp_all

lemma uint_ucast_32_64 [simp]: "uint (ucast (x :: u32) :: u64) = uint x"
  using uint_u32_bound[of x] by (simp add: unsigned_ucast_eq take_bit_int_eq_self_iff)

lemma uint_u64_max: "uint (- 1 :: u64) = 2 ^ 64 - 1"
  by (simp add: unsigned_minus_1_eq_mask mask_eq_exp_minus_1)

lemma int_div_less_iff:
  assumes "0 < (b :: int)" shows "a div b < n \<longleftrightarrow> a < n * b"
proof
  assume "a div b < n"
  then have "(a div b + 1) * b \<le> n * b" using assms by (intro mult_right_mono) auto
  moreover have "a < (a div b + 1) * b"
    using pos_mod_bound[OF assms, of a] div_mult_mod_eq[of a b]
    unfolding distrib_right by linarith
  ultimately show "a < n * b" by linarith
next
  assume "a < n * b"
  then have "(a div b) * b < n * b"
    using assms pos_mod_sign[of b a] div_mult_mod_eq[of a b] by linarith
  then show "a div b < n" using assms by (simp add: mult_less_cancel_right)
qed

lemma uint_word_of_int_u64: "0 \<le> x \<Longrightarrow> x < 2 ^ 64 \<Longrightarrow> uint (word_of_int x :: u64) = x"
  by (simp add: unsigned_of_int take_bit_int_eq_self_iff)

lemma uint_add_sint:
  assumes "0 \<le> uint l + sint off" and "uint l + sint off < 2 ^ 64"
  shows "uint (l + off :: u64) = uint l + sint off"
  using uint_word_of_int_u64[OF assms] by simp

lemma and_push_bit_1_iff: "w AND push_bit r 1 = 0 \<longleftrightarrow> \<not> bit w r"
  by (simp add: bit_iff_and_push_bit_not_eq_0)

lemma and_exp_iff [simp]: "w AND 2 ^ r = 0 \<longleftrightarrow> \<not> bit w r"
  using and_push_bit_1_iff[of w r] by simp

lemma uint_push_bit_fits:
  assumes "uint w * 2 ^ k < 2 ^ 64" shows "uint (push_bit k w :: u64) = uint w * 2 ^ k"
  using assms uint_u64_bound[of w] unfolding unsigned_push_bit_eq
  by (simp add: push_bit_eq_mult take_bit_int_eq_self_iff)

lemma max_minus_less_iff: "x > -1 - (y :: u64) \<longleftrightarrow> 2 ^ 64 \<le> uint x + uint y"
proof -
  have "uint (-1 - y) = 2 ^ 64 - 1 - uint y"
    using uint_u64_bound[of y] by (subst uint_sub_lem[THEN iffD1]) (simp_all add: uint_u64_max)
  then show ?thesis by (auto simp: word_less_def)
qed

lemma uint_add_fits: "uint x + uint y < 2 ^ 64 \<Longrightarrow> uint (x + y :: u64) = uint x + uint y"
  by (subst uint_add_lem[THEN iffD1]) simp_all

lemma uint_diff_fits: "y \<le> x \<Longrightarrow> uint (x - y :: u64) = uint x - uint y"
  by (simp add: uint_minus_simple_alt[symmetric])

lemma le_bytes_4:
  "le_bytes 4 w = [ucast w, ucast (drop_bit 8 w), ucast (drop_bit 16 w), ucast (drop_bit 24 w)]"
proof -
  have "(4 :: nat) = Suc (Suc (Suc (Suc 0)))" by simp
  then show ?thesis by (simp only: le_bytes.simps) simp
qed

lemma unat_aligned_4: "x mod 4 = 0 \<Longrightarrow> unat (x :: u64) mod 4 = 0"
  by (drule arg_cong[where f = unat]) (simp add: unat_mod_distrib)

lemma uint_u32_ge_1: "(v :: u32) \<noteq> 0 \<Longrightarrow> 1 \<le> uint v"
  using uint_0_iff[of v] uint_u32_bound(1)[of v] by linarith

lemma ram_write_append:
  assumes "length xs + length ys \<le> 2 ^ 64"
  shows "ram_write (ram_write m a xs) (a + of_nat (length xs)) ys = ram_write m a (xs @ ys)"
proof (rule ext)
  fix x :: u64
  define d where "d = x - a"
  have split: "x - (a + of_nat (length xs)) = d - of_nat (length xs)" by (simp add: d_def)
  show "ram_write (ram_write m a xs) (a + of_nat (length xs)) ys x = ram_write m a (xs @ ys) x"
  proof (cases "length ys = 0")
    case False
    with assms have L: "unat (of_nat (length xs) :: u64) = length xs"
      by (intro unat_of_nat_small) (cases ys, simp_all)
    show ?thesis
    proof (cases "unat d < length xs")
      case True
      have "unat (d - of_nat (length xs)) = 2 ^ 64 + unat d - length xs"
        using True L by (simp add: unat_sub_if')
      then have "\<not> unat (d - of_nat (length xs)) < length ys" using assms True by simp
      then show ?thesis using True by (simp add: ram_write_def split d_def[symmetric] nth_append)
    next
      case False
      then have "unat (d - of_nat (length xs)) = unat d - length xs" using L by (simp add: unat_sub_if')
      then show ?thesis using False by (auto simp: ram_write_def split d_def[symmetric] nth_append)
    qed
  qed (simp add: ram_write_def)
qed

lemma ram_read_write_same:
  "length bs \<le> 2 ^ 64 \<Longrightarrow> ram_read (ram_write m a bs) a (length bs) = bs"
  by (rule nth_equalityI) (simp_all add: ram_write_def unat_of_nat_small)

lemma mem_read_add: "mem_read m off (a + b) = mem_read m off a @ mem_read m (off + a) b"
  by (rule nth_equalityI) (simp_all add: nth_append)

lemma ram_read_add: "ram_read m a (i + j) = ram_read m a i @ ram_read m (a + of_nat i) j"
  by (rule nth_equalityI) (auto simp: nth_append algebra_simps of_nat_diff)

lemma ram_read_write_other:
  assumes "\<And>i. i < n \<Longrightarrow> length bs \<le> unat (b + of_nat i - a)"
  shows "ram_read (ram_write m a bs) b n = ram_read m b n"
  by (intro nth_equalityI) (auto simp: ram_write_def dest: assms[THEN leD])

lemma mod_double_eq: "x < 4 * N \<Longrightarrow> x mod (2 * N) = (if x < 2 * N then x else x - 2 * (N :: nat))"
  by (simp add: mod_if not_less)

lemma level_eq:
  "a < 2 * N \<Longrightarrow> b < 2 * N \<Longrightarrow> (a + 2 * N - b) mod (2 * N) = (if b \<le> a then a - b else a + 2 * N - (b :: nat))"
  by (auto simp: mod_double_eq)

lemma unat_exp_u32: "n < 32 \<Longrightarrow> unat (2 ^ n :: u32) = 2 ^ n"
  using unat_of_nat_small[where 'a = 32, of "2 ^ n"] power_strict_increasing[of n 32 "2 :: nat"] by simp

lemma bit_nat_le: "bit (x :: nat) k \<Longrightarrow> 2 ^ k \<le> x"
  by (metis bit_iff_odd div_less even_zero not_le)

lemma le_word_append: "le_word (xs @ ys) = (le_word xs OR push_bit (8 * length xs) (le_word ys) :: 'a::len word)"
  by (induction xs) (simp_all add: push_bit_or or.assoc add.commute)

lemma le_word_64_32: "length xs \<le> 4 \<Longrightarrow> (le_word xs :: u64) = ucast (le_word xs :: u32)"
proof (induction xs)
  case (Cons b xs)
  then have IH: "(le_word xs :: u64) = ucast (le_word xs :: u32)" and len: "length xs \<le> 3" by simp_all
  have lt: "i + 8 < 32" if "bit (le_word xs :: u32) i" for i
    using bit_le_word_bound[OF that] len by simp
  show ?case
    by (rule bit_word_eqI) (auto simp: IH bit_simps dest: lt bit_imp_le_length)
qed simp

lemma unat_ucast_64_32: "unat (a :: u64) < 2 ^ 32 \<Longrightarrow> unat (ucast a :: u32) = unat a"
  by (simp add: unsigned_ucast_eq take_bit_nat_eq_self)

lemma w1c_clears: "bit v k \<Longrightarrow> (x AND NOT (v AND (2 ^ k OR m))) AND 2 ^ k = (0 :: 'a::len word)"
  unfolding and_exp_iff by (auto simp: bit_simps dest: bit_imp_le_length)

lemma masked_update: "a AND NOT m = 0 \<Longrightarrow> ((a AND NOT m) OR (v AND m)) AND NOT m = (0 :: 'a::len word)"
  by (simp add: and.assoc)

lemma le_bytes_2: "le_bytes 2 w = [ucast w, ucast (drop_bit 8 w)]"
proof -
  have "(2 :: nat) = Suc (Suc 0)" by simp
  then show ?thesis by (simp only: le_bytes.simps)
qed

lemma upt_4: "[0..<4] = [0, 1, 2, 3 :: nat]"
  by (simp add: upt_rec)

lemma fold_append: "fold (\<lambda>i r. r @ f i) xs r = r @ concat (map f xs)"
  by (induction xs arbitrary: r) auto

lemma bit_lt_exp: "(w :: u32) < 2 ^ k \<Longrightarrow> k < 32 \<Longrightarrow> bit w j \<Longrightarrow> j < k"
  by (metis bit_take_bit_iff less_mask_eq take_bit_eq_mask word_less_def)

lemma replicate_6: "replicate 2 x @ replicate 2 x @ replicate 2 x = replicate 6 x"
  by (simp add: replicate_add[symmetric])

lemma unat_ucast_16_32 [simp]: "unat (ucast (x :: u16) :: u32) = unat x"
  using unat_bound[of x] by (simp add: unsigned_ucast_eq take_bit_nat_eq_self)

lemma le_bytes_zero [simp]: "le_bytes n (0 :: 'a::len word) = replicate n 0"
  by (induction n) simp_all

lemma take_le_bytes: "take n (le_bytes m w) = le_bytes (min n m) w"
proof (induction m arbitrary: n w)
  case (Suc m)
  then show ?case by (cases n) simp_all
qed simp

lemma le_bytes_short:
  assumes "length bs \<le> 4" shows "take (length bs) (le_bytes 4 (le_word bs :: u32)) = bs"
  using assms le_bytes_le_word[of bs, where 'a = 32] by (simp add: take_le_bytes min_def)

end
