(* ===== verification/Tlm_Regs.thy ===== *)
theory Tlm_Regs
  imports Prelude
begin

text \<open>
  The part every register block of \<^verbatim>\<open>src/systemc-components\<close> shares: the TLM generic payload, a
  byte-array register file with \<^verbatim>\<open>load32\<close> and \<^verbatim>\<open>store32\<close>, and the body of \<^verbatim>\<open>access\<close> that each
  class repeats (length and bounds guard, read, 32-bit aligned write, raw write, error
  responses). The classes differ in their register size, their \<^verbatim>\<open>write32\<close>, and what they do
  after a successful access; those are the arguments of \<open>reg_access\<close>.

  The bounds guard is \<^verbatim>\<open>offset + len > size\<close> on 64-bit unsigned integers and wraps around for
  offsets just below \<open>2 ^ 64\<close>; the model keeps the wrap, and a byte-array access outside the
  array is \<open>None\<close>.
\<close>

subsection \<open>The generic payload\<close>

datatype tlm_command = TLM_READ_COMMAND | TLM_WRITE_COMMAND | TLM_IGNORE_COMMAND

datatype tlm_response =
    TLM_OK_RESPONSE
  | TLM_INCOMPLETE_RESPONSE
  | TLM_GENERIC_ERROR_RESPONSE
  | TLM_ADDRESS_ERROR_RESPONSE
  | TLM_COMMAND_ERROR_RESPONSE
  | TLM_BURST_ERROR_RESPONSE
  | TLM_BYTE_ENABLE_ERROR_RESPONSE

text \<open>
  \<open>p_data\<close> is the buffer behind the data pointer, \<open>None\<close> for a null pointer; \<open>p_len\<close> is the
  data length attribute. A payload is well formed when the buffer has at least that length.
\<close>

record payload =
  p_command :: tlm_command
  p_address :: u64
  p_data :: "u8 list option"
  p_len :: u32
  p_response :: tlm_response
  p_dmi_allowed :: bool

definition wf_payload :: "payload \<Rightarrow> bool" where
  "wf_payload t \<longleftrightarrow> (case p_data t of None \<Rightarrow> True | Some buf \<Rightarrow> unat (p_len t) \<le> length buf)"

definition is_response_ok :: "payload \<Rightarrow> bool" where
  "is_response_ok t \<longleftrightarrow> p_response t = TLM_OK_RESPONSE"

text \<open>Payloads a bus master sends: a write of some bytes, a read into a zeroed buffer.\<close>

definition write_payload :: "u64 \<Rightarrow> u8 list \<Rightarrow> payload" where
  "write_payload a bs = \<lparr>p_command = TLM_WRITE_COMMAND, p_address = a, p_data = Some bs,
     p_len = of_nat (length bs), p_response = TLM_INCOMPLETE_RESPONSE, p_dmi_allowed = False\<rparr>"

definition read_payload :: "u64 \<Rightarrow> nat \<Rightarrow> payload" where
  "read_payload a n = \<lparr>p_command = TLM_READ_COMMAND, p_address = a, p_data = Some (replicate n 0),
     p_len = of_nat n, p_response = TLM_INCOMPLETE_RESPONSE, p_dmi_allowed = False\<rparr>"

lemma payload_sel [simp]:
  "p_command (write_payload a bs) = TLM_WRITE_COMMAND" "p_address (write_payload a bs) = a"
  "p_data (write_payload a bs) = Some bs" "p_len (write_payload a bs) = of_nat (length bs)"
  "p_command (read_payload a n) = TLM_READ_COMMAND" "p_address (read_payload a n) = a"
  "p_data (read_payload a n) = Some (replicate n 0)" "p_len (read_payload a n) = of_nat n"
  by (simp_all add: write_payload_def read_payload_def)

subsection \<open>The bus behind an initiator socket\<close>

text \<open>
  What an initiator socket is bound to is a parameter of the components that have one. A bus with a
  memory behind it is what their documentation has in mind: \<open>memory_bus bus peek\<close> says that
  \<open>bus\<close> answers whole reads and writes from the memory \<open>peek\<close> shows. \<open>ram_bus\<close> is such a bus.
\<close>

type_synonym 'm bus = "payload \<Rightarrow> 'm \<Rightarrow> payload \<times> 'm"

definition memory_bus :: "'m bus \<Rightarrow> ('m \<Rightarrow> ram) \<Rightarrow> bool" where
  "memory_bus bus peek \<longleftrightarrow>
     (\<forall>t m bs. p_command t = TLM_WRITE_COMMAND \<longrightarrow> p_data t = Some bs \<longrightarrow> unat (p_len t) \<le> length bs \<longrightarrow>
        fst (bus t m) = t\<lparr>p_response := TLM_OK_RESPONSE\<rparr> \<and>
        peek (snd (bus t m)) = ram_write (peek m) (p_address t) (take (unat (p_len t)) bs)) \<and>
     (\<forall>t m bs. p_command t = TLM_READ_COMMAND \<longrightarrow> p_data t = Some bs \<longrightarrow> unat (p_len t) \<le> length bs \<longrightarrow>
        fst (bus t m) = t\<lparr>p_data := Some (ram_read (peek m) (p_address t) (unat (p_len t)) @
            drop (unat (p_len t)) bs), p_response := TLM_OK_RESPONSE\<rparr> \<and>
        peek (snd (bus t m)) = peek m)"

definition ram_bus :: "ram bus" where
  "ram_bus t m =
     (case p_data t of
        None \<Rightarrow> (t\<lparr>p_response := TLM_GENERIC_ERROR_RESPONSE\<rparr>, m)
      | Some bs \<Rightarrow>
          (case p_command t of
             TLM_WRITE_COMMAND \<Rightarrow>
               (t\<lparr>p_response := TLM_OK_RESPONSE\<rparr>, ram_write m (p_address t) (take (unat (p_len t)) bs))
           | TLM_READ_COMMAND \<Rightarrow>
               (t\<lparr>p_data := Some (ram_read m (p_address t) (unat (p_len t)) @ drop (unat (p_len t)) bs),
                  p_response := TLM_OK_RESPONSE\<rparr>, m)
           | TLM_IGNORE_COMMAND \<Rightarrow> (t\<lparr>p_response := TLM_OK_RESPONSE\<rparr>, m)))"

lemma memory_bus_ram: "memory_bus ram_bus (\<lambda>m. m)"
  by (simp add: memory_bus_def ram_bus_def)

lemma memory_bus_write:
  assumes "memory_bus bus peek" and "p_command t = TLM_WRITE_COMMAND" and "p_data t = Some bs"
    and "unat (p_len t) \<le> length bs" and "bus t m = (t', m')"
  shows "t' = t\<lparr>p_response := TLM_OK_RESPONSE\<rparr>"
    and "peek m' = ram_write (peek m) (p_address t) (take (unat (p_len t)) bs)"
  using assms unfolding memory_bus_def by (metis fst_conv snd_conv)+

lemma memory_bus_read:
  assumes "memory_bus bus peek" and "p_command t = TLM_READ_COMMAND" and "p_data t = Some bs"
    and "unat (p_len t) \<le> length bs" and "bus t m = (t', m')"
  shows "t' = t\<lparr>p_data := Some (ram_read (peek m) (p_address t) (unat (p_len t)) @
      drop (unat (p_len t)) bs), p_response := TLM_OK_RESPONSE\<rparr>"
    and "peek m' = peek m"
  using assms unfolding memory_bus_def by (metis fst_conv snd_conv)+

subsection \<open>A register file\<close>

record reg_state =
  m_regs :: byte_array
  m_trace_count :: u32

definition load32 :: "'a reg_state_scheme \<Rightarrow> nat \<Rightarrow> u32" where
  "load32 s off = le_word (mem_read (m_regs s) off 4)"

definition store32 :: "nat \<Rightarrow> u32 \<Rightarrow> 'a reg_state_scheme \<Rightarrow> 'a reg_state_scheme" where
  "store32 off v s = s\<lparr>m_regs := mem_write (m_regs s) off (le_bytes 4 v)\<rparr>"

definition load64 :: "'a reg_state_scheme \<Rightarrow> nat \<Rightarrow> u64" where
  "load64 s off = le_word (mem_read (m_regs s) off 8)"

definition is_supported_length :: "u32 \<Rightarrow> bool" where
  "is_supported_length len \<longleftrightarrow> len = 1 \<or> len = 2 \<or> len = 4 \<or> len = 8"

text \<open>The guard \<^verbatim>\<open>offset + len > size\<close> of \<^verbatim>\<open>access\<close>, on 64-bit unsigned integers.\<close>

definition beyond :: "nat \<Rightarrow> u64 \<Rightarrow> u32 \<Rightarrow> bool" where
  "beyond n off len \<longleftrightarrow> off + ucast len > of_nat n"

text \<open>The read branch: \<^verbatim>\<open>memcpy(data, &m_regs[offset], len)\<close>.\<close>

definition regs_read :: "nat \<Rightarrow> u64 \<Rightarrow> nat \<Rightarrow> 'a reg_state_scheme \<Rightarrow> u8 list ub" where
  "regs_read n off len s = arr_read n (m_regs s) (unat off) len"

text \<open>
  The write branch: an aligned 32-bit write goes through the block's \<^verbatim>\<open>write32\<close>, any other
  width is copied into the array. An offset that leaves the array names no register, so every
  \<^verbatim>\<open>write32\<close> sends it to its default branch, a \<^verbatim>\<open>store32\<close> outside the array.
\<close>

definition regs_write ::
    "nat \<Rightarrow> (nat \<Rightarrow> u32 \<Rightarrow> 'a reg_state_scheme \<Rightarrow> 'a reg_state_scheme) \<Rightarrow>
     u64 \<Rightarrow> u8 list \<Rightarrow> 'a reg_state_scheme \<Rightarrow> 'a reg_state_scheme ub" where
  "regs_write n wr32 off bs s =
     (if length bs = 4 \<and> off mod 4 = 0
      then (if unat off + 4 \<le> n then Some (wr32 (unat off) (le_word bs) s) else None)
      else do {
        m \<leftarrow> arr_write n (m_regs s) (unat off) bs;
        Some (s\<lparr>m_regs := m\<rparr>)
      })"

text \<open>The body of \<^verbatim>\<open>access\<close>: the result, the payload as it is left, and the new state.\<close>

definition reg_access ::
    "nat \<Rightarrow> (u64 \<Rightarrow> nat \<Rightarrow> 's \<Rightarrow> (u8 list \<times> 's) ub) \<Rightarrow> (u64 \<Rightarrow> u8 list \<Rightarrow> 's \<Rightarrow> 's ub) \<Rightarrow>
     (payload \<Rightarrow> 's \<Rightarrow> 's) \<Rightarrow> payload \<Rightarrow> 's \<Rightarrow> (bool \<times> payload \<times> 's) ub" where
  "reg_access n rd wr tr t s =
     (case p_data t of
        None \<Rightarrow> Some (False, t\<lparr>p_response := TLM_ADDRESS_ERROR_RESPONSE\<rparr>, s)
      | Some buf \<Rightarrow>
          if \<not> is_supported_length (p_len t) \<or> beyond n (p_address t) (p_len t)
          then Some (False, t\<lparr>p_response := TLM_ADDRESS_ERROR_RESPONSE\<rparr>, s)
          else (case p_command t of
              TLM_READ_COMMAND \<Rightarrow>
                if length buf < unat (p_len t) then None
                else do {
                  (bs, s') \<leftarrow> rd (p_address t) (unat (p_len t)) s;
                  let t' = t\<lparr>p_data := Some (bs @ drop (unat (p_len t)) buf)\<rparr>;
                  Some (True, t'\<lparr>p_response := TLM_OK_RESPONSE\<rparr>, tr t' s')
                }
            | TLM_WRITE_COMMAND \<Rightarrow>
                if length buf < unat (p_len t) then None
                else do {
                  s' \<leftarrow> wr (p_address t) (take (unat (p_len t)) buf) s;
                  Some (True, t\<lparr>p_response := TLM_OK_RESPONSE\<rparr>, tr t s')
                }
            | TLM_IGNORE_COMMAND \<Rightarrow>
                Some (False, t\<lparr>p_response := TLM_COMMAND_ERROR_RESPONSE\<rparr>, s)))"

text \<open>The read argument of \<open>reg_access\<close> for blocks whose reads have no side effect.\<close>

definition plain_read ::
    "nat \<Rightarrow> u64 \<Rightarrow> nat \<Rightarrow> 'a reg_state_scheme \<Rightarrow> (u8 list \<times> 'a reg_state_scheme) ub" where
  "plain_read n off len s = do { bs \<leftarrow> regs_read n off len s; Some (bs, s) }"

text \<open>
  \<^verbatim>\<open>b_transport\<close> clears the DMI hint and drops the result; \<^verbatim>\<open>transport_dbg\<close> returns the number
  of bytes transferred.
\<close>

definition b_transport_of ::
    "(payload \<Rightarrow> 's \<Rightarrow> (bool \<times> payload \<times> 's) ub) \<Rightarrow> payload \<Rightarrow> 's \<Rightarrow> (payload \<times> 's) ub" where
  "b_transport_of acc t s =
     do { (_, t', s') \<leftarrow> acc (t\<lparr>p_dmi_allowed := False\<rparr>) s; Some (t', s') }"

definition transport_dbg_of ::
    "(payload \<Rightarrow> 's \<Rightarrow> (bool \<times> payload \<times> 's) ub) \<Rightarrow> payload \<Rightarrow> 's \<Rightarrow> (u32 \<times> payload \<times> 's) ub" where
  "transport_dbg_of acc t s =
     do { (ok, t', s') \<leftarrow> acc t s; Some (if ok then p_len t' else 0, t', s') }"

text \<open>Tracing: a bounded counter of the accesses printed to the error stream.\<close>

definition count_trace :: "bool \<Rightarrow> u32 \<Rightarrow> 'a reg_state_scheme \<Rightarrow> 'a reg_state_scheme" where
  "count_trace on limit s =
     (if \<not> on \<or> m_trace_count s \<ge> limit then s
      else s\<lparr>m_trace_count := m_trace_count s + 1\<rparr>)"

subsection \<open>Loads and stores\<close>

lemma load32_store32_same [simp]: "load32 (store32 off v s) off = v"
  by (simp add: load32_def store32_def)

lemma load32_store32_disjoint [simp]:
  "off + 4 \<le> off' \<or> off' + 4 \<le> off \<Longrightarrow> load32 (store32 off v s) off' = load32 s off'"
  by (simp add: load32_def store32_def)

lemma load32_mem_write [simp]:
  "off + length bs \<le> off' \<or> off' + 4 \<le> off \<Longrightarrow>
   load32 (s\<lparr>m_regs := mem_write (m_regs s) off bs\<rparr>) off' = load32 s off'"
  by (simp add: load32_def)

lemma load32_store32_aligned:
  "off mod 4 = 0 \<Longrightarrow> off' mod 4 = 0 \<Longrightarrow>
   load32 (store32 off v s) off' = (if off' = off then v else load32 s off')"
proof (cases "off' = off")
  case False
  assume "off mod 4 = 0" "off' mod 4 = 0"
  with False have "off + 4 \<le> off' \<or> off' + 4 \<le> off" by presburger
  with False show ?thesis by simp
qed simp

lemma store32_trace_count [simp]: "m_trace_count (store32 off v s) = m_trace_count s"
  by (simp add: store32_def)

lemma m_regs_store32: "m_regs (store32 off v s) = mem_write (m_regs s) off (le_bytes 4 v)"
  by (simp add: store32_def)

lemma store32_outside:
  "i < off \<or> off + 4 \<le> i \<Longrightarrow> m_regs (store32 off v s) i = m_regs s i"
  by (simp add: store32_def mem_write_outside)

lemma load32_trace_count [simp]: "load32 (s\<lparr>m_trace_count := c\<rparr>) off = load32 s off"
  by (simp add: load32_def)

lemma load32_cong:
  "(\<And>i. off \<le> i \<Longrightarrow> i < off + 4 \<Longrightarrow> m_regs s i = m_regs s' i) \<Longrightarrow> load32 s off = load32 s' off"
  unfolding load32_def by (simp cong: mem_read_cong)

lemma load32_cleared:
  "(\<And>i. off \<le> i \<Longrightarrow> i < off + 4 \<Longrightarrow> m_regs s i = 0) \<Longrightarrow> load32 s off = 0"
proof -
  assume "\<And>i. off \<le> i \<Longrightarrow> i < off + 4 \<Longrightarrow> m_regs s i = 0"
  then have "mem_read (m_regs s) off 4 = mem_read (\<lambda>_. 0) off 4" by (intro mem_read_cong) simp
  then show ?thesis by (simp add: load32_def mem_read_def upt_rec)
qed

lemma count_trace_regs [simp]:
  "m_regs (count_trace on limit s) = m_regs s" "load32 (count_trace on limit s) off = load32 s off"
  by (simp_all add: count_trace_def)

lemma unat_supported_length:
  "is_supported_length len \<Longrightarrow> unat len \<in> {1, 2, 4, 8}"
  by (auto simp: is_supported_length_def)

lemma regs_write_cases:
  assumes "regs_write n wr32 off bs s = Some s'"
  obtains "length bs = 4" "off mod 4 = 0" "s' = wr32 (unat off) (le_word bs) s" "unat off + 4 \<le> n"
  | "\<not> (length bs = 4 \<and> off mod 4 = 0)" "s' = s\<lparr>m_regs := mem_write (m_regs s) (unat off) bs\<rparr>"
    "unat off + length bs \<le> n"
  using assms that by (auto simp: regs_write_def bind_eq_Some_conv split: if_splits)

lemma le_bytes_load32 [simp]: "le_bytes 4 (load32 s off) = mem_read (m_regs s) off 4"
  by (simp add: load32_def)

lemma load64_split: "load64 s off = ucast (load32 s off) OR push_bit 32 (ucast (load32 s (off + 4)))"
  using mem_read_add[of "m_regs s" off 4 4] le_word_append[of "mem_read (m_regs s) off 4" "mem_read (m_regs s) (off + 4) 4", where 'a = 64]
  by (simp add: load64_def load32_def le_word_64_32)

subsection \<open>The bounds guard\<close>

lemma beyond_iff_no_wrap:
  assumes "is_supported_length len" and "unat off < 2 ^ 64 - 8" and "n < 2 ^ 64"
  shows "beyond n off len \<longleftrightarrow> n < unat off + unat len"
proof -
  have "unat len \<le> 8" using unat_supported_length[OF assms(1)] by auto
  then have "unat (off + ucast len) = unat off + unat len"
    using assms(2) by (subst unat_add_small) simp_all
  moreover have "unat (of_nat n :: u64) = n" using assms(3) by (simp add: unat_of_nat_small)
  ultimately show ?thesis by (simp add: beyond_def word_less_nat_alt)
qed

subsection \<open>The contract of a register block\<close>

text \<open>
  What \<^verbatim>\<open>access\<close> promises for every block, from what its \<^verbatim>\<open>write32\<close> and its trace hook promise:
  \<open>inv\<close> is the block's own invariant over the fields outside the array.
\<close>

abbreviation block_access ::
    "nat \<Rightarrow> (nat \<Rightarrow> u32 \<Rightarrow> 'a reg_state_scheme \<Rightarrow> 'a reg_state_scheme) \<Rightarrow>
     (payload \<Rightarrow> 'a reg_state_scheme \<Rightarrow> 'a reg_state_scheme) \<Rightarrow>
     payload \<Rightarrow> 'a reg_state_scheme \<Rightarrow> (bool \<times> payload \<times> 'a reg_state_scheme) ub" where
  "block_access n wr32 tr \<equiv> reg_access n (plain_read n) (regs_write n wr32) tr"

definition in_block :: "nat \<Rightarrow> payload \<Rightarrow> bool" where
  "in_block n t \<longleftrightarrow> p_data t \<noteq> None \<and> is_supported_length (p_len t) \<and>
     unat (p_address t) + unat (p_len t) \<le> n"

text \<open>The address is so low that the 64-bit sum of the guard cannot wrap.\<close>

definition no_wrap :: "payload \<Rightarrow> bool" where
  "no_wrap t \<longleftrightarrow> unat (p_address t) < 2 ^ 64 - 8"

lemma in_block_no_wrap: "in_block n t \<Longrightarrow> n < 2 ^ 63 \<Longrightarrow> no_wrap t"
  by (simp add: in_block_def no_wrap_def)

lemma not_beyond_in_block:
  assumes "no_wrap t" and "n < 2 ^ 63" and "p_data t \<noteq> None"
  shows "is_supported_length (p_len t) \<and> \<not> beyond n (p_address t) (p_len t) \<longleftrightarrow> in_block n t"
  using assms by (auto simp: in_block_def no_wrap_def beyond_iff_no_wrap)

text \<open>What \<^verbatim>\<open>access\<close> needs of the read and write arguments it is given.\<close>

locale reg_window =
  fixes n :: nat
    and rd :: "u64 \<Rightarrow> nat \<Rightarrow> 's \<Rightarrow> (u8 list \<times> 's) ub"
    and wr :: "u64 \<Rightarrow> u8 list \<Rightarrow> 's \<Rightarrow> 's ub"
    and tr :: "payload \<Rightarrow> 's \<Rightarrow> 's"
    and inv :: "'s \<Rightarrow> bool"
  assumes small: "n < 2 ^ 32"
    and rd_defined: "len \<in> {1, 2, 4, 8} \<Longrightarrow> unat off + len \<le> n \<Longrightarrow> rd off len s \<noteq> None"
    and rd_inv: "rd off len s = Some (bs, s') \<Longrightarrow> inv s \<Longrightarrow> inv s'"
    and wr_defined: "length bs \<in> {1, 2, 4, 8} \<Longrightarrow> unat off + length bs \<le> n \<Longrightarrow> wr off bs s \<noteq> None"
    and wr_inv: "wr off bs s = Some s' \<Longrightarrow> inv s \<Longrightarrow> inv s'"
    and tr_inv: "inv s \<Longrightarrow> inv (tr t s)"
begin

text \<open>A well-formed payload below the wrap never reaches undefined behaviour.\<close>

lemma access_defined:
  assumes "wf_payload t" and "no_wrap t"
  shows "reg_access n rd wr tr t s \<noteq> None"
proof (cases "p_data t")
  case (Some buf)
  have n: "n < 2 ^ 63" using small by simp
  from Some assms(1) have buf: "unat (p_len t) \<le> length buf" by (simp add: wf_payload_def)
  show ?thesis
  proof (cases "in_block n t")
    case True
    then have inb: "unat (p_address t) + unat (p_len t) \<le> n" and len: "unat (p_len t) \<in> {1, 2, 4, 8}"
      by (auto simp: in_block_def dest: unat_supported_length)
    have rd: "rd (p_address t) (unat (p_len t)) s \<noteq> None"
      using rd_defined[OF len inb] .
    have wr: "wr (p_address t) (take (unat (p_len t)) buf) s \<noteq> None"
      using wr_defined[of "take (unat (p_len t)) buf" "p_address t"] buf len inb by (simp add: min_def)
    show ?thesis
      using buf Some rd wr by (auto simp: reg_access_def Let_def split: tlm_command.split)
  next
    case False
    with not_beyond_in_block[OF assms(2) n] Some show ?thesis
      by (auto simp: reg_access_def)
  qed
qed (simp add: reg_access_def)

text \<open>An access that is refused leaves the block alone and only sets the response.\<close>

lemma access_refused:
  assumes "reg_access n rd wr tr t s = Some (False, t', s')"
  shows "s' = s \<and> t' = t\<lparr>p_response := p_response t'\<rparr> \<and> p_response t' \<noteq> TLM_OK_RESPONSE"
  using assms
  by (auto simp: reg_access_def Let_def bind_eq_Some_conv
      split: option.splits if_splits tlm_command.splits)

lemma access_response:
  assumes "reg_access n rd wr tr t s = Some (ok, t', s')"
  shows "ok \<longleftrightarrow> is_response_ok t'"
  using assms
  by (auto simp: reg_access_def is_response_ok_def Let_def bind_eq_Some_conv
      split: option.splits if_splits tlm_command.splits)

lemma access_granted_iff:
  assumes "no_wrap t" and "reg_access n rd wr tr t s = Some (ok, t', s')"
  shows "ok \<longleftrightarrow> in_block n t \<and> p_command t \<noteq> TLM_IGNORE_COMMAND"
proof -
  have n: "n < 2 ^ 63" using small by simp
  show ?thesis
    using assms(2) not_beyond_in_block[OF assms(1) n]
    by (auto simp: reg_access_def in_block_def Let_def bind_eq_Some_conv
        split: option.splits if_splits tlm_command.splits)
qed

lemma access_grants:
  assumes "wf_payload t" and "in_block n t" and "p_command t \<noteq> TLM_IGNORE_COMMAND"
  shows "\<exists>t' s'. reg_access n rd wr tr t s = Some (True, t', s') \<and> is_response_ok t'"
proof -
  have nw: "no_wrap t" using in_block_no_wrap[OF assms(2)] small by simp
  obtain ok t' s' where acc: "reg_access n rd wr tr t s = Some (ok, t', s')"
    using access_defined[OF assms(1) nw, of s] by auto
  moreover have ok using access_granted_iff[OF nw acc] assms(2,3) by simp
  ultimately show ?thesis using access_response by metis
qed

text \<open>A granted write hands its bytes to the block.\<close>

lemma access_write:
  assumes "reg_access n rd wr tr t s = Some (True, t', s')" and "p_command t = TLM_WRITE_COMMAND"
  obtains buf w where "p_data t = Some buf" "unat (p_len t) \<le> length buf" "s' = tr t w"
    "wr (p_address t) (take (unat (p_len t)) buf) s = Some w" "is_supported_length (p_len t)"
  using assms that
  by (auto simp: reg_access_def Let_def bind_eq_Some_conv split: option.splits if_splits)

lemma access_inv:
  assumes "inv s" and "reg_access n rd wr tr t s = Some (ok, t', s')"
  shows "inv s'"
  using assms
  by (auto simp: reg_access_def Let_def bind_eq_Some_conv
      intro: tr_inv rd_inv wr_inv split: option.splits if_splits tlm_command.splits)

end

text \<open>The common case: side-effect free reads and a \<^verbatim>\<open>write32\<close> over a byte array.\<close>

locale reg_block =
  fixes n :: nat
    and wr32 :: "nat \<Rightarrow> u32 \<Rightarrow> 'a reg_state_scheme \<Rightarrow> 'a reg_state_scheme"
    and tr :: "payload \<Rightarrow> 'a reg_state_scheme \<Rightarrow> 'a reg_state_scheme"
    and inv :: "'a reg_state_scheme \<Rightarrow> bool"
  assumes size_small: "n < 2 ^ 32"
    and tr_regs: "m_regs (tr t s) = m_regs s"
    and hook_inv: "inv s \<Longrightarrow> inv (tr t s)"
    and raw_inv: "inv s \<Longrightarrow> inv (s\<lparr>m_regs := m\<rparr>)"
    and wr32_inv: "inv s \<Longrightarrow> inv (wr32 off v s)"

sublocale reg_block < reg_window n "plain_read n" "regs_write n wr32" tr inv
proof
  show "n < 2 ^ 32" by (rule size_small)
qed (auto simp: plain_read_def regs_read_def arr_read_def regs_write_def arr_write_def
      bind_eq_Some_conv hook_inv raw_inv wr32_inv split: if_splits)

context reg_block
begin

text \<open>A granted read returns the bytes of the array and changes nothing but the trace.\<close>

lemma access_read:
  assumes "block_access n wr32 tr t s = Some (True, t', s')" and "p_command t = TLM_READ_COMMAND"
  shows "m_regs s' = m_regs s \<and>
         (\<exists>rest. p_data t' = Some (mem_read (m_regs s) (unat (p_address t)) (unat (p_len t)) @ rest))"
  using assms
  by (auto simp: reg_access_def plain_read_def regs_read_def Let_def tr_regs bind_eq_Some_conv
      split: option.splits if_splits)

text \<open>
  The guard does wrap: an access that starts less than its length below \<open>2 ^ 64\<close> passes it and
  leaves the array.
\<close>

lemma access_wraps:
  assumes "p_command t = TLM_READ_COMMAND" and "p_data t = Some buf" and "length buf = unat (p_len t)"
    and "is_supported_length (p_len t)" and "2 ^ 64 \<le> unat (p_address t) + unat (p_len t)"
    and "8 \<le> n"
  shows "block_access n wr32 tr t s = None"
proof -
  have len: "unat (p_len t) \<le> 8" using unat_supported_length[OF assms(4)] by auto
  have "p_address t + ucast (p_len t) \<le> of_nat n"
  proof -
    have "unat (p_address t + ucast (p_len t)) = unat (p_address t) + unat (p_len t) - 2 ^ 64"
      using assms(5) unat_add_wrap[of "p_address t" "ucast (p_len t)"] by simp
    also have "\<dots> \<le> 8" using len unat_bound[of "p_address t"] by simp
    also have "8 \<le> unat (of_nat n :: u64)" using size_small assms(6) by (simp add: unat_of_nat_small)
    finally show ?thesis by (simp add: word_le_nat_alt)
  qed
  moreover have "n < unat (p_address t) + unat (p_len t)" using assms(5) size_small by simp
  ultimately show ?thesis
    using assms(1-4) by (simp add: reg_access_def beyond_def plain_read_def regs_read_def
        arr_read_def not_less)
qed

end

end
