(* ===== verification/Word_Window.thy ===== *)
theory Word_Window
  imports Tlm_Regs
begin

text \<open>
  The access body of the register windows that keep their registers in fields instead of a byte
  array (\<^verbatim>\<open>zena_ssu.h\<close>, \<^verbatim>\<open>zena_fmu.h\<close>): a read assembles its bytes from 32-bit register reads chunk
  by chunk, a write reaches the registers only as an aligned 32-bit word and is ignored
  otherwise. Nothing is indexed by the offset, so a wrapped offset is harmless here.
\<close>

function read_chunks :: "(u64 \<Rightarrow> u32) \<Rightarrow> u64 \<Rightarrow> nat \<Rightarrow> u8 list" where
  "read_chunks rd cur remaining =
     (if remaining = 0 then []
      else
        (let value = rd (cur AND NOT 3);
             shift = unat (cur AND 3);
             chunk = min remaining (4 - shift)
         in take chunk (drop shift (le_bytes 4 value)) @ read_chunks rd (cur + of_nat chunk) (remaining - chunk)))"
  by pat_completeness auto
termination
proof (relation "measure (\<lambda>(rd, cur, remaining). remaining)")
  fix cur :: u64 and remaining chunk shift :: nat
  assume "remaining \<noteq> 0" "shift = unat (cur AND 3)" "chunk = min remaining (4 - shift)"
  moreover have "cur AND 3 \<le> 3" by (rule word_and_le1)
  then have "unat (cur AND 3) \<le> 3" by (simp add: word_le_nat_alt)
  ultimately show "((rd :: u64 \<Rightarrow> u32, cur + of_nat chunk, remaining - chunk), rd, cur, remaining)
      \<in> measure (\<lambda>(rd, cur, remaining). remaining)" for rd
    by auto
qed simp

declare read_chunks.simps [simp del]

definition word_read :: "(u64 \<Rightarrow> 's \<Rightarrow> u32) \<Rightarrow> u64 \<Rightarrow> nat \<Rightarrow> 's \<Rightarrow> (u8 list \<times> 's) ub" where
  "word_read rd off len s = Some (read_chunks (\<lambda>a. rd a s) off len, s)"

definition is_aligned32 :: "u64 \<Rightarrow> bool" where
  "is_aligned32 off \<longleftrightarrow> off AND 3 = 0"

definition word_write :: "(u64 \<Rightarrow> u32 \<Rightarrow> 's \<Rightarrow> 's) \<Rightarrow> u64 \<Rightarrow> u8 list \<Rightarrow> 's \<Rightarrow> 's ub" where
  "word_write wr off bs s =
     Some (if length bs = 4 \<and> is_aligned32 off then wr off (le_word bs) s else s)"

subsection \<open>The bytes of a read\<close>

lemma unat_low: "unat (a AND 3 :: u64) = unat a mod 4"
proof -
  have "a AND 3 = take_bit 2 a" by (simp add: take_bit_eq_mask mask_eq_exp_minus_1)
  moreover have "unat (take_bit 2 a) = take_bit 2 (unat a)" by (rule unsigned_take_bit_eq)
  ultimately show ?thesis by (simp add: take_bit_eq_mod)
qed

lemma unat_high: "unat (a AND NOT 3 :: u64) = unat a div 4 * 4"
proof -
  have "(a AND NOT 3) + (a AND 3) = (a AND NOT 3) OR (a AND 3)"
    by (rule disjunctive_add_eq_or, rule bit_word_eqI) (simp only: bit_and_iff bit_not_iff bit_0_eq, blast)
  also have "\<dots> = a"
    by (rule bit_word_eqI) (auto simp only: bit_and_iff bit_or_iff bit_not_iff possible_bit_word)
  finally have split: "a AND NOT 3 = a - (a AND 3)" by (simp add: eq_diff_eq)
  have "unat a div 4 * 4 = unat a - unat a mod 4" by (rule minus_mod_eq_div_mult [symmetric])
  then show ?thesis
    unfolding split by (simp add: unat_sub word_and_le2 unat_low del: minus_mod_eq_div_mult)
qed

lemma low_bits_bound: "unat (a AND 3 :: u64) < 4"
  by (simp add: unat_low)

lemma div_mod_inside:
  assumes "x mod 4 + i < (4 :: nat)"
  shows "(x + i) div 4 = x div 4" and "(x + i) mod 4 = x mod 4 + i"
proof -
  have x: "x + i = 4 * (x div 4) + (x mod 4 + i)" by simp
  have "(4 * (x div 4) + (x mod 4 + i)) div 4 = x div 4"
    using assms by (simp only: div_mult_self4 div_less)
  moreover have "(4 * (x div 4) + (x mod 4 + i)) mod 4 = x mod 4 + i"
    using assms by (simp only: mod_mult_self4 mod_less)
  ultimately show "(x + i) div 4 = x div 4" and "(x + i) mod 4 = x mod 4 + i" unfolding x[symmetric] .
qed

text \<open>Staying inside a word.\<close>

lemma word_offset:
  fixes a :: u64
  assumes "unat (a AND 3) + i < 4"
  shows "(a + of_nat i) AND NOT 3 = a AND NOT 3" and "unat ((a + of_nat i) AND 3) = unat (a AND 3) + i"
proof -
  have i: "unat (of_nat i :: u64) = i" using assms by (intro unat_of_nat_small) simp
  have low: "unat a mod 4 + i < 4" using assms by (simp add: unat_low)
  have "unat a div 4 < 2 ^ 62" using unat_bound[of a] by (simp add: less_mult_imp_div_less)
  then have "unat a div 4 * 4 + 4 \<le> 2 ^ 64" by simp
  then have "unat a + i < 2 ^ 64" using low div_mult_mod_eq[of "unat a" 4] by linarith
  then have sum: "unat (a + of_nat i) = unat a + i" using i by (subst unat_add_small) simp_all
  have "(unat a + i) div 4 = unat a div 4" "(unat a + i) mod 4 = unat a mod 4 + i"
    using div_mod_inside[OF low] by (simp_all only:)
  then show "(a + of_nat i) AND NOT 3 = a AND NOT 3"
    and "unat ((a + of_nat i) AND 3) = unat (a AND 3) + i"
    unfolding word_unat_eq_iff unat_high unat_low sum by (simp_all only:)
qed

text \<open>Every byte of a read is the addressed byte of the register that holds it.\<close>

lemma read_chunks_bytes:
  "read_chunks rd cur n =
     map (\<lambda>i. le_bytes 4 (rd ((cur + of_nat i) AND NOT 3)) ! unat ((cur + of_nat i) AND 3)) [0..<n]"
proof (induction n arbitrary: cur rule: less_induct)
  case (less n)
  show ?case
  proof (cases "n = 0")
    case False
    define k where "k = min n (4 - unat (cur AND 3))"
    have k: "0 < k" "k \<le> n" "unat (cur AND 3) + k \<le> 4" using False low_bits_bound[of cur] by (auto simp: k_def)
    let ?f = "\<lambda>i. le_bytes 4 (rd ((cur + of_nat i) AND NOT 3)) ! unat ((cur + of_nat i) AND 3)"
    have "take k (drop (unat (cur AND 3)) (le_bytes 4 (rd (cur AND NOT 3)))) = map ?f [0..<k]"
    proof (rule nth_equalityI)
      fix i assume "i < length (take k (drop (unat (cur AND 3)) (le_bytes 4 (rd (cur AND NOT 3)))))"
      then have i: "i < k" by simp
      then have "unat (cur AND 3) + i < 4" using k(3) by linarith
      from word_offset[OF this] show "take k (drop (unat (cur AND 3)) (le_bytes 4 (rd (cur AND NOT 3)))) ! i
          = map ?f [0..<k] ! i"
        using i k(3) by simp
    qed (use k in simp)
    moreover have "read_chunks rd (cur + of_nat k) (n - k) = map ?f [k..<n]"
    proof -
      have "map ?f [k..<n] = map (\<lambda>i. ?f (k + i)) [0..<n - k]"
        by (rule nth_equalityI) simp_all
      moreover have "n - k < n" using k(1,2) by linarith
      ultimately show ?thesis by (simp add: less.IH add.assoc)
    qed
    moreover have "map ?f [0..<n] = map ?f [0..<k] @ map ?f [k..<n]"
      using upt_add_eq_append[of 0 k "n - k"] k(2) by simp
    ultimately show ?thesis
      using False by (subst read_chunks.simps) (simp add: k_def[symmetric] Let_def)
  qed (simp add: read_chunks.simps)
qed

lemma length_read_chunks [simp]: "length (read_chunks rd cur n) = n"
  by (simp add: read_chunks_bytes)

subsection \<open>The contract of a word window\<close>

locale word_window =
  fixes n :: nat
    and rd :: "u64 \<Rightarrow> 's \<Rightarrow> u32"
    and wr :: "u64 \<Rightarrow> u32 \<Rightarrow> 's \<Rightarrow> 's"
    and tr :: "payload \<Rightarrow> 's \<Rightarrow> 's"
    and inv :: "'s \<Rightarrow> bool"
  assumes size_small: "n < 2 ^ 32"
    and word_inv: "inv s \<Longrightarrow> inv (wr off v s)"
    and hook_inv: "inv s \<Longrightarrow> inv (tr t s)"

sublocale word_window < reg_window n "word_read rd" "word_write wr" tr inv
proof
  show "n < 2 ^ 32" by (rule size_small)
qed (auto simp: word_read_def word_write_def word_inv hook_inv)

context word_window
begin

text \<open>What a granted access does to the state.\<close>

lemma access_cases:
  assumes "reg_access n (word_read rd) (word_write wr) tr t s = Some (True, t', s')"
  obtains (read) t1 where "p_command t = TLM_READ_COMMAND" "s' = tr t1 s"
  | (word) v where "p_command t = TLM_WRITE_COMMAND" "unat (p_len t) = 4" "is_aligned32 (p_address t)"
      "s' = tr t (wr (p_address t) v s)"
  | (ignored) "p_command t = TLM_WRITE_COMMAND" "s' = tr t s"
  using assms that
  by (auto simp: reg_access_def word_read_def word_write_def Let_def min_def bind_eq_Some_conv
      split: option.splits if_splits tlm_command.splits)

text \<open>The two accesses software makes: an aligned word write, and a read of any width.\<close>

lemma access_word_write:
  assumes "unat a + 4 \<le> n" and "is_aligned32 a"
  shows "reg_access n (word_read rd) (word_write wr) tr (write_payload a (le_bytes 4 v)) s =
    Some (True, (write_payload a (le_bytes 4 v))\<lparr>p_response := TLM_OK_RESPONSE\<rparr>,
      tr (write_payload a (le_bytes 4 v)) (wr a v s))"
proof -
  have "is_supported_length 4" by (simp add: is_supported_length_def)
  moreover from this have "\<not> beyond n a 4"
    using assms(1) size_small by (subst beyond_iff_no_wrap) simp_all
  ultimately show ?thesis using assms(2) by (simp add: reg_access_def word_write_def)
qed

lemma access_bytes:
  assumes "reg_access n (word_read rd) (word_write wr) tr t s = Some (True, t', s')"
    and "p_command t = TLM_READ_COMMAND"
  shows "\<exists>buf. p_data t = Some buf \<and> s' = tr (t\<lparr>p_data := p_data t'\<rparr>) s \<and>
    p_data t' = Some (map (\<lambda>i. le_bytes 4 (rd ((p_address t + of_nat i) AND NOT 3) s)
      ! unat ((p_address t + of_nat i) AND 3)) [0..<unat (p_len t)] @ drop (unat (p_len t)) buf)"
  using assms
  by (auto simp: reg_access_def word_read_def read_chunks_bytes Let_def split: option.splits if_splits)

end

end
