(* ===== verification/Rse_Atu.thy ===== *)
theory Rse_Atu
  imports Tlm_Regs
begin

text \<open>
  The address translation unit \<^verbatim>\<open>rse_atu\<close> (\<^verbatim>\<open>src/systemc-components/rse_atu/include/rse_atu.h\<close>):
  up to 32 regions, each with a start page, an end page, a signed page offset and a bus
  attribute word, map logical addresses of the RSE to physical ones. The register window is a
  register block of \<open>Tlm_Regs\<close>; the translation window forwards payloads and direct memory
  pointers to the socket behind it, which is a parameter of the model.
\<close>

subsection \<open>Constants\<close>

abbreviation (input) ATU_REG_BYTES :: nat where "ATU_REG_BYTES \<equiv> 0x1000"
abbreviation (input) ATUBC :: nat where "ATUBC \<equiv> 0x000"
abbreviation (input) ATUC :: nat where "ATUC \<equiv> 0x004"
abbreviation (input) ATUIS :: nat where "ATUIS \<equiv> 0x008"
abbreviation (input) ATUIE :: nat where "ATUIE \<equiv> 0x00c"
abbreviation (input) ATUIC :: nat where "ATUIC \<equiv> 0x010"
abbreviation (input) ATUMA :: nat where "ATUMA \<equiv> 0x014"
abbreviation (input) ATURSLA_BASE :: nat where "ATURSLA_BASE \<equiv> 0x020"
abbreviation (input) ATURELA_BASE :: nat where "ATURELA_BASE \<equiv> 0x0a0"
abbreviation (input) ATURAV_L_BASE :: nat where "ATURAV_L_BASE \<equiv> 0x120"
abbreviation (input) ATURAV_M_BASE :: nat where "ATURAV_M_BASE \<equiv> 0x1a0"
abbreviation (input) ATUROBA_BASE :: nat where "ATUROBA_BASE \<equiv> 0x220"
abbreviation (input) ATURGPV_BASE :: nat where "ATURGPV_BASE \<equiv> 0x2a0"
abbreviation (input) REGION_COUNT :: nat where "REGION_COUNT \<equiv> 32"
abbreviation (input) REGION_STRIDE :: nat where "REGION_STRIDE \<equiv> 4"
abbreviation (input) ATUBC_RC_MASK :: u32 where "ATUBC_RC_MASK \<equiv> 0x7"
abbreviation (input) ATUBC_PS_MASK :: u32 where "ATUBC_PS_MASK \<equiv> 0xf0"
abbreviation (input) ATUIS_MISMATCH_ERROR :: u32 where "ATUIS_MISMATCH_ERROR \<equiv> 0x1"
abbreviation (input) ATU_REGION_ROBA_MASK :: u32 where "ATU_REGION_ROBA_MASK \<equiv> 0xffff"
abbreviation (input) ATUROBA_AXPROT1_OFF :: nat where "ATUROBA_AXPROT1_OFF \<equiv> 2"
abbreviation (input) ATUROBA_AXNSE_OFF :: nat where "ATUROBA_AXNSE_OFF \<equiv> 14"
abbreviation (input) ATU_ROBA_PASSTHROUGH :: u32 where "ATU_ROBA_PASSTHROUGH \<equiv> 0"
abbreviation (input) ATU_ROBA_RESERVED :: u32 where "ATU_ROBA_RESERVED \<equiv> 1"
abbreviation (input) ATU_ROBA_SET_0 :: u32 where "ATU_ROBA_SET_0 \<equiv> 2"
abbreviation (input) ATU_ROBA_SET_1 :: u32 where "ATU_ROBA_SET_1 \<equiv> 3"

subsection \<open>Parameters and state\<close>

text \<open>
  \<open>atu_initiator_bound\<close> and \<open>atu_translation_bound\<close> say whether the two optional sockets are
  bound (\<^verbatim>\<open>size() != 0\<close>).
\<close>

record atu_params =
  atu_p_trace :: bool
  atu_p_trace_limit :: u32
  atu_p_trace_filter :: string
  atu_p_trace_address_min :: u64
  atu_p_trace_address_max :: u64
  atu_p_build_config :: u32
  atu_p_permitted_security_domains :: u32
  atu_p_enable_dmi :: bool
  atu_initiator_bound :: bool
  atu_translation_bound :: bool

definition atu_default_params :: atu_params where
  "atu_default_params = \<lparr>
     atu_p_trace = False, atu_p_trace_limit = 64, atu_p_trace_filter = ''all'',
     atu_p_trace_address_min = 0, atu_p_trace_address_max = 0,
     atu_p_build_config = 0xc5, atu_p_permitted_security_domains = 0xf,
     atu_p_enable_dmi = False, atu_initiator_bound = True, atu_translation_bound = True\<rparr>"

text \<open>\<open>atu_invalidations\<close> counts the calls that withdraw every direct memory pointer upstream.\<close>

record rse_atu = reg_state +
  atu_invalidations :: nat

datatype translation_fault =
    Fault_none | Fault_unmapped | Fault_disabled | Fault_out_of_range
  | Fault_permission | Fault_overflow

record translation_info =
  ti_region :: nat
  ti_logical_start :: u64
  ti_logical_end :: u64
  ti_offset_pages :: u64
  ti_offset :: u64
  ti_physical :: u64
  ti_fault :: translation_fault

definition empty_info :: translation_info where
  "empty_info = \<lparr>ti_region = 0, ti_logical_start = 0, ti_logical_end = 0, ti_offset_pages = 0,
     ti_offset = 0, ti_physical = 0, ti_fault = Fault_none\<rparr>"

subsection \<open>Register decoding\<close>

definition atu_in_range :: "nat \<Rightarrow> nat \<Rightarrow> bool" where
  "atu_in_range off base \<longleftrightarrow>
     off \<ge> base \<and> off < base + REGION_COUNT * REGION_STRIDE \<and> (off - base) mod REGION_STRIDE = 0"

definition is_region_array_offset :: "nat \<Rightarrow> bool" where
  "is_region_array_offset off \<longleftrightarrow>
     atu_in_range off ATURSLA_BASE \<or> atu_in_range off ATURELA_BASE \<or>
     atu_in_range off ATURAV_L_BASE \<or> atu_in_range off ATURAV_M_BASE \<or>
     atu_in_range off ATUROBA_BASE \<or> atu_in_range off ATURGPV_BASE"

definition page_shift :: "rse_atu \<Rightarrow> nat" where
  "page_shift s = unat (drop_bit 4 (load32 s ATUBC AND ATUBC_PS_MASK))"

definition supported_region_count :: "rse_atu \<Rightarrow> nat" where
  "supported_region_count s =
     (let rc = unat (load32 s ATUBC AND ATUBC_RC_MASK);
          count = unat (push_bit rc 1 :: u32)
      in min count REGION_COUNT)"

definition region_offset_pages :: "rse_atu \<Rightarrow> nat \<Rightarrow> u64" where
  "region_offset_pages s region =
     push_bit 32 (ucast (load32 s (ATURAV_M_BASE + region * REGION_STRIDE))) OR
     ucast (load32 s (ATURAV_L_BASE + region * REGION_STRIDE))"

definition region_start_page :: "rse_atu \<Rightarrow> nat \<Rightarrow> u32" where
  "region_start_page s region = load32 s (ATURSLA_BASE + region * REGION_STRIDE)"

definition region_end_page :: "rse_atu \<Rightarrow> nat \<Rightarrow> u32" where
  "region_end_page s region = load32 s (ATURELA_BASE + region * REGION_STRIDE)"

definition region_roba :: "rse_atu \<Rightarrow> nat \<Rightarrow> u32" where
  "region_roba s region =
     load32 s (ATUROBA_BASE + region * REGION_STRIDE) AND ATU_REGION_ROBA_MASK"

definition region_configured :: "rse_atu \<Rightarrow> nat \<Rightarrow> bool" where
  "region_configured s region \<longleftrightarrow>
     region_start_page s region \<noteq> 0 \<or> region_end_page s region \<noteq> 0 \<or>
     region_offset_pages s region \<noteq> 0 \<or> region_roba s region \<noteq> 0 \<or>
     load32 s (ATURGPV_BASE + region * REGION_STRIDE) \<noteq> 0"

text \<open>\<open>None\<close> is the result \<^verbatim>\<open>false\<close>; \<open>Some b\<close> is \<^verbatim>\<open>true\<close> with the out parameter \<open>b\<close>.\<close>

definition roba_field_to_bit :: "u32 \<Rightarrow> bool option" where
  "roba_field_to_bit field =
     (let f = field AND 0x3 in
      if f = ATU_ROBA_PASSTHROUGH \<or> f = ATU_ROBA_SET_0 then Some False
      else if f = ATU_ROBA_SET_1 then Some True
      else None)"

definition region_security_allowed :: "atu_params \<Rightarrow> rse_atu \<Rightarrow> nat \<Rightarrow> bool" where
  "region_security_allowed P s region =
     (let roba = region_roba s region in
      case (roba_field_to_bit (drop_bit ATUROBA_AXNSE_OFF roba),
            roba_field_to_bit (drop_bit ATUROBA_AXPROT1_OFF roba)) of
        (Some nse, Some prot1) \<Rightarrow>
          (let domain = (2 * of_bool nse + of_bool prot1 :: nat)
           in atu_p_permitted_security_domains P AND push_bit domain 1 \<noteq> 0)
      | _ \<Rightarrow> False)"

subsection \<open>Reset, register writes, DMI invalidation\<close>

definition atu_reset_registers :: "atu_params \<Rightarrow> rse_atu \<Rightarrow> rse_atu" where
  "atu_reset_registers P s = store32 ATUBC (atu_p_build_config P) (s\<lparr>m_regs := (\<lambda>_. 0)\<rparr>)"

definition invalidate_translation_dmi :: "atu_params \<Rightarrow> rse_atu \<Rightarrow> rse_atu" where
  "invalidate_translation_dmi P s =
     (if \<not> atu_p_enable_dmi P \<or> \<not> atu_translation_bound P then s
      else s\<lparr>atu_invalidations := atu_invalidations s + 1\<rparr>)"

definition atu_write32 :: "atu_params \<Rightarrow> nat \<Rightarrow> u32 \<Rightarrow> rse_atu \<Rightarrow> rse_atu" where
  "atu_write32 P off v s =
     (let (s', mapping_changed) =
        (if off = ATUBC \<or> off = ATUIS \<or> off = ATUMA then (s, False)
         else if off = ATUIC then
           (store32 ATUIC v (store32 ATUIS (load32 s ATUIS AND NOT v) s), False)
         else if off = ATUC \<or> off = ATUIE then (store32 off v s, off = ATUC)
         else if is_region_array_offset off then
           (store32 off (if atu_in_range off ATUROBA_BASE then v AND ATU_REGION_ROBA_MASK else v) s,
            True)
         else (store32 off v s, False))
      in if mapping_changed then invalidate_translation_dmi P s' else s')"

subsection \<open>Address arithmetic\<close>

definition range_end :: "u64 \<Rightarrow> u32 \<Rightarrow> u64" where
  "range_end start len =
     (if len = 0 then start
      else let span = ucast len - 1 :: u64
           in if start > -1 - span then -1 else start + span)"

definition offset_is_negative :: "u64 \<Rightarrow> bool" where
  "offset_is_negative off \<longleftrightarrow> off AND push_bit 63 1 \<noteq> 0"

definition negative_offset_delta :: "u64 \<Rightarrow> u64" where
  "negative_offset_delta off = NOT off + 1"

definition apply_region_offset :: "u64 \<Rightarrow> u64 \<Rightarrow> u64 option" where
  "apply_region_offset logical off =
     (if offset_is_negative off then
        (let delta = negative_offset_delta off
         in if logical < delta then None else Some (logical - delta))
      else if logical > -1 - off then None
      else Some (logical + off))"

subsection \<open>Translation\<close>

definition latch_translation_fault :: "u64 \<Rightarrow> rse_atu \<Rightarrow> rse_atu" where
  "latch_translation_fault logical s =
     store32 ATUMA (ucast logical) (store32 ATUIS (load32 s ATUIS OR ATUIS_MISMATCH_ERROR) s)"

definition region_first :: "rse_atu \<Rightarrow> nat \<Rightarrow> u64" where
  "region_first s region = push_bit (page_shift s) (ucast (region_start_page s region))"

definition region_limit :: "rse_atu \<Rightarrow> nat \<Rightarrow> u64" where
  "region_limit s region = push_bit (page_shift s) (ucast (region_end_page s region) + 1)"

text \<open>What the loop does with the first region that covers the access and is enabled.\<close>

definition translate_region ::
    "atu_params \<Rightarrow> rse_atu \<Rightarrow> u64 \<Rightarrow> nat \<Rightarrow> bool \<times> translation_info" where
  "translate_region P s logical region =
     (let shifted_offset = region_offset_pages s region;
          info = empty_info\<lparr>
            ti_region := region, ti_logical_start := region_first s region,
            ti_logical_end := region_limit s region - 1, ti_offset_pages := shifted_offset\<rparr>
      in if shifted_offset > drop_bit (page_shift s) (- 1)
         then (False, info\<lparr>ti_fault := Fault_overflow\<rparr>)
         else
           (let info = info\<lparr>ti_offset := push_bit (page_shift s) shifted_offset\<rparr> in
            case apply_region_offset logical (ti_offset info) of
              None \<Rightarrow> (False, info\<lparr>ti_fault := Fault_overflow\<rparr>)
            | Some phys \<Rightarrow>
                (let info = info\<lparr>ti_physical := phys\<rparr> in
                 if \<not> region_security_allowed P s region
                 then (False, info\<lparr>ti_fault := Fault_permission\<rparr>)
                 else (True, info\<lparr>ti_fault := Fault_none\<rparr>))))"

text \<open>The loop over the regions, with the fault to report when none is used.\<close>

fun translate_loop ::
    "atu_params \<Rightarrow> rse_atu \<Rightarrow> u64 \<Rightarrow> u64 \<Rightarrow> translation_fault \<Rightarrow> nat list \<Rightarrow>
     bool \<times> translation_info" where
  "translate_loop P s logical access_len pending [] =
     (False, empty_info\<lparr>ti_fault := pending\<rparr>)"
| "translate_loop P s logical access_len pending (region # regions) =
     (let start = region_first s region; end = region_limit s region in
      if \<not> region_configured s region then translate_loop P s logical access_len pending regions
      else if end \<le> start \<or> logical < start \<or> logical \<ge> end
      then translate_loop P s logical access_len pending regions
      else if access_len > end - logical
      then translate_loop P s logical access_len Fault_out_of_range regions
      else if load32 s ATUC AND push_bit region 1 = 0
      then translate_loop P s logical access_len
             (if pending = Fault_unmapped then Fault_disabled else pending) regions
      else translate_region P s logical region)"

definition translate_range ::
    "atu_params \<Rightarrow> u64 \<Rightarrow> u32 \<Rightarrow> bool \<Rightarrow> rse_atu \<Rightarrow> bool \<times> translation_info \<times> rse_atu" where
  "translate_range P logical len latch_fault s =
     (let access_len = (if len = 0 then 1 else ucast len);
          (ok, info) = translate_loop P s logical access_len Fault_unmapped
                         [0..<supported_region_count s]
      in (ok, info, if \<not> ok \<and> latch_fault then latch_translation_fault logical s else s))"

definition translate_address :: "atu_params \<Rightarrow> u64 \<Rightarrow> u32 \<Rightarrow> rse_atu \<Rightarrow> u64 option \<times> rse_atu" where
  "translate_address P logical len s =
     (let (ok, info, s') = translate_range P logical len True s
      in (if ok then Some (ti_physical info) else None, s'))"

subsection \<open>Tracing filters\<close>

text \<open>The loop over the comma-separated tokens of the filter.\<close>

function token_matches :: "string \<Rightarrow> string \<Rightarrow> bool" where
  "token_matches filt token =
     (if takeWhile (\<lambda>c. c \<noteq> CHR '','') filt = token then True
      else (case dropWhile (\<lambda>c. c \<noteq> CHR '','') filt of
              [] \<Rightarrow> False
            | _ # rest \<Rightarrow> token_matches rest token))"
  by pat_completeness auto
termination
proof (relation "measure (\<lambda>(filt, token). length filt)")
  fix filt token :: string and c rest
  assume "dropWhile (\<lambda>c. c \<noteq> CHR '','') filt = c # rest"
  then have "length (c # rest) \<le> length filt" by (metis length_dropWhile_le)
  then show "((rest, token), (filt, token)) \<in> measure (\<lambda>(filt, token). length filt)" by simp
qed simp

definition trace_category_matches :: "atu_params \<Rightarrow> string \<Rightarrow> tlm_command \<Rightarrow> bool" where
  "trace_category_matches P category command =
     (let filt = atu_p_trace_filter P in
      if filt = [] \<or> filt = ''all'' then True
      else if token_matches filt category then True
      else (case command of
              TLM_READ_COMMAND \<Rightarrow> token_matches filt ''read''
            | TLM_WRITE_COMMAND \<Rightarrow> token_matches filt ''write''
            | TLM_IGNORE_COMMAND \<Rightarrow> False))"

definition trace_range_matches :: "atu_params \<Rightarrow> u64 \<Rightarrow> u64 \<Rightarrow> bool" where
  "trace_range_matches P start end =
     (let min_address = atu_p_trace_address_min P; max_address = atu_p_trace_address_max P in
      if min_address = 0 \<and> max_address = 0 then True
      else if end < min_address then False
      else if max_address \<noteq> 0 \<and> start > max_address then False
      else True)"

definition trace_address_matches :: "atu_params \<Rightarrow> u64 \<Rightarrow> u32 \<Rightarrow> bool" where
  "trace_address_matches P address len = trace_range_matches P address (range_end address len)"

definition trace_translation_address_matches ::
    "atu_params \<Rightarrow> u64 \<Rightarrow> u32 \<Rightarrow> translation_info \<Rightarrow> bool \<Rightarrow> bool" where
  "trace_translation_address_matches P logical len info translated \<longleftrightarrow>
     trace_address_matches P logical len \<or>
     translated \<and> trace_address_matches P (ti_physical info) len"

definition atu_trace_access :: "atu_params \<Rightarrow> payload \<Rightarrow> rse_atu \<Rightarrow> rse_atu" where
  "atu_trace_access P t s =
     count_trace (atu_p_trace P \<and> trace_category_matches P ''register'' (p_command t) \<and>
                  trace_address_matches P (p_address t) (p_len t))
       (atu_p_trace_limit P) s"

definition trace_translation ::
    "atu_params \<Rightarrow> payload \<Rightarrow> u64 \<Rightarrow> u32 \<Rightarrow> translation_info \<Rightarrow> bool \<Rightarrow> rse_atu \<Rightarrow> rse_atu" where
  "trace_translation P t logical len info translated s =
     count_trace (atu_p_trace P \<and> trace_category_matches P ''translation'' (p_command t) \<and>
                  trace_translation_address_matches P logical len info translated)
       (atu_p_trace_limit P) s"

definition trace_dmi ::
    "atu_params \<Rightarrow> payload \<Rightarrow> u64 \<Rightarrow> u32 \<Rightarrow> translation_info \<Rightarrow> bool \<Rightarrow> rse_atu \<Rightarrow> rse_atu" where
  "trace_dmi P t logical len info translated s =
     count_trace (atu_p_trace P \<and> trace_category_matches P ''dmi'' (p_command t) \<and>
                  trace_translation_address_matches P logical len info translated)
       (atu_p_trace_limit P) s"

subsection \<open>The register window\<close>

definition atu_access :: "atu_params \<Rightarrow> payload \<Rightarrow> rse_atu \<Rightarrow> (bool \<times> payload \<times> rse_atu) ub" where
  "atu_access P = block_access ATU_REG_BYTES (atu_write32 P) (atu_trace_access P)"

definition atu_b_transport :: "atu_params \<Rightarrow> payload \<Rightarrow> rse_atu \<Rightarrow> (payload \<times> rse_atu) ub" where
  "atu_b_transport P = b_transport_of (atu_access P)"

definition atu_transport_dbg ::
    "atu_params \<Rightarrow> payload \<Rightarrow> rse_atu \<Rightarrow> (u32 \<times> payload \<times> rse_atu) ub" where
  "atu_transport_dbg P = transport_dbg_of (atu_access P)"

definition atu_init :: "atu_params \<Rightarrow> rse_atu" where
  "atu_init P = atu_reset_registers P
     \<lparr>m_regs = (\<lambda>_. 0), m_trace_count = 0, atu_invalidations = 0\<rparr>"

subsection \<open>The translation window\<close>

text \<open>
  \<open>down\<close> is the target behind the initiator socket with its own state: \<^verbatim>\<open>b_transport\<close> or
  \<^verbatim>\<open>transport_dbg\<close>, chosen by the flag, whose byte count the code ignores.
\<close>

definition forward_translation ::
    "atu_params \<Rightarrow> (bool \<Rightarrow> payload \<Rightarrow> 'm \<Rightarrow> payload \<times> 'm) \<Rightarrow> bool \<Rightarrow> payload \<Rightarrow> rse_atu \<times> 'm \<Rightarrow>
     bool \<times> payload \<times> rse_atu \<times> 'm" where
  "forward_translation P down debug t sm =
     (case sm of (s, m) \<Rightarrow>
      if \<not> atu_initiator_bound P
      then (False, t\<lparr>p_response := TLM_ADDRESS_ERROR_RESPONSE\<rparr>, s, m)
      else if p_data t = None \<or> p_len t = 0
      then (let t' = t\<lparr>p_response := TLM_ADDRESS_ERROR_RESPONSE\<rparr> in
            (False, t', trace_translation P t' (p_address t) (p_len t) empty_info False s, m))
      else
        (let logical = p_address t;
             (ok, info, s1) = translate_range P logical (p_len t) True s
         in if \<not> ok then
              (let t' = t\<lparr>p_response := TLM_ADDRESS_ERROR_RESPONSE\<rparr> in
               (False, t', trace_translation P t' logical (p_len t) info False s1, m))
            else
              (let (t1, m') = down debug (t\<lparr>p_address := ti_physical info\<rparr>) m;
                   t2 = t1\<lparr>p_address := logical\<rparr>
               in (is_response_ok t2, t2,
                   trace_translation P t2 logical (p_len t) info (is_response_ok t2) s1, m'))))"

definition translation_b_transport ::
    "atu_params \<Rightarrow> (bool \<Rightarrow> payload \<Rightarrow> 'm \<Rightarrow> payload \<times> 'm) \<Rightarrow> payload \<Rightarrow> rse_atu \<times> 'm \<Rightarrow>
     payload \<times> rse_atu \<times> 'm" where
  "translation_b_transport P down t sm =
     snd (forward_translation P down False (t\<lparr>p_dmi_allowed := False\<rparr>) sm)"

definition translation_transport_dbg ::
    "atu_params \<Rightarrow> (bool \<Rightarrow> payload \<Rightarrow> 'm \<Rightarrow> payload \<times> 'm) \<Rightarrow> payload \<Rightarrow> rse_atu \<times> 'm \<Rightarrow>
     u32 \<times> payload \<times> rse_atu \<times> 'm" where
  "translation_transport_dbg P down t sm =
     (let (ok, t', sm') = forward_translation P down True t sm
      in (if ok then p_len t' else 0, t', sm'))"

subsection \<open>Direct memory pointers\<close>

text \<open>
  The DMI descriptor: a host pointer, as an index into host memory, for the byte at the start
  address, and the inclusive address window it is valid for.
\<close>

record tlm_dmi =
  dmi_ptr :: int
  dmi_start :: u64
  dmi_end :: u64

text \<open>
  The window of logical addresses behind a downstream window, before it is cut to the region;
  \<open>None\<close> for the early returns \<^verbatim>\<open>invalid_range\<close>.
\<close>

definition dmi_logical_window :: "u64 \<Rightarrow> u64 \<Rightarrow> u64 \<Rightarrow> (u64 \<times> u64) option" where
  "dmi_logical_window off downstream_start downstream_end =
     (let window =
       (if offset_is_negative off then
          (let delta = negative_offset_delta off in
           if downstream_start > -1 - delta then None
           else Some (downstream_start + delta,
                      if downstream_end > -1 - delta then -1 else downstream_end + delta))
        else if downstream_end < off then None
        else Some (if downstream_start < off then 0 else downstream_start - off,
                   downstream_end - off))
      in case window of
           None \<Rightarrow> None
         | Some (logical_start, logical_end) \<Rightarrow>
             if logical_start > logical_end then None else Some (logical_start, logical_end))"

text \<open>The descriptor granted upstream, \<open>None\<close> when one of the remaining checks fails.\<close>

definition dmi_upstream :: "u64 \<Rightarrow> u32 \<Rightarrow> translation_info \<Rightarrow> tlm_dmi \<Rightarrow> tlm_dmi option" where
  "dmi_upstream logical len info d =
     (case dmi_logical_window (ti_offset info) (dmi_start d) (dmi_end d) of
        None \<Rightarrow> None
      | Some (logical_start, logical_end) \<Rightarrow>
          (let upstream_start = max logical_start (ti_logical_start info);
               upstream_end = min logical_end (ti_logical_end info);
               request_end = range_end logical len
           in if upstream_start > upstream_end \<or> logical < upstream_start \<or>
                 request_end > upstream_end then None
              else if \<not> offset_is_negative (ti_offset info) \<and>
                      upstream_start > -1 - ti_offset info then None
              else (case apply_region_offset upstream_start (ti_offset info) of
                      None \<Rightarrow> None
                    | Some physical_start \<Rightarrow>
                        if physical_start < dmi_start d then None
                        else Some (d\<lparr>dmi_ptr := dmi_ptr d + uint (physical_start - dmi_start d),
                                     dmi_start := upstream_start, dmi_end := upstream_end\<rparr>))))"

text \<open>
  \<open>gdmp\<close> is \<^verbatim>\<open>get_direct_mem_ptr\<close> of the target behind the initiator socket, which may update
  the payload and the descriptor it is given.
\<close>

definition translation_get_direct_mem_ptr ::
    "atu_params \<Rightarrow> (payload \<Rightarrow> tlm_dmi \<Rightarrow> bool \<times> payload \<times> tlm_dmi) \<Rightarrow> payload \<Rightarrow> tlm_dmi \<Rightarrow>
     rse_atu \<Rightarrow> bool \<times> payload \<times> tlm_dmi \<times> rse_atu" where
  "translation_get_direct_mem_ptr P gdmp t d s =
     (let logical = p_address t; len = p_len t; trace = trace_dmi P in
      if \<not> atu_initiator_bound P \<or> \<not> atu_p_enable_dmi P
      then (False, t, d, trace t logical len empty_info False s)
      else
        (let (ok, info, s1) = translate_range P logical len False s in
         if \<not> ok then (False, t, d, trace t logical len info False s1)
         else
           (let (granted, t1, d1) = gdmp (t\<lparr>p_address := ti_physical info\<rparr>) d;
                t2 = t1\<lparr>p_address := logical\<rparr>;
                s2 = trace t2 logical len info True s1
            in if \<not> granted then (False, t2, d1, s2)
               else (case dmi_upstream logical len info d1 of
                       None \<Rightarrow> (False, t2, d1, s2)
                     | Some d2 \<Rightarrow> (True, t2, d2, s2)))))"

text \<open>The call from downstream that withdraws direct memory pointers.\<close>

definition atu_invalidate_direct_mem_ptr :: "atu_params \<Rightarrow> u64 \<Rightarrow> u64 \<Rightarrow> rse_atu \<Rightarrow> rse_atu" where
  "atu_invalidate_direct_mem_ptr P start end s = invalidate_translation_dmi P s"

subsection \<open>The abstract translation\<close>

text \<open>The abstract translation: the first enabled region that covers the access decides.\<close>

definition region_covers :: "rse_atu \<Rightarrow> u64 \<Rightarrow> int \<Rightarrow> nat \<Rightarrow> bool" where
  "region_covers s logical n r \<longleftrightarrow>
     region_configured s r \<and>
     uint (region_start_page s r) * 2 ^ page_shift s \<le> uint logical \<and>
     uint logical + n \<le> (uint (region_end_page s r) + 1) * 2 ^ page_shift s"

definition region_enabled :: "rse_atu \<Rightarrow> nat \<Rightarrow> bool" where
  "region_enabled s r \<longleftrightarrow> bit (load32 s ATUC) r"

text \<open>The signed byte offset of a region, when it fits 64 bits.\<close>

definition region_offset :: "rse_atu \<Rightarrow> nat \<Rightarrow> int option" where
  "region_offset s r =
     (if uint (region_offset_pages s r) * 2 ^ page_shift s < 2 ^ 64
      then Some (sint (push_bit (page_shift s) (region_offset_pages s r))) else None)"

definition region_target :: "atu_params \<Rightarrow> rse_atu \<Rightarrow> u64 \<Rightarrow> nat \<Rightarrow> int option" where
  "region_target P s logical r =
     (case region_offset s r of
        None \<Rightarrow> None
      | Some off \<Rightarrow>
          if 0 \<le> uint logical + off \<and> uint logical + off < 2 ^ 64 \<and> region_security_allowed P s r
          then Some (uint logical + off) else None)"

definition atu_translation :: "atu_params \<Rightarrow> rse_atu \<Rightarrow> u64 \<Rightarrow> int \<Rightarrow> int option" where
  "atu_translation P s logical n =
     (case find (\<lambda>r. region_covers s logical n r \<and> region_enabled s r)
             [0..<supported_region_count s] of
        None \<Rightarrow> None
      | Some r \<Rightarrow> region_target P s logical r)"

text \<open>The registers a translation depends on.\<close>

definition translation_register :: "nat \<Rightarrow> bool" where
  "translation_register off \<longleftrightarrow> off = ATUBC \<or> off = ATUC \<or> is_region_array_offset off"

subsection \<open>Facts about the address arithmetic\<close>

lemma offset_is_negative_iff: "offset_is_negative off \<longleftrightarrow> sint off < 0"
  using uint_u64_bound[of off]
  unfolding offset_is_negative_def bit_iff_and_push_bit_not_eq_0[symmetric]
  by (simp add: sint_u64)

lemma uint_negative_offset_delta:
  assumes "sint off < 0" shows "uint (negative_offset_delta off) = - sint off"
proof -
  have neq: "off \<noteq> 0" using assms by auto
  have "negative_offset_delta off = - off" by (simp add: negative_offset_delta_def minus_eq_not_plus_1)
  then show ?thesis
    using assms neq uint_u64_bound[of off]
    by (simp add: sint_u64 uint_word_ariths zmod_zminus1_eq_if uint_0_iff split: if_splits)
qed

lemma apply_region_offset_Some:
  "apply_region_offset logical off = Some p \<longleftrightarrow> uint p = uint logical + sint off"
proof (cases "sint off < 0")
  case True
  have d: "uint (negative_offset_delta off) = - sint off"
    by (rule uint_negative_offset_delta[OF True])
  have lt: "logical < negative_offset_delta off \<longleftrightarrow> uint logical + sint off < 0"
    unfolding word_less_def d by linarith
  have sub: "\<not> logical < negative_offset_delta off \<Longrightarrow>
      uint (logical - negative_offset_delta off) = uint logical + sint off"
    using d by (simp add: uint_minus_simple_alt not_less) 
  have "logical < negative_offset_delta off \<Longrightarrow> uint p \<noteq> uint logical + sint off"
    using lt uint_u64_bound(1)[of p] by linarith
  then show ?thesis
    using True sub
    by (auto simp: apply_region_offset_def offset_is_negative_iff Let_def word_uint_eq_iff[of _ p])
next
  case False
  have so: "sint off = uint off" using False uint_u64_bound[of off] by (simp add: sint_u64 split: if_splits)
  have m: "uint (-1 - off) = 2 ^ 64 - 1 - uint off"
    using uint_u64_bound[of off] by (subst uint_sub_lem[THEN iffD1]) (simp_all add: uint_u64_max)
  have gt: "logical > -1 - off \<longleftrightarrow> uint logical + uint off \<ge> 2 ^ 64"
    using m by (auto simp: word_less_def)
  have add: "\<not> logical > -1 - off \<Longrightarrow> uint (logical + off) = uint logical + uint off"
    unfolding gt by (subst uint_add_lem[THEN iffD1]) simp_all
  show ?thesis
    using False gt add so uint_u64_bound[of p]
    by (auto simp: apply_region_offset_def offset_is_negative_iff word_uint_eq_iff[of _ p])
qed
lemma page_shift_bound: "page_shift s \<le> 15"
proof -
  have "load32 s ATUBC AND 0xf0 \<le> 0xf0" by (rule word_and_le1)
  then have "unat (load32 s ATUBC AND 0xf0) \<le> 240" by (simp add: word_le_nat_alt)
  then show ?thesis
    unfolding page_shift_def unat_drop_bit_eq by (simp only: drop_bit_eq_div) simp
qed

lemma uint_push_bit_page:
  assumes "uint w \<le> 2 ^ 32" and "k \<le> 15"
  shows "uint (push_bit k w :: u64) = uint w * 2 ^ k"
proof -
  have "uint w * 2 ^ k \<le> 2 ^ 32 * 2 ^ 15"
    using assms by (intro mult_mono power_increasing) simp_all
  then have "take_bit 64 (uint w * 2 ^ k) = uint w * 2 ^ k"
    by (simp add: take_bit_int_eq_self_iff)
  then show ?thesis unfolding unsigned_push_bit_eq by (simp add: push_bit_eq_mult)
qed

lemma uint_region_first:
  "uint (region_first s r) = uint (region_start_page s r) * 2 ^ page_shift s"
proof -
  have "uint (region_start_page s r) \<le> 2 ^ 32"
    using uint_u32_bound[of "region_start_page s r"] by simp
  then show ?thesis
    unfolding region_first_def by (simp add: uint_push_bit_page page_shift_bound)
qed

lemma uint_region_limit:
  "uint (region_limit s r) = (uint (region_end_page s r) + 1) * 2 ^ page_shift s"
proof -
  have "uint (region_end_page s r) < 2 ^ 32"
    using uint_u32_bound[of "region_end_page s r"] by simp
  moreover have "uint (ucast (region_end_page s r) + 1 :: u64) = uint (region_end_page s r) + 1"
    using calculation
    by (simp add: uint_word_ariths)
  ultimately show ?thesis
    unfolding region_limit_def by (simp add: uint_push_bit_page page_shift_bound)
qed

subsection \<open>The loop finds the deciding region\<close>

lemma supported_region_count_bound: "supported_region_count s \<le> 32"
  by (simp add: supported_region_count_def Let_def)

lemma offset_pages_overflow_iff:
  "k \<le> 15 \<Longrightarrow> off > drop_bit k (- 1 :: u64) \<longleftrightarrow> 2 ^ 64 \<le> uint off * 2 ^ k"
proof -
  assume k: "k \<le> 15"
  have "uint (drop_bit k (- 1 :: u64)) = (2 ^ 64 - 1) div 2 ^ k"
    unfolding unsigned_drop_bit_eq uint_u64_max
    by (simp add: drop_bit_eq_div take_bit_int_eq_self_iff)
  moreover have "(2 ^ 64 - 1) div 2 ^ k < uint off \<longleftrightarrow> 2 ^ 64 - 1 < uint off * 2 ^ k"
    by (rule int_div_less_iff) simp
  ultimately show ?thesis by (simp add: word_less_def) linarith
qed

lemma apply_region_offset_eq:
  "apply_region_offset logical off =
     (if 0 \<le> uint logical + sint off \<and> uint logical + sint off < 2 ^ 64
      then Some (logical + off) else None)"
proof (cases "apply_region_offset logical off")
  case None
  have "\<not> (0 \<le> uint logical + sint off \<and> uint logical + sint off < 2 ^ 64)"
    using None uint_add_sint[of logical off] apply_region_offset_Some[of logical off "logical + off"]
    by auto
  with None show ?thesis by simp
next
  case (Some p)
  then have p: "uint p = uint logical + sint off" by (simp add: apply_region_offset_Some)
  then have "p = logical + off"
    using uint_add_sint[of logical off] uint_u64_bound[of p] by (simp add: word_uint_eqI)
  with Some p show ?thesis using uint_u64_bound[of p] by auto
qed

lemma translate_region_spec:
  "translate_region P s logical r = (ok, info) \<Longrightarrow>
   (if ok then Some (uint (ti_physical info)) else None) = region_target P s logical r \<and>
   ti_region info = r \<and> ti_logical_start info = region_first s r \<and>
   ti_logical_end info = region_limit s r - 1 \<and>
   (ok \<longrightarrow> ti_offset info = push_bit (page_shift s) (region_offset_pages s r) \<and>
          apply_region_offset logical (ti_offset info) = Some (ti_physical info) \<and>
          ti_fault info = Fault_none) \<and>
   (\<not> ok \<longrightarrow> ti_fault info = Fault_overflow \<or> ti_fault info = Fault_permission)"
  unfolding translate_region_def offset_pages_overflow_iff[OF page_shift_bound]
  by (auto simp: apply_region_offset_eq region_target_def region_offset_def Let_def
      uint_add_sint empty_info_def split: if_splits)

lemma region_covers_words:
  assumes "1 \<le> uint n"
  shows "region_covers s logical (uint n) r \<longleftrightarrow>
    region_configured s r \<and>
    \<not> (region_limit s r \<le> region_first s r \<or> logical < region_first s r \<or>
       logical \<ge> region_limit s r) \<and>
    \<not> n > region_limit s r - logical"
proof (cases "logical < region_limit s r")
  case True
  then have "uint (region_limit s r - logical) = uint (region_limit s r) - uint logical"
    by (simp add: uint_minus_simple_alt[symmetric] less_imp_le)
  with True assms show ?thesis
    unfolding region_covers_def uint_region_first[symmetric] uint_region_limit[symmetric]
    by (auto simp: word_less_def word_le_def)
next
  case False
  with assms show ?thesis
    unfolding region_covers_def uint_region_first[symmetric] uint_region_limit[symmetric]
    by (auto simp: word_less_def word_le_def)
qed

lemma translate_loop_spec:
  assumes "1 \<le> uint n" and "pending \<noteq> Fault_none"
  shows "case find (\<lambda>r. region_covers s logical (uint n) r \<and> region_enabled s r) rs of
      None \<Rightarrow> \<not> fst (translate_loop P s logical n pending rs)
    | Some r \<Rightarrow> translate_loop P s logical n pending rs = translate_region P s logical r"
  using assms(2)
proof (induction rs arbitrary: pending)
  case (Cons r rs)
  show ?case
  proof (cases "region_covers s logical (uint n) r")
    case True
    then show ?thesis
      using Cons.prems Cons.IH[of Fault_disabled] Cons.IH[of pending]
      unfolding region_covers_words[OF assms(1)]
      by (auto simp: Let_def region_enabled_def split: option.splits)
  next
    case False
    then show ?thesis
      using Cons.prems Cons.IH[of Fault_out_of_range] Cons.IH[of pending]
      unfolding region_covers_words[OF assms(1)]
      by (auto simp: Let_def split: option.splits)
  qed
qed simp
lemma translate_range_spec:
  assumes "translate_range P logical len latch s = (ok, info, s')"
  defines "n \<equiv> if len = 0 then 1 else uint len"
  shows "(if ok then Some (uint (ti_physical info)) else None) = atu_translation P s logical n"
    and "ok \<Longrightarrow> s' = s"
    and "\<not> ok \<Longrightarrow> s' = (if latch then latch_translation_fault logical s else s)"
    and "ok \<Longrightarrow> find (\<lambda>r. region_covers s logical n r \<and> region_enabled s r)
                  [0..<supported_region_count s] = Some (ti_region info)"
    and "ok \<Longrightarrow> translate_region P s logical (ti_region info) = (True, info)"
proof -
  define w :: u64 where "w = (if len = 0 then 1 else ucast len)"
  have "1 \<le> uint len" if "len \<noteq> 0"
    using that uint_0_iff[of len] uint_u32_bound(1)[of len] by linarith
  then have n: "n = uint w" "1 \<le> uint w" by (auto simp: w_def n_def)
  obtain ok' info' where loop:
    "translate_loop P s logical w Fault_unmapped [0..<supported_region_count s] = (ok', info')"
    by fastforce
  with assms(1) have eq: "ok' = ok" "info' = info"
      "s' = (if \<not> ok \<and> latch then latch_translation_fault logical s else s)"
    by (auto simp: translate_range_def w_def)
  show "ok \<Longrightarrow> s' = s" "\<not> ok \<Longrightarrow> s' = (if latch then latch_translation_fault logical s else s)"
    using eq(3) by auto
  let ?f = "find (\<lambda>r. region_covers s logical n r \<and> region_enabled s r)
              [0..<supported_region_count s]"
  have spec: "case ?f of None \<Rightarrow> \<not> ok | Some r \<Rightarrow> translate_region P s logical r = (ok, info)"
    using translate_loop_spec[OF n(2), of Fault_unmapped P s logical
        "[0..<supported_region_count s]"] loop eq(1,2)
    by (simp add: n(1) split: option.splits)
  then show "(if ok then Some (uint (ti_physical info)) else None) = atu_translation P s logical n"
    using translate_region_spec[of P s logical _ ok info]
    by (auto simp: atu_translation_def split: option.splits)
  show "ok \<Longrightarrow> ?f = Some (ti_region info)"
    and "ok \<Longrightarrow> translate_region P s logical (ti_region info) = (True, info)"
    using spec translate_region_spec[of P s logical _ ok info] by (auto split: option.splits)
qed

subsection \<open>Which registers a translation depends on\<close>

lemma translation_registers_region:
  assumes "r < 32"
  shows "translation_register (ATURSLA_BASE + r * REGION_STRIDE)"
    "translation_register (ATURELA_BASE + r * REGION_STRIDE)"
    "translation_register (ATURAV_L_BASE + r * REGION_STRIDE)"
    "translation_register (ATURAV_M_BASE + r * REGION_STRIDE)"
    "translation_register (ATUROBA_BASE + r * REGION_STRIDE)"
    "translation_register (ATURGPV_BASE + r * REGION_STRIDE)"
  using assms by (simp_all add: translation_register_def is_region_array_offset_def atu_in_range_def)

lemma atu_translation_cong:
  assumes same: "\<And>off. translation_register off \<Longrightarrow> load32 s' off = load32 s off"
  shows "atu_translation P s' logical n = atu_translation P s logical n"
proof -
  have "load32 s' ATUBC = load32 s ATUBC" "load32 s' ATUC = load32 s ATUC"
    by (rule same, simp add: translation_register_def)+
  then have glob: "page_shift s' = page_shift s" "supported_region_count s' = supported_region_count s"
    "\<And>r. region_enabled s' r = region_enabled s r"
    by (simp_all add: page_shift_def supported_region_count_def region_enabled_def)
  have reg: "region_start_page s' r = region_start_page s r" "region_end_page s' r = region_end_page s r"
    "region_offset_pages s' r = region_offset_pages s r" "region_roba s' r = region_roba s r"
    "load32 s' (ATURGPV_BASE + r * REGION_STRIDE) = load32 s (ATURGPV_BASE + r * REGION_STRIDE)"
    if "r < 32" for r
    using same[OF translation_registers_region(1)[OF that]] same[OF translation_registers_region(2)[OF that]]
      same[OF translation_registers_region(3)[OF that]] same[OF translation_registers_region(4)[OF that]]
      same[OF translation_registers_region(5)[OF that]] same[OF translation_registers_region(6)[OF that]]
    by (simp_all add: region_start_page_def region_end_page_def region_offset_pages_def region_roba_def)
  have cov: "region_covers s' logical n r = region_covers s logical n r" if "r < 32" for r
    using reg[OF that] glob(1) by (simp add: region_covers_def region_configured_def)
  have tgt: "region_target P s' logical r = region_target P s logical r" if "r < 32" for r
    using reg[OF that] glob(1)
    by (simp add: region_target_def region_offset_def region_security_allowed_def)
  let ?rs = "[0..<supported_region_count s]"
  have lt: "r < 32" if "r \<in> set ?rs" for r
    using that supported_region_count_bound[of s] by simp
  have find_eq: "find (\<lambda>r. region_covers s' logical n r \<and> region_enabled s' r) ?rs =
        find (\<lambda>r. region_covers s logical n r \<and> region_enabled s r) ?rs"
    using lt cov glob(3) by (intro find_cong) auto
  have "r < 32" if "find (\<lambda>r. region_covers s logical n r \<and> region_enabled s r) ?rs = Some r" for r
    using that supported_region_count_bound[of s] by (auto simp: find_Some_iff)
  then show ?thesis
    using tgt by (simp add: atu_translation_def glob(2) find_eq split: option.split)
qed

lemma atu_in_range_aligned:
  "atu_in_range off base \<Longrightarrow> base mod 4 = 0 \<Longrightarrow> off mod 4 = 0 \<and> base \<le> off"
  unfolding atu_in_range_def by presburger

lemma translation_register_bounds:
  assumes "translation_register off" shows "off mod 4 = 0 \<and> (off < 8 \<or> 0x20 \<le> off)"
  using assms unfolding translation_register_def is_region_array_offset_def
  by (elim disjE) (auto dest!: atu_in_range_aligned)

lemma translation_register_store:
  assumes "translation_register off" and "off' mod 4 = 0" and "\<not> translation_register off'"
  shows "load32 (store32 off' v s) off = load32 s off"
proof -
  have "off \<noteq> off'" using assms by auto
  with translation_register_bounds[OF assms(1)] assms(2) show ?thesis
    by (simp add: load32_store32_aligned)
qed

lemma latch_translation:
  "atu_translation P (latch_translation_fault a s) logical n = atu_translation P s logical n"
  by (rule atu_translation_cong)
     (simp add: latch_translation_fault_def translation_register_store translation_register_def
       is_region_array_offset_def atu_in_range_def)

lemma invalidate_regs [simp]:
  "m_regs (invalidate_translation_dmi P s) = m_regs s"
  "load32 (invalidate_translation_dmi P s) off = load32 s off"
  by (simp_all add: invalidate_translation_dmi_def load32_def)

lemma atu_write32_translation:
  assumes "off mod 4 = 0" and "atu_translation P (atu_write32 P off v s) logical n \<noteq> atu_translation P s logical n"
    and "atu_p_enable_dmi P" and "atu_translation_bound P"
  shows "atu_invalidations (atu_write32 P off v s) = atu_invalidations s + 1"
proof (cases "off = ATUC \<or> is_region_array_offset off")
  case True
  then have "off \<notin> {ATUBC, ATUIS, ATUMA, ATUIC, ATUIE}"
    by (auto simp: is_region_array_offset_def atu_in_range_def)
  with True assms(3,4) show ?thesis
    by (auto simp: atu_write32_def invalidate_translation_dmi_def store32_def Let_def)
next
  case False
  have "load32 (atu_write32 P off v s) off' = load32 s off'" if reg: "translation_register off'" for off'
  proof (cases "off = ATUBC")
    case False
    then have no: "\<not> translation_register off"
      using \<open>\<not> (off = ATUC \<or> is_region_array_offset off)\<close> by (simp add: translation_register_def)
    have ic: "\<not> translation_register ATUIC" "\<not> translation_register ATUIS"
      by (simp_all add: translation_register_def is_region_array_offset_def atu_in_range_def)
    show ?thesis
      using reg no ic assms(1) \<open>\<not> (off = ATUC \<or> is_region_array_offset off)\<close>
      by (auto simp: atu_write32_def translation_register_store Let_def)
  qed (simp add: atu_write32_def)
  then have "atu_translation P (atu_write32 P off v s) logical n = atu_translation P s logical n"
    by (rule atu_translation_cong)
  with assms(2) show ?thesis by simp
qed

subsection \<open>The register window is a register block\<close>

lemma trace_access_regs [simp]: "m_regs (atu_trace_access P t s) = m_regs s"
  by (simp add: atu_trace_access_def)

interpretation atu: reg_block ATU_REG_BYTES "atu_write32 P" "atu_trace_access P" "\<lambda>_. True"
  for P
  by unfold_locales simp_all

subsection \<open>The granted DMI window\<close>

lemma dmi_logical_window_sound:
  assumes win: "dmi_logical_window off ds de = Some (ls, le)" and a: "ls \<le> a" "a \<le> le"
  shows "uint ds \<le> uint a + sint off \<and> uint a + sint off \<le> uint de"
proof (cases "sint off < 0")
  case True
  define delta where "delta = negative_offset_delta off"
  have delta: "uint delta = - sint off"
    using True by (simp add: delta_def uint_negative_offset_delta)
  from win True have ok: "uint ds + uint delta < 2 ^ 64" and ls: "ls = ds + delta"
    and le: "le = (if de > -1 - delta then -1 else de + delta)"
    by (auto simp: dmi_logical_window_def offset_is_negative_iff delta_def[symmetric] Let_def
        max_minus_less_iff not_le split: if_splits)
  have "uint ls = uint ds + uint delta" using ls uint_add_fits[OF ok] by simp
  moreover have "uint a - uint delta \<le> uint de"
  proof (cases "de > -1 - delta")
    case True
    then show ?thesis using uint_u64_bound[of a] by (simp add: max_minus_less_iff)
  next
    case False
    then have "uint (de + delta) = uint de + uint delta"
      by (intro uint_add_fits) (simp add: max_minus_less_iff)
    then show ?thesis using False le a(2) by (simp add: word_le_def)
  qed
  ultimately show ?thesis using a(1) delta by (simp add: word_le_def)
next
  case False
  then have off: "sint off = uint off" using uint_u64_bound[of off] by (simp add: sint_u64 split: if_splits)
  from win False have "off \<le> de" and ls: "ls = (if ds < off then 0 else ds - off)" and le: "le = de - off"
    by (auto simp: dmi_logical_window_def offset_is_negative_iff Let_def not_less split: if_splits)
  then have "uint le = uint de - uint off" by (simp add: uint_diff_fits)
  moreover have "uint ds \<le> uint a + uint off"
  proof (cases "ds < off")
    case True
    then show ?thesis using uint_u64_bound(1)[of a] unfolding word_less_def by linarith
  next
    case False
    then have "uint (ds - off) = uint ds - uint off" by (simp add: uint_diff_fits)
    then show ?thesis using False ls a(1) by (simp add: word_le_def)
  qed
  ultimately show ?thesis using a(2) off by (simp add: word_le_def)
qed

lemma uint_range_end: "uint (range_end start len) = min (2 ^ 64 - 1) (uint start + max 1 (uint len) - 1)"
proof (cases "len = 0")
  case True
  then show ?thesis using uint_u64_bound[of start] by (simp add: range_end_def)
next
  case False
  then have pos: "1 \<le> uint len" using uint_0_iff[of len] uint_u32_bound(1)[of len] by linarith
  define sp :: u64 where "sp = ucast len - 1"
  have sp: "uint sp = uint len - 1"
    unfolding sp_def using pos by (subst uint_sub_lem[THEN iffD1]) simp_all
  have re: "range_end start len = (if start > -1 - sp then -1 else start + sp)"
    using False unfolding range_end_def sp_def Let_def by simp
  show ?thesis
  proof (cases "start > -1 - sp")
    case True
    then show ?thesis unfolding re using pos sp by (simp add: max_minus_less_iff uint_u64_max)
  next
    case False
    then have fits: "uint start + uint sp < 2 ^ 64" by (simp add: max_minus_less_iff)
    show ?thesis unfolding re using False pos sp fits uint_add_fits[OF fits] by simp
  qed
qed

lemma dmi_upstream_sound:
  assumes up: "dmi_upstream logical len info d = Some d'"
  shows "ti_logical_start info \<le> dmi_start d' \<and> dmi_end d' \<le> ti_logical_end info \<and>
    dmi_start d' \<le> logical \<and> range_end logical len \<le> dmi_end d' \<and>
    (\<forall>a. dmi_start d' \<le> a \<longrightarrow> a \<le> dmi_end d' \<longrightarrow>
      uint (dmi_start d) \<le> uint a + sint (ti_offset info) \<and>
      uint a + sint (ti_offset info) \<le> uint (dmi_end d) \<and>
      dmi_ptr d' + (uint a - uint (dmi_start d')) =
        dmi_ptr d + (uint a + sint (ti_offset info) - uint (dmi_start d)))"
proof -
  from up obtain ls le p where win: "dmi_logical_window (ti_offset info) (dmi_start d) (dmi_end d) = Some (ls, le)"
    and start: "dmi_start d' = max ls (ti_logical_start info)" and "end": "dmi_end d' = min le (ti_logical_end info)"
    and req: "dmi_start d' \<le> logical" "range_end logical len \<le> dmi_end d'"
    and p: "apply_region_offset (dmi_start d') (ti_offset info) = Some p" "dmi_start d \<le> p"
    and ptr: "dmi_ptr d' = dmi_ptr d + uint (p - dmi_start d)"
    by (auto simp: dmi_upstream_def Let_def not_less not_le split: option.splits if_splits)
  have "uint (p - dmi_start d) = uint (dmi_start d') + sint (ti_offset info) - uint (dmi_start d)"
    using p by (simp add: uint_diff_fits apply_region_offset_Some)
  then show ?thesis
    using dmi_logical_window_sound[OF win] start "end" req ptr by auto
qed

subsection \<open>An example configuration\<close>

text \<open>Region 0 maps the pages \<open>0x10\<close> to \<open>0x20\<close> sixteen pages up.\<close>

definition example_atu :: rse_atu where
  "example_atu =
     store32 ATUC 1 (store32 ATURAV_L_BASE 0x10 (store32 ATURELA_BASE 0x20
       (store32 ATURSLA_BASE 0x10 (atu_init atu_default_params))))"

definition dmi_params :: atu_params where
  "dmi_params = atu_default_params\<lparr>atu_p_enable_dmi := True\<rparr>"

lemma dmi_params_bound [simp]:
  "atu_p_enable_dmi dmi_params" "atu_initiator_bound dmi_params" "atu_translation_bound dmi_params"
  by (simp_all add: dmi_params_def atu_default_params_def)

lemma load32_atu_init: "load32 (atu_init P) off = (if off = ATUBC then atu_p_build_config P else 0)"
  if "off mod 4 = 0"
  using that by (simp add: atu_init_def atu_reset_registers_def load32_store32_aligned load32_cleared)

lemma example_atu_page_shift [simp]: "page_shift example_atu = 12"
  by (simp add: example_atu_def page_shift_def load32_atu_init atu_default_params_def)

lemma example_atu_count [simp]: "supported_region_count example_atu = 32"
  by (simp add: example_atu_def supported_region_count_def load32_atu_init
      atu_default_params_def)

lemma example_atu_region0 [simp]:
  "region_start_page example_atu 0 = 0x10" "region_end_page example_atu 0 = 0x20"
  "region_offset_pages example_atu 0 = 0x10" "region_roba example_atu 0 = 0"
  "load32 example_atu ATUC = 1" "load32 example_atu ATURAV_M_BASE = 0"
  by (simp_all add: example_atu_def region_start_page_def region_end_page_def region_offset_pages_def
      region_roba_def load32_atu_init)

lemma example_atu_enabled [simp]:
  "region_configured example_atu 0" "region_enabled example_atu 0" "region_offset example_atu 0 = Some 0x10000"
  by (simp_all add: region_configured_def region_enabled_def region_offset_def)

lemma example_atu_secure [simp]:
  "region_security_allowed dmi_params example_atu 0"
  "region_security_allowed atu_default_params example_atu 0"
  by (simp_all add: region_security_allowed_def roba_field_to_bit_def dmi_params_def atu_default_params_def)

lemma example_translation:
  "region_security_allowed P example_atu 0 \<Longrightarrow> 0 \<le> n \<Longrightarrow> n \<le> 8 \<Longrightarrow>
   atu_translation P example_atu 0x10800 n = Some 0x20800"
proof -
  have "[0..<32] = 0 # [Suc 0..<32]" by (rule upt_conv_Cons) simp
  then show "region_security_allowed P example_atu 0 \<Longrightarrow> 0 \<le> n \<Longrightarrow> n \<le> 8 \<Longrightarrow> ?thesis"
    by (simp add: atu_translation_def region_covers_def region_target_def)
qed

lemma reset_unmapped: "atu_translation P (atu_init Q) logical n = None"
proof -
  have "\<not> region_configured (atu_init Q) r" for r
    by (simp add: region_configured_def region_start_page_def region_end_page_def
        region_offset_pages_def region_roba_def load32_atu_init)
  then have "find (\<lambda>r. region_covers (atu_init Q) logical n r \<and> region_enabled (atu_init Q) r) rs = None" for rs
    by (simp add: find_None_iff region_covers_def)
  then show ?thesis by (simp add: atu_translation_def)
qed

subsection \<open>Properties\<close>

lemma translate_loop_fault:
  "pending \<noteq> Fault_none \<Longrightarrow> translate_loop P s logical n pending rs = (False, info) \<Longrightarrow>
   ti_fault info \<noteq> Fault_none"
proof (induction P s logical n pending rs rule: translate_loop.induct)
  case (1 P s logical n pending)
  then show ?case by auto
next
  case (2 P s logical n pending r rs)
  then show ?case
    using translate_region_spec[of P s logical r False info] 
    by (auto simp: Let_def split: if_splits)
qed

text \<open>C24. The region loop computes the abstract translation: the first enabled region that covers
  the whole access decides, its signed offset is added without wrap-around, and a failure is
  reported with a fault while a success changes no register.\<close>

theorem atu_translate_refines:
  "case translate_range P logical len latch s of (ok, info, s') \<Rightarrow>
     (if ok then Some (uint (ti_physical info)) else None) =
       atu_translation P s logical (if len = 0 then 1 else uint len) \<and>
     (if ok then ti_fault info = Fault_none \<and> s' = s else ti_fault info \<noteq> Fault_none)"
proof (cases "translate_range P logical len latch s")
  case (fields ok info s')
  note spec = translate_range_spec[OF fields]
  have "ti_fault info \<noteq> Fault_none" if "\<not> ok"
  proof -
    have "translate_loop P s logical (if len = 0 then 1 else ucast len) Fault_unmapped
        [0..<supported_region_count s] = (False, info)"
      using fields that by (auto simp: translate_range_def Let_def split: prod.splits)
    then show ?thesis using translate_loop_fault by blast
  qed
  moreover have "ti_fault info = Fault_none" if ok
    using translate_region_spec[OF spec(5)[OF that]] that by simp
  ultimately show ?thesis using spec(1,2) by (simp add: fields)
qed

text \<open>A refused access latches the mismatch bit and the low word of the faulting address and
  changes no other register byte, so no later translation is affected; without the latch it
  changes nothing.\<close>

theorem atu_fault_latch:
  assumes "translate_range P logical len latch s = (False, info, s')"
  shows "if latch then
      load32 s' ATUIS = load32 s ATUIS OR ATUIS_MISMATCH_ERROR \<and> load32 s' ATUMA = ucast logical \<and>
      (\<forall>i. i \<notin> {8..<12} \<union> {20..<24} \<longrightarrow> m_regs s' i = m_regs s i) \<and>
      (\<forall>l n. atu_translation P s' l n = atu_translation P s l n)
    else s' = s"
proof (cases latch)
  case True
  have s': "s' = latch_translation_fault logical s"
    using translate_range_spec(3)[OF assms] True by simp
  have "m_regs s' i = m_regs s i" if "i \<notin> {8..<12} \<union> {20..<24}" for i
    using that by (auto simp: s' latch_translation_fault_def store32_outside not_le not_less)
  with True show ?thesis
    by (simp add: s' latch_translation) (simp add: latch_translation_fault_def)
qed (use translate_range_spec(3)[OF assms] in simp)

text \<open>C26. The translation window forwards an access exactly when the ATU translates it: the
  target sees the translated address and the caller gets back its own address with the target's
  response; otherwise the target is never called.\<close>

theorem atu_forward_isolated:
  "case forward_translation P down debug t (s, m) of (ok, t', s', m') \<Rightarrow>
     (case (if atu_initiator_bound P \<and> p_data t \<noteq> None \<and> p_len t \<noteq> 0
            then atu_translation P s (p_address t) (uint (p_len t)) else None) of
        None \<Rightarrow> \<not> ok \<and> m' = m \<and> t' = t\<lparr>p_response := TLM_ADDRESS_ERROR_RESPONSE\<rparr>
      | Some phys \<Rightarrow>
          (case down debug (t\<lparr>p_address := word_of_int phys\<rparr>) m of (t1, m1) \<Rightarrow>
             m' = m1 \<and> t' = t1\<lparr>p_address := p_address t\<rparr> \<and> ok = is_response_ok t1))"
proof (cases "translate_range P (p_address t) (p_len t) True s")
  case (fields ok info s')
  have tr: "p_len t \<noteq> 0 \<Longrightarrow> atu_translation P s (p_address t) (uint (p_len t)) =
      (if ok then Some (uint (ti_physical info)) else None)"
    using translate_range_spec(1)[OF fields] by simp
  show ?thesis
    by (cases "down debug (t\<lparr>p_address := ti_physical info\<rparr>) m")
       (simp add: forward_translation_def fields is_response_ok_def tr Let_def)
qed


subsection \<open>Direct memory pointers\<close>

text \<open>The host byte a descriptor gives for an address, when the address is in its window.\<close>

definition dmi_byte :: "tlm_dmi \<Rightarrow> int \<Rightarrow> int option" where
  "dmi_byte d a =
     (if uint (dmi_start d) \<le> a \<and> a \<le> uint (dmi_end d)
      then Some (dmi_ptr d + (a - uint (dmi_start d))) else None)"

lemma translation_get_direct_mem_ptr_granted:
  assumes "translation_get_direct_mem_ptr P gdmp t d s = (True, t', d', s')"
  obtains info t1 d1 where
    "translate_range P (p_address t) (p_len t) False s = (True, info, s)"
    "gdmp (t\<lparr>p_address := ti_physical info\<rparr>) d = (True, t1, d1)"
    "dmi_upstream (p_address t) (p_len t) info d1 = Some d'"
proof (cases "translate_range P (p_address t) (p_len t) False s")
  case (fields ok info s1)
  then have ok: ok
    using assms by (auto simp: translation_get_direct_mem_ptr_def Let_def split: if_splits)
  with fields have "s1 = s" using translate_range_spec(2) by blast
  obtain g t1 d1 where "gdmp (t\<lparr>p_address := ti_physical info\<rparr>) d = (g, t1, d1)"
    by (metis prod_cases3)
  with assms fields ok \<open>s1 = s\<close> that show ?thesis
    by (auto simp: translation_get_direct_mem_ptr_def Let_def split: if_splits option.splits)
qed

lemma region_window_covers:
  assumes "translate_region P s logical r = (True, info)" and "region_covers s logical n r" and "1 \<le> n"
    and "ti_logical_start info \<le> a" and "a \<le> ti_logical_end info"
  shows "region_covers s a 1 r"
proof -
  have lim: "1 \<le> uint (region_limit s r)"
    using assms(2,3) uint_u64_bound(1)[of logical] unfolding region_covers_def uint_region_limit by linarith
  have "uint (region_limit s r - 1) = uint (region_limit s r) - 1"
    using lim by (subst uint_sub_lem[THEN iffD1]) simp_all
  then show ?thesis
    using assms translate_region_spec[OF assms(1)]
    by (auto simp: region_covers_def word_le_def uint_region_first uint_region_limit)
qed

lemma region_target_window:
  assumes "translate_region P s logical r = (True, info)"
    and "0 \<le> uint a + sint (ti_offset info)" and "uint a + sint (ti_offset info) < 2 ^ 64"
  shows "region_target P s a r = Some (uint a + sint (ti_offset info))"
proof -
  have "region_target P s logical r = Some (uint (ti_physical info))"
    using translate_region_spec[OF assms(1)] by simp
  then show ?thesis
    using assms translate_region_spec[OF assms(1)]
    by (auto simp: region_target_def region_offset_def split: if_splits option.splits)
qed



subsection \<open>Withdrawing direct memory pointers\<close>

lemma atu_access_write:
  assumes "atu_access P t s = Some (True, t', s')" and "p_command t = TLM_WRITE_COMMAND"
  obtains buf w where "p_data t = Some buf" "s' = atu_trace_access P t w"
    "regs_write ATU_REG_BYTES (atu_write32 P) (p_address t) (take (unat (p_len t)) buf) s = Some w"
    "unat (p_len t) \<le> length buf"
  using assms that
  by (auto simp: atu_access_def reg_access_def Let_def bind_eq_Some_conv split: option.splits if_splits)

lemma trace_access_frame [simp]:
  "atu_invalidations (atu_trace_access P t s) = atu_invalidations s"
  "atu_translation P (atu_trace_access P t s) l n = atu_translation P s l n"
  by (simp add: atu_trace_access_def count_trace_def)
     (rule atu_translation_cong, simp add: atu_trace_access_def)

text \<open>C31. With DMI enabled, every aligned 32-bit register write that changes the translation of
  any address withdraws the direct memory pointers granted before.\<close>

theorem atu_write_invalidates:
  assumes "atu_access P t s = Some (True, t', s')" and "p_command t = TLM_WRITE_COMMAND"
    and "p_len t = 4" and "p_address t mod 4 = 0" and "atu_p_enable_dmi P" and "atu_translation_bound P"
    and "atu_translation P s' logical n \<noteq> atu_translation P s logical n"
  shows "atu_invalidations s' = atu_invalidations s + 1"
proof -
  obtain buf w where w: "s' = atu_trace_access P t w"
    "regs_write ATU_REG_BYTES (atu_write32 P) (p_address t) (take (unat (p_len t)) buf) s = Some w"
    "unat (p_len t) \<le> length buf"
    using atu_access_write[OF assms(1,2)] by metis
  from w(2,3) assms(3,4) have "w = atu_write32 P (unat (p_address t)) (le_word (take 4 buf)) s"
    by (auto simp: regs_write_def min_def split: if_splits)
  moreover have "unat (p_address t) mod 4 = 0"
    using assms(4) by (rule unat_aligned_4)
  ultimately show ?thesis
    using assms(5-7) w(1) atu_write32_translation by simp
qed

definition wide_write :: payload where
  "wide_write = \<lparr>p_command = TLM_WRITE_COMMAND, p_address = 0x120,
     p_data = Some [0x30, 0, 0, 0, 0, 0, 0, 0], p_len = 8,
     p_response = TLM_INCOMPLETE_RESPONSE, p_dmi_allowed = False\<rparr>"

definition wide_written :: rse_atu where
  "wide_written = example_atu\<lparr>m_regs := mem_write (m_regs example_atu) 0x120 [0x30, 0, 0, 0, 0, 0, 0, 0]\<rparr>"

lemma atu_access_wide: "\<exists>t'. atu_access dmi_params wide_write example_atu = Some (True, t', wide_written)"
  by (simp add: atu_access_def wide_write_def reg_access_def is_supported_length_def beyond_def
      regs_write_def arr_write_def atu_trace_access_def count_trace_def dmi_params_def
      atu_default_params_def wide_written_def)

lemma load32_wide_written:
  "off mod 4 = 0 \<Longrightarrow> load32 wide_written off =
     (if off = 0x120 then 0x30 else if off = 0x124 then 0 else load32 example_atu off)"
proof -
  assume al: "off mod 4 = 0"
  have *: "mem_write m 0x120 [0x30, 0, 0, 0, 0, 0, 0, 0] =
        mem_write (mem_write m 0x120 [0x30, 0, 0, 0]) 0x124 [0, 0, 0, 0]" for m
    by (rule ext) (auto simp: mem_write_def nth_Cons' split: if_splits)
  have "le_bytes 4 (0x30 :: u32) = [0x30, 0, 0, 0]" "le_bytes 4 (0 :: u32) = [0, 0, 0, 0]"
    by (simp_all add: le_bytes_4 del: le_bytes_zero)
  then have eq: "wide_written = store32 0x124 0 (store32 0x120 0x30 example_atu)"
    by (simp add: wide_written_def * store32_def)
  show ?thesis using al unfolding eq by (simp add: load32_store32_aligned)
qed

text \<open>A register write of another width skips \<^verbatim>\<open>write32\<close>: one 64-bit write moves an enabled
  region, and thereby the translation, without withdrawing any direct memory pointer.\<close>

theorem atu_wide_write_keeps_dmi:
  "\<exists>t' s'. atu_access dmi_params wide_write example_atu = Some (True, t', s') \<and>
     atu_translation dmi_params example_atu 0x10800 8 = Some 0x20800 \<and>
     atu_translation dmi_params s' 0x10800 8 = Some 0x40800 \<and>
     atu_invalidations s' = atu_invalidations example_atu"
proof -
  have [simp]: "page_shift wide_written = 12" "supported_region_count wide_written = 32"
    using example_atu_page_shift example_atu_count
    by (simp_all add: page_shift_def supported_region_count_def load32_wide_written)
  have [simp]: "region_start_page wide_written 0 = 0x10" "region_end_page wide_written 0 = 0x20"
    "region_offset_pages wide_written 0 = 0x30" "region_roba wide_written 0 = 0"
    "load32 wide_written ATUC = 1"
    using example_atu_region0
    by (simp_all add: region_start_page_def region_end_page_def region_offset_pages_def
      region_roba_def load32_wide_written)
  have "[0..<32] = 0 # [Suc 0..<32]" by (rule upt_conv_Cons) simp
  then have "atu_translation dmi_params wide_written 0x10800 8 = Some 0x40800"
    by (simp add: atu_translation_def region_covers_def region_target_def region_configured_def
        region_enabled_def region_offset_def region_security_allowed_def roba_field_to_bit_def
        dmi_params_def atu_default_params_def)
  with atu_access_wide show ?thesis
    by (auto simp: example_translation wide_written_def)
qed


subsection \<open>Witnesses\<close>

lemma reset_refused:
  "\<exists>info s'. translate_range P logical len latch (atu_init Q) = (False, info, s')"
proof -
  obtain ok info s' where tr: "translate_range P logical len latch (atu_init Q) = (ok, info, s')"
    by (metis prod_cases3)
  then show ?thesis using translate_range_spec(1)[OF tr] by (cases ok) (auto simp: reset_unmapped)
qed

theorem atu_fault_latch_witness:
  "\<exists>info s'. translate_range atu_default_params 0x100 4 True (atu_init atu_default_params) =
     (False, info, s') \<and> load32 s' ATUMA = 0x100 \<and> bit (load32 s' ATUIS) 0"
proof -
  obtain info s' where tr: "translate_range atu_default_params 0x100 4 True (atu_init atu_default_params) =
     (False, info, s')" using reset_refused by blast
  then show ?thesis using atu_fault_latch[OF tr] by (auto simp: bit_simps)
qed

definition dmi_request :: payload where
  "dmi_request = \<lparr>p_command = TLM_READ_COMMAND, p_address = 0x10800, p_data = None, p_len = 8,
     p_response = TLM_INCOMPLETE_RESPONSE, p_dmi_allowed = False\<rparr>"

definition dmi_target :: "payload \<Rightarrow> tlm_dmi \<Rightarrow> bool \<times> payload \<times> tlm_dmi" where
  "dmi_target t d = (True, t, \<lparr>dmi_ptr = 1000, dmi_start = 0x20000, dmi_end = 0x2ffff\<rparr>)"

lemma example_range:
  "\<exists>info. translate_range dmi_params 0x10800 8 False example_atu = (True, info, example_atu) \<and>
     ti_physical info = 0x20800 \<and> ti_offset info = 0x10000 \<and> ti_logical_start info = 0x10000 \<and>
     ti_logical_end info = 0x20fff"
proof -
  obtain ok info s' where tr: "translate_range dmi_params 0x10800 8 False example_atu = (ok, info, s')"
    by (metis prod_cases3)
  note spec = translate_range_spec[OF tr]
  have "(if ok then Some (uint (ti_physical info)) else None) = Some 0x20800"
    using spec(1) by (simp add: example_translation)
  then have ok: ok and "uint (ti_physical info) = 0x20800" by (auto split: if_splits)
  then have phys: "ti_physical info = 0x20800" by (simp add: word_uint_eq_iff)
  have "find (\<lambda>r. region_covers example_atu 0x10800 8 r \<and> region_enabled example_atu r) [0..<32] = Some 0"
  proof -
    have "[0..<32] = 0 # [Suc 0..<32]" by (rule upt_conv_Cons) simp
    then show ?thesis by (simp add: region_covers_def)
  qed
  then have r: "ti_region info = 0" using spec(4)[OF ok] by simp
  have *: "translate_region dmi_params example_atu 0x10800 0 = (True, info)"
    using spec(5)[OF ok] r ok by simp
  show ?thesis
    using tr ok spec(2)[OF ok] phys translate_region_spec[OF *]
    by (auto simp: region_first_def region_limit_def)
qed


definition disable_write :: payload where
  "disable_write = \<lparr>p_command = TLM_WRITE_COMMAND, p_address = 4, p_data = Some [0, 0, 0, 0],
     p_len = 4, p_response = TLM_INCOMPLETE_RESPONSE, p_dmi_allowed = False\<rparr>"

theorem atu_write_invalidates_witness:
  "\<exists>t' s'. atu_access dmi_params disable_write example_atu = Some (True, t', s') \<and>
     atu_invalidations s' = atu_invalidations example_atu + 1"
proof -
  obtain t' s' where acc: "atu_access dmi_params disable_write example_atu = Some (True, t', s')"
    and s': "s' = atu_trace_access dmi_params disable_write (atu_write32 dmi_params 4 0 example_atu)"
    by (simp add: atu_access_def disable_write_def reg_access_def is_supported_length_def beyond_def
      regs_write_def)
  have "load32 (atu_write32 dmi_params 4 0 example_atu) ATUC = 0"
    by (simp add: atu_write32_def)
  then have "\<not> region_enabled s' r" for r by (simp add: s' region_enabled_def atu_trace_access_def)
  then have "find (\<lambda>r. region_covers s' 0x10800 8 r \<and> region_enabled s' r) rs = None" for rs
    by (simp add: find_None_iff)
  then have "atu_translation dmi_params s' 0x10800 8 \<noteq> atu_translation dmi_params example_atu 0x10800 8"
    by (simp add: example_translation) (simp add: atu_translation_def)
  then show ?thesis
    using atu_write_invalidates[OF acc] acc
    by (auto simp: disable_write_def dmi_params_def atu_default_params_def)
qed

end
