(* ===== verification/Rse_Lcm.thy ===== *)
theory Rse_Lcm
  imports Tlm_Regs
begin

text \<open>
  The lifecycle manager \<^verbatim>\<open>rse_lcm\<close> (\<^verbatim>\<open>src/systemc-components/rse_lcm/include/rse_lcm.h\<close>): a
  register window whose upper part is a one-time-programmable memory. OTP writes only set bits,
  provisioning words move the lifecycle state forward, and a lock freezes the memory. The OTP
  image on the host is a file: \<open>lcm_image\<close> holds its bytes, \<open>None\<close> when the path cannot be opened.
\<close>

subsection \<open>Constants\<close>

abbreviation (input) LCM_REG_BYTES :: nat where "LCM_REG_BYTES \<equiv> 0x11000"
abbreviation (input) LCS_VALUE :: nat where "LCS_VALUE \<equiv> 0x000"
abbreviation (input) KEY_ERR :: nat where "KEY_ERR \<equiv> 0x004"
abbreviation (input) TP_MODE :: nat where "TP_MODE \<equiv> 0x008"
abbreviation (input) FATAL_ERR :: nat where "FATAL_ERR \<equiv> 0x00c"
abbreviation (input) SP_ENABLE :: nat where "SP_ENABLE \<equiv> 0x014"
abbreviation (input) OTP_ADDR_WIDTH :: nat where "OTP_ADDR_WIDTH \<equiv> 0x018"
abbreviation (input) OTP_SIZE :: nat where "OTP_SIZE \<equiv> 0x01c"
abbreviation (input) GPPC :: nat where "GPPC \<equiv> 0x020"
abbreviation (input) DCU_EN :: nat where "DCU_EN \<equiv> 0x100"
abbreviation (input) DCU_LOCK :: nat where "DCU_LOCK \<equiv> 0x110"
abbreviation (input) OTP_WINDOW :: nat where "OTP_WINDOW \<equiv> 0x1000"
abbreviation (input) LCS_CM :: u32 where "LCS_CM \<equiv> 0xcccc3c3c"
abbreviation (input) LCS_DM :: u32 where "LCS_DM \<equiv> 0xdddd5a5a"
abbreviation (input) LCS_SE :: u32 where "LCS_SE \<equiv> 0xeeeea5a5"
abbreviation (input) LCM_TRUE :: u32 where "LCM_TRUE \<equiv> 0xffffffff"
abbreviation (input) SP_ENABLE_MAGIC :: u32 where "SP_ENABLE_MAGIC \<equiv> 0x5ec10e1e"
abbreviation (input) OTP_CM_CONFIG_2 :: nat where "OTP_CM_CONFIG_2 \<equiv> 0x0e8"
abbreviation (input) OTP_DM_CONFIG :: nat where "OTP_DM_CONFIG \<equiv> 0x0ec"

subsection \<open>Parameters and state\<close>

text \<open>\<open>lcm_image_creatable\<close> says whether a missing image file can be created.\<close>

record lcm_params =
  lcm_p_trace :: bool
  lcm_p_trace_limit :: u32
  lcm_p_otp_image :: string
  lcm_p_lcs :: u32
  lcm_p_tp_mode :: u32
  lcm_p_sp_enable :: u32
  lcm_p_otp_size :: u32
  lcm_p_gppc :: u32
  lcm_p_otp_writeback :: bool
  lcm_p_otp_lock_after_provision :: bool
  lcm_image_creatable :: bool

definition lcm_default_params :: lcm_params where
  "lcm_default_params = \<lparr>
     lcm_p_trace = False, lcm_p_trace_limit = 64, lcm_p_otp_image = [],
     lcm_p_lcs = 0xeeeea5a5, lcm_p_tp_mode = 0x2222aa55, lcm_p_sp_enable = 0,
     lcm_p_otp_size = 0x00010000, lcm_p_gppc = 0, lcm_p_otp_writeback = False,
     lcm_p_otp_lock_after_provision = True, lcm_image_creatable = True\<rparr>"

record rse_lcm = reg_state +
  m_otp_locked :: bool
  lcm_image :: "u8 list option"

subsection \<open>The OTP window\<close>

definition otp_limit :: "lcm_params \<Rightarrow> nat" where
  "otp_limit P = OTP_WINDOW + min (unat (lcm_p_otp_size P)) (LCM_REG_BYTES - OTP_WINDOW)"

text \<open>The sum \<^verbatim>\<open>offset + len\<close> is a 64-bit unsigned one.\<close>

definition is_otp_access :: "lcm_params \<Rightarrow> u64 \<Rightarrow> nat \<Rightarrow> bool" where
  "is_otp_access P off len \<longleftrightarrow>
     off \<ge> of_nat OTP_WINDOW \<and> off + of_nat len \<le> of_nat (otp_limit P)"

definition range_includes :: "nat \<Rightarrow> nat \<Rightarrow> nat \<Rightarrow> bool" where
  "range_includes off len word_off \<longleftrightarrow> off \<le> word_off \<and> off + len \<ge> word_off + 4"

definition update_lcs_from_otp_write :: "lcm_params \<Rightarrow> nat \<Rightarrow> nat \<Rightarrow> rse_lcm \<Rightarrow> rse_lcm" where
  "update_lcs_from_otp_write P otp_off len s =
     (let s1 = (if range_includes otp_off len OTP_CM_CONFIG_2 \<and> load32 s LCS_VALUE = LCS_CM
                then store32 LCS_VALUE LCS_DM s else s)
      in if range_includes otp_off len OTP_DM_CONFIG \<and> load32 s1 LCS_VALUE = LCS_DM
         then (let s2 = store32 LCS_VALUE LCS_SE s1 in
               if lcm_p_otp_lock_after_provision P then s2\<lparr>m_otp_locked := True\<rparr> else s2)
         else s1)"

text \<open>The write replaces the first bytes of an existing file and keeps its tail.\<close>

definition flush_otp_image :: "lcm_params \<Rightarrow> rse_lcm \<Rightarrow> rse_lcm" where
  "flush_otp_image P s =
     (if \<not> lcm_p_otp_writeback P \<or> lcm_p_otp_image P = [] then s
      else
        (let bytes = mem_read (m_regs s) OTP_WINDOW (otp_limit P - OTP_WINDOW) in
         case lcm_image s of
           None \<Rightarrow> if lcm_image_creatable P then s\<lparr>lcm_image := Some bytes\<rparr> else s
         | Some old \<Rightarrow> s\<lparr>lcm_image := Some (bytes @ drop (length bytes) old)\<rparr>))"

text \<open>\<open>None\<close> is undefined behaviour; \<open>Some (False, s)\<close> says the write is not for the OTP.\<close>

definition write_otp ::
    "lcm_params \<Rightarrow> u64 \<Rightarrow> u8 list \<Rightarrow> rse_lcm \<Rightarrow> (bool \<times> rse_lcm) ub" where
  "write_otp P off bs s =
     (if \<not> is_otp_access P off (length bs) then Some (False, s)
      else if m_otp_locked s then Some (True, s)
      else do {
        old \<leftarrow> arr_read LCM_REG_BYTES (m_regs s) (unat off) (length bs);
        m \<leftarrow> arr_write LCM_REG_BYTES (m_regs s) (unat off) (map2 (OR) old bs);
        Some (True, flush_otp_image P
          (update_lcs_from_otp_write P (unat off - OTP_WINDOW) (length bs) (s\<lparr>m_regs := m\<rparr>)))
      })"

text \<open>At most the whole window is read from the file; a short file leaves the rest zero.\<close>

definition load_otp_image :: "lcm_params \<Rightarrow> rse_lcm \<Rightarrow> rse_lcm" where
  "load_otp_image P s =
     (if lcm_p_otp_image P = [] then s
      else (case lcm_image s of
              None \<Rightarrow> s
            | Some file \<Rightarrow>
                s\<lparr>m_regs := mem_write (m_regs s) OTP_WINDOW
                    (take (LCM_REG_BYTES - OTP_WINDOW) file)\<rparr>))"

subsection \<open>Reset and register writes\<close>

primrec lcm_reset_dcu :: "nat \<Rightarrow> rse_lcm \<Rightarrow> rse_lcm" where
  "lcm_reset_dcu 0 s = s"
| "lcm_reset_dcu (Suc i) s =
     store32 (DCU_LOCK + i * 4) 0 (store32 (DCU_EN + i * 4) 0xffffffff (lcm_reset_dcu i s))"

definition lcm_reset_registers :: "lcm_params \<Rightarrow> rse_lcm \<Rightarrow> rse_lcm" where
  "lcm_reset_registers P s =
     (let s1 = s\<lparr>m_regs := (\<lambda>_. 0), m_otp_locked := False\<rparr>;
          s2 = store32 LCS_VALUE (lcm_p_lcs P) s1;
          s3 = store32 TP_MODE (lcm_p_tp_mode P) (store32 KEY_ERR 0 s2);
          s4 = store32 SP_ENABLE (lcm_p_sp_enable P) (store32 FATAL_ERR 0 s3);
          s5 = store32 OTP_SIZE (lcm_p_otp_size P) (store32 OTP_ADDR_WIDTH 0x10 s4);
          s6 = store32 GPPC (lcm_p_gppc P) s5
      in load_otp_image P (lcm_reset_dcu 4 s6))"

definition lcm_write32 :: "lcm_params \<Rightarrow> nat \<Rightarrow> u32 \<Rightarrow> rse_lcm \<Rightarrow> rse_lcm" where
  "lcm_write32 P off v s =
     (if off \<in> {LCS_VALUE, KEY_ERR, TP_MODE, OTP_ADDR_WIDTH, OTP_SIZE, GPPC} then s
      else if off = SP_ENABLE then
        (if v = SP_ENABLE_MAGIC then
           (let s1 = store32 SP_ENABLE LCM_TRUE s in
            if lcm_p_otp_lock_after_provision P then s1\<lparr>m_otp_locked := True\<rparr> else s1)
         else store32 SP_ENABLE v s)
      else store32 off v s)"

subsection \<open>Access\<close>

text \<open>The write branch asks the OTP first.\<close>

definition lcm_write :: "lcm_params \<Rightarrow> u64 \<Rightarrow> u8 list \<Rightarrow> rse_lcm \<Rightarrow> rse_lcm ub" where
  "lcm_write P off bs s =
     do {
       (handled, s') \<leftarrow> write_otp P off bs s;
       if handled then Some s' else regs_write LCM_REG_BYTES (lcm_write32 P) off bs s'
     }"

definition lcm_trace_access :: "lcm_params \<Rightarrow> payload \<Rightarrow> rse_lcm \<Rightarrow> rse_lcm" where
  "lcm_trace_access P t s = count_trace (lcm_p_trace P) (lcm_p_trace_limit P) s"

definition lcm_access :: "lcm_params \<Rightarrow> payload \<Rightarrow> rse_lcm \<Rightarrow> (bool \<times> payload \<times> rse_lcm) ub" where
  "lcm_access P = reg_access LCM_REG_BYTES (plain_read LCM_REG_BYTES) (lcm_write P) (lcm_trace_access P)"

definition lcm_b_transport :: "lcm_params \<Rightarrow> payload \<Rightarrow> rse_lcm \<Rightarrow> (payload \<times> rse_lcm) ub" where
  "lcm_b_transport P = b_transport_of (lcm_access P)"

definition lcm_transport_dbg ::
    "lcm_params \<Rightarrow> payload \<Rightarrow> rse_lcm \<Rightarrow> (u32 \<times> payload \<times> rse_lcm) ub" where
  "lcm_transport_dbg P = transport_dbg_of (lcm_access P)"

text \<open>The constructor, for a host file \<open>file\<close> found at the configured path.\<close>

definition lcm_init :: "lcm_params \<Rightarrow> u8 list option \<Rightarrow> rse_lcm" where
  "lcm_init P file = lcm_reset_registers P
     \<lparr>m_regs = (\<lambda>_. 0), m_trace_count = 0, m_otp_locked = False, lcm_image = file\<rparr>"

subsection \<open>Which accesses are OTP accesses\<close>

lemma otp_limit_bounds: "OTP_WINDOW \<le> otp_limit P \<and> otp_limit P \<le> LCM_REG_BYTES"
  by (simp add: otp_limit_def)

lemma is_otp_access_iff:
  assumes "unat off + len < 2 ^ 64"
  shows "is_otp_access P off len \<longleftrightarrow> OTP_WINDOW \<le> unat off \<and> unat off + len \<le> otp_limit P"
proof -
  have "unat (of_nat len :: u64) = len" using assms by (simp add: unat_of_nat_small)
  then have "unat (off + of_nat len) = unat off + len"
    using assms by (simp add: unat_add_small)
  moreover have "unat (of_nat (otp_limit P) :: u64) = otp_limit P"
    using otp_limit_bounds[of P] by (simp add: unat_of_nat_small)
  ultimately show ?thesis by (simp add: is_otp_access_def word_le_nat_alt)
qed

subsection \<open>Effect of the operations on the OTP bytes and the lifecycle word\<close>

lemma flush_frame [simp]:
  "m_regs (flush_otp_image P s) = m_regs s" "load32 (flush_otp_image P s) off = load32 s off"
  "m_otp_locked (flush_otp_image P s) = m_otp_locked s"
  by (simp_all add: flush_otp_image_def load32_def Let_def split: option.splits)

lemma lcm_image_locked [simp]: "lcm_image (s\<lparr>m_otp_locked := b\<rparr>) = lcm_image s"
  by simp

lemma load32_locked [simp]: "load32 (s\<lparr>m_otp_locked := b\<rparr>) off = load32 s off"
  by (simp add: load32_def)

lemma store32_locked [simp]: "m_otp_locked (store32 off v s) = m_otp_locked s"
  "lcm_image (store32 off v s) = lcm_image s"
  by (simp_all add: store32_def)

lemma update_lcs_frame:
  "4 \<le> i \<Longrightarrow> m_regs (update_lcs_from_otp_write P off len s) i = m_regs s i"
  "m_otp_locked s \<Longrightarrow> m_otp_locked (update_lcs_from_otp_write P off len s)"
  by (simp_all add: update_lcs_from_otp_write_def store32_outside Let_def)

text \<open>The lifecycle only moves forward.\<close>

definition lcs_advances :: "u32 \<Rightarrow> u32 \<Rightarrow> bool" where
  "lcs_advances a b \<longleftrightarrow> b = a \<or> a = LCS_CM \<and> b \<in> {LCS_DM, LCS_SE} \<or> a = LCS_DM \<and> b = LCS_SE"

lemma lcs_advances_refl [simp]: "lcs_advances a a"
  by (simp add: lcs_advances_def)

lemma lcs_advances_trans: "lcs_advances a b \<Longrightarrow> lcs_advances b c \<Longrightarrow> lcs_advances a c"
  by (auto simp: lcs_advances_def)

lemma update_lcs_advances:
  "lcs_advances (load32 s LCS_VALUE) (load32 (update_lcs_from_otp_write P off len s) LCS_VALUE)"
  by (simp add: lcs_advances_def update_lcs_from_otp_write_def Let_def)

lemma lcm_write32_frame:
  "i < off \<or> off + 4 \<le> i \<Longrightarrow> m_regs (lcm_write32 P off v s) i = m_regs s i"
  "off mod 4 = 0 \<Longrightarrow> load32 (lcm_write32 P off v s) LCS_VALUE = load32 s LCS_VALUE"
  "m_otp_locked s \<Longrightarrow> m_otp_locked (lcm_write32 P off v s)"
  by (auto simp: lcm_write32_def store32_outside load32_store32_aligned Let_def)

text \<open>
  An access is regular when it does not straddle an edge of the OTP window and does not touch
  a part of the lifecycle word only.
\<close>

definition otp_regular_at :: "lcm_params \<Rightarrow> nat \<Rightarrow> nat \<Rightarrow> bool" where
  "otp_regular_at P off len \<longleftrightarrow>
     \<not> (off < OTP_WINDOW \<and> OTP_WINDOW < off + len) \<and>
     \<not> (off < otp_limit P \<and> otp_limit P < off + len) \<and> (off < 4 \<longrightarrow> off = 0 \<and> len = 4)"

definition in_otp :: "lcm_params \<Rightarrow> nat \<Rightarrow> bool" where
  "in_otp P i \<longleftrightarrow> OTP_WINDOW \<le> i \<and> i < otp_limit P"

lemma lcm_write_otp:
  assumes "is_otp_access P off (length bs)" and "unat off + length bs \<le> LCM_REG_BYTES"
    and "\<not> m_otp_locked s" and "lcm_write P off bs s = Some s'"
  shows "4 \<le> i \<Longrightarrow> m_regs s' i =
      (if unat off \<le> i \<and> i < unat off + length bs then m_regs s i OR bs ! (i - unat off) else m_regs s i)"
    and "lcs_advances (load32 s LCS_VALUE) (load32 s' LCS_VALUE)"
proof -
  define s1 where "s1 = s\<lparr>m_regs := mem_write (m_regs s) (unat off)
        (map2 (OR) (mem_read (m_regs s) (unat off) (length bs)) bs)\<rparr>"
  have s': "s' = flush_otp_image P (update_lcs_from_otp_write P (unat off - OTP_WINDOW) (length bs) s1)"
    using assms by (simp add: lcm_write_def write_otp_def s1_def arr_read_def arr_write_def)
  show "4 \<le> i \<Longrightarrow> m_regs s' i =
      (if unat off \<le> i \<and> i < unat off + length bs then m_regs s i OR bs ! (i - unat off) else m_regs s i)"
    by (auto simp: s' update_lcs_frame s1_def mem_write_def)
  have "unat off + length bs < 2 ^ 64" using assms(2) by simp
  then have "OTP_WINDOW \<le> unat off" using assms(1) by (simp add: is_otp_access_iff)
  then have "load32 s1 LCS_VALUE = load32 s LCS_VALUE" by (simp add: s1_def load32_def)
  then show "lcs_advances (load32 s LCS_VALUE) (load32 s' LCS_VALUE)"
    using update_lcs_advances[of s1 P] by (simp add: s')
qed

lemma lcm_write_locked:
  assumes "m_otp_locked s" and "lcm_write P off bs s = Some s'"
  shows "m_otp_locked s'"
  using assms by (auto simp: lcm_write_def write_otp_def bind_eq_Some_conv lcm_write32_frame
      elim!: regs_write_cases split: if_splits)

lemma lcm_write_step:
  assumes w: "lcm_write P off bs s = Some s'" and "in": "unat off + length bs \<le> LCM_REG_BYTES"
    and reg: "otp_regular_at P (unat off) (length bs)" and pos: "length bs \<in> {1, 2, 4, 8}"
  shows "lcs_advances (load32 s LCS_VALUE) (load32 s' LCS_VALUE) \<and>
    (\<forall>i. in_otp P i \<longrightarrow> m_regs s' i AND m_regs s i = m_regs s i \<and>
       (m_otp_locked s \<longrightarrow> m_regs s' i = m_regs s i))"
proof (cases "is_otp_access P off (length bs)")
  case True
  show ?thesis
  proof (cases "m_otp_locked s")
    case True
    with \<open>is_otp_access P off (length bs)\<close> w show ?thesis
      by (simp add: lcm_write_def write_otp_def)
  next
    case False
    have "(x OR y) AND x = x" for x y :: u8 by (rule bit_word_eqI) (auto simp: bit_simps)
    then show ?thesis
      using lcm_write_otp[OF True "in" False w] False by (auto simp: in_otp_def)
  qed
next
  case False
  have bound: "unat off + length bs < 2 ^ 64" using "in" by simp
  have out: "unat off + length bs \<le> OTP_WINDOW \<or> otp_limit P \<le> unat off"
    using False reg pos unfolding is_otp_access_iff[OF bound] otp_regular_at_def by auto
  have rw: "regs_write LCM_REG_BYTES (lcm_write32 P) off bs s = Some s'"
    using w False by (simp add: lcm_write_def write_otp_def)
  then show ?thesis
  proof (cases rule: regs_write_cases)
    case 1
    have "m_regs s' i = m_regs s i" if "in_otp P i" for i
      using 1 out that by (auto simp: in_otp_def lcm_write32_frame)
    with 1 show ?thesis by (simp add: lcm_write32_frame unat_aligned_4)
  next
    case 2
    have "4 \<le> unat off"
    proof (rule ccontr)
      assume "\<not> 4 \<le> unat off"
      then have "unat off = 0" "length bs = 4" using reg by (auto simp: otp_regular_at_def)
      with 2(1) show False by (simp add: unat_eq_0)
    qed
    then have "load32 s' LCS_VALUE = load32 s LCS_VALUE" by (simp add: 2(2) load32_def)
    moreover have "m_regs s' i = m_regs s i" if "in_otp P i" for i
      using that out by (auto simp: in_otp_def 2(2) mem_write_outside)
    ultimately show ?thesis by simp
  qed
qed

interpretation lcm: reg_window LCM_REG_BYTES "plain_read LCM_REG_BYTES" "lcm_write P"
  "lcm_trace_access P" "\<lambda>_. True"
  for P
proof
  fix bs :: "u8 list" and off :: u64 and s :: rse_lcm
  assume "length bs \<in> {1, 2, 4, 8}" "unat off + length bs \<le> LCM_REG_BYTES"
  then show "lcm_write P off bs s \<noteq> None"
    by (auto simp: lcm_write_def write_otp_def arr_read_def arr_write_def regs_write_def)
qed (auto simp: plain_read_def regs_read_def arr_read_def)

text \<open>A history of granted accesses: reads, and writes that are regular.\<close>

inductive lcm_history :: "lcm_params \<Rightarrow> rse_lcm \<Rightarrow> rse_lcm \<Rightarrow> bool" for P s where
  lcm_start: "lcm_history P s s"
| lcm_more: "lcm_history P s s1 \<Longrightarrow> no_wrap t \<Longrightarrow>
    (p_command t = TLM_WRITE_COMMAND \<Longrightarrow> otp_regular_at P (unat (p_address t)) (unat (p_len t))) \<Longrightarrow>
    lcm_access P t s1 = Some (ok, t', s2) \<Longrightarrow> lcm_history P s s2"

definition lcm_keeps :: "lcm_params \<Rightarrow> rse_lcm \<Rightarrow> rse_lcm \<Rightarrow> bool" where
  "lcm_keeps P s s' \<longleftrightarrow>
     lcs_advances (load32 s LCS_VALUE) (load32 s' LCS_VALUE) \<and>
     (\<forall>i. in_otp P i \<longrightarrow> m_regs s' i AND m_regs s i = m_regs s i) \<and>
     (m_otp_locked s \<longrightarrow> m_otp_locked s' \<and> (\<forall>i. in_otp P i \<longrightarrow> m_regs s' i = m_regs s i))"

lemma lcm_trace_frame [simp]:
  "m_regs (lcm_trace_access P t s) = m_regs s" "m_otp_locked (lcm_trace_access P t s) = m_otp_locked s"
  "load32 (lcm_trace_access P t s) off = load32 s off"
  by (simp_all add: lcm_trace_access_def count_trace_def)

lemma lcm_access_keeps:
  assumes acc: "lcm_access P t s = Some (ok, t', s')" and nw: "no_wrap t"
    and reg: "p_command t = TLM_WRITE_COMMAND \<Longrightarrow> otp_regular_at P (unat (p_address t)) (unat (p_len t))"
  shows "lcm_keeps P s s'"
proof (cases ok)
  case False
  then have "s' = s" using lcm.access_refused acc unfolding lcm_access_def by simp
  then show ?thesis by (simp add: lcm_keeps_def)
next
  case True
  have acc': "reg_access LCM_REG_BYTES (plain_read LCM_REG_BYTES) (lcm_write P) (lcm_trace_access P) t s =
      Some (True, t', s')"
    using acc True by (simp add: lcm_access_def)
  have ib: "in_block LCM_REG_BYTES t" and "p_command t \<noteq> TLM_IGNORE_COMMAND"
    using lcm.access_granted_iff[OF nw acc'] by auto
  then consider "p_command t = TLM_READ_COMMAND" | "p_command t = TLM_WRITE_COMMAND"
    by (cases "p_command t") auto
  then show ?thesis
  proof cases
    case 1
    then have "s' = lcm_trace_access P (t\<lparr>p_data := p_data t'\<rparr>) s"
      using acc' by (auto simp: reg_access_def plain_read_def regs_read_def Let_def bind_eq_Some_conv
          split: option.splits if_splits)
    then show ?thesis by (simp add: lcm_keeps_def)
  next
    case 2
    obtain buf w where w: "p_data t = Some buf" "unat (p_len t) \<le> length buf"
      "s' = lcm_trace_access P t w"
      "lcm_write P (p_address t) (take (unat (p_len t)) buf) s = Some w" "is_supported_length (p_len t)"
      using lcm.access_write[OF acc' 2] .
    have len: "length (take (unat (p_len t)) buf) = unat (p_len t)" using w(2) by simp
    have "lcs_advances (load32 s LCS_VALUE) (load32 w LCS_VALUE) \<and>
      (\<forall>i. in_otp P i \<longrightarrow> m_regs w i AND m_regs s i = m_regs s i \<and>
       (m_otp_locked s \<longrightarrow> m_regs w i = m_regs s i))"
      using lcm_write_step[OF w(4)] len ib reg[OF 2] unat_supported_length[OF w(5)]
      by (simp add: in_block_def)
    then show ?thesis using lcm_write_locked[OF _ w(4)] by (simp add: lcm_keeps_def w(3))
  qed
qed

lemma lcm_keeps_trans: "lcm_keeps P s s1 \<Longrightarrow> lcm_keeps P s1 s2 \<Longrightarrow> lcm_keeps P s s2"
proof -
  assume 1: "lcm_keeps P s s1" and 2: "lcm_keeps P s1 s2"
  have "z AND x = x" if "y AND x = x" "z AND y = y" for x y z :: u8
    by (metis that and.assoc)
  with 1 2 show ?thesis
    unfolding lcm_keeps_def by (auto intro: lcs_advances_trans)
qed

text \<open>C33. Over any history of accesses the lifecycle state only moves forward, from CM to DM to SE, no
  OTP bit is ever cleared, and a locked OTP stays locked and unchanged.\<close>

theorem lcm_history_keeps:
  assumes "lcm_history P s s'"
  shows "lcm_keeps P s s'"
  using assms
proof induction
  case lcm_start
  then show ?case by (simp add: lcm_keeps_def)
next
  case (lcm_more s1 t ok t' s2)
  then show ?case using lcm_access_keeps lcm_keeps_trans by blast
qed


subsection \<open>Provisioning\<close>

lemma lcm_access_otp_write:
  assumes acc: "lcm_access P t s = Some (True, t', s')" and wr: "p_command t = TLM_WRITE_COMMAND"
    and "p_data t = Some buf" and otp: "OTP_WINDOW \<le> unat (p_address t)"
    "unat (p_address t) + unat (p_len t) \<le> otp_limit P"
  obtains w where "s' = lcm_trace_access P t w"
    "lcm_write P (p_address t) (take (unat (p_len t)) buf) s = Some w"
    "is_otp_access P (p_address t) (length (take (unat (p_len t)) buf))"
    "length (take (unat (p_len t)) buf) = unat (p_len t)"
    "unat (p_address t) + unat (p_len t) \<le> LCM_REG_BYTES"
proof -
  obtain w where w: "unat (p_len t) \<le> length buf" "s' = lcm_trace_access P t w"
      "lcm_write P (p_address t) (take (unat (p_len t)) buf) s = Some w"
    using lcm.access_write[OF acc[unfolded lcm_access_def] wr] assms(3) by auto
  have len: "length (take (unat (p_len t)) buf) = unat (p_len t)" using w(1) by simp
  have lim: "otp_limit P \<le> LCM_REG_BYTES" using otp_limit_bounds by blast
  have "unat (p_address t) + unat (p_len t) < 2 ^ 64" using otp lim by simp
  then have "is_otp_access P (p_address t) (unat (p_len t))" using otp by (simp add: is_otp_access_iff)
  with that w len otp lim show ?thesis by simp
qed

text \<open>A granted write inside the OTP window of an unlocked device sets exactly the requested
  bits of the addressed OTP bytes and changes no other byte but the lifecycle word.\<close>

theorem lcm_otp_write:
  assumes "lcm_access P t s = Some (True, t', s')" and "p_command t = TLM_WRITE_COMMAND"
    and "p_data t = Some buf" and "\<not> m_otp_locked s" and "OTP_WINDOW \<le> unat (p_address t)"
    and "unat (p_address t) + unat (p_len t) \<le> otp_limit P" and "4 \<le> i"
  shows "m_regs s' i =
    (if unat (p_address t) \<le> i \<and> i < unat (p_address t) + unat (p_len t)
     then m_regs s i OR buf ! (i - unat (p_address t)) else m_regs s i)"
proof -
  obtain w where "s' = lcm_trace_access P t w"
    "lcm_write P (p_address t) (take (unat (p_len t)) buf) s = Some w"
    "is_otp_access P (p_address t) (length (take (unat (p_len t)) buf))"
    "length (take (unat (p_len t)) buf) = unat (p_len t)"
    "unat (p_address t) + unat (p_len t) \<le> LCM_REG_BYTES"
    using lcm_access_otp_write[OF assms(1-3,5,6)] .
  then show ?thesis
    using lcm_write_otp(1)[of P "p_address t" "take (unat (p_len t)) buf" s w i] assms(4,7) by auto
qed

text \<open>Writing the device configuration word in state DM ends provisioning: the lifecycle becomes
  SE, and with the lock option the OTP is locked by the same write.\<close>

theorem lcm_provision:
  assumes "lcm_access P t s = Some (True, t', s')" and "p_command t = TLM_WRITE_COMMAND"
    and "p_address t = 0x10ec" and "p_len t = 4" and "\<not> m_otp_locked s"
    and "load32 s LCS_VALUE = LCS_DM" and "0xf0 \<le> lcm_p_otp_size P"
  shows "load32 s' LCS_VALUE = LCS_SE \<and> m_otp_locked s' = lcm_p_otp_lock_after_provision P"
proof -
  obtain buf where buf: "p_data t = Some buf"
    using assms(1) by (auto simp: lcm_access_def reg_access_def split: option.splits)
  have "0xf0 \<le> unat (lcm_p_otp_size P)" using assms(7) by (simp add: word_le_nat_alt)
  then obtain w where w: "s' = lcm_trace_access P t w"
    "lcm_write P 0x10ec (take 4 buf) s = Some w" "is_otp_access P 0x10ec (length (take 4 buf))"
    "length (take 4 buf) = 4"
    using lcm_access_otp_write[OF assms(1,2) buf] assms(3,4) by (auto simp: otp_limit_def)
  then show ?thesis
    using assms(5,6)
    by (auto simp: lcm_write_def write_otp_def bind_eq_Some_conv update_lcs_from_otp_write_def
        range_includes_def Let_def split: if_splits)
qed

subsection \<open>The OTP image\<close>

lemma mem_read_take: "i < n \<Longrightarrow> i < length bs \<Longrightarrow> mem_write m off (take n bs) (off + i) = bs ! i"
  by (simp add: mem_write_def)

lemma lcm_reset_dcu_frame:
  "lcm_image (lcm_reset_dcu i s) = lcm_image s" "m_otp_locked (lcm_reset_dcu i s) = m_otp_locked s"
  by (induction i) simp_all

text \<open>With write-back enabled, the OTP contents survive a reset: loading the image that an OTP
  write flushed gives back every OTP byte, and the device comes up unlocked.\<close>

theorem lcm_image_roundtrip:
  assumes "write_otp P off bs s = Some (True, s')" and "\<not> m_otp_locked s"
    and "lcm_p_otp_writeback P" and "lcm_p_otp_image P \<noteq> []"
    and "lcm_image s = None \<Longrightarrow> lcm_image_creatable P" and "in_otp P i"
  shows "m_regs (lcm_reset_registers P s') i = m_regs s' i \<and> \<not> m_otp_locked (lcm_reset_registers P s')"
proof -
  obtain u where u: "s' = flush_otp_image P u" "lcm_image u = lcm_image s"
    using assms(1,2)
    by (auto simp: write_otp_def bind_eq_Some_conv split: if_splits
        intro!: that[of "update_lcs_from_otp_write P (unat off - OTP_WINDOW) (length bs) _"])
       (simp add: update_lcs_from_otp_write_def Let_def)
  let ?bytes = "mem_read (m_regs u) OTP_WINDOW (otp_limit P - OTP_WINDOW)"
  obtain rest where img: "lcm_image s' = Some (?bytes @ rest)"
    using u assms(3-5) by (cases "lcm_image s") (auto simp: flush_otp_image_def Let_def)
  define j where "j = i - OTP_WINDOW"
  have j: "i = OTP_WINDOW + j" "j < otp_limit P - OTP_WINDOW" "j < LCM_REG_BYTES - OTP_WINDOW"
    using assms(6) otp_limit_bounds[of P] by (auto simp: in_otp_def j_def)
  have "m_regs (lcm_reset_registers P s') i = ?bytes ! j"
    using img j(2,3) mem_read_take[OF j(3)] assms(4)
    by (simp add: lcm_reset_registers_def load_otp_image_def lcm_reset_dcu_frame Let_def j(1) nth_append del: take_append)
  then show ?thesis
    using j(2) by (simp add: u(1) j(1)) (simp add: lcm_reset_registers_def load_otp_image_def
      lcm_reset_dcu_frame Let_def split: option.splits)
qed


subsection \<open>Straddling writes\<close>

text \<open>A 64-bit write that starts just below the OTP window is not an OTP access: it overwrites the
  first OTP word, lock or no lock, and can clear bits.\<close>

theorem lcm_straddle_overwrites_otp:
  assumes "length buf = 8"
  shows "\<exists>t' s'. lcm_access P (write_payload 0xffc buf) s = Some (True, t', s') \<and>
    m_otp_locked s' = m_otp_locked s \<and> (\<forall>j < 4. m_regs s' (OTP_WINDOW + j) = buf ! (4 + j))"
proof -
  have "\<not> is_otp_access P 0xffc 8" by (simp add: is_otp_access_def)
  with assms show ?thesis
    by (simp add: lcm_access_def reg_access_def is_supported_length_def beyond_def lcm_write_def
        write_otp_def regs_write_def arr_write_def mem_write_def Let_def)
qed

subsection \<open>Witnesses\<close>

definition provisioned_params :: lcm_params where
  "provisioned_params = lcm_default_params\<lparr>lcm_p_lcs := LCS_DM, lcm_p_otp_image := ''otp.bin'',
     lcm_p_otp_writeback := True\<rparr>"

lemma provisioned_params_sel [simp]:
  "lcm_p_lcs provisioned_params = LCS_DM" "lcm_p_otp_size provisioned_params = 0x10000"
  "lcm_p_otp_lock_after_provision provisioned_params" "lcm_p_otp_writeback provisioned_params"
  "lcm_p_otp_image provisioned_params \<noteq> []" "lcm_image_creatable provisioned_params"
  "otp_limit provisioned_params = 0x11000"
  by (simp_all add: provisioned_params_def lcm_default_params_def otp_limit_def)

lemma lcm_reset_dcu_lcs: "load32 (lcm_reset_dcu i s) LCS_VALUE = load32 s LCS_VALUE"
  by (induction i) simp_all

lemma lcm_init_lcs: "load32 (lcm_init P None) LCS_VALUE = lcm_p_lcs P" "\<not> m_otp_locked (lcm_init P None)"
  "lcm_image (lcm_init P None) = None"
  by (simp_all add: lcm_init_def lcm_reset_registers_def load_otp_image_def lcm_reset_dcu_frame
      lcm_reset_dcu_lcs Let_def)

theorem lcm_straddle_overwrites_otp_witness:
  "\<exists>t' s'. lcm_access lcm_default_params (write_payload 0xffc [1, 2, 3, 4, 5, 6, 7, 8])
       (lcm_init lcm_default_params None) = Some (True, t', s') \<and> m_regs s' 0x1000 = 5"
proof -
  have "m_regs s' 0x1000 = 5" if "\<forall>j < 4. m_regs s' (OTP_WINDOW + j) = [1, 2, 3, 4, 5, 6, 7, 8] ! (4 + j)" for s' :: rse_lcm
    using that[rule_format, of 0] by simp
  then show ?thesis
    using lcm_straddle_overwrites_otp[of "[1, 2, 3, 4, 5, 6, 7, 8]" lcm_default_params "lcm_init lcm_default_params None"]
    by fastforce
qed

definition provision_write :: payload where
  "provision_write = write_payload 0x10ec [1, 0, 0, 0]"

lemma provision_access:
  assumes "m_otp_locked s = False"
  shows "\<exists>t' s'. lcm_access provisioned_params provision_write s = Some (True, t', s')"
  using assms
  by (simp add: lcm_access_def provision_write_def reg_access_def is_supported_length_def beyond_def
      lcm_write_def write_otp_def is_otp_access_def otp_limit_def arr_read_def arr_write_def Let_def)

lemma provision_from_reset:
  obtains t' s' where "lcm_access provisioned_params provision_write (lcm_init provisioned_params None) =
    Some (True, t', s')"
  using provision_access[of "lcm_init provisioned_params None"] by (auto simp: lcm_init_lcs)

theorem lcm_provision_witness:
  "\<exists>t' s'. lcm_access provisioned_params provision_write (lcm_init provisioned_params None) =
     Some (True, t', s') \<and> load32 s' LCS_VALUE = LCS_SE \<and> m_otp_locked s'"
proof -
  obtain t' s' where acc: "lcm_access provisioned_params provision_write (lcm_init provisioned_params None) =
    Some (True, t', s')" by (rule provision_from_reset)
  have "load32 s' LCS_VALUE = LCS_SE \<and> m_otp_locked s' = lcm_p_otp_lock_after_provision provisioned_params"
    by (rule lcm_provision[OF acc])
      (simp_all add: provision_write_def lcm_init_lcs)
  with acc show ?thesis by simp
qed

theorem lcm_otp_write_witness:
  "\<exists>t' s'. lcm_access provisioned_params provision_write (lcm_init provisioned_params None) =
     Some (True, t', s') \<and> m_regs s' 0x10ec = m_regs (lcm_init provisioned_params None) 0x10ec OR 1"
proof -
  obtain t' s' where acc: "lcm_access provisioned_params provision_write (lcm_init provisioned_params None) =
    Some (True, t', s')" by (rule provision_from_reset)
  have "m_regs s' 0x10ec = m_regs (lcm_init provisioned_params None) 0x10ec OR [1, 0, 0, 0] ! 0"
    using lcm_otp_write[OF acc, of "[1, 0, 0, 0]" "0x10ec"]
    by (simp add: provision_write_def lcm_init_lcs)
  with acc show ?thesis by auto
qed

theorem lcm_image_roundtrip_witness:
  "\<exists>s'. write_otp provisioned_params 0x10ec [1, 0, 0, 0] (lcm_init provisioned_params None) = Some (True, s') \<and>
     m_regs (lcm_reset_registers provisioned_params s') 0x10ec = m_regs s' 0x10ec"
proof -
  obtain s' where w: "write_otp provisioned_params 0x10ec [1, 0, 0, 0] (lcm_init provisioned_params None) =
      Some (True, s')"
    by (simp add: write_otp_def is_otp_access_def arr_read_def arr_write_def lcm_init_lcs)
  have "m_regs (lcm_reset_registers provisioned_params s') 0x10ec = m_regs s' 0x10ec \<and>
      \<not> m_otp_locked (lcm_reset_registers provisioned_params s')"
    by (rule lcm_image_roundtrip[OF w])
      (simp_all add: lcm_init_lcs in_otp_def)
  with w show ?thesis by blast
qed

theorem lcm_history_keeps_witness:
  "\<exists>s'. lcm_history provisioned_params (lcm_init provisioned_params None) s' \<and>
     lcm_keeps provisioned_params (lcm_init provisioned_params None) s' \<and>
     (\<exists>t'. lcm_access provisioned_params provision_write (lcm_init provisioned_params None) = Some (True, t', s'))"
proof -
  obtain t' s' where acc: "lcm_access provisioned_params provision_write (lcm_init provisioned_params None) =
    Some (True, t', s')" by (rule provision_from_reset)
  have h: "lcm_history provisioned_params (lcm_init provisioned_params None) s'"
    by (rule lcm_more[OF lcm_start _ _ acc])
      (simp_all add: no_wrap_def provision_write_def otp_regular_at_def)
  with acc lcm_history_keeps[OF h] show ?thesis by blast
qed

end
