(* ===== verification/Rse_Kmu.thy ===== *)
theory Rse_Kmu
  imports Tlm_Regs
begin

text \<open>
  The key management unit \<^verbatim>\<open>rse_kmu\<close> (\<^verbatim>\<open>src/systemc-components/rse_kmu/include/rse_kmu.h\<close>): 32 key
  slots, the first seven loaded from the OTP image, and an export that copies the eight words
  of a slot to a destination port over the initiator socket. The socket's target is a parameter
  \<open>bus\<close> with its own state, so the state of the device is a pair.
\<close>

subsection \<open>Constants\<close>

abbreviation (input) KMU_REG_BYTES :: nat where "KMU_REG_BYTES \<equiv> 0x1000"
abbreviation (input) KMUBC :: nat where "KMUBC \<equiv> 0x000"
abbreviation (input) KMUIS :: nat where "KMUIS \<equiv> 0x004"
abbreviation (input) KMUIE :: nat where "KMUIE \<equiv> 0x008"
abbreviation (input) KMUIC :: nat where "KMUIC \<equiv> 0x00c"
abbreviation (input) KMUPRBGSI :: nat where "KMUPRBGSI \<equiv> 0x010"
abbreviation (input) KMUKSC_BASE :: nat where "KMUKSC_BASE \<equiv> 0x030"
abbreviation (input) KMUDKPA_BASE :: nat where "KMUDKPA_BASE \<equiv> 0x0b0"
abbreviation (input) KMUKSK_BASE :: nat where "KMUKSK_BASE \<equiv> 0x130"
abbreviation (input) KMURD_8 :: nat where "KMURD_8 \<equiv> 0x530"
abbreviation (input) KMURD_16 :: nat where "KMURD_16 \<equiv> 0x534"
abbreviation (input) KMURD_32 :: nat where "KMURD_32 \<equiv> 0x538"
abbreviation (input) KMU_PIDR4 :: nat where "KMU_PIDR4 \<equiv> 0xfd0"
abbreviation (input) KMU_PIDR0 :: nat where "KMU_PIDR0 \<equiv> 0xfe0"
abbreviation (input) KMU_PIDR1 :: nat where "KMU_PIDR1 \<equiv> 0xfe4"
abbreviation (input) KMU_PIDR2 :: nat where "KMU_PIDR2 \<equiv> 0xfe8"
abbreviation (input) KMU_PIDR3 :: nat where "KMU_PIDR3 \<equiv> 0xfec"
abbreviation (input) KMU_CIDR0 :: nat where "KMU_CIDR0 \<equiv> 0xff0"
abbreviation (input) KMU_CIDR1 :: nat where "KMU_CIDR1 \<equiv> 0xff4"
abbreviation (input) KMU_CIDR2 :: nat where "KMU_CIDR2 \<equiv> 0xff8"
abbreviation (input) KMU_CIDR3 :: nat where "KMU_CIDR3 \<equiv> 0xffc"
abbreviation (input) SLOT_COUNT :: nat where "SLOT_COUNT \<equiv> 32"
abbreviation (input) HW_SLOT_COUNT :: nat where "HW_SLOT_COUNT \<equiv> 7"
abbreviation (input) SLOT_WORDS :: nat where "SLOT_WORDS \<equiv> 8"
abbreviation (input) WORD_BYTES :: nat where "WORD_BYTES \<equiv> 4"
abbreviation (input) OTP_HW_KEY_BYTES :: nat where "OTP_HW_KEY_BYTES \<equiv> 32"
abbreviation (input) KMUKSC_STRIDE :: nat where "KMUKSC_STRIDE \<equiv> 4"
abbreviation (input) KMUDKPA_STRIDE :: nat where "KMUDKPA_STRIDE \<equiv> 4"
abbreviation (input) KMUKSK_STRIDE :: nat where "KMUKSK_STRIDE \<equiv> 32"
abbreviation (input) KMUIS_KEC :: u32 where "KMUIS_KEC \<equiv> 1"
abbreviation (input) KMUKSC_VKS :: u32 where "KMUKSC_VKS \<equiv> 0x01000000"
abbreviation (input) KMUKSC_KSR :: u32 where "KMUKSC_KSR \<equiv> 0x02000000"
abbreviation (input) KMUKSC_IKS :: u32 where "KMUKSC_IKS \<equiv> 0x04000000"
abbreviation (input) KMUKSC_KSIP :: u32 where "KMUKSC_KSIP \<equiv> 0x08000000"
abbreviation (input) KMUKSC_EK :: u32 where "KMUKSC_EK \<equiv> 0x10000000"

subsection \<open>Parameters and state\<close>

text \<open>
  \<open>kmu_image\<close> is the content of the file at the configured path, \<open>None\<close> when it cannot be
  opened; \<open>kmu_initiator_bound\<close> says whether the initiator socket is bound.
\<close>

record kmu_params =
  kmu_p_trace :: bool
  kmu_p_trace_limit :: u32
  kmu_p_trace_filter :: string
  kmu_p_otp_image :: string
  kmu_p_build_config :: u32
  kmu_p_hw_slot_config :: u32
  kmu_p_hw_slot_export_address :: u32
  kmu_image :: "u8 list option"
  kmu_initiator_bound :: bool

definition kmu_default_params :: kmu_params where
  "kmu_default_params = \<lparr>
     kmu_p_trace = False, kmu_p_trace_limit = 64, kmu_p_trace_filter = ''all'',
     kmu_p_otp_image = [], kmu_p_build_config = 0x003d0005, kmu_p_hw_slot_config = 0x00d60100,
     kmu_p_hw_slot_export_address = 0x50154400, kmu_image = None, kmu_initiator_bound = True\<rparr>"

type_synonym rse_kmu = reg_state

subsection \<open>Register decoding\<close>

definition is_slot_reg :: "nat \<Rightarrow> nat \<Rightarrow> bool" where
  "is_slot_reg off base \<longleftrightarrow>
     off \<ge> base \<and> off < base + SLOT_COUNT * WORD_BYTES \<and> (off - base) mod WORD_BYTES = 0"

definition is_key_reg :: "nat \<Rightarrow> bool" where
  "is_key_reg off \<longleftrightarrow> off \<ge> KMUKSK_BASE \<and> off < KMUKSK_BASE + SLOT_COUNT * KMUKSK_STRIDE"

subsection \<open>Reset\<close>

text \<open>The OTP offsets of the hardware keys; slot 0 is not stored in the OTP.\<close>

definition otp_key_offset :: "nat \<Rightarrow> nat" where
  "otp_key_offset slot = [0xffffffff, 0x00, 0x20, 0x40, 0x60, 0x80, 0xa0] ! slot"

text \<open>A short read copies what there is and ends the loop.\<close>

primrec load_otp_keys_loop :: "u8 list \<Rightarrow> nat list \<Rightarrow> rse_kmu \<Rightarrow> rse_kmu" where
  "load_otp_keys_loop file [] s = s"
| "load_otp_keys_loop file (slot # slots) s =
     (let got = take OTP_HW_KEY_BYTES (drop (otp_key_offset slot) file);
          s' = s\<lparr>m_regs := mem_write (m_regs s) (KMUKSK_BASE + slot * KMUKSK_STRIDE) got\<rparr>
      in if length got \<noteq> OTP_HW_KEY_BYTES then s' else load_otp_keys_loop file slots s')"

definition load_otp_hardware_keys :: "kmu_params \<Rightarrow> rse_kmu \<Rightarrow> rse_kmu" where
  "load_otp_hardware_keys P s =
     (if kmu_p_otp_image P = [] then s
      else (case kmu_image P of
              None \<Rightarrow> s
            | Some file \<Rightarrow> load_otp_keys_loop file [1..<HW_SLOT_COUNT] s))"

primrec kmu_reset_slots :: "kmu_params \<Rightarrow> nat \<Rightarrow> rse_kmu \<Rightarrow> rse_kmu" where
  "kmu_reset_slots P 0 s = s"
| "kmu_reset_slots P (Suc slot) s =
     store32 (KMUDKPA_BASE + slot * KMUDKPA_STRIDE) (kmu_p_hw_slot_export_address P)
       (store32 (KMUKSC_BASE + slot * KMUKSC_STRIDE) (kmu_p_hw_slot_config P) (kmu_reset_slots P slot s))"

definition kmu_reset_ids :: "rse_kmu \<Rightarrow> rse_kmu" where
  "kmu_reset_ids s =
     (let s = store32 KMURD_32 0 (store32 KMURD_16 0 (store32 KMURD_8 0 s));
          s = store32 KMU_PIDR1 0xb0 (store32 KMU_PIDR0 0xf3 (store32 KMU_PIDR4 0x04 s));
          s = store32 KMU_PIDR3 0x00 (store32 KMU_PIDR2 0x1b s);
          s = store32 KMU_CIDR1 0xf0 (store32 KMU_CIDR0 0x0d s)
      in store32 KMU_CIDR3 0xb1 (store32 KMU_CIDR2 0x05 s))"

definition kmu_reset_registers :: "kmu_params \<Rightarrow> rse_kmu \<Rightarrow> rse_kmu" where
  "kmu_reset_registers P s =
     (let s = s\<lparr>m_regs := (\<lambda>_. 0)\<rparr>;
          s = store32 KMUIS 0 (store32 KMUBC (kmu_p_build_config P) s);
          s = store32 KMUPRBGSI 0 (store32 KMUIC 0 (store32 KMUIE 0 s));
          s = kmu_reset_slots P HW_SLOT_COUNT s
      in kmu_reset_ids (load_otp_hardware_keys P s))"

definition kmu_doreset :: "kmu_params \<Rightarrow> bool \<Rightarrow> rse_kmu \<Rightarrow> rse_kmu" where
  "kmu_doreset P value s = (if value then kmu_reset_registers P s else s)"

definition kmu_init :: "kmu_params \<Rightarrow> rse_kmu" where
  "kmu_init P = kmu_reset_registers P \<lparr>m_regs = (\<lambda>_. 0), m_trace_count = 0\<rparr>"

subsection \<open>Key export\<close>

definition kmu_mem_write32 :: "kmu_params \<Rightarrow> 'm bus \<Rightarrow> u64 \<Rightarrow> u32 \<Rightarrow> 'm \<Rightarrow> bool \<times> 'm" where
  "kmu_mem_write32 P bus address value m =
     (if \<not> kmu_initiator_bound P then (False, m)
      else (let (t, m') = bus (write_payload address (le_bytes 4 value)) m
            in (is_response_ok t, m')))"

primrec export_words :: "kmu_params \<Rightarrow> 'm bus \<Rightarrow> u64 \<Rightarrow> nat \<Rightarrow> nat list \<Rightarrow> rse_kmu \<Rightarrow> 'm \<Rightarrow> 'm" where
  "export_words P bus address slot [] s m = m"
| "export_words P bus address slot (word # words) s m =
     (let key_word = load32 s (KMUKSK_BASE + slot * KMUKSK_STRIDE + word * WORD_BYTES);
          (_, m') = kmu_mem_write32 P bus (address + of_nat (word * WORD_BYTES)) key_word m
      in export_words P bus address slot words s m')"

definition export_address :: "kmu_params \<Rightarrow> nat \<Rightarrow> rse_kmu \<Rightarrow> u64" where
  "export_address P slot s =
     (let address = load32 s (KMUDKPA_BASE + slot * KMUDKPA_STRIDE)
      in ucast (if address = 0 then kmu_p_hw_slot_export_address P else address))"

definition export_key :: "kmu_params \<Rightarrow> 'm bus \<Rightarrow> nat \<Rightarrow> rse_kmu \<Rightarrow> 'm \<Rightarrow> 'm" where
  "export_key P bus slot s m = export_words P bus (export_address P slot s) slot [0..<SLOT_WORDS] s m"

subsection \<open>Register writes\<close>

text \<open>The two request bits that become status bits.\<close>

definition kmuksc_flags :: "u32 \<Rightarrow> u32" where
  "kmuksc_flags v =
     (let v = (if v AND KMUKSC_IKS \<noteq> 0 then (v AND NOT KMUKSC_IKS) OR KMUKSC_KSIP else v)
      in if v AND KMUKSC_VKS \<noteq> 0 then (v AND NOT KMUKSC_VKS) OR KMUKSC_KSR else v)"

definition write_kmuksc :: "kmu_params \<Rightarrow> 'm bus \<Rightarrow> nat \<Rightarrow> u32 \<Rightarrow> rse_kmu \<times> 'm \<Rightarrow> rse_kmu \<times> 'm" where
  "write_kmuksc P bus off v sm =
     (let (s, m) = sm;
          slot = (off - KMUKSC_BASE) div KMUKSC_STRIDE;
          v = kmuksc_flags v
      in if v AND KMUKSC_EK \<noteq> 0 then
           (let m' = export_key P bus slot s m;
                v = (v AND NOT KMUKSC_EK) OR KMUKSC_KSR;
                s' = store32 KMUIS (load32 s KMUIS OR KMUIS_KEC) s
            in (store32 off v s', m'))
         else (store32 off v s, m))"

definition kmu_read_only :: "nat \<Rightarrow> bool" where
  "kmu_read_only off \<longleftrightarrow>
     off \<in> {KMUBC, KMUIS, KMURD_8, KMURD_16, KMURD_32, KMU_PIDR4, KMU_PIDR0, KMU_PIDR1, KMU_PIDR2,
            KMU_PIDR3, KMU_CIDR0, KMU_CIDR1, KMU_CIDR2, KMU_CIDR3}"

definition kmu_write32 :: "kmu_params \<Rightarrow> 'm bus \<Rightarrow> nat \<Rightarrow> u32 \<Rightarrow> rse_kmu \<times> 'm \<Rightarrow> rse_kmu \<times> 'm" where
  "kmu_write32 P bus off v sm =
     (let (s, m) = sm in
      if kmu_read_only off then (s, m)
      else if off = KMUIC then (store32 KMUIC v (store32 KMUIS (load32 s KMUIS AND NOT v) s), m)
      else if off = KMUIE \<or> off = KMUPRBGSI then (store32 off v s, m)
      else if is_slot_reg off KMUKSC_BASE then write_kmuksc P bus off v (s, m)
      else (store32 off v s, m))"

subsection \<open>Access\<close>

definition kmu_read :: "u64 \<Rightarrow> nat \<Rightarrow> rse_kmu \<times> 'm \<Rightarrow> (u8 list \<times> rse_kmu \<times> 'm) ub" where
  "kmu_read off len sm = do { bs \<leftarrow> regs_read KMU_REG_BYTES off len (fst sm); Some (bs, sm) }"

definition kmu_write ::
    "kmu_params \<Rightarrow> 'm bus \<Rightarrow> u64 \<Rightarrow> u8 list \<Rightarrow> rse_kmu \<times> 'm \<Rightarrow> (rse_kmu \<times> 'm) ub" where
  "kmu_write P bus off bs sm =
     (if length bs = 4 \<and> off mod 4 = 0
      then (if unat off + 4 \<le> KMU_REG_BYTES
            then Some (kmu_write32 P bus (unat off) (le_word bs) sm) else None)
      else do {
        m \<leftarrow> arr_write KMU_REG_BYTES (m_regs (fst sm)) (unat off) bs;
        Some ((fst sm)\<lparr>m_regs := m\<rparr>, snd sm)
      })"

definition kmu_trace_filter_matches :: "kmu_params \<Rightarrow> u64 \<Rightarrow> bool" where
  "kmu_trace_filter_matches P off =
     (let filt = kmu_p_trace_filter P; off32 = unat (ucast off :: u32) in
      if filt = [] \<or> filt = ''all'' then True
      else if filt = ''key'' then
        off = of_nat KMUIS \<or> off = of_nat KMUIC \<or> is_slot_reg off32 KMUKSC_BASE \<or>
        is_slot_reg off32 KMUDKPA_BASE \<or> is_key_reg off32
      else False)"

definition kmu_trace_access :: "kmu_params \<Rightarrow> payload \<Rightarrow> rse_kmu \<times> 'm \<Rightarrow> rse_kmu \<times> 'm" where
  "kmu_trace_access P t sm =
     (count_trace (kmu_p_trace P \<and> kmu_trace_filter_matches P (p_address t)) (kmu_p_trace_limit P) (fst sm),
      snd sm)"

definition kmu_access ::
    "kmu_params \<Rightarrow> 'm bus \<Rightarrow> payload \<Rightarrow> rse_kmu \<times> 'm \<Rightarrow> (bool \<times> payload \<times> rse_kmu \<times> 'm) ub" where
  "kmu_access P bus = reg_access KMU_REG_BYTES kmu_read (kmu_write P bus) (kmu_trace_access P)"

definition kmu_b_transport ::
    "kmu_params \<Rightarrow> 'm bus \<Rightarrow> payload \<Rightarrow> rse_kmu \<times> 'm \<Rightarrow> (payload \<times> rse_kmu \<times> 'm) ub" where
  "kmu_b_transport P bus = b_transport_of (kmu_access P bus)"

definition kmu_transport_dbg ::
    "kmu_params \<Rightarrow> 'm bus \<Rightarrow> payload \<Rightarrow> rse_kmu \<times> 'm \<Rightarrow> (u32 \<times> payload \<times> rse_kmu \<times> 'm) ub" where
  "kmu_transport_dbg P bus = transport_dbg_of (kmu_access P bus)"

subsection \<open>Export\<close>

lemma kmu_mem_write32_memory:
  assumes "memory_bus bus peek" and "kmu_initiator_bound P"
  shows "peek (snd (kmu_mem_write32 P bus a v m)) = ram_write (peek m) a (le_bytes 4 v)"
    and "fst (kmu_mem_write32 P bus a v m)"
proof -
  obtain t' m' where b: "bus (write_payload a (le_bytes 4 v)) m = (t', m')" by fastforce
  show "peek (snd (kmu_mem_write32 P bus a v m)) = ram_write (peek m) a (le_bytes 4 v)"
    and "fst (kmu_mem_write32 P bus a v m)"
    using memory_bus_write[OF assms(1) _ _ _ b] assms(2) by (simp_all add: kmu_mem_write32_def b is_response_ok_def)
qed

lemma export_words_memory:
  assumes "memory_bus bus peek" and "kmu_initiator_bound P" and "k + n \<le> 8"
  shows "peek (export_words P bus a slot [k..<k + n] s m) =
    ram_write (peek m) (a + of_nat (4 * k)) (mem_read (m_regs s) (KMUKSK_BASE + slot * 32 + 4 * k) (4 * n))"
  using assms(3)
proof (induction n arbitrary: k m)
  case (Suc n)
  define m1 where "m1 = snd (kmu_mem_write32 P bus (a + of_nat (k * 4)) (load32 s (KMUKSK_BASE + slot * 32 + k * 4)) m)"
  have m1: "peek m1 = ram_write (peek m) (a + of_nat (4 * k)) (mem_read (m_regs s) (KMUKSK_BASE + slot * 32 + 4 * k) 4)"
    using kmu_mem_write32_memory(1)[OF assms(1,2)] by (simp add: m1_def mult.commute)
  have upt: "[k..<k + Suc n] = k # [Suc k..<Suc k + n]" by (simp add: upt_rec)
  have "peek (export_words P bus a slot [k..<k + Suc n] s m) = peek (export_words P bus a slot [Suc k..<Suc k + n] s m1)"
    unfolding upt by (simp add: m1_def split: prod.split)
  also have "\<dots> = ram_write (peek m1) (a + of_nat (4 * Suc k))
      (mem_read (m_regs s) (KMUKSK_BASE + slot * 32 + 4 * Suc k) (4 * n))"
    by (rule Suc.IH) (use Suc.prems in simp)
  also have "\<dots> = ram_write (peek m) (a + of_nat (4 * k))
      (mem_read (m_regs s) (KMUKSK_BASE + slot * 32 + 4 * k) 4 @
       mem_read (m_regs s) (KMUKSK_BASE + slot * 32 + 4 * k + 4) (4 * n))"
    using Suc.prems
    by (subst ram_write_append[symmetric]) (simp_all add: m1 algebra_simps)
  also have "\<dots> = ram_write (peek m) (a + of_nat (4 * k))
      (mem_read (m_regs s) (KMUKSK_BASE + slot * 32 + 4 * k) (4 * Suc n))"
    using mem_read_add[of "m_regs s" "KMUKSK_BASE + slot * 32 + 4 * k" 4 "4 * n"] by simp
  finally show ?case .
qed (simp add: mem_read_def)

lemma export_key_memory:
  assumes "memory_bus bus peek" and "kmu_initiator_bound P"
  shows "peek (export_key P bus slot s m) =
    ram_write (peek m) (export_address P slot s) (mem_read (m_regs s) (KMUKSK_BASE + slot * 32) 32)"
  using export_words_memory[OF assms, of 0 8] by (simp add: export_key_def)

lemma kmu_access_word:
  assumes "off mod 4 = 0" and "off + 4 \<le> KMU_REG_BYTES"
  shows "\<exists>t'. kmu_access P bus (write_payload (of_nat off) (le_bytes 4 v)) (s, m) =
    Some (True, t', kmu_trace_access P (write_payload (of_nat off) (le_bytes 4 v)) (kmu_write32 P bus off v (s, m)))"
proof -
  have u: "unat (of_nat off :: u64) = off" using assms by (intro unat_of_nat_small) simp
  have "unat (of_nat off mod 4 :: u64) = 0" using assms(1) by (simp add: unat_mod_distrib u)
  then have al: "(of_nat off :: u64) mod 4 = 0" by (simp add: unat_eq_0)
  have "\<not> beyond KMU_REG_BYTES (of_nat off) 4"
    using assms(2) by (subst beyond_iff_no_wrap) (simp_all add: u is_supported_length_def)
  then show ?thesis using assms(2)
    by (simp add: kmu_access_def reg_access_def is_supported_length_def kmu_write_def u al Let_def)
qed

lemma slot_reg [simp]: "slot < 32 \<Longrightarrow> is_slot_reg (KMUKSC_BASE + 4 * slot) KMUKSC_BASE"
  by (simp add: is_slot_reg_def)

lemma slot_reg_plain:
  "is_slot_reg off KMUKSC_BASE \<Longrightarrow> off mod 4 = 0 \<and> 0x30 \<le> off \<and> off < 0xb0 \<and> \<not> kmu_read_only off \<and> off \<noteq> KMUIC \<and> off \<noteq> KMUIE \<and> off \<noteq> KMUPRBGSI"
  by (simp add: is_slot_reg_def kmu_read_only_def) presburger

lemma kmu_trace_frame [simp]:
  "m_regs (fst (kmu_trace_access P t sm)) = m_regs (fst sm)" "snd (kmu_trace_access P t sm) = snd sm"
  "load32 (fst (kmu_trace_access P t sm)) off = load32 (fst sm) off"
  by (simp_all add: kmu_trace_access_def)

definition export_config :: "u32 \<Rightarrow> u32" where
  "export_config v = (kmuksc_flags v AND NOT KMUKSC_EK) OR KMUKSC_KSR"

lemma word_and_bit_iff:
  "v AND KMUKSC_IKS \<noteq> 0 \<longleftrightarrow> bit v 26" "v AND KMUKSC_VKS \<noteq> 0 \<longleftrightarrow> bit v 24" "v AND KMUKSC_EK \<noteq> 0 \<longleftrightarrow> bit v 28"
  using and_exp_iff[of v 26] and_exp_iff[of v 24] and_exp_iff[of v 28] by simp_all

lemma bit_clear_set:
  "j < 32 \<Longrightarrow> a < 32 \<Longrightarrow> b < 32 \<Longrightarrow>
   bit ((v AND NOT (2 ^ a)) OR 2 ^ b :: u32) j \<longleftrightarrow> j = b \<or> j \<noteq> a \<and> bit v j"
  by (auto simp: bit_simps)

lemma bit_kmuksc_steps:
  assumes "j < 32"
  shows "bit ((v AND NOT KMUKSC_IKS) OR KMUKSC_KSIP) j \<longleftrightarrow> j = 27 \<or> j \<noteq> 26 \<and> bit v j"
    "bit ((v AND NOT KMUKSC_VKS) OR KMUKSC_KSR) j \<longleftrightarrow> j = 25 \<or> j \<noteq> 24 \<and> bit v j"
    "bit ((v AND NOT KMUKSC_EK) OR KMUKSC_KSR) j \<longleftrightarrow> j = 25 \<or> j \<noteq> 28 \<and> bit v j"
proof -
  have "KMUKSC_IKS = 2 ^ 26" "KMUKSC_VKS = 2 ^ 24" "KMUKSC_EK = 2 ^ 28" "KMUKSC_KSR = 2 ^ 25" "KMUKSC_KSIP = 2 ^ 27"
    by simp_all
  then show "bit ((v AND NOT KMUKSC_IKS) OR KMUKSC_KSIP) j \<longleftrightarrow> j = 27 \<or> j \<noteq> 26 \<and> bit v j"
    "bit ((v AND NOT KMUKSC_VKS) OR KMUKSC_KSR) j \<longleftrightarrow> j = 25 \<or> j \<noteq> 24 \<and> bit v j"
    "bit ((v AND NOT KMUKSC_EK) OR KMUKSC_KSR) j \<longleftrightarrow> j = 25 \<or> j \<noteq> 28 \<and> bit v j"
    using bit_clear_set[OF assms, of 26 27 v] bit_clear_set[OF assms, of 24 25 v]
      bit_clear_set[OF assms, of 28 25 v]
    by (simp_all only: rel_simps)
qed

lemma bit_kmuksc_flags:
  "i < 32 \<Longrightarrow> bit (kmuksc_flags v) i \<longleftrightarrow>
     (if i = 26 \<or> i = 24 then False else if i = 27 then bit v 27 \<or> bit v 26
      else if i = 25 then bit v 25 \<or> bit v 24 else bit v i)"
proof -
  assume i: "i < 32"
  define w where "w = (if bit v 26 then (v AND NOT KMUKSC_IKS) OR KMUKSC_KSIP else v)"
  have w: "bit w j \<longleftrightarrow> (if j = 26 then False else if j = 27 then bit v 27 \<or> bit v 26 else bit v j)" if "j < 32" for j
    unfolding w_def
    by (cases "bit v 26"; simp only: if_True if_False bit_kmuksc_steps(1)[OF that]; auto)
  have "kmuksc_flags v = (if bit w 24 then (w AND NOT KMUKSC_VKS) OR KMUKSC_KSR else w)"
    unfolding kmuksc_flags_def word_and_bit_iff w_def Let_def by (rule refl)
  then show ?thesis
    using i w[OF i] w[of 24] bit_kmuksc_steps(2)[OF i, of w] by auto
qed

lemma write_kmuksc_plain:
  assumes "\<not> bit v 28"
  shows "write_kmuksc P bus off v (s, m) = (store32 off (kmuksc_flags v) s, m)"
  using assms by (simp add: write_kmuksc_def word_and_bit_iff bit_kmuksc_flags)

lemma write_kmuksc_export:
  assumes "bit v 28"
  shows "write_kmuksc P bus off v (s, m) =
     (store32 off (export_config v) (store32 KMUIS (load32 s KMUIS OR KMUIS_KEC) s),
      export_key P bus ((off - KMUKSC_BASE) div 4) s m)"
  using assms by (simp add: write_kmuksc_def word_and_bit_iff bit_kmuksc_flags export_config_def Let_def)

lemma bit_export_config:
  "i < 32 \<Longrightarrow> bit (export_config v) i \<longleftrightarrow>
     i = 25 \<or> i \<notin> {24, 26, 28} \<and> bit v i \<or> i = 27 \<and> bit v 26"
  using bit_kmuksc_flags[of i v] bit_kmuksc_steps(3)[of i "kmuksc_flags v"] unfolding export_config_def
  by (simp only:) auto

text \<open>C38. Writing a slot's configuration with the export bit copies the 32 key bytes of the slot to its
  destination port and nothing else to memory, raises KMUIS.KEC, records the export in the
  configuration (export, verify and invalidate bits cleared, ready bit set), and leaves every
  other register byte, the key slots included, alone.\<close>

theorem kmu_export_key:
  fixes v :: u32
  assumes "memory_bus bus peek" and "kmu_initiator_bound P" and "slot < SLOT_COUNT" and "bit v 28"
  shows "\<exists>t' s' m'. kmu_access P bus (write_payload (of_nat (KMUKSC_BASE + 4 * slot)) (le_bytes 4 v)) (s, m) =
      Some (True, t', s', m') \<and>
    peek m' = ram_write (peek m) (export_address P slot s) (mem_read (m_regs s) (KMUKSK_BASE + slot * 32) 32) \<and>
    load32 s' KMUIS = load32 s KMUIS OR KMUIS_KEC \<and>
    (\<forall>i < 32. bit (load32 s' (KMUKSC_BASE + 4 * slot)) i \<longleftrightarrow>
       i = 25 \<or> i \<notin> {24, 26, 28} \<and> bit v i \<or> i = 27 \<and> bit v 26) \<and>
    (\<forall>i. i \<notin> {4..<8} \<union> {KMUKSC_BASE + 4 * slot..<KMUKSC_BASE + 4 * slot + 4} \<longrightarrow> m_regs s' i = m_regs s i)"
proof -
  let ?off = "KMUKSC_BASE + 4 * slot"
  let ?t = "write_payload (of_nat ?off) (le_bytes 4 v)"
  have reg: "is_slot_reg ?off KMUKSC_BASE" using assms(3) by simp
  have "kmu_write32 P bus ?off (v :: u32) (s, m) = (store32 ?off (export_config v) (store32 KMUIS (load32 s KMUIS OR KMUIS_KEC) s),
      export_key P bus slot s m)" (is "_ = (?s', ?m')")
    using slot_reg_plain[OF reg] reg write_kmuksc_export[OF assms(4), of P bus ?off s m]
    by (simp add: kmu_write32_def)
  then obtain t' where acc: "kmu_access P bus ?t (s, m) =
      Some (True, t', fst (kmu_trace_access P ?t (?s', ?m')), ?m')"
    using kmu_access_word[of ?off P bus v s m] assms(3) by (auto simp: kmu_trace_access_def)
  have "m_regs ?s' i = m_regs s i" if "i \<notin> {4..<8} \<union> {?off..<?off + 4}" for i
    using that by (auto simp: store32_outside not_le not_less)
  then show ?thesis
    using acc export_key_memory[OF assms(1,2)] by (auto simp: load32_store32_aligned bit_export_config)
qed

text \<open>Every aligned register write keeps the identification, read-only and status registers, but
  for the two documented ways the status changes: KMUIC clears the bits written to it, and a key
  export sets KEC.\<close>

theorem kmu_status_spec:
  fixes v :: u32
  assumes "off mod 4 = 0" and "off + 4 \<le> KMU_REG_BYTES" and "kmu_read_only r"
  shows "\<exists>t' s' m'. kmu_access P bus (write_payload (of_nat off) (le_bytes 4 v)) (s, m) = Some (True, t', s', m') \<and>
    load32 s' r = (if r \<noteq> KMUIS then load32 s r
      else if off = KMUIC then load32 s KMUIS AND NOT v
      else if is_slot_reg off KMUKSC_BASE \<and> bit v 28 then load32 s KMUIS OR KMUIS_KEC
      else load32 s KMUIS)"
proof -
  have al: "r mod 4 = 0" using assms(3) by (auto simp: kmu_read_only_def)
  have slot: "load32 (fst (write_kmuksc P bus off v (s, m))) r =
      (if r = KMUIS \<and> bit v 28 then load32 s KMUIS OR KMUIS_KEC else load32 s r)" if "is_slot_reg off KMUKSC_BASE"
  proof (cases "bit v 28")
    case True
    then show ?thesis using that slot_reg_plain[OF that] assms(1,3) al
      by (auto simp: write_kmuksc_export load32_store32_aligned)
  next
    case False
    then show ?thesis using slot_reg_plain[OF that] assms(1,3) al
      by (auto simp: write_kmuksc_plain load32_store32_aligned)
  qed
  consider "kmu_read_only off" | "off = KMUIC" | "off = KMUIE \<or> off = KMUPRBGSI" | "is_slot_reg off KMUKSC_BASE"
    | "\<not> kmu_read_only off" "off \<notin> {KMUIC, KMUIE, KMUPRBGSI}" "\<not> is_slot_reg off KMUKSC_BASE"
    by blast
  then have "load32 (fst (kmu_write32 P bus off v (s, m))) r = (if r \<noteq> KMUIS then load32 s r
      else if off = KMUIC then load32 s KMUIS AND NOT v
      else if is_slot_reg off KMUKSC_BASE \<and> bit v 28 then load32 s KMUIS OR KMUIS_KEC
      else load32 s KMUIS)"
  proof cases
    case 1
    then have "off \<noteq> KMUIC" "\<not> is_slot_reg off KMUKSC_BASE" using slot_reg_plain[of off] by (auto simp: kmu_read_only_def)
    with 1 show ?thesis by (simp add: kmu_write32_def)
  next
    case 2
    have "\<not> kmu_read_only KMUIC" by (simp add: kmu_read_only_def)
    with 2 assms(3) al show ?thesis by (auto simp: kmu_write32_def load32_store32_aligned)
  next
    case 3
    have "\<not> kmu_read_only KMUIE" "\<not> kmu_read_only KMUPRBGSI" by (simp_all add: kmu_read_only_def)
    moreover have "\<not> is_slot_reg off KMUKSC_BASE" using 3 by (auto simp: is_slot_reg_def)
    ultimately show ?thesis using 3 assms(3) al by (auto simp: kmu_write32_def load32_store32_aligned)
  next
    case 4
    then show ?thesis using slot slot_reg_plain[OF 4] by (simp add: kmu_write32_def)
  next
    case 5
    with assms(1,3) al show ?thesis by (auto simp: kmu_write32_def load32_store32_aligned)
  qed
  then show ?thesis
    using kmu_access_word[OF assms(1,2), of P bus v s m] by (auto simp: prod_eq_iff)
qed


subsection \<open>Hardware keys\<close>

abbreviation key_slot :: "rse_kmu \<Rightarrow> nat \<Rightarrow> u8 list" where
  "key_slot s slot \<equiv> mem_read (m_regs s) (KMUKSK_BASE + slot * KMUKSK_STRIDE) 32"

lemma slot_disjoint:
  "(slot :: nat) \<noteq> slot' \<Longrightarrow> KMUKSK_BASE + slot * 32 + 32 \<le> KMUKSK_BASE + slot' * 32 \<or>
   KMUKSK_BASE + slot' * 32 + 32 \<le> KMUKSK_BASE + slot * 32"
  by presburger

lemma load_otp_keys_other:
  "slot \<notin> set slots \<Longrightarrow> key_slot (load_otp_keys_loop file slots s) slot = key_slot s slot"
proof (induction slots arbitrary: s)
  case (Cons a slots)
  let ?got = "take 32 (drop (otp_key_offset a) file)"
  have "a \<noteq> slot" using Cons.prems by auto
  from slot_disjoint[OF this]
  have d: "mem_read (mem_write m (KMUKSK_BASE + a * 32) ?got) (KMUKSK_BASE + slot * 32) 32 =
      mem_read m (KMUKSK_BASE + slot * 32) 32" for m
    by (intro mem_read_write_disjoint) (auto simp: min_def)
  show ?case using Cons d by (simp add: Let_def del: take_all take_all_iff)
qed simp

lemma load_otp_keys_member:
  assumes "slot \<in> set slots" and "distinct slots" and "\<forall>a\<in>set slots. otp_key_offset a + 32 \<le> length file"
  shows "key_slot (load_otp_keys_loop file slots s) slot = take 32 (drop (otp_key_offset slot) file)"
  using assms
proof (induction slots arbitrary: s)
  case (Cons a slots)
  show ?case
  proof (cases "a = slot")
    case True
    then have "min (length file - otp_key_offset slot) 32 = 32" using Cons.prems by (simp add: min_def) linarith
    with True Cons.prems show ?thesis by (simp add: Let_def load_otp_keys_other)
  next
    case False
    with Cons.prems show ?thesis using Cons.IH by (auto simp: Let_def)
  qed
qed simp

lemma kmu_reset_ids_key: "slot < 32 \<Longrightarrow> key_slot (kmu_reset_ids s) slot = key_slot s slot"
  by (simp add: kmu_reset_ids_def m_regs_store32 Let_def)

text \<open>A reset loads the six hardware keys from the OTP image: slot \<open>k\<close> holds the \<open>k\<close>-th 32-byte
  key of the image.\<close>

theorem kmu_reset_keys:
  assumes "kmu_p_otp_image P \<noteq> []" and "kmu_image P = Some file" and "0xc0 \<le> length file"
    and "1 \<le> slot" and "slot < HW_SLOT_COUNT"
  shows "key_slot (kmu_doreset P True s) slot = take 32 (drop (32 * (slot - 1)) file)"
proof -
  have off: "otp_key_offset k = 32 * (k - 1)" if "k \<in> {1, 2, 3, 4, 5, 6}" for k
    using that by (auto simp: otp_key_offset_def)
  have slots: "set [1..<HW_SLOT_COUNT] = {1, 2, 3, 4, 5, 6}" by auto
  have "slot \<in> set [1..<HW_SLOT_COUNT]" using assms(4,5) by simp
  moreover have "\<forall>a\<in>set [1..<HW_SLOT_COUNT]. otp_key_offset a + 32 \<le> length file"
    using assms(3) unfolding slots by (auto simp: off)
  ultimately have "key_slot (load_otp_keys_loop file [1..<HW_SLOT_COUNT] u) slot = take 32 (drop (otp_key_offset slot) file)" for u
    by (intro load_otp_keys_member) simp_all
  moreover have "otp_key_offset slot = 32 * (slot - 1)"
    using off[of slot] \<open>slot \<in> set [1..<HW_SLOT_COUNT]\<close> unfolding slots by blast
  ultimately show ?thesis
    using assms(1,2,5)
    by (simp add: kmu_doreset_def kmu_reset_registers_def load_otp_hardware_keys_def kmu_reset_ids_key Let_def
        del: upt_Suc)
qed

subsection \<open>Witnesses\<close>

theorem kmu_export_key_witness:
  "\<exists>t' s' m'. kmu_access kmu_default_params ram_bus (write_payload (of_nat (KMUKSC_BASE + 4 * 3)) (le_bytes 4 KMUKSC_EK))
      (kmu_init kmu_default_params, \<lambda>_. 0) = Some (True, t', s', m') \<and> load32 s' KMUIS = load32 (kmu_init kmu_default_params) KMUIS OR 1"
  using kmu_export_key[OF memory_bus_ram, of kmu_default_params 3 KMUKSC_EK "kmu_init kmu_default_params" "\<lambda>_. 0"]
  by (fastforce simp: kmu_default_params_def)

theorem kmu_status_spec_witness:
  "\<exists>t' s' m'. kmu_access kmu_default_params ram_bus (write_payload (of_nat KMUIC) (le_bytes 4 (1 :: u32)))
      (kmu_init kmu_default_params, \<lambda>_. 0) = Some (True, t', s', m') \<and>
    load32 s' KMUIS = load32 (kmu_init kmu_default_params) KMUIS AND NOT 1"
proof -
  have "kmu_read_only KMUIS" by (simp add: kmu_read_only_def)
  from kmu_status_spec[OF _ _ this, of KMUIC kmu_default_params ram_bus 1 "kmu_init kmu_default_params" "\<lambda>_. 0"]
  show ?thesis by simp
qed

definition keyed_params :: kmu_params where
  "keyed_params = kmu_default_params\<lparr>kmu_p_otp_image := ''otp.bin'', kmu_image := Some (map of_nat [0..<256])\<rparr>"

theorem kmu_reset_keys_witness:
  "key_slot (kmu_doreset keyed_params True (kmu_init keyed_params)) 2 =
     take 32 (drop 32 (map of_nat [0..<256]))"
  using kmu_reset_keys[of keyed_params "map of_nat [0..<256]" 2 "kmu_init keyed_params"]
  by (simp add: keyed_params_def del: upt_Suc)

interpretation kmu: reg_window KMU_REG_BYTES kmu_read "kmu_write P bus" "kmu_trace_access P" "\<lambda>_. True"
  for P and bus :: "'m bus"
  by unfold_locales
    (auto simp: kmu_read_def regs_read_def arr_read_def kmu_write_def arr_write_def)

end
