(* ===== verification/Dma350.thy ===== *)
theory Dma350
  imports Tlm_Regs
begin

text \<open>
  The DMA controller \<^verbatim>\<open>dma350\<close> (\<^verbatim>\<open>src/systemc-components/dma350/include/dma350.h\<close>): channels of
  \<open>0x100\<close> register bytes each; a write of the enable bit to a channel's command register runs a
  fill or a copy over the initiator socket to its end before the write returns. The target
  behind the socket is a parameter \<open>bus\<close> with its own state. The loops over strided transfers
  count addresses in \<^verbatim>\<open>int64_t\<close>, whose overflow is undefined behaviour: \<open>None\<close>.
\<close>

subsection \<open>Constants\<close>

abbreviation (input) DMA_REG_BYTES :: nat where "DMA_REG_BYTES \<equiv> 0x2000"
abbreviation (input) DMASECINFO :: nat where "DMASECINFO \<equiv> 0xfb0"
abbreviation (input) DMAINFO_IIDR :: nat where "DMAINFO_IIDR \<equiv> 0xfc8"
abbreviation (input) DMAINFO_AIDR :: nat where "DMAINFO_AIDR \<equiv> 0xfcc"
abbreviation (input) CH_BASE :: nat where "CH_BASE \<equiv> 0x1000"
abbreviation (input) CH_STRIDE :: nat where "CH_STRIDE \<equiv> 0x100"
abbreviation (input) CH_CMD :: nat where "CH_CMD \<equiv> 0x000"
abbreviation (input) CH_STATUS :: nat where "CH_STATUS \<equiv> 0x004"
abbreviation (input) CH_INTREN :: nat where "CH_INTREN \<equiv> 0x008"
abbreviation (input) CH_CTRL :: nat where "CH_CTRL \<equiv> 0x00c"
abbreviation (input) CH_SRCADDR :: nat where "CH_SRCADDR \<equiv> 0x010"
abbreviation (input) CH_SRCADDRHI :: nat where "CH_SRCADDRHI \<equiv> 0x014"
abbreviation (input) CH_DESADDR :: nat where "CH_DESADDR \<equiv> 0x018"
abbreviation (input) CH_DESADDRHI :: nat where "CH_DESADDRHI \<equiv> 0x01c"
abbreviation (input) CH_XSIZE :: nat where "CH_XSIZE \<equiv> 0x020"
abbreviation (input) CH_XSIZEHI :: nat where "CH_XSIZEHI \<equiv> 0x024"
abbreviation (input) CH_SRCTRANSCFG :: nat where "CH_SRCTRANSCFG \<equiv> 0x028"
abbreviation (input) CH_DESTRANSCFG :: nat where "CH_DESTRANSCFG \<equiv> 0x02c"
abbreviation (input) CH_XADDRINC :: nat where "CH_XADDRINC \<equiv> 0x030"
abbreviation (input) CH_FILLVAL :: nat where "CH_FILLVAL \<equiv> 0x038"
abbreviation (input) CH_CMD_ENABLE :: u32 where "CH_CMD_ENABLE \<equiv> 1"
abbreviation (input) CH_STATUS_INTR_DONE :: u32 where "CH_STATUS_INTR_DONE \<equiv> 1"
abbreviation (input) CH_STATUS_INTR_ERR :: u32 where "CH_STATUS_INTR_ERR \<equiv> 2"
abbreviation (input) CH_STATUS_STAT_DONE :: u32 where "CH_STATUS_STAT_DONE \<equiv> 0x10000"
abbreviation (input) CH_STATUS_STAT_ERR :: u32 where "CH_STATUS_STAT_ERR \<equiv> 0x20000"
abbreviation (input) CH_CTRL_XTYPE_SHIFT :: nat where "CH_CTRL_XTYPE_SHIFT \<equiv> 9"
abbreviation (input) CH_CTRL_XTYPE_MASK :: u32 where "CH_CTRL_XTYPE_MASK \<equiv> 0xe00"
abbreviation (input) CH_CTRL_XTYPE_FILL :: u32 where "CH_CTRL_XTYPE_FILL \<equiv> 3"
abbreviation (input) FILL_CHUNK_BYTES :: nat where "FILL_CHUNK_BYTES \<equiv> 256"
abbreviation (input) COPY_CHUNK_BYTES :: nat where "COPY_CHUNK_BYTES \<equiv> 1024"

subsection \<open>Parameters and state\<close>

record dma_params =
  dma_p_trace :: bool
  dma_p_trace_limit :: u32
  dma_p_trace_filter :: string
  dma_p_trace_address_min :: u64
  dma_initiator_bound :: bool

definition dma_default_params :: dma_params where
  "dma_default_params = \<lparr>dma_p_trace = False, dma_p_trace_limit = 64, dma_p_trace_filter = ''all'',
     dma_p_trace_address_min = 0, dma_initiator_bound = True\<rparr>"

type_synonym dma350 = reg_state

definition dma_reset_registers :: "dma350 \<Rightarrow> dma350" where
  "dma_reset_registers s =
     (let s = store32 DMASECINFO 0x30 (s\<lparr>m_regs := (\<lambda>_. 0)\<rparr>);
          s = store32 DMAINFO_AIDR 0 (store32 DMAINFO_IIDR 0x3a00043b s);
          s = store32 (CH_BASE + CH_CTRL) 0x00200200 s
      in store32 (CH_BASE + CH_DESTRANSCFG) 0x000f0400 s)"

definition dma_init :: dma350 where
  "dma_init = dma_reset_registers \<lparr>m_regs = (\<lambda>_. 0), m_trace_count = 0\<rparr>"

subsection \<open>Bus accesses\<close>

text \<open>
  The data pointer of a read is the start of a buffer that may be larger than the access; what the
  buffer holds afterwards is what the target left in it.
\<close>

definition dma_mem_read ::
    "dma_params \<Rightarrow> 'm bus \<Rightarrow> u64 \<Rightarrow> u8 list \<Rightarrow> nat \<Rightarrow> 'm \<Rightarrow> bool \<times> u8 list \<times> 'm" where
  "dma_mem_read P bus address data len m =
     (if \<not> dma_initiator_bound P then (False, data, m)
      else (let (t, m') = bus ((read_payload address len)\<lparr>p_data := Some data\<rparr>) m
            in (is_response_ok t, (case p_data t of Some d \<Rightarrow> d | None \<Rightarrow> data), m')))"

definition dma_mem_write ::
    "dma_params \<Rightarrow> 'm bus \<Rightarrow> u64 \<Rightarrow> u8 list \<Rightarrow> nat \<Rightarrow> 'm \<Rightarrow> bool \<times> 'm" where
  "dma_mem_write P bus address data len m =
     (if \<not> dma_initiator_bound P then (False, m)
      else (let (t, m') = bus ((write_payload address data)\<lparr>p_len := of_nat len\<rparr>) m
            in (is_response_ok t, m')))"

subsection \<open>Decoding a channel\<close>

definition sign_extend16 :: "u32 \<Rightarrow> int" where
  "sign_extend16 value = sint (ucast (value AND 0xffff) :: u16)"

definition transfer_bytes_from_ctrl :: "u32 \<Rightarrow> nat" where
  "transfer_bytes_from_ctrl ctrl = 2 ^ unat (ctrl AND 7)"

definition channel_address :: "nat \<Rightarrow> nat \<Rightarrow> dma350 \<Rightarrow> u64" where
  "channel_address cb low_offset s =
     ucast (load32 s (cb + low_offset)) OR push_bit 32 (ucast (load32 s (cb + low_offset + 4)))"

definition source_xsize :: "nat \<Rightarrow> dma350 \<Rightarrow> u32" where
  "source_xsize cb s =
     (load32 s (cb + CH_XSIZE) AND 0xffff) OR push_bit 16 (load32 s (cb + CH_XSIZEHI) AND 0xffff)"

definition dest_xsize :: "nat \<Rightarrow> dma350 \<Rightarrow> u32" where
  "dest_xsize cb s =
     (drop_bit 16 (load32 s (cb + CH_XSIZE)) AND 0xffff) OR
     push_bit 16 (drop_bit 16 (load32 s (cb + CH_XSIZEHI)) AND 0xffff)"

definition fill_chunk :: "nat \<Rightarrow> u32 \<Rightarrow> u8 list" where
  "fill_chunk n fill_value = map (\<lambda>i. ucast (drop_bit ((i mod 4) * 8) fill_value)) [0..<n]"

subsection \<open>Tracing\<close>

definition is_copy_trace_offset :: "nat \<Rightarrow> bool" where
  "is_copy_trace_offset off \<longleftrightarrow>
     off \<in> {CH_CMD, CH_STATUS, CH_CTRL, CH_SRCADDR, CH_SRCADDRHI, CH_DESADDR, CH_DESADDRHI,
            CH_XSIZE, CH_XSIZEHI, CH_SRCTRANSCFG, CH_DESTRANSCFG, CH_XADDRINC}"

definition is_fill_trace_offset :: "nat \<Rightarrow> bool" where
  "is_fill_trace_offset off \<longleftrightarrow>
     off \<in> {CH_CMD, CH_STATUS, CH_CTRL, CH_DESADDR, CH_DESADDRHI, CH_XSIZE, CH_XSIZEHI,
            CH_DESTRANSCFG, CH_XADDRINC, CH_FILLVAL}"

definition dma_trace_address_matches :: "dma_params \<Rightarrow> nat \<Rightarrow> dma350 \<Rightarrow> bool" where
  "dma_trace_address_matches P cb s =
     (let min_address = dma_p_trace_address_min P in
      if min_address = 0 then True
      else channel_address cb CH_SRCADDR s \<ge> min_address \<or>
           channel_address cb CH_DESADDR s \<ge> min_address)"

definition trace_operation_filter_matches :: "dma_params \<Rightarrow> nat \<Rightarrow> bool \<Rightarrow> dma350 \<Rightarrow> bool" where
  "trace_operation_filter_matches P cb copy s =
     (let filt = dma_p_trace_filter P in
      if \<not> dma_p_trace P \<or> m_trace_count s \<ge> dma_p_trace_limit P \<or> \<not> dma_trace_address_matches P cb s
      then False
      else if filt = [] \<or> filt = ''all'' \<or> filt = ''operation'' then True
      else if copy then filt = ''copy'' else filt = ''fill'')"

definition trace_access_filter_matches :: "dma_params \<Rightarrow> nat \<Rightarrow> dma350 \<Rightarrow> bool" where
  "trace_access_filter_matches P off s =
     (let filt = dma_p_trace_filter P in
      if filt = ''operation'' then False
      else if off < CH_BASE \<or> off \<ge> DMA_REG_BYTES
      then dma_p_trace_address_min P = 0 \<and> (filt = [] \<or> filt = ''all'')
      else
        (let cb = CH_BASE + (off - CH_BASE) div CH_STRIDE * CH_STRIDE;
             channel_offset = (off - CH_BASE) mod CH_STRIDE
         in if \<not> dma_trace_address_matches P cb s then False
            else if filt = [] \<or> filt = ''all'' then True
            else if filt = ''copy'' then is_copy_trace_offset channel_offset
            else if filt = ''fill'' then is_fill_trace_offset channel_offset
            else False))"

definition dma_trace_access :: "dma_params \<Rightarrow> payload \<Rightarrow> dma350 \<times> 'm \<Rightarrow> dma350 \<times> 'm" where
  "dma_trace_access P t sm =
     (count_trace (dma_p_trace P \<and> trace_access_filter_matches P (unat (p_address t)) (fst sm))
        (dma_p_trace_limit P) (fst sm), snd sm)"

definition trace_fill :: "dma_params \<Rightarrow> nat \<Rightarrow> dma350 \<Rightarrow> dma350" where
  "trace_fill P cb s =
     (if \<not> trace_operation_filter_matches P cb False s then s
      else s\<lparr>m_trace_count := m_trace_count s + 1\<rparr>)"

definition trace_copy :: "dma_params \<Rightarrow> nat \<Rightarrow> dma350 \<Rightarrow> dma350" where
  "trace_copy P cb s =
     (if \<not> trace_operation_filter_matches P cb True s then s
      else s\<lparr>m_trace_count := m_trace_count s + 1\<rparr>)"

subsection \<open>Loops\<close>

text \<open>A signed 64-bit result; overflow is undefined.\<close>

definition int64 :: "int \<Rightarrow> int ub" where
  "int64 x = (if - (2 ^ 63) \<le> x \<and> x < 2 ^ 63 then Some x else None)"

function fill_loop ::
    "dma_params \<Rightarrow> 'm bus \<Rightarrow> u8 list \<Rightarrow> u64 \<Rightarrow> nat \<Rightarrow> 'm \<Rightarrow> bool \<times> 'm" where
  "fill_loop P bus chunk address remaining m =
     (if remaining = 0 then (True, m)
      else
        (let len = min remaining FILL_CHUNK_BYTES;
             (ok, m') = dma_mem_write P bus address chunk len m
         in if \<not> ok then (False, m')
            else fill_loop P bus chunk (address + of_nat len) (remaining - len) m'))"
  by pat_completeness auto
termination by (relation "measure (\<lambda>(P, bus, chunk, address, remaining, m). remaining)") auto

primrec strided_fill_loop ::
    "dma_params \<Rightarrow> 'm bus \<Rightarrow> u8 list \<Rightarrow> int \<Rightarrow> nat \<Rightarrow> int \<Rightarrow> 'm \<Rightarrow> (bool \<times> 'm) ub" where
  "strided_fill_loop P bus data dest_inc 0 address m = Some (True, m)"
| "strided_fill_loop P bus data dest_inc (Suc n) address m =
     (let (ok, m') = dma_mem_write P bus (word_of_int address) data (length data) m
      in if \<not> ok then Some (False, m')
         else do {
           address' \<leftarrow> int64 (address + dest_inc * int (length data));
           strided_fill_loop P bus data dest_inc n address' m'
         })"

function copy_loop ::
    "dma_params \<Rightarrow> 'm bus \<Rightarrow> u8 list \<Rightarrow> u64 \<Rightarrow> u64 \<Rightarrow> nat \<Rightarrow> 'm \<Rightarrow> bool \<times> 'm" where
  "copy_loop P bus chunk source dest remaining m =
     (if remaining = 0 then (True, m)
      else
        (let len = min remaining COPY_CHUNK_BYTES;
             (ok, chunk', m1) = dma_mem_read P bus source chunk len m
         in if \<not> ok then (False, m1)
            else
              (let (ok', m2) = dma_mem_write P bus dest chunk' len m1
               in if \<not> ok' then (False, m2)
                  else copy_loop P bus chunk' (source + of_nat len) (dest + of_nat len)
                         (remaining - len) m2)))"
  by pat_completeness auto
termination by (relation "measure (\<lambda>(P, bus, chunk, source, dest, remaining, m). remaining)") auto

primrec strided_copy_loop ::
    "dma_params \<Rightarrow> 'm bus \<Rightarrow> nat \<Rightarrow> int \<Rightarrow> int \<Rightarrow> nat \<Rightarrow> u8 list \<Rightarrow> int \<Rightarrow> int \<Rightarrow> 'm \<Rightarrow> (bool \<times> 'm) ub" where
  "strided_copy_loop P bus bytes source_inc dest_inc 0 transfer source dest m = Some (True, m)"
| "strided_copy_loop P bus bytes source_inc dest_inc (Suc n) transfer source dest m =
     (let (ok, transfer', m1) = dma_mem_read P bus (word_of_int source) transfer bytes m
      in if \<not> ok then Some (False, m1)
         else
           (let (ok', m2) = dma_mem_write P bus (word_of_int dest) transfer' bytes m1
            in if \<not> ok' then Some (False, m2)
               else do {
                 source' \<leftarrow> int64 (source + source_inc * int bytes);
                 dest' \<leftarrow> int64 (dest + dest_inc * int bytes);
                 strided_copy_loop P bus bytes source_inc dest_inc n transfer' source' dest' m2
               }))"

subsection \<open>Executing a channel\<close>

definition execute_strided_fill ::
    "dma_params \<Rightarrow> 'm bus \<Rightarrow> u64 \<Rightarrow> nat \<Rightarrow> int \<Rightarrow> u32 \<Rightarrow> 'm \<Rightarrow> (bool \<times> 'm) ub" where
  "execute_strided_fill P bus dest transfer_count dest_inc fill_value m =
     strided_fill_loop P bus (fill_chunk 8 fill_value) dest_inc transfer_count (sint dest) m"

definition execute_fill :: "dma_params \<Rightarrow> 'm bus \<Rightarrow> nat \<Rightarrow> dma350 \<times> 'm \<Rightarrow> (bool \<times> dma350 \<times> 'm) ub" where
  "execute_fill P bus cb sm =
     (let (s, m) = sm;
          dest = ucast (load32 s (cb + CH_DESADDR));
          xsize = load32 s (cb + CH_XSIZE);
          xaddrinc = load32 s (cb + CH_XADDRINC);
          fill_value = load32 s (cb + CH_FILLVAL);
          transfer_count = unat (drop_bit 16 xsize AND 0xffff);
          dest_inc = sint (ucast (drop_bit 16 xaddrinc AND 0xffff) :: u16)
      in if transfer_count = 0 then Some (True, s, m)
         else if dest_inc \<noteq> 1 then
           do { (ok, m') \<leftarrow> execute_strided_fill P bus dest transfer_count dest_inc fill_value m;
                Some (ok, trace_fill P cb s, m') }
         else
           (let (ok, m') = fill_loop P bus (fill_chunk FILL_CHUNK_BYTES fill_value) dest (transfer_count * 8) m
            in Some (ok, trace_fill P cb s, m')))"

definition execute_copy :: "dma_params \<Rightarrow> 'm bus \<Rightarrow> nat \<Rightarrow> dma350 \<times> 'm \<Rightarrow> (bool \<times> dma350 \<times> 'm) ub" where
  "execute_copy P bus cb sm =
     (let (s, m) = sm;
          source_start = channel_address cb CH_SRCADDR s;
          dest_start = channel_address cb CH_DESADDR s;
          transfer_count = unat (min (source_xsize cb s) (dest_xsize cb s));
          xaddrinc = load32 s (cb + CH_XADDRINC);
          source_inc = sign_extend16 xaddrinc;
          dest_inc = sign_extend16 (drop_bit 16 xaddrinc);
          transfer_bytes = transfer_bytes_from_ctrl (load32 s (cb + CH_CTRL))
      in if transfer_count = 0 then Some (True, trace_copy P cb s, m)
         else if source_inc = 1 \<and> dest_inc = 1 then
           (let (ok, m') = copy_loop P bus (replicate COPY_CHUNK_BYTES 0) source_start dest_start
                              (transfer_count * transfer_bytes) m
            in Some (ok, trace_copy P cb s, m'))
         else
           do { (ok, m') \<leftarrow> strided_copy_loop P bus transfer_bytes source_inc dest_inc transfer_count
                              (replicate 128 0) (sint source_start) (sint dest_start) m;
                Some (ok, trace_copy P cb s, m') })"

definition execute_channel ::
    "dma_params \<Rightarrow> 'm bus \<Rightarrow> nat \<Rightarrow> dma350 \<times> 'm \<Rightarrow> (bool \<times> dma350 \<times> 'm) ub" where
  "execute_channel P bus cb sm =
     (if drop_bit CH_CTRL_XTYPE_SHIFT (load32 (fst sm) (cb + CH_CTRL) AND CH_CTRL_XTYPE_MASK) =
         CH_CTRL_XTYPE_FILL
      then execute_fill P bus cb sm else execute_copy P bus cb sm)"

definition complete_channel :: "nat \<Rightarrow> bool \<Rightarrow> dma350 \<Rightarrow> dma350" where
  "complete_channel cb ok s =
     (let intren = load32 s (cb + CH_INTREN);
          status = (if ok then CH_STATUS_STAT_DONE OR
                      (if intren AND CH_STATUS_INTR_DONE \<noteq> 0 then CH_STATUS_INTR_DONE else 0)
                    else CH_STATUS_STAT_ERR OR
                      (if intren AND CH_STATUS_INTR_ERR \<noteq> 0 then CH_STATUS_INTR_ERR else 0))
      in store32 (cb + CH_STATUS) status s)"

definition clear_channel_status :: "nat \<Rightarrow> u32 \<Rightarrow> dma350 \<Rightarrow> dma350" where
  "clear_channel_status cb v s = store32 (cb + CH_STATUS) (load32 s (cb + CH_STATUS) AND NOT v) s"

subsection \<open>Register writes and access\<close>

definition dma_write32 ::
    "dma_params \<Rightarrow> 'm bus \<Rightarrow> bool \<Rightarrow> nat \<Rightarrow> u32 \<Rightarrow> dma350 \<times> 'm \<Rightarrow> (dma350 \<times> 'm) ub" where
  "dma_write32 P bus execute off v sm =
     (let (s, m) = sm in
      if off \<ge> CH_BASE \<and> off < DMA_REG_BYTES then
        (let ch_offset = (off - CH_BASE) mod CH_STRIDE; cb = off - ch_offset in
         if ch_offset = CH_STATUS then Some (clear_channel_status cb v s, m)
         else if ch_offset = CH_CMD then
           (if execute \<and> v AND CH_CMD_ENABLE \<noteq> 0 then
              do { (ok, s1, m1) \<leftarrow> execute_channel P bus cb (store32 (cb + CH_STATUS) 0 s, m);
                   Some (store32 off 0 (complete_channel cb ok s1), m1) }
            else Some (store32 off 0 s, m))
         else Some (store32 off v s, m))
      else Some (store32 off v s, m))"

definition dma_read :: "u64 \<Rightarrow> nat \<Rightarrow> dma350 \<times> 'm \<Rightarrow> (u8 list \<times> dma350 \<times> 'm) ub" where
  "dma_read off len sm = do { bs \<leftarrow> regs_read DMA_REG_BYTES off len (fst sm); Some (bs, sm) }"

definition dma_write ::
    "dma_params \<Rightarrow> 'm bus \<Rightarrow> bool \<Rightarrow> u64 \<Rightarrow> u8 list \<Rightarrow> dma350 \<times> 'm \<Rightarrow> (dma350 \<times> 'm) ub" where
  "dma_write P bus execute off bs sm =
     (if length bs = 4 \<and> off mod 4 = 0
      then (if unat off + 4 \<le> DMA_REG_BYTES
            then dma_write32 P bus execute (unat off) (le_word bs) sm else None)
      else do {
        m \<leftarrow> arr_write DMA_REG_BYTES (m_regs (fst sm)) (unat off) bs;
        Some ((fst sm)\<lparr>m_regs := m\<rparr>, snd sm)
      })"

definition dma_access ::
    "dma_params \<Rightarrow> 'm bus \<Rightarrow> bool \<Rightarrow> payload \<Rightarrow> dma350 \<times> 'm \<Rightarrow> (bool \<times> payload \<times> dma350 \<times> 'm) ub" where
  "dma_access P bus execute =
     reg_access DMA_REG_BYTES dma_read (dma_write P bus execute) (dma_trace_access P)"

definition dma_b_transport ::
    "dma_params \<Rightarrow> 'm bus \<Rightarrow> payload \<Rightarrow> dma350 \<times> 'm \<Rightarrow> (payload \<times> dma350 \<times> 'm) ub" where
  "dma_b_transport P bus = b_transport_of (dma_access P bus True)"

definition dma_transport_dbg ::
    "dma_params \<Rightarrow> 'm bus \<Rightarrow> payload \<Rightarrow> dma350 \<times> 'm \<Rightarrow> (u32 \<times> payload \<times> dma350 \<times> 'm) ub" where
  "dma_transport_dbg P bus = transport_dbg_of (dma_access P bus False)"

declare fill_loop.simps [simp del] copy_loop.simps [simp del]

subsection \<open>Loops over a memory\<close>

lemma dma_mem_write_memory:
  assumes "memory_bus bus peek" and "dma_initiator_bound P" and "len \<le> length data" and "len < 2 ^ 32"
    and "dma_mem_write P bus a data len m = (ok, m')"
  shows "ok \<and> peek m' = ram_write (peek m) a (take len data)"
proof -
  have u: "unat (of_nat len :: u32) = len" using assms(4) by (intro unat_of_nat_small) simp
  obtain t' m1 where b: "bus ((write_payload a data)\<lparr>p_len := of_nat len\<rparr>) m = (t', m1)" by fastforce
  show ?thesis
    using memory_bus_write[OF assms(1) _ _ _ b, of data] assms(2,3,5)
    by (simp add: dma_mem_write_def b is_response_ok_def u)
qed

lemma dma_mem_read_memory:
  assumes "memory_bus bus peek" and "dma_initiator_bound P" and "len \<le> length data" and "len < 2 ^ 32"
    and "dma_mem_read P bus a data len m = (ok, data', m')"
  shows "ok \<and> data' = ram_read (peek m) a len @ drop len data \<and> peek m' = peek m"
proof -
  have u: "unat (of_nat len :: u32) = len" using assms(4) by (intro unat_of_nat_small) simp
  obtain t' m1 where b: "bus ((read_payload a len)\<lparr>p_data := Some data\<rparr>) m = (t', m1)" by fastforce
  show ?thesis
    using memory_bus_read[OF assms(1) _ _ _ b, of data] assms(2,3,5)
    by (simp add: dma_mem_read_def b is_response_ok_def u)
qed

lemma length_fill_chunk [simp]: "length (fill_chunk n v) = n"
  by (simp add: fill_chunk_def)

lemma take_fill_chunk: "k \<le> n \<Longrightarrow> take k (fill_chunk n v) = fill_chunk k v"
  by (simp add: fill_chunk_def take_map)

lemma fill_chunk_add:
  assumes "i mod 4 = 0"
  shows "fill_chunk (i + j) v = fill_chunk i v @ fill_chunk j v"
proof -
  obtain q where i: "i = 4 * q" using assms by (auto simp: mod_eq_0_iff_dvd)
  have "[0..<i + j] = [0..<i] @ map (\<lambda>k. i + k) [0..<j]"
    by (rule nth_equalityI) (auto simp: nth_append)
  then show ?thesis by (simp add: fill_chunk_def i comp_def)
qed

lemma fill_loop_memory:
  assumes "memory_bus bus peek" and "dma_initiator_bound P" and "rem \<le> 2 ^ 64"
  shows "\<exists>m'. fill_loop P bus (fill_chunk 256 v) a rem m = (True, m') \<and>
    peek m' = ram_write (peek m) a (fill_chunk rem v)"
  using assms(3)
proof (induction rem arbitrary: a m rule: less_induct)
  case (less rem)
  show ?case
  proof (cases "rem = 0")
    case True
    then show ?thesis by (simp add: fill_loop.simps fill_chunk_def)
  next
    case False
    define len where "len = min rem 256"
    obtain ok m1 where w: "dma_mem_write P bus a (fill_chunk 256 v) len m = (ok, m1)" by fastforce
    have m1: ok "peek m1 = ram_write (peek m) a (fill_chunk len v)"
      using dma_mem_write_memory[OF assms(1,2) _ _ w] by (simp_all add: len_def take_fill_chunk)
    have "rem - len < rem" "rem - len \<le> 2 ^ 64" using False less.prems by (auto simp: len_def)
    from less.IH[OF this, of "a + of_nat len" m1]
    obtain m' where m': "fill_loop P bus (fill_chunk 256 v) (a + of_nat len) (rem - len) m1 = (True, m')"
      "peek m' = ram_write (peek m1) (a + of_nat len) (fill_chunk (rem - len) v)" by blast
    have "fill_chunk rem v = fill_chunk len v @ fill_chunk (rem - len) v"
    proof (cases "rem \<le> 256")
      case False
      then show ?thesis using fill_chunk_add[of 256 "rem - 256" v] by (simp add: len_def min_def)
    qed (simp add: len_def min_def, simp add: fill_chunk_def)
    then have "peek m' = ram_write (peek m) a (fill_chunk rem v)"
      using m'(2) m1(2) ram_write_append[of "fill_chunk len v" "fill_chunk (rem - len) v" "peek m" a] less.prems
      by (simp add: len_def)
    then show ?thesis using m'(1) False m1(1) w by (simp add: fill_loop.simps[of P bus _ a rem] len_def[symmetric] Let_def)
  qed
qed

text \<open>No destination byte that is written earlier is a source byte that is read later.\<close>

definition forward_copy_safe :: "u64 \<Rightarrow> u64 \<Rightarrow> nat \<Rightarrow> bool" where
  "forward_copy_safe source dest n \<longleftrightarrow> (\<forall>i<n. \<forall>j<i. source + of_nat i \<noteq> dest + of_nat j)"

lemma copy_loop_memory:
  assumes "memory_bus bus peek" and "dma_initiator_bound P" and "rem \<le> 2 ^ 64"
    and "forward_copy_safe source dest rem" and "length chunk = 1024"
  shows "\<exists>m'. copy_loop P bus chunk source dest rem m = (True, m') \<and>
    peek m' = ram_write (peek m) dest (ram_read (peek m) source rem)"
  using assms(3-5)
proof (induction rem arbitrary: source dest chunk m rule: less_induct)
  case (less rem)
  show ?case
  proof (cases "rem = 0")
    case True
    then show ?thesis by (simp add: copy_loop.simps ram_read_def)
  next
    case False
    define len where "len = min rem 1024"
    have len: "len \<le> 1024" "len \<le> rem" by (simp_all add: len_def)
    obtain ok chunk' m1 where r: "dma_mem_read P bus source chunk len m = (ok, chunk', m1)" by (metis prod_cases3)
    have m1: ok "chunk' = ram_read (peek m) source len @ drop len chunk" "peek m1 = peek m"
      using dma_mem_read_memory[OF assms(1,2) _ _ r] less.prems len by simp_all
    obtain ok' m2 where w: "dma_mem_write P bus dest chunk' len m1 = (ok', m2)" by fastforce
    have m2: ok' "peek m2 = ram_write (peek m) dest (ram_read (peek m) source len)"
      using dma_mem_write_memory[OF assms(1,2) _ _ w] m1 less.prems(3) len by simp_all
    have safe: "forward_copy_safe (source + of_nat len) (dest + of_nat len) (rem - len)"
      unfolding forward_copy_safe_def
    proof (intro allI impI)
      fix i j assume "i < rem - len" "j < i"
      then show "source + of_nat len + of_nat i \<noteq> dest + of_nat len + of_nat j"
        using less.prems(2)[unfolded forward_copy_safe_def, rule_format, of "len + i" "len + j"]
        by (simp add: algebra_simps)
    qed
    have "rem - len < rem" "rem - len \<le> 2 ^ 64" "length chunk' = 1024"
      using False less.prems len m1(2) by (auto simp: len_def)
    from less.IH[OF this(1,2) safe this(3), of m2]
    obtain m' where m': "copy_loop P bus chunk' (source + of_nat len) (dest + of_nat len) (rem - len) m2 = (True, m')"
      "peek m' = ram_write (peek m2) (dest + of_nat len) (ram_read (peek m2) (source + of_nat len) (rem - len))"
      by blast
    have "ram_read (peek m2) (source + of_nat len) (rem - len) = ram_read (peek m) (source + of_nat len) (rem - len)"
      unfolding m2(2)
    proof (rule ram_read_write_other, rule ccontr)
      fix i assume i: "i < rem - len"
      define j where "j = unat (source + of_nat len + of_nat i - dest)"
      assume "\<not> length (ram_read (peek m) source len) \<le> unat (source + of_nat len + of_nat i - dest)"
      then have "j < len" by (simp add: j_def)
      moreover have "len + i < rem" using i by linarith
      moreover have "dest + of_nat j = source + of_nat (len + i)" by (simp add: j_def algebra_simps)
      ultimately show False
        using less.prems(2)[unfolded forward_copy_safe_def, rule_format, of "len + i" j] i by simp
    qed
    then have "peek m' = ram_write (peek m) dest (ram_read (peek m) source rem)"
      using m'(2) m2(2) less.prems(1) len ram_read_add[of "peek m" source len "rem - len"]
        ram_write_append[of "ram_read (peek m) source len" "ram_read (peek m) (source + of_nat len) (rem - len)" "peek m" dest]
      by simp
    then show ?thesis
      using m'(1) False m1(1) m2(1) r w
      by (simp add: copy_loop.simps[of P bus chunk source dest rem] len_def[symmetric] Let_def)
  qed
qed


subsection \<open>A command word\<close>

abbreviation (input) channel :: "nat \<Rightarrow> nat" where "channel ch \<equiv> CH_BASE + CH_STRIDE * ch"

abbreviation (input) command_write :: "nat \<Rightarrow> u32 \<Rightarrow> payload" where
  "command_write ch v \<equiv> write_payload (of_nat (channel ch)) (le_bytes 4 v)"

lemma dma_access_word:
  assumes "off mod 4 = 0" and "off + 4 \<le> DMA_REG_BYTES"
  shows "\<exists>t'. dma_access P bus ex (write_payload (of_nat off) (le_bytes 4 (v :: u32))) sm =
    do { sm' \<leftarrow> dma_write32 P bus ex off v sm;
         Some (True, t', dma_trace_access P (write_payload (of_nat off) (le_bytes 4 v)) sm') }"
proof -
  have u: "unat (of_nat off :: u64) = off" using assms by (intro unat_of_nat_small) simp
  have "unat (of_nat off mod 4 :: u64) = 0" using assms(1) by (simp add: unat_mod_distrib u)
  then have al: "(of_nat off :: u64) mod 4 = 0" by (simp add: unat_eq_0)
  have "\<not> beyond DMA_REG_BYTES (of_nat off) 4"
    using assms(2) by (subst beyond_iff_no_wrap) (simp_all add: u is_supported_length_def)
  then show ?thesis using assms(2)
    by (auto simp: dma_access_def reg_access_def is_supported_length_def dma_write_def u al Let_def)
qed

lemma dma_trace_frame [simp]:
  "m_regs (fst (dma_trace_access P t sm)) = m_regs (fst sm)" "snd (dma_trace_access P t sm) = snd sm"
  "load32 (fst (dma_trace_access P t sm)) off = load32 (fst sm) off"
  by (simp_all add: dma_trace_access_def)

lemma trace_operation_frame [simp]:
  "m_regs (trace_fill P cb s) = m_regs s" "m_regs (trace_copy P cb s) = m_regs s"
  "load32 (trace_fill P cb s) off = load32 s off" "load32 (trace_copy P cb s) off = load32 s off"
  by (simp_all add: trace_fill_def trace_copy_def)

text \<open>The status word a finished command leaves.\<close>

definition dma_status :: "bool \<Rightarrow> u32 \<Rightarrow> u32" where
  "dma_status ok intren =
     (if ok then CH_STATUS_STAT_DONE OR (if bit intren 0 then CH_STATUS_INTR_DONE else 0)
      else CH_STATUS_STAT_ERR OR (if bit intren 1 then CH_STATUS_INTR_ERR else 0))"

lemma status_bits: "w AND (1 :: u32) \<noteq> 0 \<longleftrightarrow> bit w 0" "w AND (2 :: u32) \<noteq> 0 \<longleftrightarrow> bit w 1"
  using and_exp_iff[of w 0] and_exp_iff[of w 1] by simp_all

lemma complete_channel_eq:
  "complete_channel cb ok s = store32 (cb + CH_STATUS) (dma_status ok (load32 s (cb + CH_INTREN))) s"
  by (simp add: complete_channel_def dma_status_def status_bits Let_def)

text \<open>A channel leaves the registers alone while it runs.\<close>

lemma execute_channel_regs:
  assumes "execute_channel P bus cb (s, m) = Some (ok, s', m')"
  shows "m_regs s' = m_regs s"
  using assms
  by (auto simp: execute_channel_def execute_fill_def execute_copy_def Let_def bind_eq_Some_conv
      split: if_splits prod.splits)

lemma dma_command:
  assumes "ch < 16" and "bit v 0"
    and ex: "execute_channel P bus (channel ch) (store32 (channel ch + CH_STATUS) 0 s, m) = Some (ok, s1, m1)"
  shows "\<exists>t' s'. dma_access P bus True (command_write ch v) (s, m) = Some (True, t', s', m1) \<and>
    load32 s' (channel ch + CH_STATUS) = dma_status ok (load32 s (channel ch + CH_INTREN)) \<and>
    load32 s' (channel ch + CH_CMD) = 0 \<and>
    (\<forall>i. i \<notin> {channel ch..<channel ch + 8} \<longrightarrow> m_regs s' i = m_regs s i)"
proof -
  let ?cb = "channel ch"
  let ?s2 = "store32 ?cb 0 (complete_channel ?cb ok s1)"
  have regs: "m_regs s1 = m_regs (store32 (?cb + CH_STATUS) 0 s)"
    using execute_channel_regs[OF ex] .
  have "v AND 1 \<noteq> 0" using assms(2) by (simp add: status_bits)
  then have w: "dma_write32 P bus True ?cb v (s, m) = Some (?s2, m1)"
    using ex assms(1) by (simp add: dma_write32_def Let_def)
  obtain t' where acc: "dma_access P bus True (command_write ch v) (s, m) =
      Some (True, t', dma_trace_access P (command_write ch v) (?s2, m1))"
    using dma_access_word[of ?cb P bus True v "(s, m)"] assms(1) w by auto
  have "load32 s1 (?cb + CH_INTREN) = load32 s (?cb + CH_INTREN)"
    using regs by (simp add: load32_def m_regs_store32)
  then have st: "load32 ?s2 (?cb + CH_STATUS) = dma_status ok (load32 s (?cb + CH_INTREN))" "load32 ?s2 ?cb = 0"
    by (simp_all add: complete_channel_eq)
  have "m_regs ?s2 i = m_regs s i" if "i \<notin> {?cb..<?cb + 8}" for i
    using that regs by (auto simp: complete_channel_eq store32_outside)
  then show ?thesis
    using acc st by (intro exI[of _ t'] exI[of _ "fst (dma_trace_access P (command_write ch v) (?s2, m1))"])
      (simp add: dma_trace_access_def)
qed

subsection \<open>Properties\<close>

definition is_fill :: "nat \<Rightarrow> dma350 \<Rightarrow> bool" where
  "is_fill cb s \<longleftrightarrow> drop_bit 9 (load32 s (cb + CH_CTRL) AND CH_CTRL_XTYPE_MASK) = CH_CTRL_XTYPE_FILL"

definition copy_count :: "nat \<Rightarrow> dma350 \<Rightarrow> nat" where
  "copy_count cb s = unat (min (source_xsize cb s) (dest_xsize cb s))"

definition copy_length :: "nat \<Rightarrow> dma350 \<Rightarrow> nat" where
  "copy_length cb s = copy_count cb s * transfer_bytes_from_ctrl (load32 s (cb + CH_CTRL))"

lemma copy_length_bound: "copy_length cb s \<le> 2 ^ 64"
proof -
  have "load32 s (cb + CH_CTRL) AND 7 \<le> 7" by (rule word_and_le1)
  then have "unat (load32 s (cb + CH_CTRL) AND 7) \<le> 7" by (simp add: word_le_nat_alt)
  then have "transfer_bytes_from_ctrl (load32 s (cb + CH_CTRL)) \<le> 2 ^ 7"
    unfolding transfer_bytes_from_ctrl_def by (rule power_increasing) simp
  moreover have "copy_count cb s \<le> 2 ^ 32"
    unfolding copy_count_def using unat_bound[of "min (source_xsize cb s) (dest_xsize cb s)"] by simp
  ultimately have "copy_length cb s \<le> 2 ^ 32 * 2 ^ 7" unfolding copy_length_def by (intro mult_mono) simp_all
  then show ?thesis by simp
qed

text \<open>C35. A linear copy moves memory: after the command write the destination range holds what the
  source range held before, as long as no byte is overwritten before it is read, no other byte
  changes, and the channel reports completion.\<close>

theorem dma_copy:
  fixes v :: u32
  assumes "memory_bus bus peek" and "dma_initiator_bound P" and "ch < 16" and "bit v 0"
    and "\<not> is_fill (channel ch) s"
    and "sign_extend16 (load32 s (channel ch + CH_XADDRINC)) = 1"
    and "sign_extend16 (drop_bit 16 (load32 s (channel ch + CH_XADDRINC))) = 1"
    and "forward_copy_safe (channel_address (channel ch) CH_SRCADDR s)
           (channel_address (channel ch) CH_DESADDR s) (copy_length (channel ch) s)"
  shows "\<exists>t' s' m'. dma_access P bus True (command_write ch v) (s, m) = Some (True, t', s', m') \<and>
    peek m' = ram_write (peek m) (channel_address (channel ch) CH_DESADDR s)
      (ram_read (peek m) (channel_address (channel ch) CH_SRCADDR s) (copy_length (channel ch) s)) \<and>
    load32 s' (channel ch + CH_STATUS) = dma_status True (load32 s (channel ch + CH_INTREN)) \<and>
    load32 s' (channel ch + CH_CMD) = 0"
proof -
  let ?cb = "channel ch"
  let ?s1 = "store32 (?cb + CH_STATUS) 0 s"
  obtain m' where m': "copy_loop P bus (replicate 1024 0) (channel_address ?cb CH_SRCADDR s)
      (channel_address ?cb CH_DESADDR s) (copy_length ?cb s) m = (True, m')"
    "peek m' = ram_write (peek m) (channel_address ?cb CH_DESADDR s)
      (ram_read (peek m) (channel_address ?cb CH_SRCADDR s) (copy_length ?cb s))"
    using copy_loop_memory[OF assms(1,2) copy_length_bound assms(8), of "replicate 1024 0" m] by auto
  have zero: "copy_count ?cb s = 0 \<Longrightarrow> m' = m"
    using m'(1) by (simp add: copy_length_def copy_loop.simps)
  have "execute_channel P bus ?cb (?s1, m) = Some (True, trace_copy P ?cb ?s1, m')"
    using assms(5-7) m'(1) zero
    by (auto simp: execute_channel_def execute_copy_def is_fill_def channel_address_def source_xsize_def
        dest_xsize_def copy_length_def copy_count_def Let_def)
  from dma_command[OF assms(3,4) this] show ?thesis using m'(2) by blast
qed


text \<open>The parameters of a fill, as the code reads them: the destination is the low word only.\<close>

definition fill_length :: "nat \<Rightarrow> dma350 \<Rightarrow> nat" where
  "fill_length cb s = unat (drop_bit 16 (load32 s (cb + CH_XSIZE)) AND 0xffff) * 8"

lemma fill_length_bound: "fill_length cb s \<le> 2 ^ 64"
  using unat_bound[of "drop_bit 16 (load32 s (cb + CH_XSIZE)) AND 0xffff"] by (simp add: fill_length_def)

text \<open>A linear fill writes the repeated little-endian fill word over the destination range, whose
  address is the low destination word alone, and touches no other byte of the memory.\<close>

theorem dma_fill:
  fixes v :: u32
  assumes "memory_bus bus peek" and "dma_initiator_bound P" and "ch < 16" and "bit v 0"
    and "is_fill (channel ch) s"
    and "drop_bit 16 (load32 s (channel ch + CH_XADDRINC)) = 1"
  shows "\<exists>t' s' m'. dma_access P bus True (command_write ch v) (s, m) = Some (True, t', s', m') \<and>
    peek m' = ram_write (peek m) (ucast (load32 s (channel ch + CH_DESADDR)))
      (map (\<lambda>i. le_bytes 4 (load32 s (channel ch + CH_FILLVAL)) ! (i mod 4)) [0..<fill_length (channel ch) s]) \<and>
    load32 s' (channel ch + CH_STATUS) = dma_status True (load32 s (channel ch + CH_INTREN)) \<and>
    load32 s' (channel ch + CH_CMD) = 0"
proof -
  let ?cb = "channel ch"
  let ?s1 = "store32 (?cb + CH_STATUS) 0 s"
  have pat: "fill_chunk n w = map (\<lambda>i. le_bytes 4 w ! (i mod 4)) [0..<n]" for n w
    by (simp add: fill_chunk_def nth_le_bytes mult.commute)
  have dest_inc: "sint (ucast ((1 :: u32) AND 0xffff) :: u16) = 1" by simp
  obtain m' where m': "fill_loop P bus (fill_chunk 256 (load32 s (?cb + CH_FILLVAL)))
      (ucast (load32 s (?cb + CH_DESADDR))) (fill_length ?cb s) m = (True, m')"
    "peek m' = ram_write (peek m) (ucast (load32 s (?cb + CH_DESADDR))) (fill_chunk (fill_length ?cb s) (load32 s (?cb + CH_FILLVAL)))"
    using fill_loop_memory[OF assms(1,2) fill_length_bound] by blast
  have "\<exists>s1. execute_channel P bus ?cb (?s1, m) = Some (True, s1, m')"
    using assms(5,6) m'(1) dest_inc
    by (auto simp: execute_channel_def execute_fill_def is_fill_def fill_length_def Let_def fill_loop.simps)
  then obtain s1 where "execute_channel P bus ?cb (?s1, m) = Some (True, s1, m')" by blast
  from dma_command[OF assms(3,4) this] show ?thesis using m'(2) unfolding pat by blast
qed

text \<open>When the bus refuses every access, or nothing is bound, a non-empty copy ends with the
  error status (and the error interrupt bit when enabled), never with done.\<close>

theorem dma_copy_error:
  fixes v :: u32
  assumes "\<not> dma_initiator_bound P \<or> (\<forall>t m. \<not> is_response_ok (fst (bus t m)))" and "ch < 16" and "bit v 0"
    and "\<not> is_fill (channel ch) s" and "0 < copy_length (channel ch) s"
  shows "\<exists>t' s' m'. dma_access P bus True (command_write ch v) (s, m) = Some (True, t', s', m') \<and>
    load32 s' (channel ch + CH_STATUS) = dma_status False (load32 s (channel ch + CH_INTREN)) \<and>
    load32 s' (channel ch + CH_CMD) = 0"
proof -
  let ?cb = "channel ch"
  let ?s1 = "store32 (?cb + CH_STATUS) 0 s"
  have rd: "\<exists>c' m1. dma_mem_read P bus a c n m = (False, c', m1)" for a c n
  proof (cases "dma_initiator_bound P")
    case True
    then have "\<not> is_response_ok (fst (bus ((read_payload a n)\<lparr>p_data := Some c\<rparr>) m))" using assms(1) by blast
    with True show ?thesis
      by (cases "bus ((read_payload a n)\<lparr>p_data := Some c\<rparr>) m") (simp add: dma_mem_read_def)
  qed (simp add: dma_mem_read_def)
  have count: "copy_count ?cb s \<noteq> 0" using assms(5) by (auto simp: copy_length_def)
  have lin: "\<exists>m1. copy_loop P bus c a b (copy_length ?cb s) m = (False, m1)" for a b c
    using assms(5) rd[of a c "min (copy_length ?cb s) 1024"] by (auto simp: copy_loop.simps Let_def)
  have str: "\<exists>m1. strided_copy_loop P bus n i j (copy_count ?cb s) c a b m = Some (False, m1)" for n i j c a b
  proof -
    obtain k where "copy_count ?cb s = Suc k" using count by (cases "copy_count ?cb s") auto
    then show ?thesis using rd[of "word_of_int a" c n] by auto
  qed
  have fields: "load32 ?s1 (?cb + CH_XADDRINC) = load32 s (?cb + CH_XADDRINC)"
    "load32 ?s1 (?cb + CH_CTRL) = load32 s (?cb + CH_CTRL)"
    "unat (min (source_xsize ?cb ?s1) (dest_xsize ?cb ?s1)) = copy_count ?cb s"
    by (simp_all add: copy_count_def source_xsize_def dest_xsize_def)
  have "\<exists>s1 m1. execute_copy P bus ?cb (?s1, m) = Some (False, s1, m1)"
  proof (cases "sign_extend16 (load32 s (?cb + CH_XADDRINC)) = 1 \<and>
      sign_extend16 (drop_bit 16 (load32 s (?cb + CH_XADDRINC))) = 1")
    case True
    obtain m1 where "copy_loop P bus (replicate 1024 0) (channel_address ?cb CH_SRCADDR ?s1)
        (channel_address ?cb CH_DESADDR ?s1) (copy_length ?cb s) m = (False, m1)" using lin by blast
    then show ?thesis using True count unfolding execute_copy_def Let_def case_prod_conv fields copy_length_def
      by simp
  next
    case False
    obtain m1 where "strided_copy_loop P bus (transfer_bytes_from_ctrl (load32 s (?cb + CH_CTRL)))
        (sign_extend16 (load32 s (?cb + CH_XADDRINC))) (sign_extend16 (drop_bit 16 (load32 s (?cb + CH_XADDRINC))))
        (copy_count ?cb s) (replicate 128 0) (sint (channel_address ?cb CH_SRCADDR ?s1))
        (sint (channel_address ?cb CH_DESADDR ?s1)) m = Some (False, m1)" using str by blast
    then show ?thesis using False count unfolding execute_copy_def Let_def case_prod_conv fields
      by auto
  qed
  then have "\<exists>s1 m1. execute_channel P bus ?cb (?s1, m) = Some (False, s1, m1)"
    using assms(4) by (simp add: execute_channel_def is_fill_def)
  then obtain s1 m1 where "execute_channel P bus ?cb (?s1, m) = Some (False, s1, m1)" by blast
  from dma_command[OF assms(2,3) this] show ?thesis by blast
qed

text \<open>A debug access never runs a channel: whatever is accessed, the memory behind the bus stays as
  it is, and a command word is swallowed with every other register left alone.\<close>

theorem dma_debug_inert:
  fixes v :: u32
  assumes "dma_access P bus False t (s, m) = Some (ok, t', s', m')" and "ch < 16"
  shows "m' = m \<and> (\<exists>t' s'. dma_access P bus False (command_write ch v) (s, m) = Some (True, t', s', m) \<and>
    load32 s' (channel ch + CH_CMD) = 0 \<and>
    (\<forall>i. i \<notin> {channel ch..<channel ch + 4} \<longrightarrow> m_regs s' i = m_regs s i))"
proof -
  have w: "m1 = m" if "dma_write P bus False off bs (s, m) = Some (s1, m1)" for off bs s1 m1
    using that by (auto simp: dma_write_def dma_write32_def Let_def bind_eq_Some_conv split: if_splits)
  have "m' = m"
    using assms by (auto simp: dma_access_def reg_access_def Let_def bind_eq_Some_conv dma_read_def
        dma_trace_access_def dest!: w split: option.splits if_splits tlm_command.splits)
  moreover have "dma_write32 P bus False (channel ch) v (s, m) = Some (store32 (channel ch) 0 s, m)"
    using assms(2) by (simp add: dma_write32_def Let_def)
  then obtain t' where "dma_access P bus False (command_write ch v) (s, m) =
      Some (True, t', dma_trace_access P (command_write ch v) (store32 (channel ch) 0 s, m))"
    using dma_access_word[of "channel ch" P bus False v "(s, m)"] assms(2) by auto
  moreover have "m_regs (store32 (channel ch) 0 s) i = m_regs s i" if "i \<notin> {channel ch..<channel ch + 4}" for i
    using that by (auto simp: store32_outside)
  ultimately show ?thesis
    by (auto simp: dma_trace_access_def)
qed

interpretation dma_debug: reg_window DMA_REG_BYTES dma_read "dma_write P bus False" "dma_trace_access P" "\<lambda>_. True"
  for P and bus :: "'m bus"
proof
  fix bs :: "u8 list" and off :: u64 and sm :: "dma350 \<times> 'm"
  assume "length bs \<in> {1, 2, 4, 8}" "unat off + length bs \<le> DMA_REG_BYTES"
  then show "dma_write P bus False off bs sm \<noteq> None"
    by (auto simp: dma_write_def dma_write32_def arr_write_def Let_def split: prod.split)
qed (auto simp: dma_read_def regs_read_def arr_read_def)

subsection \<open>Witnesses\<close>

definition copy_setup :: dma350 where
  "copy_setup = store32 0x1010 0x100 (store32 0x1018 0x200 (store32 0x1020 0x00080008
     (store32 0x1030 0x00010001 dma_init)))"

definition fill_setup :: dma350 where
  "fill_setup = store32 0x100c 0x600 (store32 0x1018 0x200 (store32 0x1020 0x00080000
     (store32 0x1030 0x00010000 (store32 0x1038 0xaabbccdd dma_init))))"

lemma load32_dma_init: "off mod 4 = 0 \<Longrightarrow> 0x1000 \<le> off \<Longrightarrow> load32 dma_init off =
    (if off = 0x100c then 0x00200200 else if off = 0x102c then 0x000f0400 else 0)"
  by (auto simp: dma_init_def dma_reset_registers_def load32_store32_aligned load32_cleared Let_def)

lemma copy_setup_fields:
  "\<not> is_fill 0x1000 copy_setup" "load32 copy_setup 0x1030 = 0x00010001"
  "channel_address 0x1000 CH_SRCADDR copy_setup = 0x100" "channel_address 0x1000 CH_DESADDR copy_setup = 0x200"
  "copy_length 0x1000 copy_setup = 8" "load32 copy_setup 0x1008 = 0"
  by (simp_all add: is_fill_def copy_setup_def load32_dma_init channel_address_def copy_length_def
      copy_count_def source_xsize_def dest_xsize_def transfer_bytes_from_ctrl_def)

theorem dma_copy_witness:
  "\<exists>t' s' m'. dma_access dma_default_params ram_bus True (command_write 0 1) (copy_setup, \<lambda>a. ucast a) =
      Some (True, t', s', m') \<and> m' 0x203 = 3 \<and> load32 s' 0x1004 = 0x10000"
proof -
  have safe: "forward_copy_safe 0x100 0x200 8"
    unfolding forward_copy_safe_def
  proof (intro allI impI)
    fix i j :: nat assume "i < 8" "j < i"
    then have "unat (of_nat i :: u64) = i" "unat (of_nat j :: u64) = j" by (auto intro!: unat_of_nat_small)
    moreover have "unat (0x100 + of_nat i :: u64) = 0x100 + i" "unat (0x200 + of_nat j :: u64) = 0x200 + j"
      using calculation \<open>i < 8\<close> \<open>j < i\<close> by (simp_all add: unat_add_small)
    ultimately show "(0x100 :: u64) + of_nat i \<noteq> 0x200 + of_nat j" using \<open>i < 8\<close> unfolding word_unat_eq_iff by linarith
  qed
  have "bit (1 :: u32) 0" by simp
  from dma_copy[OF memory_bus_ram _ _ this, of dma_default_params 0 copy_setup "\<lambda>a. ucast a"]
  obtain t' s' m' where r: "dma_access dma_default_params ram_bus True (command_write 0 1) (copy_setup, \<lambda>a. ucast a) =
      Some (True, t', s', m')" "m' = ram_write (\<lambda>a. ucast a) 0x200 (ram_read (\<lambda>a. ucast a) 0x100 8)"
    "load32 s' 0x1004 = dma_status True (load32 copy_setup 0x1008)"
    using safe by (auto simp: copy_setup_fields sign_extend16_def dma_default_params_def)
  then show ?thesis
    by (auto simp: ram_write_def dma_status_def copy_setup_fields)
qed

theorem dma_fill_witness:
  "\<exists>t' s' m'. dma_access dma_default_params ram_bus True (command_write 0 1) (fill_setup, \<lambda>_. 0) =
      Some (True, t', s', m') \<and> m' 0x205 = 0xcc"
proof -
  have "bit (1 :: u32) 0" by simp
  from dma_fill[OF memory_bus_ram _ _ this, of dma_default_params 0 fill_setup "\<lambda>_. 0"]
  obtain t' s' m' where r: "dma_access dma_default_params ram_bus True (command_write 0 1) (fill_setup, \<lambda>_. 0) =
      Some (True, t', s', m')"
     "m' = ram_write (\<lambda>_. 0) 0x200 (map (\<lambda>i. le_bytes 4 (0xaabbccdd :: u32) ! (i mod 4)) [0..<64])"
    by (auto simp: is_fill_def fill_setup_def load32_dma_init dma_default_params_def fill_length_def)
  then show ?thesis by (auto simp: ram_write_def nth_le_bytes)
qed

theorem dma_copy_error_witness:
  "\<exists>t' s' m'. dma_access (dma_default_params\<lparr>dma_initiator_bound := False\<rparr>) ram_bus True (command_write 0 1)
      (copy_setup, \<lambda>_. 0) = Some (True, t', s', m') \<and> load32 s' 0x1004 = 0x20000"
proof -
  have "bit (1 :: u32) 0" by simp
  from dma_copy_error[OF _ _ this, of "dma_default_params\<lparr>dma_initiator_bound := False\<rparr>" ram_bus 0 copy_setup "\<lambda>_. 0"]
  show ?thesis by (auto simp: copy_setup_fields dma_status_def)
qed

theorem dma_debug_inert_witness:
  "\<exists>t' s'. dma_access dma_default_params ram_bus False (command_write 0 1) (copy_setup, \<lambda>_. 0) = Some (True, t', s', \<lambda>_. 0)"
proof -
  have "dma_access dma_default_params ram_bus False (read_payload 0 4) (copy_setup, \<lambda>_. 0) \<noteq> None"
    unfolding dma_access_def
    by (rule dma_debug.access_defined) (simp_all add: wf_payload_def no_wrap_def)
  then obtain ok t' s' m' where "dma_access dma_default_params ram_bus False (read_payload 0 4) (copy_setup, \<lambda>_. 0) =
      Some (ok, t', s', m')" by auto
  from dma_debug_inert[OF this, of 0 1] show ?thesis by auto
qed

end
