(* ===== verification/Mmu720ae.thy ===== *)
theory Mmu720ae
  imports Tlm_Regs
begin

text \<open>
  The SMMU model \<^verbatim>\<open>mmu720ae\<close> (\<^verbatim>\<open>src/systemc-components/mmu720ae\<close>): the register core with its
  event queue (\<^verbatim>\<open>mmu720ae_core.cc\<close>) and the module around it with the translation buffer units'
  sockets (\<^verbatim>\<open>mmu720ae.cc\<close>). While the SMMU is disabled requests bypass it; once it is enabled every
  request is blocked and recorded as a translation fault in the event queue in memory.

  The targets behind the two initiator sockets are parameters with their own states: \<open>down\<close> and
  \<open>down_dbg\<close> for the downstream socket, \<open>ptw\<close> for the table walk socket.
\<close>

subsection \<open>Constants\<close>

abbreviation (input) ARM_SMMU_IDR0 :: nat where "ARM_SMMU_IDR0 \<equiv> 0x0"
abbreviation (input) ARM_SMMU_IDR1 :: nat where "ARM_SMMU_IDR1 \<equiv> 0x4"
abbreviation (input) ARM_SMMU_IDR3 :: nat where "ARM_SMMU_IDR3 \<equiv> 0xc"
abbreviation (input) ARM_SMMU_IDR5 :: nat where "ARM_SMMU_IDR5 \<equiv> 0x14"
abbreviation (input) ARM_SMMU_IIDR :: nat where "ARM_SMMU_IIDR \<equiv> 0x18"
abbreviation (input) ARM_SMMU_AIDR :: nat where "ARM_SMMU_AIDR \<equiv> 0x1c"
abbreviation (input) ARM_SMMU_CR0 :: nat where "ARM_SMMU_CR0 \<equiv> 0x20"
abbreviation (input) ARM_SMMU_CR0ACK :: nat where "ARM_SMMU_CR0ACK \<equiv> 0x24"
abbreviation (input) ARM_SMMU_CR1 :: nat where "ARM_SMMU_CR1 \<equiv> 0x28"
abbreviation (input) ARM_SMMU_CR2 :: nat where "ARM_SMMU_CR2 \<equiv> 0x2c"
abbreviation (input) ARM_SMMU_GBPA :: nat where "ARM_SMMU_GBPA \<equiv> 0x44"
abbreviation (input) ARM_SMMU_IRQ_CTRL :: nat where "ARM_SMMU_IRQ_CTRL \<equiv> 0x50"
abbreviation (input) ARM_SMMU_IRQ_CTRLACK :: nat where "ARM_SMMU_IRQ_CTRLACK \<equiv> 0x54"
abbreviation (input) ARM_SMMU_GERROR :: nat where "ARM_SMMU_GERROR \<equiv> 0x60"
abbreviation (input) ARM_SMMU_GERRORN :: nat where "ARM_SMMU_GERRORN \<equiv> 0x64"
abbreviation (input) ARM_SMMU_GERROR_IRQ_CFG0 :: nat where "ARM_SMMU_GERROR_IRQ_CFG0 \<equiv> 0x68"
abbreviation (input) ARM_SMMU_GERROR_IRQ_CFG1 :: nat where "ARM_SMMU_GERROR_IRQ_CFG1 \<equiv> 0x70"
abbreviation (input) ARM_SMMU_GERROR_IRQ_CFG2 :: nat where "ARM_SMMU_GERROR_IRQ_CFG2 \<equiv> 0x74"
abbreviation (input) ARM_SMMU_STRTAB_BASE :: nat where "ARM_SMMU_STRTAB_BASE \<equiv> 0x80"
abbreviation (input) ARM_SMMU_STRTAB_BASE_CFG :: nat where "ARM_SMMU_STRTAB_BASE_CFG \<equiv> 0x88"
abbreviation (input) ARM_SMMU_CMDQ_BASE :: nat where "ARM_SMMU_CMDQ_BASE \<equiv> 0x90"
abbreviation (input) ARM_SMMU_CMDQ_PROD :: nat where "ARM_SMMU_CMDQ_PROD \<equiv> 0x98"
abbreviation (input) ARM_SMMU_CMDQ_CONS :: nat where "ARM_SMMU_CMDQ_CONS \<equiv> 0x9c"
abbreviation (input) ARM_SMMU_EVTQ_BASE :: nat where "ARM_SMMU_EVTQ_BASE \<equiv> 0xa0"
abbreviation (input) ARM_SMMU_EVTQ_PROD :: nat where "ARM_SMMU_EVTQ_PROD \<equiv> 0xa8"
abbreviation (input) ARM_SMMU_EVTQ_CONS :: nat where "ARM_SMMU_EVTQ_CONS \<equiv> 0xac"
abbreviation (input) ARM_SMMU_EVTQ_IRQ_CFG0 :: nat where "ARM_SMMU_EVTQ_IRQ_CFG0 \<equiv> 0xb0"
abbreviation (input) ARM_SMMU_EVTQ_IRQ_CFG1 :: nat where "ARM_SMMU_EVTQ_IRQ_CFG1 \<equiv> 0xb8"
abbreviation (input) ARM_SMMU_EVTQ_IRQ_CFG2 :: nat where "ARM_SMMU_EVTQ_IRQ_CFG2 \<equiv> 0xbc"
abbreviation (input) ARM_SMMU_PRIQ_BASE :: nat where "ARM_SMMU_PRIQ_BASE \<equiv> 0xc0"
abbreviation (input) ARM_SMMU_PRIQ_PROD :: nat where "ARM_SMMU_PRIQ_PROD \<equiv> 0xc8"
abbreviation (input) ARM_SMMU_PRIQ_CONS :: nat where "ARM_SMMU_PRIQ_CONS \<equiv> 0xcc"
abbreviation (input) ARM_SMMU_PRIQ_IRQ_CFG0 :: nat where "ARM_SMMU_PRIQ_IRQ_CFG0 \<equiv> 0xd0"
abbreviation (input) ARM_SMMU_PRIQ_IRQ_CFG1 :: nat where "ARM_SMMU_PRIQ_IRQ_CFG1 \<equiv> 0xd8"
abbreviation (input) ARM_SMMU_PRIQ_IRQ_CFG2 :: nat where "ARM_SMMU_PRIQ_IRQ_CFG2 \<equiv> 0xdc"
abbreviation (input) ARM_SMMU_PAGE1_OFFSET :: nat where "ARM_SMMU_PAGE1_OFFSET \<equiv> 0x10000"
abbreviation (input) ARM_SMMU_REG_SZ :: nat where "ARM_SMMU_REG_SZ \<equiv> 0xe00"
abbreviation (input) Q_BASE_ADDR_MASK :: u64 where "Q_BASE_ADDR_MASK \<equiv> 0xfffffffffffffe0"
abbreviation (input) Q_BASE_LOG2SIZE_MASK :: u32 where "Q_BASE_LOG2SIZE_MASK \<equiv> 0x1f"
abbreviation (input) EVTQ_ENT_DWORDS :: nat where "EVTQ_ENT_DWORDS \<equiv> 0x4"
abbreviation (input) EVTQ_ENT_BYTES :: nat where "EVTQ_ENT_BYTES \<equiv> 0x20"
abbreviation (input) CR0_ATSCHK :: u32 where "CR0_ATSCHK \<equiv> 0x10"
abbreviation (input) CR0_CMDQEN :: u32 where "CR0_CMDQEN \<equiv> 0x8"
abbreviation (input) CR0_EVTQEN :: u32 where "CR0_EVTQEN \<equiv> 0x4"
abbreviation (input) CR0_PRIQEN :: u32 where "CR0_PRIQEN \<equiv> 0x2"
abbreviation (input) CR0_SMMUEN :: u32 where "CR0_SMMUEN \<equiv> 0x1"
abbreviation (input) CR0_IMPLEMENTED_MASK :: u32 where "CR0_IMPLEMENTED_MASK \<equiv> 0xd"
abbreviation (input) IRQ_CTRL_EVTQ_IRQEN :: u32 where "IRQ_CTRL_EVTQ_IRQEN \<equiv> 0x4"
abbreviation (input) IRQ_CTRL_PRIQ_IRQEN :: u32 where "IRQ_CTRL_PRIQ_IRQEN \<equiv> 0x2"
abbreviation (input) IRQ_CTRL_GERROR_IRQEN :: u32 where "IRQ_CTRL_GERROR_IRQEN \<equiv> 0x1"
abbreviation (input) GBPA_UPDATE :: u32 where "GBPA_UPDATE \<equiv> 0x80000000"
abbreviation (input) GERROR_CMDQ_ERR :: u32 where "GERROR_CMDQ_ERR \<equiv> 0x1"
abbreviation (input) GERROR_EVTQ_ABT_ERR :: u32 where "GERROR_EVTQ_ABT_ERR \<equiv> 0x4"
abbreviation (input) GERROR_PRIQ_ABT_ERR :: u32 where "GERROR_PRIQ_ABT_ERR \<equiv> 0x8"
abbreviation (input) GERROR_ERR_MASK :: u32 where "GERROR_ERR_MASK \<equiv> 0x1fd"
abbreviation (input) EVT_ID_TRANSLATION_FAULT :: u64 where "EVT_ID_TRANSLATION_FAULT \<equiv> 0x10"
abbreviation (input) EVTQ_0_ID_MASK :: u64 where "EVTQ_0_ID_MASK \<equiv> 0xff"
abbreviation (input) EVTQ_0_SID_SHIFT :: nat where "EVTQ_0_SID_SHIFT \<equiv> 0x20"
abbreviation (input) EVTQ_1_RNW_SHIFT :: nat where "EVTQ_1_RNW_SHIFT \<equiv> 0x23"
abbreviation (input) IDR0_STALL_MODEL_NONE :: u32 where "IDR0_STALL_MODEL_NONE \<equiv> 0x1000000"
abbreviation (input) IDR0_TTENDIAN_LE :: u32 where "IDR0_TTENDIAN_LE \<equiv> 0x400000"
abbreviation (input) IDR0_PRI :: u32 where "IDR0_PRI \<equiv> 0x10000"
abbreviation (input) IDR0_MSI :: u32 where "IDR0_MSI \<equiv> 0x2000"
abbreviation (input) IDR0_ATS :: u32 where "IDR0_ATS \<equiv> 0x400"
abbreviation (input) IDR0_COHACC :: u32 where "IDR0_COHACC \<equiv> 0x10"
abbreviation (input) IDR0_TTF_AARCH64 :: u32 where "IDR0_TTF_AARCH64 \<equiv> 0x8"
abbreviation (input) IDR0_S1P :: u32 where "IDR0_S1P \<equiv> 0x2"
abbreviation (input) IDR1_CMDQS_SHIFT :: nat where "IDR1_CMDQS_SHIFT \<equiv> 0x15"
abbreviation (input) IDR1_EVTQS_SHIFT :: nat where "IDR1_EVTQS_SHIFT \<equiv> 0x10"
abbreviation (input) IDR1_PRIQS_SHIFT :: nat where "IDR1_PRIQS_SHIFT \<equiv> 0xb"
abbreviation (input) IDR1_SSIDSIZE_SHIFT :: nat where "IDR1_SSIDSIZE_SHIFT \<equiv> 0x6"
abbreviation (input) IDR5_GRAN4K :: u32 where "IDR5_GRAN4K \<equiv> 0x10"
abbreviation (input) IDR5_OAS_48_BIT :: u32 where "IDR5_OAS_48_BIT \<equiv> 0x5"
abbreviation (input) SMMU_REG_BYTES :: nat where "SMMU_REG_BYTES \<equiv> 0x10e00"

subsection \<open>State\<close>

text \<open>
  The fields of \<^verbatim>\<open>core\<close> and, from the module, the trace count and the level of the interrupt line.
\<close>

record mmu720ae = reg_state +
  m_combined_irq :: bool
  m_cmdq_sync_count :: u64
  m_dmi_generation :: u64
  m_tbu_request_count :: u64
  m_tbu_fallback_sid_count :: u64
  m_event_record_count :: u64
  m_event_queue_abort_count :: u64
  m_last_tbu_sid :: u32
  irq_line :: bool

record mmu_params =
  mmu_p_trace :: bool
  mmu_p_trace_limit :: u32
  mmu_p_tbu_ace1_default_sid :: u32
  mmu_p_tbu_ace2_default_sid :: u32
  mmu_p_tbu_lti00_default_sid :: u32
  mmu_p_tbu_lti01_default_sid :: u32
  mmu_p_tbu_lti02_default_sid :: u32
  mmu_irq_bound :: bool

definition mmu_default_params :: mmu_params where
  "mmu_default_params = \<lparr>mmu_p_trace = False, mmu_p_trace_limit = 64,
     mmu_p_tbu_ace1_default_sid = 0x00, mmu_p_tbu_ace2_default_sid = 0x20,
     mmu_p_tbu_lti00_default_sid = 0x40, mmu_p_tbu_lti01_default_sid = 0x60,
     mmu_p_tbu_lti02_default_sid = 0x80, mmu_irq_bound = True\<rparr>"

datatype access_status = Access_ok | Access_address_error | Access_command_error

text \<open>The request attributes extension; the code reads the stream id only.\<close>

record request_attrs =
  ra_sid :: u32
  ra_ssid :: u32
  ra_sid_valid :: bool
  ra_ssid_valid :: bool
  ra_secure :: bool
  ra_privileged :: bool
  ra_instruction :: bool
  ra_ats_request :: bool

type_synonym event_record = "u64 list"

subsection \<open>Register accessors\<close>

text \<open>Stores to the first page are mirrored to the second.\<close>

definition smmu_store32 :: "nat \<Rightarrow> u32 \<Rightarrow> mmu720ae \<Rightarrow> mmu720ae" where
  "smmu_store32 off v s =
     (let s' = store32 off v s in
      if off < ARM_SMMU_REG_SZ \<and> off + 4 \<le> ARM_SMMU_REG_SZ
      then store32 (ARM_SMMU_PAGE1_OFFSET + off) v s' else s')"

definition smmu_store64 :: "nat \<Rightarrow> u64 \<Rightarrow> mmu720ae \<Rightarrow> mmu720ae" where
  "smmu_store64 off v s =
     (let s' = s\<lparr>m_regs := mem_write (m_regs s) off (le_bytes 8 v)\<rparr> in
      if off < ARM_SMMU_REG_SZ \<and> off + 8 \<le> ARM_SMMU_REG_SZ
      then s'\<lparr>m_regs := mem_write (m_regs s') (ARM_SMMU_PAGE1_OFFSET + off) (le_bytes 8 v)\<rparr>
      else s')"

definition idr0_value :: u32 where
  "idr0_value = IDR0_STALL_MODEL_NONE OR IDR0_TTENDIAN_LE OR IDR0_COHACC OR IDR0_TTF_AARCH64 OR IDR0_S1P"

definition idr1_value :: u32 where
  "idr1_value = push_bit IDR1_CMDQS_SHIFT 8 OR push_bit IDR1_EVTQS_SHIFT 8 OR
     push_bit IDR1_PRIQS_SHIFT 0 OR push_bit IDR1_SSIDSIZE_SHIFT 0 OR 8"

definition idr5_value :: u32 where
  "idr5_value = IDR5_GRAN4K OR IDR5_OAS_48_BIT"

definition smmu_reset :: "mmu720ae \<Rightarrow> mmu720ae" where
  "smmu_reset s =
     (let s = s\<lparr>m_regs := (\<lambda>_. 0), m_combined_irq := False, m_cmdq_sync_count := 0,
            m_tbu_request_count := 0, m_tbu_fallback_sid_count := 0, m_event_record_count := 0,
            m_event_queue_abort_count := 0, m_last_tbu_sid := 0,
            m_dmi_generation := m_dmi_generation s + 1\<rparr>;
          s = smmu_store32 ARM_SMMU_IDR1 idr1_value (smmu_store32 ARM_SMMU_IDR0 idr0_value s);
          s = smmu_store32 ARM_SMMU_IDR5 idr5_value (smmu_store32 ARM_SMMU_IDR3 0 s);
          s = smmu_store32 ARM_SMMU_AIDR 3 (smmu_store32 ARM_SMMU_IIDR 0x720ae000 s)
      in smmu_store32 ARM_SMMU_GERRORN GERROR_ERR_MASK s)"

definition mmu_init :: mmu720ae where
  "mmu_init = smmu_reset
     \<lparr>m_regs = (\<lambda>_. 0), m_trace_count = 0, m_combined_irq = False, m_cmdq_sync_count = 0,
      m_dmi_generation = 0, m_tbu_request_count = 0, m_tbu_fallback_sid_count = 0,
      m_event_record_count = 0, m_event_queue_abort_count = 0, m_last_tbu_sid = 0,
      irq_line = False\<rparr>"

text \<open>The offset a register access is folded to, as the 32-bit value the code keeps.\<close>

definition normalize_offset :: "u64 \<Rightarrow> u32 \<Rightarrow> nat option" where
  "normalize_offset off len =
     (if \<not> is_supported_length len then None
      else
        (let off = (if off \<ge> of_nat ARM_SMMU_PAGE1_OFFSET \<and>
                       off < of_nat (ARM_SMMU_PAGE1_OFFSET + ARM_SMMU_REG_SZ)
                    then off - of_nat ARM_SMMU_PAGE1_OFFSET else off)
         in if off + ucast len > of_nat ARM_SMMU_REG_SZ then None
            else Some (unat (ucast off :: u32))))"

subsection \<open>The event queue\<close>

definition smmu_enabled :: "mmu720ae \<Rightarrow> bool" where
  "smmu_enabled s \<longleftrightarrow> load32 s ARM_SMMU_CR0ACK AND CR0_SMMUEN \<noteq> 0"

definition event_queue_enabled :: "mmu720ae \<Rightarrow> bool" where
  "event_queue_enabled s \<longleftrightarrow> load32 s ARM_SMMU_CR0ACK AND CR0_EVTQEN \<noteq> 0"

definition event_queue_log2_entries :: "mmu720ae \<Rightarrow> nat" where
  "event_queue_log2_entries s = unat (load64 s ARM_SMMU_EVTQ_BASE AND ucast Q_BASE_LOG2SIZE_MASK)"

definition event_queue_base :: "mmu720ae \<Rightarrow> u64" where
  "event_queue_base s = load64 s ARM_SMMU_EVTQ_BASE AND Q_BASE_ADDR_MASK"

definition event_queue_configured :: "mmu720ae \<Rightarrow> bool" where
  "event_queue_configured s \<longleftrightarrow>
     event_queue_enabled s \<and> event_queue_log2_entries s > 0 \<and> event_queue_log2_entries s < 31 \<and>
     event_queue_base s \<noteq> 0"

definition event_queue_index :: "mmu720ae \<Rightarrow> u32 \<Rightarrow> u32" where
  "event_queue_index s pointer = pointer AND (push_bit (event_queue_log2_entries s) 1 - 1)"

definition event_queue_wrap :: "mmu720ae \<Rightarrow> u32 \<Rightarrow> u32" where
  "event_queue_wrap s pointer = pointer AND push_bit (event_queue_log2_entries s) 1"

definition event_queue_pending :: "mmu720ae \<Rightarrow> bool" where
  "event_queue_pending s \<longleftrightarrow>
     event_queue_configured s \<and> load32 s ARM_SMMU_EVTQ_PROD \<noteq> load32 s ARM_SMMU_EVTQ_CONS"

definition event_queue_full :: "mmu720ae \<Rightarrow> bool" where
  "event_queue_full s \<longleftrightarrow>
     \<not> event_queue_configured s \<or>
     (let prod = load32 s ARM_SMMU_EVTQ_PROD; cons = load32 s ARM_SMMU_EVTQ_CONS in
      event_queue_index s prod = event_queue_index s cons \<and>
      event_queue_wrap s prod \<noteq> event_queue_wrap s cons)"

definition event_queue_next_prod :: "mmu720ae \<Rightarrow> u32" where
  "event_queue_next_prod s =
     (let prod = load32 s ARM_SMMU_EVTQ_PROD;
          log2_entries = event_queue_log2_entries s;
          wrap_bit = push_bit log2_entries 1;
          index = (prod AND (push_bit log2_entries 1 - 1)) + 1;
          wrap = prod AND wrap_bit
      in if index = push_bit log2_entries 1 then (wrap XOR wrap_bit) OR 0 else wrap OR index)"

definition event_queue_prod_entry_address :: "mmu720ae \<Rightarrow> u64" where
  "event_queue_prod_entry_address s =
     event_queue_base s +
     ucast (event_queue_index s (load32 s ARM_SMMU_EVTQ_PROD)) * of_nat EVTQ_ENT_BYTES"

definition invalidate_cached_translations :: "mmu720ae \<Rightarrow> mmu720ae" where
  "invalidate_cached_translations s = s\<lparr>m_dmi_generation := m_dmi_generation s + 1\<rparr>"

definition build_translation_fault_event ::
    "u64 \<Rightarrow> bool \<Rightarrow> u32 \<Rightarrow> mmu720ae \<Rightarrow> (event_record \<times> u64) option" where
  "build_translation_fault_event iova read sid s =
     (if \<not> event_queue_configured s \<or> event_queue_full s then None
      else Some ([(EVT_ID_TRANSLATION_FAULT AND EVTQ_0_ID_MASK) OR push_bit EVTQ_0_SID_SHIFT (ucast sid),
                  if read then push_bit EVTQ_1_RNW_SHIFT 1 else 0, iova, 0],
                 event_queue_prod_entry_address s))"

definition record_tbu_request_sid :: "u32 \<Rightarrow> bool \<Rightarrow> mmu720ae \<Rightarrow> mmu720ae" where
  "record_tbu_request_sid sid fallback s =
     s\<lparr>m_tbu_request_count := m_tbu_request_count s + 1,
       m_tbu_fallback_sid_count := m_tbu_fallback_sid_count s + (if fallback then 1 else 0),
       m_last_tbu_sid := sid\<rparr>"

definition core_update_irq :: "mmu720ae \<Rightarrow> mmu720ae" where
  "core_update_irq s =
     (let irq_ctrl = load32 s ARM_SMMU_IRQ_CTRL; gerror = load32 s ARM_SMMU_GERROR in
      s\<lparr>m_combined_irq :=
        (irq_ctrl AND IRQ_CTRL_GERROR_IRQEN \<noteq> 0 \<and> gerror AND GERROR_ERR_MASK \<noteq> 0) \<or>
        (irq_ctrl AND IRQ_CTRL_EVTQ_IRQEN \<noteq> 0 \<and> event_queue_pending s)\<rparr>)"

definition record_event_queue_abort :: "mmu720ae \<Rightarrow> mmu720ae" where
  "record_event_queue_abort s =
     (let s = s\<lparr>m_event_queue_abort_count := m_event_queue_abort_count s + 1\<rparr>;
          s = smmu_store32 ARM_SMMU_GERROR (load32 s ARM_SMMU_GERROR OR GERROR_EVTQ_ABT_ERR) s;
          s = smmu_store32 ARM_SMMU_GERRORN (GERROR_ERR_MASK AND NOT (load32 s ARM_SMMU_GERROR)) s
      in core_update_irq s)"

definition complete_event_queue_write :: "bool \<Rightarrow> mmu720ae \<Rightarrow> mmu720ae" where
  "complete_event_queue_write ok s =
     (if \<not> ok then record_event_queue_abort s
      else
        (let s = s\<lparr>m_event_record_count := m_event_record_count s + 1\<rparr>
         in core_update_irq (smmu_store32 ARM_SMMU_EVTQ_PROD (event_queue_next_prod s) s)))"

subsection \<open>Register writes\<close>

definition smmu_write32 :: "nat \<Rightarrow> u32 \<Rightarrow> mmu720ae \<Rightarrow> mmu720ae" where
  "smmu_write32 off v s =
     (if off \<in> {ARM_SMMU_IDR0, ARM_SMMU_IDR1, ARM_SMMU_IDR3, ARM_SMMU_IDR5, ARM_SMMU_IIDR,
                ARM_SMMU_AIDR, ARM_SMMU_CR0ACK, ARM_SMMU_IRQ_CTRLACK} then s
      else if off = ARM_SMMU_CR0 then
        (let implemented = v AND CR0_IMPLEMENTED_MASK;
             s = smmu_store32 ARM_SMMU_CR0ACK implemented (smmu_store32 ARM_SMMU_CR0 implemented s)
         in if implemented AND CR0_SMMUEN = 0 then invalidate_cached_translations s else s)
      else if off = ARM_SMMU_IRQ_CTRL then
        (let s = smmu_store32 ARM_SMMU_IRQ_CTRL
                   (v AND (IRQ_CTRL_EVTQ_IRQEN OR IRQ_CTRL_GERROR_IRQEN)) s
         in core_update_irq (smmu_store32 ARM_SMMU_IRQ_CTRLACK (load32 s ARM_SMMU_IRQ_CTRL) s))
      else if off = ARM_SMMU_GBPA then smmu_store32 ARM_SMMU_GBPA (v AND NOT GBPA_UPDATE) s
      else if off = ARM_SMMU_GERRORN then
        (let s = smmu_store32 ARM_SMMU_GERROR (load32 s ARM_SMMU_GERROR AND NOT v) s;
             s = smmu_store32 ARM_SMMU_GERRORN (GERROR_ERR_MASK AND NOT (load32 s ARM_SMMU_GERROR)) s
         in core_update_irq s)
      else if off = ARM_SMMU_CMDQ_PROD then
        (let s = smmu_store32 ARM_SMMU_CMDQ_CONS v (smmu_store32 ARM_SMMU_CMDQ_PROD v s)
         in invalidate_cached_translations (s\<lparr>m_cmdq_sync_count := m_cmdq_sync_count s + 1\<rparr>))
      else if off = ARM_SMMU_EVTQ_CONS \<or> off = ARM_SMMU_PRIQ_CONS then
        core_update_irq (smmu_store32 off v s)
      else smmu_store32 off v s)"

text \<open>Every case of \<^verbatim>\<open>write64\<close> stores the value.\<close>

definition smmu_write64 :: "nat \<Rightarrow> u64 \<Rightarrow> mmu720ae \<Rightarrow> mmu720ae" where
  "smmu_write64 off v s = smmu_store64 off v s"

definition core_read :: "u64 \<Rightarrow> u8 list option \<Rightarrow> u32 \<Rightarrow> mmu720ae \<Rightarrow> (access_status \<times> u8 list option) ub" where
  "core_read off data len s =
     (case (data, normalize_offset off len) of
        (Some buf, Some normalized) \<Rightarrow>
          if length buf < unat len then None
          else do {
            bs \<leftarrow> arr_read SMMU_REG_BYTES (m_regs s) normalized (unat len);
            Some (Access_ok, Some (bs @ drop (unat len) buf))
          }
      | _ \<Rightarrow> Some (Access_address_error, data))"

definition core_write :: "u64 \<Rightarrow> u8 list option \<Rightarrow> u32 \<Rightarrow> mmu720ae \<Rightarrow> (access_status \<times> mmu720ae) ub" where
  "core_write off data len s =
     (case (data, normalize_offset off len) of
        (Some buf, Some normalized) \<Rightarrow>
          if length buf < unat len \<or> normalized + unat len > SMMU_REG_BYTES then None
          else if len = 4 \<and> normalized mod 4 = 0
          then Some (Access_ok, smmu_write32 normalized (le_word (take 4 buf)) s)
          else if len = 8 \<and> normalized mod 8 = 0
          then Some (Access_ok, smmu_write64 normalized (le_word (take 8 buf)) s)
          else Some (Access_ok, s\<lparr>m_regs := mem_write (m_regs s) normalized (take (unat len) buf)\<rparr>)
      | _ \<Rightarrow> Some (Access_address_error, s))"

subsection \<open>The module: registers\<close>

definition mmu_update_irq :: "mmu_params \<Rightarrow> mmu720ae \<Rightarrow> mmu720ae" where
  "mmu_update_irq P s = (if mmu_irq_bound P then s\<lparr>irq_line := m_combined_irq s\<rparr> else s)"

definition mmu_doreset :: "mmu_params \<Rightarrow> bool \<Rightarrow> mmu720ae \<Rightarrow> mmu720ae" where
  "mmu_doreset P level s = (if level then mmu_update_irq P (smmu_reset s) else s)"

definition mmu_trace_access :: "mmu_params \<Rightarrow> mmu720ae \<Rightarrow> mmu720ae" where
  "mmu_trace_access P s = count_trace (mmu_p_trace P) (mmu_p_trace_limit P) s"

definition access_registers :: "mmu_params \<Rightarrow> payload \<Rightarrow> mmu720ae \<Rightarrow> (bool \<times> payload \<times> mmu720ae) ub" where
  "access_registers P t s =
     do {
       (status, data, s') \<leftarrow>
         (case p_command t of
            TLM_READ_COMMAND \<Rightarrow>
              do { (st, d) \<leftarrow> core_read (p_address t) (p_data t) (p_len t) s; Some (st, d, s) }
          | TLM_WRITE_COMMAND \<Rightarrow>
              do { (st, s') \<leftarrow> core_write (p_address t) (p_data t) (p_len t) s; Some (st, p_data t, s') }
          | TLM_IGNORE_COMMAND \<Rightarrow> Some (Access_command_error, p_data t, s));
       let t' = t\<lparr>p_data := data\<rparr>;
       Some (case status of
          Access_ok \<Rightarrow> (True, t'\<lparr>p_response := TLM_OK_RESPONSE\<rparr>, mmu_update_irq P (mmu_trace_access P s'))
        | Access_address_error \<Rightarrow> (False, t'\<lparr>p_response := TLM_ADDRESS_ERROR_RESPONSE\<rparr>, s')
        | Access_command_error \<Rightarrow> (False, t'\<lparr>p_response := TLM_COMMAND_ERROR_RESPONSE\<rparr>, s'))
     }"

definition mmu_b_transport :: "mmu_params \<Rightarrow> payload \<Rightarrow> mmu720ae \<Rightarrow> (payload \<times> mmu720ae) ub" where
  "mmu_b_transport P = b_transport_of (access_registers P)"

definition mmu_transport_dbg :: "mmu_params \<Rightarrow> payload \<Rightarrow> mmu720ae \<Rightarrow> (u32 \<times> payload \<times> mmu720ae) ub" where
  "mmu_transport_dbg P = transport_dbg_of (access_registers P)"

subsection \<open>The module: translation buffer units\<close>

definition clamp_sid :: "u32 \<Rightarrow> u32" where
  "clamp_sid sid = sid AND 0xff"

definition request_sid_or_default :: "request_attrs option \<Rightarrow> u32 \<Rightarrow> u32 \<times> bool" where
  "request_sid_or_default attrs default_sid =
     (case attrs of
        Some a \<Rightarrow> if ra_sid_valid a then (clamp_sid (ra_sid a), False) else (clamp_sid default_sid, True)
      | None \<Rightarrow> (clamp_sid default_sid, True))"

definition event_bytes :: "event_record \<Rightarrow> u8 list" where
  "event_bytes record = concat (map (le_bytes 8) record)"

definition write_event_record :: "'m bus \<Rightarrow> event_record \<Rightarrow> u64 \<Rightarrow> 'm \<Rightarrow> bool \<times> 'm" where
  "write_event_record ptw record address m =
     (let (t, m') = ptw ((write_payload address (event_bytes record))\<lparr>p_len := of_nat EVTQ_ENT_BYTES\<rparr>) m
      in (p_response t = TLM_OK_RESPONSE, m'))"

definition record_unimplemented_translation_fault ::
    "mmu_params \<Rightarrow> 'm bus \<Rightarrow> payload \<Rightarrow> u32 \<Rightarrow> bool \<Rightarrow> mmu720ae \<times> 'm \<Rightarrow> mmu720ae \<times> 'm" where
  "record_unimplemented_translation_fault P ptw t sid fallback_sid sm =
     (let (s, m) = sm;
          event_sid = clamp_sid sid;
          s = record_tbu_request_sid event_sid fallback_sid s
      in case build_translation_fault_event (p_address t) (p_command t = TLM_READ_COMMAND) event_sid s of
           None \<Rightarrow> (mmu_update_irq P (record_event_queue_abort s), m)
         | Some (record, write_address) \<Rightarrow>
             (let (written, m') = write_event_record ptw record write_address m
              in (mmu_update_irq P (complete_event_queue_write written s), m')))"

definition forward_bypass ::
    "'d bus \<Rightarrow> (payload \<Rightarrow> 'd \<Rightarrow> u32 \<times> payload \<times> 'd) \<Rightarrow> bool \<Rightarrow> payload \<Rightarrow> 'd \<Rightarrow> bool \<times> payload \<times> 'd" where
  "forward_bypass down down_dbg debug t d =
     (if debug then
        (let (got, t', d') = down_dbg t d in (got = p_len t', t', d'))
      else
        (let (t', d') = down t d in (p_response t' = TLM_OK_RESPONSE, t', d')))"

definition tbu_b_transport_with_sid ::
    "mmu_params \<Rightarrow> 'm bus \<Rightarrow> 'd bus \<Rightarrow> (payload \<Rightarrow> 'd \<Rightarrow> u32 \<times> payload \<times> 'd) \<Rightarrow> request_attrs option \<Rightarrow> u32 \<Rightarrow>
     payload \<Rightarrow> mmu720ae \<times> 'm \<times> 'd \<Rightarrow> payload \<times> mmu720ae \<times> 'm \<times> 'd" where
  "tbu_b_transport_with_sid P ptw down down_dbg attrs sid t smd =
     (let (s, m, d) = smd;
          (request_sid, fallback_sid) = request_sid_or_default attrs sid
      in if smmu_enabled s then
           (let (s', m') = record_unimplemented_translation_fault P ptw t request_sid fallback_sid (s, m);
                t' = t\<lparr>p_dmi_allowed := False, p_response := TLM_COMMAND_ERROR_RESPONSE\<rparr>
            in (t', mmu_update_irq P s', m', d))
         else (let (_, t', d') = forward_bypass down down_dbg False t d in (t', s, m, d')))"

definition tbu_transport_dbg_with_sid ::
    "'d bus \<Rightarrow> (payload \<Rightarrow> 'd \<Rightarrow> u32 \<times> payload \<times> 'd) \<Rightarrow> request_attrs option \<Rightarrow> u32 \<Rightarrow>
     payload \<Rightarrow> mmu720ae \<times> 'd \<Rightarrow> u32 \<times> payload \<times> mmu720ae \<times> 'd" where
  "tbu_transport_dbg_with_sid down down_dbg attrs sid t sd =
     (let (s, d) = sd in
      if smmu_enabled s then
        (let (request_sid, fallback_sid) = request_sid_or_default attrs sid
         in (0, t\<lparr>p_response := TLM_COMMAND_ERROR_RESPONSE\<rparr>,
             record_tbu_request_sid request_sid fallback_sid s, d))
      else (let (ok, t', d') = forward_bypass down down_dbg True t d
            in (if ok then p_len t' else 0, t', s, d')))"

text \<open>The five units differ in their default stream id.\<close>

datatype tbu = Tbu_ace1 | Tbu_ace2 | Tbu_lti00 | Tbu_lti01 | Tbu_lti02

fun tbu_default_sid :: "mmu_params \<Rightarrow> tbu \<Rightarrow> u32" where
  "tbu_default_sid P Tbu_ace1 = mmu_p_tbu_ace1_default_sid P"
| "tbu_default_sid P Tbu_ace2 = mmu_p_tbu_ace2_default_sid P"
| "tbu_default_sid P Tbu_lti00 = mmu_p_tbu_lti00_default_sid P"
| "tbu_default_sid P Tbu_lti01 = mmu_p_tbu_lti01_default_sid P"
| "tbu_default_sid P Tbu_lti02 = mmu_p_tbu_lti02_default_sid P"

definition tbu_b_transport ::
    "mmu_params \<Rightarrow> tbu \<Rightarrow> 'm bus \<Rightarrow> 'd bus \<Rightarrow> (payload \<Rightarrow> 'd \<Rightarrow> u32 \<times> payload \<times> 'd) \<Rightarrow> request_attrs option \<Rightarrow>
     payload \<Rightarrow> mmu720ae \<times> 'm \<times> 'd \<Rightarrow> payload \<times> mmu720ae \<times> 'm \<times> 'd" where
  "tbu_b_transport P u ptw down down_dbg attrs =
     tbu_b_transport_with_sid P ptw down down_dbg attrs (tbu_default_sid P u)"

definition tbu_transport_dbg ::
    "mmu_params \<Rightarrow> tbu \<Rightarrow> 'd bus \<Rightarrow> (payload \<Rightarrow> 'd \<Rightarrow> u32 \<times> payload \<times> 'd) \<Rightarrow> request_attrs option \<Rightarrow>
     payload \<Rightarrow> mmu720ae \<times> 'd \<Rightarrow> u32 \<times> payload \<times> mmu720ae \<times> 'd" where
  "tbu_transport_dbg P u down down_dbg attrs =
     tbu_transport_dbg_with_sid down down_dbg attrs (tbu_default_sid P u)"

subsection \<open>Loads and stores\<close>

lemma smmu_load32_store32:
  assumes "off mod 4 = 0" and "off' mod 4 = 0" and "off' + 4 \<le> ARM_SMMU_PAGE1_OFFSET"
  shows "load32 (smmu_store32 off v s) off' = (if off' = off then v else load32 s off')"
  using assms by (simp add: smmu_store32_def Let_def load32_store32_aligned)

lemma load64_store32_disjoint:
  "off + 4 \<le> off' \<or> off' + 8 \<le> off \<Longrightarrow> load64 (store32 off v s) off' = load64 s off'"
  by (simp add: load64_def store32_def)

lemma smmu_load64_store32:
  assumes "off + 4 \<le> off' \<or> off' + 8 \<le> off" and "off' + 8 \<le> ARM_SMMU_PAGE1_OFFSET"
  shows "load64 (smmu_store32 off v s) off' = load64 s off'"
  using assms by (simp add: smmu_store32_def Let_def load64_store32_disjoint)

lemma smmu_store32_frame [simp]:
  "m_combined_irq (smmu_store32 off v s) = m_combined_irq s" "irq_line (smmu_store32 off v s) = irq_line s"
  "m_dmi_generation (smmu_store32 off v s) = m_dmi_generation s"
  "m_cmdq_sync_count (smmu_store32 off v s) = m_cmdq_sync_count s"
  by (simp_all add: smmu_store32_def store32_def Let_def)

lemma irq_frame [simp]:
  "load32 (core_update_irq s) off = load32 s off" "load64 (core_update_irq s) off = load64 s off"
  "load32 (mmu_update_irq P s) off = load32 s off" "load64 (mmu_update_irq P s) off = load64 s off"
  "load32 (record_tbu_request_sid sid fb s) off = load32 s off"
  "load64 (record_tbu_request_sid sid fb s) off = load64 s off"
  "load32 (s\<lparr>m_event_record_count := c\<rparr>) off = load32 s off"
  "load64 (s\<lparr>m_event_record_count := c\<rparr>) off = load64 s off"
  "load32 (s\<lparr>m_event_queue_abort_count := c\<rparr>) off = load32 s off"
  "load64 (s\<lparr>m_event_queue_abort_count := c\<rparr>) off = load64 s off"
  by (simp_all add: core_update_irq_def mmu_update_irq_def record_tbu_request_sid_def load32_def load64_def Let_def)

subsection \<open>Queue pointers\<close>

lemma event_queue_index_unat:
  "unat (event_queue_index s p) = unat p mod 2 ^ event_queue_log2_entries s"
proof -
  have "event_queue_index s p = take_bit (event_queue_log2_entries s) p"
    by (simp add: event_queue_index_def take_bit_eq_mask mask_eq_exp_minus_1 and.commute)
  then show ?thesis unfolding unsigned_take_bit_eq[symmetric] by (simp only: unsigned_take_bit_eq) (rule take_bit_eq_mod)
qed

lemma event_queue_wrap_eq:
  "event_queue_wrap s p = (if bit p (event_queue_log2_entries s) then 2 ^ event_queue_log2_entries s else 0)"
  by (rule bit_word_eqI) (auto simp: event_queue_wrap_def bit_simps)

lemma pointer_split:
  fixes p :: u32
  shows "unat p mod 2 ^ Suc n = unat p mod 2 ^ n + (if bit p n then 2 ^ n else 0)"
  using take_bit_Suc_from_most[of n "unat p"] by (cases "bit p n") (auto simp: take_bit_eq_mod bit_unsigned_iff dest: bit_imp_le_length)

text \<open>The queue pointers as positions modulo twice the queue size, and the fill level.\<close>

definition evtq_size :: "mmu720ae \<Rightarrow> nat" where
  "evtq_size s = 2 ^ event_queue_log2_entries s"

definition evtq_pos :: "mmu720ae \<Rightarrow> u32 \<Rightarrow> nat" where
  "evtq_pos s p = unat p mod (2 * evtq_size s)"

definition evtq_level :: "mmu720ae \<Rightarrow> nat" where
  "evtq_level s =
     (evtq_pos s (load32 s ARM_SMMU_EVTQ_PROD) + 2 * evtq_size s - evtq_pos s (load32 s ARM_SMMU_EVTQ_CONS))
     mod (2 * evtq_size s)"

lemma evtq_pos_split:
  "evtq_pos s p = unat (event_queue_index s p) + (if event_queue_wrap s p = 0 then 0 else evtq_size s)"
  if "event_queue_log2_entries s < 32"
proof -
  have "(2 :: u32) ^ event_queue_log2_entries s \<noteq> 0" using that by simp
  then show ?thesis
    using pointer_split[of p "event_queue_log2_entries s"]
    by (simp add: evtq_pos_def evtq_size_def event_queue_index_unat event_queue_wrap_eq)
qed

lemma configured_log2: "event_queue_configured s \<Longrightarrow> event_queue_log2_entries s < 31"
  by (simp add: event_queue_configured_def)

lemma evtq_size_pos [simp]: "0 < evtq_size s"
  by (simp add: evtq_size_def)

lemma index_bound: "unat (event_queue_index s p) < evtq_size s"
  by (simp add: event_queue_index_unat evtq_size_def)

lemma wrap_values: "event_queue_wrap s p = 0 \<or> event_queue_wrap s p = 2 ^ event_queue_log2_entries s"
  by (simp add: event_queue_wrap_eq)

lemma wrap_eq_iff:
  assumes "event_queue_log2_entries s < 32"
  shows "event_queue_wrap s p = event_queue_wrap s q \<longleftrightarrow> (event_queue_wrap s p = 0 \<longleftrightarrow> event_queue_wrap s q = 0)"
  using wrap_values[of s p] wrap_values[of s q] by auto

lemma evtq_full_iff:
  assumes "event_queue_configured s"
  shows "event_queue_full s \<longleftrightarrow> evtq_level s = evtq_size s"
proof -
  let ?p = "load32 s ARM_SMMU_EVTQ_PROD" and ?c = "load32 s ARM_SMMU_EVTQ_CONS" and ?N = "evtq_size s"
  have n: "event_queue_log2_entries s < 32" using configured_log2[OF assms] by simp
  define i j where "i = unat (event_queue_index s ?p)" and "j = unat (event_queue_index s ?c)"
  define v w where "v = (event_queue_wrap s ?p = 0)" and "w = (event_queue_wrap s ?c = 0)"
  have b: "i < ?N" "j < ?N" by (simp_all add: i_def j_def index_bound)
  have pos: "evtq_pos s ?p = i + (if v then 0 else ?N)" "evtq_pos s ?c = j + (if w then 0 else ?N)"
    by (simp_all add: evtq_pos_split[OF n] i_def j_def v_def w_def)
  have "evtq_level s = ?N \<longleftrightarrow> i = j \<and> v \<noteq> w"
    unfolding evtq_level_def pos using b level_eq[of "i + (if v then 0 else ?N)" ?N "j + (if w then 0 else ?N)"]
    by (cases v; cases w) (auto split: if_splits)
  moreover have "event_queue_full s \<longleftrightarrow> i = j \<and> v \<noteq> w"
    using assms wrap_eq_iff[OF n, of ?p ?c]
    by (auto simp: event_queue_full_def i_def j_def v_def w_def Let_def word_unat_eq_iff)
  ultimately show ?thesis by simp
qed

lemma next_prod_pos:
  assumes "event_queue_configured s"
  shows "unat (event_queue_next_prod s) = (evtq_pos s (load32 s ARM_SMMU_EVTQ_PROD) + 1) mod (2 * evtq_size s)"
proof -
  let ?p = "load32 s ARM_SMMU_EVTQ_PROD" and ?n = "event_queue_log2_entries s"
  have n: "?n < 31" using configured_log2[OF assms] .
  have N: "unat (2 ^ ?n :: u32) = evtq_size s" "2 * evtq_size s \<le> 2 ^ 31"
    using n power_increasing[of "Suc ?n" 31 "2 :: nat"] by (simp_all add: evtq_size_def unat_exp_u32)
  define i where "i = event_queue_index s ?p"
  have i: "unat i < evtq_size s" by (simp add: i_def index_bound)
  have suc: "unat (i + 1) = unat i + 1"
    using i N(2) by (subst unat_add_small) simp_all
  have pos: "evtq_pos s ?p = unat i + (if event_queue_wrap s ?p = 0 then 0 else evtq_size s)"
    using evtq_pos_split[of s ?p] n by (simp add: i_def)
  have full: "i + 1 = 2 ^ ?n \<longleftrightarrow> unat i + 1 = evtq_size s"
    by (simp only: word_unat_eq_iff suc N(1))
  have nx: "event_queue_next_prod s = (if i + 1 = 2 ^ ?n then event_queue_wrap s ?p XOR 2 ^ ?n
      else event_queue_wrap s ?p OR (i + 1))"
    by (simp add: event_queue_next_prod_def event_queue_index_def event_queue_wrap_def i_def Let_def)
  show ?thesis
  proof (cases "i + 1 = 2 ^ ?n")
    case True
    then have "unat i + 1 = evtq_size s" using full by simp
    then show ?thesis
      using True nx pos wrap_values[of s ?p] N by (auto simp: mod_double_eq)
  next
    case False
    then have lt: "unat i + 1 < evtq_size s" using full i by simp
    have "\<not> bit (i + 1) k" if "?n \<le> k" for k
    proof
      assume b: "bit (i + 1) k"
      then have "bit (unat (i + 1)) k" by (simp add: bit_unsigned_iff bit_imp_le_length)
      then have "2 ^ k \<le> unat (i + 1)" by (rule bit_nat_le)
      moreover have "evtq_size s \<le> 2 ^ k" using that by (simp add: evtq_size_def)
      ultimately show False using lt suc by simp
    qed
    then have "event_queue_wrap s ?p AND (i + 1) = 0"
      by (intro bit_word_eqI) (auto simp: event_queue_wrap_eq bit_simps)
    then have "event_queue_wrap s ?p OR (i + 1) = event_queue_wrap s ?p + (i + 1)"
      by (simp add: disjunctive_add_eq_or)
    then show ?thesis
      using False nx pos wrap_values[of s ?p] N lt suc 
      by (auto simp: mod_double_eq unat_add_small)
  qed
qed


subsection \<open>The queue in memory\<close>

definition evtq_slot :: "mmu720ae \<Rightarrow> nat \<Rightarrow> u64" where
  "evtq_slot s i = event_queue_base s + of_nat (i mod evtq_size s) * 32"

text \<open>The records between the consumer and the producer pointer.\<close>

definition evtq_events :: "ram \<Rightarrow> mmu720ae \<Rightarrow> u8 list list" where
  "evtq_events m s =
     map (\<lambda>k. ram_read m (evtq_slot s (evtq_pos s (load32 s ARM_SMMU_EVTQ_CONS) + k)) 32) [0..<evtq_level s]"

lemma slots_disjoint:
  fixes b :: u64
  assumes "i < 2 ^ 31" and "j < 2 ^ 31" and "i \<noteq> j" and "d < 32"
  shows "32 \<le> unat (b + of_nat i * 32 + of_nat d - (b + of_nat j * 32))"
proof -
  have eq: "b + of_nat i * 32 + of_nat d - (b + of_nat j * 32) = of_nat (32 * i + d) - of_nat (32 * j)"
    by (simp add: algebra_simps)
  have u: "unat (of_nat (32 * i + d) :: u64) = 32 * i + d" "unat (of_nat (32 * j) :: u64) = 32 * j"
    using assms by (simp_all add: unat_of_nat_small del: of_nat_mult of_nat_add)
  show ?thesis
    unfolding eq unat_sub_if' u using assms by (auto simp: not_le)
qed

lemma evtq_slot_other:
  assumes "event_queue_configured s" and "i mod evtq_size s \<noteq> j mod evtq_size s" and "length bs = 32"
  shows "ram_read (ram_write m (evtq_slot s j) bs) (evtq_slot s i) 32 = ram_read m (evtq_slot s i) 32"
proof (rule ram_read_write_other)
  fix d :: nat assume d: "d < 32"
  have N: "evtq_size s \<le> 2 ^ 31"
    unfolding evtq_size_def using configured_log2[OF assms(1)] by (intro power_increasing) simp_all
  have "i mod evtq_size s < 2 ^ 31" "j mod evtq_size s < 2 ^ 31"
    using N mod_less_divisor[OF evtq_size_pos, of i s] mod_less_divisor[OF evtq_size_pos, of j s] by linarith+
  from slots_disjoint[OF this assms(2) d]
  show "length bs \<le> unat (evtq_slot s i + of_nat d - evtq_slot s j)"
    using assms(3) by (simp add: evtq_slot_def)
qed

text \<open>The registers the queue functions read.\<close>

lemma evtq_cong:
  assumes "load64 s' ARM_SMMU_EVTQ_BASE = load64 s ARM_SMMU_EVTQ_BASE"
  shows "evtq_size s' = evtq_size s" "evtq_slot s' i = evtq_slot s i" "evtq_pos s' p = evtq_pos s p"
    "event_queue_log2_entries s' = event_queue_log2_entries s"
    "event_queue_index s' p = event_queue_index s p"
    "event_queue_wrap s' p = event_queue_wrap s p"
  using assms by (simp_all add: evtq_size_def evtq_slot_def evtq_pos_def event_queue_log2_entries_def event_queue_base_def
      event_queue_index_def event_queue_wrap_def)

lemma evtq_level_cong:
  assumes "load64 s' ARM_SMMU_EVTQ_BASE = load64 s ARM_SMMU_EVTQ_BASE"
    and "load32 s' ARM_SMMU_EVTQ_PROD = load32 s ARM_SMMU_EVTQ_PROD"
    and "load32 s' ARM_SMMU_EVTQ_CONS = load32 s ARM_SMMU_EVTQ_CONS"
  shows "evtq_level s' = evtq_level s" "evtq_events m s' = evtq_events m s"
  using assms by (simp_all add: evtq_level_def evtq_events_def evtq_cong[OF assms(1)])

lemma level_bound: "evtq_level s < 2 * evtq_size s"
  by (simp add: evtq_level_def)

lemma prod_pos_level:
  "evtq_pos s (load32 s ARM_SMMU_EVTQ_PROD) =
   (evtq_pos s (load32 s ARM_SMMU_EVTQ_CONS) + evtq_level s) mod (2 * evtq_size s)"
proof -
  have b: "evtq_pos s p < 2 * evtq_size s" for p by (simp add: evtq_pos_def)
  show ?thesis
    using b[of "load32 s ARM_SMMU_EVTQ_PROD"] b[of "load32 s ARM_SMMU_EVTQ_CONS"]
    unfolding evtq_level_def by (simp add: level_eq mod_double_eq)
qed

lemma prod_slot: "event_queue_prod_entry_address s =
    evtq_slot s (evtq_pos s (load32 s ARM_SMMU_EVTQ_CONS) + evtq_level s)"
proof -
  have "evtq_pos s (load32 s ARM_SMMU_EVTQ_PROD) mod evtq_size s =
      (evtq_pos s (load32 s ARM_SMMU_EVTQ_CONS) + evtq_level s) mod evtq_size s"
    unfolding prod_pos_level by (simp add: mod_mod_cancel)
  moreover have "evtq_pos s p mod evtq_size s = unat (event_queue_index s p)" for p
    by (simp add: evtq_pos_def evtq_size_def event_queue_index_unat mod_mod_cancel)
  ultimately have "(evtq_pos s (load32 s ARM_SMMU_EVTQ_CONS) + evtq_level s) mod evtq_size s =
      unat (event_queue_index s (load32 s ARM_SMMU_EVTQ_PROD))" by simp
  then show ?thesis
    unfolding event_queue_prod_entry_address_def evtq_slot_def by simp
qed

text \<open>Moving the producer pointer over a record that was written to its slot appends it.\<close>

lemma evtq_append:
  assumes conf: "event_queue_configured s" and room: "evtq_level s < evtq_size s"
    and base: "load64 s' ARM_SMMU_EVTQ_BASE = load64 s ARM_SMMU_EVTQ_BASE"
    and cons: "load32 s' ARM_SMMU_EVTQ_CONS = load32 s ARM_SMMU_EVTQ_CONS"
    and prod: "load32 s' ARM_SMMU_EVTQ_PROD = event_queue_next_prod s"
    and len: "length bs = 32" and m': "m' = ram_write m (event_queue_prod_entry_address s) bs"
  shows "evtq_events m' s' = evtq_events m s @ [bs]" and "evtq_level s' = evtq_level s + 1"
proof -
  let ?N = "evtq_size s" and ?c = "evtq_pos s (load32 s ARM_SMMU_EVTQ_CONS)" and ?l = "evtq_level s"
  have c: "?c < 2 * ?N" by (simp add: evtq_pos_def)
  have p': "evtq_pos s (event_queue_next_prod s) = (?c + ?l + 1) mod (2 * ?N)"
    unfolding evtq_pos_def[of s "event_queue_next_prod s"] next_prod_pos[OF conf] prod_pos_level
    by (simp add: mod_simps)
  show lev: "evtq_level s' = ?l + 1"
    unfolding evtq_level_def[of s'] evtq_cong[OF base] cons prod p'
    using c room by (simp add: level_eq mod_double_eq)
  have "ram_read m' (evtq_slot s (?c + k)) 32 = ram_read m (evtq_slot s (?c + k)) 32" if "k < ?l" for k
  proof -
    have "(?c + k) mod ?N \<noteq> (?c + ?l) mod ?N"
    proof
      assume "(?c + k) mod ?N = (?c + ?l) mod ?N"
      then have "?N dvd ?l - k" using that mod_eq_dvd_iff_nat[of "?c + k" "?c + ?l" ?N] by simp
      then show False using that room by (auto dest: dvd_imp_le)
    qed
    then show ?thesis unfolding m' prod_slot by (rule evtq_slot_other[OF conf _ len])
  qed
  moreover have "ram_read m' (evtq_slot s (?c + ?l)) 32 = bs"
    unfolding m' prod_slot using ram_read_write_same[of bs] len by simp
  ultimately show "evtq_events m' s' = evtq_events m s @ [bs]"
    by (simp add: evtq_events_def lev evtq_cong[OF base] cons)
qed


subsection \<open>Recording a fault\<close>

definition fault_event :: "u64 \<Rightarrow> bool \<Rightarrow> u32 \<Rightarrow> u8 list" where
  "fault_event iova read sid =
     event_bytes [0x10 OR push_bit 32 (ucast sid), (if read then push_bit 35 1 else 0), iova, 0]"

lemma length_fault_event [simp]: "length (fault_event iova read sid) = 32"
  by (simp add: fault_event_def event_bytes_def)

lemma write_event_record_memory:
  assumes "memory_bus ptw peek" and "length (event_bytes r) = 32" and "write_event_record ptw r a m = (ok, m')"
  shows "ok \<and> peek m' = ram_write (peek m) a (event_bytes r)"
proof -
  obtain t' m1 where b: "ptw ((write_payload a (event_bytes r))\<lparr>p_len := of_nat EVTQ_ENT_BYTES\<rparr>) m = (t', m1)" by fastforce
  show ?thesis
    using memory_bus_write[OF assms(1) _ _ _ b, of "event_bytes r"] assms(2,3)
    using b by (simp add: write_event_record_def)
qed

lemma evtq_configured_cong:
  assumes "load64 s' ARM_SMMU_EVTQ_BASE = load64 s ARM_SMMU_EVTQ_BASE"
    and "load32 s' ARM_SMMU_CR0ACK = load32 s ARM_SMMU_CR0ACK"
  shows "event_queue_configured s' = event_queue_configured s"
  using assms by (simp add: event_queue_configured_def event_queue_enabled_def event_queue_log2_entries_def event_queue_base_def)

lemma record_sid_queue [simp]:
  "event_queue_configured (record_tbu_request_sid sid fb s) = event_queue_configured s"
  "event_queue_full (record_tbu_request_sid sid fb s) = event_queue_full s"
  "event_queue_prod_entry_address (record_tbu_request_sid sid fb s) = event_queue_prod_entry_address s"
  "event_queue_next_prod (record_tbu_request_sid sid fb s) = event_queue_next_prod s"
  "evtq_level (record_tbu_request_sid sid fb s) = evtq_level s"
  "evtq_events m (record_tbu_request_sid sid fb s) = evtq_events m s"
  by (simp_all add: event_queue_configured_def event_queue_enabled_def event_queue_log2_entries_def
      event_queue_base_def event_queue_full_def event_queue_prod_entry_address_def event_queue_next_prod_def
      event_queue_index_def event_queue_wrap_def evtq_level_def evtq_events_def evtq_pos_def evtq_size_def evtq_slot_def)

lemma abort_loads:
  "load32 (record_event_queue_abort s) ARM_SMMU_GERROR = load32 s ARM_SMMU_GERROR OR GERROR_EVTQ_ABT_ERR"
  "load64 (record_event_queue_abort s) ARM_SMMU_EVTQ_BASE = load64 s ARM_SMMU_EVTQ_BASE"
  "load32 (record_event_queue_abort s) ARM_SMMU_EVTQ_PROD = load32 s ARM_SMMU_EVTQ_PROD"
  "load32 (record_event_queue_abort s) ARM_SMMU_EVTQ_CONS = load32 s ARM_SMMU_EVTQ_CONS"
  by (simp_all add: record_event_queue_abort_def smmu_load32_store32 smmu_load64_store32 Let_def)

lemma complete_loads:
  "load32 (complete_event_queue_write True s) ARM_SMMU_GERROR = load32 s ARM_SMMU_GERROR"
  "load64 (complete_event_queue_write True s) ARM_SMMU_EVTQ_BASE = load64 s ARM_SMMU_EVTQ_BASE"
  "load32 (complete_event_queue_write True s) ARM_SMMU_EVTQ_PROD = event_queue_next_prod s"
  "load32 (complete_event_queue_write True s) ARM_SMMU_EVTQ_CONS = load32 s ARM_SMMU_EVTQ_CONS"
  by (simp_all add: complete_event_queue_write_def smmu_load32_store32 smmu_load64_store32 Let_def
      event_queue_next_prod_def event_queue_log2_entries_def)

text \<open>C20. While the SMMU is enabled, every request is blocked without reaching the downstream socket
  and recorded: with room in a well-formed event queue, the queue in memory grows by exactly the
  fault record of the request; a full queue keeps its contents and the abort error is raised.
  The fill level never exceeds the queue size.\<close>

theorem smmu_fault_queue:
  assumes "memory_bus ptw peek" and "smmu_enabled s" and "event_queue_configured s"
    and "evtq_level s \<le> evtq_size s"
    and "tbu_b_transport P u ptw down down_dbg attrs t (s, m, d) = (t', s', m', d')"
  shows "d' = d \<and> p_response t' = TLM_COMMAND_ERROR_RESPONSE \<and> evtq_level s' \<le> evtq_size s' \<and>
    (if evtq_level s < evtq_size s then
       evtq_events (peek m') s' = evtq_events (peek m) s @
         [fault_event (p_address t) (p_command t = TLM_READ_COMMAND)
            (fst (request_sid_or_default attrs (tbu_default_sid P u)))] \<and>
       load32 s' ARM_SMMU_GERROR = load32 s ARM_SMMU_GERROR
     else
       m' = m \<and> evtq_events (peek m') s' = evtq_events (peek m) s \<and>
       load32 s' ARM_SMMU_GERROR = load32 s ARM_SMMU_GERROR OR GERROR_EVTQ_ABT_ERR)"
proof -
  obtain sid fb where sid: "request_sid_or_default attrs (tbu_default_sid P u) = (sid, fb)" by fastforce
  have clamp: "clamp_sid sid = sid"
    using sid by (auto simp: request_sid_or_default_def clamp_sid_def and.assoc split: option.splits if_splits)
  define s0 where "s0 = record_tbu_request_sid sid fb s"
  obtain s1 where step: "record_unimplemented_translation_fault P ptw t sid fb (s, m) = (s1, m')"
    and res: "s' = mmu_update_irq P s1" "d' = d" "p_response t' = TLM_COMMAND_ERROR_RESPONSE"
    using assms(2,5) sid
    by (auto simp: tbu_b_transport_def tbu_b_transport_with_sid_def split: prod.splits)
  show ?thesis
  proof (cases "evtq_level s < evtq_size s")
    case True
    then have "\<not> event_queue_full s" using evtq_full_iff[OF assms(3)] by simp
    obtain ok where w: "write_event_record ptw [0x10 OR push_bit 32 (ucast sid),
        (if p_command t = TLM_READ_COMMAND then push_bit 35 1 else 0), p_address t, 0]
        (event_queue_prod_entry_address s) m = (ok, m')"
      and s1: "s1 = mmu_update_irq P (complete_event_queue_write ok s0)"
      using step assms(3) \<open>\<not> event_queue_full s\<close>
      by (auto simp: record_unimplemented_translation_fault_def build_translation_fault_event_def clamp
          s0_def[symmetric] Let_def split: prod.splits) (auto simp: s0_def)
    have ok: ok "peek m' = ram_write (peek m) (event_queue_prod_entry_address s)
        (fault_event (p_address t) (p_command t = TLM_READ_COMMAND) sid)"
      using write_event_record_memory[OF assms(1) _ w] by (simp_all add: fault_event_def event_bytes_def)
    have loads: "load64 s' ARM_SMMU_EVTQ_BASE = load64 s ARM_SMMU_EVTQ_BASE"
      "load32 s' ARM_SMMU_EVTQ_CONS = load32 s ARM_SMMU_EVTQ_CONS"
      "load32 s' ARM_SMMU_EVTQ_PROD = event_queue_next_prod s"
      "load32 s' ARM_SMMU_GERROR = load32 s ARM_SMMU_GERROR"
      using ok(1) by (simp_all add: res(1) s1 complete_loads s0_def)
    show ?thesis
      using evtq_append[OF assms(3) True loads(1-3) _ ok(2)] True res(2,3) loads(4)
      by (simp add: evtq_cong[OF loads(1)] sid)
  next
    case False
    then have full: "event_queue_full s" using evtq_full_iff[OF assms(3)] assms(4) by simp
    then have s1: "s1 = mmu_update_irq P (record_event_queue_abort s0)" "m' = m"
      using step
      by (auto simp: record_unimplemented_translation_fault_def build_translation_fault_event_def clamp
          s0_def Let_def)
    have loads: "load64 s' ARM_SMMU_EVTQ_BASE = load64 s ARM_SMMU_EVTQ_BASE"
      "load32 s' ARM_SMMU_EVTQ_PROD = load32 s ARM_SMMU_EVTQ_PROD"
      "load32 s' ARM_SMMU_EVTQ_CONS = load32 s ARM_SMMU_EVTQ_CONS"
      "load32 s' ARM_SMMU_GERROR = load32 s ARM_SMMU_GERROR OR GERROR_EVTQ_ABT_ERR"
      by (simp_all add: res(1) s1(1) abort_loads) (simp_all add: s0_def)
    show ?thesis
      using False res(2,3) loads(4) s1(2) assms(4) evtq_level_cong[OF loads(1-3)]
      by (simp add: evtq_cong[OF loads(1)])
  qed
qed

text \<open>While the SMMU is disabled, a request is passed to the downstream target unchanged and its answer is
  passed back; while it is enabled no request reaches the target, by debug access either.\<close>

theorem smmu_bypass:
  "(case tbu_b_transport P u ptw down down_dbg attrs t (s, m, d) of (t', s', m', d') \<Rightarrow>
      if smmu_enabled s then d' = d \<and> \<not> is_response_ok t' \<and> \<not> p_dmi_allowed t'
      else (t', d') = down t d \<and> s' = s \<and> m' = m) \<and>
   (case tbu_transport_dbg P u down down_dbg attrs t (s, d) of (got, t', s', d') \<Rightarrow>
      if smmu_enabled s then d' = d \<and> got = 0 \<and> \<not> is_response_ok t'
      else (t', d') = snd (down_dbg t d) \<and> s' = s)"
  by (auto simp: tbu_b_transport_def tbu_b_transport_with_sid_def tbu_transport_dbg_def
      tbu_transport_dbg_with_sid_def forward_bypass_def is_response_ok_def Let_def split: prod.splits)


subsection \<open>Interrupt line and handshakes\<close>

text \<open>The level the line should have.\<close>

definition smmu_irq_spec :: "mmu720ae \<Rightarrow> bool" where
  "smmu_irq_spec s \<longleftrightarrow>
     (bit (load32 s ARM_SMMU_IRQ_CTRL) 0 \<and> load32 s ARM_SMMU_GERROR AND GERROR_ERR_MASK \<noteq> 0) \<or>
     (bit (load32 s ARM_SMMU_IRQ_CTRL) 2 \<and> event_queue_configured s \<and>
      load32 s ARM_SMMU_EVTQ_PROD \<noteq> load32 s ARM_SMMU_EVTQ_CONS)"

lemma core_update_irq_spec: "m_combined_irq (core_update_irq s) = smmu_irq_spec s"
  using and_exp_iff[of "load32 s ARM_SMMU_IRQ_CTRL" 0] and_exp_iff[of "load32 s ARM_SMMU_IRQ_CTRL" 2]
  by (simp add: core_update_irq_def smmu_irq_spec_def event_queue_pending_def Let_def)

lemma mmu_trace_loads [simp]:
  "load32 (mmu_trace_access P s) off = load32 s off" "load64 (mmu_trace_access P s) off = load64 s off"
  by (simp_all add: mmu_trace_access_def load64_def)

lemma irq_line_loads [simp]:
  "load32 (s\<lparr>irq_line := b\<rparr>) off = load32 s off" "load64 (s\<lparr>irq_line := b\<rparr>) off = load64 s off"
  by (simp_all add: load32_def load64_def)

lemma smmu_irq_spec_frame [simp]:
  "smmu_irq_spec (s\<lparr>irq_line := b\<rparr>) = smmu_irq_spec s"
  "smmu_irq_spec (core_update_irq s) = smmu_irq_spec s" "smmu_irq_spec (mmu_update_irq P s) = smmu_irq_spec s"
  "smmu_irq_spec (mmu_trace_access P s) = smmu_irq_spec s"
  by (simp_all add: smmu_irq_spec_def event_queue_configured_def event_queue_enabled_def
      event_queue_log2_entries_def event_queue_base_def)

lemma normalize_low:
  assumes "off + unat len \<le> ARM_SMMU_REG_SZ" and "is_supported_length len"
  shows "normalize_offset (of_nat off) len = Some off"
    and "normalize_offset (of_nat (ARM_SMMU_PAGE1_OFFSET + off)) len = Some off"
proof -
  have o: "off < 0xe00" using assms unat_supported_length[OF assms(2)] by auto
  have u: "unat (of_nat off :: u64) = off" "unat (of_nat (ARM_SMMU_PAGE1_OFFSET + off) :: u64) = ARM_SMMU_PAGE1_OFFSET + off"
    using o by (simp_all add: unat_of_nat_small del: of_nat_add)
  have s: "unat (of_nat off + ucast len :: u64) = off + unat len"
    using assms(1) o u(1) by (subst unat_add_small) simp_all
  have c: "unat (ucast (of_nat off :: u64) :: u32) = off"
    using o by (simp add: unsigned_ucast_eq u take_bit_nat_eq_self)
  have ok: "\<not> of_nat off + ucast len > (of_nat ARM_SMMU_REG_SZ :: u64)"
    using assms(1) s by (simp add: word_less_nat_alt)
  have lo: "\<not> (of_nat off :: u64) \<ge> of_nat ARM_SMMU_PAGE1_OFFSET"
    using o u(1) by (simp add: word_le_nat_alt)
  show "normalize_offset (of_nat off) len = Some off"
    using assms(2) ok lo c by (simp add: normalize_offset_def Let_def)
  have hi: "(of_nat (ARM_SMMU_PAGE1_OFFSET + off) :: u64) \<ge> of_nat ARM_SMMU_PAGE1_OFFSET"
    "(of_nat (ARM_SMMU_PAGE1_OFFSET + off) :: u64) < of_nat (ARM_SMMU_PAGE1_OFFSET + ARM_SMMU_REG_SZ)"
    using o u(2) by (simp_all add: word_le_nat_alt word_less_nat_alt del: of_nat_add)
  have sub: "(of_nat (ARM_SMMU_PAGE1_OFFSET + off) :: u64) - of_nat ARM_SMMU_PAGE1_OFFSET = of_nat off" by simp
  show "normalize_offset (of_nat (ARM_SMMU_PAGE1_OFFSET + off)) len = Some off"
    using assms(2) ok c unfolding normalize_offset_def Let_def by (simp only: hi sub simp_thms if_True) simp
qed

lemma access_registers_word:
  fixes v :: u32
  assumes "off mod 4 = 0" and "off + 4 \<le> ARM_SMMU_REG_SZ"
  shows "\<exists>t'. access_registers P (write_payload (of_nat off) (le_bytes 4 v)) s =
    Some (True, t', mmu_update_irq P (mmu_trace_access P (smmu_write32 off v s)))"
proof -
  have "normalize_offset (of_nat off) 4 = Some off"
    using assms by (intro normalize_low(1)) (simp_all add: is_supported_length_def)
  then show ?thesis using assms by (simp add: access_registers_def core_write_def)
qed

text \<open>After a write to the interrupt control, the error acknowledge or a queue's consumer pointer, and
  after every blocked request, the interrupt line has the level its registers call for.\<close>

theorem smmu_irq_level:
  fixes v :: u32
  assumes "mmu_irq_bound P" and "smmu_enabled s"
    and "off \<in> {ARM_SMMU_IRQ_CTRL, ARM_SMMU_GERRORN, ARM_SMMU_EVTQ_CONS, ARM_SMMU_PRIQ_CONS}"
  shows "(\<exists>t' s'. access_registers P (write_payload (of_nat off) (le_bytes 4 v)) s = Some (True, t', s') \<and>
      irq_line s' = smmu_irq_spec s') \<and>
    (case tbu_b_transport P u ptw down down_dbg attrs t (s, m, d) of (t', s', m', d') \<Rightarrow>
      irq_line s' = smmu_irq_spec s')"
proof
  have al: "off mod 4 = 0" "off + 4 \<le> ARM_SMMU_REG_SZ" using assms(3) by auto
  have "\<exists>w. smmu_write32 off v s = core_update_irq w"
    using assms(3) by (auto simp: smmu_write32_def Let_def)
  then obtain w where w: "smmu_write32 off v s = core_update_irq w" by blast
  obtain t' where "access_registers P (write_payload (of_nat off) (le_bytes 4 v)) s =
    Some (True, t', mmu_update_irq P (mmu_trace_access P (core_update_irq w)))"
    using access_registers_word[OF al, of P v s] w by auto
  moreover have "irq_line (mmu_update_irq P (mmu_trace_access P (core_update_irq w))) = smmu_irq_spec w"
    using assms(1) by (simp add: mmu_update_irq_def mmu_trace_access_def count_trace_def core_update_irq_spec)
  ultimately show "\<exists>t' s'. access_registers P (write_payload (of_nat off) (le_bytes 4 v)) s = Some (True, t', s') \<and>
      irq_line s' = smmu_irq_spec s'" by simp
next
  have ab: "m_combined_irq (record_event_queue_abort w) = smmu_irq_spec (record_event_queue_abort w)" for w
    by (simp add: record_event_queue_abort_def Let_def core_update_irq_spec)
  have co: "m_combined_irq (complete_event_queue_write ok w) = smmu_irq_spec (complete_event_queue_write ok w)" for ok w
    by (cases ok) (simp_all add: complete_event_queue_write_def Let_def core_update_irq_spec ab)
  show "case tbu_b_transport P u ptw down down_dbg attrs t (s, m, d) of (t', s', m', d') \<Rightarrow>
      irq_line s' = smmu_irq_spec s'"
    using assms(1,2)
    by (auto simp: tbu_b_transport_def tbu_b_transport_with_sid_def record_unimplemented_translation_fault_def
        mmu_update_irq_def ab co Let_def split: prod.splits option.splits)
qed

text \<open>The control handshakes: CR0 keeps and acknowledges exactly its implemented bits, the interrupt control
  is acknowledged the same way, and a command queue write is consumed at once and invalidates
  cached translations.\<close>

theorem smmu_handshake:
  fixes v :: u32
  shows "(\<exists>t' s'. access_registers P (write_payload (of_nat ARM_SMMU_CR0) (le_bytes 4 v)) s = Some (True, t', s') \<and>
      load32 s' ARM_SMMU_CR0 = v AND 0xd \<and> load32 s' ARM_SMMU_CR0ACK = v AND 0xd) \<and>
    (\<exists>t' s'. access_registers P (write_payload (of_nat ARM_SMMU_IRQ_CTRL) (le_bytes 4 v)) s = Some (True, t', s') \<and>
      load32 s' ARM_SMMU_IRQ_CTRL = v AND 5 \<and> load32 s' ARM_SMMU_IRQ_CTRLACK = v AND 5) \<and>
    (\<exists>t' s'. access_registers P (write_payload (of_nat ARM_SMMU_CMDQ_PROD) (le_bytes 4 v)) s = Some (True, t', s') \<and>
      load32 s' ARM_SMMU_CMDQ_PROD = v \<and> load32 s' ARM_SMMU_CMDQ_CONS = v \<and>
      m_dmi_generation s' = m_dmi_generation s + 1 \<and> m_cmdq_sync_count s' = m_cmdq_sync_count s + 1)"
proof -
  have tr: "load32 (mmu_trace_access P w) off = load32 w off" "m_dmi_generation (mmu_trace_access P w) = m_dmi_generation w"
    "m_cmdq_sync_count (mmu_trace_access P w) = m_cmdq_sync_count w"
    "m_dmi_generation (mmu_update_irq P w) = m_dmi_generation w" "m_cmdq_sync_count (mmu_update_irq P w) = m_cmdq_sync_count w"
    "load32 (invalidate_cached_translations w) off = load32 w off" "load32 (w\<lparr>m_cmdq_sync_count := c\<rparr>) off = load32 w off"
    "load32 (w\<lparr>m_dmi_generation := c\<rparr>) off = load32 w off"
    for w off c
    by (simp_all add: mmu_trace_access_def count_trace_def mmu_update_irq_def invalidate_cached_translations_def load32_def)
  show ?thesis
    using access_registers_word[of ARM_SMMU_CR0 P v s] access_registers_word[of ARM_SMMU_IRQ_CTRL P v s]
      access_registers_word[of ARM_SMMU_CMDQ_PROD P v s]
    by (auto simp: smmu_write32_def Let_def tr smmu_load32_store32 invalidate_cached_translations_def split: if_splits)
qed

text \<open>The second register page is an alias of the first: every access at an offset of page one has the
  outcome of the same access at the offset of page zero.\<close>

theorem smmu_page1_alias:
  assumes "off + unat len \<le> ARM_SMMU_REG_SZ"
  shows "core_read (of_nat (ARM_SMMU_PAGE1_OFFSET + off)) data len s = core_read (of_nat off) data len s \<and>
    core_write (of_nat (ARM_SMMU_PAGE1_OFFSET + off)) data len s = core_write (of_nat off) data len s"
proof (cases "is_supported_length len")
  case True
  then show ?thesis using normalize_low[OF assms True] by (simp add: core_read_def core_write_def del: of_nat_add)
next
  case False
  then have "normalize_offset a len = None" for a by (simp add: normalize_offset_def)
  then show ?thesis by (simp add: core_read_def core_write_def)
qed


subsection \<open>Witnesses\<close>

text \<open>Events enabled with a queue of eight entries at \<open>0x1000\<close>, its interrupt on, and the SMMU enabled.\<close>

definition queue_smmu :: mmu720ae where
  "queue_smmu = smmu_write32 ARM_SMMU_IRQ_CTRL 4 (smmu_write32 ARM_SMMU_CR0 5
     (smmu_write32 ARM_SMMU_EVTQ_BASE 0x1003 mmu_init))"

lemma load32_mmu_init:
  "off mod 4 = 0 \<Longrightarrow> off + 4 \<le> ARM_SMMU_REG_SZ \<Longrightarrow> load32 mmu_init off =
    (if off = ARM_SMMU_GERRORN then 0x1fd else if off = ARM_SMMU_AIDR then 3
     else if off = ARM_SMMU_IIDR then 0x720ae000 else if off = ARM_SMMU_IDR5 then idr5_value
     else if off = ARM_SMMU_IDR1 then idr1_value else if off = ARM_SMMU_IDR0 then idr0_value else 0)"
  by (simp add: mmu_init_def smmu_reset_def Let_def smmu_load32_store32 load32_cleared)

lemma queue_smmu_loads:
  "load32 queue_smmu ARM_SMMU_CR0ACK = 5" "load32 queue_smmu ARM_SMMU_IRQ_CTRL = 4"
  "load32 queue_smmu ARM_SMMU_EVTQ_PROD = 0" "load32 queue_smmu ARM_SMMU_EVTQ_CONS = 0"
  "load32 queue_smmu ARM_SMMU_GERROR = 0" "load64 queue_smmu ARM_SMMU_EVTQ_BASE = 0x1003"
  by (simp_all add: queue_smmu_def smmu_write32_def Let_def smmu_load32_store32 load32_mmu_init load64_split)

lemma queue_smmu_queue:
  "smmu_enabled queue_smmu" "event_queue_configured queue_smmu" "evtq_level queue_smmu = 0" "evtq_size queue_smmu = 8"
  "\<And>m. evtq_events m queue_smmu = []"
  by (simp_all add: smmu_enabled_def event_queue_configured_def event_queue_enabled_def event_queue_log2_entries_def
      event_queue_base_def evtq_level_def evtq_size_def evtq_pos_def evtq_events_def queue_smmu_loads)

theorem smmu_fault_queue_witness:
  "\<exists>t' s' m'. tbu_b_transport mmu_default_params Tbu_ace1 ram_bus ram_bus (\<lambda>t m. (0, t, m)) None
      (read_payload 0x8000 4) (queue_smmu, \<lambda>_. 0, \<lambda>_. 0) = (t', s', m', \<lambda>_. 0) \<and>
    evtq_events m' s' = [fault_event 0x8000 True 0]"
proof -
  obtain t' s' m' d' where r: "tbu_b_transport mmu_default_params Tbu_ace1 ram_bus ram_bus (\<lambda>t m. (0, t, m)) None
      (read_payload 0x8000 4) (queue_smmu, \<lambda>_. 0, \<lambda>_. 0) = (t', s', m', d')" by (metis prod_cases4)
  from smmu_fault_queue[OF memory_bus_ram queue_smmu_queue(1,2) _ r]
  show ?thesis using r
    by (simp add: queue_smmu_queue request_sid_or_default_def clamp_sid_def mmu_default_params_def)
qed

theorem smmu_irq_level_witness:
  "\<exists>t' s'. access_registers mmu_default_params (write_payload (of_nat ARM_SMMU_EVTQ_CONS) (le_bytes 4 (1 :: u32))) queue_smmu =
     Some (True, t', s') \<and> irq_line s' = smmu_irq_spec s'"
  by (rule smmu_irq_level[THEN conjunct1]) (simp_all add: mmu_default_params_def queue_smmu_queue)

theorem smmu_page1_alias_witness:
  "core_read (of_nat (ARM_SMMU_PAGE1_OFFSET + 4)) (Some [0, 0, 0, 0]) 4 mmu_init =
   core_read (of_nat 4) (Some [0, 0, 0, 0]) 4 mmu_init"
  using smmu_page1_alias[of 4 4 "Some [0, 0, 0, 0]" mmu_init] by simp

text \<open>Disabling the event queue with an interrupt pending leaves the line up: the write to CR0 does not
  update the interrupt, although no register calls for it any more.\<close>

theorem smmu_irq_stale:
  "\<exists>s t' s'. s = mmu_update_irq mmu_default_params (smmu_write32 ARM_SMMU_EVTQ_CONS 1 queue_smmu) \<and>
     irq_line s \<and> smmu_irq_spec s \<and>
     access_registers mmu_default_params (write_payload (of_nat ARM_SMMU_CR0) (le_bytes 4 (0 :: u32))) s = Some (True, t', s') \<and>
     irq_line s' \<and> \<not> smmu_irq_spec s'"
proof -
  define s where "s = mmu_update_irq mmu_default_params (smmu_write32 ARM_SMMU_EVTQ_CONS 1 queue_smmu)"
  have irq: "smmu_irq_spec (smmu_write32 ARM_SMMU_EVTQ_CONS 1 queue_smmu)"
    by (simp add: smmu_write32_def smmu_irq_spec_def smmu_load32_store32 queue_smmu_loads
        event_queue_configured_def event_queue_enabled_def event_queue_log2_entries_def event_queue_base_def
        smmu_load64_store32)
  then have c: "m_combined_irq s" "irq_line s" "smmu_irq_spec s"
    by (simp_all add: s_def mmu_update_irq_def mmu_default_params_def core_update_irq_spec)
      (simp_all add: smmu_write32_def core_update_irq_spec)
  let ?s' = "mmu_update_irq mmu_default_params (mmu_trace_access mmu_default_params (smmu_write32 ARM_SMMU_CR0 0 s))"
  obtain t' where acc: "access_registers mmu_default_params (write_payload (of_nat ARM_SMMU_CR0) (le_bytes 4 (0 :: u32))) s =
      Some (True, t', ?s')"
    using access_registers_word[of ARM_SMMU_CR0 mmu_default_params 0 s] by auto
  have "irq_line ?s'"
    using c by (simp add: mmu_update_irq_def mmu_default_params_def mmu_trace_access_def count_trace_def
        smmu_write32_def invalidate_cached_translations_def)
  moreover have "load32 s ARM_SMMU_GERROR = 0"
    by (simp add: s_def smmu_write32_def smmu_load32_store32 queue_smmu_loads)
  then have "\<not> smmu_irq_spec ?s'"
    by (simp add: smmu_irq_spec_def smmu_write32_def invalidate_cached_translations_def event_queue_configured_def
        event_queue_enabled_def smmu_load32_store32 load32_def[of "_\<lparr>m_dmi_generation := _\<rparr>"])
       (simp add: load32_def[symmetric] smmu_load32_store32)
  ultimately show ?thesis using c(2,3) acc s_def by blast
qed

end
