(* ===== verification/Zena_Ssu.thy ===== *)
theory Zena_Ssu
  imports Word_Window
begin

text \<open>
  The safety status unit \<^verbatim>\<open>zena_ssu\<close> (\<^verbatim>\<open>src/systemc-components/zena_ssu/include/zena_ssu.h\<close>): an
  error record and a system status behind a one-shot key, two fault inputs, and an output that
  follows the system status. The writes to the output socket are kept in the order they happen.
\<close>

subsection \<open>Constants\<close>

abbreviation (input) SSU_REG_BYTES :: nat where "SSU_REG_BYTES \<equiv> 0x1000"
abbreviation (input) ERR_FR :: u32 where "ERR_FR \<equiv> 0x000"
abbreviation (input) ERR_CTRL :: u32 where "ERR_CTRL \<equiv> 0x008"
abbreviation (input) ERR_STATUS :: u32 where "ERR_STATUS \<equiv> 0x010"
abbreviation (input) ERR_IMPDEF :: u32 where "ERR_IMPDEF \<equiv> 0x800"
abbreviation (input) SSU_SYS_KEY :: u32 where "SSU_SYS_KEY \<equiv> 0x804"
abbreviation (input) SYS_STATUS :: u32 where "SYS_STATUS \<equiv> 0x808"
abbreviation (input) SYS_CTRL :: u32 where "SYS_CTRL \<equiv> 0x810"
abbreviation (input) STATUS_DETAIL :: u32 where "STATUS_DETAIL \<equiv> 0x814"
abbreviation (input) SSU_PIDR4 :: u32 where "SSU_PIDR4 \<equiv> 0xfd0"
abbreviation (input) SSU_PIDR0 :: u32 where "SSU_PIDR0 \<equiv> 0xfe0"
abbreviation (input) SSU_PIDR1 :: u32 where "SSU_PIDR1 \<equiv> 0xfe4"
abbreviation (input) SSU_PIDR2 :: u32 where "SSU_PIDR2 \<equiv> 0xfe8"
abbreviation (input) SSU_PIDR3 :: u32 where "SSU_PIDR3 \<equiv> 0xfec"
abbreviation (input) SSU_CIDR0 :: u32 where "SSU_CIDR0 \<equiv> 0xff0"
abbreviation (input) SSU_CIDR1 :: u32 where "SSU_CIDR1 \<equiv> 0xff4"
abbreviation (input) SSU_CIDR2 :: u32 where "SSU_CIDR2 \<equiv> 0xff8"
abbreviation (input) SSU_CIDR3 :: u32 where "SSU_CIDR3 \<equiv> 0xffc"

abbreviation (input) SYS_KEY_VALUE :: u32 where "SYS_KEY_VALUE \<equiv> 0xbe"
abbreviation (input) ERR_FR_RESET :: u32 where "ERR_FR_RESET \<equiv> 0x2"
abbreviation (input) ERR_CTRL_ED :: u32 where "ERR_CTRL_ED \<equiv> 2 ^ 0"
abbreviation (input) ERR_STATUS_SERR_MASK :: u32 where "ERR_STATUS_SERR_MASK \<equiv> 0x000000ff"
abbreviation (input) ERR_STATUS_IERR_MASK :: u32 where "ERR_STATUS_IERR_MASK \<equiv> 0x00001f00"
abbreviation (input) ERR_STATUS_OF :: u32 where "ERR_STATUS_OF \<equiv> 2 ^ 27"
abbreviation (input) ERR_STATUS_V :: u32 where "ERR_STATUS_V \<equiv> 2 ^ 30"
abbreviation (input) ERR_STATUS_W1C_MASK :: u32 where
  "ERR_STATUS_W1C_MASK \<equiv> ERR_STATUS_V OR ERR_STATUS_OF"
abbreviation (input) ERR_STATUS_RW_WHEN_VALID_MASK :: u32 where
  "ERR_STATUS_RW_WHEN_VALID_MASK \<equiv> ERR_STATUS_SERR_MASK OR ERR_STATUS_IERR_MASK"
abbreviation (input) ERR_STATUS_IERR_INC_SEQ :: u32 where "ERR_STATUS_IERR_INC_SEQ \<equiv> 2 ^ 9"
abbreviation (input) ERR_STATUS_IERR_ERR_IN :: u32 where "ERR_STATUS_IERR_ERR_IN \<equiv> 2 ^ 12"
abbreviation (input) ERR_STATUS_SERR_SW :: u32 where "ERR_STATUS_SERR_SW \<equiv> 2 ^ 0"

abbreviation (input) IMPDEF_CR_EN :: u32 where "IMPDEF_CR_EN \<equiv> 2 ^ 0"
abbreviation (input) IMPDEF_NCR_EN :: u32 where "IMPDEF_NCR_EN \<equiv> 2 ^ 1"
abbreviation (input) IMPDEF_APB_SW :: u32 where "IMPDEF_APB_SW \<equiv> 2 ^ 4"
abbreviation (input) IMPDEF_INC_SEQ :: u32 where "IMPDEF_INC_SEQ \<equiv> 2 ^ 5"
abbreviation (input) IMPDEF_APB_PROT :: u32 where "IMPDEF_APB_PROT \<equiv> 2 ^ 6"
abbreviation (input) IMPDEF_RW_MASK :: u32 where
  "IMPDEF_RW_MASK \<equiv>
     IMPDEF_CR_EN OR IMPDEF_NCR_EN OR IMPDEF_APB_SW OR IMPDEF_INC_SEQ OR IMPDEF_APB_PROT"

abbreviation (input) SYS_STATUS_TEST :: u32 where "SYS_STATUS_TEST \<equiv> 2 ^ 0"
abbreviation (input) SYS_STATUS_SAFE :: u32 where "SYS_STATUS_SAFE \<equiv> 2 ^ 1"
abbreviation (input) SYS_STATUS_ERRN :: u32 where "SYS_STATUS_ERRN \<equiv> 2 ^ 2"
abbreviation (input) SYS_STATUS_ERRC :: u32 where "SYS_STATUS_ERRC \<equiv> 2 ^ 3"

subsection \<open>Parameters and state\<close>

text \<open>\<open>ssu_safety_bound\<close> says whether the output socket is bound, \<^verbatim>\<open>safety_status.size() != 0\<close>.\<close>

record ssu_params =
  ssu_p_trace :: bool
  ssu_p_trace_limit :: u32
  ssu_p_enforce_sys_key :: bool
  ssu_p_pidr4 :: u32
  ssu_p_pidr0 :: u32
  ssu_p_pidr1 :: u32
  ssu_p_pidr2 :: u32
  ssu_p_pidr3 :: u32
  ssu_p_cidr0 :: u32
  ssu_p_cidr1 :: u32
  ssu_p_cidr2 :: u32
  ssu_p_cidr3 :: u32
  ssu_safety_bound :: bool

definition ssu_default_params :: ssu_params where
  "ssu_default_params = \<lparr>
     ssu_p_trace = False, ssu_p_trace_limit = 64, ssu_p_enforce_sys_key = True,
     ssu_p_pidr4 = 0x00000004, ssu_p_pidr0 = 0x000000d1, ssu_p_pidr1 = 0x000000b3,
     ssu_p_pidr2 = 0x0000000b, ssu_p_pidr3 = 0x00000000, ssu_p_cidr0 = 0x0000000d,
     ssu_p_cidr1 = 0x000000f0, ssu_p_cidr2 = 0x00000005, ssu_p_cidr3 = 0x000000b1,
     ssu_safety_bound = True\<rparr>"

record zena_ssu =
  m_err_ctrl :: u32
  m_err_status :: u32
  m_err_impdef :: u32
  m_sys_status :: u32
  m_status_detail :: u32
  m_unlocked :: bool
  ssu_trace_count :: u32
  m_safety_status :: bool
  safety_writes :: "bool list"

definition ssu_fields :: zena_ssu where
  "ssu_fields = \<lparr>m_err_ctrl = ERR_CTRL_ED, m_err_status = 0,
     m_err_impdef = IMPDEF_CR_EN OR IMPDEF_APB_SW OR IMPDEF_INC_SEQ OR IMPDEF_APB_PROT,
     m_sys_status = SYS_STATUS_TEST, m_status_detail = 0, m_unlocked = False,
     ssu_trace_count = 0, m_safety_status = False, safety_writes = []\<rparr>"

subsection \<open>The output and the error record\<close>

definition update_output :: "ssu_params \<Rightarrow> zena_ssu \<Rightarrow> zena_ssu" where
  "update_output P s =
     (let value = (m_sys_status s = SYS_STATUS_ERRC \<or> m_sys_status s = SYS_STATUS_ERRN)
      in if value = m_safety_status s then s
         else
           (let s = s\<lparr>m_safety_status := value\<rparr>
            in if ssu_safety_bound P then s\<lparr>safety_writes := safety_writes s @ [m_safety_status s]\<rparr> else s))"

definition ssu_set_sequence_error :: "ssu_params \<Rightarrow> zena_ssu \<Rightarrow> zena_ssu" where
  "ssu_set_sequence_error P s =
     update_output P
       (if m_err_impdef s AND IMPDEF_INC_SEQ \<noteq> 0
        then s\<lparr>m_err_status := m_err_status s OR (ERR_STATUS_V OR ERR_STATUS_IERR_INC_SEQ OR ERR_STATUS_SERR_SW)\<rparr>
        else s)"

definition ssu_require_unlock :: "ssu_params \<Rightarrow> zena_ssu \<Rightarrow> bool \<times> zena_ssu" where
  "ssu_require_unlock P s =
     (if \<not> ssu_p_enforce_sys_key P then (True, s)
      else if m_unlocked s then (True, s\<lparr>m_unlocked := False\<rparr>)
      else (False, ssu_set_sequence_error P s))"

definition set_fault :: "ssu_params \<Rightarrow> bool \<Rightarrow> zena_ssu \<Rightarrow> zena_ssu" where
  "set_fault P critical s =
     (if m_err_ctrl s AND ERR_CTRL_ED = 0 then s
      else if critical \<and> m_err_impdef s AND IMPDEF_CR_EN = 0 then s
      else if \<not> critical \<and> m_err_impdef s AND IMPDEF_NCR_EN = 0 then s
      else update_output P
        (s\<lparr>m_err_status := m_err_status s OR (ERR_STATUS_V OR ERR_STATUS_IERR_ERR_IN OR ERR_STATUS_SERR_SW),
           m_sys_status := if critical then SYS_STATUS_ERRC else SYS_STATUS_ERRN\<rparr>))"

definition ssu_write_status :: "ssu_params \<Rightarrow> u32 \<Rightarrow> zena_ssu \<Rightarrow> zena_ssu" where
  "ssu_write_status P value s =
     (let s = s\<lparr>m_err_status := m_err_status s AND NOT (value AND ERR_STATUS_W1C_MASK)\<rparr>;
          s = (if m_err_status s AND ERR_STATUS_V \<noteq> 0
               then s\<lparr>m_err_status := (m_err_status s AND NOT ERR_STATUS_RW_WHEN_VALID_MASK)
                        OR (value AND ERR_STATUS_RW_WHEN_VALID_MASK)\<rparr>
               else s);
          s = (if m_err_status s AND ERR_STATUS_V = 0 \<and>
                 (m_sys_status s = SYS_STATUS_ERRC \<or> m_sys_status s = SYS_STATUS_ERRN)
               then s\<lparr>m_sys_status := SYS_STATUS_SAFE\<rparr>
               else s)
      in update_output P s)"

definition write_sys_ctrl :: "ssu_params \<Rightarrow> u32 \<Rightarrow> zena_ssu \<Rightarrow> zena_ssu" where
  "write_sys_ctrl P value s =
     (let sel = value AND 0x3
      in update_output P
        (if sel = 0 then s\<lparr>m_sys_status := SYS_STATUS_TEST\<rparr>
         else if sel = 1 then s\<lparr>m_sys_status := SYS_STATUS_SAFE\<rparr>
         else if sel = 2 then s\<lparr>m_sys_status := SYS_STATUS_ERRN\<rparr>
         else if sel = 3 then s\<lparr>m_sys_status := SYS_STATUS_ERRC\<rparr>
         else s))"

subsection \<open>Registers\<close>

definition ssu_pidcid_value :: "ssu_params \<Rightarrow> u32 \<Rightarrow> u32" where
  "ssu_pidcid_value P offset =
     (if offset = SSU_PIDR4 then ssu_p_pidr4 P
      else if offset = SSU_PIDR0 then ssu_p_pidr0 P
      else if offset = SSU_PIDR1 then ssu_p_pidr1 P
      else if offset = SSU_PIDR2 then ssu_p_pidr2 P
      else if offset = SSU_PIDR3 then ssu_p_pidr3 P
      else if offset = SSU_CIDR0 then ssu_p_cidr0 P
      else if offset = SSU_CIDR1 then ssu_p_cidr1 P
      else if offset = SSU_CIDR2 then ssu_p_cidr2 P
      else if offset = SSU_CIDR3 then ssu_p_cidr3 P
      else 0)"

definition ssu_read32 :: "ssu_params \<Rightarrow> u32 \<Rightarrow> zena_ssu \<Rightarrow> u32" where
  "ssu_read32 P offset s =
     (if offset = ERR_FR then ERR_FR_RESET
      else if offset = ERR_CTRL then m_err_ctrl s
      else if offset = ERR_STATUS then m_err_status s
      else if offset = ERR_IMPDEF then m_err_impdef s
      else if offset = SSU_SYS_KEY then (if m_unlocked s then SYS_KEY_VALUE else 0)
      else if offset = SYS_STATUS then m_sys_status s
      else if offset = SYS_CTRL then 0
      else if offset = STATUS_DETAIL then m_status_detail s
      else ssu_pidcid_value P offset)"

definition ssu_write_reg :: "ssu_params \<Rightarrow> u32 \<Rightarrow> u32 \<Rightarrow> zena_ssu \<Rightarrow> zena_ssu" where
  "ssu_write_reg P offset value s =
     (if offset = ERR_CTRL then update_output P (s\<lparr>m_err_ctrl := value AND ERR_CTRL_ED\<rparr>)
      else if offset = ERR_STATUS then ssu_write_status P value s
      else if offset = ERR_IMPDEF then
        update_output P (s\<lparr>m_err_impdef := (m_err_impdef s AND NOT IMPDEF_RW_MASK) OR (value AND IMPDEF_RW_MASK)\<rparr>)
      else if offset = SYS_CTRL then write_sys_ctrl P value s
      else if offset = STATUS_DETAIL then s\<lparr>m_status_detail := value AND 0x0000ffff\<rparr>
      else s)"

definition ssu_write32 :: "ssu_params \<Rightarrow> u32 \<Rightarrow> u32 \<Rightarrow> zena_ssu \<Rightarrow> zena_ssu" where
  "ssu_write32 P offset value s =
     (if offset = SSU_SYS_KEY then
        (let s = s\<lparr>m_unlocked := (value = SYS_KEY_VALUE)\<rparr>
         in if \<not> m_unlocked s then ssu_set_sequence_error P s else s)
      else
        (case ssu_require_unlock P s of
           (False, s) \<Rightarrow> s
         | (True, s) \<Rightarrow> ssu_write_reg P offset value s))"

definition ssu_trace_access :: "ssu_params \<Rightarrow> payload \<Rightarrow> zena_ssu \<Rightarrow> zena_ssu" where
  "ssu_trace_access P t s =
     (if \<not> ssu_p_trace P \<or> ssu_trace_count s \<ge> ssu_p_trace_limit P then s
      else s\<lparr>ssu_trace_count := ssu_trace_count s + 1\<rparr>)"

subsection \<open>Accesses, faults and reset\<close>

definition ssu_access :: "ssu_params \<Rightarrow> payload \<Rightarrow> zena_ssu \<Rightarrow> (bool \<times> payload \<times> zena_ssu) ub" where
  "ssu_access P =
     reg_access SSU_REG_BYTES (word_read (\<lambda>a. ssu_read32 P (ucast a)))
       (word_write (\<lambda>a. ssu_write32 P (ucast a))) (ssu_trace_access P)"

definition ssu_b_transport :: "ssu_params \<Rightarrow> payload \<Rightarrow> zena_ssu \<Rightarrow> (payload \<times> zena_ssu) ub" where
  "ssu_b_transport P = b_transport_of (ssu_access P)"

definition ssu_transport_dbg :: "ssu_params \<Rightarrow> payload \<Rightarrow> zena_ssu \<Rightarrow> (u32 \<times> payload \<times> zena_ssu) ub" where
  "ssu_transport_dbg P = transport_dbg_of (ssu_access P)"

definition critical_in :: "ssu_params \<Rightarrow> bool \<Rightarrow> zena_ssu \<Rightarrow> zena_ssu" where
  "critical_in P value s = (if value then set_fault P True s else s)"

definition non_critical_in :: "ssu_params \<Rightarrow> bool \<Rightarrow> zena_ssu \<Rightarrow> zena_ssu" where
  "non_critical_in P value s = (if value then set_fault P False s else s)"

definition ssu_reset_registers :: "ssu_params \<Rightarrow> zena_ssu \<Rightarrow> zena_ssu" where
  "ssu_reset_registers P s =
     update_output P
       (s\<lparr>m_err_ctrl := ERR_CTRL_ED, m_err_status := 0,
          m_err_impdef := IMPDEF_CR_EN OR IMPDEF_APB_SW OR IMPDEF_INC_SEQ OR IMPDEF_APB_PROT,
          m_sys_status := SYS_STATUS_TEST, m_status_detail := 0, m_unlocked := False,
          m_safety_status := False\<rparr>)"

text \<open>Construction, then \<^verbatim>\<open>before_end_of_elaboration\<close>.\<close>

definition ssu_construct :: "ssu_params \<Rightarrow> zena_ssu" where
  "ssu_construct P = ssu_reset_registers P ssu_fields"

definition ssu_before_end_of_elaboration :: "ssu_params \<Rightarrow> zena_ssu \<Rightarrow> zena_ssu" where
  "ssu_before_end_of_elaboration P s = ssu_reset_registers P s"

definition ssu_init :: "ssu_params \<Rightarrow> zena_ssu" where
  "ssu_init P = ssu_before_end_of_elaboration P (ssu_construct P)"

text \<open>The states a simulation can reach: bus accesses, debug accesses and fault inputs in any order.\<close>

inductive ssu_reachable :: "ssu_params \<Rightarrow> zena_ssu \<Rightarrow> bool" for P where
  start: "ssu_reachable P (ssu_init P)"
| bus: "ssu_reachable P s \<Longrightarrow> ssu_b_transport P t s = Some (t', s') \<Longrightarrow> ssu_reachable P s'"
| debug: "ssu_reachable P s \<Longrightarrow> ssu_transport_dbg P t s = Some (n, t', s') \<Longrightarrow> ssu_reachable P s'"
| critical: "ssu_reachable P s \<Longrightarrow> ssu_reachable P (critical_in P value s)"
| non_critical: "ssu_reachable P s \<Longrightarrow> ssu_reachable P (non_critical_in P value s)"

subsection \<open>The output follows the system status\<close>

text \<open>
  Every operation ends in \<open>update_output\<close> or leaves the system status alone; \<open>ssu_bare\<close> forgets
  the output, so that \<open>update_output\<close> disappears from every statement about the other fields.
\<close>

definition ssu_faulted :: "zena_ssu \<Rightarrow> bool" where
  "ssu_faulted s \<longleftrightarrow> m_sys_status s = SYS_STATUS_ERRC \<or> m_sys_status s = SYS_STATUS_ERRN"

lemma update_output_sel [simp]:
  "m_err_ctrl (update_output P s) = m_err_ctrl s" "m_err_status (update_output P s) = m_err_status s"
  "m_err_impdef (update_output P s) = m_err_impdef s" "m_sys_status (update_output P s) = m_sys_status s"
  "m_status_detail (update_output P s) = m_status_detail s" "m_unlocked (update_output P s) = m_unlocked s"
  "ssu_trace_count (update_output P s) = ssu_trace_count s"
  "m_safety_status (update_output P s) = ssu_faulted s"
  by (auto simp: update_output_def ssu_faulted_def Let_def)

text \<open>The output socket has seen an alternating sequence that starts with a rise and ends with the output.\<close>

definition output_log :: "ssu_params \<Rightarrow> zena_ssu \<Rightarrow> bool" where
  "output_log P s \<longleftrightarrow>
     safety_writes s = map even [0..<length (safety_writes s)] \<and>
     (if ssu_safety_bound P then m_safety_status s = odd (length (safety_writes s))
      else safety_writes s = [])"

lemma output_log_update: "output_log P s \<Longrightarrow> output_log P (update_output P s)"
proof -
  assume log: "output_log P s"
  have snoc: "map even [0..<Suc n] = map even [0..<n] @ [even n]" for n :: nat by simp
  show ?thesis
    using log by (auto simp: output_log_def update_output_def Let_def snoc simp del: upt_Suc)
qed

lemma output_log_fields [simp]:
  "output_log P (s\<lparr>m_err_ctrl := a\<rparr>) = output_log P s" "output_log P (s\<lparr>m_err_status := a\<rparr>) = output_log P s"
  "output_log P (s\<lparr>m_err_impdef := a\<rparr>) = output_log P s" "output_log P (s\<lparr>m_sys_status := a\<rparr>) = output_log P s"
  "output_log P (s\<lparr>m_status_detail := a\<rparr>) = output_log P s" "output_log P (s\<lparr>m_unlocked := b\<rparr>) = output_log P s"
  "output_log P (s\<lparr>ssu_trace_count := a\<rparr>) = output_log P s"
  by (simp_all add: output_log_def)

definition sys_statuses :: "u32 set" where
  "sys_statuses = {SYS_STATUS_TEST, SYS_STATUS_SAFE, SYS_STATUS_ERRN, SYS_STATUS_ERRC}"

lemma sys_statuses_mem [simp]: "1 \<in> sys_statuses" "2 \<in> sys_statuses" "4 \<in> sys_statuses" "8 \<in> sys_statuses"
  by (simp_all add: sys_statuses_def)

text \<open>\<open>ssu_wf\<close> is what holds before the output is updated, \<open>ssu_ok\<close> what holds after it.\<close>

definition ssu_wf :: "ssu_params \<Rightarrow> zena_ssu \<Rightarrow> bool" where
  "ssu_wf P s \<longleftrightarrow> output_log P s \<and> m_sys_status s \<in> sys_statuses \<and>
     m_err_ctrl s AND NOT ERR_CTRL_ED = 0 \<and> m_err_impdef s AND NOT IMPDEF_RW_MASK = 0"

definition ssu_ok :: "ssu_params \<Rightarrow> zena_ssu \<Rightarrow> bool" where
  "ssu_ok P s \<longleftrightarrow> ssu_wf P s \<and> m_safety_status s = ssu_faulted s"

lemma ssu_ok_update [intro]: "ssu_wf P s \<Longrightarrow> ssu_ok P (update_output P s)"
  by (simp add: ssu_ok_def ssu_wf_def output_log_update ssu_faulted_def)

lemma ssu_ok_wf [dest]: "ssu_ok P s \<Longrightarrow> ssu_wf P s"
  by (simp add: ssu_ok_def)

lemma ssu_wf_fields [simp]:
  "ssu_wf P (s\<lparr>m_err_status := a\<rparr>) = ssu_wf P s" "ssu_wf P (s\<lparr>m_status_detail := a\<rparr>) = ssu_wf P s"
  "ssu_wf P (s\<lparr>m_unlocked := b\<rparr>) = ssu_wf P s" "ssu_wf P (s\<lparr>ssu_trace_count := a\<rparr>) = ssu_wf P s"
  by (simp_all add: ssu_wf_def)

lemma ssu_wf_sys [intro]: "ssu_wf P s \<Longrightarrow> x \<in> sys_statuses \<Longrightarrow> ssu_wf P (s\<lparr>m_sys_status := x\<rparr>)"
  by (simp add: ssu_wf_def)

lemma ssu_ok_fields [simp]:
  "ssu_ok P (s\<lparr>m_err_status := a\<rparr>) = ssu_ok P s" "ssu_ok P (s\<lparr>m_status_detail := a\<rparr>) = ssu_ok P s"
  "ssu_ok P (s\<lparr>m_unlocked := b\<rparr>) = ssu_ok P s" "ssu_ok P (s\<lparr>ssu_trace_count := a\<rparr>) = ssu_ok P s"
  by (simp_all add: ssu_ok_def ssu_faulted_def)

lemma ssu_sequence_error_ok: "ssu_wf P s \<Longrightarrow> ssu_ok P (ssu_set_sequence_error P s)"
  unfolding ssu_set_sequence_error_def by (rule ssu_ok_update) simp

lemma set_fault_ok: "ssu_ok P s \<Longrightarrow> ssu_ok P (set_fault P c s)"
  by (auto simp: set_fault_def intro!: ssu_ok_update ssu_wf_sys)

lemma write_status_ok: "ssu_ok P s \<Longrightarrow> ssu_ok P (ssu_write_status P v s)"
  unfolding ssu_write_status_def Let_def by (rule ssu_ok_update) (auto intro!: ssu_wf_sys)

lemma write_sys_ctrl_ok: "ssu_ok P s \<Longrightarrow> ssu_ok P (write_sys_ctrl P v s)"
  unfolding write_sys_ctrl_def Let_def by (rule ssu_ok_update) auto

lemma ssu_write_reg_ok: "ssu_ok P s \<Longrightarrow> ssu_ok P (ssu_write_reg P off v s)"
proof -
  assume ok: "ssu_ok P s"
  have "ssu_wf P (s\<lparr>m_err_ctrl := v AND ERR_CTRL_ED\<rparr>)"
    using ok unfolding ssu_wf_def ssu_ok_def by (simp add: and.assoc)
  moreover have "ssu_wf P (s\<lparr>m_err_impdef := (m_err_impdef s AND NOT IMPDEF_RW_MASK) OR (v AND IMPDEF_RW_MASK)\<rparr>)"
    using ok masked_update[of "m_err_impdef s" IMPDEF_RW_MASK v] unfolding ssu_wf_def ssu_ok_def by simp
  ultimately show ?thesis
    unfolding ssu_write_reg_def using ok by (simp add: ssu_ok_update write_status_ok write_sys_ctrl_ok)
qed

lemma ssu_write32_ok: "ssu_ok P s \<Longrightarrow> ssu_ok P (ssu_write32 P off v s)"
  by (auto simp: ssu_write32_def ssu_require_unlock_def Let_def ssu_sequence_error_ok ssu_write_reg_ok)

lemma ssu_trace_ok [simp]: "ssu_ok P (ssu_trace_access P t s) = ssu_ok P s"
  by (simp add: ssu_trace_access_def)

interpretation ssu: word_window SSU_REG_BYTES "\<lambda>a. ssu_read32 P (ucast a)" "\<lambda>a. ssu_write32 P (ucast a)"
    "ssu_trace_access P" "ssu_ok P"
  for P
  by unfold_locales (simp_all add: ssu_write32_ok)

lemma ssu_init_ok: "ssu_ok P (ssu_init P)"
proof -
  have "ssu_ok P (ssu_reset_registers P s)" if "safety_writes s = []" for s
    unfolding ssu_reset_registers_def
    by (rule ssu_ok_update) (simp add: ssu_wf_def output_log_def that)
  moreover have "safety_writes (ssu_construct P) = []"
    by (simp add: ssu_construct_def ssu_reset_registers_def ssu_fields_def update_output_def)
  ultimately show ?thesis by (simp add: ssu_init_def ssu_before_end_of_elaboration_def)
qed

lemma ssu_b_transport_eq:
  "ssu_b_transport P t s = Some (t', s') \<longleftrightarrow> (\<exists>ok. ssu_access P (t\<lparr>p_dmi_allowed := False\<rparr>) s = Some (ok, t', s'))"
  by (auto simp: ssu_b_transport_def b_transport_of_def bind_eq_Some_conv)

lemma ssu_access_ok: "ssu_access P t s = Some (ok, t', s') \<Longrightarrow> ssu_ok P s \<Longrightarrow> ssu_ok P s'"
  unfolding ssu_access_def by (rule ssu.access_inv)

lemma ssu_reachable_ok: "ssu_reachable P s \<Longrightarrow> ssu_ok P s"
proof (induction rule: ssu_reachable.induct)
  case (bus s t t' s')
  then show ?case by (auto simp: ssu_b_transport_eq intro: ssu_access_ok)
next
  case (debug s t n t' s')
  then show ?case
    by (auto simp: ssu_transport_dbg_def transport_dbg_of_def bind_eq_Some_conv intro: ssu_access_ok)
qed (simp_all add: ssu_init_ok critical_in_def non_critical_in_def set_fault_ok)

subsection \<open>The key\<close>

lemma update_output_ok [simp]: "ssu_ok P s \<Longrightarrow> update_output P s = s"
  by (auto simp: ssu_ok_def ssu_faulted_def update_output_def)

text \<open>What a sequence error leaves in ERR_STATUS.\<close>

definition sequence_status :: "zena_ssu \<Rightarrow> u32" where
  "sequence_status s =
     (if m_err_impdef s AND IMPDEF_INC_SEQ \<noteq> 0
      then m_err_status s OR (ERR_STATUS_V OR ERR_STATUS_IERR_INC_SEQ OR ERR_STATUS_SERR_SW)
      else m_err_status s)"

lemma sequence_error_eq: "ssu_ok P s \<Longrightarrow> ssu_set_sequence_error P s = s\<lparr>m_err_status := sequence_status s\<rparr>"
  by (simp add: ssu_set_sequence_error_def sequence_status_def)

lemma ssu_trace_eq: "\<exists>n. ssu_trace_access P t s = s\<lparr>ssu_trace_count := n\<rparr>"
proof (cases "\<not> ssu_p_trace P \<or> ssu_trace_count s \<ge> ssu_p_trace_limit P")
  case True
  then have "ssu_trace_access P t s = s\<lparr>ssu_trace_count := ssu_trace_count s\<rparr>"
    by (simp add: ssu_trace_access_def)
  then show ?thesis by blast
qed (auto simp: ssu_trace_access_def)

lemma locked_write32:
  assumes "ssu_ok P s" and "ssu_p_enforce_sys_key P" and "\<not> m_unlocked s" and "off \<noteq> SSU_SYS_KEY"
  shows "ssu_write32 P off v s = s\<lparr>m_err_status := sequence_status s\<rparr>"
  using assms by (simp add: ssu_write32_def ssu_require_unlock_def sequence_error_eq)

lemma update_output_unlocked: "m_unlocked (ssu_write_reg P off v s) = m_unlocked s"
  by (simp add: ssu_write_reg_def ssu_write_status_def write_sys_ctrl_def Let_def)

lemma write32_relocks:
  assumes "ssu_p_enforce_sys_key P" and "off \<noteq> SSU_SYS_KEY"
  shows "\<not> m_unlocked (ssu_write32 P off v s)"
  using assms by (simp add: ssu_write32_def ssu_require_unlock_def update_output_unlocked ssu_set_sequence_error_def)

lemma ssu_locked_access:
  assumes "ssu_ok P s" and "ssu_p_enforce_sys_key P" and "\<not> m_unlocked s"
    and "ucast (p_address t) \<noteq> (SSU_SYS_KEY :: u32)" and "ssu_access P t s = Some (ok, t', s')"
  obtains e n where "s' = s\<lparr>m_err_status := e, ssu_trace_count := n\<rparr>" "e = m_err_status s \<or> e = sequence_status s"
proof (cases ok)
  case True
  have id: "s\<lparr>ssu_trace_count := n\<rparr> = s\<lparr>m_err_status := m_err_status s, ssu_trace_count := n\<rparr>" for n by simp
  from assms(5) True have "ssu_access P t s = Some (True, t', s')" by simp
  then show ?thesis
    unfolding ssu_access_def
  proof (cases rule: ssu.access_cases)
    case (read t1)
    then show ?thesis using ssu_trace_eq[of P t1 s] id that by metis
  next
    case (word v)
    then show ?thesis
      using ssu_trace_eq[of P t "s\<lparr>m_err_status := sequence_status s\<rparr>"] that
      by (auto simp: locked_write32[OF assms(1-4)])
  next
    case ignored
    then show ?thesis using ssu_trace_eq[of P t s] id that by metis
  qed
next
  case False
  then have "s' = s" using assms(5) ssu.access_refused[of P t s t' s'] unfolding ssu_access_def by simp
  then have "s' = s\<lparr>m_err_status := m_err_status s, ssu_trace_count := ssu_trace_count s\<rparr>" by simp
  then show ?thesis using that by blast
qed

text \<open>An aligned word write from the bus.\<close>

lemma ssu_bus_write:
  assumes "unat a + 4 \<le> SSU_REG_BYTES" and "is_aligned32 a"
  shows "\<exists>t' n. ssu_b_transport P (write_payload a (le_bytes 4 v)) s =
    Some (t', (ssu_write32 P (ucast a) v s)\<lparr>ssu_trace_count := n\<rparr>)"
proof -
  have "(write_payload a (le_bytes 4 v))\<lparr>p_dmi_allowed := False\<rparr> = write_payload a (le_bytes 4 v)"
    by (simp add: write_payload_def)
  then show ?thesis
    using ssu.access_word_write[OF assms, of P v s] ssu_trace_eq[of P "write_payload a (le_bytes 4 v)" "ssu_write32 P (ucast a) v s"]
    by (auto simp: ssu_b_transport_def b_transport_of_def ssu_access_def)
qed

lemma ssu_word_write:
  assumes "ssu_b_transport P (write_payload a (le_bytes 4 v)) s = Some (t', s')"
    and "unat a + 4 \<le> SSU_REG_BYTES" and "is_aligned32 a"
  obtains n where "s' = (ssu_write32 P (ucast a) v s)\<lparr>ssu_trace_count := n\<rparr>"
  using ssu_bus_write[OF assms(2,3), of P v s] assms(1) by auto



subsection \<open>Faults\<close>

lemma write_status_clears:
  assumes "ssu_faulted s" and "v AND ERR_STATUS_V \<noteq> 0"
  shows "ssu_write_status P v s =
    update_output P (s\<lparr>m_err_status := m_err_status s AND NOT (v AND ERR_STATUS_W1C_MASK), m_sys_status := SYS_STATUS_SAFE\<rparr>)"
proof -
  have "bit v 30" using assms(2) unfolding and_exp_iff by simp
  then have "(m_err_status s AND NOT (v AND ERR_STATUS_W1C_MASK)) AND ERR_STATUS_V = 0"
    by (rule w1c_clears)
  then show ?thesis
    using assms(1) by (simp add: ssu_write_status_def ssu_faulted_def Let_def)
qed

text \<open>
  A fault life cycle: an enabled fault input raises the output, sets the status for its
  severity and marks the error record valid; after the key, writing the valid bit of ERR_STATUS
  makes the system safe again and lowers the output. The output socket sees exactly the rise (when
  the output was low) and the fall.
\<close>

theorem ssu_fault_cycle:
  assumes "ssu_reachable P s" and "m_err_ctrl s AND ERR_CTRL_ED \<noteq> 0"
    and "m_err_impdef s AND (if c then IMPDEF_CR_EN else IMPDEF_NCR_EN) \<noteq> 0"
    and "s1 = (if c then critical_in P True s else non_critical_in P True s)"
    and "ssu_b_transport P (write_payload 0x804 (le_bytes 4 SYS_KEY_VALUE)) s1 = Some (t2, s2)"
    and "ssu_b_transport P (write_payload 0x010 (le_bytes 4 (v :: u32))) s2 = Some (t3, s3)"
    and "v AND ERR_STATUS_V \<noteq> 0"
  shows "m_safety_status s1 \<and> m_sys_status s1 = (if c then SYS_STATUS_ERRC else SYS_STATUS_ERRN) \<and>
    m_err_status s1 AND ERR_STATUS_V \<noteq> 0 \<and>
    \<not> m_safety_status s3 \<and> m_sys_status s3 = SYS_STATUS_SAFE \<and> m_err_status s3 AND ERR_STATUS_V = 0 \<and>
    safety_writes s3 = safety_writes s @
      (if ssu_safety_bound P then (if m_safety_status s then [] else [True]) @ [False] else [])"
proof -
  let ?st = "m_err_status s OR (ERR_STATUS_V OR ERR_STATUS_IERR_ERR_IN OR ERR_STATUS_SERR_SW)"
  let ?w = "if ssu_safety_bound P \<and> \<not> m_safety_status s then safety_writes s @ [True] else safety_writes s"
  have s1: "s1 = s\<lparr>m_err_status := ?st, m_sys_status := if c then SYS_STATUS_ERRC else SYS_STATUS_ERRN,
      m_safety_status := True, safety_writes := ?w\<rparr>"
    using assms(2-4) by (auto simp: critical_in_def non_critical_in_def set_fault_def update_output_def Let_def)
  obtain n2 where s2: "s2 = s1\<lparr>m_unlocked := True, ssu_trace_count := n2\<rparr>"
    using ssu_word_write[OF assms(5)] by (auto simp: is_aligned32_def ssu_write32_def)
  have faulted: "ssu_faulted (s2\<lparr>m_unlocked := b\<rparr>)" for b by (simp add: ssu_faulted_def s1 s2)
  obtain n3 where s3: "s3 = (ssu_write_status P v (s2\<lparr>m_unlocked := \<not> ssu_p_enforce_sys_key P\<rparr>))\<lparr>ssu_trace_count := n3\<rparr>"
  proof -
    from ssu_word_write[OF assms(6)] obtain n3 where "s3 = (ssu_write32 P 0x010 v s2)\<lparr>ssu_trace_count := n3\<rparr>"
      by (auto simp: is_aligned32_def)
    moreover have id: "s2\<lparr>m_unlocked := True\<rparr> = s2" and u: "m_unlocked s2" by (simp_all add: s2)
    have "ssu_write32 P 0x010 v s2 = ssu_write_status P v (s2\<lparr>m_unlocked := \<not> ssu_p_enforce_sys_key P\<rparr>)"
      by (cases "ssu_p_enforce_sys_key P") (simp_all add: ssu_write32_def ssu_require_unlock_def ssu_write_reg_def id u)
    ultimately show ?thesis using that by simp
  qed
  have "(m_err_status s2 AND NOT (v AND ERR_STATUS_W1C_MASK)) AND ERR_STATUS_V = 0"
    using assms(7) unfolding and_exp_iff[of v] by (intro w1c_clears) simp
  moreover have "m_err_status s1 AND ERR_STATUS_V \<noteq> 0"
    unfolding and_exp_iff s1 by (simp add: bit_or_mask bit_exp_iff del: or_numerals)
  ultimately show ?thesis
    unfolding s3 write_status_clears[OF faulted assms(7)]
    by (simp add: s2 s1 update_output_def Let_def ssu_faulted_def)
qed

theorem ssu_fault_cycle_witness:
  "\<exists>t2 s2 t3 s3.
     ssu_b_transport ssu_default_params (write_payload 0x804 (le_bytes 4 SYS_KEY_VALUE))
       (critical_in ssu_default_params True (ssu_init ssu_default_params)) = Some (t2, s2) \<and>
     ssu_b_transport ssu_default_params (write_payload 0x010 (le_bytes 4 (0x40000000 :: u32))) s2 = Some (t3, s3) \<and>
     m_sys_status s3 = SYS_STATUS_SAFE \<and> safety_writes s3 = [True, False]"
proof -
  let ?P = ssu_default_params
  obtain t2 s2 where w1: "ssu_b_transport ?P (write_payload 0x804 (le_bytes 4 SYS_KEY_VALUE))
      (critical_in ?P True (ssu_init ?P)) = Some (t2, s2)"
    using ssu_bus_write[of "0x804"] by (fastforce simp: is_aligned32_def)
  obtain t3 s3 where w2: "ssu_b_transport ?P (write_payload 0x010 (le_bytes 4 (0x40000000 :: u32))) s2 = Some (t3, s3)"
    using ssu_bus_write[of "0x010"] by (fastforce simp: is_aligned32_def)
  have init: "m_err_ctrl (ssu_init ?P) = 1" "m_err_impdef (ssu_init ?P) = 0x71"
    "safety_writes (ssu_init ?P) = []" "\<not> m_safety_status (ssu_init ?P)" "ssu_safety_bound ?P"
    by (simp_all add: ssu_init_def ssu_before_end_of_elaboration_def ssu_construct_def ssu_reset_registers_def
        ssu_fields_def update_output_def Let_def ssu_default_params_def)
  have "m_sys_status s3 = SYS_STATUS_SAFE \<and> safety_writes s3 = safety_writes (ssu_init ?P) @
      (if ssu_safety_bound ?P then (if m_safety_status (ssu_init ?P) then [] else [True]) @ [False] else [])"
    using ssu_fault_cycle[where c = True, OF ssu_reachable.start _ _ refl _ w2] w1 init by simp
  then have "m_sys_status s3 = SYS_STATUS_SAFE \<and> safety_writes s3 = [True, False]" by (simp add: init)
  with w1 w2 show ?thesis by blast
qed

text \<open>
  In every reachable state the output is high exactly in the two error states, the system is in
  one of its four states, and the output socket has seen an alternating sequence of values that
  starts with a rise and ends with the present output: no redundant and no lost write.
\<close>

theorem ssu_output_follows:
  assumes "ssu_reachable P s"
  shows "(m_safety_status s \<longleftrightarrow> m_sys_status s \<in> {SYS_STATUS_ERRN, SYS_STATUS_ERRC}) \<and>
    m_sys_status s \<in> {SYS_STATUS_TEST, SYS_STATUS_SAFE, SYS_STATUS_ERRN, SYS_STATUS_ERRC} \<and>
    safety_writes s = map even [0..<length (safety_writes s)] \<and>
    (if ssu_safety_bound P then m_safety_status s = odd (length (safety_writes s)) else safety_writes s = [])"
  using ssu_reachable_ok[OF assms]
  unfolding ssu_ok_def ssu_wf_def ssu_faulted_def sys_statuses_def output_log_def by auto

theorem ssu_output_follows_witness:
  "m_safety_status (critical_in ssu_default_params True (ssu_init ssu_default_params)) \<longleftrightarrow>
   m_sys_status (critical_in ssu_default_params True (ssu_init ssu_default_params)) \<in> {SYS_STATUS_ERRN, SYS_STATUS_ERRC}"
  using ssu_output_follows[OF ssu_reachable.critical[OF ssu_reachable.start], of ssu_default_params True] by blast

text \<open>
  A granted read of any supported width and alignment returns, byte by byte, the addressed
  bytes of the 32-bit registers, and changes nothing but the trace counter.
\<close>

theorem ssu_read_bytes:
  assumes "ssu_b_transport P t s = Some (t', s')" and "p_command t = TLM_READ_COMMAND" and "is_response_ok t'"
  shows "\<exists>buf n. p_data t = Some buf \<and> s' = s\<lparr>ssu_trace_count := n\<rparr> \<and>
    p_data t' = Some (map (\<lambda>i. le_bytes 4 (ssu_read32 P (ucast ((p_address t + of_nat i) AND NOT 3)) s)
      ! unat ((p_address t + of_nat i) AND 3)) [0..<unat (p_len t)] @ drop (unat (p_len t)) buf)"
proof -
  obtain ok where acc: "ssu_access P (t\<lparr>p_dmi_allowed := False\<rparr>) s = Some (ok, t', s')"
    using assms(1) by (auto simp: ssu_b_transport_eq)
  then have "ok" using assms(3) ssu.access_response unfolding ssu_access_def by blast
  with acc have "ssu_access P (t\<lparr>p_dmi_allowed := False\<rparr>) s = Some (True, t', s')" by simp
  from ssu.access_bytes[OF this[unfolded ssu_access_def]] assms(2) obtain buf where
    buf: "p_data t = Some buf" and s': "s' = ssu_trace_access P (t\<lparr>p_dmi_allowed := False, p_data := p_data t'\<rparr>) s"
    and bytes: "p_data t' = Some (map (\<lambda>i. le_bytes 4 (ssu_read32 P (ucast ((p_address t + of_nat i) AND NOT 3)) s)
      ! unat ((p_address t + of_nat i) AND 3)) [0..<unat (p_len t)] @ drop (unat (p_len t)) buf)"
    by auto
  obtain n where "s' = s\<lparr>ssu_trace_count := n\<rparr>" unfolding s' using ssu_trace_eq by blast
  with buf bytes show ?thesis by blast
qed

theorem ssu_read_bytes_witness:
  "\<exists>t' s'. ssu_b_transport ssu_default_params (read_payload 0x7fe 4) (ssu_init ssu_default_params) = Some (t', s') \<and>
    p_data t' = Some [0, 0, 0x71, 0]"
proof -
  let ?P = ssu_default_params
  have impdef: "m_err_impdef (ssu_init ?P) = 0x71"
    by (simp add: ssu_init_def ssu_before_end_of_elaboration_def ssu_construct_def ssu_reset_registers_def ssu_fields_def)
  have t: "(read_payload 0x7fe 4)\<lparr>p_dmi_allowed := False\<rparr> = read_payload 0x7fe 4" by (simp add: read_payload_def)
  have "wf_payload (read_payload 0x7fe 4)" "in_block SSU_REG_BYTES (read_payload 0x7fe 4)"
    by (simp_all add: wf_payload_def in_block_def is_supported_length_def)
  then obtain t' s' where "ssu_access ?P (read_payload 0x7fe 4) (ssu_init ?P) = Some (True, t', s')" and ok: "is_response_ok t'"
    using ssu.access_grants unfolding ssu_access_def by (metis payload_sel(5) tlm_command.distinct(3))
  then have run: "ssu_b_transport ?P (read_payload 0x7fe 4) (ssu_init ?P) = Some (t', s')"
    unfolding ssu_b_transport_eq t by blast
  have "p_data t' = Some (map (\<lambda>i. le_bytes 4 (ssu_read32 ?P (ucast ((0x7fe + of_nat i :: u64) AND NOT 3)) (ssu_init ?P))
      ! unat ((0x7fe + of_nat i :: u64) AND 3)) [0..<4])"
    using ssu_read_bytes[OF run _ ok] by auto
  also have "\<dots> = Some [0, 0, 0x71, 0]"
    by (simp add: upt_rec ssu_read32_def ssu_pidcid_value_def impdef le_bytes_4)
  finally show ?thesis using run by blast
qed

text \<open>The unit keeps only the last severity: a non-critical fault replaces a pending critical one.\<close>

lemma ssu_non_critical_replaces:
  assumes "m_err_ctrl s AND ERR_CTRL_ED \<noteq> 0" and "m_err_impdef s AND IMPDEF_NCR_EN \<noteq> 0"
    and "m_sys_status s = SYS_STATUS_ERRC"
  shows "m_sys_status (non_critical_in P True s) = SYS_STATUS_ERRN"
  using assms by (simp add: non_critical_in_def set_fault_def)

end
