(* ===== verification/Zena_Fmu.thy ===== *)
theory Zena_Fmu
  imports Word_Window
begin

text \<open>
  The fault management unit \<^verbatim>\<open>zena_fmu\<close> (\<^verbatim>\<open>src/systemc-components/zena_fmu/include/zena_fmu.h\<close>): up
  to eight banks of up to 384 error records behind a one-shot key per bank, group status words,
  and two interrupt lines computed from all records. Each line is written to two sockets; the
  writes are kept in the order they happen.
\<close>

subsection \<open>Constants\<close>

abbreviation (input) MAX_BANKS :: nat where "MAX_BANKS \<equiv> 8"
abbreviation (input) MAX_RECORDS :: nat where "MAX_RECORDS \<equiv> 384"
abbreviation (input) BANK_BYTES :: u64 where "BANK_BYTES \<equiv> 0x10000"
abbreviation (input) RECORD_STRIDE :: nat where "RECORD_STRIDE \<equiv> 0x40"
abbreviation (input) RECORD_SPACE_BYTES :: nat where "RECORD_SPACE_BYTES \<equiv> 0x6000"
abbreviation (input) ERR_FR_OFFSET :: nat where "ERR_FR_OFFSET \<equiv> 0x0000"
abbreviation (input) ERR_CTLR_OFFSET :: nat where "ERR_CTLR_OFFSET \<equiv> 0x0008"
abbreviation (input) ERR_STATUS_OFFSET :: nat where "ERR_STATUS_OFFSET \<equiv> 0x0010"
abbreviation (input) ERR_IMPDEF_BASE :: nat where "ERR_IMPDEF_BASE \<equiv> 0x8000"
abbreviation (input) ERR_IMPDEF_STRIDE :: nat where "ERR_IMPDEF_STRIDE \<equiv> 0x8"
abbreviation (input) FMU_SYS_KEY :: nat where "FMU_SYS_KEY \<equiv> 0x8bfc"
abbreviation (input) ERRGSR_LOW_BASE :: nat where "ERRGSR_LOW_BASE \<equiv> 0xe000"
abbreviation (input) ERRGSR_HIGH_BASE :: nat where "ERRGSR_HIGH_BASE \<equiv> 0xe004"
abbreviation (input) ERRGSR_STRIDE :: nat where "ERRGSR_STRIDE \<equiv> 0x8"
abbreviation (input) FMU_PIDR4 :: nat where "FMU_PIDR4 \<equiv> 0xffd0"
abbreviation (input) FMU_PIDR0 :: nat where "FMU_PIDR0 \<equiv> 0xffe0"
abbreviation (input) FMU_PIDR1 :: nat where "FMU_PIDR1 \<equiv> 0xffe4"
abbreviation (input) FMU_PIDR2 :: nat where "FMU_PIDR2 \<equiv> 0xffe8"
abbreviation (input) FMU_PIDR3 :: nat where "FMU_PIDR3 \<equiv> 0xffec"
abbreviation (input) FMU_CIDR0 :: nat where "FMU_CIDR0 \<equiv> 0xfff0"
abbreviation (input) FMU_CIDR1 :: nat where "FMU_CIDR1 \<equiv> 0xfff4"
abbreviation (input) FMU_CIDR2 :: nat where "FMU_CIDR2 \<equiv> 0xfff8"
abbreviation (input) FMU_CIDR3 :: nat where "FMU_CIDR3 \<equiv> 0xfffc"

abbreviation (input) FMU_SYS_KEY_VALUE :: u32 where "FMU_SYS_KEY_VALUE \<equiv> 0xbe"
abbreviation (input) CTLR_ED :: u32 where "CTLR_ED \<equiv> 2 ^ 0"
abbreviation (input) CTLR_FI :: u32 where "CTLR_FI \<equiv> 2 ^ 3"
abbreviation (input) CTLR_UE :: u32 where "CTLR_UE \<equiv> 2 ^ 4"
abbreviation (input) CTLR_CFI :: u32 where "CTLR_CFI \<equiv> 2 ^ 8"
abbreviation (input) CTLR_CI :: u32 where "CTLR_CI \<equiv> 2 ^ 13"
abbreviation (input) CTLR_RW_MASK :: u32 where
  "CTLR_RW_MASK \<equiv> CTLR_ED OR CTLR_FI OR CTLR_UE OR CTLR_CFI OR CTLR_CI"
abbreviation (input) STATUS_SERR_MASK :: u32 where "STATUS_SERR_MASK \<equiv> 0x000000ff"
abbreviation (input) STATUS_IERR_MASK :: u32 where "STATUS_IERR_MASK \<equiv> 0x00001f00"
abbreviation (input) STATUS_CI :: u32 where "STATUS_CI \<equiv> 2 ^ 19"
abbreviation (input) STATUS_CE_MASK :: u32 where "STATUS_CE_MASK \<equiv> 0x03000000"
abbreviation (input) STATUS_OF :: u32 where "STATUS_OF \<equiv> 2 ^ 27"
abbreviation (input) STATUS_UE :: u32 where "STATUS_UE \<equiv> 2 ^ 29"
abbreviation (input) STATUS_V :: u32 where "STATUS_V \<equiv> 2 ^ 30"
abbreviation (input) STATUS_RW_WHEN_VALID_MASK :: u32 where
  "STATUS_RW_WHEN_VALID_MASK \<equiv> STATUS_SERR_MASK OR STATUS_IERR_MASK"
abbreviation (input) STATUS_W1C_MASK :: u32 where
  "STATUS_W1C_MASK \<equiv> STATUS_V OR STATUS_UE OR STATUS_OF OR STATUS_CE_MASK OR STATUS_CI"
abbreviation (input) STATUS_IERR_INC_SEQ :: u32 where "STATUS_IERR_INC_SEQ \<equiv> 2 ^ 9"
abbreviation (input) STATUS_IERR_ERR_IN :: u32 where "STATUS_IERR_ERR_IN \<equiv> 2 ^ 12"
abbreviation (input) STATUS_SERR_SW :: u32 where "STATUS_SERR_SW \<equiv> 2 ^ 0"
abbreviation (input) IMPDEF_UE :: u32 where "IMPDEF_UE \<equiv> 2 ^ 0"
abbreviation (input) IMPDEF_DE_MASK :: u32 where "IMPDEF_DE_MASK \<equiv> 0x000001f0"
abbreviation (input) IMPDEF_IE_MASK :: u32 where "IMPDEF_IE_MASK \<equiv> 0x00003e00"
abbreviation (input) IMPDEF_IC_MASK :: u32 where "IMPDEF_IC_MASK \<equiv> 0x0000000c"
abbreviation (input) IMPDEF_STORED_MASK :: u32 where "IMPDEF_STORED_MASK \<equiv> 0xffff01f1"

subsection \<open>Parameters and state\<close>

text \<open>The \<open>_bound\<close> fields say which output sockets are bound, \<^verbatim>\<open>size() != 0\<close>.\<close>

record fmu_params =
  fmu_p_trace :: bool
  fmu_p_trace_limit :: u32
  fmu_p_enforce_sys_key :: bool
  fmu_p_bank_count :: u32
  fmu_p_record_count :: u32
  fmu_p_critical_mask :: u64
  fmu_p_non_critical_mask :: u64
  fmu_p_default_ctlr :: u32
  fmu_p_pidr4 :: u32
  fmu_p_pidr0 :: u32
  fmu_p_pidr1 :: u32
  fmu_p_pidr2 :: u32
  fmu_p_pidr3 :: u32
  fmu_p_cidr0 :: u32
  fmu_p_cidr1 :: u32
  fmu_p_cidr2 :: u32
  fmu_p_cidr3 :: u32
  critical_irq_bound :: bool
  critical_ssu_bound :: bool
  non_critical_irq_bound :: bool
  non_critical_ssu_bound :: bool

definition fmu_default_params :: fmu_params where
  "fmu_default_params = \<lparr>
     fmu_p_trace = False, fmu_p_trace_limit = 64, fmu_p_enforce_sys_key = True,
     fmu_p_bank_count = 5, fmu_p_record_count = 384, fmu_p_critical_mask = 0x1,
     fmu_p_non_critical_mask = NOT 0x1,
     fmu_p_default_ctlr = CTLR_ED OR CTLR_FI OR CTLR_UE OR CTLR_CFI OR CTLR_CI,
     fmu_p_pidr4 = 0x00000004, fmu_p_pidr0 = 0x000000d0, fmu_p_pidr1 = 0x000000b3,
     fmu_p_pidr2 = 0x0000000b, fmu_p_pidr3 = 0x00000000, fmu_p_cidr0 = 0x0000000d,
     fmu_p_cidr1 = 0x000000f0, fmu_p_cidr2 = 0x00000005, fmu_p_cidr3 = 0x000000b1,
     critical_irq_bound = True, critical_ssu_bound = True,
     non_critical_irq_bound = True, non_critical_ssu_bound = True\<rparr>"

text \<open>A bank's arrays as functions of the record index.\<close>

record bank =
  ctlr :: "nat \<Rightarrow> u32"
  status :: "nat \<Rightarrow> u32"
  impdef :: "nat \<Rightarrow> u32"
  unlocked :: bool

datatype fmu_port = Critical_irq | Critical_ssu | Non_critical_irq | Non_critical_ssu

record zena_fmu =
  m_banks :: "nat \<Rightarrow> bank"
  fmu_trace_count :: u32
  m_critical_irq :: bool
  m_non_critical_irq :: bool
  port_writes :: "(fmu_port \<times> bool) list"

definition fmu_fields :: zena_fmu where
  "fmu_fields = \<lparr>m_banks = (\<lambda>_. \<lparr>ctlr = (\<lambda>_. 0), status = (\<lambda>_. 0), impdef = (\<lambda>_. 0), unlocked = False\<rparr>),
     fmu_trace_count = 0, m_critical_irq = False, m_non_critical_irq = False, port_writes = []\<rparr>"

definition bank_count :: "fmu_params \<Rightarrow> nat" where
  "bank_count P = min (unat (fmu_p_bank_count P)) MAX_BANKS"

definition record_count :: "fmu_params \<Rightarrow> nat" where
  "record_count P = min (unat (fmu_p_record_count P)) MAX_RECORDS"

text \<open>An update through a \<^verbatim>\<open>Bank&\<close> reference.\<close>

definition in_bank :: "nat \<Rightarrow> (bank \<Rightarrow> bank) \<Rightarrow> zena_fmu \<Rightarrow> zena_fmu" where
  "in_bank b f s = s\<lparr>m_banks := (m_banks s)(b := f (m_banks s b))\<rparr>"

subsection \<open>Decoding\<close>

definition decode :: "fmu_params \<Rightarrow> u64 \<Rightarrow> (nat \<times> nat) option" where
  "decode P offset =
     (let bank = unat (ucast (offset div BANK_BYTES) :: u32);
          reg = unat (ucast (offset mod BANK_BYTES) :: u32)
      in if bank < bank_count P then Some (bank, reg) else None)"

definition decode_record :: "fmu_params \<Rightarrow> nat \<Rightarrow> (nat \<times> nat) option" where
  "decode_record P reg =
     (if reg \<ge> RECORD_SPACE_BYTES then None
      else
        (let index = reg div RECORD_STRIDE; field = reg mod RECORD_STRIDE
         in if index < record_count P then Some (index, field) else None))"

definition decode_impdef :: "fmu_params \<Rightarrow> nat \<Rightarrow> nat option" where
  "decode_impdef P reg =
     (if reg < ERR_IMPDEF_BASE then None
      else
        (let rel = reg - ERR_IMPDEF_BASE
         in if rel mod ERR_IMPDEF_STRIDE \<noteq> 0 then None
            else
              (let index = rel div ERR_IMPDEF_STRIDE
               in if index < record_count P then Some index else None)))"

definition default_impdef :: "nat \<Rightarrow> u32" where
  "default_impdef index = (if index = MAX_RECORDS - 1 then 0x00000070 else 0x00000180)"

definition is_critical_record :: "fmu_params \<Rightarrow> nat \<Rightarrow> bool" where
  "is_critical_record P index =
     (if index < 64 then fmu_p_critical_mask P AND 2 ^ index \<noteq> 0 else False)"

definition is_non_critical_record :: "fmu_params \<Rightarrow> nat \<Rightarrow> bool" where
  "is_non_critical_record P index =
     (if is_critical_record P index then False
      else if index < 64 then fmu_p_non_critical_mask P AND 2 ^ index \<noteq> 0
      else True)"

subsection \<open>Interrupt lines\<close>

text \<open>The two nested loops of \<^verbatim>\<open>update_irqs\<close>, over the flags \<^verbatim>\<open>(critical, non_critical)\<close>.\<close>

definition record_irqs :: "fmu_params \<Rightarrow> bank \<Rightarrow> nat \<Rightarrow> bool \<times> bool \<Rightarrow> bool \<times> bool" where
  "record_irqs P bk index irqs =
     (if status bk index AND STATUS_V = 0 then irqs
      else
        (let irqs = (if is_critical_record P index \<and> ctlr bk index AND CTLR_CI \<noteq> 0
                     then (True, snd irqs) else irqs)
         in if is_non_critical_record P index \<and> ctlr bk index AND (CTLR_FI OR CTLR_UE OR CTLR_CFI) \<noteq> 0
            then (fst irqs, True) else irqs))"

definition scan_irqs :: "fmu_params \<Rightarrow> (nat \<Rightarrow> bank) \<Rightarrow> bool \<times> bool" where
  "scan_irqs P banks =
     fold (\<lambda>b. fold (record_irqs P (banks b)) [0..<record_count P]) [0..<bank_count P] (False, False)"

definition emit :: "bool \<Rightarrow> fmu_port \<Rightarrow> bool \<Rightarrow> zena_fmu \<Rightarrow> zena_fmu" where
  "emit bound port value s = (if bound then s\<lparr>port_writes := port_writes s @ [(port, value)]\<rparr> else s)"

definition emit_irqs :: "fmu_params \<Rightarrow> zena_fmu \<Rightarrow> zena_fmu" where
  "emit_irqs P s =
     (let s = emit (critical_irq_bound P) Critical_irq (m_critical_irq s) s;
          s = emit (critical_ssu_bound P) Critical_ssu (m_critical_irq s) s;
          s = emit (non_critical_irq_bound P) Non_critical_irq (m_non_critical_irq s) s
      in emit (non_critical_ssu_bound P) Non_critical_ssu (m_non_critical_irq s) s)"

definition update_irqs :: "fmu_params \<Rightarrow> zena_fmu \<Rightarrow> zena_fmu" where
  "update_irqs P s =
     (case scan_irqs P (m_banks s) of
        (critical, non_critical) \<Rightarrow>
          if critical \<noteq> m_critical_irq s \<or> non_critical \<noteq> m_non_critical_irq s
          then emit_irqs P (s\<lparr>m_critical_irq := critical, m_non_critical_irq := non_critical\<rparr>)
          else s)"

subsection \<open>Record operations\<close>

definition set_status :: "nat \<Rightarrow> u32 \<Rightarrow> bank \<Rightarrow> bank" where
  "set_status index v bk = bk\<lparr>status := (status bk)(index := v)\<rparr>"

definition fmu_set_sequence_error :: "fmu_params \<Rightarrow> nat \<Rightarrow> zena_fmu \<Rightarrow> zena_fmu" where
  "fmu_set_sequence_error P b s =
     (let rec = (if record_count P = 0 then 0 else record_count P - 1)
      in update_irqs P (in_bank b (\<lambda>bk. set_status rec
           (status bk rec OR (STATUS_V OR STATUS_IERR_INC_SEQ OR STATUS_SERR_SW)) bk) s))"

definition fmu_require_unlock :: "fmu_params \<Rightarrow> nat \<Rightarrow> zena_fmu \<Rightarrow> bool \<times> zena_fmu" where
  "fmu_require_unlock P b s =
     (if \<not> fmu_p_enforce_sys_key P then (True, s)
      else if unlocked (m_banks s b) then (True, in_bank b (unlocked_update (\<lambda>_. False)) s)
      else (False, fmu_set_sequence_error P b s))"

definition set_software_error :: "fmu_params \<Rightarrow> nat \<Rightarrow> nat \<Rightarrow> bool \<Rightarrow> zena_fmu \<Rightarrow> zena_fmu" where
  "set_software_error P b index critical s =
     (let st = STATUS_V OR STATUS_IERR_ERR_IN OR STATUS_SERR_SW;
          st = (if critical then st OR STATUS_CI else st OR STATUS_UE)
      in update_irqs P (in_bank b (\<lambda>bk. set_status index (status bk index OR st) bk) s))"

definition clear_status :: "u32 \<Rightarrow> u32 \<Rightarrow> u32" where
  "clear_status value st =
     (let st = st AND NOT (value AND STATUS_W1C_MASK)
      in if st AND STATUS_V \<noteq> 0
         then (st AND NOT STATUS_RW_WHEN_VALID_MASK) OR (value AND STATUS_RW_WHEN_VALID_MASK)
         else st)"

definition clear_record_status :: "fmu_params \<Rightarrow> nat \<Rightarrow> nat \<Rightarrow> u32 \<Rightarrow> zena_fmu \<Rightarrow> zena_fmu" where
  "clear_record_status P b index value s =
     update_irqs P (in_bank b (\<lambda>bk. set_status index (clear_status value (status bk index)) bk) s)"

definition write_ctlr :: "fmu_params \<Rightarrow> nat \<Rightarrow> nat \<Rightarrow> u32 \<Rightarrow> zena_fmu \<Rightarrow> zena_fmu" where
  "write_ctlr P b index value s =
     update_irqs P (in_bank b (\<lambda>bk. bk\<lparr>ctlr := (ctlr bk)(index :=
       (ctlr bk index AND NOT CTLR_RW_MASK) OR (value AND CTLR_RW_MASK))\<rparr>) s)"

definition write_impdef :: "fmu_params \<Rightarrow> nat \<Rightarrow> nat \<Rightarrow> u32 \<Rightarrow> zena_fmu \<Rightarrow> zena_fmu" where
  "write_impdef P b index value s =
     (let s = in_bank b (\<lambda>bk. bk\<lparr>impdef := (impdef bk)(index :=
                (impdef bk index AND NOT IMPDEF_STORED_MASK) OR (value AND IMPDEF_STORED_MASK))\<rparr>) s;
          s = (if value AND IMPDEF_IC_MASK \<noteq> 0
               then in_bank b (\<lambda>bk. set_status index (status bk index AND NOT
                      (STATUS_V OR STATUS_UE OR STATUS_OF OR STATUS_CE_MASK OR STATUS_CI OR
                       STATUS_IERR_MASK OR STATUS_SERR_MASK)) bk) s
               else s)
      in if value AND IMPDEF_IE_MASK \<noteq> 0 \<and> ctlr (m_banks s b) index AND CTLR_ED \<noteq> 0
         then
           (let critical = is_critical_record P index
            in if value AND IMPDEF_DE_MASK \<noteq> 0 \<or> value AND IMPDEF_UE \<noteq> 0
               then set_software_error P b index critical s
               else set_software_error P b index critical s)
         else update_irqs P s)"

subsection \<open>Registers\<close>

text \<open>
  The loop of \<^verbatim>\<open>group_status_word\<close>: \<open>group_bits P bk base n i\<close> is what the bits from \<open>i\<close> on add,
  with \<open>n\<close> left to visit.
\<close>

primrec group_bits :: "fmu_params \<Rightarrow> bank \<Rightarrow> nat \<Rightarrow> nat \<Rightarrow> nat \<Rightarrow> u32 \<Rightarrow> u32" where
  "group_bits P bk base 0 i value = value"
| "group_bits P bk base (Suc n) i value =
     (if base + i \<ge> record_count P then value
      else group_bits P bk base n (Suc i)
        (if status bk (base + i) AND STATUS_V \<noteq> 0 then value OR 2 ^ i else value))"

definition group_status_word :: "fmu_params \<Rightarrow> bank \<Rightarrow> nat \<Rightarrow> bool \<Rightarrow> u32" where
  "group_status_word P bk grp high =
     group_bits P bk (grp * 64 + (if high then 32 else 0)) 32 0 0"

definition fmu_pidcid_value :: "fmu_params \<Rightarrow> nat \<Rightarrow> u32" where
  "fmu_pidcid_value P reg =
     (if reg = FMU_PIDR4 then fmu_p_pidr4 P
      else if reg = FMU_PIDR0 then fmu_p_pidr0 P
      else if reg = FMU_PIDR1 then fmu_p_pidr1 P
      else if reg = FMU_PIDR2 then fmu_p_pidr2 P
      else if reg = FMU_PIDR3 then fmu_p_pidr3 P
      else if reg = FMU_CIDR0 then fmu_p_cidr0 P
      else if reg = FMU_CIDR1 then fmu_p_cidr1 P
      else if reg = FMU_CIDR2 then fmu_p_cidr2 P
      else if reg = FMU_CIDR3 then fmu_p_cidr3 P
      else 0)"

text \<open>The group status and identification registers, the last branches of \<^verbatim>\<open>read32\<close>.\<close>

definition fmu_read_group :: "fmu_params \<Rightarrow> bank \<Rightarrow> nat \<Rightarrow> u32" where
  "fmu_read_group P bk reg =
     (if reg \<ge> ERRGSR_LOW_BASE \<and> reg < ERRGSR_LOW_BASE + 6 * ERRGSR_STRIDE \<and>
         (reg - ERRGSR_LOW_BASE) mod ERRGSR_STRIDE = 0
      then group_status_word P bk ((reg - ERRGSR_LOW_BASE) div ERRGSR_STRIDE) False
      else if reg \<ge> ERRGSR_HIGH_BASE \<and> reg < ERRGSR_HIGH_BASE + 6 * ERRGSR_STRIDE \<and>
         (reg - ERRGSR_HIGH_BASE) mod ERRGSR_STRIDE = 0
      then group_status_word P bk ((reg - ERRGSR_HIGH_BASE) div ERRGSR_STRIDE) True
      else fmu_pidcid_value P reg)"

definition fmu_read32 :: "fmu_params \<Rightarrow> u64 \<Rightarrow> zena_fmu \<Rightarrow> u32" where
  "fmu_read32 P offset s =
     (case decode P offset of
        None \<Rightarrow> 0
      | Some (b, reg) \<Rightarrow>
          (let bk = m_banks s b
           in case decode_record P reg of
                Some (index, field) \<Rightarrow>
                  (if field = ERR_FR_OFFSET then 0
                   else if field = ERR_CTLR_OFFSET then ctlr bk index
                   else if field = ERR_STATUS_OFFSET then status bk index
                   else 0)
              | None \<Rightarrow>
                  (case decode_impdef P reg of
                     Some index \<Rightarrow> impdef bk index
                   | None \<Rightarrow>
                       (if reg = FMU_SYS_KEY then (if unlocked bk then FMU_SYS_KEY_VALUE else 0)
                        else fmu_read_group P bk reg))))"

definition fmu_write_reg :: "fmu_params \<Rightarrow> nat \<Rightarrow> nat \<Rightarrow> u32 \<Rightarrow> zena_fmu \<Rightarrow> zena_fmu" where
  "fmu_write_reg P b reg value s =
     (if reg = FMU_SYS_KEY then
        (let s = in_bank b (unlocked_update (\<lambda>_. value = FMU_SYS_KEY_VALUE)) s
         in if \<not> unlocked (m_banks s b) then fmu_set_sequence_error P b s else s)
      else
        (case decode_record P reg of
           Some (index, field) \<Rightarrow>
             (case fmu_require_unlock P b s of
                (False, s) \<Rightarrow> s
              | (True, s) \<Rightarrow>
                  if field = ERR_CTLR_OFFSET then write_ctlr P b index value s
                  else if field = ERR_STATUS_OFFSET then clear_record_status P b index value s
                  else s)
         | None \<Rightarrow>
             (case decode_impdef P reg of
                Some index \<Rightarrow>
                  (case fmu_require_unlock P b s of
                     (False, s) \<Rightarrow> s
                   | (True, s) \<Rightarrow> write_impdef P b index value s)
              | None \<Rightarrow> snd (fmu_require_unlock P b s))))"

definition fmu_write32 :: "fmu_params \<Rightarrow> u64 \<Rightarrow> u32 \<Rightarrow> zena_fmu \<Rightarrow> zena_fmu" where
  "fmu_write32 P offset value s =
     (case decode P offset of
        None \<Rightarrow> s
      | Some (b, reg) \<Rightarrow> fmu_write_reg P b reg value s)"

definition fmu_trace_access :: "fmu_params \<Rightarrow> payload \<Rightarrow> zena_fmu \<Rightarrow> zena_fmu" where
  "fmu_trace_access P t s =
     (if \<not> fmu_p_trace P \<or> fmu_trace_count s \<ge> fmu_p_trace_limit P then s
      else s\<lparr>fmu_trace_count := fmu_trace_count s + 1\<rparr>)"

subsection \<open>Accesses and reset\<close>

definition fmu_access :: "fmu_params \<Rightarrow> payload \<Rightarrow> zena_fmu \<Rightarrow> (bool \<times> payload \<times> zena_fmu) ub" where
  "fmu_access P =
     reg_access (bank_count P * 0x10000) (word_read (fmu_read32 P)) (word_write (fmu_write32 P))
       (fmu_trace_access P)"

definition fmu_b_transport :: "fmu_params \<Rightarrow> payload \<Rightarrow> zena_fmu \<Rightarrow> (payload \<times> zena_fmu) ub" where
  "fmu_b_transport P = b_transport_of (fmu_access P)"

definition fmu_transport_dbg :: "fmu_params \<Rightarrow> payload \<Rightarrow> zena_fmu \<Rightarrow> (u32 \<times> payload \<times> zena_fmu) ub" where
  "fmu_transport_dbg P = transport_dbg_of (fmu_access P)"

text \<open>Every bank of the array is reset, whatever the configured number of banks.\<close>

definition fmu_reset_registers :: "fmu_params \<Rightarrow> zena_fmu \<Rightarrow> zena_fmu" where
  "fmu_reset_registers P s =
     s\<lparr>m_banks := (\<lambda>b. if b < MAX_BANKS
         then \<lparr>ctlr = (\<lambda>i. if i < MAX_RECORDS then fmu_p_default_ctlr P else ctlr (m_banks s b) i),
               status = (\<lambda>i. if i < MAX_RECORDS then 0 else status (m_banks s b) i),
               impdef = (\<lambda>i. if i < MAX_RECORDS then default_impdef i else impdef (m_banks s b) i),
               unlocked = False\<rparr>
         else m_banks s b),
       m_critical_irq := False, m_non_critical_irq := False\<rparr>"

definition fmu_construct :: "fmu_params \<Rightarrow> zena_fmu" where
  "fmu_construct P = fmu_reset_registers P fmu_fields"

definition fmu_before_end_of_elaboration :: "fmu_params \<Rightarrow> zena_fmu \<Rightarrow> zena_fmu" where
  "fmu_before_end_of_elaboration P s = fmu_reset_registers P s"

definition fmu_init :: "fmu_params \<Rightarrow> zena_fmu" where
  "fmu_init P = fmu_before_end_of_elaboration P (fmu_construct P)"

inductive fmu_reachable :: "fmu_params \<Rightarrow> zena_fmu \<Rightarrow> bool" for P where
  start: "fmu_reachable P (fmu_init P)"
| bus: "fmu_reachable P s \<Longrightarrow> fmu_b_transport P t s = Some (t', s') \<Longrightarrow> fmu_reachable P s'"
| debug: "fmu_reachable P s \<Longrightarrow> fmu_transport_dbg P t s = Some (n, t', s') \<Longrightarrow> fmu_reachable P s'"

subsection \<open>The interrupt lines\<close>

definition critical_pending :: "fmu_params \<Rightarrow> bank \<Rightarrow> nat \<Rightarrow> bool" where
  "critical_pending P bk i \<longleftrightarrow>
     status bk i AND STATUS_V \<noteq> 0 \<and> is_critical_record P i \<and> ctlr bk i AND CTLR_CI \<noteq> 0"

definition non_critical_pending :: "fmu_params \<Rightarrow> bank \<Rightarrow> nat \<Rightarrow> bool" where
  "non_critical_pending P bk i \<longleftrightarrow>
     status bk i AND STATUS_V \<noteq> 0 \<and> is_non_critical_record P i \<and>
     ctlr bk i AND (CTLR_FI OR CTLR_UE OR CTLR_CFI) \<noteq> 0"

definition critical_line :: "fmu_params \<Rightarrow> (nat \<Rightarrow> bank) \<Rightarrow> bool" where
  "critical_line P banks \<longleftrightarrow> (\<exists>b < bank_count P. \<exists>i < record_count P. critical_pending P (banks b) i)"

definition non_critical_line :: "fmu_params \<Rightarrow> (nat \<Rightarrow> bank) \<Rightarrow> bool" where
  "non_critical_line P banks \<longleftrightarrow> (\<exists>b < bank_count P. \<exists>i < record_count P. non_critical_pending P (banks b) i)"

lemma critical_lineI:
  "b < bank_count P \<Longrightarrow> i < record_count P \<Longrightarrow> critical_pending P (banks b) i \<Longrightarrow> critical_line P banks"
  by (auto simp: critical_line_def)

lemma non_critical_lineI:
  "b < bank_count P \<Longrightarrow> i < record_count P \<Longrightarrow> non_critical_pending P (banks b) i \<Longrightarrow>
   non_critical_line P banks"
  by (auto simp: non_critical_line_def)

lemma record_irqs_eq:
  "record_irqs P bk i irqs = (fst irqs \<or> critical_pending P bk i, snd irqs \<or> non_critical_pending P bk i)"
  by (auto simp: record_irqs_def critical_pending_def non_critical_pending_def is_non_critical_record_def Let_def)

lemma fold_flags:
  assumes "\<And>x p. x \<in> set xs \<Longrightarrow> h x p = (fst p \<or> f x, snd p \<or> g x)"
  shows "fold h xs p = (fst p \<or> (\<exists>x \<in> set xs. f x), snd p \<or> (\<exists>x \<in> set xs. g x))"
  using assms by (induction xs arbitrary: p) auto

lemma scan_irqs_eq: "scan_irqs P banks = (critical_line P banks, non_critical_line P banks)"
proof -
  have inner: "fold (record_irqs P bk) [0..<n] p =
      (fst p \<or> (\<exists>i < n. critical_pending P bk i), snd p \<or> (\<exists>i < n. non_critical_pending P bk i))" for bk n p
    by (subst fold_flags[where f = "critical_pending P bk" and g = "non_critical_pending P bk"])
      (auto simp: record_irqs_eq)
  show ?thesis
    unfolding scan_irqs_def critical_line_def non_critical_line_def
    by (subst fold_flags[where f = "\<lambda>b. \<exists>i < record_count P. critical_pending P (banks b) i"
          and g = "\<lambda>b. \<exists>i < record_count P. non_critical_pending P (banks b) i"]) (auto simp: inner)
qed

text \<open>The last value a port has been given; a port that was never written is low.\<close>

definition port_value :: "fmu_port \<Rightarrow> (fmu_port \<times> bool) list \<Rightarrow> bool" where
  "port_value p ws = fold (\<lambda>(q, v) old. if q = p then v else old) ws False"

lemma port_value_snoc [simp]: "port_value p (ws @ [(q, v)]) = (if q = p then v else port_value p ws)"
  by (simp add: port_value_def)

definition ports_ok :: "fmu_params \<Rightarrow> zena_fmu \<Rightarrow> bool" where
  "ports_ok P s \<longleftrightarrow>
     port_value Critical_irq (port_writes s) = (critical_irq_bound P \<and> m_critical_irq s) \<and>
     port_value Critical_ssu (port_writes s) = (critical_ssu_bound P \<and> m_critical_irq s) \<and>
     port_value Non_critical_irq (port_writes s) = (non_critical_irq_bound P \<and> m_non_critical_irq s) \<and>
     port_value Non_critical_ssu (port_writes s) = (non_critical_ssu_bound P \<and> m_non_critical_irq s)"

definition fmu_ok :: "fmu_params \<Rightarrow> zena_fmu \<Rightarrow> bool" where
  "fmu_ok P s \<longleftrightarrow> ports_ok P s \<and> m_critical_irq s = critical_line P (m_banks s) \<and>
     m_non_critical_irq s = non_critical_line P (m_banks s)"

lemma fmu_ok_ports [dest]: "fmu_ok P s \<Longrightarrow> ports_ok P s"
  by (simp add: fmu_ok_def)

lemma in_bank_sel [simp]:
  "m_banks (in_bank b f s) = (m_banks s)(b := f (m_banks s b))" "port_writes (in_bank b f s) = port_writes s"
  "m_critical_irq (in_bank b f s) = m_critical_irq s" "m_non_critical_irq (in_bank b f s) = m_non_critical_irq s"
  "fmu_trace_count (in_bank b f s) = fmu_trace_count s"
  by (simp_all add: in_bank_def)

lemma ports_ok_in_bank [simp]: "ports_ok P (in_bank b f s) = ports_ok P s"
  by (simp add: ports_ok_def)

lemma update_irqs_sel [simp]:
  "m_banks (update_irqs P s) = m_banks s" "fmu_trace_count (update_irqs P s) = fmu_trace_count s"
  "m_critical_irq (update_irqs P s) = critical_line P (m_banks s)"
  "m_non_critical_irq (update_irqs P s) = non_critical_line P (m_banks s)"
  by (auto simp: update_irqs_def scan_irqs_eq emit_irqs_def emit_def Let_def)

lemma update_irqs_ok:
  assumes "ports_ok P s" shows "fmu_ok P (update_irqs P s)"
proof -
  have "ports_ok P (emit_irqs P (s\<lparr>m_critical_irq := c, m_non_critical_irq := n\<rparr>))" for c n
    using assms by (simp add: ports_ok_def emit_irqs_def emit_def Let_def)
  then have "ports_ok P (update_irqs P s)" using assms by (simp add: update_irqs_def scan_irqs_eq)
  then show ?thesis by (simp add: fmu_ok_def)
qed

text \<open>A change that touches neither a status nor a control word keeps the lines.\<close>

lemma fmu_ok_quiet:
  assumes "fmu_ok P s" and "\<And>bk. status (f bk) = status bk" and "\<And>bk. ctlr (f bk) = ctlr bk"
  shows "fmu_ok P (in_bank b f s)"
proof -
  have "critical_pending P (((m_banks s)(b := f (m_banks s b))) c) i = critical_pending P (m_banks s c) i"
    "non_critical_pending P (((m_banks s)(b := f (m_banks s b))) c) i = non_critical_pending P (m_banks s c) i" for c i
    using assms(2,3) by (simp_all add: critical_pending_def non_critical_pending_def)
  then show ?thesis using assms(1) by (simp add: fmu_ok_def critical_line_def non_critical_line_def del: fun_upd_apply)
qed

lemma fmu_sequence_error_ok: "ports_ok P s \<Longrightarrow> fmu_ok P (fmu_set_sequence_error P b s)"
  by (simp add: fmu_set_sequence_error_def Let_def update_irqs_ok)

lemma require_unlock_ok: "fmu_ok P s \<Longrightarrow> fmu_ok P (snd (fmu_require_unlock P b s))"
  by (auto simp: fmu_require_unlock_def fmu_sequence_error_ok intro: fmu_ok_quiet)

lemma write_impdef_ok: "ports_ok P s \<Longrightarrow> fmu_ok P (write_impdef P b i v s)"
  by (simp add: write_impdef_def set_software_error_def Let_def update_irqs_ok)

lemma fmu_write_reg_ok: "fmu_ok P s \<Longrightarrow> fmu_ok P (fmu_write_reg P b reg v s)"
proof -
  assume ok: "fmu_ok P s"
  have key: "fmu_ok P (in_bank b (unlocked_update (\<lambda>_. x)) s)" for x
    using ok by (rule fmu_ok_quiet) simp_all
  obtain g s1 where u: "fmu_require_unlock P b s = (g, s1)" by fastforce
  have s1: "fmu_ok P s1" using require_unlock_ok[OF ok, of b] u by simp
  then have "ports_ok P s1" by (rule fmu_ok_ports)
  then have "fmu_ok P (write_ctlr P b i v s1)" "fmu_ok P (clear_record_status P b i v s1)"
    "fmu_ok P (write_impdef P b i v s1)" for i
    by (simp_all add: write_ctlr_def clear_record_status_def update_irqs_ok write_impdef_ok)
  with s1 show ?thesis
    using u key[of True] fmu_sequence_error_ok[of P "in_bank b (unlocked_update (\<lambda>_. False)) s" b] fmu_ok_ports[OF ok]
    by (auto simp: fmu_write_reg_def Let_def split: option.split bool.split)
qed

lemma fmu_write32_ok: "fmu_ok P s \<Longrightarrow> fmu_ok P (fmu_write32 P off v s)"
  by (auto simp: fmu_write32_def fmu_write_reg_ok split: option.split)

lemma fmu_trace_ok: "fmu_ok P s \<Longrightarrow> fmu_ok P (fmu_trace_access P t s)"
  by (simp add: fmu_trace_access_def fmu_ok_def ports_ok_def)

interpretation fmu: word_window "bank_count P * 0x10000" "fmu_read32 P" "fmu_write32 P"
    "fmu_trace_access P" "fmu_ok P"
  for P
  by unfold_locales (auto simp: bank_count_def fmu_write32_ok fmu_trace_ok)

lemma fmu_init_ok: "fmu_ok P (fmu_init P)"
proof -
  have "\<not> critical_pending P (m_banks (fmu_init P) b) i" "\<not> non_critical_pending P (m_banks (fmu_init P) b) i"
    if "b < bank_count P" "i < record_count P" for b i
    using that by (auto simp: fmu_init_def fmu_before_end_of_elaboration_def fmu_construct_def fmu_reset_registers_def
        critical_pending_def non_critical_pending_def bank_count_def record_count_def)
  then show ?thesis
    by (auto simp: fmu_ok_def ports_ok_def port_value_def critical_line_def non_critical_line_def fmu_init_def
        fmu_before_end_of_elaboration_def fmu_construct_def fmu_reset_registers_def fmu_fields_def)
qed

lemma fmu_b_transport_eq:
  "fmu_b_transport P t s = Some (t', s') \<longleftrightarrow> (\<exists>ok. fmu_access P (t\<lparr>p_dmi_allowed := False\<rparr>) s = Some (ok, t', s'))"
  by (auto simp: fmu_b_transport_def b_transport_of_def bind_eq_Some_conv)

lemma fmu_access_ok: "fmu_access P t s = Some (ok, t', s') \<Longrightarrow> fmu_ok P s \<Longrightarrow> fmu_ok P s'"
  unfolding fmu_access_def by (rule fmu.access_inv)

lemma fmu_reachable_ok: "fmu_reachable P s \<Longrightarrow> fmu_ok P s"
proof (induction rule: fmu_reachable.induct)
  case (bus s t t' s')
  then show ?case by (auto simp: fmu_b_transport_eq intro: fmu_access_ok)
next
  case (debug s t n t' s')
  then show ?case
    by (auto simp: fmu_transport_dbg_def transport_dbg_of_def bind_eq_Some_conv intro: fmu_access_ok)
qed (rule fmu_init_ok)

text \<open>
  C36. In every reachable state the critical line is high exactly when some valid record of a
  configured bank is critical and has its critical interrupt enabled, the non-critical line when
  some valid non-critical record has an enabled interrupt, and every bound output socket was last
  written the present value of its line.
\<close>

theorem fmu_irq_lines:
  assumes "fmu_reachable P s"
  shows "m_critical_irq s = (\<exists>b < bank_count P. \<exists>i < record_count P. critical_pending P (m_banks s b) i) \<and>
    m_non_critical_irq s = (\<exists>b < bank_count P. \<exists>i < record_count P. non_critical_pending P (m_banks s b) i) \<and>
    port_value Critical_irq (port_writes s) = (critical_irq_bound P \<and> m_critical_irq s) \<and>
    port_value Critical_ssu (port_writes s) = (critical_ssu_bound P \<and> m_critical_irq s) \<and>
    port_value Non_critical_irq (port_writes s) = (non_critical_irq_bound P \<and> m_non_critical_irq s) \<and>
    port_value Non_critical_ssu (port_writes s) = (non_critical_ssu_bound P \<and> m_non_critical_irq s)"
  using fmu_reachable_ok[OF assms]
  by (simp add: fmu_ok_def ports_ok_def critical_line_def non_critical_line_def)

subsection \<open>Banks\<close>

lemma fmu_trace_eq: "\<exists>n. fmu_trace_access P t s = s\<lparr>fmu_trace_count := n\<rparr>"
proof (cases "\<not> fmu_p_trace P \<or> fmu_trace_count s \<ge> fmu_p_trace_limit P")
  case True
  then have "fmu_trace_access P t s = s\<lparr>fmu_trace_count := fmu_trace_count s\<rparr>"
    by (simp add: fmu_trace_access_def)
  then show ?thesis by blast
qed (auto simp: fmu_trace_access_def)

lemma fmu_trace_banks [simp]: "m_banks (fmu_trace_access P t s) = m_banks s"
  using fmu_trace_eq[of P t s] by auto

text \<open>The bank after a sequence error.\<close>

definition sequence_bank :: "fmu_params \<Rightarrow> bank \<Rightarrow> bank" where
  "sequence_bank P bk =
     set_status (record_count P - 1)
       (status bk (record_count P - 1) OR (STATUS_V OR STATUS_IERR_INC_SEQ OR STATUS_SERR_SW)) bk"

lemma sequence_error_banks: "m_banks (fmu_set_sequence_error P b s) = (m_banks s)(b := sequence_bank P (m_banks s b))"
  by (simp add: fmu_set_sequence_error_def sequence_bank_def Let_def)

lemma require_unlock_banks:
  "c \<noteq> b \<Longrightarrow> m_banks (snd (fmu_require_unlock P b s)) c = m_banks s c"
  by (simp add: fmu_require_unlock_def sequence_error_banks)

lemma write_reg_other:
  assumes "c \<noteq> b" shows "m_banks (fmu_write_reg P b reg v s) c = m_banks s c"
proof -
  obtain g s1 where u: "fmu_require_unlock P b s = (g, s1)" by fastforce
  then have s1: "m_banks s1 c = m_banks s c" using require_unlock_banks[OF assms, of P s] by simp
  then show ?thesis
    using assms u
    by (auto simp: fmu_write_reg_def Let_def sequence_error_banks write_ctlr_def clear_record_status_def
        write_impdef_def set_software_error_def split: option.split bool.split)
qed

lemma write_reg_locked:
  assumes "fmu_p_enforce_sys_key P" and "\<not> unlocked (m_banks s b)" and "reg \<noteq> FMU_SYS_KEY"
  shows "fmu_write_reg P b reg v s = fmu_set_sequence_error P b s"
  using assms by (simp add: fmu_write_reg_def fmu_require_unlock_def split: option.split)

lemma fmu_write32_banks:
  "m_banks (fmu_write32 P off v s) c =
     (case decode P off of
        None \<Rightarrow> m_banks s c
      | Some (b, reg) \<Rightarrow> if c = b then m_banks (fmu_write_reg P b reg v s) b else m_banks s c)"
  by (auto simp: fmu_write32_def write_reg_other split: option.split)

text \<open>
  Banks are isolated and locked: an access changes at most the bank its address selects, and
  while that bank is locked and the access does not address its key, at most by recording a
  sequence error in the bank's last record.
\<close>

theorem fmu_bank_isolation:
  assumes "fmu_b_transport P t s = Some (t', s')"
  shows "case decode P (p_address t) of
      None \<Rightarrow> m_banks s' = m_banks s
    | Some (b, reg) \<Rightarrow> (\<forall>c. c \<noteq> b \<longrightarrow> m_banks s' c = m_banks s c) \<and>
        (fmu_p_enforce_sys_key P \<and> \<not> unlocked (m_banks s b) \<and> reg \<noteq> FMU_SYS_KEY \<longrightarrow>
           m_banks s' b \<in> {m_banks s b, sequence_bank P (m_banks s b)})"
proof -
  from assms obtain ok where acc: "fmu_access P (t\<lparr>p_dmi_allowed := False\<rparr>) s = Some (ok, t', s')"
    by (auto simp: fmu_b_transport_eq)
  have "m_banks s' = m_banks s \<or> (\<exists>v. m_banks s' = m_banks (fmu_write32 P (p_address t) v s))"
  proof (cases ok)
    case True
    with acc have "fmu_access P (t\<lparr>p_dmi_allowed := False\<rparr>) s = Some (True, t', s')" by simp
    then show ?thesis
      unfolding fmu_access_def by (cases rule: fmu.access_cases) auto
  next
    case False
    then show ?thesis
      using acc fmu.access_refused[of P "t\<lparr>p_dmi_allowed := False\<rparr>" s t' s'] unfolding fmu_access_def by simp
  qed
  then show ?thesis
    by (auto simp: fmu_write32_banks write_reg_locked sequence_error_banks fun_eq_iff split: option.split)
qed

subsection \<open>The group status words\<close>

lemma decode_of_nat:
  assumes "b < bank_count P" and "r < 0x10000" and "a = of_nat (b * 0x10000 + r)"
  shows "unat a = b * 0x10000 + r" and "decode P a = Some (b, r)"
proof -
  have b: "b < 8" using assms(1) by (simp add: bank_count_def)
  show a: "unat a = b * 0x10000 + r"
    unfolding assms(3) using b assms(2) by (subst unat_of_nat_small) simp_all
  show "decode P a = Some (b, r)"
    using assms(1,2) b by (simp add: decode_def unat_ucast_64_32 unat_div unat_mod_distrib a)
qed

lemma bit_group_bits:
  assumes "i + n \<le> 32"
  shows "bit (group_bits P bk base n i v) j \<longleftrightarrow>
    bit v j \<or> (i \<le> j \<and> j < i + n \<and> base + j < record_count P \<and> bit (status bk (base + j)) 30)"
  using assms
proof (induction n arbitrary: i v)
  case (Suc n)
  show ?case
  proof (cases "base + i \<ge> record_count P")
    case False
    let ?v = "if status bk (base + i) AND STATUS_V \<noteq> 0 then v OR 2 ^ i else v"
    have i: "i < 32" using Suc.prems by simp
    have step: "group_bits P bk base (Suc n) i v = group_bits P bk base n (Suc i) ?v" using False by simp
    have "bit ?v j \<longleftrightarrow> bit v j \<or> (j = i \<and> bit (status bk (base + i)) 30)"
      unfolding and_exp_iff using i by (auto simp: bit_or_mask bit_exp_iff)
    moreover have "bit (group_bits P bk base n (Suc i) ?v) j \<longleftrightarrow>
        bit ?v j \<or> (Suc i \<le> j \<and> j < Suc i + n \<and> base + j < record_count P \<and> bit (status bk (base + j)) 30)"
      by (rule Suc.IH) (use Suc.prems in simp)
    ultimately show ?thesis
      unfolding step using False by (cases j i rule: linorder_cases) auto
  qed auto
qed auto

text \<open>
  The group status words, as read from the bus side: bit i of the low word of group g is the
  valid bit of record 64 g + i, of the high word that of record 64 g + 32 + i, for the configured
  records only.
\<close>

theorem fmu_group_status:
  assumes "b < bank_count P" and "g < 6" and "a = of_nat (b * 0x10000 + 0xe000 + 8 * g + (if high then 4 else 0))"
  shows "bit (fmu_read32 P a s) i \<longleftrightarrow>
    i < 32 \<and> 64 * g + (if high then 32 else 0) + i < record_count P \<and>
    bit (status (m_banks s b) (64 * g + (if high then 32 else 0) + i)) 30"
proof -
  let ?r = "0xe000 + 8 * g + (if high then 4 else 0)"
  have r: "?r < 0x10000" using assms(2) by simp
  have "decode P a = Some (b, ?r)"
    using decode_of_nat(2)[OF assms(1) r] assms(3) by (simp add: add.assoc)
  moreover have "decode_record P ?r = None" "decode_impdef P ?r = None"
    by (simp_all add: decode_record_def decode_impdef_def record_count_def min_def)
  ultimately show ?thesis
    using assms(2) by (simp add: fmu_read32_def fmu_read_group_def group_status_word_def bit_group_bits mult.commute)
qed

subsection \<open>Injected faults\<close>

lemma fmu_bus_write:
  assumes "unat a + 4 \<le> bank_count P * 0x10000" and "is_aligned32 a"
  shows "\<exists>t' n. fmu_b_transport P (write_payload a (le_bytes 4 v)) s =
    Some (t', (fmu_write32 P a v s)\<lparr>fmu_trace_count := n\<rparr>)"
proof -
  have "(write_payload a (le_bytes 4 v))\<lparr>p_dmi_allowed := False\<rparr> = write_payload a (le_bytes 4 v)"
    by (simp add: write_payload_def)
  then show ?thesis
    using fmu.access_word_write[OF assms, of v s] fmu_trace_eq[of P "write_payload a (le_bytes 4 v)" "fmu_write32 P a v s"]
    by (auto simp: fmu_b_transport_def b_transport_of_def fmu_access_def)
qed

lemma decode_impdef_reg:
  "i < record_count P \<Longrightarrow> decode_record P (ERR_IMPDEF_BASE + 8 * i) = None \<and>
   decode_impdef P (ERR_IMPDEF_BASE + 8 * i) = Some i"
  by (simp add: decode_record_def decode_impdef_def Let_def)

lemma unlocked_impdef_write:
  assumes "unlocked (m_banks s b) \<or> \<not> fmu_p_enforce_sys_key P" and "i < record_count P"
  shows "\<exists>u. fmu_write_reg P b (ERR_IMPDEF_BASE + 8 * i) v s = write_impdef P b i v (in_bank b (unlocked_update (\<lambda>_. u)) s)"
proof -
  have key: "ERR_IMPDEF_BASE + 8 * i \<noteq> FMU_SYS_KEY" by presburger
  have id: "in_bank b (unlocked_update (\<lambda>_. unlocked (m_banks s b))) s = s" by (simp add: in_bank_def)
  have "\<exists>u. fmu_require_unlock P b s = (True, in_bank b (unlocked_update (\<lambda>_. u)) s)"
  proof (cases "fmu_p_enforce_sys_key P")
    case True
    then show ?thesis using assms(1) by (auto simp: fmu_require_unlock_def)
  next
    case False
    then have "fmu_require_unlock P b s = (True, in_bank b (unlocked_update (\<lambda>_. unlocked (m_banks s b))) s)"
      by (simp add: fmu_require_unlock_def id)
    then show ?thesis by blast
  qed
  then show ?thesis
    using key decode_impdef_reg[OF assms(2)] by (auto simp: fmu_write_reg_def)
qed

lemma write_impdef_lines:
  "m_critical_irq (write_impdef P b i v s) = critical_line P (m_banks (write_impdef P b i v s))"
  "m_non_critical_irq (write_impdef P b i v s) = non_critical_line P (m_banks (write_impdef P b i v s))"
  by (simp_all add: write_impdef_def set_software_error_def Let_def)

lemma or_v_valid: "(x OR (STATUS_V OR y)) AND STATUS_V \<noteq> 0"
  unfolding and_exp_iff by (simp add: bit_or_mask bit_exp_iff del: or_numerals)

lemma status_set_status [simp]: "status (set_status i v bk) i = v" "ctlr (set_status i v bk) = ctlr bk"
  by (simp_all add: set_status_def)

lemma software_error_valid: "status (m_banks (set_software_error P b i c s) b) i AND STATUS_V \<noteq> 0"
proof (cases c)
  case True
  then show ?thesis
    by (simp only: set_software_error_def Let_def if_True update_irqs_sel in_bank_sel fun_upd_same
        status_set_status or.assoc or_v_valid not_False_eq_True)
next
  case False
  then show ?thesis
    by (simp only: set_software_error_def Let_def if_False update_irqs_sel in_bank_sel fun_upd_same
        status_set_status or.assoc or_v_valid not_False_eq_True)
qed

lemma write_impdef_injects:
  assumes "v AND IMPDEF_IE_MASK \<noteq> 0" and "ctlr (m_banks s b) i AND CTLR_ED \<noteq> 0"
  shows "status (m_banks (write_impdef P b i v s) b) i AND STATUS_V \<noteq> 0"
    and "ctlr (m_banks (write_impdef P b i v s) b) = ctlr (m_banks s b)"
proof -
  have "\<exists>c s1. write_impdef P b i v s = set_software_error P b i c s1"
    using assms by (auto simp: write_impdef_def set_status_def Let_def)
  then show "status (m_banks (write_impdef P b i v s) b) i AND STATUS_V \<noteq> 0"
    using software_error_valid by metis
  show "ctlr (m_banks (write_impdef P b i v s) b) = ctlr (m_banks s b)"
    by (simp add: write_impdef_def set_software_error_def set_status_def Let_def)
qed

text \<open>
  An injected fault reaches the lines: an aligned word write of an injection code to the IMPDEF
  register of a record of an unlocked bank, with error detection on, makes the record valid; the
  line of its severity is then high if that interrupt is enabled for the record.
\<close>

theorem fmu_injection:
  fixes v :: u32
  assumes "b < bank_count P" and "i < record_count P" and "a = of_nat (b * 0x10000 + (0x8000 + 8 * i))"
    and "fmu_b_transport P (write_payload a (le_bytes 4 v)) s = Some (t', s')"
    and "unlocked (m_banks s b) \<or> \<not> fmu_p_enforce_sys_key P"
    and "v AND IMPDEF_IE_MASK \<noteq> 0" and "ctlr (m_banks s b) i AND CTLR_ED \<noteq> 0"
  shows "status (m_banks s' b) i AND STATUS_V \<noteq> 0 \<and>
    (is_critical_record P i \<and> ctlr (m_banks s b) i AND CTLR_CI \<noteq> 0 \<longrightarrow> m_critical_irq s') \<and>
    (is_non_critical_record P i \<and> ctlr (m_banks s b) i AND (CTLR_FI OR CTLR_UE OR CTLR_CFI) \<noteq> 0
       \<longrightarrow> m_non_critical_irq s')"
proof -
  have i: "i < 384" using assms(2) by (simp add: record_count_def)
  then have r: "0x8000 + 8 * i < 0x10000" by simp
  note a = decode_of_nat[OF assms(1) r assms(3)]
  have "unat a + 4 \<le> bank_count P * 0x10000" using a(1) assms(1) i by simp
  moreover have "is_aligned32 a"
    using a(1) by (simp add: is_aligned32_def word_unat_eq_iff unat_low)
  ultimately obtain n where s': "s' = (fmu_write32 P a v s)\<lparr>fmu_trace_count := n\<rparr>"
    using fmu_bus_write[of a P v s] assms(4) by auto
  obtain u where "fmu_write32 P a v s = write_impdef P b i v (in_bank b (unlocked_update (\<lambda>_. u)) s)"
    using unlocked_impdef_write[OF assms(5,2), of v] a(2) by (auto simp: fmu_write32_def)
  then obtain s1 where w: "fmu_write32 P a v s = write_impdef P b i v s1" and s1: "ctlr (m_banks s1 b) = ctlr (m_banks s b)"
    by auto
  note inj = write_impdef_injects[OF assms(6), of s1 b i P]
  show ?thesis
    using assms(1,2,7) inj unfolding s' w
    by (auto simp: s1 write_impdef_lines critical_pending_def non_critical_pending_def
        intro!: critical_lineI[of b _ i] non_critical_lineI[of b _ i])
qed

theorem fmu_injection_witness:
  "\<exists>t1 s1 t' s'.
     fmu_b_transport fmu_default_params (write_payload 0x8bfc (le_bytes 4 FMU_SYS_KEY_VALUE))
       (fmu_init fmu_default_params) = Some (t1, s1) \<and>
     fmu_b_transport fmu_default_params (write_payload 0x8000 (le_bytes 4 (0x200 :: u32))) s1 = Some (t', s') \<and>
     m_critical_irq s'"
proof -
  let ?P = fmu_default_params
  have P: "bank_count ?P = 5" "record_count ?P = 384" "fmu_p_enforce_sys_key ?P"
    "fmu_p_critical_mask ?P = 1" "fmu_p_default_ctlr ?P = 0x2119"
    by (simp_all add: bank_count_def record_count_def fmu_default_params_def)
  obtain t1 n where k: "fmu_b_transport ?P (write_payload 0x8bfc (le_bytes 4 FMU_SYS_KEY_VALUE)) (fmu_init ?P) =
      Some (t1, (fmu_write32 ?P 0x8bfc FMU_SYS_KEY_VALUE (fmu_init ?P))\<lparr>fmu_trace_count := n\<rparr>)"
    using fmu_bus_write[of "0x8bfc" ?P] by (fastforce simp: is_aligned32_def P)
  define s1 where "s1 = (fmu_write32 ?P 0x8bfc FMU_SYS_KEY_VALUE (fmu_init ?P))\<lparr>fmu_trace_count := n\<rparr>"
  have "decode ?P 0x8bfc = Some (0, 0x8bfc)" by (simp add: decode_def P)
  then have s1: "unlocked (m_banks s1 0)" "ctlr (m_banks s1 0) 0 = 0x2119"
    by (simp_all add: s1_def fmu_write32_def fmu_write_reg_def fmu_init_def fmu_before_end_of_elaboration_def
        fmu_reset_registers_def P)
  obtain t' s' where w: "fmu_b_transport ?P (write_payload 0x8000 (le_bytes 4 (0x200 :: u32))) s1 = Some (t', s')"
    using fmu_bus_write[of "0x8000" ?P] by (fastforce simp: is_aligned32_def P)
  have "is_critical_record ?P 0" by (simp add: is_critical_record_def P)
  then have "m_critical_irq s'"
    using fmu_injection[OF _ _ _ w, of 0 0] s1 by (simp add: P)
  with k w show ?thesis unfolding s1_def by blast
qed

theorem fmu_irq_lines_witness:
  "m_critical_irq (fmu_init fmu_default_params) \<longleftrightarrow>
   (\<exists>b < bank_count fmu_default_params. \<exists>i < record_count fmu_default_params.
      critical_pending fmu_default_params (m_banks (fmu_init fmu_default_params) b) i)"
  using fmu_irq_lines[OF fmu_reachable.start, of fmu_default_params] by blast

theorem fmu_bank_isolation_witness:
  "\<exists>t' s'. fmu_b_transport fmu_default_params (write_payload 0x8 (le_bytes 4 (0 :: u32))) (fmu_init fmu_default_params)
       = Some (t', s') \<and>
     m_banks s' 1 = m_banks (fmu_init fmu_default_params) 1"
proof -
  let ?P = fmu_default_params
  have P: "bank_count ?P = 5" by (simp add: bank_count_def fmu_default_params_def)
  obtain t' s' where w: "fmu_b_transport ?P (write_payload 0x8 (le_bytes 4 (0 :: u32))) (fmu_init ?P) = Some (t', s')"
    using fmu_bus_write[of "0x8" ?P] by (fastforce simp: is_aligned32_def P)
  have "decode ?P 0x8 = Some (0, 8)" by (simp add: decode_def P)
  then have "m_banks s' 1 = m_banks (fmu_init ?P) 1" using fmu_bank_isolation[OF w] by simp
  with w show ?thesis by blast
qed

theorem fmu_group_status_witness:
  "\<not> bit (fmu_read32 fmu_default_params 0xe000 (fmu_init fmu_default_params)) 0"
  using fmu_group_status[of 0 fmu_default_params 0 "0xe000" False "fmu_init fmu_default_params" 0]
  by (simp add: bank_count_def fmu_default_params_def fmu_init_def fmu_before_end_of_elaboration_def fmu_reset_registers_def)

end
