(* ===== verification/Mhu_Psa.thy ===== *)
theory Mhu_Psa
  imports Tlm_Regs
begin

text \<open>
  The RSE services behind the message handling unit (\<^verbatim>\<open>src/systemc-components/mhu320ae/include/mhu320ae.h\<close>):
  parsing of RSE communication requests (embedded and pointer access), protected storage, measured
  boot and firmware update, and the reply. Requests and replies are byte lists; the two maps the
  services keep are the record \<open>rse_services\<close>, which the device state extends.

  Calls of \<^verbatim>\<open>trace_event\<close> are left out here and in the other parts of the unit: they write a bounded
  trace and a counter that nothing else reads.
\<close>

subsection \<open>Constants\<close>

abbreviation (input) RSE_COMMS_PROTOCOL_EMBED :: u8 where "RSE_COMMS_PROTOCOL_EMBED \<equiv> 0"
abbreviation (input) RSE_COMMS_PROTOCOL_POINTER_ACCESS :: u8 where "RSE_COMMS_PROTOCOL_POINTER_ACCESS \<equiv> 1"
abbreviation (input) PSA_MAX_IOVEC :: nat where "PSA_MAX_IOVEC \<equiv> 4"
abbreviation (input) PSA_SUCCESS :: int where "PSA_SUCCESS \<equiv> 0"
abbreviation (input) TFM_PROTECTED_STORAGE_SERVICE_HANDLE :: u32 where
  "TFM_PROTECTED_STORAGE_SERVICE_HANDLE \<equiv> 0x40000101"
abbreviation (input) TFM_PS_SET :: u32 where "TFM_PS_SET \<equiv> 1001"
abbreviation (input) TFM_PS_GET :: u32 where "TFM_PS_GET \<equiv> 1002"
abbreviation (input) TFM_PS_GET_INFO :: u32 where "TFM_PS_GET_INFO \<equiv> 1003"
abbreviation (input) TFM_PS_REMOVE :: u32 where "TFM_PS_REMOVE \<equiv> 1004"
abbreviation (input) TFM_PS_GET_SUPPORT :: u32 where "TFM_PS_GET_SUPPORT \<equiv> 1005"
abbreviation (input) TFM_MEASURED_BOOT_HANDLE :: u32 where "TFM_MEASURED_BOOT_HANDLE \<equiv> 0x40000110"
abbreviation (input) TFM_MEASURED_BOOT_READ :: u32 where "TFM_MEASURED_BOOT_READ \<equiv> 1001"
abbreviation (input) TFM_MEASURED_BOOT_EXTEND :: u32 where "TFM_MEASURED_BOOT_EXTEND \<equiv> 1002"
abbreviation (input) TFM_FIRMWARE_UPDATE_SERVICE_HANDLE :: u32 where
  "TFM_FIRMWARE_UPDATE_SERVICE_HANDLE \<equiv> 0x40000104"
abbreviation (input) TFM_FWU_QUERY :: u32 where "TFM_FWU_QUERY \<equiv> 1010"
abbreviation (input) TFM_FWU_COMPONENT_COUNT :: u8 where "TFM_FWU_COMPONENT_COUNT \<equiv> 5"
abbreviation (input) PSA_FWU_COMPONENT_INFO_SIZE :: nat where "PSA_FWU_COMPONENT_INFO_SIZE \<equiv> 44"
abbreviation (input) PSA_FWU_READY :: u8 where "PSA_FWU_READY \<equiv> 0"
abbreviation (input) PSA_FWU_FLAG_VOLATILE_STAGING :: u32 where "PSA_FWU_FLAG_VOLATILE_STAGING \<equiv> 0x00000001"
abbreviation (input) ESRT_FW_TYPE_SYSTEMFIRMWARE :: u32 where "ESRT_FW_TYPE_SYSTEMFIRMWARE \<equiv> 0x00000001"
abbreviation (input) TFM_MEASUREMENT_SLOT_COUNT :: nat where "TFM_MEASUREMENT_SLOT_COUNT \<equiv> 32"
abbreviation (input) TFM_MEASUREMENT_VALUE_MAX_SIZE :: nat where "TFM_MEASUREMENT_VALUE_MAX_SIZE \<equiv> 64"
abbreviation (input) TFM_SIGNER_ID_MAX_SIZE :: nat where "TFM_SIGNER_ID_MAX_SIZE \<equiv> 64"
abbreviation (input) TFM_VERSION_MAX_SIZE :: nat where "TFM_VERSION_MAX_SIZE \<equiv> 14"
abbreviation (input) TFM_SW_TYPE_MAX_SIZE :: nat where "TFM_SW_TYPE_MAX_SIZE \<equiv> 32"
abbreviation (input) PSA_ERROR_NOT_SUPPORTED :: int where "PSA_ERROR_NOT_SUPPORTED \<equiv> - 134"
abbreviation (input) PSA_ERROR_INVALID_ARGUMENT :: int where "PSA_ERROR_INVALID_ARGUMENT \<equiv> - 135"
abbreviation (input) PSA_ERROR_DOES_NOT_EXIST :: int where "PSA_ERROR_DOES_NOT_EXIST \<equiv> - 140"
abbreviation (input) PSA_ERROR_COMMUNICATION_FAILURE :: int where "PSA_ERROR_COMMUNICATION_FAILURE \<equiv> - 145"

subsection \<open>Data\<close>

record ps_entry =
  ps_data :: "u8 list"
  ps_flags :: u32

record measurement_entry =
  me_valid :: bool
  me_locked :: bool
  me_algorithm :: u32
  me_sw_type :: "u8 list"
  me_version :: "u8 list"
  me_signer_id :: "u8 list"
  me_measurement :: "u8 list"

record rse_ps_request =
  rq_protocol :: u8
  rq_seq :: u8
  rq_client_id :: u16
  rq_handle :: u32
  rq_ctrl :: u32
  rq_type :: u32
  rq_in_len :: nat
  rq_out_len :: nat
  rq_inputs :: "u8 list list"
  rq_out_caps :: "u32 list"
  rq_out_ptrs :: "u64 list"

text \<open>A value-initialised request: the arrays have \<^verbatim>\<open>PSA_MAX_IOVEC\<close> elements.\<close>

definition empty_request :: rse_ps_request where
  "empty_request = \<lparr>rq_protocol = RSE_COMMS_PROTOCOL_EMBED, rq_seq = 0, rq_client_id = 0, rq_handle = 0,
     rq_ctrl = 0, rq_type = 0, rq_in_len = 0, rq_out_len = 0, rq_inputs = replicate PSA_MAX_IOVEC [],
     rq_out_caps = replicate PSA_MAX_IOVEC 0, rq_out_ptrs = replicate PSA_MAX_IOVEC 0\<rparr>"

record rse_services =
  m_ps_store :: "u64 \<rightharpoonup> ps_entry"
  m_measurements :: "nat \<Rightarrow> measurement_entry"

definition empty_measurement :: measurement_entry where
  "empty_measurement = \<lparr>me_valid = False, me_locked = False, me_algorithm = 0, me_sw_type = [],
     me_version = [], me_signer_id = [], me_measurement = []\<rparr>"

subsection \<open>Memory behind the initiator socket\<close>

text \<open>
  \<open>mem_access\<close> returns the success flag, the buffer as the transaction left it, and the new state
  of what the socket is bound to. The length attribute is an \<^verbatim>\<open>unsigned int\<close>.
\<close>

definition mem_access :: "'m bus \<Rightarrow> tlm_command \<Rightarrow> u64 \<Rightarrow> u8 list \<Rightarrow> 'm \<Rightarrow> bool \<times> u8 list \<times> 'm" where
  "mem_access bus command address buf m =
     (let (t, m') = bus \<lparr>p_command = command, p_address = address, p_data = Some buf,
                         p_len = of_nat (length buf), p_response = TLM_INCOMPLETE_RESPONSE,
                         p_dmi_allowed = False\<rparr> m
      in (is_response_ok t, case p_data t of None \<Rightarrow> buf | Some b \<Rightarrow> b, m'))"

definition mem_read_bytes :: "'m bus \<Rightarrow> u64 \<Rightarrow> u8 list \<Rightarrow> 'm \<Rightarrow> bool \<times> u8 list \<times> 'm" where
  "mem_read_bytes bus address out m =
     (if out = [] then (True, out, m) else mem_access bus TLM_READ_COMMAND address out m)"

definition mem_write_bytes :: "'m bus \<Rightarrow> u64 \<Rightarrow> u8 list \<Rightarrow> 'm \<Rightarrow> bool \<times> 'm" where
  "mem_write_bytes bus address bs m =
     (if bs = [] then (True, m)
      else (let (ok, _, m') = mem_access bus TLM_WRITE_COMMAND address bs m in (ok, m')))"

subsection \<open>Little-endian fields\<close>

definition read_le32 :: "u8 list \<Rightarrow> nat \<Rightarrow> u32" where
  "read_le32 bs off = (if off + 4 > length bs then 0 else le_word (take 4 (drop off bs)))"

definition read_le16 :: "u8 list \<Rightarrow> nat \<Rightarrow> u16" where
  "read_le16 bs off = (if off + 2 > length bs then 0 else le_word (take 2 (drop off bs)))"

definition read_le64 :: "u8 list \<Rightarrow> nat \<Rightarrow> u64" where
  "read_le64 bs off = (if off + 8 > length bs then 0 else le_word (take 8 (drop off bs)))"

definition append_u32 :: "u8 list \<Rightarrow> u32 \<Rightarrow> u8 list" where
  "append_u32 out v =
     out @ [ucast v, ucast (drop_bit 8 v), ucast (drop_bit 16 v), ucast (drop_bit 24 v)]"

definition append_u16 :: "u8 list \<Rightarrow> u16 \<Rightarrow> u8 list" where
  "append_u16 out v = out @ [ucast v, ucast (drop_bit 8 v)]"

definition append_at_u32 :: "u8 list \<Rightarrow> nat \<Rightarrow> u32 \<Rightarrow> u8 list" where
  "append_at_u32 out off v =
     (if off + 4 > length out then out
      else out[off := ucast v, off + 1 := ucast (drop_bit 8 v), off + 2 := ucast (drop_bit 16 v),
               off + 3 := ucast (drop_bit 24 v)])"

definition rse_ctrl_type :: "u32 \<Rightarrow> u32" where
  "rse_ctrl_type ctrl = ctrl AND 0xffff"

definition rse_ctrl_out_len :: "u32 \<Rightarrow> nat" where
  "rse_ctrl_out_len ctrl = unat (drop_bit 16 ctrl AND 0x7)"

definition rse_ctrl_in_len :: "u32 \<Rightarrow> nat" where
  "rse_ctrl_in_len ctrl = unat (drop_bit 24 ctrl AND 0x7)"

subsection \<open>Parsing\<close>

text \<open>
  A failed parse yields its error status; the fields it has already filled are not read again
  (the caller takes protocol, sequence number and client from the request itself).
  \<open>embed_inputs\<close> is the loop over the input vectors.
\<close>

primrec embed_inputs :: "u8 list \<Rightarrow> nat \<Rightarrow> nat list \<Rightarrow> u8 list list option" where
  "embed_inputs request offset [] = Some []"
| "embed_inputs request offset (len # lens) =
     (if offset + len > length request then None
      else do {
        rest \<leftarrow> embed_inputs request (offset + len) lens;
        Some (take len (drop offset request) # rest)
      })"

definition fill_iovec :: "'a list \<Rightarrow> 'a \<Rightarrow> 'a list" where
  "fill_iovec xs d = xs @ replicate (PSA_MAX_IOVEC - length xs) d"

text \<open>The part both parsers share: handle, control word and the vector counts.\<close>

definition parse_ctrl :: "u8 list \<Rightarrow> rse_ps_request \<Rightarrow> int + rse_ps_request" where
  "parse_ctrl request out =
     (let ctrl = read_le32 request 8;
          out = out\<lparr>rq_handle := read_le32 request 4, rq_ctrl := ctrl, rq_type := rse_ctrl_type ctrl,
                    rq_in_len := rse_ctrl_in_len ctrl, rq_out_len := rse_ctrl_out_len ctrl\<rparr>
      in if rq_in_len out > PSA_MAX_IOVEC \<or> rq_out_len out > PSA_MAX_IOVEC \<or>
            rq_in_len out + rq_out_len out > PSA_MAX_IOVEC
         then Inl PSA_ERROR_INVALID_ARGUMENT
         else Inr out)"

definition parse_rse_ps_embed_request :: "u8 list \<Rightarrow> rse_ps_request \<Rightarrow> int + rse_ps_request" where
  "parse_rse_ps_embed_request request out =
     (if length request < 4 + 4 * 2 + 2 * PSA_MAX_IOVEC then Inl PSA_ERROR_INVALID_ARGUMENT
      else
        (case parse_ctrl request out of
           Inl e \<Rightarrow> Inl e
         | Inr out \<Rightarrow>
             (let io_sizes = map (\<lambda>i. ucast (read_le16 request (12 + 2 * i)) :: u32) [0..<PSA_MAX_IOVEC]
              in case embed_inputs request (12 + 2 * PSA_MAX_IOVEC) (map unat (take (rq_in_len out) io_sizes)) of
                   None \<Rightarrow> Inl PSA_ERROR_INVALID_ARGUMENT
                 | Some inputs \<Rightarrow>
                     Inr (out\<lparr>rq_inputs := fill_iovec inputs [],
                              rq_out_caps := fill_iovec (take (rq_out_len out) (drop (rq_in_len out) io_sizes)) 0\<rparr>))))"

text \<open>The input loop of the pointer access parser reads each vector from guest memory.\<close>

primrec pointer_inputs :: "'m bus \<Rightarrow> (u64 \<times> nat) list \<Rightarrow> 'm \<Rightarrow> u8 list list option \<times> 'm" where
  "pointer_inputs bus [] m = (Some [], m)"
| "pointer_inputs bus (v # vs) m =
     (let (ok, bs, m1) = mem_read_bytes bus (fst v) (replicate (snd v) 0) m
      in if \<not> ok then (None, m1)
         else (let (rest, m2) = pointer_inputs bus vs m1 in (map_option ((#) bs) rest, m2)))"

definition parse_rse_ps_pointer_request ::
    "'m bus \<Rightarrow> u8 list \<Rightarrow> rse_ps_request \<Rightarrow> 'm \<Rightarrow> (int + rse_ps_request) \<times> 'm" where
  "parse_rse_ps_pointer_request bus request out m =
     (if length request < 4 + 4 * 2 + 4 * PSA_MAX_IOVEC + 8 * PSA_MAX_IOVEC
      then (Inl PSA_ERROR_INVALID_ARGUMENT, m)
      else
        (case parse_ctrl request out of
           Inl e \<Rightarrow> (Inl e, m)
         | Inr out \<Rightarrow>
             (let io_sizes = map (\<lambda>i. read_le32 request (12 + 4 * i)) [0..<PSA_MAX_IOVEC];
                  host_ptrs = map (\<lambda>i. read_le64 request (12 + 4 * PSA_MAX_IOVEC + 8 * i)) [0..<PSA_MAX_IOVEC];
                  (inputs, m) = pointer_inputs bus (zip (take (rq_in_len out) host_ptrs)
                                  (map unat (take (rq_in_len out) io_sizes))) m
              in case inputs of
                   None \<Rightarrow> (Inl PSA_ERROR_COMMUNICATION_FAILURE, m)
                 | Some inputs \<Rightarrow>
                     (Inr (out\<lparr>rq_inputs := fill_iovec inputs [],
                               rq_out_caps := fill_iovec (take (rq_out_len out) (drop (rq_in_len out) io_sizes)) 0,
                               rq_out_ptrs := fill_iovec (take (rq_out_len out) (drop (rq_in_len out) host_ptrs)) 0\<rparr>),
                      m))))"

definition request_header :: "u8 list \<Rightarrow> rse_ps_request \<Rightarrow> rse_ps_request" where
  "request_header request out =
     out\<lparr>rq_protocol := request ! 0, rq_seq := request ! 1,
         rq_client_id := ucast (request ! 2) OR push_bit 8 (ucast (request ! 3))\<rparr>"

definition parse_rse_ps_request ::
    "'m bus \<Rightarrow> u8 list \<Rightarrow> rse_ps_request \<Rightarrow> 'm \<Rightarrow> (int + rse_ps_request) \<times> 'm" where
  "parse_rse_ps_request bus request out m =
     (if length request < 4 then (Inl PSA_ERROR_INVALID_ARGUMENT, m)
      else
        (let out = request_header request out
         in if rq_protocol out = RSE_COMMS_PROTOCOL_EMBED
            then (parse_rse_ps_embed_request request out, m)
            else if rq_protocol out = RSE_COMMS_PROTOCOL_POINTER_ACCESS
            then parse_rse_ps_pointer_request bus request out m
            else (Inl PSA_ERROR_NOT_SUPPORTED, m)))"

subsection \<open>Outputs\<close>

text \<open>The output vectors and their sizes, the two arrays every handler fills.\<close>

record ps_outputs =
  outputs :: "u8 list list"
  out_sizes :: "u32 list"

definition empty_outputs :: ps_outputs where
  "empty_outputs = \<lparr>outputs = replicate PSA_MAX_IOVEC [], out_sizes = replicate PSA_MAX_IOVEC 0\<rparr>"

definition set_ps_output :: "rse_ps_request \<Rightarrow> ps_outputs \<Rightarrow> nat \<Rightarrow> u8 list \<Rightarrow> int \<times> ps_outputs" where
  "set_ps_output request outs index v =
     (if index \<ge> rq_out_len request \<or> index \<ge> PSA_MAX_IOVEC then (PSA_ERROR_INVALID_ARGUMENT, outs)
      else if length v > unat (rq_out_caps request ! index) then (PSA_ERROR_INVALID_ARGUMENT, outs)
      else (PSA_SUCCESS, outs\<lparr>outputs := (outputs outs)[index := v],
                             out_sizes := (out_sizes outs)[index := of_nat (length v)]\<rparr>))"

subsection \<open>Firmware update\<close>

definition fwu_component_max_size :: "u8 \<Rightarrow> u32" where
  "fwu_component_max_size component =
     (if component = 0 then 0x00020000
      else if component = 1 then 0x00040000
      else if component = 2 then 0x00100000
      else if component = 3 then 0x00240000
      else if component = 4 then 0x00100000
      else 0)"

definition fwu_component_location :: "u8 \<Rightarrow> u32" where
  "fwu_component_location component =
     (if component = 0 then 0x00007000
      else if component = 1 then 0x00027000
      else if component = 2 then 0x00067000
      else if component = 3 then 0x00007000
      else if component = 4 then 0x00167000
      else 0)"

definition fwu_component_info :: "u8 \<Rightarrow> u8 list" where
  "fwu_component_info component =
     (let info = replicate PSA_FWU_COMPONENT_INFO_SIZE 0;
          info = info[0 := PSA_FWU_READY AND 0xff, 8 := 1];
          info = append_at_u32 info 16 (fwu_component_max_size component);
          info = append_at_u32 info 20 PSA_FWU_FLAG_VOLATILE_STAGING;
          info = append_at_u32 info 24 (fwu_component_location component);
          info = append_at_u32 info 28 ESRT_FW_TYPE_SYSTEMFIRMWARE
      in append_at_u32 info 32 0x01000000)"

definition handle_rse_fwu_request :: "rse_ps_request \<Rightarrow> ps_outputs \<Rightarrow> int \<times> ps_outputs" where
  "handle_rse_fwu_request request outs =
     (if rq_type request \<noteq> TFM_FWU_QUERY then (PSA_ERROR_NOT_SUPPORTED, outs)
      else if rq_in_len request < 1 \<or> rq_out_len request < 1 \<or> rq_inputs request ! 0 = []
      then (PSA_ERROR_INVALID_ARGUMENT, outs)
      else
        (let component = rq_inputs request ! 0 ! 0
         in if component \<ge> TFM_FWU_COMPONENT_COUNT then (PSA_ERROR_DOES_NOT_EXIST, outs)
            else set_ps_output request outs 0 (fwu_component_info component)))"

subsection \<open>Measured boot\<close>

definition bounded_bytes :: "u8 list \<Rightarrow> nat \<Rightarrow> nat \<Rightarrow> nat \<Rightarrow> u8 list" where
  "bounded_bytes bs offset len max_len =
     (if offset \<ge> length bs then []
      else take (min (min len max_len) (length bs - offset)) (drop offset bs))"

definition extend_entry :: "rse_ps_request \<Rightarrow> measurement_entry" where
  "extend_entry request =
     (let inputs = rq_inputs request
      in \<lparr>me_valid = True,
          me_locked = (inputs ! 0 ! 1 \<noteq> 0),
          me_algorithm = read_le32 (inputs ! 0) 4,
          me_sw_type = bounded_bytes (inputs ! 0) 8 (unat (inputs ! 0 ! 40)) TFM_SW_TYPE_MAX_SIZE,
          me_version = bounded_bytes (inputs ! 2) 0 (length (inputs ! 2)) TFM_VERSION_MAX_SIZE,
          me_signer_id = bounded_bytes (inputs ! 1) 0 (length (inputs ! 1)) TFM_SIGNER_ID_MAX_SIZE,
          me_measurement = bounded_bytes (inputs ! 3) 0 (length (inputs ! 3)) TFM_MEASUREMENT_VALUE_MAX_SIZE\<rparr>)"

text \<open>\<^verbatim>\<open>std::copy\<close> into a vector; outside the vector it is undefined.\<close>

definition copy_into :: "u8 list \<Rightarrow> nat \<Rightarrow> u8 list \<Rightarrow> u8 list ub" where
  "copy_into v offset bs =
     (if offset + length bs \<le> length v then Some (take offset v @ bs @ drop (offset + length bs) v) else None)"

definition measurement_metadata :: "measurement_entry \<Rightarrow> u8 list ub" where
  "measurement_metadata e =
     do {
       let metadata = (replicate 56 0)[0 := if me_locked e then 1 else 0,
         4 := ucast (me_algorithm e), 5 := ucast (drop_bit 8 (me_algorithm e)),
         6 := ucast (drop_bit 16 (me_algorithm e)), 7 := ucast (drop_bit 24 (me_algorithm e))];
       metadata \<leftarrow> copy_into metadata 8 (me_sw_type e);
       let metadata = metadata[40 := of_nat (length (me_sw_type e))];
       metadata \<leftarrow> copy_into metadata 41 (me_version e);
       Some (metadata[55 := of_nat (length (me_version e))])
     }"

definition measured_boot_extend ::
    "rse_ps_request \<Rightarrow> 'a rse_services_scheme \<Rightarrow> int \<times> 'a rse_services_scheme" where
  "measured_boot_extend request s =
     (if rq_in_len request < 4 \<or> length (rq_inputs request ! 0) < 41 then (PSA_ERROR_INVALID_ARGUMENT, s)
      else
        (let index = unat (rq_inputs request ! 0 ! 0)
         in if index \<ge> TFM_MEASUREMENT_SLOT_COUNT then (PSA_ERROR_INVALID_ARGUMENT, s)
            else (PSA_SUCCESS, s\<lparr>m_measurements := (m_measurements s)(index := extend_entry request)\<rparr>)))"

definition measured_boot_read ::
    "rse_ps_request \<Rightarrow> ps_outputs \<Rightarrow> 'a rse_services_scheme \<Rightarrow> (int \<times> ps_outputs) ub" where
  "measured_boot_read request outs s =
     (if rq_in_len request < 1 \<or> rq_out_len request < 1 \<or> rq_inputs request ! 0 = []
      then Some (PSA_ERROR_INVALID_ARGUMENT, outs)
      else
        (let index = unat (rq_inputs request ! 0 ! 0)
         in if index \<ge> TFM_MEASUREMENT_SLOT_COUNT \<or> \<not> me_valid (m_measurements s index)
            then Some (PSA_ERROR_DOES_NOT_EXIST, outs)
            else do {
              let entry = m_measurements s index;
              metadata \<leftarrow> measurement_metadata entry;
              let (status, outs) = set_ps_output request outs 0 metadata;
              if status \<noteq> PSA_SUCCESS \<or> rq_out_len request < 2 then Some (status, outs)
              else
                (let (status, outs) = set_ps_output request outs 1 (me_measurement entry)
                 in if status \<noteq> PSA_SUCCESS \<or> rq_out_len request < 3 then Some (status, outs)
                    else Some (set_ps_output request outs 2 (me_signer_id entry)))
            }))"

definition handle_rse_measured_boot_request ::
    "rse_ps_request \<Rightarrow> ps_outputs \<Rightarrow> 'a rse_services_scheme \<Rightarrow> (int \<times> ps_outputs \<times> 'a rse_services_scheme) ub" where
  "handle_rse_measured_boot_request request outs s =
     (if rq_type request = TFM_MEASURED_BOOT_EXTEND
      then (let (status, s) = measured_boot_extend request s in Some (status, outs, s))
      else if rq_type request = TFM_MEASURED_BOOT_READ
      then do { (status, outs) \<leftarrow> measured_boot_read request outs s; Some (status, outs, s) }
      else Some (PSA_ERROR_NOT_SUPPORTED, outs, s))"

subsection \<open>Protected storage\<close>

definition ps_set :: "rse_ps_request \<Rightarrow> 'a rse_services_scheme \<Rightarrow> int \<times> 'a rse_services_scheme" where
  "ps_set request s =
     (let inputs = rq_inputs request
      in if rq_in_len request < 3 \<or> length (inputs ! 0) < 8 \<or> length (inputs ! 2) < 4
         then (PSA_ERROR_INVALID_ARGUMENT, s)
         else (PSA_SUCCESS, s\<lparr>m_ps_store := (m_ps_store s)
                 (read_le64 (inputs ! 0) 0 \<mapsto> \<lparr>ps_data = inputs ! 1, ps_flags = read_le32 (inputs ! 2) 0\<rparr>)\<rparr>))"

definition ps_get :: "rse_ps_request \<Rightarrow> ps_outputs \<Rightarrow> 'a rse_services_scheme \<Rightarrow> int \<times> ps_outputs" where
  "ps_get request outs s =
     (let inputs = rq_inputs request
      in if rq_in_len request < 2 \<or> rq_out_len request < 1 \<or> length (inputs ! 0) < 8 \<or> length (inputs ! 1) < 4
         then (PSA_ERROR_INVALID_ARGUMENT, outs)
         else
           (case m_ps_store s (read_le64 (inputs ! 0) 0) of
              None \<Rightarrow> (PSA_ERROR_DOES_NOT_EXIST, outs)
            | Some entry \<Rightarrow>
                (let offset = unat (read_le32 (inputs ! 1) 0)
                 in if offset > length (ps_data entry) then (PSA_ERROR_INVALID_ARGUMENT, outs)
                    else
                      (let available = length (ps_data entry) - offset;
                           copy_len = min available (unat (rq_out_caps request ! 0))
                       in set_ps_output request outs 0 (take copy_len (drop offset (ps_data entry)))))))"

definition ps_get_info :: "rse_ps_request \<Rightarrow> ps_outputs \<Rightarrow> 'a rse_services_scheme \<Rightarrow> int \<times> ps_outputs" where
  "ps_get_info request outs s =
     (let inputs = rq_inputs request
      in if rq_in_len request < 1 \<or> rq_out_len request < 1 \<or> length (inputs ! 0) < 8
         then (PSA_ERROR_INVALID_ARGUMENT, outs)
         else
           (case m_ps_store s (read_le64 (inputs ! 0) 0) of
              None \<Rightarrow> (PSA_ERROR_DOES_NOT_EXIST, outs)
            | Some entry \<Rightarrow>
                (let len = of_nat (length (ps_data entry))
                 in set_ps_output request outs 0 (append_u32 (append_u32 (append_u32 [] len) len) (ps_flags entry)))))"

definition ps_remove :: "rse_ps_request \<Rightarrow> 'a rse_services_scheme \<Rightarrow> int \<times> 'a rse_services_scheme" where
  "ps_remove request s =
     (let inputs = rq_inputs request
      in if rq_in_len request < 1 \<or> length (inputs ! 0) < 8 then (PSA_ERROR_INVALID_ARGUMENT, s)
         else
           (let uid = read_le64 (inputs ! 0) 0
            in if m_ps_store s uid = None then (PSA_ERROR_DOES_NOT_EXIST, s)
               else (PSA_SUCCESS, s\<lparr>m_ps_store := (m_ps_store s)(uid := None)\<rparr>)))"

definition le32_bytes :: "u32 \<Rightarrow> u8 list" where
  "le32_bytes v = append_u32 [] v"

definition ps_get_support :: "rse_ps_request \<Rightarrow> ps_outputs \<Rightarrow> int \<times> ps_outputs" where
  "ps_get_support request outs =
     (if rq_out_len request < 1 then (PSA_ERROR_INVALID_ARGUMENT, outs)
      else set_ps_output request outs 0 (le32_bytes 0))"

definition handle_rse_ps_request ::
    "rse_ps_request \<Rightarrow> ps_outputs \<Rightarrow> 'a rse_services_scheme \<Rightarrow> (int \<times> ps_outputs \<times> 'a rse_services_scheme) ub" where
  "handle_rse_ps_request request outs s =
     (if rq_handle request = TFM_MEASURED_BOOT_HANDLE then handle_rse_measured_boot_request request outs s
      else if rq_handle request = TFM_FIRMWARE_UPDATE_SERVICE_HANDLE
      then (let (status, outs) = handle_rse_fwu_request request outs in Some (status, outs, s))
      else if rq_handle request \<noteq> TFM_PROTECTED_STORAGE_SERVICE_HANDLE then Some (PSA_ERROR_NOT_SUPPORTED, outs, s)
      else if rq_type request = TFM_PS_SET then (let (status, s) = ps_set request s in Some (status, outs, s))
      else if rq_type request = TFM_PS_GET then (let (status, outs) = ps_get request outs s in Some (status, outs, s))
      else if rq_type request = TFM_PS_GET_INFO
      then (let (status, outs) = ps_get_info request outs s in Some (status, outs, s))
      else if rq_type request = TFM_PS_REMOVE then (let (status, s) = ps_remove request s in Some (status, outs, s))
      else if rq_type request = TFM_PS_GET_SUPPORT
      then (let (status, outs) = ps_get_support request outs in Some (status, outs, s))
      else Some (PSA_ERROR_NOT_SUPPORTED, outs, s))"

subsection \<open>The reply\<close>

text \<open>The loop that writes the outputs of a pointer access request; it stops at the first failure.\<close>

primrec write_outputs :: "'m bus \<Rightarrow> (u64 \<times> u8 list) list \<Rightarrow> 'm \<Rightarrow> bool \<times> 'm" where
  "write_outputs bus [] m = (True, m)"
| "write_outputs bus (v # vs) m =
     (let (ok, m) = mem_write_bytes bus (fst v) (snd v) m
      in if \<not> ok then (False, m) else write_outputs bus vs m)"

definition deliver_outputs ::
    "'m bus \<Rightarrow> rse_ps_request \<Rightarrow> int \<Rightarrow> ps_outputs \<Rightarrow> 'm \<Rightarrow> int \<times> ps_outputs \<times> 'm" where
  "deliver_outputs bus parsed status outs m =
     (if status = PSA_SUCCESS \<and> rq_protocol parsed = RSE_COMMS_PROTOCOL_POINTER_ACCESS
      then (let (ok, m) = write_outputs bus (zip (take (rq_out_len parsed) (rq_out_ptrs parsed)) (outputs outs)) m
            in if ok then (status, outs, m)
               else (PSA_ERROR_COMMUNICATION_FAILURE, outs\<lparr>out_sizes := replicate PSA_MAX_IOVEC 0\<rparr>, m))
      else (status, outs, m))"

text \<open>The encoding of the reply, from the request's header fields, the status and the outputs.\<close>

definition encode_reply :: "rse_ps_request \<Rightarrow> int \<Rightarrow> ps_outputs \<Rightarrow> u8 list" where
  "encode_reply parsed status outs =
     (let reply = append_u32 (append_u16 [rq_protocol parsed, rq_seq parsed] (rq_client_id parsed)) (word_of_int status)
      in if rq_protocol parsed = RSE_COMMS_PROTOCOL_POINTER_ACCESS
         then fold (\<lambda>i r. append_u32 r (out_sizes outs ! i)) [0..<PSA_MAX_IOVEC] reply
         else
           (let reply = fold (\<lambda>i r. append_u16 r (ucast (out_sizes outs ! i))) [0..<PSA_MAX_IOVEC] reply
            in if status = PSA_SUCCESS
               then fold (\<lambda>i r. r @ outputs outs ! i) [0..<rq_out_len parsed] reply
               else reply))"

definition build_rse_ps_reply ::
    "'m bus \<Rightarrow> u8 list \<Rightarrow> 'a rse_services_scheme \<Rightarrow> 'm \<Rightarrow> (u8 list \<times> 'a rse_services_scheme \<times> 'm) ub" where
  "build_rse_ps_reply bus request s m =
     do {
       let (result, m) = parse_rse_ps_request bus request empty_request m;
       (parsed, status, outs, s) \<leftarrow>
         (case result of
            Inr parsed \<Rightarrow> do {
              (status, outs, s) \<leftarrow> handle_rse_ps_request parsed empty_outputs s;
              Some (parsed, status, outs, s)
            }
          | Inl e \<Rightarrow>
              Some (if length request \<ge> 4 then request_header request empty_request else empty_request,
                    e, empty_outputs, s));
       let (status, outs, m) = deliver_outputs bus parsed status outs m;
       Some (encode_reply parsed status outs, s, m)
     }"

definition build_rse_success_reply :: "u8 list \<Rightarrow> u8 list" where
  "build_rse_success_reply request =
     (let at = (\<lambda>i. if length request \<ge> i + 1 then request ! i else 0);
          protocol = (if length request \<ge> 1 then request ! 0 else RSE_COMMS_PROTOCOL_EMBED);
          reply = append_u32 [protocol, at 1, at 2, at 3] (word_of_int PSA_SUCCESS)
      in if protocol = RSE_COMMS_PROTOCOL_POINTER_ACCESS
         then fold (\<lambda>_ r. append_u32 r 0) [0..<PSA_MAX_IOVEC] reply
         else fold (\<lambda>_ r. append_u16 r 0) [0..<PSA_MAX_IOVEC] reply)"

subsection \<open>Encodings\<close>

lemma append_u32_eq [simp]: "append_u32 out v = out @ le_bytes 4 v"
  by (simp add: append_u32_def le_bytes_4)

lemma append_u16_eq [simp]: "append_u16 out v = out @ le_bytes 2 v"
  by (simp add: append_u16_def le_bytes_2)

lemma read_le32_at: "length pre = off \<Longrightarrow> read_le32 (pre @ le_bytes 4 v @ post) off = v"
  by (auto simp: read_le32_def)

lemma read_le16_at: "length pre = off \<Longrightarrow> read_le16 (pre @ le_bytes 2 v @ post) off = v"
  by (auto simp: read_le16_def)

lemma read_le64_at: "length pre = off \<Longrightarrow> read_le64 (pre @ le_bytes 8 v @ post) off = v"
  by (auto simp: read_le64_def)

lemma read_le64_le_bytes [simp]: "read_le64 (le_bytes 8 v) 0 = v"
  using read_le64_at[of "[]" 0 v "[]"] by simp

lemma read_le32_le_bytes [simp]: "read_le32 (le_bytes 4 v) 0 = v"
  using read_le32_at[of "[]" 0 v "[]"] by simp

lemma read_le16_table:
  "i < length ws \<Longrightarrow> length pre = off \<Longrightarrow>
   read_le16 (pre @ concat (map (le_bytes 2) ws) @ post) (off + 2 * i) = ws ! i"
proof (induction ws arbitrary: pre off i)
  case (Cons w ws)
  show ?case
  proof (cases i)
    case 0
    then show ?thesis using read_le16_at[OF Cons.prems(2), of w] by simp
  next
    case (Suc j)
    then show ?thesis using Cons.IH[of j "pre @ le_bytes 2 w" "off + 2"] Cons.prems by (simp add: add.assoc)
  qed
qed simp

text \<open>Loops over the four vectors, unrolled.\<close>

lemma embed_inputs_concat:
  "length pre = off \<Longrightarrow> embed_inputs (pre @ concat ins @ post) off (map length ins) = Some ins"
proof (induction ins arbitrary: pre off)
  case (Cons x ins)
  then show ?case using Cons.IH[of "pre @ x" "off + length x"] by simp
qed simp

subsection \<open>Requests as clients encode them\<close>

text \<open>
  The embedded message a client sends for a call: header, handle, control word, the four 16-bit
  vector sizes (inputs, then output capacities), and the input vectors.
\<close>

definition control_word :: "u32 \<Rightarrow> nat \<Rightarrow> nat \<Rightarrow> u32" where
  "control_word ty n_in n_out = ty OR push_bit 16 (of_nat n_out) OR push_bit 24 (of_nat n_in)"

definition embed_message :: "u8 \<Rightarrow> u16 \<Rightarrow> u32 \<Rightarrow> u32 \<Rightarrow> u8 list list \<Rightarrow> u16 list \<Rightarrow> u8 list" where
  "embed_message seq client handle ty ins caps =
     [RSE_COMMS_PROTOCOL_EMBED, seq] @ le_bytes 2 client @ le_bytes 4 handle @
     le_bytes 4 (control_word ty (length ins) (length caps)) @
     concat (map (le_bytes 2) (fill_iovec (map (\<lambda>x. of_nat (length x)) ins @ caps) 0)) @ concat ins"

definition call_ok :: "u32 \<Rightarrow> u8 list list \<Rightarrow> u16 list \<Rightarrow> bool" where
  "call_ok ty ins caps \<longleftrightarrow> ty < 2 ^ 16 \<and> length ins + length caps \<le> PSA_MAX_IOVEC \<and> (\<forall>x \<in> set ins. length x < 2 ^ 16)"

definition call_request :: "u8 \<Rightarrow> u16 \<Rightarrow> u32 \<Rightarrow> u32 \<Rightarrow> u8 list list \<Rightarrow> u16 list \<Rightarrow> rse_ps_request" where
  "call_request seq client handle ty ins caps =
     \<lparr>rq_protocol = RSE_COMMS_PROTOCOL_EMBED, rq_seq = seq, rq_client_id = client, rq_handle = handle,
      rq_ctrl = control_word ty (length ins) (length caps), rq_type = ty,
      rq_in_len = length ins, rq_out_len = length caps, rq_inputs = fill_iovec ins [],
      rq_out_caps = fill_iovec (map ucast caps) 0, rq_out_ptrs = replicate PSA_MAX_IOVEC 0\<rparr>"

lemma control_fields:
  assumes "ty < 2 ^ 16" and "n_in \<le> 4" and "n_out \<le> 4"
  shows "rse_ctrl_type (control_word ty n_in n_out) = ty"
    and "rse_ctrl_in_len (control_word ty n_in n_out) = n_in"
    and "rse_ctrl_out_len (control_word ty n_in n_out) = n_out"
proof -
  have small: "j < 3" if "bit n j" "n \<le> 4" for n j :: nat
  proof -
    have "2 ^ j < (2 :: nat) ^ 3" using bit_nat_le[OF that(1)] that(2) by simp
    then show ?thesis by (rule power_less_imp_less_exp[rotated]) simp
  qed
  have ty: "j < 16" if "bit ty j" for j using bit_lt_exp[OF assms(1) _ that] by simp
  have m: "(0xffff :: u32) = mask 16" "(7 :: u32) = mask 3" by (simp_all add: mask_eq_exp_minus_1)
  have "rse_ctrl_type (control_word ty n_in n_out) = ty"
    unfolding rse_ctrl_type_def control_word_def m
    by (rule bit_word_eqI) (auto simp: bit_simps dest: ty)
  moreover have "drop_bit 16 (control_word ty n_in n_out) AND 7 = of_nat n_out"
    unfolding control_word_def m
    by (rule bit_word_eqI) (auto simp: bit_simps dest: ty small[OF _ assms(2)] small[OF _ assms(3)])
  moreover have "drop_bit 24 (control_word ty n_in n_out) AND 7 = of_nat n_in"
    unfolding control_word_def m
    by (rule bit_word_eqI) (auto simp: bit_simps dest: ty small[OF _ assms(2)] small[OF _ assms(3)])
  ultimately show "rse_ctrl_type (control_word ty n_in n_out) = ty"
    and "rse_ctrl_in_len (control_word ty n_in n_out) = n_in"
    and "rse_ctrl_out_len (control_word ty n_in n_out) = n_out"
    using assms(2,3) by (simp_all add: rse_ctrl_in_len_def rse_ctrl_out_len_def unat_of_nat_small)
qed

lemma length_fill_iovec [simp]: "length xs \<le> 4 \<Longrightarrow> length (fill_iovec xs d) = 4"
  by (simp add: fill_iovec_def)

lemma parse_embed_message:
  assumes "call_ok ty ins caps"
  shows "parse_rse_ps_request bus (embed_message seq client handle ty ins caps) empty_request m =
    (Inr (call_request seq client handle ty ins caps), m)"
proof -
  let ?ctrl = "control_word ty (length ins) (length caps)"
  let ?ws = "fill_iovec (map (\<lambda>x. of_nat (length x)) ins @ caps) (0 :: u16)"
  let ?req = "embed_message seq client handle ty ins caps"
  let ?hd = "[RSE_COMMS_PROTOCOL_EMBED, seq] @ le_bytes 2 client"
  from assms have len: "length ins \<le> 4" "length caps \<le> 4" "length ins + length caps \<le> 4" and ty: "ty < 2 ^ 16"
    and sz: "\<And>x. x \<in> set ins \<Longrightarrow> length x < 2 ^ 16"
    by (auto simp: call_ok_def)
  have ws: "length ?ws = 4" using len by simp
  have tables: "length (concat (map (le_bytes 2) ?ws)) = 8"
    using ws by (simp add: length_concat o_def sum_list_triv)
  have req: "?req = ?hd @ le_bytes 4 handle @ le_bytes 4 ?ctrl @ concat (map (le_bytes 2) ?ws) @ concat ins"
    by (simp add: embed_message_def)
  have handle: "read_le32 ?req 4 = handle"
    unfolding req by (rule read_le32_at) simp
  have ctrl: "read_le32 ?req 8 = ?ctrl"
    using read_le32_at[of "?hd @ le_bytes 4 handle" 8 ?ctrl] unfolding req by simp
  have size: "read_le16 ?req (12 + 2 * i) = ?ws ! i" if "i < 4" for i
    using read_le16_table[of i ?ws "?hd @ le_bytes 4 handle @ le_bytes 4 ?ctrl" 12 "concat ins"] that ws
    unfolding req by simp
  have sizes: "map (\<lambda>i. ucast (read_le16 ?req (12 + 2 * i)) :: u32) [0..<4] = map ucast ?ws"
    using size ws by (intro nth_equalityI) auto
  have ins_sizes: "map unat (take (length ins) (map ucast ?ws :: u32 list)) = map length ins"
  proof -
    have "unat (ucast (of_nat n :: u16) :: u32) = n" if "n < 2 ^ 16" for n
      using that by (simp add: unsigned_ucast_eq unat_of_nat_small take_bit_nat_eq_self)
    then show ?thesis using sz by (intro nth_equalityI) (simp_all add: fill_iovec_def nth_append)
  qed
  have caps: "take (length caps) (drop (length ins) (map ucast ?ws :: u32 list)) = map ucast caps"
    by (simp add: fill_iovec_def)
  have "embed_inputs ?req 20 (map length ins) = Some ins"
    using embed_inputs_concat[of "?hd @ le_bytes 4 handle @ le_bytes 4 ?ctrl @ concat (map (le_bytes 2) ?ws)" 20 ins "[]"] tables
    unfolding req by simp
  moreover have "20 \<le> length ?req" using tables unfolding req by simp
  moreover have "request_header ?req empty_request = empty_request\<lparr>rq_seq := seq, rq_client_id := client\<rparr>"
  proof -
    have "(ucast (ucast client :: u8) OR push_bit 8 (ucast (ucast (drop_bit 8 client) :: u8))) = client"
      by (rule bit_word_eqI) (auto simp: bit_simps)
    then show ?thesis
      unfolding req by (simp add: request_header_def le_bytes_2 empty_request_def nth_Cons')
  qed
  ultimately show ?thesis
    using len control_fields[OF ty len(1,2)]
    by (simp add: parse_rse_ps_request_def parse_rse_ps_embed_request_def parse_ctrl_def handle ctrl sizes ins_sizes
        caps call_request_def empty_request_def Let_def)
qed

subsection \<open>The state of the services\<close>

text \<open>The bounds the recorded measurements keep, so that the metadata of a slot fits its 56 bytes.\<close>

definition measurement_ok :: "measurement_entry \<Rightarrow> bool" where
  "measurement_ok e \<longleftrightarrow> length (me_sw_type e) \<le> TFM_SW_TYPE_MAX_SIZE \<and> length (me_version e) \<le> TFM_VERSION_MAX_SIZE \<and>
     length (me_signer_id e) \<le> TFM_SIGNER_ID_MAX_SIZE \<and> length (me_measurement e) \<le> TFM_MEASUREMENT_VALUE_MAX_SIZE"

definition services_ok :: "'a rse_services_scheme \<Rightarrow> bool" where
  "services_ok s \<longleftrightarrow> (\<forall>i. measurement_ok (m_measurements s i))"

lemma length_bounded_bytes: "length (bounded_bytes bs off len mx) \<le> mx"
  by (auto simp: bounded_bytes_def)

lemma extend_entry_ok: "measurement_ok (extend_entry request)"
  by (simp add: measurement_ok_def extend_entry_def Let_def length_bounded_bytes)

lemma metadata_length:
  assumes "measurement_ok e"
  obtains bs where "measurement_metadata e = Some bs" "length bs = 56"
  using assms that by (auto simp: measurement_metadata_def copy_into_def measurement_ok_def Let_def)

lemma measured_boot_extend_ok: "services_ok s \<Longrightarrow> services_ok (snd (measured_boot_extend request s))"
  by (auto simp: measured_boot_extend_def services_ok_def extend_entry_ok Let_def)

lemma measured_boot_read_defined: "services_ok s \<Longrightarrow> measured_boot_read request outs s \<noteq> None"
proof -
  assume "services_ok s"
  then have "measurement_ok (m_measurements s (unat (rq_inputs request ! 0 ! 0)))" by (simp add: services_ok_def)
  then obtain bs where "measurement_metadata (m_measurements s (unat (rq_inputs request ! 0 ! 0))) = Some bs"
    by (rule metadata_length)
  then show ?thesis by (auto simp: measured_boot_read_def Let_def split: prod.split)
qed

lemma storage_frame [simp]:
  "services_ok (snd (ps_set request s)) = services_ok s" "services_ok (snd (ps_remove request s)) = services_ok s"
  by (simp_all add: ps_set_def ps_remove_def services_ok_def Let_def)

lemma handle_ok:
  assumes "services_ok s"
  shows "\<exists>r. handle_rse_ps_request request outs s = Some r \<and> services_ok (snd (snd r))"
proof -
  have "\<exists>r. handle_rse_measured_boot_request request outs s = Some r \<and> services_ok (snd (snd r))"
    using measured_boot_extend_ok[OF assms, of request] measured_boot_read_defined[OF assms, of request outs] assms
    by (auto simp: handle_rse_measured_boot_request_def split: prod.split)
  moreover have "services_ok (snd (ps_set request s))" "services_ok (snd (ps_remove request s))" using assms by simp_all
  ultimately show ?thesis
    using assms unfolding handle_rse_ps_request_def by (simp add: split_beta Let_def)
qed

lemma encode_reply_eq:
  "encode_reply parsed status outs =
     [rq_protocol parsed, rq_seq parsed] @ le_bytes 2 (rq_client_id parsed) @ le_bytes 4 (word_of_int status :: u32) @
     (if rq_protocol parsed = RSE_COMMS_PROTOCOL_POINTER_ACCESS
      then concat (map (\<lambda>i. le_bytes 4 (out_sizes outs ! i)) [0..<4])
      else concat (map (\<lambda>i. le_bytes 2 (ucast (out_sizes outs ! i) :: u16)) [0..<4]) @
        (if status = PSA_SUCCESS then concat (map (\<lambda>i. outputs outs ! i) [0..<rq_out_len parsed]) else []))"
  by (simp add: encode_reply_def fold_append Let_def)

definition same_header :: "rse_ps_request \<Rightarrow> rse_ps_request \<Rightarrow> bool" where
  "same_header a b \<longleftrightarrow> rq_protocol a = rq_protocol b \<and> rq_seq a = rq_seq b \<and> rq_client_id a = rq_client_id b"

lemma parse_ctrl_header: "parse_ctrl request out = Inr out' \<Longrightarrow> same_header out' out"
  by (auto simp: parse_ctrl_def same_header_def Let_def split: if_splits)

lemma parse_header:
  assumes "parse_rse_ps_request bus request out m = (Inr parsed, m')"
  shows "4 \<le> length request \<and> same_header parsed (request_header request out)"
  using assms
  by (auto simp: parse_rse_ps_request_def parse_rse_ps_embed_request_def parse_rse_ps_pointer_request_def same_header_def
      Let_def split: if_splits sum.splits option.splits prod.splits dest: parse_ctrl_header[unfolded same_header_def])

lemma header_bytes:
  assumes "4 \<le> length request" and "same_header parsed (request_header request out)"
  shows "[rq_protocol parsed, rq_seq parsed] @ le_bytes 2 (rq_client_id parsed) = take 4 request"
proof -
  obtain a b c d rest where r: "request = a # b # c # d # rest"
    using assms(1) by (metis (no_types) Suc_le_length_iff numeral_eq_Suc pred_numeral_simps(2,3) BitM.simps(1,2))
  have "ucast (ucast c OR push_bit 8 (ucast d) :: u16) = c"
    "ucast (drop_bit 8 (ucast c OR push_bit 8 (ucast d) :: u16)) = d"
    by (rule bit_word_eqI; auto simp: bit_simps dest: bit_imp_le_length)+
  then show ?thesis using assms(2) by (simp add: same_header_def request_header_def r le_bytes_2)
qed



subsection \<open>Protected storage as a map\<close>

text \<open>
  The abstract service: a map from identifiers to data with flags. A call has a status, the bytes
  it returns and the new map.
\<close>

datatype ps_call =
    Ps_set u64 "u8 list" u32
  | Ps_get u64 u32 u16
  | Ps_get_info u64 u16
  | Ps_remove u64

fun ps_spec :: "ps_call \<Rightarrow> (u64 \<rightharpoonup> ps_entry) \<Rightarrow> int \<times> u8 list \<times> (u64 \<rightharpoonup> ps_entry)" where
  "ps_spec (Ps_set uid bytes flags) st = (PSA_SUCCESS, [], st(uid \<mapsto> \<lparr>ps_data = bytes, ps_flags = flags\<rparr>))"
| "ps_spec (Ps_get uid off cap) st =
     (case st uid of
        None \<Rightarrow> (PSA_ERROR_DOES_NOT_EXIST, [], st)
      | Some e \<Rightarrow> if unat off > length (ps_data e) then (PSA_ERROR_INVALID_ARGUMENT, [], st)
                   else (PSA_SUCCESS, take (unat cap) (drop (unat off) (ps_data e)), st))"
| "ps_spec (Ps_get_info uid cap) st =
     (case st uid of
        None \<Rightarrow> (PSA_ERROR_DOES_NOT_EXIST, [], st)
      | Some e \<Rightarrow> if unat cap < 12 then (PSA_ERROR_INVALID_ARGUMENT, [], st)
                   else (PSA_SUCCESS, concat (map (le_bytes 4)
                     [of_nat (length (ps_data e)), of_nat (length (ps_data e)), ps_flags e]), st))"
| "ps_spec (Ps_remove uid) st =
     (if st uid = None then (PSA_ERROR_DOES_NOT_EXIST, [], st) else (PSA_SUCCESS, [], st(uid := None)))"

text \<open>The messages of a call and of an answer.\<close>

fun ps_message :: "u8 \<Rightarrow> u16 \<Rightarrow> ps_call \<Rightarrow> u8 list" where
  "ps_message seq client (Ps_set uid bytes flags) =
     embed_message seq client TFM_PROTECTED_STORAGE_SERVICE_HANDLE TFM_PS_SET [le_bytes 8 uid, bytes, le_bytes 4 flags] []"
| "ps_message seq client (Ps_get uid off cap) =
     embed_message seq client TFM_PROTECTED_STORAGE_SERVICE_HANDLE TFM_PS_GET [le_bytes 8 uid, le_bytes 4 off] [cap]"
| "ps_message seq client (Ps_get_info uid cap) =
     embed_message seq client TFM_PROTECTED_STORAGE_SERVICE_HANDLE TFM_PS_GET_INFO [le_bytes 8 uid] [cap]"
| "ps_message seq client (Ps_remove uid) =
     embed_message seq client TFM_PROTECTED_STORAGE_SERVICE_HANDLE TFM_PS_REMOVE [le_bytes 8 uid] []"

definition ps_answer :: "u8 \<Rightarrow> u16 \<Rightarrow> int \<Rightarrow> u8 list \<Rightarrow> u8 list" where
  "ps_answer seq client status bytes =
     [RSE_COMMS_PROTOCOL_EMBED, seq] @ le_bytes 2 client @ le_bytes 4 (word_of_int status :: u32) @
     le_bytes 2 (of_nat (length bytes) :: u16) @ replicate 6 0 @ bytes"

fun ps_call_ok :: "ps_call \<Rightarrow> bool" where
  "ps_call_ok (Ps_set uid bytes flags) \<longleftrightarrow> length bytes < 2 ^ 16"
| "ps_call_ok _ \<longleftrightarrow> True"

lemma call_request_sel [simp]:
  "rq_protocol (call_request q c h t ins caps) = 0" "rq_seq (call_request q c h t ins caps) = q"
  "rq_client_id (call_request q c h t ins caps) = c" "rq_handle (call_request q c h t ins caps) = h"
  "rq_type (call_request q c h t ins caps) = t" "rq_in_len (call_request q c h t ins caps) = length ins"
  "rq_out_len (call_request q c h t ins caps) = length caps"
  "rq_inputs (call_request q c h t ins caps) = fill_iovec ins []"
  "rq_out_caps (call_request q c h t ins caps) = fill_iovec (map ucast caps) 0"
  by (simp_all add: call_request_def)

lemma embed_reply:
  assumes "call_ok ty ins caps"
    and "handle_rse_ps_request (call_request seq client handle ty ins caps) empty_outputs s = Some (status, outs, s')"
  shows "build_rse_ps_reply bus (embed_message seq client handle ty ins caps) s m =
    Some (encode_reply (call_request seq client handle ty ins caps) status outs, s', m)"
  using assms(2) by (simp add: build_rse_ps_reply_def parse_embed_message[OF assms(1)] deliver_outputs_def)

text \<open>What the encoding of no output, and of a first output, is.\<close>

lemma reply_none:
  "status \<noteq> PSA_SUCCESS \<or> caps = [] \<Longrightarrow>
   encode_reply (call_request seq client handle ty ins caps) status empty_outputs = ps_answer seq client status []"
  by (auto simp: encode_reply_eq empty_outputs_def ps_answer_def upt_4 replicate_6)

lemma reply_first:
  "encode_reply (call_request seq client handle ty ins [cap]) PSA_SUCCESS
     (empty_outputs\<lparr>outputs := (outputs empty_outputs)[0 := bs], out_sizes := (out_sizes empty_outputs)[0 := of_nat (length bs)]\<rparr>)
   = ps_answer seq client PSA_SUCCESS bs"
proof -
  have "ucast (of_nat n :: u32) = (of_nat n :: u16)" for n
    by (rule bit_word_eqI) (simp add: bit_simps)
  then show ?thesis by (simp add: encode_reply_eq empty_outputs_def ps_answer_def upt_4 replicate_6)
qed

lemma iovec_nth [simp]:
  "fill_iovec [a] d ! 0 = a" "fill_iovec [a, b] d ! 0 = a" "fill_iovec [a, b] d ! Suc 0 = b"
  "fill_iovec [a, b, c] d ! 0 = a" "fill_iovec [a, b, c] d ! Suc 0 = b" "fill_iovec [a, b, c] d ! 2 = c"
  by (simp_all add: fill_iovec_def numeral_2_eq_2)

lemma ps_get_refines:
  assumes "ps_spec (Ps_get uid off cap) (m_ps_store s) = (status, bytes, st)"
  shows "build_rse_ps_reply bus (ps_message seq client (Ps_get uid off cap)) s m =
    Some (ps_answer seq client status bytes, s\<lparr>m_ps_store := st\<rparr>, m)"
proof -
  have ok: "call_ok TFM_PS_GET [le_bytes 8 uid, le_bytes 4 off] [cap]" by (simp add: call_ok_def)
  note reply = embed_reply[OF ok, of seq client TFM_PROTECTED_STORAGE_SERVICE_HANDLE s]
  show ?thesis
  proof (cases "\<exists>e. m_ps_store s uid = Some e \<and> unat off \<le> length (ps_data e)")
    case True
    then obtain e where e: "m_ps_store s uid = Some e" "unat off \<le> length (ps_data e)" by blast
    define bs where "bs = take (unat cap) (drop (unat off) (ps_data e))"
    have "take (min (length (ps_data e) - unat off) (unat cap)) (drop (unat off) (ps_data e)) = bs"
      by (simp add: bs_def min_def)
    moreover have "length bs = min (length (ps_data e) - unat off) (unat cap)" by (simp add: bs_def)
    ultimately have "handle_rse_ps_request (call_request seq client TFM_PROTECTED_STORAGE_SERVICE_HANDLE TFM_PS_GET
        [le_bytes 8 uid, le_bytes 4 off] [cap]) empty_outputs s = Some (PSA_SUCCESS, empty_outputs\<lparr>outputs :=
        (outputs empty_outputs)[0 := bs], out_sizes := (out_sizes empty_outputs)[0 := of_nat (length bs)]\<rparr>, s)"
      using e by (simp add: handle_rse_ps_request_def ps_get_def set_ps_output_def)
    note answer = reply[OF this, unfolded reply_first]
    have "status = PSA_SUCCESS \<and> bytes = bs \<and> st = m_ps_store s"
      using assms e by (auto simp: bs_def)
    then show ?thesis using answer by simp
  next
    case False
    then show ?thesis
      using assms reply
      by (auto simp: handle_rse_ps_request_def ps_get_def reply_none split: option.splits)
  qed
qed

lemma ps_get_info_refines:
  assumes "ps_spec (Ps_get_info uid cap) (m_ps_store s) = (status, bytes, st)"
  shows "build_rse_ps_reply bus (ps_message seq client (Ps_get_info uid cap)) s m =
    Some (ps_answer seq client status bytes, s\<lparr>m_ps_store := st\<rparr>, m)"
proof -
  have ok: "call_ok TFM_PS_GET_INFO [le_bytes 8 uid] [cap]" by (simp add: call_ok_def)
  note reply = embed_reply[OF ok, of seq client TFM_PROTECTED_STORAGE_SERVICE_HANDLE s]
  show ?thesis
  proof (cases "\<exists>e. m_ps_store s uid = Some e \<and> 12 \<le> unat cap")
    case True
    then obtain e where e: "m_ps_store s uid = Some e" "12 \<le> unat cap" by blast
    define bs where "bs = le_bytes 4 (of_nat (length (ps_data e)) :: u32) @ le_bytes 4 (of_nat (length (ps_data e)) :: u32)
        @ le_bytes 4 (ps_flags e)"
    have "length bs = 12" by (simp add: bs_def)
    then have "handle_rse_ps_request (call_request seq client TFM_PROTECTED_STORAGE_SERVICE_HANDLE TFM_PS_GET_INFO
        [le_bytes 8 uid] [cap]) empty_outputs s = Some (PSA_SUCCESS, empty_outputs\<lparr>outputs :=
        (outputs empty_outputs)[0 := bs], out_sizes := (out_sizes empty_outputs)[0 := of_nat (length bs)]\<rparr>, s)"
      using e by (simp add: handle_rse_ps_request_def ps_get_info_def set_ps_output_def bs_def Let_def)
    note answer = reply[OF this, unfolded reply_first]
    have "status = PSA_SUCCESS \<and> bytes = bs \<and> st = m_ps_store s"
      using assms e by (auto simp: bs_def)
    then show ?thesis using answer by simp
  next
    case False
    then show ?thesis
      using assms reply
      by (auto simp: handle_rse_ps_request_def ps_get_info_def set_ps_output_def reply_none
          split: option.splits if_splits)
  qed
qed

lemma ps_call_refines:
  assumes "ps_call_ok call" and "ps_spec call (m_ps_store s) = (status, bytes, st)"
  shows "build_rse_ps_reply bus (ps_message seq client call) s m =
    Some (ps_answer seq client status bytes, s\<lparr>m_ps_store := st\<rparr>, m)"
proof (cases call)
  case (Ps_set uid data flags)
  have ok: "call_ok TFM_PS_SET [le_bytes 8 uid, data, le_bytes 4 flags] []" using assms(1) by (simp add: call_ok_def Ps_set)
  show ?thesis
    using assms(2) embed_reply[OF ok, of seq client TFM_PROTECTED_STORAGE_SERVICE_HANDLE s PSA_SUCCESS empty_outputs
        "s\<lparr>m_ps_store := (m_ps_store s)(uid \<mapsto> \<lparr>ps_data = data, ps_flags = flags\<rparr>)\<rparr>"]
    by (auto simp: Ps_set handle_rse_ps_request_def ps_set_def reply_none)
next
  case (Ps_remove uid)
  have ok: "call_ok TFM_PS_REMOVE [le_bytes 8 uid] []" by (simp add: call_ok_def)
  show ?thesis
    using assms(2) embed_reply[OF ok, of seq client TFM_PROTECTED_STORAGE_SERVICE_HANDLE s]
    by (auto simp: Ps_remove handle_rse_ps_request_def ps_remove_def reply_none split: if_splits)
next
  case (Ps_get uid off cap)
  show ?thesis using assms(2) unfolding Ps_get by (rule ps_get_refines)
next
  case (Ps_get_info uid cap)
  show ?thesis using assms(2) unfolding Ps_get_info by (rule ps_get_info_refines)
qed

text \<open>A session: messages handled one after the other, and the abstract service run on its calls.\<close>

fun ps_serve :: "'m bus \<Rightarrow> u8 list list \<Rightarrow> 'a rse_services_scheme \<Rightarrow> 'm \<Rightarrow> (u8 list list \<times> 'a rse_services_scheme \<times> 'm) ub" where
  "ps_serve bus [] s m = Some ([], s, m)"
| "ps_serve bus (msg # msgs) s m =
     do {
       (reply, s, m) \<leftarrow> build_rse_ps_reply bus msg s m;
       (replies, s, m) \<leftarrow> ps_serve bus msgs s m;
       Some (reply # replies, s, m)
     }"

fun ps_run :: "ps_call list \<Rightarrow> (u64 \<rightharpoonup> ps_entry) \<Rightarrow> (int \<times> u8 list) list \<times> (u64 \<rightharpoonup> ps_entry)" where
  "ps_run [] st = ([], st)"
| "ps_run (call # calls) st =
     (let (status, bytes, st) = ps_spec call st;
          (answers, st) = ps_run calls st
      in ((status, bytes) # answers, st))"

text \<open>
  C25. Protected storage refines a map: for any session of set, get, get-info and remove messages
  the replies are the encoded answers of the abstract service, which maps identifiers to data and
  flags, and the store ends as the abstract map; nothing else changes.
\<close>

theorem ps_storage_refines:
  assumes "\<forall>call \<in> set calls. ps_call_ok call"
    and "ps_run calls (m_ps_store s) = (answers, st)"
  shows "ps_serve bus (map (ps_message seq client) calls) s m =
    Some (map (\<lambda>(status, bytes). ps_answer seq client status bytes) answers, s\<lparr>m_ps_store := st\<rparr>, m)"
  using assms
proof (induction calls arbitrary: s answers)
  case (Cons call calls)
  obtain status bytes st1 where spec: "ps_spec call (m_ps_store s) = (status, bytes, st1)" by (metis prod_cases3)
  obtain answers1 st2 where run: "ps_run calls st1 = (answers1, st2)" by fastforce
  have "ps_serve bus (map (ps_message seq client) calls) (s\<lparr>m_ps_store := st1\<rparr>) m =
      Some (map (\<lambda>(status, bytes). ps_answer seq client status bytes) answers1, s\<lparr>m_ps_store := st1, m_ps_store := st\<rparr>, m)"
    using Cons.prems run spec by (intro Cons.IH) auto
  then show ?case
    using Cons.prems spec run ps_call_refines[of call s status bytes st1 bus seq client m] by auto
qed simp

theorem ps_storage_refines_witness:
  "ps_serve ram_bus (map (ps_message 1 2) [Ps_set 7 [10, 11, 12] 0, Ps_get 7 1 8, Ps_remove 7, Ps_get 7 0 8])
     \<lparr>m_ps_store = Map.empty, m_measurements = (\<lambda>_. empty_measurement)\<rparr> (\<lambda>_. 0) =
   Some ([ps_answer 1 2 PSA_SUCCESS [], ps_answer 1 2 PSA_SUCCESS [11, 12], ps_answer 1 2 PSA_SUCCESS [],
          ps_answer 1 2 PSA_ERROR_DOES_NOT_EXIST []],
         \<lparr>m_ps_store = Map.empty, m_measurements = (\<lambda>_. empty_measurement)\<rparr>, \<lambda>_. 0)"
  by (subst ps_storage_refines) auto

subsection \<open>Measured boot\<close>

lemma iovec_nth_4 [simp]:
  "fill_iovec [a, b, c, e] d ! 0 = a" "fill_iovec [a, b, c, e] d ! Suc 0 = b" "fill_iovec [a, b, c, e] d ! 2 = c"
  "fill_iovec [a, b, c, e] d ! 3 = e"
  by (simp_all add: fill_iovec_def numeral_2_eq_2 numeral_3_eq_3)

lemma bounded_bytes_0: "bounded_bytes bs 0 (length bs) mx = take mx bs"
  by (auto simp: bounded_bytes_def min_def)

text \<open>
  An EXTEND message replaces the addressed slot by the truncated vectors it carries, whatever the
  slot holds: an already locked slot is replaced as well, for the lock flag is stored and never read.
\<close>

theorem measured_boot_replaces:
  assumes "41 \<le> length meta" and "length meta < 2 ^ 16" and "unat (meta ! 0) < TFM_MEASUREMENT_SLOT_COUNT"
    and "length signer < 2 ^ 16" and "length version < 2 ^ 16" and "length bytes < 2 ^ 16"
    and "me_locked (m_measurements s (unat (meta ! 0)))"
  shows "build_rse_ps_reply bus
      (embed_message seq client TFM_MEASURED_BOOT_HANDLE TFM_MEASURED_BOOT_EXTEND [meta, signer, version, bytes] []) s m =
    Some (ps_answer seq client PSA_SUCCESS [], s\<lparr>m_measurements := (m_measurements s)(unat (meta ! 0) :=
      \<lparr>me_valid = True, me_locked = (meta ! 1 \<noteq> 0), me_algorithm = read_le32 meta 4,
       me_sw_type = bounded_bytes meta 8 (unat (meta ! 40)) 32, me_version = take 14 version,
       me_signer_id = take 64 signer, me_measurement = take 64 bytes\<rparr>)\<rparr>, m)"
proof -
  have ok: "call_ok TFM_MEASURED_BOOT_EXTEND [meta, signer, version, bytes] []" using assms by (simp add: call_ok_def)
  let ?s = "s\<lparr>m_measurements := (m_measurements s)(unat (meta ! 0) :=
      \<lparr>me_valid = True, me_locked = (meta ! 1 \<noteq> 0), me_algorithm = read_le32 meta 4,
       me_sw_type = bounded_bytes meta 8 (unat (meta ! 40)) 32, me_version = take 14 version,
       me_signer_id = take 64 signer, me_measurement = take 64 bytes\<rparr>)\<rparr>"
  have "handle_rse_ps_request (call_request seq client TFM_MEASURED_BOOT_HANDLE TFM_MEASURED_BOOT_EXTEND
      [meta, signer, version, bytes] []) empty_outputs s = Some (PSA_SUCCESS, empty_outputs, ?s)"
    using assms(1,3)
    by (simp add: handle_rse_ps_request_def handle_rse_measured_boot_request_def measured_boot_extend_def
        extend_entry_def bounded_bytes_0 Let_def)
  from embed_reply[OF ok this] show ?thesis by (simp add: reply_none)
qed

theorem measured_boot_replaces_witness:
  "\<exists>s'. build_rse_ps_reply ram_bus
      (embed_message 1 2 TFM_MEASURED_BOOT_HANDLE TFM_MEASURED_BOOT_EXTEND [replicate 41 0, [], [], [9]] [])
      \<lparr>m_ps_store = Map.empty, m_measurements = (\<lambda>_. empty_measurement\<lparr>me_locked := True, me_measurement := [5]\<rparr>)\<rparr>
      (\<lambda>_. 0) = Some (ps_answer 1 2 PSA_SUCCESS [], s', \<lambda>_. 0) \<and> me_measurement (m_measurements s' 0) = [9]"
  by (subst measured_boot_replaces) auto

end
