(* ===== verification/Mhu_Frame.thy ===== *)
theory Mhu_Frame
  imports Tlm_Regs
begin

text \<open>
  The frame of a message handling unit (class \<^verbatim>\<open>mhu320ae_frame_model\<close> of
  \<^verbatim>\<open>src/systemc-components/mhu320ae/include/mhu320ae.h\<close>): the doorbell channels of a postbox or a
  mailbox, their register images, the combined interrupt, and the transfer of a message through the
  status words of the channels.
\<close>

subsection \<open>Constants\<close>

abbreviation (input) REG_SPACE_SIZE :: nat where "REG_SPACE_SIZE \<equiv> 0x30000"
abbreviation (input) CTRL_BLK_ID :: nat where "CTRL_BLK_ID \<equiv> 0x000"
abbreviation (input) CTRL_FEAT_SPT0 :: nat where "CTRL_FEAT_SPT0 \<equiv> 0x010"
abbreviation (input) CTRL_FEAT_SPT1 :: nat where "CTRL_FEAT_SPT1 \<equiv> 0x014"
abbreviation (input) CTRL_DBCH_CFG0 :: nat where "CTRL_DBCH_CFG0 \<equiv> 0x020"
abbreviation (input) CTRL_DBCH_INT_ST0 :: nat where "CTRL_DBCH_INT_ST0 \<equiv> 0x400"
abbreviation (input) CTRL_IIDR :: nat where "CTRL_IIDR \<equiv> 0xfc8"
abbreviation (input) CTRL_AIDR :: nat where "CTRL_AIDR \<equiv> 0xfcc"
abbreviation (input) DBCW0 :: nat where "DBCW0 \<equiv> 0x1000"
abbreviation (input) DBCW_STRIDE :: nat where "DBCW_STRIDE \<equiv> 0x20"
abbreviation (input) DBCH_CHANNELS :: nat where "DBCH_CHANNELS \<equiv> 128"
abbreviation (input) DBCW_END :: nat where "DBCW_END \<equiv> DBCW0 + (DBCW_STRIDE * DBCH_CHANNELS)"
abbreviation (input) DBCW_ST :: nat where "DBCW_ST \<equiv> 0x00"
abbreviation (input) DBCW_ST_MSK :: nat where "DBCW_ST_MSK \<equiv> 0x04"
abbreviation (input) DBCW_CLR :: nat where "DBCW_CLR \<equiv> 0x08"
abbreviation (input) DBCW_SET :: nat where "DBCW_SET \<equiv> 0x0c"
abbreviation (input) DBCW_INT_ST :: nat where "DBCW_INT_ST \<equiv> 0x10"
abbreviation (input) DBCW_INT_CLR :: nat where "DBCW_INT_CLR \<equiv> 0x14"
abbreviation (input) DBCW_INT_EN :: nat where "DBCW_INT_EN \<equiv> 0x18"
abbreviation (input) DBCW_CTRL :: nat where "DBCW_CTRL \<equiv> 0x1c"
abbreviation (input) MHU_NOTIFY_VALUE :: u32 where "MHU_NOTIFY_VALUE \<equiv> 1234"

subsection \<open>State\<close>

record mhu_frame =
  mf_regs :: byte_array
  m_db_status :: "nat \<Rightarrow> u32"
  m_db_mask :: "nat \<Rightarrow> u32"
  m_db_int_status :: "nat \<Rightarrow> u32"
  m_db_int_enable :: "nat \<Rightarrow> u32"
  m_db_ctrl :: "nat \<Rightarrow> u32"
  m_is_mbx :: bool
  m_channel_count :: nat

definition frame_fields :: mhu_frame where
  "frame_fields = \<lparr>mf_regs = (\<lambda>_. 0), m_db_status = (\<lambda>_. 0), m_db_mask = (\<lambda>_. 0), m_db_int_status = (\<lambda>_. 0),
     m_db_int_enable = (\<lambda>_. 0), m_db_ctrl = (\<lambda>_. 0), m_is_mbx = False, m_channel_count = DBCH_CHANNELS\<rparr>"

text \<open>
  \<open>fr_store\<close> is \<^verbatim>\<open>store<uint32_t>\<close> at an offset the code computes. \<open>fr_bus_store\<close> and \<open>fr_bus_load\<close> take an
  offset from the bus: there the guard \<^verbatim>\<open>offset + sizeof(T) <= size\<close> is 64-bit arithmetic and may wrap.
\<close>

definition fr_store :: "nat \<Rightarrow> u32 \<Rightarrow> mhu_frame \<Rightarrow> mhu_frame" where
  "fr_store off v f =
     (if off + 4 \<le> REG_SPACE_SIZE then f\<lparr>mf_regs := mem_write (mf_regs f) off (le_bytes 4 v)\<rparr> else f)"

definition fr_bus_store :: "u64 \<Rightarrow> u32 \<Rightarrow> mhu_frame \<Rightarrow> mhu_frame ub" where
  "fr_bus_store off v f =
     (if off + 4 \<le> of_nat REG_SPACE_SIZE
      then do { m \<leftarrow> arr_write REG_SPACE_SIZE (mf_regs f) (unat off) (le_bytes 4 v); Some (f\<lparr>mf_regs := m\<rparr>) }
      else Some f)"

definition fr_bus_load :: "u64 \<Rightarrow> mhu_frame \<Rightarrow> u32 ub" where
  "fr_bus_load off f =
     (if off + 4 \<le> of_nat REG_SPACE_SIZE
      then do { bs \<leftarrow> arr_read REG_SPACE_SIZE (mf_regs f) (unat off) 4; Some (le_word bs) }
      else Some 0)"

definition copy_read :: "u64 \<Rightarrow> nat \<Rightarrow> mhu_frame \<Rightarrow> u8 list ub" where
  "copy_read off len f = arr_read REG_SPACE_SIZE (mf_regs f) (unat off) len"

definition copy_write :: "u64 \<Rightarrow> u8 list \<Rightarrow> mhu_frame \<Rightarrow> mhu_frame ub" where
  "copy_write off bs f =
     do { m \<leftarrow> arr_write REG_SPACE_SIZE (mf_regs f) (unat off) bs; Some (f\<lparr>mf_regs := m\<rparr>) }"

definition decode_dbch_offset :: "u64 \<Rightarrow> mhu_frame \<Rightarrow> (nat \<times> nat) option" where
  "decode_dbch_offset off f =
     (if off < of_nat DBCW0 \<or> off \<ge> of_nat DBCW_END then None
      else
        (let relative = unat (off - of_nat DBCW0);
             channel = relative div DBCW_STRIDE;
             reg_offset = relative mod DBCW_STRIDE
         in if channel < m_channel_count f then Some (channel, reg_offset) else None))"

subsection \<open>Channels\<close>

definition channel_masked_status :: "nat \<Rightarrow> mhu_frame \<Rightarrow> u32" where
  "channel_masked_status channel f = m_db_status f channel AND NOT (m_db_mask f channel)"

definition store_channel_regs :: "nat \<Rightarrow> mhu_frame \<Rightarrow> mhu_frame" where
  "store_channel_regs channel f =
     (let base = DBCW0 + (DBCW_STRIDE * channel);
          f = fr_store (base + DBCW_ST) (m_db_status f channel) f;
          f = (if m_is_mbx f
               then
                 (let f = fr_store (base + DBCW_ST_MSK) (channel_masked_status channel f) f
                  in fr_store (base + DBCW_INT_ST) (m_db_mask f channel) f)
               else
                 (let f = fr_store (base + DBCW_INT_ST) (m_db_int_status f channel) f
                  in fr_store (base + DBCW_INT_EN) (m_db_int_enable f channel) f))
      in fr_store (base + DBCW_CTRL) (m_db_ctrl f channel) f)"

definition fr_set_status :: "nat \<Rightarrow> u32 \<Rightarrow> mhu_frame \<Rightarrow> mhu_frame" where
  "fr_set_status channel v f = store_channel_regs channel (f\<lparr>m_db_status := (m_db_status f)(channel := v)\<rparr>)"

definition set_status_bits :: "nat \<Rightarrow> u32 \<Rightarrow> mhu_frame \<Rightarrow> mhu_frame" where
  "set_status_bits channel v f =
     store_channel_regs channel (f\<lparr>m_db_status := (m_db_status f)(channel := m_db_status f channel OR v)\<rparr>)"

definition clear_status_bits :: "nat \<Rightarrow> u32 \<Rightarrow> mhu_frame \<Rightarrow> mhu_frame" where
  "clear_status_bits channel msk f =
     store_channel_regs channel (f\<lparr>m_db_status := (m_db_status f)(channel := m_db_status f channel AND NOT msk)\<rparr>)"

definition set_mask_bits :: "nat \<Rightarrow> u32 \<Rightarrow> mhu_frame \<Rightarrow> mhu_frame" where
  "set_mask_bits channel msk f =
     store_channel_regs channel (f\<lparr>m_db_mask := (m_db_mask f)(channel := m_db_mask f channel OR msk)\<rparr>)"

definition clear_mask_bits :: "nat \<Rightarrow> u32 \<Rightarrow> mhu_frame \<Rightarrow> mhu_frame" where
  "clear_mask_bits channel msk f =
     store_channel_regs channel (f\<lparr>m_db_mask := (m_db_mask f)(channel := m_db_mask f channel AND NOT msk)\<rparr>)"

definition set_int_status_bits :: "nat \<Rightarrow> u32 \<Rightarrow> mhu_frame \<Rightarrow> mhu_frame" where
  "set_int_status_bits channel v f =
     store_channel_regs channel
       (f\<lparr>m_db_int_status := (m_db_int_status f)(channel := m_db_int_status f channel OR v)\<rparr>)"

definition clear_int_status_bits :: "nat \<Rightarrow> u32 \<Rightarrow> mhu_frame \<Rightarrow> mhu_frame" where
  "clear_int_status_bits channel msk f =
     store_channel_regs channel
       (f\<lparr>m_db_int_status := (m_db_int_status f)(channel := m_db_int_status f channel AND NOT msk)\<rparr>)"

definition set_int_enable :: "nat \<Rightarrow> u32 \<Rightarrow> mhu_frame \<Rightarrow> mhu_frame" where
  "set_int_enable channel v f =
     store_channel_regs channel (f\<lparr>m_db_int_enable := (m_db_int_enable f)(channel := v)\<rparr>)"

definition set_ctrl :: "nat \<Rightarrow> u32 \<Rightarrow> mhu_frame \<Rightarrow> mhu_frame" where
  "set_ctrl channel v f = store_channel_regs channel (f\<lparr>m_db_ctrl := (m_db_ctrl f)(channel := v)\<rparr>)"

definition clear_all_status :: "mhu_frame \<Rightarrow> mhu_frame" where
  "clear_all_status f = fold (\<lambda>channel. fr_set_status channel 0) [0..<DBCH_CHANNELS] f"

subsection \<open>The combined interrupt\<close>

definition channel_asserted :: "mhu_frame \<Rightarrow> nat \<Rightarrow> bool" where
  "channel_asserted f channel =
     (if m_is_mbx f then channel_masked_status channel f \<noteq> 0
      else m_db_int_status f channel AND m_db_int_enable f channel \<noteq> 0)"

definition combined_dbch_int_st :: "nat \<Rightarrow> mhu_frame \<Rightarrow> u32" where
  "combined_dbch_int_st word f =
     (let first = word * 32; last = min (first + 32) (m_channel_count f)
      in fold (\<lambda>channel st. if channel_asserted f channel then st OR 2 ^ (channel - first) else st) [first..<last] 0)"

definition refresh_combined_irq_regs :: "mhu_frame \<Rightarrow> mhu_frame" where
  "refresh_combined_irq_regs f =
     fold (\<lambda>word f. fr_store (CTRL_DBCH_INT_ST0 + word * 4) (combined_dbch_int_st word f) f) [0..<4] f"

definition any_combined_irq :: "mhu_frame \<Rightarrow> bool" where
  "any_combined_irq f = list_ex (\<lambda>word. combined_dbch_int_st word f \<noteq> 0) [0..<4]"

definition configure :: "bool \<Rightarrow> nat \<Rightarrow> u32 \<Rightarrow> u32 \<Rightarrow> u32 \<Rightarrow> u32 \<Rightarrow> mhu_frame \<Rightarrow> mhu_frame" where
  "configure is_mbx channel_count feat_spt0 feat_spt1 iidr aidr f =
     (let f = f\<lparr>m_is_mbx := is_mbx, m_channel_count := max 1 (min channel_count DBCH_CHANNELS),
                m_db_mask := (\<lambda>c. if c < DBCH_CHANNELS then (if is_mbx then 0xffffffff else 0) else m_db_mask f c)\<rparr>;
          f = fr_store CTRL_BLK_ID (if is_mbx then 1 else 0) f;
          f = fr_store CTRL_FEAT_SPT0 feat_spt0 f;
          f = fr_store CTRL_FEAT_SPT1 feat_spt1 f;
          f = fr_store CTRL_DBCH_CFG0 (of_nat (m_channel_count f - 1)) f;
          f = fr_store CTRL_IIDR iidr f;
          f = fr_store CTRL_AIDR aidr f;
          f = fold store_channel_regs [0..<DBCH_CHANNELS] f
      in refresh_combined_irq_regs f)"

subsection \<open>Register reads\<close>

definition fr_read32 :: "u64 \<Rightarrow> mhu_frame \<Rightarrow> u32 ub" where
  "fr_read32 off f =
     (if off \<ge> of_nat CTRL_DBCH_INT_ST0 \<and> off < of_nat (CTRL_DBCH_INT_ST0 + 16) \<and>
         (off - of_nat CTRL_DBCH_INT_ST0) mod 4 = 0
      then Some (combined_dbch_int_st (unat ((off - of_nat CTRL_DBCH_INT_ST0) div 4)) f)
      else
        (case decode_dbch_offset off f of
           None \<Rightarrow> fr_bus_load off f
         | Some (channel, reg_offset) \<Rightarrow>
             if m_is_mbx f then
               (if reg_offset = DBCW_ST then Some (m_db_status f channel)
                else if reg_offset = DBCW_ST_MSK then Some (channel_masked_status channel f)
                else if reg_offset = DBCW_INT_ST then Some (m_db_mask f channel)
                else if reg_offset = DBCW_CTRL then Some (m_db_ctrl f channel)
                else fr_bus_load off f)
             else
               (if reg_offset = DBCW_ST then Some (m_db_status f channel)
                else if reg_offset = DBCW_INT_ST then Some (m_db_int_status f channel)
                else if reg_offset = DBCW_INT_EN then Some (m_db_int_enable f channel)
                else if reg_offset = DBCW_CTRL then Some (m_db_ctrl f channel)
                else fr_bus_load off f)))"

subsection \<open>Messages\<close>

text \<open>
  The nested loops of \<^verbatim>\<open>read_doorbell_message\<close>: the words of channels 1 up to the notify channel, byte by
  byte, until the length in channel 0 is reached.
\<close>

fun read_message_bytes :: "u32 \<Rightarrow> nat list \<Rightarrow> nat \<Rightarrow> u8 list \<Rightarrow> u8 list" where
  "read_message_bytes word [] len msg = msg"
| "read_message_bytes word (byte # bytes) len msg =
     (if length msg < len then read_message_bytes word bytes len (msg @ [ucast (drop_bit (byte * 8) word)]) else msg)"

fun read_message_words :: "mhu_frame \<Rightarrow> nat list \<Rightarrow> nat \<Rightarrow> u8 list \<Rightarrow> u8 list" where
  "read_message_words f [] len msg = msg"
| "read_message_words f (channel # channels) len msg =
     (if length msg < len
      then read_message_words f channels len (read_message_bytes (m_db_status f channel) [0..<4] len msg)
      else msg)"

definition notify_channel :: "nat \<Rightarrow> nat" where
  "notify_channel channel_count = channel_count - 1"

definition read_doorbell_message :: "nat \<Rightarrow> mhu_frame \<Rightarrow> u8 list" where
  "read_doorbell_message channel_count f =
     read_message_words f [1..<notify_channel channel_count] (unat (m_db_status f 0)) []"

text \<open>The loop of \<^verbatim>\<open>load_mbx_message\<close>: one word per channel while there are bytes and channels.\<close>

fun load_message_words :: "u8 list \<Rightarrow> nat list \<Rightarrow> mhu_frame \<Rightarrow> mhu_frame" where
  "load_message_words msg [] f = f"
| "load_message_words msg (channel # channels) f =
     (if msg = [] then f
      else load_message_words (drop 4 msg) channels (fr_set_status channel (le_word (take 4 msg)) f))"

definition load_frame_message :: "nat \<Rightarrow> u8 list \<Rightarrow> mhu_frame \<Rightarrow> mhu_frame" where
  "load_frame_message channel_count msg f =
     (let f = clear_all_status f;
          f = fr_set_status 0 (of_nat (length msg)) f;
          f = load_message_words msg [1..<notify_channel channel_count] f
      in fr_set_status (notify_channel channel_count) MHU_NOTIFY_VALUE f)"

subsection \<open>Frames\<close>

text \<open>The register images are the only thing \<open>fr_store\<close> changes.\<close>

lemma fr_store_sel [simp]:
  "m_db_status (fr_store off v f) = m_db_status f" "m_db_mask (fr_store off v f) = m_db_mask f"
  "m_db_int_status (fr_store off v f) = m_db_int_status f" "m_db_int_enable (fr_store off v f) = m_db_int_enable f"
  "m_db_ctrl (fr_store off v f) = m_db_ctrl f" "m_is_mbx (fr_store off v f) = m_is_mbx f"
  "m_channel_count (fr_store off v f) = m_channel_count f"
  by (simp_all add: fr_store_def)

lemma store_channel_regs_sel [simp]:
  "m_db_status (store_channel_regs c f) = m_db_status f" "m_db_mask (store_channel_regs c f) = m_db_mask f"
  "m_db_int_status (store_channel_regs c f) = m_db_int_status f"
  "m_db_int_enable (store_channel_regs c f) = m_db_int_enable f"
  "m_db_ctrl (store_channel_regs c f) = m_db_ctrl f" "m_is_mbx (store_channel_regs c f) = m_is_mbx f"
  "m_channel_count (store_channel_regs c f) = m_channel_count f"
  by (simp_all add: store_channel_regs_def Let_def)

lemma fold_frame:
  assumes "\<And>x f. P (h x f) = P f" shows "P (fold h xs f) = P f"
  using assms by (induction xs arbitrary: f) auto

lemma fr_set_status_sel [simp]:
  "m_db_status (fr_set_status c v f) = (m_db_status f)(c := v)" "m_db_mask (fr_set_status c v f) = m_db_mask f"
  "m_db_int_status (fr_set_status c v f) = m_db_int_status f"
  "m_db_int_enable (fr_set_status c v f) = m_db_int_enable f"
  "m_db_ctrl (fr_set_status c v f) = m_db_ctrl f" "m_is_mbx (fr_set_status c v f) = m_is_mbx f"
  "m_channel_count (fr_set_status c v f) = m_channel_count f"
  by (simp_all add: fr_set_status_def)

lemma status_fold: "m_db_status (fold (\<lambda>c. fr_set_status c 0) cs f) = (\<lambda>c. if c \<in> set cs then 0 else m_db_status f c)"
  by (induction cs arbitrary: f) (auto simp: fun_eq_iff)

lemma clear_all_status_sel [simp]:
  "m_db_status (clear_all_status f) = (\<lambda>c. if c < DBCH_CHANNELS then 0 else m_db_status f c)"
  "m_db_mask (clear_all_status f) = m_db_mask f" "m_db_int_status (clear_all_status f) = m_db_int_status f"
  "m_db_int_enable (clear_all_status f) = m_db_int_enable f" "m_db_ctrl (clear_all_status f) = m_db_ctrl f"
  "m_is_mbx (clear_all_status f) = m_is_mbx f" "m_channel_count (clear_all_status f) = m_channel_count f"
  unfolding clear_all_status_def by (simp_all add: status_fold fold_frame atLeast0LessThan)

lemma refresh_sel [simp]:
  "m_db_status (refresh_combined_irq_regs f) = m_db_status f" "m_db_mask (refresh_combined_irq_regs f) = m_db_mask f"
  "m_db_int_status (refresh_combined_irq_regs f) = m_db_int_status f"
  "m_db_int_enable (refresh_combined_irq_regs f) = m_db_int_enable f"
  "m_db_ctrl (refresh_combined_irq_regs f) = m_db_ctrl f" "m_is_mbx (refresh_combined_irq_regs f) = m_is_mbx f"
  "m_channel_count (refresh_combined_irq_regs f) = m_channel_count f"
  unfolding refresh_combined_irq_regs_def by (simp_all add: upt_4)

subsection \<open>The combined interrupt\<close>

lemma combined_fold:
  fixes st :: u32
  assumes "b \<le> a + 32"
  shows "bit (fold (\<lambda>c st. if P c then st OR 2 ^ (c - a) else st) [a..<b] st) j \<longleftrightarrow> bit st j \<or> (a + j < b \<and> P (a + j))"
  using assms
proof (induction b)
  case (Suc b)
  show ?case
  proof (cases "a \<le> b")
    case True
    then have "b - a < 32" using Suc.prems by simp
    then have "bit (2 ^ (b - a) :: u32) j \<longleftrightarrow> j = b - a" by (auto simp: bit_exp_iff)
    then show ?thesis
      using Suc True by (auto simp: bit_or_mask less_Suc_eq simp del: bit_exp_iff)
  qed simp
qed simp

lemma bit_combined:
  "bit (combined_dbch_int_st word f) j \<longleftrightarrow>
     j < 32 \<and> word * 32 + j < m_channel_count f \<and> channel_asserted f (word * 32 + j)"
proof -
  have "bit (combined_dbch_int_st word f) j \<longleftrightarrow>
      word * 32 + j < min (word * 32 + 32) (m_channel_count f) \<and> channel_asserted f (word * 32 + j)"
    unfolding combined_dbch_int_st_def Let_def by (subst combined_fold) auto
  then show ?thesis by auto
qed

lemma any_combined_irq_iff:
  assumes "m_channel_count f \<le> DBCH_CHANNELS"
  shows "any_combined_irq f \<longleftrightarrow> (\<exists>c < m_channel_count f. channel_asserted f c)"
proof -
  have word: "combined_dbch_int_st w f \<noteq> 0 \<longleftrightarrow> (\<exists>j < 32. w * 32 + j < m_channel_count f \<and> channel_asserted f (w * 32 + j))" for w
    by (auto simp: bit_eq_iff bit_combined)
  show ?thesis
  proof
    assume "any_combined_irq f"
    then show "\<exists>c < m_channel_count f. channel_asserted f c"
      by (auto simp: any_combined_irq_def list_ex_iff word)
  next
    assume "\<exists>c < m_channel_count f. channel_asserted f c"
    then obtain c where c: "c < m_channel_count f" "channel_asserted f c" by blast
    then have "c div 32 < 4" using assms by simp
    moreover have "combined_dbch_int_st (c div 32) f \<noteq> 0"
      unfolding word using c by (intro exI[of _ "c mod 32"]) simp
    ultimately show "any_combined_irq f"
      unfolding any_combined_irq_def list_ex_iff by (intro bexI[of _ "c div 32"]) auto
  qed
qed

subsection \<open>Messages\<close>

lemma read_message_bytes_eq:
  "read_message_bytes word [0..<4] len msg = msg @ take (len - length msg) (le_bytes 4 word)"
proof -
  consider "len \<le> length msg" | "len = Suc (length msg)" | "len = length msg + 2" | "len = length msg + 3"
    | k where "len = length msg + (k + 4)"
    by atomize_elim presburger
  then show ?thesis by cases (auto simp: upt_4 le_bytes_4 numeral_2_eq_2 numeral_3_eq_3)
qed

lemma read_message_words_eq:
  "read_message_words f cs len msg =
     msg @ take (len - length msg) (concat (map (\<lambda>c. le_bytes 4 (m_db_status f c)) cs))"
proof (induction cs arbitrary: msg)
  case (Cons c cs)
  then show ?case by (auto simp: read_message_bytes_eq min_def)
qed simp

lemma load_words_sel [simp]:
  "m_db_mask (load_message_words msg cs f) = m_db_mask f" "m_db_int_status (load_message_words msg cs f) = m_db_int_status f"
  "m_db_int_enable (load_message_words msg cs f) = m_db_int_enable f" "m_db_ctrl (load_message_words msg cs f) = m_db_ctrl f"
  "m_is_mbx (load_message_words msg cs f) = m_is_mbx f" "m_channel_count (load_message_words msg cs f) = m_channel_count f"
  by (induction msg cs f rule: load_message_words.induct) simp_all

lemma load_words_other: "c \<notin> set cs \<Longrightarrow> m_db_status (load_message_words msg cs f) c = m_db_status f c"
  by (induction msg cs f rule: load_message_words.induct) auto

lemma load_words_read:
  assumes "distinct cs" and "length msg \<le> 4 * length cs"
  shows "take (length msg) (concat (map (\<lambda>c. le_bytes 4 (m_db_status (load_message_words msg cs f) c)) cs)) = msg"
  using assms
proof (induction msg cs f rule: load_message_words.induct)
  case (2 msg c cs f)
  show ?case
  proof (cases "msg = []")
    case False
    let ?g = "fr_set_status c (le_word (take 4 msg)) f"
    have c: "m_db_status (load_message_words (drop 4 msg) cs ?g) c = le_word (take 4 msg)"
      using "2.prems"(1) by (simp add: load_words_other)
    have IH: "take (length msg - 4) (concat (map (\<lambda>c. le_bytes 4 (m_db_status (load_message_words (drop 4 msg) cs ?g) c)) cs))
        = drop 4 msg"
      using "2.IH"[OF False] "2.prems" by simp
    show ?thesis
    proof (cases "length msg \<le> 4")
      case True
      then show ?thesis using False le_bytes_short[of msg] c by simp
    next
      case long: False
      then show ?thesis using False IH by (simp add: c)
    qed
  qed simp
qed simp

lemma load_frame_status:
  assumes "0 < n" and "n \<le> DBCH_CHANNELS"
  shows "m_db_status (load_frame_message n msg f) (n - 1) = MHU_NOTIFY_VALUE"
    and "1 < n \<Longrightarrow> m_db_status (load_frame_message n msg f) 0 = of_nat (length msg)"
  using assms by (auto simp: load_frame_message_def notify_channel_def load_words_other Let_def)

lemma load_frame_sel [simp]:
  "m_db_mask (load_frame_message n msg f) = m_db_mask f" "m_db_int_status (load_frame_message n msg f) = m_db_int_status f"
  "m_db_int_enable (load_frame_message n msg f) = m_db_int_enable f" "m_db_ctrl (load_frame_message n msg f) = m_db_ctrl f"
  "m_is_mbx (load_frame_message n msg f) = m_is_mbx f" "m_channel_count (load_frame_message n msg f) = m_channel_count f"
  by (simp_all add: load_frame_message_def Let_def)

lemma load_then_read:
  assumes "2 \<le> n" and "n \<le> DBCH_CHANNELS" and "length msg \<le> 4 * (n - 2)"
  shows "read_doorbell_message n (load_frame_message n msg f) = msg \<and>
    m_db_status (load_frame_message n msg f) 0 = of_nat (length msg) \<and>
    m_db_status (load_frame_message n msg f) (n - 1) = MHU_NOTIFY_VALUE"
proof -
  let ?g = "load_frame_message n msg f"
  let ?h = "fr_set_status 0 (of_nat (length msg)) (clear_all_status f)"
  have len: "unat (of_nat (length msg) :: u32) = length msg" using assms by (intro unat_of_nat_small) simp
  have st: "m_db_status ?g 0 = of_nat (length msg)" "m_db_status ?g (n - 1) = MHU_NOTIFY_VALUE"
    using load_frame_status[of n msg f] assms by simp_all
  have words: "map (\<lambda>c. le_bytes 4 (m_db_status ?g c)) [1..<n - 1] =
      map (\<lambda>c. le_bytes 4 (m_db_status (load_message_words msg [1..<n - 1] ?h) c)) [1..<n - 1]"
    by (auto simp: load_frame_message_def notify_channel_def Let_def)
  have "read_doorbell_message n ?g = take (length msg) (concat (map (\<lambda>c. le_bytes 4 (m_db_status ?g c)) [1..<n - 1]))"
    unfolding read_doorbell_message_def notify_channel_def read_message_words_eq st len by simp
  also have "\<dots> = msg"
    unfolding words using assms by (intro load_words_read) auto
  finally show ?thesis using st by simp
qed

text \<open>
  A message of at most four bytes per data channel survives the channels: what
  \<^verbatim>\<open>read_doorbell_message\<close> assembles from a frame that \<^verbatim>\<open>load_mbx_message\<close> filled is the message; the
  first channel holds its length and the last one the notify value.
\<close>

theorem mhu_message_roundtrip:
  assumes "2 \<le> n" and "n \<le> DBCH_CHANNELS" and "length msg \<le> 4 * (n - 2)"
  shows "read_doorbell_message n (load_frame_message n msg f) = msg \<and>
    m_db_status (load_frame_message n msg f) 0 = of_nat (length msg) \<and>
    m_db_status (load_frame_message n msg f) (n - 1) = MHU_NOTIFY_VALUE"
  by (rule load_then_read[OF assms])

theorem mhu_message_roundtrip_witness:
  "read_doorbell_message 128 (load_frame_message 128 [1, 2, 3, 4, 5] frame_fields) = [1, 2, 3, 4, 5]"
  using mhu_message_roundtrip[of 128 "[1, 2, 3, 4, 5]" frame_fields] by simp

text \<open>
  The combined interrupt is exact: bit j of combined word w is channel 32 w + j, for the
  configured channels only, and the line is high exactly when some configured channel is asserted.
\<close>

theorem mhu_combined_irq:
  assumes "m_channel_count f \<le> DBCH_CHANNELS"
  shows "(bit (combined_dbch_int_st w f) j \<longleftrightarrow>
      j < 32 \<and> 32 * w + j < m_channel_count f \<and> channel_asserted f (32 * w + j)) \<and>
    (any_combined_irq f \<longleftrightarrow> (\<exists>c < m_channel_count f. channel_asserted f c))"
  using bit_combined[of w f j] any_combined_irq_iff[OF assms] by (simp add: mult.commute)

theorem mhu_combined_irq_witness:
  "any_combined_irq (frame_fields\<lparr>m_db_int_status := (\<lambda>c. if c = 40 then 1 else 0), m_db_int_enable := (\<lambda>_. 1)\<rparr>)"
  using mhu_combined_irq[of "frame_fields\<lparr>m_db_int_status := (\<lambda>c. if c = 40 then 1 else 0), m_db_int_enable := (\<lambda>_. 1)\<rparr>"]
  by (auto simp: frame_fields_def channel_asserted_def intro: exI[of _ 40])

end
