(* ===== verification/Mhu_Scmi.thy ===== *)
theory Mhu_Scmi
  imports Mhu_Psa Mhu_Frame "HOL-Library.Char_ord"
begin

text \<open>
  The SCMI side of the message handling unit (\<^verbatim>\<open>src/systemc-components/mhu320ae/include/mhu320ae.h\<close>): its
  parameters, the power, reset and performance state, the answers of the five protocols, and the
  response in shared memory. SystemC events are logged when they are notified, with the delay in
  nanoseconds; the processes they trigger are operations of their own.
\<close>

subsection \<open>Constants\<close>

abbreviation (input) SCMI_CHAN_STATUS :: u64 where "SCMI_CHAN_STATUS \<equiv> 0x04"
abbreviation (input) SCMI_LENGTH :: u64 where "SCMI_LENGTH \<equiv> 0x14"
abbreviation (input) SCMI_HEADER :: u64 where "SCMI_HEADER \<equiv> 0x18"
abbreviation (input) SCMI_PAYLOAD :: u64 where "SCMI_PAYLOAD \<equiv> 0x1c"
abbreviation (input) SCMI_CHAN_FREE :: u32 where "SCMI_CHAN_FREE \<equiv> 1"
abbreviation (input) SCMI_SUCCESS :: u32 where "SCMI_SUCCESS \<equiv> 0"
abbreviation (input) SCMI_ERR_SUPPORT :: u32 where "SCMI_ERR_SUPPORT \<equiv> - 1"
abbreviation (input) SCMI_ERR_PARAM :: u32 where "SCMI_ERR_PARAM \<equiv> - 2"
abbreviation (input) SCMI_PROTOCOL_BASE :: u8 where "SCMI_PROTOCOL_BASE \<equiv> 0x10"
abbreviation (input) SCMI_PROTOCOL_POWER_DOMAIN :: u8 where "SCMI_PROTOCOL_POWER_DOMAIN \<equiv> 0x11"
abbreviation (input) SCMI_PROTOCOL_SYS_POWER :: u8 where "SCMI_PROTOCOL_SYS_POWER \<equiv> 0x12"
abbreviation (input) SCMI_PROTOCOL_PERFORMANCE :: u8 where "SCMI_PROTOCOL_PERFORMANCE \<equiv> 0x13"
abbreviation (input) SCMI_PROTOCOL_PFDI_MONITOR :: u8 where "SCMI_PROTOCOL_PFDI_MONITOR \<equiv> 0x90"
abbreviation (input) SCMI_MSG_PROTOCOL_MESSAGE_ATTRIBUTES :: u8 where "SCMI_MSG_PROTOCOL_MESSAGE_ATTRIBUTES \<equiv> 0x2"
abbreviation (input) SCMI_SYS_POWER_STATE_SET :: u8 where "SCMI_SYS_POWER_STATE_SET \<equiv> 0x3"
abbreviation (input) SCMI_SYS_POWER_STATE_NOTIFY :: u8 where "SCMI_SYS_POWER_STATE_NOTIFY \<equiv> 0x5"
abbreviation (input) SCMI_SYS_POWER_COLD_RESET :: u32 where "SCMI_SYS_POWER_COLD_RESET \<equiv> 1"
abbreviation (input) SCMI_SYS_POWER_WARM_RESET :: u32 where "SCMI_SYS_POWER_WARM_RESET \<equiv> 2"
abbreviation (input) SCMI_PERFORMANCE_VERSION :: u32 where "SCMI_PERFORMANCE_VERSION \<equiv> 0x00040000"
abbreviation (input) SCMI_PERF_DOMAIN_ATTRIBUTES :: u8 where "SCMI_PERF_DOMAIN_ATTRIBUTES \<equiv> 0x3"
abbreviation (input) SCMI_PERF_DESCRIBE_LEVELS :: u8 where "SCMI_PERF_DESCRIBE_LEVELS \<equiv> 0x4"
abbreviation (input) SCMI_PERF_LIMITS_SET :: u8 where "SCMI_PERF_LIMITS_SET \<equiv> 0x5"
abbreviation (input) SCMI_PERF_LIMITS_GET :: u8 where "SCMI_PERF_LIMITS_GET \<equiv> 0x6"
abbreviation (input) SCMI_PERF_LEVEL_SET :: u8 where "SCMI_PERF_LEVEL_SET \<equiv> 0x7"
abbreviation (input) SCMI_PERF_LEVEL_GET :: u8 where "SCMI_PERF_LEVEL_GET \<equiv> 0x8"
abbreviation (input) SCMI_PERF_NOTIFY_LIMITS :: u8 where "SCMI_PERF_NOTIFY_LIMITS \<equiv> 0x9"
abbreviation (input) SCMI_PERF_NOTIFY_LEVEL :: u8 where "SCMI_PERF_NOTIFY_LEVEL \<equiv> 0xa"
abbreviation (input) SCMI_PERF_DOMAIN_COUNT :: u32 where "SCMI_PERF_DOMAIN_COUNT \<equiv> 1"
abbreviation (input) SCMI_PERF_OPP_COUNT :: u32 where "SCMI_PERF_OPP_COUNT \<equiv> 3"
abbreviation (input) SCMI_PERF_MIN_LEVEL :: u32 where "SCMI_PERF_MIN_LEVEL \<equiv> 1000"
abbreviation (input) SCMI_PERF_MAX_LEVEL :: u32 where "SCMI_PERF_MAX_LEVEL \<equiv> 2000"
abbreviation (input) SCMI_PERF_SUSTAINED_FREQ_KHZ :: u32 where "SCMI_PERF_SUSTAINED_FREQ_KHZ \<equiv> 2000000"
abbreviation (input) SCMI_PERF_DOMAIN_SUPPORTS_SET_LIMITS :: u32 where
  "SCMI_PERF_DOMAIN_SUPPORTS_SET_LIMITS \<equiv> 2 ^ 31"
abbreviation (input) SCMI_PERF_DOMAIN_SUPPORTS_SET_LEVEL :: u32 where
  "SCMI_PERF_DOMAIN_SUPPORTS_SET_LEVEL \<equiv> 2 ^ 30"
abbreviation (input) SCMI_PERF_DOMAIN_SUPPORTS_LIMIT_NOTIFY :: u32 where
  "SCMI_PERF_DOMAIN_SUPPORTS_LIMIT_NOTIFY \<equiv> 2 ^ 29"
abbreviation (input) SCMI_PERF_DOMAIN_SUPPORTS_LEVEL_NOTIFY :: u32 where
  "SCMI_PERF_DOMAIN_SUPPORTS_LEVEL_NOTIFY \<equiv> 2 ^ 28"
abbreviation (input) SCMI_PFDI_MONITOR_VERSION :: u32 where "SCMI_PFDI_MONITOR_VERSION \<equiv> 0x00020000"

subsection \<open>Parameters and state\<close>

text \<open>
  The \<open>_bound\<close> fields say which sockets are bound; trace parameters are left out with the trace.
\<close>

record mhu_params =
  p_pair :: string
  p_protocol :: string
  p_frame :: string
  p_channel_count :: u32
  p_feat_spt0 :: u32
  p_feat_spt1 :: u32
  p_iidr :: u32
  p_aidr :: u32
  p_direct_boot_compat :: bool
  p_scmi_transport :: string
  p_tx_shmem :: u64
  p_rx_shmem :: u64
  p_scmi_channel_stride :: u64
  p_scmi_channel_base_index :: u32
  p_scmi_channel_count :: u32
  p_init_shmem :: bool
  p_ack_bit :: u32
  p_power_domain_version :: u32
  p_sys_power_version :: u32
  p_power_domain_attributes :: u32
  p_power_domain_name :: string
  p_assert_power_on_reset :: bool
  p_power_domain_reset_count :: u32
  p_power_domain_reset_delay_ns :: u64
  p_power_domain_reset_assert_on_power_off :: bool
  p_power_domain_reset_pulse_on_power_on :: bool
  p_system_power_reset_delay_ns :: u64
  p_system_power_reset_pulse_width_ns :: u64
  p_doorbell_ack_trigger_channel :: u32
  p_doorbell_ack_trigger_value :: u32
  p_doorbell_ack_channel :: u32
  p_doorbell_ack_value :: u32
  p_doorbell_ack_seed_address :: u64
  p_rpmsg_ns_enable :: bool
  p_rpmsg_ns_name :: string
  p_rpmsg_ns_remote_addr :: u32
  p_rpmsg_ns_vring_address :: u64
  p_rpmsg_ns_vring_num :: u32
  p_rpmsg_ns_vring_align :: u32
  p_rpmsg_ns_signal_channel :: u32
  p_rpmsg_ns_signal_value :: u32
  p_rpmsg_ns_signal_delay_ns :: u64
  p_rpmsg_ns_max_polls :: u32
  p_synthetic_txdone_delay_ns :: u64
  mhu_irq_bound :: bool
  power_on_reset_bound :: bool
  power_domain_reset_bound :: "nat \<Rightarrow> bool"

definition mhu_default_params :: mhu_params where
  "mhu_default_params = \<lparr>
     p_pair = '''', p_protocol = ''scmi'', p_frame = ''pbx'', p_channel_count = 128,
     p_feat_spt0 = 1, p_feat_spt1 = 0, p_iidr = 0x0000043b, p_aidr = 0x20, p_direct_boot_compat = False,
     p_scmi_transport = ''mailbox'', p_tx_shmem = 0x00180000, p_rx_shmem = 0x00180100,
     p_scmi_channel_stride = 0, p_scmi_channel_base_index = 0, p_scmi_channel_count = 1,
     p_init_shmem = True, p_ack_bit = 0, p_power_domain_version = 0x00020000,
     p_sys_power_version = 0x00020000, p_power_domain_attributes = 0, p_power_domain_name = ''AP'',
     p_assert_power_on_reset = False, p_power_domain_reset_count = 0, p_power_domain_reset_delay_ns = 1,
     p_power_domain_reset_assert_on_power_off = True, p_power_domain_reset_pulse_on_power_on = False,
     p_system_power_reset_delay_ns = 1, p_system_power_reset_pulse_width_ns = 1,
     p_doorbell_ack_trigger_channel = 0, p_doorbell_ack_trigger_value = 0, p_doorbell_ack_channel = 0,
     p_doorbell_ack_value = 0, p_doorbell_ack_seed_address = 0, p_rpmsg_ns_enable = False,
     p_rpmsg_ns_name = '''', p_rpmsg_ns_remote_addr = 1024, p_rpmsg_ns_vring_address = 0,
     p_rpmsg_ns_vring_num = 32, p_rpmsg_ns_vring_align = 16, p_rpmsg_ns_signal_channel = 0,
     p_rpmsg_ns_signal_value = 1, p_rpmsg_ns_signal_delay_ns = 0, p_rpmsg_ns_max_polls = 1000,
     p_synthetic_txdone_delay_ns = 1000,
     mhu_irq_bound = True, power_on_reset_bound = True, power_domain_reset_bound = (\<lambda>_. True)\<rparr>"

datatype mhu_event =
    Power_on_reset_event
  | Power_domain_reset_event
  | System_power_reset_event
  | Rpmsg_ns_event
  | Synthetic_postbox_completion_event

datatype reset_port = Power_on_reset | Power_domain_reset nat | System_reset

record scmi_agent = rse_services +
  m_power_domain_states :: "nat \<Rightarrow> u32"
  m_performance_levels :: "nat \<Rightarrow> u32"
  m_power_domain_state :: u32
  m_pending_power_on_reset :: bool
  m_pending_power_domain_reset_valid :: bool
  m_pending_power_domain_reset_id :: u32
  m_pending_power_domain_reset_state :: u32
  m_pending_system_power_reset_valid :: bool
  m_pending_system_power_state :: u32
  notified :: "(mhu_event \<times> u64) list"
  reset_writes :: "(reset_port \<times> bool) list"

definition notify :: "mhu_event \<Rightarrow> u64 \<Rightarrow> 'a scmi_agent_scheme \<Rightarrow> 'a scmi_agent_scheme" where
  "notify e delay a = a\<lparr>notified := notified a @ [(e, delay)]\<rparr>"

subsection \<open>Resets\<close>

definition write_power_on_reset :: "mhu_params \<Rightarrow> bool \<Rightarrow> 'a scmi_agent_scheme \<Rightarrow> 'a scmi_agent_scheme" where
  "write_power_on_reset P asserted a =
     (if power_on_reset_bound P then a\<lparr>reset_writes := reset_writes a @ [(Power_on_reset, asserted)]\<rparr> else a)"

definition write_power_domain_reset ::
    "mhu_params \<Rightarrow> u32 \<Rightarrow> bool \<Rightarrow> 'a scmi_agent_scheme \<Rightarrow> 'a scmi_agent_scheme" where
  "write_power_domain_reset P domain_id asserted a =
     (if domain_id < p_power_domain_reset_count P \<and> power_domain_reset_bound P (unat domain_id)
      then a\<lparr>reset_writes := reset_writes a @ [(Power_domain_reset (unat domain_id), asserted)]\<rparr> else a)"

definition write_system_reset :: "bool \<Rightarrow> 'a scmi_agent_scheme \<Rightarrow> 'a scmi_agent_scheme" where
  "write_system_reset asserted a = a\<lparr>reset_writes := reset_writes a @ [(System_reset, asserted)]\<rparr>"

definition power_state_is_on :: "u32 \<Rightarrow> bool" where
  "power_state_is_on st \<longleftrightarrow> st AND 0xf = 1"

definition power_state_is_off :: "u32 \<Rightarrow> bool" where
  "power_state_is_off st \<longleftrightarrow> st AND 0xf = 0"

definition sys_power_state_is_reset :: "u32 \<Rightarrow> bool" where
  "sys_power_state_is_reset st \<longleftrightarrow> st = SCMI_SYS_POWER_COLD_RESET \<or> st = SCMI_SYS_POWER_WARM_RESET"

definition drive_power_domain_reset ::
    "mhu_params \<Rightarrow> u32 \<Rightarrow> u32 \<Rightarrow> 'a scmi_agent_scheme \<Rightarrow> 'a scmi_agent_scheme" where
  "drive_power_domain_reset P domain_id st a =
     (if power_state_is_on st then
        (let a = (if p_power_domain_reset_pulse_on_power_on P then write_power_domain_reset P domain_id True a else a);
             a = write_power_domain_reset P domain_id False a
         in write_power_on_reset P False a)
      else if power_state_is_off st then
        (if p_power_domain_reset_assert_on_power_off P
         then write_power_on_reset P True (write_power_domain_reset P domain_id True a)
         else a)
      else a)"

definition apply_power_domain_state ::
    "mhu_params \<Rightarrow> u32 \<Rightarrow> u32 \<Rightarrow> 'a scmi_agent_scheme \<Rightarrow> 'a scmi_agent_scheme" where
  "apply_power_domain_state P domain_id st a =
     (let a = (if domain_id < 256 then a\<lparr>m_power_domain_states := (m_power_domain_states a)(unat domain_id := st)\<rparr> else a);
          a = a\<lparr>m_power_domain_state := st, m_pending_power_domain_reset_id := domain_id,
                m_pending_power_domain_reset_state := st, m_pending_power_domain_reset_valid := True\<rparr>
      in notify Power_domain_reset_event (p_power_domain_reset_delay_ns P) a)"

definition read_power_domain_state :: "u32 \<Rightarrow> 'a scmi_agent_scheme \<Rightarrow> u32" where
  "read_power_domain_state domain_id a =
     (if domain_id < 256 then m_power_domain_states a (unat domain_id) else m_power_domain_state a)"

definition schedule_power_on_reset :: "bool \<Rightarrow> 'a scmi_agent_scheme \<Rightarrow> 'a scmi_agent_scheme" where
  "schedule_power_on_reset asserted a = notify Power_on_reset_event 0 (a\<lparr>m_pending_power_on_reset := asserted\<rparr>)"

definition emit_power_on_reset :: "mhu_params \<Rightarrow> 'a scmi_agent_scheme \<Rightarrow> 'a scmi_agent_scheme" where
  "emit_power_on_reset P a = write_power_on_reset P (m_pending_power_on_reset a) a"

text \<open>One turn of the thread, from the event to the next wait.\<close>

definition emit_power_domain_reset :: "mhu_params \<Rightarrow> 'a scmi_agent_scheme \<Rightarrow> 'a scmi_agent_scheme" where
  "emit_power_domain_reset P a =
     (if \<not> m_pending_power_domain_reset_valid a then a
      else drive_power_domain_reset P (m_pending_power_domain_reset_id a) (m_pending_power_domain_reset_state a)
             (a\<lparr>m_pending_power_domain_reset_valid := False\<rparr>))"

definition schedule_system_power_reset :: "mhu_params \<Rightarrow> u32 \<Rightarrow> 'a scmi_agent_scheme \<Rightarrow> 'a scmi_agent_scheme" where
  "schedule_system_power_reset P st a =
     (if \<not> sys_power_state_is_reset st then a
      else notify System_power_reset_event (p_system_power_reset_delay_ns P)
             (a\<lparr>m_pending_system_power_state := st, m_pending_system_power_reset_valid := True\<rparr>))"

text \<open>
  The thread waits in the middle of its turn: the rise of the reset and, after the pulse width, its fall.
  The rise says whether a fall is to follow.
\<close>

definition emit_system_power_reset_rise :: "'a scmi_agent_scheme \<Rightarrow> bool \<times> 'a scmi_agent_scheme" where
  "emit_system_power_reset_rise a =
     (if \<not> m_pending_system_power_reset_valid a then (False, a)
      else (True, write_system_reset True (a\<lparr>m_pending_system_power_reset_valid := False\<rparr>)))"

definition emit_system_power_reset_fall :: "'a scmi_agent_scheme \<Rightarrow> 'a scmi_agent_scheme" where
  "emit_system_power_reset_fall a = write_system_reset False a"

subsection \<open>Headers and strings\<close>

definition msg_id :: "u32 \<Rightarrow> u8" where
  "msg_id header = ucast (header AND 0xff)"

definition protocol_id :: "u32 \<Rightarrow> u8" where
  "protocol_id header = ucast (drop_bit 10 header AND 0xff)"

text \<open>\<^verbatim>\<open>strncpy\<close> of a C string into 16 zero bytes, the last of which stays zero.\<close>

definition fixed_param_string :: "string \<Rightarrow> u8 list" where
  "fixed_param_string name =
     (let bytes = take 15 (takeWhile (\<lambda>b. b \<noteq> 0) (map of_char name))
      in bytes @ replicate (16 - length bytes) 0)"

fun to_string :: "nat \<Rightarrow> string" where
  "to_string n = (if n < 10 then [char_of (48 + n)] else to_string (n div 10) @ [char_of (48 + n mod 10)])"

declare to_string.simps [simp del]

definition fixed_string :: "string \<Rightarrow> u8 list" where
  "fixed_string v = fixed_param_string v"

subsection \<open>The protocols\<close>

text \<open>
  A handler extends the status and payload it is given; \<open>scmi_reply\<close> is that pair. The request is
  the bytes after the header word.
\<close>

type_synonym scmi_reply = "u32 \<times> u8 list"

definition scmi_supported_protocols :: "mhu_params \<Rightarrow> u8 list" where
  "scmi_supported_protocols P =
     (if p_scmi_transport P = ''pfdi-monitor'' then [SCMI_PROTOCOL_BASE, SCMI_PROTOCOL_PFDI_MONITOR]
      else [SCMI_PROTOCOL_BASE, SCMI_PROTOCOL_POWER_DOMAIN, SCMI_PROTOCOL_SYS_POWER, SCMI_PROTOCOL_PERFORMANCE])"

text \<open>The loop that pads the protocol list to a multiple of four bytes.\<close>

definition pad4 :: "u8 list \<Rightarrow> u8 list" where
  "pad4 payload = payload @ replicate ((4 - (length payload - 4) mod 4) mod 4) 0"

definition respond_scmi_base :: "mhu_params \<Rightarrow> u32 \<Rightarrow> scmi_reply \<Rightarrow> scmi_reply" where
  "respond_scmi_base P header r =
     (let (status, payload) = r; msg = msg_id header; protocols = scmi_supported_protocols P
      in if msg = 0x0 then (status, append_u32 payload 0x00020001)
         else if msg = 0x1 then (status, [of_nat (length protocols), 1, 0, 0])
         else if msg = 0x2 then (status, append_u32 payload 0)
         else if msg = 0x3 then (status, fixed_string ''QBox'')
         else if msg = 0x4 then (status, fixed_string ''RD-Aspen'')
         else if msg = 0x5 then (status, append_u32 payload 1)
         else if msg = 0x6 then (status, pad4 (append_u32 payload (of_nat (length protocols)) @ protocols))
         else if msg = 0x7 then (status, append_u32 payload 0 @ fixed_string ''platform'')
         else if msg = 0x8 then (status, payload)
         else (SCMI_ERR_SUPPORT, payload))"

definition respond_scmi_power_domain ::
    "mhu_params \<Rightarrow> u32 \<Rightarrow> u8 list \<Rightarrow> scmi_reply \<Rightarrow> 'a scmi_agent_scheme \<Rightarrow> scmi_reply \<times> 'a scmi_agent_scheme" where
  "respond_scmi_power_domain P header request r a =
     (let (status, payload) = r; msg = msg_id header
      in if msg = 0x0 then ((status, append_u32 payload (p_power_domain_version P)), a)
         else if msg = 0x2 then
           (if read_le32 request 0 = 0x4 \<or> read_le32 request 0 = 0x5
            then ((status, append_u32 payload 0), a)
            else ((SCMI_ERR_SUPPORT, append_u32 payload 0), a))
         else if msg = 0x3 then
           ((status, append_u32 payload (p_power_domain_attributes P) @ fixed_param_string (p_power_domain_name P)), a)
         else if msg = 0x4 then
           ((status, payload), apply_power_domain_state P (read_le32 request 4) (read_le32 request 8) a)
         else if msg = 0x5 then
           ((status, append_u32 payload (read_power_domain_state (read_le32 request 0) a)), a)
         else ((SCMI_ERR_SUPPORT, payload), a))"

definition respond_scmi_sys_power ::
    "mhu_params \<Rightarrow> u32 \<Rightarrow> u8 list \<Rightarrow> scmi_reply \<Rightarrow> 'a scmi_agent_scheme \<Rightarrow> scmi_reply \<times> 'a scmi_agent_scheme" where
  "respond_scmi_sys_power P header request r a =
     (let (status, payload) = r; msg = msg_id header
      in if msg = 0x0 then ((status, append_u32 payload (p_sys_power_version P)), a)
         else if msg = SCMI_MSG_PROTOCOL_MESSAGE_ATTRIBUTES then
           (let attribute = read_le32 request 0;
                status = (if attribute = ucast SCMI_SYS_POWER_STATE_SET \<or> attribute = ucast SCMI_SYS_POWER_STATE_NOTIFY
                          then status else SCMI_ERR_SUPPORT)
            in ((status, append_u32 payload 0), a))
         else if msg = SCMI_SYS_POWER_STATE_SET then
           ((status, payload), schedule_system_power_reset P (read_le32 request 4) a)
         else if msg = SCMI_SYS_POWER_STATE_NOTIFY then ((status, payload), a)
         else ((SCMI_ERR_SUPPORT, payload), a))"

definition valid_domain :: "u32 \<Rightarrow> bool" where
  "valid_domain domain \<longleftrightarrow> domain < SCMI_PERF_DOMAIN_COUNT"

definition opp_level :: "nat \<Rightarrow> u32" where
  "opp_level index = (if index = 0 then 1000 else if index = 1 then 1500 else 2000)"

definition opp_power :: "nat \<Rightarrow> u32" where
  "opp_power index = (if index = 0 then 100 else if index = 1 then 200 else 300)"

definition append_opp :: "nat \<Rightarrow> u8 list \<Rightarrow> u8 list" where
  "append_opp index payload =
     (let level = opp_level index;
          payload = append_u32 (append_u32 payload level) (opp_power index);
          payload = append_u16 (append_u16 payload 1000) 0
      in append_u32 (append_u32 payload (level * 1000)) (of_nat index))"

definition perf_describe_levels :: "u8 list \<Rightarrow> scmi_reply \<Rightarrow> scmi_reply" where
  "perf_describe_levels request r =
     (let (status, payload) = r; domain = read_le32 request 0; skip = read_le32 request 4
      in if \<not> valid_domain domain then (SCMI_ERR_PARAM, payload)
         else
           (let returned = (if skip < SCMI_PERF_OPP_COUNT then SCMI_PERF_OPP_COUNT - skip else 0);
                payload = append_u16 (append_u16 payload (ucast returned)) 0
            in (status, fold append_opp [unat skip..<unat SCMI_PERF_OPP_COUNT] payload)))"

definition perf_domain_attributes :: "u8 list \<Rightarrow> scmi_reply \<Rightarrow> scmi_reply" where
  "perf_domain_attributes request r =
     (let (status, payload) = r; domain = read_le32 request 0
      in if \<not> valid_domain domain then (SCMI_ERR_PARAM, payload)
         else
           (let payload = append_u32 payload (SCMI_PERF_DOMAIN_SUPPORTS_SET_LIMITS OR
                            SCMI_PERF_DOMAIN_SUPPORTS_SET_LEVEL OR SCMI_PERF_DOMAIN_SUPPORTS_LIMIT_NOTIFY OR
                            SCMI_PERF_DOMAIN_SUPPORTS_LEVEL_NOTIFY);
                payload = append_u32 (append_u32 payload 0) SCMI_PERF_SUSTAINED_FREQ_KHZ;
                payload = append_u32 payload SCMI_PERF_MAX_LEVEL
            in (status, payload @ fixed_param_string (''APCPU'' @ to_string (unat domain)))))"

definition perf_level_set ::
    "u8 list \<Rightarrow> scmi_reply \<Rightarrow> 'a scmi_agent_scheme \<Rightarrow> scmi_reply \<times> 'a scmi_agent_scheme" where
  "perf_level_set request r a =
     (let (status, payload) = r; domain = read_le32 request 0; level = read_le32 request 4
      in if \<not> valid_domain domain then ((SCMI_ERR_PARAM, payload), a)
         else (r, a\<lparr>m_performance_levels := (m_performance_levels a)
                  (unat domain := (if level \<noteq> 0 then level else SCMI_PERF_MAX_LEVEL))\<rparr>))"

definition perf_level_get :: "u8 list \<Rightarrow> scmi_reply \<Rightarrow> 'a scmi_agent_scheme \<Rightarrow> scmi_reply" where
  "perf_level_get request r a =
     (let (status, payload) = r; domain = read_le32 request 0
      in if \<not> valid_domain domain then (SCMI_ERR_PARAM, payload)
         else
           (let level = (if m_performance_levels a (unat domain) \<noteq> 0 then m_performance_levels a (unat domain)
                         else SCMI_PERF_MAX_LEVEL)
            in (status, append_u32 payload level)))"

text \<open>The message identifiers \<^verbatim>\<open>PROTOCOL_MESSAGE_ATTRIBUTES\<close> knows: 0 to 0xa.\<close>

definition perf_known_message :: "u32 \<Rightarrow> bool" where
  "perf_known_message m \<longleftrightarrow>
     m \<in> {0x0, 0x1, ucast SCMI_MSG_PROTOCOL_MESSAGE_ATTRIBUTES, ucast SCMI_PERF_DOMAIN_ATTRIBUTES,
          ucast SCMI_PERF_DESCRIBE_LEVELS, ucast SCMI_PERF_LIMITS_SET, ucast SCMI_PERF_LIMITS_GET,
          ucast SCMI_PERF_LEVEL_SET, ucast SCMI_PERF_LEVEL_GET, ucast SCMI_PERF_NOTIFY_LIMITS,
          ucast SCMI_PERF_NOTIFY_LEVEL}"

definition respond_scmi_performance ::
    "u32 \<Rightarrow> u8 list \<Rightarrow> scmi_reply \<Rightarrow> 'a scmi_agent_scheme \<Rightarrow> scmi_reply \<times> 'a scmi_agent_scheme" where
  "respond_scmi_performance header request r a =
     (let (status, payload) = r; msg = msg_id header; domain = read_le32 request 0
      in if msg = 0x0 then ((status, append_u32 payload SCMI_PERFORMANCE_VERSION), a)
         else if msg = 0x1 then
           (let payload = append_u16 (append_u16 payload (ucast SCMI_PERF_DOMAIN_COUNT)) 0
            in ((status, append_u32 (append_u32 (append_u32 payload 0) 0) 0), a))
         else if msg = SCMI_MSG_PROTOCOL_MESSAGE_ATTRIBUTES then
           ((if perf_known_message (read_le32 request 0) then status else SCMI_ERR_SUPPORT, append_u32 payload 0), a)
         else if msg = SCMI_PERF_DOMAIN_ATTRIBUTES then (perf_domain_attributes request r, a)
         else if msg = SCMI_PERF_DESCRIBE_LEVELS then (perf_describe_levels request r, a)
         else if msg = SCMI_PERF_LIMITS_SET then
           ((if valid_domain domain then status else SCMI_ERR_PARAM, payload), a)
         else if msg = SCMI_PERF_LIMITS_GET then
           (if \<not> valid_domain domain then ((SCMI_ERR_PARAM, payload), a)
            else ((status, append_u32 (append_u32 payload SCMI_PERF_MAX_LEVEL) SCMI_PERF_MIN_LEVEL), a))
         else if msg = SCMI_PERF_LEVEL_SET then perf_level_set request r a
         else if msg = SCMI_PERF_LEVEL_GET then (perf_level_get request r a, a)
         else if msg = SCMI_PERF_NOTIFY_LIMITS \<or> msg = SCMI_PERF_NOTIFY_LEVEL then
           ((if valid_domain domain then status else SCMI_ERR_PARAM, payload), a)
         else ((SCMI_ERR_SUPPORT, payload), a))"

definition respond_scmi_pfdi_monitor :: "u32 \<Rightarrow> scmi_reply \<Rightarrow> scmi_reply" where
  "respond_scmi_pfdi_monitor header r =
     (let (status, payload) = r; msg = msg_id header
      in if msg = 0x0 then (status, append_u32 payload SCMI_PFDI_MONITOR_VERSION)
         else if msg = 0x3 \<or> msg = 0x4 then (status, payload)
         else (SCMI_ERR_SUPPORT, payload))"

text \<open>The switch over the protocol in \<^verbatim>\<open>respond_scmi\<close>.\<close>

definition scmi_dispatch ::
    "mhu_params \<Rightarrow> u32 \<Rightarrow> u8 list \<Rightarrow> 'a scmi_agent_scheme \<Rightarrow> scmi_reply \<times> 'a scmi_agent_scheme" where
  "scmi_dispatch P header request a =
     (let r = (SCMI_SUCCESS, []); protocol = protocol_id header
      in if protocol = SCMI_PROTOCOL_BASE then (respond_scmi_base P header r, a)
         else if protocol = SCMI_PROTOCOL_POWER_DOMAIN then respond_scmi_power_domain P header request r a
         else if protocol = SCMI_PROTOCOL_SYS_POWER then respond_scmi_sys_power P header request r a
         else if protocol = SCMI_PROTOCOL_PERFORMANCE then respond_scmi_performance header request r a
         else if protocol = SCMI_PROTOCOL_PFDI_MONITOR \<and> p_scmi_transport P = ''pfdi-monitor''
         then (respond_scmi_pfdi_monitor header r, a)
         else ((SCMI_ERR_SUPPORT, []), a))"

subsection \<open>Shared memory\<close>

definition mem_read32 :: "'m bus \<Rightarrow> u64 \<Rightarrow> 'm \<Rightarrow> u32 \<times> 'm" where
  "mem_read32 bus address m =
     (let (_, bs, m) = mem_access bus TLM_READ_COMMAND address (replicate 4 0) m in (le_word (take 4 bs), m))"

definition mem_read16 :: "'m bus \<Rightarrow> u64 \<Rightarrow> 'm \<Rightarrow> u16 \<times> 'm" where
  "mem_read16 bus address m =
     (let (_, bs, m) = mem_access bus TLM_READ_COMMAND address (replicate 2 0) m in (le_word (take 2 bs), m))"

definition mem_read64 :: "'m bus \<Rightarrow> u64 \<Rightarrow> 'm \<Rightarrow> u64 \<times> 'm" where
  "mem_read64 bus address m =
     (let (_, bs, m) = mem_access bus TLM_READ_COMMAND address (replicate 8 0) m in (le_word (take 8 bs), m))"

definition mhu_mem_write :: "'m bus \<Rightarrow> u64 \<Rightarrow> u8 list \<Rightarrow> 'm \<Rightarrow> 'm" where
  "mhu_mem_write bus address bs m = (let (_, _, m) = mem_access bus TLM_WRITE_COMMAND address bs m in m)"

definition mhu_mem_write32 :: "'m bus \<Rightarrow> u64 \<Rightarrow> u32 \<Rightarrow> 'm \<Rightarrow> 'm" where
  "mhu_mem_write32 bus address v m = mhu_mem_write bus address (le_bytes 4 v) m"

definition mhu_mem_write16 :: "'m bus \<Rightarrow> u64 \<Rightarrow> u16 \<Rightarrow> 'm \<Rightarrow> 'm" where
  "mhu_mem_write16 bus address v m = mhu_mem_write bus address (le_bytes 2 v) m"

definition scmi_shmem :: "mhu_params \<Rightarrow> nat \<Rightarrow> u64" where
  "scmi_shmem P channel =
     (let base = unat (p_scmi_channel_base_index P);
          slot = (if channel \<ge> base then channel - base else channel)
      in p_tx_shmem P + (p_scmi_channel_stride P * of_nat slot))"

definition write_scmi_response ::
    "mhu_params \<Rightarrow> 'm bus \<Rightarrow> nat \<Rightarrow> u32 \<Rightarrow> u32 \<Rightarrow> u8 list \<Rightarrow> 'm \<Rightarrow> 'm" where
  "write_scmi_response P bus channel header status payload m =
     (let shmem = scmi_shmem P channel;
          len = of_nat (8 + length payload);
          m = mhu_mem_write32 bus (shmem + SCMI_LENGTH) len m;
          m = mhu_mem_write32 bus (shmem + SCMI_HEADER) header m;
          m = mhu_mem_write32 bus (shmem + SCMI_PAYLOAD) status m;
          m = (if payload \<noteq> [] then mhu_mem_write bus (shmem + SCMI_PAYLOAD + 4) payload m else m)
      in mhu_mem_write32 bus (shmem + SCMI_CHAN_STATUS) SCMI_CHAN_FREE m)"

definition read_scmi_request_payload :: "mhu_params \<Rightarrow> 'm bus \<Rightarrow> nat \<Rightarrow> u32 \<Rightarrow> 'm \<Rightarrow> u8 list \<times> 'm" where
  "read_scmi_request_payload P bus channel len m =
     (if len \<le> 4 then ([], m)
      else
        (let (_, bs, m) = mem_access bus TLM_READ_COMMAND (scmi_shmem P channel + SCMI_PAYLOAD)
                            (replicate (unat (len - 4)) 0) m
         in (bs, m)))"

text \<open>
  The part of \<^verbatim>\<open>respond_scmi\<close> before the mailbox is signalled: the request is read, answered, and the
  answer written back. The header is returned for what follows.
\<close>

definition scmi_exchange ::
    "mhu_params \<Rightarrow> 'm bus \<Rightarrow> nat \<Rightarrow> 'a scmi_agent_scheme \<Rightarrow> 'm \<Rightarrow> u32 \<times> 'a scmi_agent_scheme \<times> 'm" where
  "scmi_exchange P bus channel a m =
     (let shmem = scmi_shmem P channel;
          (len, m) = mem_read32 bus (shmem + SCMI_LENGTH) m;
          (header, m) = mem_read32 bus (shmem + SCMI_HEADER) m;
          (request, m) = read_scmi_request_payload P bus channel len m;
          ((status, payload), a) = scmi_dispatch P header request a
      in (header, a, write_scmi_response P bus channel header status payload m))"

subsection \<open>Answers\<close>

lemma length_fixed_param_string [simp]: "length (fixed_param_string v) = 16"
  by (simp add: fixed_param_string_def Let_def)

lemma length_append_opp: "length (append_opp i payload) = length payload + 20"
  by (simp add: append_opp_def Let_def)

lemma length_fold_opp: "length (fold append_opp xs payload) = length payload + 20 * length xs"
  by (induction xs arbitrary: payload) (simp_all add: length_append_opp)

lemma length_pad4: "length (pad4 payload) \<le> length payload + 3"
  by (simp add: pad4_def)

text \<open>No answer is longer than 64 bytes.\<close>

lemma base_bound: "length (snd (respond_scmi_base P header (SCMI_SUCCESS, []))) \<le> 64"
  using length_pad4[of "le_bytes 4 (of_nat (length (scmi_supported_protocols P)) :: u32) @ scmi_supported_protocols P"]
  by (auto simp: respond_scmi_base_def fixed_string_def scmi_supported_protocols_def Let_def split: if_splits)

lemma performance_bound: "length (snd (fst (respond_scmi_performance header request (SCMI_SUCCESS, []) a))) \<le> 64"
proof -
  have "length (snd (perf_describe_levels request (SCMI_SUCCESS, []))) \<le> 64"
    by (simp add: perf_describe_levels_def length_fold_opp Let_def)
  then show ?thesis
    by (simp add: respond_scmi_performance_def perf_domain_attributes_def perf_level_set_def perf_level_get_def Let_def)
qed

lemma scmi_payload_bound: "length (snd (fst (scmi_dispatch P header request a))) \<le> 64"
  by (simp add: base_bound performance_bound scmi_dispatch_def respond_scmi_power_domain_def respond_scmi_sys_power_def
      respond_scmi_pfdi_monitor_def Let_def)

subsection \<open>Shared memory\<close>

lemma mem_access_write:
  assumes "memory_bus bus peek" and "length bs < 2 ^ 32" and "mem_access bus TLM_WRITE_COMMAND address bs m = (ok, bs', m')"
  shows "ok \<and> peek m' = ram_write (peek m) address bs"
proof -
  let ?t = "\<lparr>p_command = TLM_WRITE_COMMAND, p_address = address, p_data = Some bs, p_len = of_nat (length bs),
     p_response = TLM_INCOMPLETE_RESPONSE, p_dmi_allowed = False\<rparr>"
  obtain t m1 where b: "bus ?t m = (t, m1)" by fastforce
  have len: "unat (of_nat (length bs) :: u32) = length bs" using assms(2) by (intro unat_of_nat_small) simp
  have "t = ?t\<lparr>p_response := TLM_OK_RESPONSE\<rparr>" "peek m1 = ram_write (peek m) address bs"
    using memory_bus_write[OF assms(1) _ _ _ b] len by simp_all
  then show ?thesis using assms(3) b by (auto simp: mem_access_def is_response_ok_def)
qed

lemma mem_access_read:
  assumes "memory_bus bus peek" and "length bs < 2 ^ 32" and "mem_access bus TLM_READ_COMMAND address bs m = (ok, bs', m')"
  shows "ok \<and> bs' = ram_read (peek m) address (length bs) \<and> peek m' = peek m"
proof -
  let ?t = "\<lparr>p_command = TLM_READ_COMMAND, p_address = address, p_data = Some bs, p_len = of_nat (length bs),
     p_response = TLM_INCOMPLETE_RESPONSE, p_dmi_allowed = False\<rparr>"
  obtain t m1 where b: "bus ?t m = (t, m1)" by fastforce
  have len: "unat (of_nat (length bs) :: u32) = length bs" using assms(2) by (intro unat_of_nat_small) simp
  have "t = ?t\<lparr>p_data := Some (ram_read (peek m) address (length bs)), p_response := TLM_OK_RESPONSE\<rparr>" "peek m1 = peek m"
    using memory_bus_read[OF assms(1) _ _ _ b] len by simp_all
  then show ?thesis using assms(3) b by (auto simp: mem_access_def is_response_ok_def)
qed

lemma mhu_mem_write_memory:
  "memory_bus bus peek \<Longrightarrow> length bs < 2 ^ 32 \<Longrightarrow> peek (mhu_mem_write bus address bs m) = ram_write (peek m) address bs"
  using mem_access_write[of bus peek bs address m] by (auto simp: mhu_mem_write_def split: prod.split)

lemma mem_read32_memory:
  "memory_bus bus peek \<Longrightarrow> mem_read32 bus address m = (v, m') \<Longrightarrow>
   v = le_word (ram_read (peek m) address 4) \<and> peek m' = peek m"
  using mem_access_read[of bus peek "replicate 4 0" address m] by (auto simp: mem_read32_def split: prod.splits)

text \<open>The response as one block of bytes, and the status word before it.\<close>

lemma write_scmi_response_memory:
  assumes "memory_bus bus peek" and "length payload \<le> 64"
  shows "peek (write_scmi_response P bus channel header status payload m) =
    ram_write (ram_write (peek m) (scmi_shmem P channel + SCMI_LENGTH)
      (le_bytes 4 (of_nat (8 + length payload) :: u32) @ le_bytes 4 header @ le_bytes 4 status @ payload))
      (scmi_shmem P channel + SCMI_CHAN_STATUS) (le_bytes 4 SCMI_CHAN_FREE)"
proof -
  let ?sh = "scmi_shmem P channel"
  define ln where "ln = (of_nat (8 + length payload) :: u32)"
  let ?len = "le_bytes 4 ln"
  have w: "peek (mhu_mem_write bus address bs m) = ram_write (peek m) address bs" if "length bs \<le> 64" for bs address m
    using mhu_mem_write_memory[OF assms(1)] that by simp
  have b1: "ram_write (ram_write M (?sh + 0x14) ?len) (?sh + 0x18) (le_bytes 4 header) =
      ram_write M (?sh + 0x14) (?len @ le_bytes 4 header)" for M
    using ram_write_append[of ?len "le_bytes 4 header" M "?sh + 0x14"] by (simp add: add.assoc)
  have b2: "ram_write (ram_write M (?sh + 0x14) (?len @ le_bytes 4 header)) (?sh + 0x1c) (le_bytes 4 status) =
      ram_write M (?sh + 0x14) (?len @ le_bytes 4 header @ le_bytes 4 status)" for M
    using ram_write_append[of "?len @ le_bytes 4 header" "le_bytes 4 status" M "?sh + 0x14"] by (simp add: add.assoc)
  have b3: "ram_write (ram_write M (?sh + 0x14) (?len @ le_bytes 4 header @ le_bytes 4 status)) (?sh + 0x20) payload =
      ram_write M (?sh + 0x14) (?len @ le_bytes 4 header @ le_bytes 4 status @ payload)" for M
    using ram_write_append[of "?len @ le_bytes 4 header @ le_bytes 4 status" payload M "?sh + 0x14"] assms(2)
    by (simp add: add.assoc)
  show ?thesis
    unfolding write_scmi_response_def Let_def ln_def[symmetric] mhu_mem_write32_def
    using b3[of "peek m"] by (simp add: w assms(2) b1 b2 b3 add.assoc)
qed

lemma read_payload_memory:
  assumes "memory_bus bus peek" and "read_scmi_request_payload P bus channel len m = (bs, m')"
  shows "bs = (if len \<le> 4 then [] else ram_read (peek m) (scmi_shmem P channel + SCMI_PAYLOAD) (unat (len - 4)))"
    and "peek m' = peek m"
proof -
  obtain ok bs1 m1 where acc: "mem_access bus TLM_READ_COMMAND (scmi_shmem P channel + SCMI_PAYLOAD)
      (replicate (unat (len - 4)) 0) m = (ok, bs1, m1)" by (metis prod_cases3)
  moreover have "unat (len - 4) < 2 ^ 32" using unat_bound[of "len - 4"] by simp
  ultimately have "bs1 = ram_read (peek m) (scmi_shmem P channel + SCMI_PAYLOAD) (unat (len - 4))" "peek m1 = peek m"
    using mem_access_read[OF assms(1) _ acc] by simp_all
  then show "bs = (if len \<le> 4 then [] else ram_read (peek m) (scmi_shmem P channel + SCMI_PAYLOAD) (unat (len - 4)))"
    and "peek m' = peek m"
    using assms(2) acc by (auto simp: read_scmi_request_payload_def split: if_splits)
qed

text \<open>
  C27. An SCMI exchange over a memory: the header and request are read from the channel's shared memory,
  and after it the shared memory holds the length, the same header, the status and the payload the
  dispatched protocol handler gives, at most 64 bytes, and the channel is marked free.
\<close>

theorem scmi_exchange_memory:
  fixes len :: u32
  assumes "memory_bus bus peek" and "scmi_exchange P bus channel a m = (header, a', m')"
    and "sh = scmi_shmem P channel" and "len = le_word (ram_read (peek m) (sh + SCMI_LENGTH) 4)"
    and "request = (if len \<le> 4 then [] else ram_read (peek m) (sh + SCMI_PAYLOAD) (unat (len - 4)))"
    and "scmi_dispatch P (le_word (ram_read (peek m) (sh + SCMI_HEADER) 4)) request a = ((status, payload), a1)"
  shows "header = le_word (ram_read (peek m) (sh + SCMI_HEADER) 4) \<and> a' = a1 \<and> length payload \<le> 64 \<and>
    ram_read (peek m') (sh + SCMI_LENGTH) (12 + length payload) =
      le_bytes 4 (of_nat (8 + length payload) :: u32) @ le_bytes 4 header @ le_bytes 4 status @ payload \<and>
    ram_read (peek m') (sh + SCMI_CHAN_STATUS) 4 = le_bytes 4 SCMI_CHAN_FREE"
proof -
  obtain l1 m1 where r1: "mem_read32 bus (sh + SCMI_LENGTH) m = (l1, m1)" by fastforce
  obtain h m2 where r2: "mem_read32 bus (sh + SCMI_HEADER) m1 = (h, m2)" by fastforce
  obtain rq m3 where r3: "read_scmi_request_payload P bus channel l1 m2 = (rq, m3)" by fastforce
  have l1: "l1 = len" "peek m1 = peek m" using mem_read32_memory[OF assms(1) r1] assms(4) by simp_all
  have h: "h = le_word (ram_read (peek m) (sh + SCMI_HEADER) 4)" "peek m2 = peek m"
    using mem_read32_memory[OF assms(1) r2] l1 by simp_all
  have rq: "rq = request" "peek m3 = peek m"
    using read_payload_memory[OF assms(1) r3] l1 h(2) assms(3,5) by simp_all
  have bound: "length payload \<le> 64"
    using scmi_payload_bound[of P "le_word (ram_read (peek m) (sh + SCMI_HEADER) 4)" request a] assms(6) by simp
  have out: "header = h" "a' = a1" "m' = write_scmi_response P bus channel h status payload m3"
    using assms(2,3,6) r1 r2 r3 rq(1) h by (auto simp: scmi_exchange_def Let_def)
  let ?block = "le_bytes 4 (of_nat (8 + length payload) :: u32) @ le_bytes 4 header @ le_bytes 4 status @ payload"
  have m': "peek m' = ram_write (ram_write (peek m) (sh + SCMI_LENGTH) ?block) (sh + SCMI_CHAN_STATUS) (le_bytes 4 SCMI_CHAN_FREE)"
    using write_scmi_response_memory[OF assms(1) bound] assms(3) out rq(2) by simp
  have len: "12 + length payload = length ?block" by simp
  have "ram_read (peek m') (sh + SCMI_LENGTH) (12 + length payload) = ?block"
  proof -
    have "ram_read (peek m') (sh + SCMI_LENGTH) (12 + length payload) =
        ram_read (ram_write (peek m) (sh + SCMI_LENGTH) ?block) (sh + SCMI_LENGTH) (12 + length payload)"
      unfolding m' by (rule ram_read_write_other) (use bound in \<open>simp add: unat_add_small unat_of_nat_small\<close>)
    also have "\<dots> = ?block" unfolding len by (rule ram_read_write_same) (use bound in simp)
    finally show ?thesis .
  qed
  moreover have "ram_read (peek m') (sh + SCMI_CHAN_STATUS) 4 = le_bytes 4 SCMI_CHAN_FREE"
    unfolding m' using ram_read_write_same[of "le_bytes 4 SCMI_CHAN_FREE"] by simp
  ultimately show ?thesis using out h bound by simp
qed

text \<open>An agent at reset and a memory whose shared area asks for the version of the base protocol.\<close>

definition example_agent :: scmi_agent where
  "example_agent = \<lparr>m_ps_store = Map.empty, m_measurements = (\<lambda>_. empty_measurement), m_power_domain_states = (\<lambda>_. 0),
     m_performance_levels = (\<lambda>_. 0), m_power_domain_state = 0, m_pending_power_on_reset = False,
     m_pending_power_domain_reset_valid = False, m_pending_power_domain_reset_id = 0,
     m_pending_power_domain_reset_state = 0, m_pending_system_power_reset_valid = False,
     m_pending_system_power_state = 0, notified = [], reset_writes = []\<rparr>"

definition example_header :: ram where
  "example_header = (\<lambda>a. if a = 0x00180019 then 0x40 else 0)"

theorem scmi_exchange_memory_witness:
  "\<exists>header a m. scmi_exchange mhu_default_params ram_bus 0 example_agent example_header = (header, a, m) \<and>
     ram_read m 0x00180014 16 = le_bytes 4 (12 :: u32) @ le_bytes 4 (0x4000 :: u32) @ le_bytes 4 SCMI_SUCCESS @
       le_bytes 4 (0x00020001 :: u32)"
proof -
  let ?P = mhu_default_params
  have P: "scmi_shmem ?P 0 = 0x00180000" by (simp add: scmi_shmem_def mhu_default_params_def)
  obtain header a m where x: "scmi_exchange ?P ram_bus 0 example_agent example_header = (header, a, m)" by (metis prod_cases3)
  have rd: "le_word (ram_read example_header 0x180014 4) = (0 :: u32)" "le_word (ram_read example_header 0x180018 4) = (0x4000 :: u32)"
    by (simp_all add: ram_read_def upt_4 example_header_def)
  have d: "scmi_dispatch ?P 0x4000 [] example_agent = ((SCMI_SUCCESS, le_bytes 4 (0x00020001 :: u32)), example_agent)"
    by (simp add: scmi_dispatch_def protocol_id_def msg_id_def respond_scmi_base_def Let_def)
  have "header = 0x4000 \<and> ram_read m 0x180014 16 = le_bytes 4 (12 :: u32) @ le_bytes 4 header @ le_bytes 4 SCMI_SUCCESS @
       le_bytes 4 (0x00020001 :: u32)"
    using scmi_exchange_memory[OF memory_bus_ram x refl refl refl, unfolded P] rd d by simp
  then show ?thesis using x by auto
qed

text \<open>
  The power domain protocol keeps what it is told: after POWER_STATE_SET of a domain,
  POWER_STATE_GET returns that state for the domain, the old one for every other domain below 256,
  and the last state set, of whichever domain, for the identifiers above; the reset of the domain is
  pending.
\<close>

theorem scmi_power_state:
  assumes "protocol_id hs = SCMI_PROTOCOL_POWER_DOMAIN" and "msg_id hs = 0x4"
    and "protocol_id hg = SCMI_PROTOCOL_POWER_DOMAIN" and "msg_id hg = 0x5"
    and "scmi_dispatch P hs (le_bytes 4 (flags :: u32) @ le_bytes 4 (d :: u32) @ le_bytes 4 (v :: u32)) a = (r, a1)"
  shows "r = (SCMI_SUCCESS, []) \<and>
    fst (scmi_dispatch P hg (le_bytes 4 (e :: u32)) a1) = (SCMI_SUCCESS, le_bytes 4
      (if e = d \<or> 256 \<le> e then v else m_power_domain_states a (unat e))) \<and>
    m_pending_power_domain_reset_valid a1 \<and> m_pending_power_domain_reset_id a1 = d \<and>
    m_pending_power_domain_reset_state a1 = v"
proof -
  let ?q = "le_bytes 4 flags @ le_bytes 4 d @ le_bytes 4 v"
  have q: "read_le32 ?q 4 = d" "read_le32 ?q 8 = v"
    using read_le32_at[of "le_bytes 4 flags" 4 d "le_bytes 4 v"] read_le32_at[of "le_bytes 4 flags @ le_bytes 4 d" 8 v "[]"]
    by simp_all
  have a1: "r = (SCMI_SUCCESS, [])" "a1 = apply_power_domain_state P d v a"
    using assms(1,2,5) by (simp_all add: scmi_dispatch_def respond_scmi_power_domain_def q Let_def)
  have "read_power_domain_state e a1 = (if e = d \<or> 256 \<le> e then v else m_power_domain_states a (unat e))"
    unfolding a1 using word_unat_eq_iff[of e d]
    by (auto simp: read_power_domain_state_def apply_power_domain_state_def notify_def Let_def not_le)
  then show ?thesis
    using assms(3,4) a1
    by (auto simp: scmi_dispatch_def respond_scmi_power_domain_def apply_power_domain_state_def notify_def Let_def)
qed

theorem scmi_power_state_witness:
  "fst (scmi_dispatch mhu_default_params 0x4405 (le_bytes 4 (3 :: u32))
     (snd (scmi_dispatch mhu_default_params 0x4404 (le_bytes 4 (0 :: u32) @ le_bytes 4 (3 :: u32) @ le_bytes 4 (1 :: u32)) example_agent)))
   = (SCMI_SUCCESS, [1, 0, 0, 0])"
proof -
  have h: "protocol_id 0x4404 = SCMI_PROTOCOL_POWER_DOMAIN" "msg_id 0x4404 = 0x4"
    "protocol_id 0x4405 = SCMI_PROTOCOL_POWER_DOMAIN" "msg_id 0x4405 = 0x5"
    by (simp_all add: protocol_id_def msg_id_def)
  obtain r a1 where d: "scmi_dispatch mhu_default_params 0x4404 (le_bytes 4 (0 :: u32) @ le_bytes 4 (3 :: u32) @ le_bytes 4 (1 :: u32))
      example_agent = (r, a1)" by fastforce
  show ?thesis unfolding d using scmi_power_state[OF h d, of 3] by (simp add: le_bytes_4)
qed

end
