(* ===== verification/Mhu320ae.thy ===== *)
theory Mhu320ae
  imports Mhu_Scmi "HOL-Library.While_Combinator"
begin

text \<open>
  The message handling unit (class \<^verbatim>\<open>mhu320ae\<close> of
  \<^verbatim>\<open>src/systemc-components/mhu320ae/include/mhu320ae.h\<close>): postboxes and mailboxes that find each other
  by their pair name, doorbells between them, the services a doorbell starts (SCMI, the RSE proxy, the
  automatic acknowledge, the rpmsg name service announcement) and the bus accesses.

  A postbox changes the mailbox it is paired with, so the operations work on all modules of the system at
  once: \<open>mods\<close> maps an identity (the \<^verbatim>\<open>this\<close> pointer) to its module, \<open>Ps\<close> to its parameters and
  \<open>bus\<close> to what its initiator socket is bound to; the static members of the class are fields of the world.
\<close>

subsection \<open>Constants\<close>

abbreviation (input) VRING_DESC_F_WRITE :: u16 where "VRING_DESC_F_WRITE \<equiv> 2"
abbreviation (input) VRING_DESC_SIZE :: u64 where "VRING_DESC_SIZE \<equiv> 16"
abbreviation (input) VRING_AVAIL_HEADER_SIZE :: u64 where "VRING_AVAIL_HEADER_SIZE \<equiv> 4"
abbreviation (input) VRING_USED_HEADER_SIZE :: u64 where "VRING_USED_HEADER_SIZE \<equiv> 4"
abbreviation (input) VRING_USED_ELEM_SIZE :: u64 where "VRING_USED_ELEM_SIZE \<equiv> 8"
abbreviation (input) RPMSG_NS_ADDR :: u32 where "RPMSG_NS_ADDR \<equiv> 53"
abbreviation (input) RPMSG_NS_CREATE :: u32 where "RPMSG_NS_CREATE \<equiv> 0"
abbreviation (input) RPMSG_NAME_SIZE :: nat where "RPMSG_NAME_SIZE \<equiv> 32"
abbreviation (input) RPMSG_NS_MSG_SIZE :: u16 where "RPMSG_NS_MSG_SIZE \<equiv> 40"

subsection \<open>State\<close>

record synthetic_postbox_completion =
  sc_channel :: nat
  sc_mask :: u32
  sc_reason :: string

record mhu320ae = scmi_agent +
  m_frame :: mhu_frame
  irq_writes :: "bool list"
  m_rpmsg_ns_pending :: bool
  m_rpmsg_ns_sent :: bool
  m_rpmsg_ns_last_avail_idx :: u16
  m_rpmsg_ns_poll_count :: u32
  m_doorbell_ack_seed_words :: "u32 list"
  m_synthetic_postbox_completions :: "synthetic_postbox_completion list"

record 'm mhu_world =
  mods :: "nat \<Rightarrow> mhu320ae"
  s_mbx :: "nat option"
  s_pbx :: "nat option"
  s_mbx_by_pair :: "string \<rightharpoonup> nat"
  s_pbx_by_pair :: "string \<rightharpoonup> nat"
  mhu_mem :: 'm

definition mhu_fields :: "u32 list \<Rightarrow> mhu320ae" where
  "mhu_fields seed_words = \<lparr>m_ps_store = Map.empty, m_measurements = (\<lambda>_. empty_measurement),
     m_power_domain_states = (\<lambda>_. 0), m_performance_levels = (\<lambda>_. 0), m_power_domain_state = 0,
     m_pending_power_on_reset = False, m_pending_power_domain_reset_valid = False,
     m_pending_power_domain_reset_id = 0, m_pending_power_domain_reset_state = 0,
     m_pending_system_power_reset_valid = False, m_pending_system_power_state = 0, notified = [],
     reset_writes = [], m_frame = frame_fields, irq_writes = [], m_rpmsg_ns_pending = False,
     m_rpmsg_ns_sent = False, m_rpmsg_ns_last_avail_idx = 0, m_rpmsg_ns_poll_count = 0,
     m_doorbell_ack_seed_words = seed_words, m_synthetic_postbox_completions = []\<rparr>"

text \<open>
  The seed words: the parameter, or else the presets below it. A preset is the rest of its name after the
  prefix and the value the broker reads for it, if it reads one. A number \<^verbatim>\<open>std::stoul\<close> rejects as out of
  range is an exception, \<open>None\<close> here; \<^verbatim>\<open>std::sort\<close> may order equal numbers (\<^verbatim>\<open>1\<close> and \<^verbatim>\<open>01\<close>) either way,
  the model keeps the order of the presets.
\<close>

definition is_digit :: "char \<Rightarrow> bool" where
  "is_digit c \<longleftrightarrow> (48 :: nat) \<le> of_char c \<and> of_char c \<le> (57 :: nat)"

definition stoul :: "string \<Rightarrow> nat option" where
  "stoul s = (let n = fold (\<lambda>c n. n * 10 + (of_char c - 48)) s 0 in if n < 2 ^ 64 then Some n else None)"

primrec indexed_words :: "(string \<times> u32 option) list \<Rightarrow> (u32 \<times> u32) list option" where
  "indexed_words [] = Some []"
| "indexed_words (p # ps) =
     (let (child, got) = p
      in if CHR ''.'' \<in> set child \<or> child = [] \<or> \<not> list_all is_digit child then indexed_words ps
         else
           (case got of
              None \<Rightarrow> indexed_words ps
            | Some v \<Rightarrow> do { n \<leftarrow> stoul child; rest \<leftarrow> indexed_words ps; Some ((of_nat n, v) # rest) }))"

definition load_doorbell_ack_seed_words :: "u32 list \<Rightarrow> (string \<times> u32 option) list \<Rightarrow> u32 list option" where
  "load_doorbell_ack_seed_words direct presets =
     (if direct \<noteq> [] then Some direct
      else do { ws \<leftarrow> indexed_words presets; Some (map snd (sort_key fst ws)) })"

subsection \<open>Parameters read through helpers\<close>

definition is_mbx :: "mhu_params \<Rightarrow> bool" where
  "is_mbx P \<longleftrightarrow> p_frame P = ''mbx''"

definition channel_count :: "mhu_params \<Rightarrow> nat" where
  "channel_count P = max 1 (min (unat (p_channel_count P)) DBCH_CHANNELS)"

definition scmi_channel_in_range :: "mhu_params \<Rightarrow> nat \<Rightarrow> bool" where
  "scmi_channel_in_range P channel \<longleftrightarrow>
     (let base = unat (p_scmi_channel_base_index P)
      in channel \<ge> base \<and> channel - base < unat (p_scmi_channel_count P))"

abbreviation notify_of :: "mhu_params \<Rightarrow> nat" where
  "notify_of P \<equiv> notify_channel (channel_count P)"

definition paired_mbx :: "mhu_params \<Rightarrow> 'm mhu_world \<Rightarrow> nat option" where
  "paired_mbx P w =
     (case s_mbx_by_pair w (p_pair P) of
        Some j \<Rightarrow> Some j
      | None \<Rightarrow> if p_pair P \<noteq> [] then None else s_mbx w)"

definition paired_pbx :: "mhu_params \<Rightarrow> 'm mhu_world \<Rightarrow> nat option" where
  "paired_pbx P w =
     (case s_pbx_by_pair w (p_pair P) of
        Some j \<Rightarrow> Some j
      | None \<Rightarrow> if p_pair P \<noteq> [] then None else s_pbx w)"

subsection \<open>Operations of one module\<close>

definition on_frame :: "(mhu_frame \<Rightarrow> mhu_frame) \<Rightarrow> mhu320ae \<Rightarrow> mhu320ae" where
  "on_frame h d = d\<lparr>m_frame := h (m_frame d)\<rparr>"

definition update_combined_irq :: "mhu_params \<Rightarrow> mhu320ae \<Rightarrow> mhu320ae" where
  "update_combined_irq P d =
     (let d = on_frame refresh_combined_irq_regs d
      in if mhu_irq_bound P then d\<lparr>irq_writes := irq_writes d @ [any_combined_irq (m_frame d)]\<rparr> else d)"

definition signal_doorbell_channel :: "mhu_params \<Rightarrow> nat \<Rightarrow> u32 \<Rightarrow> mhu320ae \<Rightarrow> mhu320ae" where
  "signal_doorbell_channel P channel v d =
     (if channel \<ge> channel_count P then d
      else update_combined_irq P (on_frame (set_status_bits channel v) d))"

definition signal_doorbell :: "mhu_params \<Rightarrow> u32 \<Rightarrow> mhu320ae \<Rightarrow> mhu320ae" where
  "signal_doorbell P b d = (if b \<ge> 32 then d else signal_doorbell_channel P 0 (2 ^ unat b) d)"

definition clear_postbox_doorbell_channel :: "mhu_params \<Rightarrow> nat \<Rightarrow> u32 \<Rightarrow> mhu320ae \<Rightarrow> mhu320ae" where
  "clear_postbox_doorbell_channel P channel msk d =
     (if channel \<ge> channel_count P then d
      else
        (let had_pending_transfer = (m_db_status (m_frame d) channel AND msk \<noteq> 0);
             ack_empty_transfer = (p_pair P \<noteq> ''ap_si_cl1'' \<or> p_protocol P \<noteq> ''doorbell'');
             d = on_frame (clear_status_bits channel msk) d;
             d = (if had_pending_transfer \<or> ack_empty_transfer then on_frame (set_int_status_bits channel 1) d else d)
         in update_combined_irq P d))"

definition schedule_rpmsg_ns_injection :: "mhu_params \<Rightarrow> mhu320ae \<Rightarrow> mhu320ae" where
  "schedule_rpmsg_ns_injection P d =
     (if \<not> p_rpmsg_ns_enable P \<or> m_rpmsg_ns_sent d then d
      else notify Rpmsg_ns_event 0 (d\<lparr>m_rpmsg_ns_pending := True\<rparr>))"

definition set_mbx_mask :: "mhu_params \<Rightarrow> nat \<Rightarrow> u32 \<Rightarrow> mhu320ae \<Rightarrow> mhu320ae" where
  "set_mbx_mask P channel msk d = update_combined_irq P (on_frame (set_mask_bits channel msk) d)"

definition clear_mbx_mask :: "mhu_params \<Rightarrow> nat \<Rightarrow> u32 \<Rightarrow> mhu320ae \<Rightarrow> mhu320ae" where
  "clear_mbx_mask P channel msk d = update_combined_irq P (on_frame (clear_mask_bits channel msk) d)"

definition clear_postbox_interrupt :: "mhu_params \<Rightarrow> nat \<Rightarrow> u32 \<Rightarrow> mhu320ae \<Rightarrow> mhu320ae" where
  "clear_postbox_interrupt P channel msk d = update_combined_irq P (on_frame (clear_int_status_bits channel msk) d)"

definition complete_synthetic_postbox_transfer ::
    "mhu_params \<Rightarrow> nat \<Rightarrow> u32 \<Rightarrow> string \<Rightarrow> mhu320ae \<Rightarrow> mhu320ae" where
  "complete_synthetic_postbox_transfer P channel msk reason d =
     (if channel \<ge> channel_count P \<or> msk = 0 then d
      else notify Synthetic_postbox_completion_event (p_synthetic_txdone_delay_ns P)
             (d\<lparr>m_synthetic_postbox_completions := m_synthetic_postbox_completions d @
                 [\<lparr>sc_channel = channel, sc_mask = msk, sc_reason = reason\<rparr>]\<rparr>))"

text \<open>The loop pops the queue until it is empty; a completion does not push another one.\<close>

definition emit_synthetic_postbox_completions :: "mhu_params \<Rightarrow> mhu320ae \<Rightarrow> mhu320ae" where
  "emit_synthetic_postbox_completions P d =
     fold (\<lambda>completion. clear_postbox_doorbell_channel P (sc_channel completion) (sc_mask completion))
       (m_synthetic_postbox_completions d) (d\<lparr>m_synthetic_postbox_completions := []\<rparr>)"

definition clear_postbox_transfer :: "mhu_params \<Rightarrow> mhu320ae \<Rightarrow> mhu320ae" where
  "clear_postbox_transfer P d =
     update_combined_irq P (on_frame (\<lambda>f. set_int_status_bits (notify_of P) 1 (clear_all_status f)) d)"

definition load_mbx_message :: "mhu_params \<Rightarrow> u8 list \<Rightarrow> mhu320ae \<Rightarrow> mhu320ae" where
  "load_mbx_message P msg d = update_combined_irq P (on_frame (load_frame_message (channel_count P) msg) d)"

subsection \<open>Operations between modules\<close>

definition on_mod :: "nat \<Rightarrow> (mhu320ae \<Rightarrow> mhu320ae) \<Rightarrow> 'm mhu_world \<Rightarrow> 'm mhu_world" where
  "on_mod i h w = w\<lparr>mods := (mods w)(i := h (mods w i))\<rparr>"

text \<open>\<^verbatim>\<open>if (auto mbx = paired_mbx())\<close> and its counterpart for postboxes.\<close>

definition with_mbx ::
    "(nat \<Rightarrow> mhu_params) \<Rightarrow> nat \<Rightarrow> (mhu_params \<Rightarrow> mhu320ae \<Rightarrow> mhu320ae) \<Rightarrow> 'm mhu_world \<Rightarrow> 'm mhu_world" where
  "with_mbx Ps i h w = (case paired_mbx (Ps i) w of None \<Rightarrow> w | Some j \<Rightarrow> on_mod j (h (Ps j)) w)"

definition with_pbx ::
    "(nat \<Rightarrow> mhu_params) \<Rightarrow> nat \<Rightarrow> (mhu_params \<Rightarrow> mhu320ae \<Rightarrow> mhu320ae) \<Rightarrow> 'm mhu_world \<Rightarrow> 'm mhu_world" where
  "with_pbx Ps i h w = (case paired_pbx (Ps i) w of None \<Rightarrow> w | Some j \<Rightarrow> on_mod j (h (Ps j)) w)"

definition respond_scmi ::
    "(nat \<Rightarrow> mhu_params) \<Rightarrow> (nat \<Rightarrow> 'm bus) \<Rightarrow> nat \<Rightarrow> nat \<Rightarrow> 'm mhu_world \<Rightarrow> 'm mhu_world" where
  "respond_scmi Ps bus i channel w =
     (let (header, d, m) = scmi_exchange (Ps i) (bus i) channel (mods w i) (mhu_mem w);
          w = on_mod i (\<lambda>_. d) (w\<lparr>mhu_mem := m\<rparr>);
          w = with_mbx Ps i (\<lambda>P. signal_doorbell P (p_ack_bit (Ps i))) w
      in if protocol_id header = SCMI_PROTOCOL_POWER_DOMAIN \<and> msg_id header = 0x5 \<and>
            m_pending_power_domain_reset_valid (mods w i)
         then on_mod i (notify Power_domain_reset_event 0) w
         else w)"

definition clear_mbx_doorbell_channel ::
    "(nat \<Rightarrow> mhu_params) \<Rightarrow> nat \<Rightarrow> nat \<Rightarrow> u32 \<Rightarrow> 'm mhu_world \<Rightarrow> 'm mhu_world" where
  "clear_mbx_doorbell_channel Ps i channel msk w =
     (if channel \<ge> channel_count (Ps i) then w
      else
        with_pbx Ps i (\<lambda>P. clear_postbox_doorbell_channel P channel msk)
          (on_mod i (\<lambda>d. update_combined_irq (Ps i) (on_frame (clear_status_bits channel msk) d)) w))"

definition seed_doorbell_ack_memory ::
    "(nat \<Rightarrow> mhu_params) \<Rightarrow> (nat \<Rightarrow> 'm bus) \<Rightarrow> nat \<Rightarrow> 'm mhu_world \<Rightarrow> 'm mhu_world" where
  "seed_doorbell_ack_memory Ps bus i w =
     (let ws = m_doorbell_ack_seed_words (mods w i)
      in if ws = [] then w
         else (let (_, _, m) = mem_access (bus i) TLM_WRITE_COMMAND (p_doorbell_ack_seed_address (Ps i))
                                 (fold (\<lambda>v data. append_u32 data v) ws []) (mhu_mem w)
               in w\<lparr>mhu_mem := m\<rparr>))"

text \<open>The branch of \<^verbatim>\<open>write_postbox_doorbell\<close> for the RSE proxy protocol, from the notify write on.\<close>

definition proxy_request ::
    "(nat \<Rightarrow> mhu_params) \<Rightarrow> (nat \<Rightarrow> 'm bus) \<Rightarrow> nat \<Rightarrow> 'm mhu_world \<Rightarrow> 'm mhu_world ub" where
  "proxy_request Ps bus i w =
     do {
       (reply, d, m) \<leftarrow> build_rse_ps_reply (bus i)
          (read_doorbell_message (channel_count (Ps i)) (m_frame (mods w i))) (mods w i) (mhu_mem w);
       let w = on_mod i (\<lambda>_. clear_postbox_transfer (Ps i) d) (w\<lparr>mhu_mem := m\<rparr>);
       Some (with_mbx Ps i (\<lambda>P. load_mbx_message P reply) w)
     }"

text \<open>
  The automatic acknowledge: the memory is seeded, the mailbox signalled, the completion scheduled.
  Nothing happens without a paired mailbox.
\<close>

definition doorbell_auto_ack ::
    "(nat \<Rightarrow> mhu_params) \<Rightarrow> (nat \<Rightarrow> 'm bus) \<Rightarrow> nat \<Rightarrow> nat \<Rightarrow> u32 \<Rightarrow> 'm mhu_world \<Rightarrow> 'm mhu_world" where
  "doorbell_auto_ack Ps bus i channel v w =
     (case paired_mbx (Ps i) w of
        None \<Rightarrow> w
      | Some j \<Rightarrow>
          (let w = seed_doorbell_ack_memory Ps bus i w;
               w = on_mod j (signal_doorbell_channel (Ps j) (unat (p_doorbell_ack_channel (Ps i)))
                               (p_doorbell_ack_value (Ps i))) w
           in on_mod i (complete_synthetic_postbox_transfer (Ps i) channel v ''doorbell-auto-ack'') w))"

definition write_postbox_doorbell ::
    "(nat \<Rightarrow> mhu_params) \<Rightarrow> (nat \<Rightarrow> 'm bus) \<Rightarrow> nat \<Rightarrow> nat \<Rightarrow> u32 \<Rightarrow> 'm mhu_world \<Rightarrow> 'm mhu_world ub" where
  "write_postbox_doorbell Ps bus i channel v w =
     (let P = Ps i;
          w = on_mod i (\<lambda>d. update_combined_irq P (on_frame (set_status_bits channel v) d)) w
      in if p_protocol P = ''rse-ps-proxy'' then
           (if channel = notify_of P \<and> v = MHU_NOTIFY_VALUE then proxy_request Ps bus i w else Some w)
         else if p_protocol P \<noteq> ''doorbell'' then
           Some (with_mbx Ps i (\<lambda>Pm. signal_doorbell_channel Pm channel v) w)
         else if p_doorbell_ack_trigger_value P \<noteq> 0 \<and> channel = unat (p_doorbell_ack_trigger_channel P) \<and>
                 v AND p_doorbell_ack_trigger_value P = p_doorbell_ack_trigger_value P then
           Some (doorbell_auto_ack Ps bus i channel v w)
         else
           (let w = on_mod i (schedule_rpmsg_ns_injection P) w
            in Some (if p_rpmsg_ns_enable P
                     then on_mod i (complete_synthetic_postbox_transfer P channel v ''rpmsg-ns-scheduled'') w
                     else w)))"

definition respond_rse_doorbell :: "(nat \<Rightarrow> mhu_params) \<Rightarrow> nat \<Rightarrow> 'm mhu_world \<Rightarrow> 'm mhu_world" where
  "respond_rse_doorbell Ps i w =
     (let request = read_doorbell_message (channel_count (Ps i)) (m_frame (mods w i));
          reply = build_rse_success_reply request;
          w = on_mod i (clear_postbox_transfer (Ps i)) w
      in with_mbx Ps i (\<lambda>P. load_mbx_message P reply) w)"

subsection \<open>Register writes\<close>

definition write_doorbell_set ::
    "(nat \<Rightarrow> mhu_params) \<Rightarrow> (nat \<Rightarrow> 'm bus) \<Rightarrow> nat \<Rightarrow> nat \<Rightarrow> u32 \<Rightarrow> 'm mhu_world \<Rightarrow> 'm mhu_world ub" where
  "write_doorbell_set Ps bus i channel v w =
     (let P = Ps i
      in if p_protocol P = ''scmi'' \<and> scmi_channel_in_range P channel then Some (respond_scmi Ps bus i channel w)
         else do {
           w \<leftarrow> write_postbox_doorbell Ps bus i channel v w;
           Some (if p_direct_boot_compat P \<and> p_protocol P = ''doorbell'' \<and> channel = notify_of P \<and>
                    v = MHU_NOTIFY_VALUE
                 then respond_rse_doorbell Ps i w else w)
         })"

definition mhu_write32 ::
    "(nat \<Rightarrow> mhu_params) \<Rightarrow> (nat \<Rightarrow> 'm bus) \<Rightarrow> nat \<Rightarrow> u64 \<Rightarrow> u32 \<Rightarrow> 'm mhu_world \<Rightarrow> 'm mhu_world ub" where
  "mhu_write32 Ps bus i off v w =
     (let P = Ps i;
          frame_op = (\<lambda>h. Some (on_mod i (\<lambda>d. update_combined_irq P (on_frame h d)) w));
          plain = do { f \<leftarrow> fr_bus_store off v (m_frame (mods w i)); Some (on_mod i (on_frame (\<lambda>_. f)) w) }
      in case decode_dbch_offset off (m_frame (mods w i)) of
           None \<Rightarrow> plain
         | Some (channel, reg_offset) \<Rightarrow>
             if \<not> is_mbx P then
               (if reg_offset = DBCW_SET then write_doorbell_set Ps bus i channel v w
                else if reg_offset = DBCW_INT_CLR then Some (on_mod i (clear_postbox_interrupt P channel v) w)
                else if reg_offset = DBCW_INT_EN then frame_op (set_int_enable channel v)
                else if reg_offset = DBCW_CTRL then frame_op (set_ctrl channel v)
                else plain)
             else
               (if reg_offset = DBCW_CLR then Some (clear_mbx_doorbell_channel Ps i channel v w)
                else if reg_offset = DBCW_INT_CLR then Some (on_mod i (set_mbx_mask P channel v) w)
                else if reg_offset = DBCW_INT_EN then Some (on_mod i (clear_mbx_mask P channel v) w)
                else if reg_offset = DBCW_CTRL then frame_op (set_ctrl channel v)
                else plain))"

subsection \<open>Bus accesses\<close>

text \<open>A null data pointer, or one with fewer bytes behind it than the length, is outside C++ here.\<close>

definition mhu_b_transport ::
    "(nat \<Rightarrow> mhu_params) \<Rightarrow> (nat \<Rightarrow> 'm bus) \<Rightarrow> nat \<Rightarrow> payload \<Rightarrow> 'm mhu_world \<Rightarrow> (payload \<times> 'm mhu_world) ub" where
  "mhu_b_transport Ps bus i t w =
     (let t = t\<lparr>p_dmi_allowed := False\<rparr>; off = p_address t; len = unat (p_len t)
      in if beyond REG_SPACE_SIZE off (p_len t) \<or> \<not> is_supported_length (p_len t)
         then Some (t\<lparr>p_response := TLM_ADDRESS_ERROR_RESPONSE\<rparr>, w)
         else
           (case p_command t of
              TLM_READ_COMMAND \<Rightarrow> do {
                buf \<leftarrow> p_data t;
                bs \<leftarrow> (if len = 4 then map_option (le_bytes 4) (fr_read32 off (m_frame (mods w i)))
                      else copy_read off len (m_frame (mods w i)));
                if length buf < len then None
                else Some (t\<lparr>p_data := Some (bs @ drop len buf), p_response := TLM_OK_RESPONSE\<rparr>, w)
              }
            | TLM_WRITE_COMMAND \<Rightarrow> do {
                buf \<leftarrow> p_data t;
                if length buf < len then None
                else if len = 4 then do {
                  w \<leftarrow> mhu_write32 Ps bus i off (le_word (take 4 buf)) w;
                  Some (t\<lparr>p_response := TLM_OK_RESPONSE\<rparr>, w)
                }
                else do {
                  f \<leftarrow> copy_write off (take len buf) (m_frame (mods w i));
                  Some (t\<lparr>p_response := TLM_OK_RESPONSE\<rparr>, on_mod i (on_frame (\<lambda>_. f)) w)
                }
              }
            | TLM_IGNORE_COMMAND \<Rightarrow> Some (t\<lparr>p_response := TLM_COMMAND_ERROR_RESPONSE\<rparr>, w)))"

subsection \<open>Elaboration and start of simulation\<close>

definition mhu_end_of_elaboration :: "(nat \<Rightarrow> mhu_params) \<Rightarrow> nat \<Rightarrow> 'm mhu_world \<Rightarrow> 'm mhu_world" where
  "mhu_end_of_elaboration Ps i w =
     (let P = Ps i;
          w = on_mod i (on_frame (configure (is_mbx P) (channel_count P) (p_feat_spt0 P) (p_feat_spt1 P) (p_iidr P) (p_aidr P))) w;
          w = (if is_mbx P then w\<lparr>s_mbx := Some i, s_mbx_by_pair := (s_mbx_by_pair w)(p_pair P \<mapsto> i)\<rparr>
               else w\<lparr>s_pbx := Some i, s_pbx_by_pair := (s_pbx_by_pair w)(p_pair P \<mapsto> i)\<rparr>)
      in on_mod i (update_combined_irq P) w)"

definition start_of_simulation ::
    "(nat \<Rightarrow> mhu_params) \<Rightarrow> (nat \<Rightarrow> 'm bus) \<Rightarrow> nat \<Rightarrow> 'm mhu_world \<Rightarrow> 'm mhu_world" where
  "start_of_simulation Ps bus i w =
     (let P = Ps i;
          w = (if \<not> is_mbx P \<and> p_init_shmem P
               then
                 (let m = fold (\<lambda>channel. mhu_mem_write32 (bus i) (p_tx_shmem P + (p_scmi_channel_stride P * of_nat channel) +
                                 SCMI_CHAN_STATUS) SCMI_CHAN_FREE) [0..<unat (p_scmi_channel_count P)] (mhu_mem w)
                  in w\<lparr>mhu_mem := mhu_mem_write32 (bus i) (p_rx_shmem P + SCMI_CHAN_STATUS) SCMI_CHAN_FREE m\<rparr>)
               else w)
      in if \<not> is_mbx P \<and> p_assert_power_on_reset P then on_mod i (schedule_power_on_reset True) w else w)"

subsection \<open>The rpmsg name service announcement\<close>

definition align_up :: "u64 \<Rightarrow> u64 \<Rightarrow> u64" where
  "align_up v align = (if align = 0 then v else (v + align - 1) AND NOT (align - 1))"

definition rpmsg_ns_avail_address :: "mhu_params \<Rightarrow> u64" where
  "rpmsg_ns_avail_address P = p_rpmsg_ns_vring_address P + (ucast (p_rpmsg_ns_vring_num P) * VRING_DESC_SIZE)"

definition rpmsg_ns_used_address :: "mhu_params \<Rightarrow> u64" where
  "rpmsg_ns_used_address P =
     align_up (rpmsg_ns_avail_address P + VRING_AVAIL_HEADER_SIZE + (ucast (p_rpmsg_ns_vring_num P + 1) * 2))
       (ucast (p_rpmsg_ns_vring_align P))"

definition build_rpmsg_ns_message :: "mhu_params \<Rightarrow> u8 list" where
  "build_rpmsg_ns_message P =
     (let remote_addr = p_rpmsg_ns_remote_addr P;
          name = take (RPMSG_NAME_SIZE - 1) (takeWhile (\<lambda>b. b \<noteq> 0) (map of_char (p_rpmsg_ns_name P)));
          msg = append_u32 (append_u32 (append_u32 [] remote_addr) RPMSG_NS_ADDR) 0;
          msg = append_u16 (append_u16 msg RPMSG_NS_MSG_SIZE) 0;
          msg = msg @ name @ replicate (RPMSG_NAME_SIZE - length name) 0
      in append_u32 (append_u32 msg remote_addr) RPMSG_NS_CREATE)"

text \<open>
  \<^verbatim>\<open>inject_rpmsg_ns_once\<close> up to the message write: a poll that finds no buffer, a descriptor that is not
  usable, a failed write, or the ring slot the message went to. \<open>uint16_t\<close> operands are promoted before
  the remainder, so it is taken at 32 bits.
\<close>

datatype rpmsg_poll = Rpmsg_none | Rpmsg_rejected | Rpmsg_written (rp_desc_id: u16) (rp_avail_idx: u16)

definition rpmsg_take_buffer :: "mhu_params \<Rightarrow> 'm bus \<Rightarrow> u16 \<Rightarrow> 'm \<Rightarrow> rpmsg_poll \<times> 'm" where
  "rpmsg_take_buffer P bus last_avail_idx m =
     (let vring_num = p_rpmsg_ns_vring_num P;
          avail = rpmsg_ns_avail_address P;
          (avail_idx, m) = mem_read16 bus (avail + 2) m
      in if avail_idx = last_avail_idx then (Rpmsg_none, m)
         else
           (let slot = (ucast (ucast last_avail_idx mod vring_num) :: u16);
                (desc_id, m) = mem_read16 bus (avail + VRING_AVAIL_HEADER_SIZE + ucast slot * 2) m
            in if ucast desc_id \<ge> vring_num then (Rpmsg_rejected, m)
               else
                 (let desc = p_rpmsg_ns_vring_address P + ucast desc_id * VRING_DESC_SIZE;
                      (buffer_addr, m) = mem_read64 bus desc m;
                      (buffer_len, m) = mem_read32 bus (desc + 8) m;
                      (flags, m) = mem_read16 bus (desc + 8 + 4) m;
                      message = build_rpmsg_ns_message P
                  in if flags AND VRING_DESC_F_WRITE = 0 \<or> unat buffer_len < length message then (Rpmsg_rejected, m)
                     else
                       (let (ok, _, m) = mem_access bus TLM_WRITE_COMMAND buffer_addr message m
                        in (if ok then Rpmsg_written desc_id avail_idx else Rpmsg_rejected, m)))))"

definition rpmsg_put_used :: "mhu_params \<Rightarrow> 'm bus \<Rightarrow> u16 \<Rightarrow> 'm \<Rightarrow> 'm" where
  "rpmsg_put_used P bus desc_id m =
     (let used = rpmsg_ns_used_address P;
          (used_idx, m) = mem_read16 bus (used + 2) m;
          used_elem = used + VRING_USED_HEADER_SIZE +
                      ucast (ucast used_idx mod p_rpmsg_ns_vring_num P) * VRING_USED_ELEM_SIZE;
          m = mhu_mem_write32 bus used_elem (ucast desc_id) m;
          m = mhu_mem_write32 bus (used_elem + 4) (of_nat (length (build_rpmsg_ns_message P))) m
      in mhu_mem_write16 bus (used + 2) (used_idx + 1) m)"

text \<open>
  \<open>env\<close> is what the rest of the system does while the thread waits; the wait before the signal happens
  only for a delay other than zero.
\<close>

definition inject_rpmsg_ns_once ::
    "(nat \<Rightarrow> mhu_params) \<Rightarrow> (nat \<Rightarrow> 'm bus) \<Rightarrow> ('m mhu_world \<Rightarrow> 'm mhu_world) \<Rightarrow> nat \<Rightarrow>
     'm mhu_world \<Rightarrow> bool \<times> 'm mhu_world" where
  "inject_rpmsg_ns_once Ps bus env i w =
     (let P = Ps i; d = mods w i
      in if \<not> p_rpmsg_ns_enable P \<or> m_rpmsg_ns_sent d \<or> p_rpmsg_ns_vring_num P = 0 then (True, w)
         else
           (let (r, m) = rpmsg_take_buffer P (bus i) (m_rpmsg_ns_last_avail_idx d) (mhu_mem w);
                w = w\<lparr>mhu_mem := m\<rparr>
            in case r of
                 Rpmsg_none \<Rightarrow> (False, on_mod i (\<lambda>d. d\<lparr>m_rpmsg_ns_poll_count := m_rpmsg_ns_poll_count d + 1\<rparr>) w)
               | Rpmsg_rejected \<Rightarrow> (False, on_mod i (\<lambda>d. d\<lparr>m_rpmsg_ns_poll_count := 0\<rparr>) w)
               | Rpmsg_written desc_id avail_idx \<Rightarrow>
                   (let w = w\<lparr>mhu_mem := rpmsg_put_used P (bus i) desc_id (mhu_mem w)\<rparr>;
                        w = on_mod i (\<lambda>d. d\<lparr>m_rpmsg_ns_poll_count := 0, m_rpmsg_ns_last_avail_idx := avail_idx,
                                            m_rpmsg_ns_sent := True\<rparr>) w
                    in case paired_mbx P w of
                         None \<Rightarrow> (True, w)
                       | Some j \<Rightarrow>
                           (let w = (if p_rpmsg_ns_signal_delay_ns P \<noteq> 0 then env w else w)
                            in (True, on_mod j (signal_doorbell_channel (Ps j) (unat (p_rpmsg_ns_signal_channel P))
                                                  (p_rpmsg_ns_signal_value P)) w)))))"

text \<open>The \<^verbatim>\<open>for\<close> loop over the polls, with what is left of the budget; each failed poll waits.\<close>

primrec rpmsg_polls ::
    "(nat \<Rightarrow> mhu_params) \<Rightarrow> (nat \<Rightarrow> 'm bus) \<Rightarrow> ('m mhu_world \<Rightarrow> 'm mhu_world) \<Rightarrow> nat \<Rightarrow> nat \<Rightarrow>
     'm mhu_world \<Rightarrow> 'm mhu_world" where
  "rpmsg_polls Ps bus env i 0 w = w"
| "rpmsg_polls Ps bus env i (Suc polls) w =
     (let (stop, w) = inject_rpmsg_ns_once Ps bus env i w
      in if stop then w else rpmsg_polls Ps bus env i polls (env w))"

text \<open>One turn of the thread, from the event to the next wait for it; \<open>None\<close> when it never gets there.\<close>

definition rpmsg_ns_worker ::
    "(nat \<Rightarrow> mhu_params) \<Rightarrow> (nat \<Rightarrow> 'm bus) \<Rightarrow> ('m mhu_world \<Rightarrow> 'm mhu_world) \<Rightarrow> nat \<Rightarrow>
     'm mhu_world \<Rightarrow> 'm mhu_world option" where
  "rpmsg_ns_worker Ps bus env i w =
     while_option (\<lambda>w. m_rpmsg_ns_pending (mods w i) \<and> \<not> m_rpmsg_ns_sent (mods w i))
       (\<lambda>w. rpmsg_polls Ps bus env i (unat (p_rpmsg_ns_max_polls (Ps i)))
              (on_mod i (\<lambda>d. d\<lparr>m_rpmsg_ns_pending := False\<rparr>) w)) w"

subsection \<open>Frames and interrupts\<close>

lemma channel_ops_sel [simp]:
  "m_db_status (set_status_bits c v f) = (m_db_status f)(c := m_db_status f c OR v)"
  "m_db_status (clear_status_bits c v f) = (m_db_status f)(c := m_db_status f c AND NOT v)"
  "m_db_status (set_int_status_bits c v f) = m_db_status f"
  "m_db_int_status (set_status_bits c v f) = m_db_int_status f"
  "m_db_int_status (clear_status_bits c v f) = m_db_int_status f"
  "m_db_int_status (set_int_status_bits c v f) = (m_db_int_status f)(c := m_db_int_status f c OR v)"
  "m_db_mask (set_status_bits c v f) = m_db_mask f" "m_db_mask (clear_status_bits c v f) = m_db_mask f"
  "m_channel_count (set_status_bits c v f) = m_channel_count f"
  "m_channel_count (clear_status_bits c v f) = m_channel_count f"
  "m_channel_count (set_int_status_bits c v f) = m_channel_count f"
  "m_is_mbx (set_status_bits c v f) = m_is_mbx f" "m_is_mbx (clear_status_bits c v f) = m_is_mbx f"
  "m_is_mbx (set_int_status_bits c v f) = m_is_mbx f"
  by (simp_all add: set_status_bits_def clear_status_bits_def set_int_status_bits_def)

lemma on_frame_sel [simp]:
  "m_frame (on_frame h d) = h (m_frame d)" "irq_writes (on_frame h d) = irq_writes d"
  "m_ps_store (on_frame h d) = m_ps_store d"
  "m_synthetic_postbox_completions (on_frame h d) = m_synthetic_postbox_completions d"
  by (simp_all add: on_frame_def)

lemma update_irq_sel [simp]:
  "m_frame (update_combined_irq P d) = refresh_combined_irq_regs (m_frame d)"
  by (simp add: update_combined_irq_def Let_def)

lemma combined_irq_refresh [simp]:
  "any_combined_irq (refresh_combined_irq_regs f) = any_combined_irq f"
proof -
  have "channel_asserted (refresh_combined_irq_regs f) = channel_asserted f"
    by (simp add: channel_asserted_def channel_masked_status_def fun_eq_iff)
  then show ?thesis by (simp add: any_combined_irq_def combined_dbch_int_st_def Let_def)
qed

text \<open>The interrupt line, initially low, was last written the combined interrupt of the frame.\<close>

definition irq_current :: "mhu_params \<Rightarrow> mhu320ae \<Rightarrow> bool" where
  "irq_current P d \<longleftrightarrow> mhu_irq_bound P \<longrightarrow> last (False # irq_writes d) = any_combined_irq (m_frame d)"

lemma irq_current_update [simp]: "irq_current P (update_combined_irq P d)"
  by (simp add: irq_current_def update_combined_irq_def Let_def)

lemma irq_current_cong:
  "m_frame d = m_frame d' \<Longrightarrow> irq_writes d = irq_writes d' \<Longrightarrow> irq_current P d \<longleftrightarrow> irq_current P d'"
  by (simp add: irq_current_def)

text \<open>The images do not matter for the interrupt.\<close>

lemma any_irq_regs [simp]: "any_combined_irq (f\<lparr>mf_regs := r\<rparr>) = any_combined_irq f"
proof -
  have "channel_asserted (f\<lparr>mf_regs := r\<rparr>) = channel_asserted f"
    by (simp add: channel_asserted_def channel_masked_status_def fun_eq_iff)
  then show ?thesis by (simp add: any_combined_irq_def combined_dbch_int_st_def Let_def)
qed

lemma irq_current_regs [simp]: "irq_current P (on_frame (\<lambda>_. m_frame d\<lparr>mf_regs := r\<rparr>) d) \<longleftrightarrow> irq_current P d"
  by (simp add: irq_current_def)

lemma irq_current_ops [simp]:
  "irq_current P d \<Longrightarrow> irq_current P (signal_doorbell_channel P c v d)"
  "irq_current P d \<Longrightarrow> irq_current P (signal_doorbell P b d)"
  "irq_current P d \<Longrightarrow> irq_current P (clear_postbox_doorbell_channel P c v d)"
  "irq_current P (set_mbx_mask P c v d)" "irq_current P (clear_mbx_mask P c v d)"
  "irq_current P (clear_postbox_interrupt P c v d)" "irq_current P (clear_postbox_transfer P d)"
  "irq_current P (load_mbx_message P msg d)"
  by (simp_all add: signal_doorbell_channel_def signal_doorbell_def clear_postbox_doorbell_channel_def set_mbx_mask_def
      clear_mbx_mask_def clear_postbox_interrupt_def clear_postbox_transfer_def load_mbx_message_def Let_def)

lemma irq_current_agent [simp]:
  "irq_current P (complete_synthetic_postbox_transfer P c v r d) = irq_current P d"
  "irq_current P (schedule_rpmsg_ns_injection P d) = irq_current P d"
  "irq_current P (notify e t d) = irq_current P d"
  "irq_current P (d\<lparr>m_rpmsg_ns_poll_count := n\<rparr>) = irq_current P d"
  "irq_current P (d\<lparr>m_rpmsg_ns_poll_count := n, m_rpmsg_ns_last_avail_idx := x, m_rpmsg_ns_sent := b\<rparr>) = irq_current P d"
  by (simp_all add: complete_synthetic_postbox_transfer_def schedule_rpmsg_ns_injection_def notify_def irq_current_def)

lemma irq_current_completions:
  assumes "irq_current P d" shows "irq_current P (emit_synthetic_postbox_completions P d)"
proof -
  have "irq_current P (fold (\<lambda>completion. clear_postbox_doorbell_channel P (sc_channel completion) (sc_mask completion)) cs d)"
    if "irq_current P d" for cs d
    using that by (induction cs arbitrary: d) simp_all
  moreover have "irq_current P (d\<lparr>m_synthetic_postbox_completions := []\<rparr>)" using assms by (simp add: irq_current_def)
  ultimately show ?thesis by (simp add: emit_synthetic_postbox_completions_def)
qed

text \<open>The services and the agent leave the frame and the line alone.\<close>

definition device_part :: "mhu320ae \<Rightarrow> mhu_frame \<times> bool list" where
  "device_part d = (m_frame d, irq_writes d)"

lemma device_part_irq: "device_part d = device_part d' \<Longrightarrow> irq_current P d = irq_current P d'"
  by (simp add: device_part_def irq_current_def)

lemma device_part_agent [simp]:
  "device_part (apply_power_domain_state P i st d) = device_part d"
  "device_part (schedule_system_power_reset P st d) = device_part d"
  "device_part (schedule_power_on_reset b d) = device_part d"
  "device_part (emit_power_on_reset P d) = device_part d"
  "device_part (emit_power_domain_reset P d) = device_part d"
  "device_part (snd (emit_system_power_reset_rise d)) = device_part d"
  "device_part (emit_system_power_reset_fall d) = device_part d"
  "device_part (d\<lparr>m_rpmsg_ns_pending := p\<rparr>) = device_part d"
  "device_part (d\<lparr>m_rpmsg_ns_poll_count := n\<rparr>) = device_part d"
  by (simp_all add: device_part_def apply_power_domain_state_def schedule_system_power_reset_def schedule_power_on_reset_def
      emit_power_on_reset_def emit_power_domain_reset_def emit_system_power_reset_rise_def emit_system_power_reset_fall_def
      drive_power_domain_reset_def write_power_on_reset_def write_power_domain_reset_def write_system_reset_def notify_def Let_def)

lemma device_part_scmi: "device_part (snd (scmi_dispatch P header request d)) = device_part d"
  by (simp add: scmi_dispatch_def respond_scmi_power_domain_def respond_scmi_sys_power_def respond_scmi_performance_def
      perf_level_set_def Let_def device_part_def[of "m_performance_levels_update _ _"]) (simp add: device_part_def)


lemma device_part_scmi_exchange:
  "scmi_exchange P bus c d m = (header, d', m') \<Longrightarrow> device_part d' = device_part d"
  using device_part_scmi by (auto simp: scmi_exchange_def Let_def split: prod.splits) (metis snd_conv)

lemma device_part_services:
  "build_rse_ps_reply bus request d m = Some (reply, d', m') \<Longrightarrow> device_part d' = device_part d"
proof -
  have ext: "device_part (snd (measured_boot_extend r d)) = device_part d"
    "device_part (snd (ps_set r d)) = device_part d" "device_part (snd (ps_remove r d)) = device_part d" for r
    by (simp_all add: measured_boot_extend_def ps_set_def ps_remove_def device_part_def Let_def)
  have "handle_rse_ps_request r outs d = Some (status, outs', d') \<Longrightarrow> device_part d' = device_part d" for r outs status outs' d'
    using ext by (auto simp: handle_rse_ps_request_def handle_rse_measured_boot_request_def bind_eq_Some_conv Let_def
        split: if_splits prod.splits) (metis snd_conv)+
  then show "build_rse_ps_reply bus request d m = Some (reply, d', m') \<Longrightarrow> device_part d' = device_part d"
    by (auto simp: build_rse_ps_reply_def bind_eq_Some_conv Let_def split_beta split: sum.splits)
qed

subsection \<open>The interrupt lines of all modules\<close>

definition irqs_current :: "(nat \<Rightarrow> mhu_params) \<Rightarrow> 'm mhu_world \<Rightarrow> bool" where
  "irqs_current Ps w \<longleftrightarrow> (\<forall>i. irq_current (Ps i) (mods w i))"

lemma irqs_current_on [intro]:
  "irqs_current Ps w \<Longrightarrow> (irq_current (Ps i) (mods w i) \<Longrightarrow> irq_current (Ps i) (h (mods w i))) \<Longrightarrow>
   irqs_current Ps (on_mod i h w)"
  by (simp add: irqs_current_def on_mod_def)

lemma irqs_current_mem [simp]: "irqs_current Ps (w\<lparr>mhu_mem := m\<rparr>) = irqs_current Ps w"
  by (simp add: irqs_current_def)

lemma irqs_current_with:
  assumes "irqs_current Ps w" and "\<And>P d. irq_current P d \<Longrightarrow> irq_current P (h P d)"
  shows "irqs_current Ps (with_mbx Ps i h w)" and "irqs_current Ps (with_pbx Ps i h w)"
  using assms by (auto simp: with_mbx_def with_pbx_def split: option.split)

lemma irqs_current_part:
  "irqs_current Ps w \<Longrightarrow> device_part d = device_part (mods w i) \<Longrightarrow> irqs_current Ps (on_mod i (\<lambda>_. d) w)"
  using device_part_irq[of d "mods w i"] by auto

lemma irqs_current_scmi:
  assumes "irqs_current Ps w" shows "irqs_current Ps (respond_scmi Ps bus i c w)"
proof -
  obtain header d m where x: "scmi_exchange (Ps i) (bus i) c (mods w i) (mhu_mem w) = (header, d, m)" by (metis prod_cases3)
  have "irqs_current Ps (on_mod i (\<lambda>_. d) (w\<lparr>mhu_mem := m\<rparr>))"
    using assms device_part_scmi_exchange[OF x] by (intro irqs_current_part) simp_all
  then have "irqs_current Ps (with_mbx Ps i (\<lambda>P. signal_doorbell P (p_ack_bit (Ps i))) (on_mod i (\<lambda>_. d) (w\<lparr>mhu_mem := m\<rparr>)))"
    by (intro irqs_current_with) simp_all
  then show ?thesis by (auto simp: respond_scmi_def x Let_def)
qed

lemma irqs_current_proxy:
  assumes "irqs_current Ps w" and "proxy_request Ps bus i w = Some w'"
  shows "irqs_current Ps w'"
  using assms by (auto simp: proxy_request_def bind_eq_Some_conv Let_def intro!: irqs_current_with)

lemma irqs_current_auto_ack:
  assumes "irqs_current Ps w" shows "irqs_current Ps (doorbell_auto_ack Ps bus i c v w)"
proof -
  have "irqs_current Ps (seed_doorbell_ack_memory Ps bus i w)"
    using assms by (simp add: seed_doorbell_ack_memory_def Let_def split: prod.split)
  then show ?thesis using assms by (auto simp: doorbell_auto_ack_def Let_def intro!: irqs_current_on split: option.split)
qed

lemma irqs_current_postbox:
  assumes "irqs_current Ps w" and "write_postbox_doorbell Ps bus i c v w = Some w'"
  shows "irqs_current Ps w'"
proof -
  let ?w = "on_mod i (\<lambda>d. update_combined_irq (Ps i) (on_frame (set_status_bits c v) d)) w"
  have "irqs_current Ps ?w" using assms(1) by auto
  then show ?thesis
    using assms(2) unfolding write_postbox_doorbell_def Let_def
    by (auto split: if_splits intro!: irqs_current_auto_ack irqs_current_with irqs_current_on elim: irqs_current_proxy)
qed

lemma irqs_current_set:
  assumes "irqs_current Ps w" and "write_doorbell_set Ps bus i c v w = Some w'"
  shows "irqs_current Ps w'"
proof -
  have rse: "irqs_current Ps (respond_rse_doorbell Ps i w)" if "irqs_current Ps w" for w
    using that by (auto simp: respond_rse_doorbell_def Let_def intro!: irqs_current_with)
  show ?thesis
    using assms
    by (auto simp: write_doorbell_set_def irqs_current_scmi bind_eq_Some_conv Let_def split: if_splits
        intro: rse irqs_current_postbox)
qed

lemma irqs_current_plain:
  assumes "irqs_current Ps w"
  shows "fr_bus_store off v (m_frame (mods w i)) = Some f \<Longrightarrow> irqs_current Ps (on_mod i (on_frame (\<lambda>_. f)) w)"
    and "copy_write off bs (m_frame (mods w i)) = Some f \<Longrightarrow> irqs_current Ps (on_mod i (on_frame (\<lambda>_. f)) w)"
  using assms
  by (auto simp: fr_bus_store_def copy_write_def bind_eq_Some_conv irq_current_def intro!: irqs_current_on split: if_splits)

lemma irqs_current_transport:
  assumes "irqs_current Ps w" and "mhu_b_transport Ps bus i t w = Some (t', w')"
  shows "irqs_current Ps w'"
proof -
  have w32: "irqs_current Ps w'" if "mhu_write32 Ps bus i off v w = Some w'" for off v w'
  proof -
    have clr: "irqs_current Ps (clear_mbx_doorbell_channel Ps i c v w)" for c
      using assms(1) by (auto simp: clear_mbx_doorbell_channel_def intro!: irqs_current_with)
    show ?thesis
      using that assms(1) unfolding mhu_write32_def Let_def
      by (auto simp: bind_eq_Some_conv clr split: option.splits if_splits prod.splits elim: irqs_current_set irqs_current_plain)
  qed
  show ?thesis
    using assms unfolding mhu_b_transport_def Let_def
    by (auto simp: bind_eq_Some_conv split: if_splits tlm_command.splits elim: w32 irqs_current_plain)
qed


lemma irqs_current_elaboration: "irqs_current Ps w \<Longrightarrow> irqs_current Ps (mhu_end_of_elaboration Ps i w)"
  by (simp add: mhu_end_of_elaboration_def irqs_current_def on_mod_def Let_def)

lemma irqs_current_same:
  "irqs_current Ps w \<Longrightarrow> (\<And>d. device_part (h d) = device_part d) \<Longrightarrow> irqs_current Ps (on_mod i h w)"
  using device_part_irq by (metis irqs_current_on)

lemma irqs_current_start: "irqs_current Ps w \<Longrightarrow> irqs_current Ps (start_of_simulation Ps bus i w)"
  by (simp add: start_of_simulation_def irqs_current_same Let_def)

lemma irqs_current_inject:
  assumes "irqs_current Ps w" and "\<And>w. irqs_current Ps w \<Longrightarrow> irqs_current Ps (env w)"
    and "inject_rpmsg_ns_once Ps bus env i w = (stop, w')"
  shows "irqs_current Ps w'"
  using assms(1,3) unfolding inject_rpmsg_ns_once_def Let_def
  by (auto intro!: irqs_current_on assms(2) split: if_splits prod.splits rpmsg_poll.splits option.splits)

subsection \<open>Runs of the system\<close>

text \<open>
  A run interleaves bus accesses to any module, the processes of the modules, elaboration and start of
  simulation, changes of the memory by others, and polls of the rpmsg thread, whose wait \<open>env\<close> is
  itself a run from whatever world it starts in.
\<close>

inductive mhu_run ::
    "(nat \<Rightarrow> mhu_params) \<Rightarrow> (nat \<Rightarrow> 'm bus) \<Rightarrow> 'm mhu_world \<Rightarrow> 'm mhu_world \<Rightarrow> bool"
  for Ps bus where
  run_nothing: "mhu_run Ps bus w w"
| run_transport: "mhu_run Ps bus w0 w \<Longrightarrow> mhu_b_transport Ps bus i t w = Some (t', w') \<Longrightarrow> mhu_run Ps bus w0 w'"
| run_elaboration: "mhu_run Ps bus w0 w \<Longrightarrow> mhu_run Ps bus w0 (mhu_end_of_elaboration Ps i w)"
| run_start: "mhu_run Ps bus w0 w \<Longrightarrow> mhu_run Ps bus w0 (start_of_simulation Ps bus i w)"
| run_power_on_reset: "mhu_run Ps bus w0 w \<Longrightarrow> mhu_run Ps bus w0 (on_mod i (emit_power_on_reset (Ps i)) w)"
| run_power_domain_reset: "mhu_run Ps bus w0 w \<Longrightarrow> mhu_run Ps bus w0 (on_mod i (emit_power_domain_reset (Ps i)) w)"
| run_system_reset_rise: "mhu_run Ps bus w0 w \<Longrightarrow> mhu_run Ps bus w0 (on_mod i (\<lambda>d. snd (emit_system_power_reset_rise d)) w)"
| run_system_reset_fall: "mhu_run Ps bus w0 w \<Longrightarrow> mhu_run Ps bus w0 (on_mod i emit_system_power_reset_fall w)"
| run_completions: "mhu_run Ps bus w0 w \<Longrightarrow> mhu_run Ps bus w0 (on_mod i (emit_synthetic_postbox_completions (Ps i)) w)"
| run_memory: "mhu_run Ps bus w0 w \<Longrightarrow> mhu_run Ps bus w0 (w\<lparr>mhu_mem := m\<rparr>)"
| run_poll_start: "mhu_run Ps bus w0 w \<Longrightarrow> mhu_run Ps bus w0 (on_mod i (\<lambda>d. d\<lparr>m_rpmsg_ns_pending := False\<rparr>) w)"
| run_poll: "mhu_run Ps bus w0 w \<Longrightarrow> (\<And>v. mhu_run Ps bus v (env v)) \<Longrightarrow>
    inject_rpmsg_ns_once Ps bus env i w = (stop, w') \<Longrightarrow> mhu_run Ps bus w0 w'"

lemma irqs_current_run: "mhu_run Ps bus w0 w \<Longrightarrow> irqs_current Ps w0 \<Longrightarrow> irqs_current Ps w"
proof (induction rule: mhu_run.induct)
  case (run_transport w0 w i t t' w')
  then show ?case using irqs_current_transport by blast
next
  case (run_completions w0 w i)
  then show ?case by (auto intro!: irqs_current_on irq_current_completions)
next
  case (run_poll w0 w env i stop w')
  then show ?case using irqs_current_inject by blast
qed (simp_all add: irqs_current_elaboration irqs_current_start irqs_current_same)

lemma irqs_current_fields: "(\<And>i. mods w i = mhu_fields (seeds i)) \<Longrightarrow> irqs_current Ps w"
proof -
  have "\<not> any_combined_irq frame_fields"
    by (subst any_combined_irq_iff) (simp_all add: frame_fields_def channel_asserted_def)
  then show "(\<And>i. mods w i = mhu_fields (seeds i)) \<Longrightarrow> irqs_current Ps w"
    by (simp add: irqs_current_def irq_current_def mhu_fields_def)
qed

text \<open>
  C29. The interrupt lines are right in every reachable state: from construction on, whatever accesses,
  elaborations, events and memory changes are interleaved, each bound interrupt line was last written
  the combined interrupt of its module's frame.
\<close>

theorem mhu_irq_lines:
  assumes "mhu_run Ps bus w0 w" and "\<And>i. mods w0 i = mhu_fields (seeds i)" and "mhu_irq_bound (Ps j)"
  shows "last (False # irq_writes (mods w j)) = any_combined_irq (m_frame (mods w j))"
  using irqs_current_run[OF assms(1) irqs_current_fields[of w0 seeds]] assms(2,3)
  by (simp add: irqs_current_def irq_current_def)

definition example_world :: "ram mhu_world" where
  "example_world = \<lparr>mods = (\<lambda>_. mhu_fields []), s_mbx = None, s_pbx = None, s_mbx_by_pair = Map.empty,
     s_pbx_by_pair = Map.empty, mhu_mem = (\<lambda>_. 0)\<rparr>"

lemma not_mbx_default: "\<not> is_mbx mhu_default_params" and irq_bound_default: "mhu_irq_bound mhu_default_params"
  by (simp_all add: is_mbx_def mhu_default_params_def)

theorem mhu_irq_lines_witness:
  "\<exists>w. mhu_run (\<lambda>_. mhu_default_params) (\<lambda>_. ram_bus) example_world w \<and> s_pbx w = Some 3 \<and>
     last (False # irq_writes (mods w 3)) = any_combined_irq (m_frame (mods w 3))"
proof -
  let ?Ps = "\<lambda>_. mhu_default_params"
  let ?w = "mhu_end_of_elaboration ?Ps 3 example_world"
  have run: "mhu_run ?Ps (\<lambda>_. ram_bus) example_world ?w" by (rule run_elaboration[OF run_nothing])
  have "s_pbx ?w = Some 3"
    by (simp add: mhu_end_of_elaboration_def not_mbx_default on_mod_def Let_def)
  moreover have "last (False # irq_writes (mods ?w 3)) = any_combined_irq (m_frame (mods ?w 3))"
    by (rule mhu_irq_lines[OF run, of "\<lambda>_. []"]) (simp_all add: example_world_def irq_bound_default)
  ultimately show ?thesis using run by blast
qed

subsection \<open>Register writes over the bus\<close>

definition dbcw :: "nat \<Rightarrow> nat \<Rightarrow> u64" where
  "dbcw channel reg = of_nat (DBCW0 + DBCW_STRIDE * channel + reg)"

definition doorbell_write :: "nat \<Rightarrow> nat \<Rightarrow> u32 \<Rightarrow> payload" where
  "doorbell_write channel reg v = write_payload (dbcw channel reg) (le_bytes 4 v)"

abbreviation ok_response :: "payload \<Rightarrow> payload" where
  "ok_response t \<equiv> t\<lparr>p_response := TLM_OK_RESPONSE\<rparr>"

lemma unat_dbcw:
  "c < DBCH_CHANNELS \<Longrightarrow> r < DBCW_STRIDE \<Longrightarrow> unat (dbcw c r) = DBCW0 + DBCW_STRIDE * c + r"
  unfolding dbcw_def by (intro unat_of_nat_small) simp

lemma decode_dbcw:
  assumes "c < m_channel_count f" and "m_channel_count f \<le> DBCH_CHANNELS" and "r < DBCW_STRIDE"
  shows "decode_dbch_offset (dbcw c r) f = Some (c, r)"
proof -
  have c: "c < DBCH_CHANNELS" using assms by simp
  have "unat (dbcw c r - of_nat DBCW0) = DBCW_STRIDE * c + r"
    using unat_dbcw[OF c assms(3)] by (subst unat_sub) (simp_all add: word_le_nat_alt)
  then show ?thesis
    using assms c unat_dbcw[OF c assms(3)] by (simp add: decode_dbch_offset_def word_less_nat_alt word_le_nat_alt)
qed

lemma transport_doorbell:
  assumes "c < DBCH_CHANNELS" and "r < DBCW_STRIDE" and "mhu_write32 Ps bus i (dbcw c r) v w = Some w'"
  shows "mhu_b_transport Ps bus i (doorbell_write c r v) w = Some (ok_response (doorbell_write c r v), w')"
proof -
  have "\<not> beyond REG_SPACE_SIZE (dbcw c r) 4"
    using assms(1,2) by (subst beyond_iff_no_wrap) (simp_all add: unat_dbcw is_supported_length_def)
  then show ?thesis
    using assms(3) by (simp add: mhu_b_transport_def doorbell_write_def write_payload_def is_supported_length_def Let_def)
qed

subsection \<open>A postbox and its mailbox\<close>

definition elaborated :: "(nat \<Rightarrow> mhu_params) \<Rightarrow> nat \<Rightarrow> 'm mhu_world \<Rightarrow> bool" where
  "elaborated Ps i w \<longleftrightarrow> m_channel_count (m_frame (mods w i)) = channel_count (Ps i) \<and>
     m_is_mbx (m_frame (mods w i)) = is_mbx (Ps i)"

definition linked :: "(nat \<Rightarrow> mhu_params) \<Rightarrow> nat \<Rightarrow> nat \<Rightarrow> 'm mhu_world \<Rightarrow> bool" where
  "linked Ps i j w \<longleftrightarrow> i \<noteq> j \<and> \<not> is_mbx (Ps i) \<and> is_mbx (Ps j) \<and> paired_mbx (Ps i) w = Some j \<and>
     paired_pbx (Ps j) w = Some i \<and> elaborated Ps i w \<and> elaborated Ps j w"

lemma int_enable_sel [simp]:
  "m_db_int_enable (set_status_bits c v f) = m_db_int_enable f"
  "m_db_int_enable (clear_status_bits c v f) = m_db_int_enable f"
  "m_db_int_enable (set_int_status_bits c v f) = m_db_int_enable f"
  by (simp_all add: set_status_bits_def clear_status_bits_def set_int_status_bits_def)

lemma channel_count_bound: "1 \<le> channel_count P" "channel_count P \<le> DBCH_CHANNELS"
  by (auto simp: channel_count_def)

lemma on_mod_sel [simp]:
  "mods (on_mod i h w) = (mods w)(i := h (mods w i))" "mhu_mem (on_mod i h w) = mhu_mem w"
  "s_mbx (on_mod i h w) = s_mbx w" "s_pbx (on_mod i h w) = s_pbx w"
  "s_mbx_by_pair (on_mod i h w) = s_mbx_by_pair w" "s_pbx_by_pair (on_mod i h w) = s_pbx_by_pair w"
  by (simp_all add: on_mod_def)

lemma paired_on_mod [simp]:
  "paired_mbx P (on_mod i h w) = paired_mbx P w" "paired_pbx P (on_mod i h w) = paired_pbx P w"
  "paired_mbx P (w\<lparr>mhu_mem := m\<rparr>) = paired_mbx P w" "paired_pbx P (w\<lparr>mhu_mem := m\<rparr>) = paired_pbx P w"
  by (simp_all add: paired_mbx_def paired_pbx_def split: option.split)

lemma write32_doorbell:
  assumes "elaborated Ps i w" and "c < channel_count (Ps i)"
  shows "\<not> is_mbx (Ps i) \<Longrightarrow> mhu_write32 Ps bus i (dbcw c DBCW_SET) v w = write_doorbell_set Ps bus i c v w"
    and "is_mbx (Ps i) \<Longrightarrow> mhu_write32 Ps bus i (dbcw c DBCW_CLR) v w = Some (clear_mbx_doorbell_channel Ps i c v w)"
  using assms channel_count_bound[of "Ps i"]
  by (simp_all add: mhu_write32_def elaborated_def decode_dbcw Let_def)

lemma asserted_irq:
  assumes "c < m_channel_count f" and "m_channel_count f \<le> DBCH_CHANNELS" and "channel_asserted f c"
  shows "any_combined_irq f"
  using assms any_combined_irq_iff by blast



definition example_params :: "string \<Rightarrow> nat \<Rightarrow> mhu_params" where
  "example_params protocol i = mhu_default_params\<lparr>p_pair := ''a'', p_protocol := protocol,
     p_frame := (if i = 1 then ''mbx'' else ''pbx'')\<rparr>"

text \<open>Two modules after elaboration: module 0 is the postbox of pair \<^verbatim>\<open>a\<close>, module 1 its mailbox.\<close>

definition example_pair :: "string \<Rightarrow> ram mhu_world" where
  "example_pair protocol =
     mhu_end_of_elaboration (example_params protocol) 1 (mhu_end_of_elaboration (example_params protocol) 0 example_world)"

lemma example_params_sel [simp]:
  "p_pair (example_params p i) = ''a''" "p_protocol (example_params p i) = p" "is_mbx (example_params p i) \<longleftrightarrow> i = 1"
  "channel_count (example_params p i) = 128" "mhu_irq_bound (example_params p i)"
  by (simp_all add: example_params_def is_mbx_def channel_count_def mhu_default_params_def)

lemma configure_sel [simp]:
  "m_db_status (configure b n s0 s1 iidr aidr f) = m_db_status f"
  "m_db_int_status (configure b n s0 s1 iidr aidr f) = m_db_int_status f"
  "m_db_int_enable (configure b n s0 s1 iidr aidr f) = m_db_int_enable f"
  "m_is_mbx (configure b n s0 s1 iidr aidr f) = b"
  "m_channel_count (configure b n s0 s1 iidr aidr f) = max 1 (min n DBCH_CHANNELS)"
  by (simp_all add: configure_def fold_frame Let_def)

lemma example_pair_linked: "linked (example_params p) 0 1 (example_pair p)"
  by (simp add: linked_def elaborated_def example_pair_def mhu_end_of_elaboration_def example_world_def Let_def
      paired_mbx_def paired_pbx_def)

lemma example_pair_status [simp]:
  "i < 2 \<Longrightarrow> m_db_status (m_frame (mods (example_pair p) i)) = (\<lambda>_. 0)"
  by (auto simp: example_pair_def mhu_end_of_elaboration_def example_world_def mhu_fields_def frame_fields_def Let_def)


subsection \<open>A call over the doorbells\<close>

text \<open>
  What a client of the RSE proxy writes: the length to channel 0, the message word by word to the
  channels after it, and the notify value to the last channel.
\<close>

fun message_writes :: "u8 list \<Rightarrow> nat list \<Rightarrow> payload list" where
  "message_writes msg [] = []"
| "message_writes msg (channel # channels) =
     (if msg = [] then []
      else doorbell_write channel DBCW_SET (le_word (take 4 msg)) # message_writes (drop 4 msg) channels)"

definition send_payloads :: "nat \<Rightarrow> u8 list \<Rightarrow> payload list" where
  "send_payloads n msg = doorbell_write 0 DBCW_SET (of_nat (length msg)) # message_writes msg [1..<n - 1] @
     [doorbell_write (n - 1) DBCW_SET MHU_NOTIFY_VALUE]"

fun transports ::
    "(nat \<Rightarrow> mhu_params) \<Rightarrow> (nat \<Rightarrow> 'm bus) \<Rightarrow> nat \<Rightarrow> payload list \<Rightarrow> 'm mhu_world \<Rightarrow> 'm mhu_world option" where
  "transports Ps bus i [] w = Some w"
| "transports Ps bus i (t # ts) w =
     do { (t', w) \<leftarrow> mhu_b_transport Ps bus i t w; if is_response_ok t' then transports Ps bus i ts w else None }"

lemma transports_append:
  "transports Ps bus i (ts @ us) w = do { w \<leftarrow> transports Ps bus i ts w; transports Ps bus i us w }"
  by (induction ts arbitrary: w) (auto split: Option.bind_split)

text \<open>Only the frame and the line of module i have changed; the status of its channels is \<open>st\<close>.\<close>

definition posted :: "nat \<Rightarrow> (nat \<Rightarrow> u32) \<Rightarrow> 'm mhu_world \<Rightarrow> 'm mhu_world \<Rightarrow> bool" where
  "posted i st w w' \<longleftrightarrow> (\<exists>f q. w' = on_mod i (\<lambda>d. d\<lparr>m_frame := f, irq_writes := q\<rparr>) w \<and> m_db_status f = st \<and>
     m_channel_count f = m_channel_count (m_frame (mods w i)) \<and> m_is_mbx f = m_is_mbx (m_frame (mods w i)) \<and>
     m_db_int_status f = m_db_int_status (m_frame (mods w i)))"

lemma posted_trans: "posted i st w w' \<Longrightarrow> posted i st' w' w'' \<Longrightarrow> posted i st' w w''"
  unfolding posted_def by (force simp: on_mod_def)

lemma posted_sel:
  assumes "posted i st w w'"
  shows "m_db_status (m_frame (mods w' i)) = st" "elaborated Ps k w' \<longleftrightarrow> elaborated Ps k w" "mhu_mem w' = mhu_mem w"
    "paired_mbx P w' = paired_mbx P w" "paired_pbx P w' = paired_pbx P w" "m_ps_store (mods w' i) = m_ps_store (mods w i)"
    "k \<noteq> i \<Longrightarrow> mods w' k = mods w k" "m_db_int_status (m_frame (mods w' i)) = m_db_int_status (m_frame (mods w i))"
  using assms by (cases "k = i"; auto simp: posted_def elaborated_def)+

lemma posted_update:
  "posted i (m_db_status (h (m_frame (mods w i)))) w (on_mod i (\<lambda>d. update_combined_irq P (on_frame h d)) w)"
  if "m_channel_count (h (m_frame (mods w i))) = m_channel_count (m_frame (mods w i))"
     "m_is_mbx (h (m_frame (mods w i))) = m_is_mbx (m_frame (mods w i))"
     "m_db_int_status (h (m_frame (mods w i))) = m_db_int_status (m_frame (mods w i))"
proof -
  let ?f = "refresh_combined_irq_regs (h (m_frame (mods w i)))"
  define q where "q = irq_writes (update_combined_irq P (on_frame h (mods w i)))"
  have "update_combined_irq P (on_frame h (mods w i)) = (mods w i)\<lparr>m_frame := ?f, irq_writes := q\<rparr>"
    unfolding q_def by (cases "mods w i") (simp add: update_combined_irq_def on_frame_def Let_def)
  then have "on_mod i (\<lambda>d. update_combined_irq P (on_frame h d)) w = on_mod i (\<lambda>d. d\<lparr>m_frame := ?f, irq_writes := q\<rparr>) w"
    by (simp add: on_mod_def)
  then show ?thesis using that unfolding posted_def by force
qed

lemma proxy_write:
  assumes "elaborated Ps i w" and "\<not> is_mbx (Ps i)" and "p_protocol (Ps i) = ''rse-ps-proxy''"
    and "c < channel_count (Ps i)" and "c = notify_of (Ps i) \<longrightarrow> v \<noteq> MHU_NOTIFY_VALUE"
    and "m_db_status (m_frame (mods w i)) c = 0"
  shows "\<exists>w'. transports Ps bus i (doorbell_write c DBCW_SET v # ts) w = transports Ps bus i ts w' \<and>
    posted i ((m_db_status (m_frame (mods w i)))(c := v)) w w'"
proof -
  let ?w = "on_mod i (\<lambda>d. update_combined_irq (Ps i) (on_frame (set_status_bits c v) d)) w"
  have c: "c < DBCH_CHANNELS" using assms(4) channel_count_bound[of "Ps i"] by simp
  have "mhu_write32 Ps bus i (dbcw c DBCW_SET) v w = Some ?w"
    using assms(3,5) write32_doorbell(1)[OF assms(1,4,2)]
    by (auto simp: write_doorbell_set_def write_postbox_doorbell_def Let_def)
  from transport_doorbell[OF c _ this]
  have "transports Ps bus i (doorbell_write c DBCW_SET v # ts) w = transports Ps bus i ts ?w"
    by (simp add: is_response_ok_def)
  moreover have "posted i ((m_db_status (m_frame (mods w i)))(c := v)) w ?w"
    using posted_update[of "set_status_bits c v" w i "Ps i"] assms(6) by simp
  ultimately show ?thesis by blast
qed

lemma load_words_status_cong:
  "m_db_status f = m_db_status g \<Longrightarrow> m_db_status (load_message_words msg cs f) = m_db_status (load_message_words msg cs g)"
  by (induction msg cs f arbitrary: g rule: load_message_words.induct) simp_all

lemma message_writes_status:
  assumes "elaborated Ps i w" and "\<not> is_mbx (Ps i)" and "p_protocol (Ps i) = ''rse-ps-proxy''"
    and "distinct cs" and "\<And>c. c \<in> set cs \<Longrightarrow> c < notify_of (Ps i) \<and> m_db_status (m_frame (mods w i)) c = 0"
  shows "\<exists>w'. transports Ps bus i (message_writes msg cs @ ts) w = transports Ps bus i ts w' \<and>
    posted i (m_db_status (load_message_words msg cs (m_frame (mods w i)))) w w'"
  using assms
proof (induction msg cs arbitrary: w rule: message_writes.induct)
  case (1 msg)
  have "posted i (m_db_status (m_frame (mods w i))) w w"
    unfolding posted_def by (intro exI[of _ "m_frame (mods w i)"] exI[of _ "irq_writes (mods w i)"]) (simp add: on_mod_def)
  then show ?case by auto
next
  case (2 msg c cs)
  show ?case
  proof (cases "msg = []")
    case True
    have "posted i (m_db_status (m_frame (mods w i))) w w"
      unfolding posted_def by (intro exI[of _ "m_frame (mods w i)"] exI[of _ "irq_writes (mods w i)"]) (simp add: on_mod_def)
    then show ?thesis using True by auto
  next
    case False
    let ?v = "le_word (take 4 msg) :: u32"
    have c: "c < channel_count (Ps i)" "c \<noteq> notify_of (Ps i)" "m_db_status (m_frame (mods w i)) c = 0"
      using "2.prems"(5)[of c] by (auto simp: notify_channel_def)
    obtain w1 where w1: "transports Ps bus i (doorbell_write c DBCW_SET ?v # message_writes (drop 4 msg) cs @ ts) w =
        transports Ps bus i (message_writes (drop 4 msg) cs @ ts) w1"
      "posted i ((m_db_status (m_frame (mods w i)))(c := ?v)) w w1"
      using proxy_write[OF "2.prems"(1-3) c(1) _ c(3), of ?v bus] c(2) by blast
    have st1: "m_db_status (m_frame (mods w1 i)) = m_db_status (fr_set_status c ?v (m_frame (mods w i)))"
      using posted_sel(1)[OF w1(2)] by simp
    obtain w2 where w2: "transports Ps bus i (message_writes (drop 4 msg) cs @ ts) w1 = transports Ps bus i ts w2"
      "posted i (m_db_status (load_message_words (drop 4 msg) cs (m_frame (mods w1 i)))) w1 w2"
      using "2.IH"[OF False, of w1] "2.prems" posted_sel[OF w1(2)] by fastforce
    show ?thesis
      using False w1 w2 posted_trans[OF w1(2) w2(2)] load_words_status_cong[OF st1] by auto
  qed
qed

lemma read_written_message:
  assumes "2 \<le> n" and "n \<le> DBCH_CHANNELS" and "length msg \<le> 4 * (n - 2)"
    and "m_db_status f 0 = of_nat (length msg)"
    and "m_db_status g = (m_db_status (load_message_words msg [1..<n - 1] f))(n - 1 := x)"
  shows "read_doorbell_message n g = msg"
proof -
  have len: "unat (of_nat (length msg) :: u32) = length msg" using assms(2,3) by (intro unat_of_nat_small) simp
  have 0: "m_db_status g 0 = of_nat (length msg)" using assms(1,4,5) by (simp add: load_words_other)
  have eq: "map (\<lambda>c. le_bytes 4 (m_db_status g c)) [1..<n - 1] =
      map (\<lambda>c. le_bytes 4 (m_db_status (load_message_words msg [1..<n - 1] f) c)) [1..<n - 1]"
    using assms(5) by auto
  have "read_doorbell_message n g = take (length msg) (concat (map (\<lambda>c. le_bytes 4 (m_db_status g c)) [1..<n - 1]))"
    unfolding read_doorbell_message_def notify_channel_def read_message_words_eq 0 len by simp
  also have "\<dots> = msg" unfolding eq using assms(1,3) by (intro load_words_read) auto
  finally show ?thesis .
qed

lemma update_irq_store [simp]: "m_ps_store (update_combined_irq P d) = m_ps_store d"
  by (simp add: update_combined_irq_def Let_def)

lemma proxy_notify:
  assumes "linked Ps i j w" and "p_protocol (Ps i) = ''rse-ps-proxy''"
    and "set_status_bits (notify_of (Ps i)) MHU_NOTIFY_VALUE (m_frame (mods w i)) = f"
    and "\<And>d :: mhu320ae. m_ps_store d = m_ps_store (mods w i) \<Longrightarrow>
      build_rse_ps_reply (bus i) (read_doorbell_message (channel_count (Ps i)) (refresh_combined_irq_regs f)) d (mhu_mem w) =
      Some (reply, d\<lparr>m_ps_store := st\<rparr>, mhu_mem w)"
  shows "\<exists>w'. transports Ps bus i [doorbell_write (notify_of (Ps i)) DBCW_SET MHU_NOTIFY_VALUE] w = Some w' \<and>
    m_frame (mods w' i) = refresh_combined_irq_regs (set_int_status_bits (notify_of (Ps i)) 1
      (clear_all_status (refresh_combined_irq_regs f))) \<and> m_ps_store (mods w' i) = st \<and>
    m_frame (mods w' j) = refresh_combined_irq_regs (load_frame_message (channel_count (Ps j)) reply (m_frame (mods w j))) \<and>
    linked Ps i j w' \<and> mhu_mem w' = mhu_mem w"
proof -
  let ?n = "notify_of (Ps i)" and ?v = "MHU_NOTIFY_VALUE"
  define w1 where "w1 = on_mod i (\<lambda>d. update_combined_irq (Ps i) (on_frame (set_status_bits ?n ?v) d)) w"
  define w2 where "w2 = on_mod j (load_mbx_message (Ps j) reply)
      (on_mod i (\<lambda>_. clear_postbox_transfer (Ps i) ((mods w1 i)\<lparr>m_ps_store := st\<rparr>)) (w1\<lparr>mhu_mem := mhu_mem w\<rparr>))"
  have l: "i \<noteq> j" "\<not> is_mbx (Ps i)" "paired_mbx (Ps i) w = Some j" "elaborated Ps i w"
    using assms(1) by (simp_all add: linked_def)
  have n: "?n < channel_count (Ps i)" "?n < DBCH_CHANNELS"
    using channel_count_bound[of "Ps i"] by (simp_all add: notify_channel_def)
  have fr: "m_frame (mods w1 i) = refresh_combined_irq_regs f" "m_ps_store (mods w1 i) = m_ps_store (mods w i)"
    "mhu_mem w1 = mhu_mem w"
    using assms(3) by (simp_all add: w1_def)
  have "proxy_request Ps bus i w1 = Some w2"
    using assms(4)[of "mods w1 i"] l(3)
    by (simp add: proxy_request_def fr w2_def with_mbx_def) (simp add: w1_def)
  then have "mhu_write32 Ps bus i (dbcw ?n DBCW_SET) ?v w = Some w2"
    using assms(2) write32_doorbell(1)[OF l(4) n(1) l(2), of bus ?v]
    by (simp add: write_doorbell_set_def write_postbox_doorbell_def w1_def[symmetric] Let_def)
  from transport_doorbell[OF n(2) _ this]
  have "transports Ps bus i [doorbell_write ?n DBCW_SET ?v] w = Some w2" by (simp add: is_response_ok_def)
  moreover have "m_frame (mods w2 i) = refresh_combined_irq_regs (set_int_status_bits ?n 1 (clear_all_status (refresh_combined_irq_regs f)))"
    "m_ps_store (mods w2 i) = st" "mhu_mem w2 = mhu_mem w"
    "m_frame (mods w2 j) = refresh_combined_irq_regs (load_frame_message (channel_count (Ps j)) reply (m_frame (mods w j)))"
    using l(1) assms(3) by (simp_all add: w2_def w1_def clear_postbox_transfer_def load_mbx_message_def)
  moreover from this have "linked Ps i j w2"
    using assms(1) assms(3)[symmetric] by (simp add: linked_def elaborated_def) (simp add: w2_def w1_def)
  ultimately show ?thesis by blast
qed

text \<open>
  C4. A protected storage call over the doorbells: the client writes the encoded call into the channels of
  an idle postbox and rings the last one; then the mailbox holds exactly the encoded answer of the abstract
  storage service and the notify value, the store is the abstract one, and the postbox is idle again with its
  transfer acknowledged, so that the next call finds what this one found. Call and answer have to fit in
  the channels.
\<close>

theorem mhu_ps_call:
  assumes "linked Ps i j w" and "p_protocol (Ps i) = ''rse-ps-proxy''"
    and "n = channel_count (Ps i)" and "k = channel_count (Ps j)" and "2 \<le> n" and "2 \<le> k"
    and "\<And>c. c < n \<Longrightarrow> m_db_status (m_frame (mods w i)) c = 0"
    and "ps_call_ok call" and "ps_spec call (m_ps_store (mods w i)) = (status, bytes, st)"
    and "length (ps_message seq client call) \<le> 4 * (n - 2)" and "length (ps_answer seq client status bytes) \<le> 4 * (k - 2)"
  shows "\<exists>w'. transports Ps bus i (send_payloads n (ps_message seq client call)) w = Some w' \<and>
    read_doorbell_message k (m_frame (mods w' j)) = ps_answer seq client status bytes \<and>
    m_db_status (m_frame (mods w' j)) (k - 1) = MHU_NOTIFY_VALUE \<and> m_ps_store (mods w' i) = st \<and>
    (\<forall>c < n. m_db_status (m_frame (mods w' i)) c = 0) \<and> bit (m_db_int_status (m_frame (mods w' i)) (n - 1)) 0 \<and>
    linked Ps i j w' \<and> mhu_mem w' = mhu_mem w"
proof -
  let ?msg = "ps_message seq client call" and ?ans = "ps_answer seq client status bytes"
  let ?f = "m_frame (mods w i)"
  have l: "\<not> is_mbx (Ps i)" "elaborated Ps i w" "i \<noteq> j" using assms(1) by (simp_all add: linked_def)
  have n: "n \<le> DBCH_CHANNELS" "k \<le> DBCH_CHANNELS" "notify_of (Ps i) = n - 1" "n - 1 < n"
    using channel_count_bound assms(3-5) by (simp_all add: notify_channel_def)
  let ?last = "doorbell_write (n - 1) DBCW_SET MHU_NOTIFY_VALUE"
  obtain w1 where w1: "transports Ps bus i (send_payloads n ?msg) w =
      transports Ps bus i (message_writes ?msg [1..<n - 1] @ [?last]) w1"
    "posted i ((m_db_status ?f)(0 := of_nat (length ?msg))) w w1"
    using proxy_write[OF l(2,1) assms(2), of 0 "of_nat (length ?msg)" bus] assms(3,5,7) n(3) unfolding send_payloads_def by auto
  have el1: "elaborated Ps i w1" using l(2) posted_sel(2)[OF w1(2)] by simp
  have idle: "c < notify_of (Ps i) \<and> m_db_status (m_frame (mods w1 i)) c = 0" if "c \<in> set [1..<n - 1]" for c
    using that assms(7) n(3) posted_sel(1)[OF w1(2)] by auto
  obtain w2 where w2: "transports Ps bus i (message_writes ?msg [1..<n - 1] @ [?last]) w1 = transports Ps bus i [?last] w2"
    "posted i (m_db_status (load_message_words ?msg [1..<n - 1] (m_frame (mods w1 i)))) w1 w2"
    using message_writes_status[OF el1 l(1) assms(2) distinct_upt idle, where msg = ?msg and bus = bus and ts = "[?last]"] by blast
  have p: "posted i (m_db_status (load_message_words ?msg [1..<n - 1] (m_frame (mods w1 i)))) w w2"
    by (rule posted_trans[OF w1(2) w2(2)])
  have lw: "linked Ps i j w2" using assms(1) posted_sel[OF p] by (simp add: linked_def)
  have st1: "m_db_status (m_frame (mods w1 i)) 0 = of_nat (length ?msg)" using posted_sel(1)[OF w1(2)] by simp
  let ?g = "refresh_combined_irq_regs (set_status_bits (n - 1) MHU_NOTIFY_VALUE (m_frame (mods w2 i)))"
  have "m_db_status ?g = (m_db_status (load_message_words ?msg [1..<n - 1] (m_frame (mods w1 i))))
      (n - 1 := m_db_status (m_frame (mods w2 i)) (n - 1) OR MHU_NOTIFY_VALUE)"
    using posted_sel(1)[OF p] by simp
  from read_written_message[OF assms(5) n(1) assms(10) st1 this]
  have "read_doorbell_message n ?g = ?msg" .
  then have reply: "build_rse_ps_reply (bus i) (read_doorbell_message (channel_count (Ps i)) ?g) d (mhu_mem w2) =
      Some (?ans, d\<lparr>m_ps_store := st\<rparr>, mhu_mem w2)" if "m_ps_store d = m_ps_store (mods w2 i)" for d :: mhu320ae
    using ps_call_refines[OF assms(8), of d status bytes st] assms(3,9) that posted_sel(6)[OF p] by simp
  obtain w3 where w3: "transports Ps bus i [?last] w2 = Some w3"
    "m_frame (mods w3 i) = refresh_combined_irq_regs (set_int_status_bits (n - 1) 1 (clear_all_status ?g))"
    "m_ps_store (mods w3 i) = st"
    "m_frame (mods w3 j) = refresh_combined_irq_regs (load_frame_message k ?ans (m_frame (mods w2 j)))"
    "linked Ps i j w3" "mhu_mem w3 = mhu_mem w2"
    using proxy_notify[OF lw assms(2) refl, of bus ?ans st] reply unfolding n(3) assms(4)[symmetric] by blast
  have "read_doorbell_message k (load_frame_message k ?ans (m_frame (mods w2 j))) = ?ans"
    "m_db_status (load_frame_message k ?ans (m_frame (mods w2 j))) (k - 1) = MHU_NOTIFY_VALUE"
    using load_then_read[OF assms(6) n(2) assms(11)] by simp_all
  moreover have "read_doorbell_message k (refresh_combined_irq_regs g) = read_doorbell_message k g" for g
    by (simp add: read_doorbell_message_def read_message_words_eq)
  ultimately show ?thesis
    using w1(1) w2(1) w3 n(1) posted_sel(3)[OF p] by (auto simp: bit_simps)
qed

theorem mhu_ps_call_witness:
  "\<exists>w. transports (example_params ''rse-ps-proxy'') (\<lambda>_. ram_bus) 0
     (send_payloads 128 (ps_message 1 2 (Ps_set 7 [10, 20] 0))) (example_pair ''rse-ps-proxy'') = Some w \<and>
     m_ps_store (mods w 0) 7 = Some \<lparr>ps_data = [10, 20], ps_flags = 0\<rparr>"
proof -
  let ?p = "''rse-ps-proxy''"
  have store: "m_ps_store (mods (example_pair ?p) 0) = Map.empty"
    by (simp add: example_pair_def mhu_end_of_elaboration_def example_world_def mhu_fields_def update_combined_irq_def Let_def)
  have len: "length (ps_message 1 2 (Ps_set 7 [10, 20] 0)) \<le> 504" "length (ps_answer 1 2 PSA_SUCCESS []) \<le> 504"
    by (simp_all add: embed_message_def ps_answer_def fill_iovec_def)
  show ?thesis
    using mhu_ps_call[OF example_pair_linked[of ?p] _ refl refl, where call = "Ps_set 7 [10, 20] 0" and bus = "\<lambda>_. ram_bus"] store len
    by fastforce
qed

subsection \<open>The rpmsg thread\<close>

lemma pending_frame [simp]:
  "m_rpmsg_ns_pending (signal_doorbell_channel P c v d) = m_rpmsg_ns_pending d"
  by (simp add: signal_doorbell_channel_def update_combined_irq_def on_frame_def Let_def)

lemma inject_pending:
  assumes "\<And>v. \<not> m_rpmsg_ns_pending (mods v i) \<Longrightarrow> \<not> m_rpmsg_ns_pending (mods (env v) i)"
    and "\<not> m_rpmsg_ns_pending (mods w i)" and "inject_rpmsg_ns_once Ps bus env i w = (stop, w')"
  shows "\<not> m_rpmsg_ns_pending (mods w' i)"
proof -
  have env: "m_rpmsg_ns_pending (mods (env v) i) \<Longrightarrow> m_rpmsg_ns_pending (mods v i)" for v using assms(1) by blast
  show ?thesis
    using assms(2,3) unfolding inject_rpmsg_ns_once_def Let_def
    by (auto dest!: env split: if_splits prod.splits rpmsg_poll.splits option.splits)
qed

lemma polls_pending:
  assumes "\<And>v. \<not> m_rpmsg_ns_pending (mods v i) \<Longrightarrow> \<not> m_rpmsg_ns_pending (mods (env v) i)"
    and "\<not> m_rpmsg_ns_pending (mods w i)"
  shows "\<not> m_rpmsg_ns_pending (mods (rpmsg_polls Ps bus env i n w) i)"
  using assms(2)
proof (induction n arbitrary: w)
  case (Suc n)
  obtain stop w' where x: "inject_rpmsg_ns_once Ps bus env i w = (stop, w')" by fastforce
  have w': "\<not> m_rpmsg_ns_pending (mods w' i)" by (rule inject_pending[OF assms(1) Suc.prems x])
  show ?case
    using x w' Suc.IH[of "env w'"] assms(1)[of w'] by (simp split: bool.split)
qed simp

text \<open>
  C39. A turn of the rpmsg thread comes to an end: when nobody schedules another announcement during its
  waits, the loop returns to waiting for its event, after at most the configured number of polls, with
  nothing pending; without a pending announcement it changes nothing.
\<close>

theorem mhu_rpmsg_worker_returns:
  assumes "\<And>v. \<not> m_rpmsg_ns_pending (mods v i) \<Longrightarrow> \<not> m_rpmsg_ns_pending (mods (env v) i)"
    and "d = mods w i"
  shows "\<exists>w'. rpmsg_ns_worker Ps bus env i w = Some w' \<and>
    (if m_rpmsg_ns_pending d \<and> \<not> m_rpmsg_ns_sent d
     then w' = rpmsg_polls Ps bus env i (unat (p_rpmsg_ns_max_polls (Ps i))) (on_mod i (\<lambda>d. d\<lparr>m_rpmsg_ns_pending := False\<rparr>) w) \<and>
          \<not> m_rpmsg_ns_pending (mods w' i)
     else w' = w)"
proof -
  let ?w1 = "rpmsg_polls Ps bus env i (unat (p_rpmsg_ns_max_polls (Ps i))) (on_mod i (\<lambda>d. d\<lparr>m_rpmsg_ns_pending := False\<rparr>) w)"
  have "\<not> m_rpmsg_ns_pending (mods ?w1 i)" using assms(1) by (rule polls_pending) simp_all
  then have stop: "rpmsg_ns_worker Ps bus env i ?w1 = Some ?w1"
    unfolding rpmsg_ns_worker_def by (subst while_option_unfold) simp
  show ?thesis
  proof (cases "m_rpmsg_ns_pending d \<and> \<not> m_rpmsg_ns_sent d")
    case True
    then have "rpmsg_ns_worker Ps bus env i w = rpmsg_ns_worker Ps bus env i ?w1"
      unfolding rpmsg_ns_worker_def assms(2) by (subst while_option_unfold) simp
    then show ?thesis using True stop \<open>\<not> m_rpmsg_ns_pending (mods ?w1 i)\<close> by auto
  next
    case False
    then have "rpmsg_ns_worker Ps bus env i w = Some w"
      unfolding rpmsg_ns_worker_def assms(2) by (subst while_option_unfold) auto
    then show ?thesis using False by auto
  qed
qed

text \<open>An announcement is pending, the parameter does not enable it: one poll ends the turn.\<close>

theorem mhu_rpmsg_worker_returns_witness:
  "\<exists>w'. rpmsg_ns_worker (\<lambda>_. mhu_default_params) (\<lambda>_. ram_bus) (\<lambda>w. w) 0
     (on_mod 0 (\<lambda>d. d\<lparr>m_rpmsg_ns_pending := True\<rparr>) example_world) = Some w' \<and> \<not> m_rpmsg_ns_pending (mods w' 0)"
  using mhu_rpmsg_worker_returns[where i = 0 and env = "\<lambda>w. w" and Ps = "\<lambda>_. mhu_default_params" and bus = "\<lambda>_. ram_bus"
      and w = "on_mod 0 (\<lambda>d. d\<lparr>m_rpmsg_ns_pending := True\<rparr>) example_world", OF _ refl]
  by (fastforce simp: example_world_def mhu_fields_def)

end
