(* ===== verification/Strata_State.thy ===== *)
theory Strata_State
  imports Tlm_Regs "HOL-Library.Char_ord"
begin

text \<open>
  The state of the NOR flash (class \<^verbatim>\<open>strata_flash_j3\<close> of
  \<^verbatim>\<open>src/systemc-components/strata_flash_j3/include/strata_flash_j3.h\<close>) and its parts below the command
  interface: the ranges that may be read directly, the statistics counters, the map of erased sectors,
  and the backing file with deferred writes.

  The vectors are lists, so positions in them are natural numbers; a vector has fewer than \<open>2 ^ 63\<close>
  elements, and the sums of two positions the code forms do not wrap. The branch for Windows hosts and
  the error messages are left out.
\<close>

subsection \<open>Numbers and ranges in text\<close>

definition is_space :: "char \<Rightarrow> bool" where
  "is_space c \<longleftrightarrow> (of_char c :: nat) \<in> {9, 10, 11, 12, 13, 32}"

definition remove_spaces :: "string \<Rightarrow> string" where
  "remove_spaces v = filter (\<lambda>c. \<not> is_space c) v"

definition digit_value :: "char \<Rightarrow> nat option" where
  "digit_value c =
     (let n = (of_char c :: nat)
      in if 48 \<le> n \<and> n \<le> 57 then Some (n - 48)
         else if 97 \<le> n \<and> n \<le> 102 then Some (n - 87)
         else if 65 \<le> n \<and> n \<le> 70 then Some (n - 55)
         else None)"

text \<open>The digits of a number in a base; \<open>None\<close> when a character is no digit of it.\<close>

fun digits_value :: "nat \<Rightarrow> string \<Rightarrow> nat \<Rightarrow> nat option" where
  "digits_value b [] n = Some n"
| "digits_value b (c # cs) n =
     (case digit_value c of
        None \<Rightarrow> None
      | Some d \<Rightarrow> if d < b then digits_value b cs (n * b + d) else None)"

text \<open>
  \<^verbatim>\<open>parse_u64\<close>: \<^verbatim>\<open>std::stoull\<close> with base 0 that has to consume the whole text: an optional sign, then
  \<^verbatim>\<open>0x\<close> and hexadecimal digits, \<^verbatim>\<open>0\<close> and octal digits, or decimal digits; a minus sign negates modulo
  \<open>2 ^ 64\<close>, a value that does not fit is an exception and so no number.
\<close>

definition unsigned_text :: "string \<Rightarrow> u64 option" where
  "unsigned_text t =
     (let v = (if length t \<ge> 3 \<and> take 2 t \<in> {''0x'', ''0X''} then digits_value 16 (drop 2 t) 0
               else if t \<noteq> [] \<and> hd t = CHR ''0'' then digits_value 8 t 0
               else if t \<noteq> [] then digits_value 10 t 0
               else None)
      in case v of None \<Rightarrow> None | Some n \<Rightarrow> if n < 2 ^ 64 then Some (of_nat n) else None)"

definition parse_u64 :: "string \<Rightarrow> u64 option" where
  "parse_u64 t =
     (case t of
        [] \<Rightarrow> None
      | c # cs \<Rightarrow> if c = CHR ''-'' then map_option uminus (unsigned_text cs)
                  else if c = CHR ''+'' then unsigned_text cs
                  else unsigned_text t)"

text \<open>The text before and after the first occurrence of a separator.\<close>

definition split_at :: "char \<Rightarrow> string \<Rightarrow> (string \<times> string) option" where
  "split_at c t =
     (if c \<in> set t then Some (takeWhile (\<lambda>x. x \<noteq> c) t, tl (dropWhile (\<lambda>x. x \<noteq> c) t)) else None)"

type_synonym dmi_range = "u64 \<times> u64"

definition parse_dmi_range :: "string \<Rightarrow> dmi_range option" where
  "parse_dmi_range token =
     (case (split_at CHR '':'' token, split_at CHR ''-'' token) of
        (Some _, Some _) \<Rightarrow> None
      | (Some (a, b), None) \<Rightarrow>
          do {
            start \<leftarrow> parse_u64 a;
            v \<leftarrow> parse_u64 b;
            if v = 0 \<or> start > - 1 - (v - 1) then None else Some (start, start + v - 1)
          }
      | (None, Some (a, b)) \<Rightarrow>
          do {
            start \<leftarrow> parse_u64 a;
            v \<leftarrow> parse_u64 b;
            if v < start then None else Some (start, v)
          }
      | (None, None) \<Rightarrow> None)"

text \<open>The comma-separated tokens; an empty text has one empty token.\<close>

fun split_commas :: "string \<Rightarrow> string \<Rightarrow> string list" where
  "split_commas acc [] = [rev acc]"
| "split_commas acc (c # cs) = (if c = CHR '','' then rev acc # split_commas [] cs else split_commas (c # acc) cs)"

primrec parse_dmi_tokens :: "nat \<Rightarrow> string list \<Rightarrow> dmi_range list option" where
  "parse_dmi_tokens n [] = Some []"
| "parse_dmi_tokens n (token # tokens) =
     do {
       (start, stop) \<leftarrow> parse_dmi_range token;
       if n \<le> unat start then None
       else do { rest \<leftarrow> parse_dmi_tokens n tokens; Some ((start, min stop (of_nat (n - 1))) # rest) }
     }"

subsection \<open>State\<close>

datatype flash_stat =
    St_read_accesses | St_write_accesses | St_read_bytes | St_write_bytes | St_dmi_read_hints | St_dmi_requests
  | St_dmi_grants | St_dmi_reject_disabled | St_dmi_reject_state | St_dmi_reject_command | St_dmi_reject_range
  | St_dmi_invalidations | St_command_writes | St_read_array_cmds | St_read_id_cmds | St_read_query_cmds
  | St_read_status_cmds | St_clear_status_cmds | St_write_buffer_cmds | St_write_buffer_count_writes
  | St_write_buffer_data_writes | St_write_buffer_confirm_cmds | St_write_buffer_ops | St_write_buffer_bytes
  | St_word_program_cmds | St_block_erase_cmds | St_block_erase_ack_cmds | St_lock_unlock_cmds | St_lock_block_cmds
  | St_unknown_cmds | St_program_ops | St_program_bytes | St_program_changed_bytes | St_program_noop_bytes
  | St_compat_ff_sector_erase_ops | St_sector_erase_ops | St_sector_erase_bytes | St_backing_write_ops
  | St_backing_write_bytes | St_backing_deferred_ranges | St_backing_deferred_bytes | St_backing_flush_ops
  | St_backing_flush_bytes

text \<open>
  Parameters the code reads where it needs them, and the copies of the others it keeps. \<open>files\<close> is the
  host's file system: \<open>None\<close> when a path cannot be opened for writing; \<open>can_map\<close> says when \<^verbatim>\<open>mmap\<close>
  succeeds. \<open>stats_files\<close> are the paths the statistics were written to.
\<close>

record flash_config =
  fp_size :: u64
  fp_dmi_ranges :: string
  fp_stats_file :: string
  fp_stats_interval :: u32
  m_stats_collecting :: bool
  m_trace_enabled :: bool
  m_trace_limit_value :: u32
  m_enable_dmi_value :: bool
  m_program_ff_sets_bits_value :: bool
  m_program_ff_erases_sector_value :: bool
  m_defer_backing_write_value :: bool
  m_defer_backing_flush_interval_value :: u32
  m_sector_size_value :: u64
  m_backing_file_value :: string

record flash_array = flash_config +
  m_data :: "u8 list"
  m_sector_erased :: "bool list"
  m_sector_erased_map_size :: u64
  m_stats :: "flash_stat \<Rightarrow> u64"
  m_last_stats_access :: u64
  m_last_stats_dmi_request :: u64
  stats_files :: "string list"

record flash_backing = flash_array +
  m_open_backing_file :: string
  m_backing_fd :: bool
  m_backing_map :: bool
  m_backing_size :: nat
  m_backing_dirty :: bool
  m_backing_dirty_start :: nat
  m_backing_dirty_end :: nat
  m_backing_deferred_since_flush :: u64
  files :: "string \<Rightarrow> u8 list option"
  can_map :: "string \<Rightarrow> bool"

subsection \<open>Statistics\<close>

definition count_stat :: "flash_stat \<Rightarrow> u64 \<Rightarrow> 'a flash_array_scheme \<Rightarrow> 'a flash_array_scheme" where
  "count_stat c delta s =
     (if m_stats_collecting s then s\<lparr>m_stats := (m_stats s)(c := m_stats s c + delta)\<rparr> else s)"

abbreviation count1 :: "flash_stat \<Rightarrow> 'a flash_array_scheme \<Rightarrow> 'a flash_array_scheme" where
  "count1 c \<equiv> count_stat c 1"

definition stats_collecting :: "'a flash_config_scheme \<Rightarrow> bool" where
  "stats_collecting s \<longleftrightarrow> fp_stats_interval s \<noteq> 0 \<or> fp_stats_file s \<noteq> []"

definition refresh_stats_collecting :: "'a flash_config_scheme \<Rightarrow> 'a flash_config_scheme" where
  "refresh_stats_collecting s = s\<lparr>m_stats_collecting := stats_collecting s\<rparr>"

definition write_stats_file :: "'a flash_array_scheme \<Rightarrow> 'a flash_array_scheme" where
  "write_stats_file s = (if fp_stats_file s = [] then s else s\<lparr>stats_files := stats_files s @ [fp_stats_file s]\<rparr>)"

definition maybe_write_stats :: "'a flash_array_scheme \<Rightarrow> 'a flash_array_scheme" where
  "maybe_write_stats s =
     (let interval = fp_stats_interval s;
          total_accesses = m_stats s St_read_accesses + m_stats s St_write_accesses
      in if interval = 0 \<or> fp_stats_file s = [] \<or> total_accesses = 0 \<or> total_accesses = m_last_stats_access s \<or>
            total_accesses mod ucast interval \<noteq> 0
         then s
         else write_stats_file (s\<lparr>m_last_stats_access := total_accesses\<rparr>))"

definition maybe_write_dmi_stats :: "bool \<Rightarrow> 'a flash_array_scheme \<Rightarrow> 'a flash_array_scheme" where
  "maybe_write_dmi_stats force s =
     (let interval = fp_stats_interval s; requests = m_stats s St_dmi_requests
      in if interval = 0 \<or> fp_stats_file s = [] \<or> requests = 0 \<or>
            (\<not> force \<and> (requests = m_last_stats_dmi_request s \<or> requests mod ucast interval \<noteq> 0))
         then s
         else write_stats_file (s\<lparr>m_last_stats_dmi_request := requests\<rparr>))"

subsection \<open>The map of erased sectors\<close>

definition sector_count :: "'a flash_array_scheme \<Rightarrow> nat" where
  "sector_count s =
     (let ss = m_sector_size_value s
      in if ss = 0 \<or> m_data s = [] then 0 else unat ((of_nat (length (m_data s)) + ss - 1) div ss))"

text \<open>All bytes of the sector with this index are erased; the last sector ends with the array.\<close>

definition sector_all_ff :: "'a flash_array_scheme \<Rightarrow> nat \<Rightarrow> bool" where
  "sector_all_ff s index =
     (let ss = unat (m_sector_size_value s); start = index * ss; stop = min (start + ss) (length (m_data s))
      in list_all (\<lambda>v. v = 0xff) (take (stop - start) (drop start (m_data s))))"

definition initialize_sector_erased_map :: "'a flash_array_scheme \<Rightarrow> 'a flash_array_scheme" where
  "initialize_sector_erased_map s =
     s\<lparr>m_sector_erased_map_size := m_sector_size_value s, m_sector_erased := replicate (sector_count s) True\<rparr>"

definition rebuild_sector_erased_map :: "'a flash_array_scheme \<Rightarrow> 'a flash_array_scheme" where
  "rebuild_sector_erased_map s =
     s\<lparr>m_sector_erased_map_size := m_sector_size_value s, m_sector_erased := map (sector_all_ff s) [0..<sector_count s]\<rparr>"

definition ensure_sector_erased_map :: "'a flash_array_scheme \<Rightarrow> 'a flash_array_scheme" where
  "ensure_sector_erased_map s =
     (if m_sector_erased_map_size s \<noteq> m_sector_size_value s \<or> length (m_sector_erased s) \<noteq> sector_count s
      then rebuild_sector_erased_map s else s)"

definition refresh_sector_erased_range :: "nat \<Rightarrow> nat \<Rightarrow> 'a flash_array_scheme \<Rightarrow> 'a flash_array_scheme" where
  "refresh_sector_erased_range offset len s =
     (let ss = unat (m_sector_size_value s)
      in if len = 0 \<or> ss = 0 \<or> m_data s = [] then s
         else
           (let s = ensure_sector_erased_map s;
                first = offset div ss; last = (offset + len - 1) div ss
            in s\<lparr>m_sector_erased := map (\<lambda>i. if first \<le> i \<and> i \<le> last then sector_all_ff s i else m_sector_erased s ! i)
                  [0..<length (m_sector_erased s)]\<rparr>))"

definition mark_programmed_byte :: "nat \<Rightarrow> 'a flash_array_scheme \<Rightarrow> 'a flash_array_scheme" where
  "mark_programmed_byte offset s =
     (let ss = unat (m_sector_size_value s)
      in if ss = 0 \<or> m_data s = [] \<or> m_data s ! offset = 0xff then s
         else
           (let s = ensure_sector_erased_map s
            in s\<lparr>m_sector_erased := (m_sector_erased s)[offset div ss := False]\<rparr>))"

definition mark_programmed_range :: "nat \<Rightarrow> nat \<Rightarrow> 'a flash_array_scheme \<Rightarrow> 'a flash_array_scheme" where
  "mark_programmed_range offset len s =
     (let ss = unat (m_sector_size_value s)
      in if len = 0 \<or> ss = 0 \<or> m_data s = [] then s
         else
           (let s = ensure_sector_erased_map s
            in s\<lparr>m_sector_erased := fold (\<lambda>pos m. if m_data s ! pos = 0xff then m else m[pos div ss := False])
                  [offset..<offset + len] (m_sector_erased s)\<rparr>))"

definition sector_is_erased :: "nat \<Rightarrow> 'a flash_array_scheme \<Rightarrow> bool \<times> 'a flash_array_scheme" where
  "sector_is_erased start s =
     (let ss = unat (m_sector_size_value s)
      in if ss = 0 \<or> m_data s = [] then (False, s)
         else
           (let s = ensure_sector_erased_map s; index = start div ss
            in (index < length (m_sector_erased s) \<and> m_sector_erased s ! index, s)))"

definition mark_sector_erased :: "nat \<Rightarrow> 'a flash_array_scheme \<Rightarrow> 'a flash_array_scheme" where
  "mark_sector_erased start s =
     (let ss = unat (m_sector_size_value s)
      in if ss = 0 \<or> m_data s = [] then s
         else
           (let s = ensure_sector_erased_map s
            in s\<lparr>m_sector_erased := (m_sector_erased s)[start div ss := True]\<rparr>))"

definition ensure_storage :: "'a flash_array_scheme \<Rightarrow> 'a flash_array_scheme" where
  "ensure_storage s =
     (if m_data s \<noteq> [] then s
      else initialize_sector_erased_map (s\<lparr>m_data := replicate (unat (fp_size s)) 0xff\<rparr>))"

subsection \<open>The backing file\<close>

text \<open>\<open>overwrite off bs xs\<close> is a \<^verbatim>\<open>memcpy\<close> of \<open>bs\<close> to position \<open>off\<close>.\<close>

definition overwrite :: "nat \<Rightarrow> 'a list \<Rightarrow> 'a list \<Rightarrow> 'a list" where
  "overwrite off bs xs = take off xs @ bs @ drop (off + length bs) xs"

text \<open>
  Closing flushes deferred writes first, flushing writes the file, and writing may close and open it. The
  flag \<^verbatim>\<open>m_backing_flushing\<close> cuts this short: while it is set closing does not flush. The operations
  come in two layers here: those under a flush take \<open>close_mapped\<close> for closing, the others \<open>close_backing_file\<close>.
\<close>

definition close_mapped :: "'a flash_backing_scheme \<Rightarrow> 'a flash_backing_scheme" where
  "close_mapped s =
     s\<lparr>m_backing_size := if m_backing_map s then 0 else m_backing_size s, m_backing_map := False,
       m_backing_fd := False, m_open_backing_file := []\<rparr>"

definition ensure_backing_with ::
    "('a flash_backing_scheme \<Rightarrow> 'a flash_backing_scheme) \<Rightarrow> 'a flash_backing_scheme \<Rightarrow> bool \<times> 'a flash_backing_scheme" where
  "ensure_backing_with close s =
     (let path = m_backing_file_value s
      in if path = [] then (False, close s)
         else if m_backing_fd s \<and> path = m_open_backing_file s then (True, s)
         else
           (let s = close s
            in case files s path of
                 None \<Rightarrow> (False, s\<lparr>m_backing_fd := False\<rparr>)
               | Some content \<Rightarrow>
                   (let s = s\<lparr>m_backing_fd := True\<rparr>
                    in if content = [] then (False, close s)
                       else
                         (let s = s\<lparr>m_backing_size := length content\<rparr>
                          in if \<not> can_map s path then (False, close s)
                             else (True, s\<lparr>m_backing_map := True, m_open_backing_file := path\<rparr>)))))"

definition write_now_with ::
    "('a flash_backing_scheme \<Rightarrow> bool \<times> 'a flash_backing_scheme) \<Rightarrow> nat \<Rightarrow> nat \<Rightarrow> 'a flash_backing_scheme \<Rightarrow>
     bool \<times> 'a flash_backing_scheme" where
  "write_now_with ensure offset len s =
     (if len = 0 then (False, s)
      else
        (let (ok, s) = ensure s
         in if \<not> ok then (False, s)
            else if offset > length (m_data s) \<or> len > length (m_data s) - offset then (False, s)
            else if \<not> m_backing_map s \<or> offset > m_backing_size s \<or> len > m_backing_size s - offset then (False, s)
            else (True, s\<lparr>files := (files s)(m_open_backing_file s :=
                   map_option (overwrite offset (take len (drop offset (m_data s)))) (files s (m_open_backing_file s)))\<rparr>)))"

definition flush_deferred_backing :: "'a flash_backing_scheme \<Rightarrow> 'a flash_backing_scheme" where
  "flush_deferred_backing s =
     (if \<not> m_backing_dirty s \<or> m_backing_file_value s = [] then s
      else
        (let offset = m_backing_dirty_start s;
             len = m_backing_dirty_end s - m_backing_dirty_start s + 1;
             (flushed, s) = write_now_with (ensure_backing_with close_mapped) offset len s
         in if \<not> flushed then s
            else count_stat St_backing_flush_bytes (of_nat len)
                   (count1 St_backing_flush_ops (s\<lparr>m_backing_dirty := False, m_backing_deferred_since_flush := 0\<rparr>))))"

definition close_backing_file :: "'a flash_backing_scheme \<Rightarrow> 'a flash_backing_scheme" where
  "close_backing_file s = close_mapped (flush_deferred_backing s)"

definition ensure_backing_file :: "'a flash_backing_scheme \<Rightarrow> bool \<times> 'a flash_backing_scheme" where
  "ensure_backing_file = ensure_backing_with close_backing_file"

definition write_backing_range_now :: "nat \<Rightarrow> nat \<Rightarrow> 'a flash_backing_scheme \<Rightarrow> bool \<times> 'a flash_backing_scheme" where
  "write_backing_range_now = write_now_with ensure_backing_file"

definition mark_backing_dirty :: "nat \<Rightarrow> nat \<Rightarrow> 'a flash_backing_scheme \<Rightarrow> 'a flash_backing_scheme" where
  "mark_backing_dirty offset len s =
     (if len = 0 then s
      else
        (let stop = offset + len - 1
         in if \<not> m_backing_dirty s
            then s\<lparr>m_backing_dirty_start := offset, m_backing_dirty_end := stop, m_backing_dirty := True\<rparr>
            else s\<lparr>m_backing_dirty_start := min (m_backing_dirty_start s) offset,
                   m_backing_dirty_end := max (m_backing_dirty_end s) stop\<rparr>))"

definition write_backing_range :: "nat \<Rightarrow> nat \<Rightarrow> 'a flash_backing_scheme \<Rightarrow> 'a flash_backing_scheme" where
  "write_backing_range offset len s =
     (if len = 0 \<or> m_backing_file_value s = [] then s
      else if offset > length (m_data s) \<or> len > length (m_data s) - offset then s
      else
        (let s = count_stat St_backing_write_bytes (of_nat len) (count1 St_backing_write_ops s)
         in if m_defer_backing_write_value s
            then
              (let s = count_stat St_backing_deferred_bytes (of_nat len) (count1 St_backing_deferred_ranges s);
                   s = mark_backing_dirty offset len s;
                   s = s\<lparr>m_backing_deferred_since_flush := m_backing_deferred_since_flush s + 1\<rparr>
               in if m_defer_backing_flush_interval_value s \<noteq> 0 \<and>
                     m_backing_deferred_since_flush s \<ge> ucast (m_defer_backing_flush_interval_value s)
                  then flush_deferred_backing s else s)
            else snd (write_backing_range_now offset len s)))"

end
