(* ===== verification/Strata_Flash.thy ===== *)
theory Strata_Flash
  imports Strata_State
begin

text \<open>
  The command interface of the NOR flash (class \<^verbatim>\<open>strata_flash_j3\<close> of
  \<^verbatim>\<open>src/systemc-components/strata_flash_j3/include/strata_flash_j3.h\<close>): the read modes, the pending
  command, programming, the write buffer, sector erase, bus and debug accesses, direct memory pointers,
  image loading and the parameter callbacks. An access C++ leaves undefined is \<open>None\<close>.
\<close>

subsection \<open>Constants\<close>

abbreviation (input) CMD_READ_ARRAY :: u8 where "CMD_READ_ARRAY \<equiv> 0xff"
abbreviation (input) CMD_READ_ID_CODE :: u8 where "CMD_READ_ID_CODE \<equiv> 0x90"
abbreviation (input) CMD_READ_QUERY :: u8 where "CMD_READ_QUERY \<equiv> 0x98"
abbreviation (input) CMD_READ_STATUS_REG :: u8 where "CMD_READ_STATUS_REG \<equiv> 0x70"
abbreviation (input) CMD_CLEAR_STATUS_REG :: u8 where "CMD_CLEAR_STATUS_REG \<equiv> 0x50"
abbreviation (input) CMD_WRITE_TO_BUFFER :: u8 where "CMD_WRITE_TO_BUFFER \<equiv> 0xe8"
abbreviation (input) CMD_WORD_PROGRAM :: u8 where "CMD_WORD_PROGRAM \<equiv> 0x40"
abbreviation (input) CMD_BLOCK_ERASE :: u8 where "CMD_BLOCK_ERASE \<equiv> 0x20"
abbreviation (input) CMD_LOCK_UNLOCK :: u8 where "CMD_LOCK_UNLOCK \<equiv> 0x60"
abbreviation (input) CMD_BLOCK_ERASE_ACK :: u8 where "CMD_BLOCK_ERASE_ACK \<equiv> 0xd0"
abbreviation (input) CMD_LOCK_BLOCK :: u8 where "CMD_LOCK_BLOCK \<equiv> 0x01"
abbreviation (input) STATUS_READY :: u8 where "STATUS_READY \<equiv> 0x80"
abbreviation (input) MANUFACTURER_ID :: u8 where "MANUFACTURER_ID \<equiv> 0x89"
abbreviation (input) DEVICE_CODE :: u8 where "DEVICE_CODE \<equiv> 0x18"
abbreviation (input) WRITE_BUFFER_MAX :: nat where "WRITE_BUFFER_MAX \<equiv> 256"

subsection \<open>State\<close>

datatype flash_mode = Mode_read_array | Mode_read_id | Mode_read_query | Mode_read_status

datatype pending_command =
    Pending_none | Pending_program | Pending_write_buffer_count | Pending_write_buffer_data | Pending_erase | Pending_lock

text \<open>
  \<open>invalidations\<close> are the calls of \<^verbatim>\<open>invalidate_direct_mem_ptr\<close> on the target socket, each with its range;
  \<open>flash_socket_bound\<close> says whether that socket is bound.
\<close>

record strata_flash = flash_backing +
  m_mode :: flash_mode
  m_pending :: pending_command
  m_status :: u8
  fl_trace_count :: u32
  m_open_dmi_ranges :: string
  m_dmi_ranges :: "dmi_range list"
  m_dmi_ranges_valid :: bool
  m_dmi_granted :: bool
  m_write_buffer_base :: nat
  m_write_buffer :: "u8 list"
  m_write_buffer_written :: "bool list"
  flash_socket_bound :: bool
  invalidations :: "(u64 \<times> u64) list"

text \<open>The three assignments that end a program or erase operation.\<close>

definition set_idle_status :: "strata_flash \<Rightarrow> strata_flash" where
  "set_idle_status s = s\<lparr>m_status := STATUS_READY, m_mode := Mode_read_status, m_pending := Pending_none\<rparr>"

definition flash_in_range :: "u64 \<Rightarrow> u32 \<Rightarrow> strata_flash \<Rightarrow> bool \<times> strata_flash" where
  "flash_in_range off len s =
     (let s = ensure_storage s
      in (unat off \<le> length (m_data s) \<and> unat len \<le> length (m_data s) - unat off, s))"

subsection \<open>Ranges for direct memory access\<close>

definition refresh_dmi_ranges :: "strata_flash \<Rightarrow> strata_flash" where
  "refresh_dmi_ranges s =
     (let s = ensure_storage s; spec = remove_spaces (fp_dmi_ranges s)
      in if spec = m_open_dmi_ranges s then s
         else
           (let s = s\<lparr>m_open_dmi_ranges := spec, m_dmi_ranges := [], m_dmi_ranges_valid := True\<rparr>
            in if spec = [] then s
               else
                 (case parse_dmi_tokens (length (m_data s)) (split_commas [] spec) of
                    None \<Rightarrow> s\<lparr>m_dmi_ranges := [], m_dmi_ranges_valid := False\<rparr>
                  | Some ranges \<Rightarrow> s\<lparr>m_dmi_ranges := ranges\<rparr>)))"

definition find_dmi_range :: "u64 \<Rightarrow> u32 \<Rightarrow> strata_flash \<Rightarrow> dmi_range option \<times> strata_flash" where
  "find_dmi_range off len s =
     (let s = ensure_storage s; n = length (m_data s)
      in if m_data s = [] \<or> unat off \<ge> n \<or> (len \<noteq> 0 \<and> unat len > n - unat off) then (None, s)
         else
           (let s = refresh_dmi_ranges s
            in if \<not> m_dmi_ranges_valid s then (None, s)
               else
                 (let last = (if len = 0 then off else off + ucast len - 1)
                  in if m_open_dmi_ranges s = [] then (Some (0, of_nat (length (m_data s) - 1)), s)
                     else (find (\<lambda>(start, stop). off \<ge> start \<and> last \<le> stop) (m_dmi_ranges s), s))))"

definition invalidate_dmi :: "strata_flash \<Rightarrow> strata_flash" where
  "invalidate_dmi s =
     (if \<not> m_dmi_granted s \<or> \<not> m_enable_dmi_value s \<or> m_data s = [] \<or> \<not> flash_socket_bound s then s
      else
        (let s = s\<lparr>invalidations := invalidations s @ [(0, of_nat (length (m_data s) - 1))]\<rparr>
         in count1 St_dmi_invalidations s\<lparr>m_dmi_granted := False\<rparr>))"

subsection \<open>Reads\<close>

definition read_byte :: "nat \<Rightarrow> strata_flash \<Rightarrow> u8" where
  "read_byte off s =
     (case m_mode s of
        Mode_read_array \<Rightarrow> m_data s ! off
      | Mode_read_id \<Rightarrow> if off = 0 then MANUFACTURER_ID else if off = 4 then DEVICE_CODE else 0
      | Mode_read_query \<Rightarrow>
          if off = 0x10 then of_char CHR ''Q'' else if off = 0x11 then of_char CHR ''R''
          else if off = 0x12 then of_char CHR ''Y'' else 0
      | Mode_read_status \<Rightarrow> m_status s)"

subsection \<open>Erase and program\<close>

text \<open>The division by the sector size has no guard here: with sector size 0 it is undefined.\<close>

definition erase_sector :: "nat \<Rightarrow> strata_flash \<Rightarrow> strata_flash ub" where
  "erase_sector offset s =
     (let ss = unat (m_sector_size_value s)
      in if ss = 0 then None
         else
           (let start = offset div ss * ss;
                stop = min (start + ss) (length (m_data s));
                s = count_stat St_sector_erase_bytes (of_nat (stop - start)) (count1 St_sector_erase_ops s);
                (erased, s) = sector_is_erased start s
            in if erased then Some (set_idle_status s)
               else
                 (let s = s\<lparr>m_data := overwrite start (replicate (stop - start) 0xff) (m_data s)\<rparr>;
                      s = mark_sector_erased start s;
                      s = write_backing_range start (stop - start) s
                  in Some (set_idle_status s))))"

definition is_sector_aligned_program_ff_erase :: "nat \<Rightarrow> u8 list \<Rightarrow> strata_flash \<Rightarrow> bool" where
  "is_sector_aligned_program_ff_erase offset bs s \<longleftrightarrow>
     m_program_ff_erases_sector_value s \<and> length bs = 1 \<and> bs ! 0 = 0xff \<and> m_sector_size_value s \<noteq> 0 \<and>
     offset mod unat (m_sector_size_value s) = 0"

definition programmed_byte :: "bool \<Rightarrow> u8 \<Rightarrow> u8 \<Rightarrow> u8" where
  "programmed_byte ff_sets old b = (if ff_sets \<and> b = 0xff then 0xff else old AND b)"

text \<open>The fast path for one byte, when no statistics are collected.\<close>

definition program_one :: "nat \<Rightarrow> u8 \<Rightarrow> strata_flash \<Rightarrow> strata_flash" where
  "program_one offset b s =
     (let old = m_data s ! offset;
          v = programmed_byte (m_program_ff_sets_bits_value s) old b;
          s = (if v \<noteq> old
               then write_backing_range offset 1 (mark_programmed_byte offset (s\<lparr>m_data := (m_data s)[offset := v]\<rparr>))
               else s)
      in set_idle_status s)"

text \<open>
  The loop of the general path: array, count of changed bytes, first (initially the length) and last
  position that changed.
\<close>

definition program_loop_step ::
    "bool \<Rightarrow> nat \<Rightarrow> u8 list \<Rightarrow> nat \<Rightarrow> u8 list \<times> nat \<times> nat \<times> nat \<Rightarrow> u8 list \<times> nat \<times> nat \<times> nat" where
  "program_loop_step ff_sets offset bs i st =
     (let (arr, changed, first, last) = st;
          old = arr ! (offset + i);
          v = programmed_byte ff_sets old (bs ! i)
      in if v = old then st else (arr[offset + i := v], changed + 1, min first i, i))"

definition program_many :: "nat \<Rightarrow> u8 list \<Rightarrow> strata_flash \<Rightarrow> strata_flash" where
  "program_many offset bs s =
     (let len = length bs;
          s = count_stat St_program_bytes (of_nat len) (count1 St_program_ops s);
          (arr, changed, first, last) =
            fold (program_loop_step (m_program_ff_sets_bits_value s) offset bs) [0..<len] (m_data s, 0, len, 0);
          s = s\<lparr>m_data := arr\<rparr>;
          s = count_stat St_program_noop_bytes (of_nat (len - changed))
                (count_stat St_program_changed_bytes (of_nat changed) s);
          s = (if first \<noteq> len
               then write_backing_range (offset + first) (last - first + 1)
                      (mark_programmed_range (offset + first) (last - first + 1) s)
               else s)
      in set_idle_status s)"

definition program :: "nat \<Rightarrow> u8 list \<Rightarrow> strata_flash \<Rightarrow> strata_flash ub" where
  "program offset bs s =
     (if offset + length bs > length (m_data s) then None
      else if is_sector_aligned_program_ff_erase offset bs s then
        erase_sector offset
          (count1 St_compat_ff_sector_erase_ops (count_stat St_program_bytes (of_nat (length bs)) (count1 St_program_ops s)))
      else if \<not> m_stats_collecting s \<and> length bs = 1 then Some (program_one offset (bs ! 0) s)
      else Some (program_many offset bs s))"

subsection \<open>The write buffer\<close>

definition clear_write_buffer :: "strata_flash \<Rightarrow> strata_flash" where
  "clear_write_buffer s = s\<lparr>m_write_buffer := [], m_write_buffer_written := [], m_write_buffer_base := 0\<rparr>"

definition count_value :: "u8 list \<Rightarrow> nat" where
  "count_value bs = (case bs of [] \<Rightarrow> 0 | b # _ \<Rightarrow> unat b + 1)"

definition write_buffer_complete :: "strata_flash \<Rightarrow> bool" where
  "write_buffer_complete s \<longleftrightarrow> m_write_buffer_written s \<noteq> [] \<and> list_all id (m_write_buffer_written s)"

definition begin_write_buffer :: "nat \<Rightarrow> u8 list \<Rightarrow> strata_flash \<Rightarrow> strata_flash" where
  "begin_write_buffer offset bs s =
     (let count = count_value bs; s = count1 St_write_buffer_count_writes s
      in if count = 0 \<or> count > WRITE_BUFFER_MAX \<or> offset > length (m_data s) \<or> count > length (m_data s) - offset
         then set_idle_status (clear_write_buffer s)
         else s\<lparr>m_write_buffer_base := offset, m_write_buffer := replicate count 0xff,
                m_write_buffer_written := replicate count False, m_status := STATUS_READY,
                m_mode := Mode_read_status, m_pending := Pending_write_buffer_data\<rparr>)"

definition collect_write_buffer_data :: "nat \<Rightarrow> u8 list \<Rightarrow> strata_flash \<Rightarrow> strata_flash" where
  "collect_write_buffer_data offset bs s =
     (let n = length (m_write_buffer s); base = m_write_buffer_base s
      in if m_write_buffer s = [] \<or> offset < base \<or> offset > base + n \<or> offset - base \<ge> n
         then (clear_write_buffer s)\<lparr>m_pending := Pending_none\<rparr>
         else
           (let relative = offset - base; copy_len = min (length bs) (n - relative);
                s = s\<lparr>m_write_buffer := overwrite relative (take copy_len bs) (m_write_buffer s),
                      m_write_buffer_written := overwrite relative (replicate copy_len True) (m_write_buffer_written s)\<rparr>
            in (count1 St_write_buffer_data_writes s)\<lparr>m_status := STATUS_READY, m_mode := Mode_read_status\<rparr>))"

definition confirm_write_buffer :: "strata_flash \<Rightarrow> strata_flash ub" where
  "confirm_write_buffer s =
     do {
       let s = count1 St_write_buffer_confirm_cmds s;
       s \<leftarrow> (if write_buffer_complete s
             then program (m_write_buffer_base s) (m_write_buffer s)
                    (count_stat St_write_buffer_bytes (of_nat (length (m_write_buffer s))) (count1 St_write_buffer_ops s))
             else Some (set_idle_status s));
       Some (clear_write_buffer s)
     }"

subsection \<open>Commands\<close>

definition command_stat :: "u8 \<Rightarrow> flash_stat" where
  "command_stat command =
     (if command = CMD_READ_ARRAY then St_read_array_cmds
      else if command = CMD_READ_ID_CODE then St_read_id_cmds
      else if command = CMD_READ_QUERY then St_read_query_cmds
      else if command = CMD_READ_STATUS_REG then St_read_status_cmds
      else if command = CMD_CLEAR_STATUS_REG then St_clear_status_cmds
      else if command = CMD_WRITE_TO_BUFFER then St_write_buffer_cmds
      else if command = CMD_WORD_PROGRAM then St_word_program_cmds
      else if command = CMD_BLOCK_ERASE then St_block_erase_cmds
      else if command = CMD_BLOCK_ERASE_ACK then St_block_erase_ack_cmds
      else if command = CMD_LOCK_UNLOCK then St_lock_unlock_cmds
      else if command = CMD_LOCK_BLOCK then St_lock_block_cmds
      else St_unknown_cmds)"

definition record_command :: "u8 \<Rightarrow> strata_flash \<Rightarrow> strata_flash" where
  "record_command command s =
     (if \<not> m_stats_collecting s then s else count1 (command_stat command) (count1 St_command_writes s))"

text \<open>The second switch of \<^verbatim>\<open>handle_command\<close>.\<close>

definition start_command :: "u8 \<Rightarrow> strata_flash \<Rightarrow> strata_flash" where
  "start_command command s =
     (if command = CMD_READ_ARRAY then s\<lparr>m_mode := Mode_read_array\<rparr>
      else if command = CMD_READ_ID_CODE then s\<lparr>m_mode := Mode_read_id\<rparr>
      else if command = CMD_READ_QUERY then s\<lparr>m_mode := Mode_read_query\<rparr>
      else if command = CMD_READ_STATUS_REG then s\<lparr>m_status := STATUS_READY, m_mode := Mode_read_status\<rparr>
      else if command = CMD_CLEAR_STATUS_REG then s\<lparr>m_status := STATUS_READY, m_mode := Mode_read_status\<rparr>
      else if command = CMD_WRITE_TO_BUFFER then
        (clear_write_buffer s)\<lparr>m_status := STATUS_READY, m_mode := Mode_read_status, m_pending := Pending_write_buffer_count\<rparr>
      else if command = CMD_WORD_PROGRAM then s\<lparr>m_pending := Pending_program\<rparr>
      else if command = CMD_BLOCK_ERASE then s\<lparr>m_pending := Pending_erase\<rparr>
      else if command = CMD_LOCK_UNLOCK then s\<lparr>m_pending := Pending_lock\<rparr>
      else s\<lparr>m_mode := Mode_read_array, m_pending := Pending_none\<rparr>)"

definition handle_command :: "nat \<Rightarrow> u8 \<Rightarrow> strata_flash \<Rightarrow> strata_flash ub" where
  "handle_command offset command s =
     (let s = record_command command s
      in case m_pending s of
           Pending_program \<Rightarrow> Some (start_command command s)
         | Pending_write_buffer_count \<Rightarrow> Some (start_command command ((clear_write_buffer s)\<lparr>m_pending := Pending_none\<rparr>))
         | Pending_write_buffer_data \<Rightarrow> Some (start_command command ((clear_write_buffer s)\<lparr>m_pending := Pending_none\<rparr>))
         | Pending_erase \<Rightarrow>
             if command = CMD_BLOCK_ERASE_ACK then erase_sector offset s
             else Some (start_command command (s\<lparr>m_pending := Pending_none\<rparr>))
         | Pending_lock \<Rightarrow>
             if command = CMD_LOCK_BLOCK \<or> command = CMD_BLOCK_ERASE_ACK then Some (set_idle_status s)
             else Some (start_command command (s\<lparr>m_pending := Pending_none\<rparr>))
         | Pending_none \<Rightarrow> Some (start_command command s))"

definition flash_write :: "nat \<Rightarrow> u8 list \<Rightarrow> strata_flash \<Rightarrow> strata_flash ub" where
  "flash_write offset bs s =
     (if m_pending s = Pending_program then program offset bs s
      else if m_pending s = Pending_write_buffer_count then Some (begin_write_buffer offset bs s)
      else if m_pending s = Pending_write_buffer_data then
        (if write_buffer_complete s \<and> length bs = 1 \<and> bs ! 0 = CMD_BLOCK_ERASE_ACK then confirm_write_buffer s
         else Some (collect_write_buffer_data offset bs s))
      else handle_command offset (bs ! 0) (invalidate_dmi s))"

subsection \<open>Bus and debug accesses\<close>

definition flash_read :: "nat \<Rightarrow> nat \<Rightarrow> strata_flash \<Rightarrow> u8 list" where
  "flash_read offset len s =
     (if m_mode s = Mode_read_array then take len (drop offset (m_data s))
      else if m_mode s = Mode_read_status then replicate len (m_status s)
      else map (\<lambda>i. read_byte (offset + i) s) [0..<len])"

definition fast_access :: "payload \<Rightarrow> strata_flash \<Rightarrow> (bool \<times> payload \<times> strata_flash) ub" where
  "fast_access t s =
     (case p_data t of
        None \<Rightarrow> Some (False, t\<lparr>p_response := TLM_ADDRESS_ERROR_RESPONSE\<rparr>, s)
      | Some buf \<Rightarrow>
          if p_len t = 0 then Some (False, t\<lparr>p_response := TLM_ADDRESS_ERROR_RESPONSE\<rparr>, s)
          else
            (let (ok, s) = flash_in_range (p_address t) (p_len t) s; offset = unat (p_address t); len = unat (p_len t)
             in if \<not> ok then Some (False, t\<lparr>p_response := TLM_ADDRESS_ERROR_RESPONSE\<rparr>, s)
                else if length buf < len then None
                else
                  (let t = t\<lparr>p_dmi_allowed := False\<rparr>
                   in case p_command t of
                        TLM_READ_COMMAND \<Rightarrow>
                          Some (True, t\<lparr>p_data := Some (flash_read offset len s @ drop len buf), p_response := TLM_OK_RESPONSE\<rparr>, s)
                      | TLM_WRITE_COMMAND \<Rightarrow> do {
                          s \<leftarrow> flash_write offset (take len buf) s;
                          Some (True, t\<lparr>p_response := TLM_OK_RESPONSE\<rparr>, s)
                        }
                      | TLM_IGNORE_COMMAND \<Rightarrow> Some (False, t\<lparr>p_response := TLM_COMMAND_ERROR_RESPONSE\<rparr>, s))))"

definition flash_trace_access :: "strata_flash \<Rightarrow> strata_flash" where
  "flash_trace_access s =
     (if \<not> m_trace_enabled s \<or> fl_trace_count s \<ge> m_trace_limit_value s then s
      else s\<lparr>fl_trace_count := fl_trace_count s + 1\<rparr>)"

text \<open>The hint on a read: whether the range may be read through a pointer. It counts the hints it gives.\<close>

definition dmi_hint :: "payload \<Rightarrow> strata_flash \<Rightarrow> bool \<times> strata_flash" where
  "dmi_hint t s =
     (if m_enable_dmi_value s \<and> m_mode s = Mode_read_array \<and> m_pending s = Pending_none
      then
        (let (rng, s) = find_dmi_range (p_address t) (p_len t) s
         in if rng \<noteq> None then (True, count1 St_dmi_read_hints s) else (False, s))
      else (False, s))"

definition finish_access :: "strata_flash \<Rightarrow> strata_flash" where
  "finish_access s =
     (let s = flash_trace_access s in if m_stats_collecting s then maybe_write_stats s else s)"

definition flash_access :: "bool \<Rightarrow> payload \<Rightarrow> strata_flash \<Rightarrow> (bool \<times> payload \<times> strata_flash) ub" where
  "flash_access debug t s =
     (if \<not> debug \<and> \<not> m_stats_collecting s \<and> \<not> m_trace_enabled s \<and> \<not> m_enable_dmi_value s then fast_access t s
      else
        (case p_data t of
           None \<Rightarrow> Some (False, t\<lparr>p_response := TLM_ADDRESS_ERROR_RESPONSE\<rparr>, s)
         | Some buf \<Rightarrow>
             if p_len t = 0 then Some (False, t\<lparr>p_response := TLM_ADDRESS_ERROR_RESPONSE\<rparr>, s)
             else
               (let (ok, s) = flash_in_range (p_address t) (p_len t) s; offset = unat (p_address t); len = unat (p_len t)
                in if \<not> ok then Some (False, t\<lparr>p_response := TLM_ADDRESS_ERROR_RESPONSE\<rparr>, s)
                   else if length buf < len then None
                   else
                     (let t = t\<lparr>p_dmi_allowed := False\<rparr>
                      in case p_command t of
                           TLM_READ_COMMAND \<Rightarrow>
                             (let s = count_stat St_read_bytes (of_nat len) (count1 St_read_accesses s);
                                  bs = flash_read offset len s;
                                  (hint, s) = dmi_hint t s
                              in Some (True, t\<lparr>p_data := Some (bs @ drop len buf), p_dmi_allowed := hint,
                                              p_response := TLM_OK_RESPONSE\<rparr>, finish_access s))
                         | TLM_WRITE_COMMAND \<Rightarrow> do {
                             s \<leftarrow> flash_write offset (take len buf)
                                   (count_stat St_write_bytes (of_nat len) (count1 St_write_accesses s));
                             Some (True, t\<lparr>p_response := TLM_OK_RESPONSE\<rparr>, finish_access s)
                           }
                         | TLM_IGNORE_COMMAND \<Rightarrow> Some (False, t\<lparr>p_response := TLM_COMMAND_ERROR_RESPONSE\<rparr>, s)))))"

definition flash_b_transport :: "payload \<Rightarrow> strata_flash \<Rightarrow> (payload \<times> strata_flash) ub" where
  "flash_b_transport t s = do { (_, t, s) \<leftarrow> flash_access False t s; Some (t, s) }"

definition flash_transport_dbg :: "payload \<Rightarrow> strata_flash \<Rightarrow> (u32 \<times> payload \<times> strata_flash) ub" where
  "flash_transport_dbg t s = do { (ok, t, s) \<leftarrow> flash_access True t s; Some (if ok then p_len t else 0, t, s) }"

subsection \<open>Direct memory pointers\<close>

datatype flash_ptr = In_array nat | In_backing nat

text \<open>\<open>fd_file\<close> is the path and size of the \<^verbatim>\<open>FileDMIExtension\<close> set on the transaction, if one is.\<close>

record flash_dmi =
  fd_ptr :: flash_ptr
  fd_start :: u64
  fd_end :: u64
  fd_file :: "(string \<times> nat) option"

definition reject_dmi :: "flash_stat \<Rightarrow> strata_flash \<Rightarrow> flash_dmi option \<times> strata_flash" where
  "reject_dmi c s =
     (None, let s = count1 c s in if m_stats_collecting s then maybe_write_dmi_stats False s else s)"

definition grant_dmi :: "dmi_range \<Rightarrow> strata_flash \<Rightarrow> flash_dmi option \<times> strata_flash" where
  "grant_dmi rng s =
     (let (start, stop) = rng;
          s = flush_deferred_backing s;
          (open_ok, s) = (if m_backing_file_value s \<noteq> [] then ensure_backing_file s else (False, s));
          backed = (open_ok \<and> unat stop < m_backing_size s \<and> m_backing_map s);
          dmi = \<lparr>fd_ptr = (if backed then In_backing (unat start) else In_array (unat start)), fd_start = start, fd_end = stop,
                 fd_file = (if backed then Some (m_open_backing_file s, m_backing_size s) else None)\<rparr>;
          s = count1 St_dmi_grants s;
          s = (if m_stats_collecting s then maybe_write_dmi_stats (m_stats s St_dmi_grants = 1) s else s)
      in (Some dmi, s\<lparr>m_dmi_granted := True\<rparr>))"

definition flash_get_direct_mem_ptr :: "payload \<Rightarrow> strata_flash \<Rightarrow> flash_dmi option \<times> strata_flash" where
  "flash_get_direct_mem_ptr t s =
     (let s = count1 St_dmi_requests (ensure_storage s)
      in if \<not> m_enable_dmi_value s then reject_dmi St_dmi_reject_disabled s
         else if m_mode s \<noteq> Mode_read_array \<or> m_pending s \<noteq> Pending_none then reject_dmi St_dmi_reject_state s
         else if p_command t \<noteq> TLM_READ_COMMAND \<and> p_command t \<noteq> TLM_IGNORE_COMMAND
         then reject_dmi St_dmi_reject_command s
         else
           (let (rng, s) = find_dmi_range (p_address t) (p_len t) s
            in case rng of None \<Rightarrow> reject_dmi St_dmi_reject_range s | Some r \<Rightarrow> grant_dmi r s))"

subsection \<open>Images, parameters, life of the module\<close>

definition load_image :: "u8 list \<Rightarrow> u64 \<Rightarrow> strata_flash \<Rightarrow> strata_flash" where
  "load_image bs offset s =
     (let s = ensure_storage s; off = unat offset
      in if off > length (m_data s) \<or> length bs > length (m_data s) - off then s
         else refresh_sector_erased_range off (length bs) (s\<lparr>m_data := overwrite off bs (m_data s)\<rparr>))"

datatype flash_param =
    P_trace bool
  | P_trace_limit u32
  | P_enable_dmi bool
  | P_program_ff_sets_bits bool
  | P_program_ff_erases_sector bool
  | P_defer_backing_write bool
  | P_defer_backing_flush_interval u32
  | P_sector_size u64
  | P_dmi_ranges string
  | P_backing_file string
  | P_stats_file string
  | P_stats_interval u32

fun write_param :: "flash_param \<Rightarrow> strata_flash \<Rightarrow> strata_flash" where
  "write_param (P_trace b) s = s\<lparr>m_trace_enabled := b\<rparr>"
| "write_param (P_trace_limit n) s = s\<lparr>m_trace_limit_value := n\<rparr>"
| "write_param (P_enable_dmi b) s = s\<lparr>m_enable_dmi_value := b\<rparr>"
| "write_param (P_program_ff_sets_bits b) s = s\<lparr>m_program_ff_sets_bits_value := b\<rparr>"
| "write_param (P_program_ff_erases_sector b) s = s\<lparr>m_program_ff_erases_sector_value := b\<rparr>"
| "write_param (P_defer_backing_write b) s = (flush_deferred_backing s)\<lparr>m_defer_backing_write_value := b\<rparr>"
| "write_param (P_defer_backing_flush_interval n) s = (flush_deferred_backing s)\<lparr>m_defer_backing_flush_interval_value := n\<rparr>"
| "write_param (P_sector_size n) s = rebuild_sector_erased_map (s\<lparr>m_sector_size_value := n\<rparr>)"
| "write_param (P_dmi_ranges r) s = s\<lparr>fp_dmi_ranges := r\<rparr>"
| "write_param (P_backing_file f) s = (flush_deferred_backing s)\<lparr>m_backing_file_value := f\<rparr>"
| "write_param (P_stats_file f) s = refresh_stats_collecting (s\<lparr>fp_stats_file := f\<rparr>)"
| "write_param (P_stats_interval n) s = refresh_stats_collecting (s\<lparr>fp_stats_interval := n\<rparr>)"

definition flash_default_config :: flash_config where
  "flash_default_config = \<lparr>fp_size = 0x04000000, fp_dmi_ranges = [], fp_stats_file = [], fp_stats_interval = 0,
     m_stats_collecting = False, m_trace_enabled = False, m_trace_limit_value = 64, m_enable_dmi_value = False,
     m_program_ff_sets_bits_value = False, m_program_ff_erases_sector_value = False, m_defer_backing_write_value = False,
     m_defer_backing_flush_interval_value = 1024, m_sector_size_value = 0x1000, m_backing_file_value = []\<rparr>"

text \<open>The members after construction with a configuration, on a host.\<close>

definition flash_construct :: "flash_config \<Rightarrow> (string \<Rightarrow> u8 list option) \<Rightarrow> (string \<Rightarrow> bool) \<Rightarrow> bool \<Rightarrow> strata_flash" where
  "flash_construct c host_files host_maps bound =
     \<lparr>fp_size = fp_size c, fp_dmi_ranges = fp_dmi_ranges c, fp_stats_file = fp_stats_file c,
      fp_stats_interval = fp_stats_interval c, m_stats_collecting = stats_collecting c,
      m_trace_enabled = m_trace_enabled c, m_trace_limit_value = m_trace_limit_value c,
      m_enable_dmi_value = m_enable_dmi_value c, m_program_ff_sets_bits_value = m_program_ff_sets_bits_value c,
      m_program_ff_erases_sector_value = m_program_ff_erases_sector_value c,
      m_defer_backing_write_value = m_defer_backing_write_value c,
      m_defer_backing_flush_interval_value = m_defer_backing_flush_interval_value c,
      m_sector_size_value = m_sector_size_value c, m_backing_file_value = m_backing_file_value c,
      m_data = [], m_sector_erased = [], m_sector_erased_map_size = 0, m_stats = (\<lambda>_. 0), m_last_stats_access = 0,
      m_last_stats_dmi_request = 0, stats_files = [],
      m_open_backing_file = [], m_backing_fd = False, m_backing_map = False, m_backing_size = 0,
      m_backing_dirty = False, m_backing_dirty_start = 0, m_backing_dirty_end = 0, m_backing_deferred_since_flush = 0,
      files = host_files, can_map = host_maps,
      m_mode = Mode_read_array, m_pending = Pending_none, m_status = STATUS_READY, fl_trace_count = 0,
      m_open_dmi_ranges = [], m_dmi_ranges = [], m_dmi_ranges_valid = True, m_dmi_granted = False,
      m_write_buffer_base = 0, m_write_buffer = [], m_write_buffer_written = [],
      flash_socket_bound = bound, invalidations = []\<rparr>"

definition flash_destroy :: "strata_flash \<Rightarrow> strata_flash" where
  "flash_destroy s = close_backing_file (write_stats_file (flush_deferred_backing s))"

end
