(* ===== verification/Strata_Props.thy ===== *)
theory Strata_Props
  imports Strata_Flash
begin

text \<open>
  Properties of the NOR flash: the map of erased sectors, the operations against an abstract flash, the
  backing file, direct memory pointers.
\<close>

subsection \<open>What the backing file and the statistics leave alone\<close>

text \<open>\<open>fore s\<close> forgets the statistics and the backing file.\<close>

definition fore :: "strata_flash \<Rightarrow> strata_flash" where
  "fore s = s\<lparr>m_stats := \<lambda>_. 0, m_last_stats_access := 0, m_last_stats_dmi_request := 0, stats_files := [],
     m_open_backing_file := [], m_backing_fd := False, m_backing_map := False, m_backing_size := 0,
     m_backing_dirty := False, m_backing_dirty_start := 0, m_backing_dirty_end := 0,
     m_backing_deferred_since_flush := 0, files := \<lambda>_. None\<rparr>"

lemma fore_ops [simp]:
  "fore (count_stat c n s) = fore s" "fore (write_stats_file s) = fore s" "fore (maybe_write_stats s) = fore s"
  "fore (maybe_write_dmi_stats b s) = fore s" "fore (close_mapped s) = fore s" "fore (mark_backing_dirty off len s) = fore s"
  by (simp_all add: fore_def count_stat_def write_stats_file_def maybe_write_stats_def maybe_write_dmi_stats_def
      close_mapped_def mark_backing_dirty_def Let_def)

lemma fore_ensure_with:
  assumes "\<And>s. fore (close s) = fore s" shows "fore (snd (ensure_backing_with close s)) = fore s"
proof -
  have fd: "fore (t\<lparr>m_backing_fd := b\<rparr>) = fore t" "fore (t\<lparr>m_backing_size := n\<rparr>) = fore t"
    "fore (t\<lparr>m_backing_map := b, m_open_backing_file := p\<rparr>) = fore t" for t b n p
    by (simp_all add: fore_def)
  show ?thesis by (simp add: ensure_backing_with_def Let_def assms fd split: option.split)
qed

lemma fore_write_now_with:
  assumes "\<And>s. fore (snd (ensure s)) = fore s" shows "fore (snd (write_now_with ensure off len s)) = fore s"
proof -
  have "fore (t\<lparr>files := f\<rparr>) = fore t" for t f by (simp add: fore_def)
  then show ?thesis
    using assms[of s] by (auto simp: write_now_with_def Let_def split_beta)
qed

lemma fore_flush [simp]: "fore (flush_deferred_backing s) = fore s"
proof -
  have "fore (snd (write_now_with (ensure_backing_with close_mapped) off len s)) = fore s" for off len s
    by (intro fore_write_now_with fore_ensure_with) simp
  moreover have "fore (t\<lparr>m_backing_dirty := b, m_backing_deferred_since_flush := n\<rparr>) = fore t" for t b n
    by (simp add: fore_def)
  ultimately show ?thesis by (simp add: flush_deferred_backing_def Let_def split_beta)
qed

lemma fore_backing [simp]:
  "fore (close_backing_file s) = fore s" "fore (snd (ensure_backing_file s)) = fore s"
  "fore (snd (write_backing_range_now off len s)) = fore s" "fore (write_backing_range off len s) = fore s"
proof -
  have "fore (t\<lparr>m_backing_deferred_since_flush := n\<rparr>) = fore t" for t n by (simp add: fore_def)
  moreover have "fore (close_backing_file s) = fore s" for s by (simp add: close_backing_file_def)
  moreover from this have "fore (snd (ensure_backing_file s)) = fore s" for s
    unfolding ensure_backing_file_def by (intro fore_ensure_with)
  moreover from this have "fore (snd (write_backing_range_now off len s)) = fore s" for off len s
    unfolding write_backing_range_now_def by (intro fore_write_now_with)
  ultimately show "fore (close_backing_file s) = fore s" "fore (snd (ensure_backing_file s)) = fore s"
    "fore (snd (write_backing_range_now off len s)) = fore s" "fore (write_backing_range off len s) = fore s"
    by (simp_all add: write_backing_range_def Let_def)
qed

lemma fore_sel:
  assumes "fore s = fore t"
  shows "m_data s = m_data t" "m_sector_erased s = m_sector_erased t" "m_sector_erased_map_size s = m_sector_erased_map_size t"
    "m_mode s = m_mode t" "m_pending s = m_pending t" "m_status s = m_status t" "fl_trace_count s = fl_trace_count t"
    "m_open_dmi_ranges s = m_open_dmi_ranges t" "m_dmi_ranges s = m_dmi_ranges t" "m_dmi_ranges_valid s = m_dmi_ranges_valid t"
    "m_dmi_granted s = m_dmi_granted t" "m_write_buffer_base s = m_write_buffer_base t" "m_write_buffer s = m_write_buffer t"
    "m_write_buffer_written s = m_write_buffer_written t" "flash_socket_bound s = flash_socket_bound t"
    "invalidations s = invalidations t" "flash_config.truncate s = flash_config.truncate t" "can_map s = can_map t"
  using assms by (simp_all add: fore_def flash_config.truncate_def)
    (cases s; cases t; simp)+

lemma fore_config:
  assumes "fore s = fore t"
  shows "fp_size s = fp_size t" "fp_dmi_ranges s = fp_dmi_ranges t" "m_stats_collecting s = m_stats_collecting t"
    "m_trace_enabled s = m_trace_enabled t" "m_trace_limit_value s = m_trace_limit_value t"
    "m_enable_dmi_value s = m_enable_dmi_value t" "m_program_ff_sets_bits_value s = m_program_ff_sets_bits_value t"
    "m_program_ff_erases_sector_value s = m_program_ff_erases_sector_value t" "m_sector_size_value s = m_sector_size_value t"
    "m_backing_file_value s = m_backing_file_value t" "m_defer_backing_write_value s = m_defer_backing_write_value t"
  using fore_sel(17)[OF assms] by (simp_all add: flash_config.truncate_def)

lemmas count_stat_sel [simp] = fore_sel(1-16,18)[OF fore_ops(1)] fore_config[OF fore_ops(1)]
lemmas write_backing_sel [simp] = fore_sel(1-16)[OF fore_backing(4)] fore_config[OF fore_backing(4)]
lemmas flush_sel [simp] = fore_sel(1-16)[OF fore_flush] fore_config[OF fore_flush]
lemmas ensure_backing_sel [simp] = fore_sel(1-16)[OF fore_backing(2)] fore_config[OF fore_backing(2)]
lemmas maybe_stats_sel [simp] = fore_sel(1-16)[OF fore_ops(3)] fore_config[OF fore_ops(3)]
lemmas maybe_dmi_stats_sel [simp] = fore_sel(1-16)[OF fore_ops(4)] fore_config[OF fore_ops(4)]

subsection \<open>The map of erased sectors\<close>

definition map_consistent :: "'a flash_array_scheme \<Rightarrow> bool" where
  "map_consistent s \<longleftrightarrow> m_sector_erased_map_size s = m_sector_size_value s \<and> length (m_sector_erased s) = sector_count s"

text \<open>A sector the map calls erased has only erased bytes.\<close>

definition sectors_sound :: "'a flash_array_scheme \<Rightarrow> bool" where
  "sectors_sound s \<longleftrightarrow> (m_sector_size_value s \<noteq> 0 \<longrightarrow> map_consistent s \<longrightarrow>
     (\<forall>pos < length (m_data s). pos div unat (m_sector_size_value s) < length (m_sector_erased s) \<longrightarrow>
        m_sector_erased s ! (pos div unat (m_sector_size_value s)) \<longrightarrow> m_data s ! pos = 0xff))"

lemma sector_all_ff_iff:
  assumes "m_sector_size_value s \<noteq> 0"
  shows "sector_all_ff s i \<longleftrightarrow> (\<forall>pos < length (m_data s). pos div unat (m_sector_size_value s) = i \<longrightarrow> m_data s ! pos = 0xff)"
proof -
  define ss where "ss = unat (m_sector_size_value s)"
  have ss: "0 < ss" using assms by (simp add: ss_def unat_gt_0)
  let ?d = "m_data s" and ?stop = "min (i * ss + ss) (length (m_data s))"
  have "sector_all_ff s i \<longleftrightarrow> (\<forall>j < ?stop - i * ss. ?d ! (i * ss + j) = 0xff)"
    unfolding sector_all_ff_def Let_def ss_def[symmetric] list_all_length by auto
  also have "\<dots> \<longleftrightarrow> (\<forall>pos < length ?d. pos div ss = i \<longrightarrow> ?d ! pos = 0xff)"
  proof (intro iffI allI impI)
    fix pos
    assume all: "\<forall>j < ?stop - i * ss. ?d ! (i * ss + j) = 0xff" and pos: "pos < length ?d" "pos div ss = i"
    have "pos = i * ss + pos mod ss" using pos(2) by (metis div_mult_mod_eq)
    moreover have "pos mod ss < ss" using ss by simp
    ultimately show "?d ! pos = 0xff" using all pos(1) by (metis (no_types, lifting) add_less_cancel_left less_diff_conv2 le_add1 add.commute min_less_iff_conj less_diff_conv)
  next
    fix j
    assume all: "\<forall>pos < length ?d. pos div ss = i \<longrightarrow> ?d ! pos = 0xff" and j: "j < ?stop - i * ss"
    then have "(i * ss + j) div ss = i" using ss by simp
    then show "?d ! (i * ss + j) = 0xff" using all j by simp
  qed
  finally show ?thesis by (simp add: ss_def)
qed

lemma rebuild_sound: "sectors_sound (rebuild_sector_erased_map s)"
proof -
  have "sector_all_ff s i \<Longrightarrow> m_sector_size_value s \<noteq> 0 \<Longrightarrow> pos < length (m_data s) \<Longrightarrow>
      pos div unat (m_sector_size_value s) = i \<Longrightarrow> m_data s ! pos = 0xff" for i pos
    using sector_all_ff_iff[of s i] by blast
  then show ?thesis by (auto simp: sectors_sound_def rebuild_sector_erased_map_def)
qed

lemma sector_count_cong [simp]:
  "sector_count (s\<lparr>m_sector_erased := m\<rparr>) = sector_count s"
  "sector_count (s\<lparr>m_sector_erased_map_size := n\<rparr>) = sector_count s"
  "length d = length (m_data s) \<Longrightarrow> sector_count (s\<lparr>m_data := d\<rparr>) = sector_count s"
  "length d = length (m_data s) \<Longrightarrow> sector_count (s\<lparr>m_data := d, m_sector_erased := m\<rparr>) = sector_count s"
  "length d = length (m_data s) \<Longrightarrow> sector_count (s\<lparr>m_data := d, m_sector_erased := m, m_sector_erased_map_size := n\<rparr>) = sector_count s"
  by (auto simp: sector_count_def Let_def)

lemma ensure_map:
  assumes "sectors_sound s"
  shows "map_consistent (ensure_sector_erased_map s)" "sectors_sound (ensure_sector_erased_map s)"
  using assms rebuild_sound[of s]
  by (auto simp: ensure_sector_erased_map_def map_consistent_def rebuild_sector_erased_map_def)

lemma ensure_map_record:
  "\<exists>m n. ensure_sector_erased_map s = s\<lparr>m_sector_erased := m, m_sector_erased_map_size := n\<rparr>"
proof (cases "m_sector_erased_map_size s \<noteq> m_sector_size_value s \<or> length (m_sector_erased s) \<noteq> sector_count s")
  case True
  then show ?thesis
    unfolding ensure_sector_erased_map_def rebuild_sector_erased_map_def
    by (intro exI[of _ "map (sector_all_ff s) [0..<sector_count s]"] exI[of _ "m_sector_size_value s"]) auto
next
  case False
  then show ?thesis
    unfolding ensure_sector_erased_map_def
    by (intro exI[of _ "m_sector_erased s"] exI[of _ "m_sector_erased_map_size s"]) simp
qed

text \<open>
  Changing bytes keeps the map sound when every sector that got a byte other than 0xff loses its mark;
  for the operations this is the marking after the change.
\<close>

lemma sound_after_change:
  fixes s t v :: "'a flash_array_scheme"
  defines "u \<equiv> ensure_sector_erased_map t"
  assumes "sectors_sound s" and "length (m_data t) = length (m_data s)" and "m_sector_size_value t = m_sector_size_value s"
    and "m_sector_erased t = m_sector_erased s" and "m_sector_erased_map_size t = m_sector_erased_map_size s"
    and "m_data v = m_data t" and "m_sector_size_value v = m_sector_size_value t"
    and "m_sector_erased_map_size v = m_sector_erased_map_size u" and "length (m_sector_erased v) = length (m_sector_erased u)"
    and "\<And>pos. pos < length (m_data t) \<Longrightarrow> m_data t ! pos \<noteq> m_data s ! pos \<Longrightarrow> m_data t ! pos \<noteq> 0xff \<Longrightarrow>
      pos div unat (m_sector_size_value s) < length (m_sector_erased v) \<Longrightarrow>
      \<not> m_sector_erased v ! (pos div unat (m_sector_size_value s))"
    and "\<And>i. i < length (m_sector_erased v) \<Longrightarrow> m_sector_erased v ! i \<Longrightarrow>
      m_sector_erased u ! i \<or> (\<forall>pos < length (m_data t). pos div unat (m_sector_size_value s) = i \<longrightarrow> m_data t ! pos = 0xff)"
  shows "sectors_sound v"
proof -
  let ?k = "unat (m_sector_size_value s)"
  have cnt: "sector_count t = sector_count s" "sector_count v = sector_count t"
    using assms(3,4,7,8) by (auto simp: sector_count_def Let_def)
  have flagged: "m_data t ! pos = 0xff" if "m_sector_size_value s \<noteq> 0" "map_consistent s" "pos < length (m_data t)"
    "pos div ?k < length (m_sector_erased v)" "m_sector_erased v ! (pos div ?k)" "m_sector_erased u ! (pos div ?k)" for pos
  proof -
    have "u = t" using that(2) cnt(1) assms(4-6) by (simp add: u_def ensure_sector_erased_map_def map_consistent_def)
    then have "m_data s ! pos = 0xff"
      using that assms(2,3,5,10) unfolding sectors_sound_def by auto
    then show ?thesis using assms(11)[OF that(3)] that(4,5) by metis
  qed
  have fresh: "m_data t ! pos = 0xff" if "m_sector_size_value s \<noteq> 0" "\<not> map_consistent s" "pos < length (m_data t)"
    "pos div ?k < length (m_sector_erased v)" "m_sector_erased u ! (pos div ?k)" for pos
  proof -
    have "u = rebuild_sector_erased_map t"
      using that(2) cnt(1) assms(4-6) by (auto simp: u_def ensure_sector_erased_map_def map_consistent_def)
    then show ?thesis
      using that(1,3-5) assms(4,10) sector_all_ff_iff[of t "pos div ?k"] by (auto simp: rebuild_sector_erased_map_def)
  qed
  show ?thesis
    unfolding sectors_sound_def
  proof (intro impI allI)
    fix pos
    assume "m_sector_size_value v \<noteq> 0" "pos < length (m_data v)" "pos div unat (m_sector_size_value v) < length (m_sector_erased v)"
      "m_sector_erased v ! (pos div unat (m_sector_size_value v))"
    then show "m_data v ! pos = 0xff"
      using flagged[of pos] fresh[of pos] assms(4,7,8) assms(12)[of "pos div ?k"] by auto
  qed
qed

subsection \<open>Overwriting\<close>

lemma length_overwrite [simp]: "off + length bs \<le> length xs \<Longrightarrow> length (overwrite off bs xs) = length xs"
  by (simp add: overwrite_def)

lemma nth_overwrite:
  "off + length bs \<le> length xs \<Longrightarrow> j < length xs \<Longrightarrow>
   overwrite off bs xs ! j = (if off \<le> j \<and> j < off + length bs then bs ! (j - off) else xs ! j)"
  by (auto simp: overwrite_def nth_append min_def)

lemma overwrite_Nil [simp]: "overwrite off [] xs = xs"
  by (simp add: overwrite_def)

subsection \<open>What programming and erasing leave alone\<close>

definition shell :: "strata_flash \<Rightarrow> strata_flash" where
  "shell s = (fore s)\<lparr>m_data := [], m_sector_erased := [], m_sector_erased_map_size := 0, m_status := 0,
     m_mode := Mode_read_array, m_pending := Pending_none\<rparr>"

lemma shell_fore: "fore s = fore t \<Longrightarrow> shell s = shell t"
  by (simp add: shell_def)

lemma shell_ops [simp]:
  "shell (count_stat c n s) = shell s" "shell (write_backing_range off len s) = shell s"
  by (rule shell_fore, simp)+

lemma shell_updates [simp]:
  "shell (s\<lparr>m_data := d\<rparr>) = shell s" "shell (set_idle_status s) = shell s"
  "shell (s\<lparr>m_sector_erased := m\<rparr>) = shell s" "shell (s\<lparr>m_sector_erased := m, m_sector_erased_map_size := n\<rparr>) = shell s"
  by (simp_all add: shell_def fore_def set_idle_status_def)

lemma shell_map [simp]:
  "shell (ensure_sector_erased_map s) = shell s" "shell (mark_sector_erased off s) = shell s"
  "shell (mark_programmed_range off len s) = shell s" "shell (mark_programmed_byte off s) = shell s"
  "shell (snd (sector_is_erased off s)) = shell s"
proof -
  have "shell (ensure_sector_erased_map s) = shell s" for s using ensure_map_record[of s] by auto
  then show "shell (ensure_sector_erased_map s) = shell s" "shell (mark_sector_erased off s) = shell s"
    "shell (mark_programmed_range off len s) = shell s" "shell (mark_programmed_byte off s) = shell s"
    "shell (snd (sector_is_erased off s)) = shell s"
    by (simp_all add: mark_sector_erased_def mark_programmed_range_def mark_programmed_byte_def sector_is_erased_def Let_def)
qed

lemma shell_sel:
  assumes "shell s = shell t"
  shows "fl_trace_count s = fl_trace_count t"
    "m_open_dmi_ranges s = m_open_dmi_ranges t" "m_dmi_ranges s = m_dmi_ranges t" "m_dmi_ranges_valid s = m_dmi_ranges_valid t"
    "m_dmi_granted s = m_dmi_granted t" "m_write_buffer_base s = m_write_buffer_base t" "m_write_buffer s = m_write_buffer t"
    "m_write_buffer_written s = m_write_buffer_written t" "flash_socket_bound s = flash_socket_bound t"
    "invalidations s = invalidations t" "flash_config.truncate s = flash_config.truncate t"
  using assms by (simp_all add: shell_def fore_def flash_config.truncate_def) (cases s; cases t; simp)+

lemma shell_config:
  assumes "shell s = shell t"
  shows "fp_size s = fp_size t" "fp_dmi_ranges s = fp_dmi_ranges t" "m_stats_collecting s = m_stats_collecting t"
    "m_trace_enabled s = m_trace_enabled t" "m_trace_limit_value s = m_trace_limit_value t"
    "m_enable_dmi_value s = m_enable_dmi_value t" "m_program_ff_sets_bits_value s = m_program_ff_sets_bits_value t"
    "m_program_ff_erases_sector_value s = m_program_ff_erases_sector_value t" "m_sector_size_value s = m_sector_size_value t"
    "m_backing_file_value s = m_backing_file_value t" "m_defer_backing_write_value s = m_defer_backing_write_value t"
  using shell_sel(11)[OF assms] by (simp_all add: flash_config.truncate_def)

definition idle_status :: "strata_flash \<Rightarrow> bool" where
  "idle_status s \<longleftrightarrow> m_status s = STATUS_READY \<and> m_mode s = Mode_read_status \<and> m_pending s = Pending_none"

lemma idle_status_set [simp]: "idle_status (set_idle_status s)"
  by (simp add: idle_status_def set_idle_status_def)

lemma set_idle_sel [simp]:
  "m_data (set_idle_status s) = m_data s" "m_sector_erased (set_idle_status s) = m_sector_erased s"
  "m_sector_erased_map_size (set_idle_status s) = m_sector_erased_map_size s"
  "m_sector_size_value (set_idle_status s) = m_sector_size_value s"
  by (simp_all add: set_idle_status_def)

lemma sectors_sound_cong:
  "m_data s = m_data t \<Longrightarrow> m_sector_erased s = m_sector_erased t \<Longrightarrow> m_sector_erased_map_size s = m_sector_erased_map_size t \<Longrightarrow>
   m_sector_size_value s = m_sector_size_value t \<Longrightarrow> sectors_sound s = sectors_sound t"
  by (simp add: sectors_sound_def map_consistent_def sector_count_def Let_def)

lemma sound_ops [simp]:
  "sectors_sound (set_idle_status s) = sectors_sound (s :: strata_flash)"
  "sectors_sound (count_stat c n s) = sectors_sound s" "sectors_sound (write_backing_range off len s) = sectors_sound s"
  by (rule sectors_sound_cong; simp)+

lemma ensure_map_sel [simp]:
  "m_data (ensure_sector_erased_map s) = m_data s" "m_sector_size_value (ensure_sector_erased_map s) = m_sector_size_value s"
  by (simp_all add: ensure_sector_erased_map_def rebuild_sector_erased_map_def)

lemma ensure_map_id: "map_consistent s \<Longrightarrow> ensure_sector_erased_map s = s"
  by (simp add: map_consistent_def ensure_sector_erased_map_def)

lemma map_consistent_cong:
  "length (m_data s) = length (m_data t) \<Longrightarrow> length (m_sector_erased s) = length (m_sector_erased t) \<Longrightarrow>
   m_sector_erased_map_size s = m_sector_erased_map_size t \<Longrightarrow>
   m_sector_size_value s = m_sector_size_value t \<Longrightarrow> map_consistent s = map_consistent t"
  by (auto simp: map_consistent_def sector_count_def Let_def)

lemma consistent_ops [simp]:
  "map_consistent (set_idle_status s) = map_consistent (s :: strata_flash)"
  "map_consistent (count_stat c n s) = map_consistent s" "map_consistent (write_backing_range off len s) = map_consistent s"
  by (rule map_consistent_cong; simp)+

subsection \<open>The abstract flash\<close>

definition nor_erase :: "nat \<Rightarrow> nat \<Rightarrow> u8 list \<Rightarrow> u8 list" where
  "nor_erase ss off d = map (\<lambda>pos. if pos div ss = off div ss then 0xff else d ! pos) [0..<length d]"

definition nor_program :: "bool \<Rightarrow> nat \<Rightarrow> u8 list \<Rightarrow> u8 list \<Rightarrow> u8 list" where
  "nor_program ff off bs d =
     map (\<lambda>pos. if off \<le> pos \<and> pos < off + length bs then programmed_byte ff (d ! pos) (bs ! (pos - off)) else d ! pos) [0..<length d]"

lemma length_nor [simp]: "length (nor_erase ss off d) = length d" "length (nor_program ff off bs d) = length d"
  by (simp_all add: nor_erase_def nor_program_def)

lemma sector_span:
  assumes "0 < ss"
  shows "(k * ss \<le> pos \<and> pos < k * ss + ss) \<longleftrightarrow> pos div ss = (k :: nat)"
proof
  assume "k * ss \<le> pos \<and> pos < k * ss + ss"
  then show "pos div ss = k" by (intro div_nat_eqI) (simp_all add: mult.commute)
next
  assume "pos div ss = k"
  then have "pos = k * ss + pos mod ss" by (metis div_mult_mod_eq)
  moreover have "pos mod ss < ss" using assms by simp
  ultimately show "k * ss \<le> pos \<and> pos < k * ss + ss" by linarith
qed

lemma overwrite_erase:
  assumes "0 < ss" and "off < length d"
  shows "overwrite (off div ss * ss) (replicate (min (off div ss * ss + ss) (length d) - off div ss * ss) 0xff) d = nor_erase ss off d"
proof -
  let ?start = "off div ss * ss"
  have st: "?start \<le> off" by (metis div_times_less_eq_dividend)
  let ?len = "min (?start + ss) (length d) - ?start"
  have fits: "?start + length (replicate ?len 0xff) \<le> length d"
    using st assms(2) by (simp only: length_replicate)
  show ?thesis
  proof (rule nth_equalityI)
    show "length (overwrite ?start (replicate ?len 0xff) d) = length (nor_erase ss off d)" using fits by simp
    fix pos assume "pos < length (overwrite ?start (replicate ?len 0xff) d)"
    then have pos: "pos < length d" using fits by simp
    have span: "?start \<le> pos \<and> pos < ?start + ?len \<longleftrightarrow> pos div ss = off div ss"
      using sector_span[OF assms(1), of "off div ss" pos] pos by auto
    have "overwrite ?start (replicate ?len 0xff) d ! pos =
        (if ?start \<le> pos \<and> pos < ?start + ?len then replicate ?len 0xff ! (pos - ?start) else d ! pos)"
      using nth_overwrite[OF fits pos] by simp
    also have "\<dots> = nor_erase ss off d ! pos"
    proof (cases "pos div ss = off div ss")
      case True
      then have "pos - ?start < ?len" using span by linarith
      then show ?thesis using True span pos by (simp add: nor_erase_def)
    next
      case False
      then have "\<not> (?start \<le> pos \<and> pos < ?start + ?len)" using span by blast
      then show ?thesis using False pos by (subst if_not_P) (auto simp: nor_erase_def)
    qed
    finally show "overwrite ?start (replicate ?len 0xff) d ! pos = nor_erase ss off d ! pos" .
  qed
qed

lemma erase_sector_spec:
  assumes "sectors_sound s" and "m_sector_size_value s \<noteq> 0" and "off < length (m_data s)"
    and "ss = unat (m_sector_size_value s)"
  shows "\<exists>s'. erase_sector off s = Some s' \<and> m_data s' = nor_erase ss off (m_data s) \<and> sectors_sound s' \<and>
    map_consistent s' \<and> idle_status s' \<and> shell s' = shell s"
proof -
  have ss: "0 < ss" using assms(2,4) by (simp add: unat_gt_0)
  define start where "start = off div ss * ss"
  define len where "len = min (start + ss) (length (m_data s)) - start"
  define s1 where "s1 = count_stat St_sector_erase_bytes (of_nat len) (count1 St_sector_erase_ops s)"
  have s1: "m_data s1 = m_data s" "sectors_sound s1" "m_sector_size_value s1 = m_sector_size_value s" "shell s1 = shell s"
    using assms(1) by (simp_all add: s1_def)
  have idx: "start div ss = off div ss" using ss by (simp add: start_def)
  let ?e = "ensure_sector_erased_map s1"
  have e: "map_consistent ?e" "sectors_sound ?e" using ensure_map[OF s1(2)] by simp_all
  have nonempty: "m_data s \<noteq> []" using assms(3) by auto
  have call: "sector_is_erased start s1 = (off div ss < length (m_sector_erased ?e) \<and> m_sector_erased ?e ! (off div ss), ?e)"
    using ss nonempty s1 assms(4) idx by (auto simp: sector_is_erased_def Let_def)
  have eq: "erase_sector off s = (case sector_is_erased start s1 of (erased, t) \<Rightarrow>
      if erased then Some (set_idle_status t)
      else Some (set_idle_status (write_backing_range start len (mark_sector_erased start
             (t\<lparr>m_data := overwrite start (replicate len 0xff) (m_data t)\<rparr>)))))"
    unfolding erase_sector_def s1_def len_def start_def assms(4) Let_def using ss assms(4) by simp
  show ?thesis
  proof (cases "off div ss < length (m_sector_erased ?e) \<and> m_sector_erased ?e ! (off div ss)")
    case True
    then have "nor_erase ss off (m_data s) = m_data s"
      using e assms(2,4) s1 by (intro nth_equalityI) (auto simp: nor_erase_def sectors_sound_def)
    moreover have "erase_sector off s = Some (set_idle_status ?e)"
      using True call by (simp add: eq)
    ultimately show ?thesis using e s1 by simp
  next
    case False
    define s2 where "s2 = ?e\<lparr>m_data := overwrite start (replicate len 0xff) (m_data ?e)\<rparr>"
    define s3 where "s3 = mark_sector_erased start s2"
    have "erase_sector off s = Some (set_idle_status (write_backing_range start len s3))"
      unfolding eq call s3_def s2_def using False by auto
    moreover have d2: "m_data s2 = nor_erase ss off (m_data s)"
      using overwrite_erase[OF ss assms(3)] s1(1) by (simp add: s2_def start_def len_def)
    have ne2: "m_data s2 \<noteq> []" using d2 nonempty by (metis length_nor(1) length_0_conv)
    let ?u = "ensure_sector_erased_map s2"
    have s3: "s3 = ?u\<lparr>m_sector_erased := (m_sector_erased ?u)[off div ss := True]\<rparr>"
      using ss ne2 s1(3) assms(4) idx by (simp add: s3_def mark_sector_erased_def s2_def Let_def)
    have d3: "m_data s3 = nor_erase ss off (m_data s)" using d2 s3 by simp
    moreover have "sectors_sound s3"
      by (rule sound_after_change[OF e(2), where t = s2])
        (use s1 d2 assms(4) in \<open>auto simp: s3 s2_def nor_erase_def nth_list_update split: if_splits\<close>)
    moreover have "map_consistent s2"
      using e(1) d2 s1(1) map_consistent_cong[of s2 ?e] by (simp add: s2_def)
    then have "map_consistent s3" by (subst map_consistent_cong[of s3 s2]) (simp_all add: s3 ensure_map_id)
    moreover have "shell s3 = shell s" using s1(4) by (simp add: s3_def s2_def)
    ultimately show ?thesis using d3 by simp
  qed
qed

subsection \<open>Programming\<close>

text \<open>What the loop of the general path has computed after \<open>k\<close> bytes.\<close>

definition loop_state :: "bool \<Rightarrow> nat \<Rightarrow> u8 list \<Rightarrow> u8 list \<Rightarrow> nat \<Rightarrow> u8 list \<times> nat \<times> nat \<times> nat \<Rightarrow> bool" where
  "loop_state ff off bs d k st \<longleftrightarrow>
     (case st of (arr, changed, first, lst) \<Rightarrow>
        arr = nor_program ff off (take k bs) d \<and>
        (\<forall>i < k. programmed_byte ff (d ! (off + i)) (bs ! i) \<noteq> d ! (off + i) \<longrightarrow> first \<le> i \<and> i \<le> lst) \<and>
        (first = length bs \<or> first \<le> lst \<and> lst < k))"

lemma nth_nor_program:
  "pos < length d \<Longrightarrow> nor_program ff off bs d ! pos =
     (if off \<le> pos \<and> pos < off + length bs then programmed_byte ff (d ! pos) (bs ! (pos - off)) else d ! pos)"
  by (simp add: nor_program_def)

lemma program_loop:
  assumes "off + length bs \<le> length d" and "k \<le> length bs"
  shows "loop_state ff off bs d k (fold (program_loop_step ff off bs) [0..<k] (d, 0, length bs, 0))"
  using assms(2)
proof (induction k)
  case 0
  have "nor_program ff off [] d = d" by (intro nth_equalityI) (auto simp: nth_nor_program)
  then show ?case by (simp add: loop_state_def)
next
  case (Suc k)
  obtain arr changed first lst where st: "fold (program_loop_step ff off bs) [0..<k] (d, 0, length bs, 0) = (arr, changed, first, lst)"
    by (metis prod_cases4)
  let ?v = "programmed_byte ff (d ! (off + k)) (bs ! k)"
  have inv: "arr = nor_program ff off (take k bs) d"
    "\<And>i. i < k \<Longrightarrow> programmed_byte ff (d ! (off + i)) (bs ! i) \<noteq> d ! (off + i) \<Longrightarrow> first \<le> i \<and> i \<le> lst"
    "first = length bs \<or> first \<le> lst \<and> lst < k"
    using Suc st by (auto simp: loop_state_def)
  have old: "arr ! (off + k) = d ! (off + k)" "length arr = length d"
    using assms(1) Suc.prems by (simp_all add: inv(1) nth_nor_program)
  have nx: "nor_program ff off (take (Suc k) bs) d = arr[off + k := ?v]"
  proof (rule nth_equalityI)
    show "length (nor_program ff off (take (Suc k) bs) d) = length (arr[off + k := ?v])" using old by simp
    fix pos assume "pos < length (nor_program ff off (take (Suc k) bs) d)"
    then have pos: "pos < length d" by simp
    show "nor_program ff off (take (Suc k) bs) d ! pos = arr[off + k := ?v] ! pos"
    proof (cases "pos = off + k")
      case True
      then show ?thesis using pos old Suc.prems by (simp add: nth_nor_program)
    next
      case False
      then show ?thesis using pos Suc.prems by (auto simp: inv(1) nth_nor_program nth_list_update min_def)
    qed
  qed
  have step: "fold (program_loop_step ff off bs) [0..<Suc k] (d, 0, length bs, 0) =
      (if ?v = d ! (off + k) then (arr, changed, first, lst) else (arr[off + k := ?v], changed + 1, min first k, k))"
    using st old by (simp add: program_loop_step_def Let_def)
  show ?case
  proof (cases "?v = d ! (off + k)")
    case True
    then have "nor_program ff off (take (Suc k) bs) d = arr" using nx old by (metis list_update_id)
    then show ?thesis
      unfolding step using True inv(2,3) by (auto simp: loop_state_def less_Suc_eq)
  next
    case False
    have "min first k \<le> i \<and> i \<le> k" if "i < Suc k" "programmed_byte ff (d ! (off + i)) (bs ! i) \<noteq> d ! (off + i)" for i
      using that inv(2)[of i] by (cases "i = k") auto
    then show ?thesis
      unfolding step using False nx by (auto simp: loop_state_def)
  qed
qed

lemma unmark_nth: "i < length m \<Longrightarrow> m[k := False] ! i \<longleftrightarrow> m ! i \<and> i \<noteq> k"
  by (cases "k = i") auto

lemma unmark_fold:
  "length (fold (\<lambda>pos m. if d ! pos = x then m else m[pos div ss := False]) ps m) = length m"
  "i < length m \<Longrightarrow> fold (\<lambda>pos m. if d ! pos = x then m else m[pos div ss := False]) ps m ! i \<longleftrightarrow>
     m ! i \<and> (\<forall>pos \<in> set ps. pos div ss = i \<longrightarrow> d ! pos = x)"
  by (induction ps arbitrary: m) (auto simp: unmark_nth)

lemma mark_range_sel:
  assumes "0 < unat (m_sector_size_value s)" and "m_data s \<noteq> []" and "0 < n"
  shows "mark_programmed_range a n s = (ensure_sector_erased_map s)\<lparr>m_sector_erased :=
    fold (\<lambda>pos m. if m_data s ! pos = 0xff then m else m[pos div unat (m_sector_size_value s) := False]) [a..<a + n]
      (m_sector_erased (ensure_sector_erased_map s))\<rparr>"
  using assms by (simp add: mark_programmed_range_def Let_def)

lemma sound_size_0: "m_sector_size_value s = 0 \<Longrightarrow> sectors_sound s"
  by (simp add: sectors_sound_def)

text \<open>Marking the changed range after a change restores soundness.\<close>

lemma sound_mark_range:
  fixes s t :: strata_flash
  assumes "sectors_sound s" and "length (m_data t) = length (m_data s)" and "m_sector_size_value t = m_sector_size_value s"
    and "m_sector_erased t = m_sector_erased s" and "m_sector_erased_map_size t = m_sector_erased_map_size s"
    and "\<And>pos. pos < length (m_data t) \<Longrightarrow> m_data t ! pos \<noteq> m_data s ! pos \<Longrightarrow> a \<le> pos \<and> pos < a + n"
    and "0 < n" and "m_data t \<noteq> []"
  shows "sectors_sound (mark_programmed_range a n t)"
proof (cases "m_sector_size_value s = 0")
  case True
  then have "mark_programmed_range a n t = t" using assms(3) by (simp add: mark_programmed_range_def)
  then show ?thesis using True assms(3) by (simp add: sound_size_0)
next
  case False
  then have "0 < unat (m_sector_size_value t)" using assms(3) by (simp add: unat_gt_0)
  note mark = mark_range_sel[OF this assms(8,7), of a]
  let ?u = "ensure_sector_erased_map t" and ?v = "mark_programmed_range a n t"
  have sel: "m_data ?v = m_data t" "m_sector_size_value ?v = m_sector_size_value t"
    "m_sector_erased_map_size ?v = m_sector_erased_map_size ?u" "length (m_sector_erased ?v) = length (m_sector_erased ?u)"
    by (simp_all add: mark unmark_fold(1))
  have bit: "m_sector_erased ?v ! i \<longleftrightarrow> m_sector_erased ?u ! i \<and>
      (\<forall>pos \<in> set [a..<a + n]. pos div unat (m_sector_size_value t) = i \<longrightarrow> m_data t ! pos = 0xff)"
    if "i < length (m_sector_erased ?u)" for i
    using that by (simp add: mark unmark_fold(2))
  show ?thesis
  proof (rule sound_after_change[OF assms(1-5) sel])
    fix pos
    assume "pos < length (m_data t)" "m_data t ! pos \<noteq> m_data s ! pos" "m_data t ! pos \<noteq> 0xff"
      "pos div unat (m_sector_size_value s) < length (m_sector_erased ?v)"
    then show "\<not> m_sector_erased ?v ! (pos div unat (m_sector_size_value s))"
      using assms(6)[of pos] assms(3) sel(4) bit[of "pos div unat (m_sector_size_value s)"] by auto
  next
    fix i
    assume "i < length (m_sector_erased ?v)" "m_sector_erased ?v ! i"
    then show "m_sector_erased ?u ! i \<or> (\<forall>pos < length (m_data t). pos div unat (m_sector_size_value s) = i \<longrightarrow> m_data t ! pos = 0xff)"
      using sel(4) bit[of i] by simp
  qed
qed

lemma mark_range_data [simp]: "m_data (mark_programmed_range a n s) = m_data s"
  by (simp add: mark_programmed_range_def Let_def)

text \<open>The fast path for one byte is the general path, when no statistics are collected.\<close>

lemma program_one_eq:
  assumes "\<not> m_stats_collecting s" and "off < length (m_data s)" and "map_consistent s"
  shows "program_one off b s = program_many off [b] s"
proof -
  have no_stats: "count_stat c n t = t" if "\<not> m_stats_collecting t" for c n and t :: strata_flash
    using that by (simp add: count_stat_def)
  let ?v = "programmed_byte (m_program_ff_sets_bits_value s) (m_data s ! off) b"
  have mark: "mark_programmed_byte off t = mark_programmed_range off 1 t" if "map_consistent t" for t :: strata_flash
    using that by (simp add: mark_programmed_byte_def mark_programmed_range_def ensure_map_id Let_def)
  have "s\<lparr>m_data := m_data s\<rparr> = s" by simp
  moreover have "map_consistent (s\<lparr>m_data := (m_data s)[off := v]\<rparr>)" for v
    using assms(3) map_consistent_cong[of "s\<lparr>m_data := (m_data s)[off := v]\<rparr>" s] by simp
  ultimately show ?thesis
    using assms(1)
    by (simp add: program_one_def program_many_def program_loop_step_def no_stats mark Let_def)
qed

lemma program_many_spec:
  assumes "sectors_sound s" and "off + length bs \<le> length (m_data s)" and "bs \<noteq> []"
    and "ff = m_program_ff_sets_bits_value s" and "map_consistent s"
  shows "m_data (program_many off bs s) = nor_program ff off bs (m_data s) \<and> sectors_sound (program_many off bs s) \<and>
    map_consistent (program_many off bs s) \<and>
    idle_status (program_many off bs s) \<and> shell (program_many off bs s) = shell s"
proof -
  let ?d = "m_data s"
  define s1 where "s1 = count_stat St_program_bytes (of_nat (length bs)) (count1 St_program_ops s)"
  have s1: "m_data s1 = ?d" "m_program_ff_sets_bits_value s1 = ff" "m_sector_erased s1 = m_sector_erased s"
    "m_sector_erased_map_size s1 = m_sector_erased_map_size s" "m_sector_size_value s1 = m_sector_size_value s" "shell s1 = shell s"
    using assms(4) by (simp_all add: s1_def)
  obtain arr changed first lst where loop: "fold (program_loop_step ff off bs) [0..<length bs] (?d, 0, length bs, 0) =
      (arr, changed, first, lst)" by (metis prod_cases4)
  have inv: "arr = nor_program ff off bs ?d"
    "\<And>i. i < length bs \<Longrightarrow> programmed_byte ff (?d ! (off + i)) (bs ! i) \<noteq> ?d ! (off + i) \<Longrightarrow> first \<le> i \<and> i \<le> lst"
    "first = length bs \<or> first \<le> lst \<and> lst < length bs"
    using program_loop[OF assms(2) order_refl, of ff] unfolding loop loop_state_def by auto
  define s2 where "s2 = count_stat St_program_noop_bytes (of_nat (length bs - changed))
      (count_stat St_program_changed_bytes (of_nat changed) (s1\<lparr>m_data := arr\<rparr>))"
  have s2: "m_data s2 = arr" "m_sector_erased s2 = m_sector_erased s" "m_sector_erased_map_size s2 = m_sector_erased_map_size s"
    "m_sector_size_value s2 = m_sector_size_value s" "shell s2 = shell s"
    using s1 by (simp_all add: s2_def)
  have eq: "program_many off bs s = set_idle_status (if first \<noteq> length bs
      then write_backing_range (off + first) (lst - first + 1) (mark_programmed_range (off + first) (lst - first + 1) s2) else s2)"
    using loop s1(1,2) unfolding program_many_def s1_def[symmetric] s2_def Let_def by (simp add: s1_def)
  have changed: "off + first \<le> pos \<and> pos < off + first + (lst - first + 1)"
    if "pos < length arr" "arr ! pos \<noteq> ?d ! pos" for pos
  proof -
    have pos: "off \<le> pos" "pos < off + length bs" "programmed_byte ff (?d ! pos) (bs ! (pos - off)) \<noteq> ?d ! pos"
      using that by (auto simp: inv(1) nth_nor_program split: if_splits)
    then have "first \<le> pos - off \<and> pos - off \<le> lst" using inv(2)[of "pos - off"] by auto
    then show ?thesis using pos(1) by linarith
  qed
  have len: "length arr = length ?d" "?d \<noteq> []" using inv(1) assms(2,3) by auto
  then have "arr \<noteq> []" by auto
  have sound: "sectors_sound (mark_programmed_range (off + first) (lst - first + 1) s2)"
    by (rule sound_mark_range[OF assms(1)]) (use s2 len changed \<open>arr \<noteq> []\<close> in auto)
  have "map_consistent (mark_programmed_range a n t) = map_consistent t" if "map_consistent t" for a n and t :: strata_flash
    using that by (intro map_consistent_cong) (simp_all add: mark_programmed_range_def ensure_map_id unmark_fold(1) Let_def)
  moreover have cons: "map_consistent s2" using assms(5) map_consistent_cong[of s2 s] s2 len(1) by simp
  ultimately have cons_mark: "map_consistent (mark_programmed_range a n s2)" for a n by blast
  show ?thesis
  proof (cases "first = length bs")
    case True
    have "arr ! pos = ?d ! pos" if "pos < length arr" for pos
    proof (rule ccontr)
      assume ne: "arr ! pos \<noteq> ?d ! pos"
      then have "off \<le> pos \<and> pos < off + length bs" using that inv(1) by (auto simp: nth_nor_program split: if_splits)
      then show False using changed[OF that ne] True by linarith
    qed
    then have "arr = ?d" using len(1) by (intro nth_equalityI) auto
    then have "sectors_sound s2"
      using assms(1) s2 sectors_sound_cong[of s2 s] by simp
    then show ?thesis using True s2 inv(1) cons by (simp add: eq)
  next
    case False
    then show ?thesis using sound s2 inv(1) cons_mark by (simp add: eq)
  qed
qed

lemma program_spec:
  assumes "sectors_sound s" and "off + length bs \<le> length (m_data s)" and "bs \<noteq> []"
    and "ff = m_program_ff_sets_bits_value s" and "map_consistent s" and "\<not> is_sector_aligned_program_ff_erase off bs s"
  shows "\<exists>s'. program off bs s = Some s' \<and> m_data s' = nor_program ff off bs (m_data s) \<and> sectors_sound s' \<and>
    map_consistent s' \<and>
    idle_status s' \<and> shell s' = shell s"
proof -
  have "program off bs s = Some (program_many off bs s)"
  proof (cases "\<not> m_stats_collecting s \<and> length bs = 1")
    case True
    then have "bs = [bs ! 0]" by (cases bs) auto
    then show ?thesis using True assms(2,5,6) program_one_eq[of s off "bs ! 0"] by (simp add: program_def)
  next
    case False
    then show ?thesis using assms(2,6) by (auto simp: program_def)
  qed
  then show ?thesis using program_many_spec[OF assms(1-5)] by simp
qed

subsection \<open>Well-formed states\<close>

definition buffer_ok :: "strata_flash \<Rightarrow> bool" where
  "buffer_ok s \<longleftrightarrow> length (m_write_buffer_written s) = length (m_write_buffer s) \<and>
     (m_write_buffer s \<noteq> [] \<longrightarrow> m_write_buffer_base s + length (m_write_buffer s) \<le> length (m_data s))"

definition flash_ok :: "strata_flash \<Rightarrow> bool" where
  "flash_ok s \<longleftrightarrow> (m_data s \<noteq> [] \<longrightarrow> map_consistent s) \<and> sectors_sound s \<and> m_status s = STATUS_READY \<and> buffer_ok s"

lemma flash_ok_fore: "fore s = fore t \<Longrightarrow> flash_ok s = flash_ok t"
  using fore_sel[of s t] fore_config[of s t] map_consistent_cong[of s t] sectors_sound_cong[of s t]
  by (simp add: flash_ok_def buffer_ok_def)

text \<open>Fields that \<open>flash_ok\<close> does not look at.\<close>

lemma flash_ok_updates [simp]:
  "flash_ok (s\<lparr>m_mode := m\<rparr>) = flash_ok s" "flash_ok (s\<lparr>m_pending := p\<rparr>) = flash_ok s"
  "flash_ok (s\<lparr>m_dmi_granted := b\<rparr>) = flash_ok s" "flash_ok (s\<lparr>invalidations := i\<rparr>) = flash_ok s"
  "flash_ok (s\<lparr>fl_trace_count := n\<rparr>) = flash_ok s" "flash_ok (count_stat c k s) = flash_ok s"
  "flash_ok (s\<lparr>m_dmi_ranges := r\<rparr>) = flash_ok s" "flash_ok (s\<lparr>m_dmi_ranges := r, m_dmi_ranges_valid := b\<rparr>) = flash_ok s"
  "flash_ok (s\<lparr>m_open_dmi_ranges := o', m_dmi_ranges := r, m_dmi_ranges_valid := b\<rparr>) = flash_ok s"
  "flash_ok (maybe_write_stats s) = flash_ok s" "flash_ok (maybe_write_dmi_stats b s) = flash_ok s"
  "flash_ok (flush_deferred_backing s) = flash_ok s" "flash_ok (snd (ensure_backing_file s)) = flash_ok s"
  by (simp_all add: flash_ok_fore[of "count_stat c k s" s] flash_ok_fore[of "maybe_write_stats s" s]
      flash_ok_fore[of "maybe_write_dmi_stats b s" s] flash_ok_fore[of "flush_deferred_backing s" s]
      flash_ok_fore[of "snd (ensure_backing_file s)" s])
    (simp_all add: flash_ok_def buffer_ok_def sectors_sound_def map_consistent_def sector_count_def Let_def)

lemma flash_ok_set_idle [simp]: "flash_ok s \<Longrightarrow> flash_ok (set_idle_status s)"
  by (simp add: flash_ok_def buffer_ok_def set_idle_status_def sectors_sound_def map_consistent_def sector_count_def Let_def)

lemma flash_ok_status [simp]: "flash_ok s \<Longrightarrow> flash_ok (s\<lparr>m_status := STATUS_READY, m_mode := m\<rparr>)"
  "flash_ok s \<Longrightarrow> flash_ok (s\<lparr>m_status := STATUS_READY, m_mode := m, m_pending := p\<rparr>)"
  by (simp_all add: flash_ok_def buffer_ok_def sectors_sound_def map_consistent_def sector_count_def Let_def)

lemma flash_ok_clear [simp]: "flash_ok s \<Longrightarrow> flash_ok (clear_write_buffer s)"
  by (simp add: flash_ok_def buffer_ok_def clear_write_buffer_def sectors_sound_def map_consistent_def sector_count_def Let_def)

lemma clear_buffer_sel [simp]:
  "m_data (clear_write_buffer s) = m_data s" "m_mode (clear_write_buffer s) = m_mode s"
  "m_pending (clear_write_buffer s) = m_pending s" "m_sector_size_value (clear_write_buffer s) = m_sector_size_value s"
  "flash_config.truncate (clear_write_buffer s) = flash_config.truncate s" "m_status (clear_write_buffer s) = m_status s"
  by (simp_all add: clear_write_buffer_def flash_config.truncate_def)

lemma flash_ok_shell:
  assumes "shell t = shell s" and "length (m_data t) = length (m_data s)" and "buffer_ok s"
    and "map_consistent t" and "sectors_sound t" and "m_status t = STATUS_READY"
  shows "flash_ok t"
  using assms shell_sel[OF assms(1)] by (simp add: flash_ok_def buffer_ok_def)

lemma erase_ok:
  assumes "flash_ok s" and "m_sector_size_value s \<noteq> 0" and "off < length (m_data s)"
  shows "\<exists>s'. erase_sector off s = Some s' \<and> flash_ok s' \<and> shell s' = shell s \<and> idle_status s' \<and>
    m_data s' = nor_erase (unat (m_sector_size_value s)) off (m_data s)"
proof -
  obtain s' where s': "erase_sector off s = Some s'" "m_data s' = nor_erase (unat (m_sector_size_value s)) off (m_data s)"
    "sectors_sound s'" "map_consistent s'" "idle_status s'" "shell s' = shell s"
    using erase_sector_spec[OF _ assms(2,3) refl] assms(1) by (auto simp: flash_ok_def)
  then have "flash_ok s'"
    using flash_ok_shell[OF s'(6)] assms(1) by (simp add: flash_ok_def idle_status_def)
  then show ?thesis using s' by blast
qed

lemma program_ok:
  assumes "flash_ok s" and "m_sector_size_value s \<noteq> 0" and "off + length bs \<le> length (m_data s)" and "bs \<noteq> []"
  shows "\<exists>s'. program off bs s = Some s' \<and> flash_ok s' \<and> shell s' = shell s \<and> idle_status s' \<and>
    m_data s' = (if is_sector_aligned_program_ff_erase off bs s then nor_erase (unat (m_sector_size_value s)) off (m_data s)
      else nor_program (m_program_ff_sets_bits_value s) off bs (m_data s))"
proof (cases "is_sector_aligned_program_ff_erase off bs s")
  case True
  let ?t = "count1 St_compat_ff_sector_erase_ops (count_stat St_program_bytes (of_nat (length bs)) (count1 St_program_ops s))"
  have "program off bs s = erase_sector off ?t" using True assms(3) by (simp add: program_def)
  moreover have "off < length (m_data ?t)" using assms(3,4) by (cases bs) auto
  ultimately show ?thesis using erase_ok[of ?t off] assms(1,2) True by simp
next
  case False
  have "m_data s \<noteq> []" using assms(3,4) by (cases bs) auto
  then obtain s' where s': "program off bs s = Some s'" "m_data s' = nor_program (m_program_ff_sets_bits_value s) off bs (m_data s)"
    "sectors_sound s'" "map_consistent s'" "idle_status s'" "shell s' = shell s"
    using program_spec[OF _ assms(3,4) refl _ False] assms(1) by (auto simp: flash_ok_def)
  then have "flash_ok s'"
    using flash_ok_shell[OF s'(6)] assms(1) by (simp add: flash_ok_def idle_status_def)
  then show ?thesis using s' False by simp
qed

subsection \<open>Writes keep the state well formed\<close>

lemma flash_ok_ready [simp]: "flash_ok s \<Longrightarrow> flash_ok (s\<lparr>m_status := STATUS_READY\<rparr>)"
  by (simp add: flash_ok_def buffer_ok_def sectors_sound_def map_consistent_def sector_count_def Let_def)

lemma begin_ok: "flash_ok s \<Longrightarrow> flash_ok (begin_write_buffer off bs s)"
proof -
  have "flash_ok (t\<lparr>m_write_buffer_base := off, m_write_buffer := replicate n x, m_write_buffer_written := replicate n b\<rparr>)"
    if "flash_ok t" "off + n \<le> length (m_data t)" for t n x b
    using that by (simp add: flash_ok_def buffer_ok_def sectors_sound_def map_consistent_def sector_count_def Let_def)
  then show "flash_ok s \<Longrightarrow> flash_ok (begin_write_buffer off bs s)"
    unfolding begin_write_buffer_def Let_def by (auto simp: flash_ok_ready)
qed

lemma flash_ok_buffer:
  "flash_ok t \<Longrightarrow> length wb = length (m_write_buffer t) \<Longrightarrow> length wr = length (m_write_buffer_written t) \<Longrightarrow>
   flash_ok (t\<lparr>m_write_buffer := wb, m_write_buffer_written := wr\<rparr>)"
  by (auto simp: flash_ok_def buffer_ok_def sectors_sound_def map_consistent_def sector_count_def Let_def)

lemma collect_ok:
  assumes "flash_ok s" shows "flash_ok (collect_write_buffer_data off bs s)"
proof (cases "m_write_buffer s = [] \<or> off < m_write_buffer_base s \<or> off > m_write_buffer_base s + length (m_write_buffer s) \<or>
    off - m_write_buffer_base s \<ge> length (m_write_buffer s)")
  case True
  then show ?thesis using assms by (auto simp: collect_write_buffer_data_def Let_def)
next
  case False
  define rel where "rel = off - m_write_buffer_base s"
  define n where "n = min (length bs) (length (m_write_buffer s) - rel)"
  have fits: "rel + length (take n bs) \<le> length (m_write_buffer s)" "rel + length (replicate n True) \<le> length (m_write_buffer_written s)"
    using assms False by (auto simp: flash_ok_def buffer_ok_def rel_def n_def)
  have "collect_write_buffer_data off bs s =
      (count1 St_write_buffer_data_writes (s\<lparr>m_write_buffer := overwrite rel (take n bs) (m_write_buffer s),
        m_write_buffer_written := overwrite rel (replicate n True) (m_write_buffer_written s)\<rparr>))\<lparr>m_status := STATUS_READY, m_mode := Mode_read_status\<rparr>"
    using False unfolding collect_write_buffer_data_def n_def rel_def Let_def by auto
  moreover have "flash_ok (s\<lparr>m_write_buffer := overwrite rel (take n bs) (m_write_buffer s),
        m_write_buffer_written := overwrite rel (replicate n True) (m_write_buffer_written s)\<rparr>)"
    using assms fits by (intro flash_ok_buffer) (simp_all only: length_overwrite)
  ultimately show ?thesis by (metis flash_ok_updates(1,6) flash_ok_status(1))
qed

lemma start_command_ok: "flash_ok s \<Longrightarrow> flash_ok (start_command c s)"
  by (simp add: start_command_def)

lemma start_command_data [simp]: "m_data (start_command c s) = m_data s"
  by (simp add: start_command_def)

lemma record_command_fore [simp]: "fore (record_command c s) = fore s"
  by (simp add: record_command_def)

lemmas record_sel [simp] = fore_sel(1-16)[OF record_command_fore] fore_config[OF record_command_fore]

lemma record_ok [simp]: "flash_ok (record_command c s) = flash_ok s"
  by (rule flash_ok_fore) simp

lemma invalidate_ok [simp]: "flash_ok (invalidate_dmi s) = flash_ok s"
  by (simp add: invalidate_dmi_def Let_def)

lemma invalidate_sel [simp]:
  "m_data (invalidate_dmi s) = m_data s" "m_pending (invalidate_dmi s) = m_pending s" "m_mode (invalidate_dmi s) = m_mode s"
  "m_write_buffer (invalidate_dmi s) = m_write_buffer s" "m_write_buffer_written (invalidate_dmi s) = m_write_buffer_written s"
  "m_sector_size_value (invalidate_dmi s) = m_sector_size_value s" "m_status (invalidate_dmi s) = m_status s"
  by (simp_all add: invalidate_dmi_def Let_def)

text \<open>The configuration is not changed by accesses.\<close>

definition config :: "strata_flash \<Rightarrow> flash_config" where
  "config s = flash_config.truncate s"

lemma config_shell: "shell s = shell t \<Longrightarrow> config s = config t"
  unfolding config_def by (rule shell_sel(11))

lemma config_fore: "fore s = fore t \<Longrightarrow> config s = config t"
  unfolding config_def by (rule fore_sel(17))

lemma config_ops [simp]:
  "config (set_idle_status s) = config s" "config (clear_write_buffer s) = config s" "config (invalidate_dmi s) = config s"
  "config (record_command cmd s) = config s" "config (count_stat c n s) = config s" "config (start_command k s) = config s"
  "config (begin_write_buffer off bs s) = config s" "config (collect_write_buffer_data off bs s) = config s"
  "config (s\<lparr>m_pending := p\<rparr>) = config s"
proof -
  have upd: "config (t\<lparr>m_status := x\<rparr>) = config t" "config (t\<lparr>m_mode := m\<rparr>) = config t" "config (t\<lparr>m_pending := p\<rparr>) = config t"
    "config (t\<lparr>m_write_buffer := wb\<rparr>) = config t" "config (t\<lparr>m_write_buffer_written := wr\<rparr>) = config t"
    "config (t\<lparr>m_write_buffer_base := n\<rparr>) = config t" "config (t\<lparr>invalidations := i\<rparr>) = config t"
    "config (t\<lparr>m_dmi_granted := b\<rparr>) = config t" for t x m p wb wr n i b
    by (simp_all add: config_def flash_config.truncate_def)
  have cnt: "config (count_stat c n t) = config t" for c n t by (rule config_fore) simp
  show "config (set_idle_status s) = config s" "config (clear_write_buffer s) = config s" "config (invalidate_dmi s) = config s"
    "config (record_command cmd s) = config s" "config (count_stat c n s) = config s" "config (start_command k s) = config s"
    "config (begin_write_buffer off bs s) = config s" "config (collect_write_buffer_data off bs s) = config s"
    "config (s\<lparr>m_pending := p\<rparr>) = config s"
    by (simp_all add: upd cnt set_idle_status_def clear_write_buffer_def invalidate_dmi_def record_command_def
        start_command_def begin_write_buffer_def collect_write_buffer_data_def Let_def)
qed

lemma confirm_ok:
  assumes "flash_ok s" and "m_sector_size_value s \<noteq> 0"
  shows "\<exists>s'. confirm_write_buffer s = Some s' \<and> flash_ok s' \<and> config s' = config s \<and> length (m_data s') = length (m_data s)"
proof (cases "write_buffer_complete s")
  case True
  let ?t = "count_stat St_write_buffer_bytes (of_nat (length (m_write_buffer s))) (count1 St_write_buffer_ops (count1 St_write_buffer_confirm_cmds s))"
  have buf: "m_write_buffer s \<noteq> []" "m_write_buffer_base s + length (m_write_buffer s) \<le> length (m_data s)"
    using True assms(1) by (auto simp: write_buffer_complete_def flash_ok_def buffer_ok_def)
  obtain s' where s': "program (m_write_buffer_base s) (m_write_buffer s) ?t = Some s'" "flash_ok s'" "shell s' = shell ?t"
    "length (m_data s') = length (m_data s)"
    using program_ok[of ?t "m_write_buffer_base s" "m_write_buffer s"] assms buf by (auto split: if_splits)
  then show ?thesis
    using True config_shell[OF s'(3)] by (simp add: confirm_write_buffer_def write_buffer_complete_def Let_def)
next
  case False
  then have "\<not> (m_write_buffer_written s \<noteq> [] \<and> list_all id (m_write_buffer_written s))" by (simp add: write_buffer_complete_def)
  then show ?thesis using assms(1) unfolding confirm_write_buffer_def write_buffer_complete_def Let_def by auto
qed

lemma handle_command_ok:
  assumes "flash_ok s" and "m_sector_size_value s \<noteq> 0" and "off < length (m_data s)"
  shows "\<exists>s'. handle_command off c s = Some s' \<and> flash_ok s' \<and> config s' = config s \<and> length (m_data s') = length (m_data s)"
proof -
  obtain s' where "erase_sector off (record_command c s) = Some s'" "flash_ok s'" "shell s' = shell (record_command c s)"
    "length (m_data s') = length (m_data s)"
    using erase_ok[of "record_command c s" off] assms by auto
  then show ?thesis
    using assms(1) config_shell[of s' "record_command c s"]
    by (auto simp: handle_command_def start_command_ok Let_def split: pending_command.split)
qed

lemma flash_write_ok:
  assumes "flash_ok s" and "m_sector_size_value s \<noteq> 0" and "off + length bs \<le> length (m_data s)" and "bs \<noteq> []"
  shows "\<exists>s'. flash_write off bs s = Some s' \<and> flash_ok s' \<and> config s' = config s \<and> length (m_data s') = length (m_data s)"
proof -
  have off: "off < length (m_data s)" using assms(3,4) by (cases bs) auto
  have begin_len: "length (m_data (begin_write_buffer off bs s)) = length (m_data s)"
    by (simp add: begin_write_buffer_def Let_def)
  have coll_len: "length (m_data (collect_write_buffer_data off bs s)) = length (m_data s)"
    by (simp add: collect_write_buffer_data_def Let_def)
  obtain s1 where s1: "program off bs s = Some s1" "flash_ok s1" "shell s1 = shell s" "length (m_data s1) = length (m_data s)"
    using program_ok[OF assms] by (auto split: if_splits)
  obtain s2 where s2: "handle_command off (bs ! 0) (invalidate_dmi s) = Some s2" "flash_ok s2" "config s2 = config s"
    "length (m_data s2) = length (m_data s)"
    using handle_command_ok[of "invalidate_dmi s" off] assms(1,2) off by auto
  obtain s3 where s3: "confirm_write_buffer s = Some s3" "flash_ok s3" "config s3 = config s" "length (m_data s3) = length (m_data s)"
    using confirm_ok[OF assms(1,2)] by blast
  show ?thesis
    using s1 s2 s3 config_shell[OF s1(3)] begin_ok[OF assms(1)] collect_ok[OF assms(1)] begin_len coll_len
    by (auto simp: flash_write_def)
qed

subsection \<open>Accesses\<close>

lemma finish_off: "\<not> m_stats_collecting s \<Longrightarrow> \<not> m_trace_enabled s \<Longrightarrow> finish_access s = s"
  by (simp add: finish_access_def flash_trace_access_def)

lemma storage_switches [simp]:
  "m_stats_collecting (ensure_storage s) = m_stats_collecting s" "m_enable_dmi_value (ensure_storage s) = m_enable_dmi_value s"
  "m_sector_size_value (ensure_storage s) = m_sector_size_value s" "m_trace_enabled (ensure_storage s) = m_trace_enabled (s :: strata_flash)"
  "m_pending (ensure_storage s) = m_pending (s :: strata_flash)" "m_mode (ensure_storage s) = m_mode (s :: strata_flash)"
  "m_dmi_granted (ensure_storage s) = m_dmi_granted (s :: strata_flash)" "invalidations (ensure_storage s) = invalidations (s :: strata_flash)"
  "flash_socket_bound (ensure_storage s) = flash_socket_bound (s :: strata_flash)"
  by (simp_all add: ensure_storage_def initialize_sector_erased_map_def)

lemma storage_config [simp]: "config (ensure_storage s) = config s"
  by (simp add: ensure_storage_def initialize_sector_erased_map_def config_def flash_config.truncate_def)

lemma storage_data: "m_data (ensure_storage s) = (if m_data s \<noteq> [] then m_data s else replicate (unat (fp_size s)) 0xff)"
  by (simp add: ensure_storage_def initialize_sector_erased_map_def)

lemma storage_id: "m_data s \<noteq> [] \<Longrightarrow> ensure_storage s = s"
  by (simp add: ensure_storage_def)

lemma initialize_sound: "list_all (\<lambda>v. v = 0xff) (m_data s) \<Longrightarrow> sectors_sound (initialize_sector_erased_map s)"
  by (simp add: sectors_sound_def initialize_sector_erased_map_def list_all_length)

lemma initialize_consistent: "map_consistent (initialize_sector_erased_map s)"
  by (simp add: map_consistent_def initialize_sector_erased_map_def)

lemma storage_ok [simp]: "flash_ok s \<Longrightarrow> flash_ok (ensure_storage s)"
proof -
  let ?t = "s\<lparr>m_data := replicate (unat (fp_size s)) 0xff\<rparr>"
  have "sectors_sound (initialize_sector_erased_map ?t)" by (intro initialize_sound) (simp add: list_all_iff)
  moreover have "map_consistent (initialize_sector_erased_map ?t)" by (rule initialize_consistent)
  ultimately show "flash_ok s \<Longrightarrow> flash_ok (ensure_storage s)"
    by (auto simp: flash_ok_def buffer_ok_def ensure_storage_def initialize_sector_erased_map_def)
qed

text \<open>The configuration of two states is the same when the accesses' switches are.\<close>

lemma config_sel:
  assumes "config s = config t"
  shows "fp_size s = fp_size t" "m_stats_collecting s = m_stats_collecting t" "m_trace_enabled s = m_trace_enabled t"
    "m_enable_dmi_value s = m_enable_dmi_value t" "m_sector_size_value s = m_sector_size_value t"
    "m_program_ff_sets_bits_value s = m_program_ff_sets_bits_value t"
    "m_program_ff_erases_sector_value s = m_program_ff_erases_sector_value t"
    "m_backing_file_value s = m_backing_file_value t" "fp_dmi_ranges s = fp_dmi_ranges t"
  using assms by (simp_all add: config_def flash_config.truncate_def)

subsection \<open>The fast path of the bus transport is the full path\<close>

text \<open>The full path of an access that passed the checks.\<close>

lemma flash_access_full:
  fixes t :: payload
  defines "o' \<equiv> unat (p_address t)" and "n \<equiv> unat (p_len t)" and "u \<equiv> t\<lparr>p_dmi_allowed := False\<rparr>"
  shows "flash_access True t s =
     (case p_data t of
        None \<Rightarrow> Some (False, t\<lparr>p_response := TLM_ADDRESS_ERROR_RESPONSE\<rparr>, s)
      | Some buf \<Rightarrow>
          if p_len t = 0 then Some (False, t\<lparr>p_response := TLM_ADDRESS_ERROR_RESPONSE\<rparr>, s)
          else if \<not> o' + n \<le> length (m_data (ensure_storage s))
          then Some (False, t\<lparr>p_response := TLM_ADDRESS_ERROR_RESPONSE\<rparr>, ensure_storage s)
          else if length buf < n then None
          else if p_command t = TLM_READ_COMMAND then
            (case dmi_hint u (count_stat St_read_bytes (of_nat n) (count1 St_read_accesses (ensure_storage s))) of
               (hint, s') \<Rightarrow> Some (True, u\<lparr>p_data := Some (flash_read o' n (count_stat St_read_bytes (of_nat n)
                   (count1 St_read_accesses (ensure_storage s))) @ drop n buf),
                   p_dmi_allowed := hint, p_response := TLM_OK_RESPONSE\<rparr>, finish_access s'))
          else if p_command t = TLM_WRITE_COMMAND then
            map_option (\<lambda>s'. (True, u\<lparr>p_response := TLM_OK_RESPONSE\<rparr>, finish_access s'))
              (flash_write o' (take n buf) (count_stat St_write_bytes (of_nat n) (count1 St_write_accesses (ensure_storage s))))
          else Some (False, u\<lparr>p_response := TLM_COMMAND_ERROR_RESPONSE\<rparr>, ensure_storage s))"
proof -
  have le: "(unat a \<le> k \<and> b \<le> k - unat a) = (unat a + b \<le> k)" for a :: u64 and b k :: nat by linarith
  have bind: "(do { x \<leftarrow> m; Some (f x) }) = map_option f m" for m :: "'m option" and f :: "'m \<Rightarrow> 'n" by (cases m) auto
  show ?thesis
    unfolding o'_def n_def u_def
    by (simp add: flash_access_def flash_in_range_def le bind Let_def split: option.split tlm_command.split prod.split)
qed


lemma erase_shell: "erase_sector off s = Some s' \<Longrightarrow> shell s' = shell s"
proof -
  have "sector_is_erased k t = (b, u) \<Longrightarrow> shell u = shell t" for k b and t u :: strata_flash
    using shell_map(5)[of k t] by simp
  note this[dest!]
  show "erase_sector off s = Some s' \<Longrightarrow> shell s' = shell s"
    by (auto simp: erase_sector_def Let_def split: if_splits prod.splits)
qed

lemma program_one_shell [simp]: "shell (program_one off b s) = shell s"
  by (simp add: program_one_def Let_def)

lemma program_many_shell [simp]: "shell (program_many off bs s) = shell s"
  by (simp add: program_many_def Let_def split: prod.split)

lemma program_shell: "program off bs s = Some s' \<Longrightarrow> shell s' = shell s"
  by (auto simp: program_def dest: erase_shell split: if_splits)

lemma erase_config: "erase_sector off s = Some s' \<Longrightarrow> config s' = config s"
  by (rule config_shell) (rule erase_shell)

lemma program_config: "program off bs s = Some s' \<Longrightarrow> config s' = config s"
  by (rule config_shell) (rule program_shell)

lemma handle_config: "handle_command off c s = Some s' \<Longrightarrow> config s' = config s"
  by (auto simp: handle_command_def Let_def dest!: erase_config split: pending_command.splits if_splits)

lemma confirm_config: "confirm_write_buffer s = Some s' \<Longrightarrow> config s' = config s"
  by (auto simp: confirm_write_buffer_def Let_def dest!: program_config split: if_splits bind_splits)

lemma write_config: "flash_write off bs s = Some s' \<Longrightarrow> config s' = config s"
  by (auto simp: flash_write_def dest!: program_config handle_config confirm_config split: if_splits)

text \<open>
  The transport with statistics, tracing and direct access switched off takes a path of its own; whatever the
  state and the payload, the access has the same result as the full path.
\<close>

theorem flash_fast_path: "flash_access False t s = flash_access True t s"
proof (cases "m_stats_collecting s \<or> m_trace_enabled s \<or> m_enable_dmi_value s")
  case True
  then have "(\<not> False \<and> \<not> m_stats_collecting s \<and> \<not> m_trace_enabled s \<and> \<not> m_enable_dmi_value s) = False" by blast
  then show ?thesis unfolding flash_access_def by (simp only: if_False not_True_eq_False simp_thms)
next
  case False
  then have off: "\<not> m_stats_collecting (ensure_storage s)" "\<not> m_trace_enabled (ensure_storage s)" "\<not> m_enable_dmi_value (ensure_storage s)"
    by simp_all
  have no_count: "count_stat c n (ensure_storage s) = ensure_storage s" for c n using off by (simp add: count_stat_def)
  have no_hint: "dmi_hint u (ensure_storage s) = (False, ensure_storage s)" for u using off by (simp add: dmi_hint_def)
  have fin: "finish_access (ensure_storage s) = ensure_storage s" using off by (simp add: finish_off)
  have fin_w: "finish_access s' = s'" if "flash_write o' bs (ensure_storage s) = Some s'" for o' bs s'
    using config_sel[OF write_config[OF that]] off by (simp add: finish_off)
  have le: "(unat a \<le> k \<and> b \<le> k - unat a) = (unat a + b \<le> k)" for a :: u64 and b k :: nat by linarith
  have "flash_access False t s = fast_access t s" using False by (simp add: flash_access_def)
  also have "\<dots> = flash_access True t s"
    unfolding flash_access_full
    by (auto simp: fast_access_def flash_in_range_def le no_count no_hint fin fin_w Let_def
        split: option.split tlm_command.split prod.split bind_split)
  finally show ?thesis .
qed

subsection \<open>Every access keeps the state well formed\<close>

text \<open>The parts of an access that only count, trace or look up ranges.\<close>

lemma finish_sel [simp]:
  "flash_ok (finish_access s) = flash_ok s" "config (finish_access s) = config s" "m_data (finish_access s) = m_data s"
  "m_mode (finish_access s) = m_mode s" "m_pending (finish_access s) = m_pending s"
  "m_dmi_granted (finish_access s) = m_dmi_granted s" "invalidations (finish_access s) = invalidations s"
  "flash_socket_bound (finish_access s) = flash_socket_bound s" "m_status (finish_access s) = m_status s"
proof -
  have tr: "flash_ok (flash_trace_access s) = flash_ok s" "config (flash_trace_access s) = config s"
    "m_data (flash_trace_access s) = m_data s" "m_mode (flash_trace_access s) = m_mode s"
    "m_pending (flash_trace_access s) = m_pending s" "m_dmi_granted (flash_trace_access s) = m_dmi_granted s"
    "invalidations (flash_trace_access s) = invalidations s" "m_status (flash_trace_access s) = m_status s"
    "flash_socket_bound (flash_trace_access s) = flash_socket_bound s"
    by (simp_all add: flash_trace_access_def config_def flash_config.truncate_def)
  have "config (maybe_write_stats t) = config t" for t by (rule config_fore) simp
  then show "flash_ok (finish_access s) = flash_ok s" "config (finish_access s) = config s" "m_data (finish_access s) = m_data s"
    "m_mode (finish_access s) = m_mode s" "m_pending (finish_access s) = m_pending s"
    "m_dmi_granted (finish_access s) = m_dmi_granted s" "invalidations (finish_access s) = invalidations s"
    "flash_socket_bound (finish_access s) = flash_socket_bound s" "m_status (finish_access s) = m_status s"
    by (simp_all add: finish_access_def Let_def tr)
qed

text \<open>\<open>ranges_only s t\<close>: from \<open>s\<close> to \<open>t\<close> only the parsed ranges, the storage allocated on demand and counters change.\<close>

definition ranges_only :: "strata_flash \<Rightarrow> strata_flash \<Rightarrow> bool" where
  "ranges_only s t \<longleftrightarrow> fore (t\<lparr>m_open_dmi_ranges := [], m_dmi_ranges := [], m_dmi_ranges_valid := True\<rparr>) =
     fore (s\<lparr>m_open_dmi_ranges := [], m_dmi_ranges := [], m_dmi_ranges_valid := True\<rparr>)"

lemma ranges_refl [simp]: "ranges_only s s"
  by (simp add: ranges_only_def)

lemma ranges_fore: "fore t = fore s \<Longrightarrow> ranges_only s t"
  unfolding ranges_only_def fore_def by (cases s; cases t) simp

lemma flash_ok_open [simp]: "flash_ok (s\<lparr>m_open_dmi_ranges := o'\<rparr>) = flash_ok s"
  by (simp add: flash_ok_def buffer_ok_def sectors_sound_def map_consistent_def sector_count_def Let_def)

lemma ranges_only_sel:
  assumes "ranges_only s t"
  shows "flash_ok t = flash_ok s" "config t = config s" "m_data t = m_data s" "m_mode t = m_mode s" "m_pending t = m_pending s"
    "m_dmi_granted t = m_dmi_granted s" "invalidations t = invalidations s" "flash_socket_bound t = flash_socket_bound s"
    "m_status t = m_status s" "can_map t = can_map s"
proof -
  note f = assms[unfolded ranges_only_def]
  have cfg: "config (u\<lparr>m_open_dmi_ranges := [], m_dmi_ranges := [], m_dmi_ranges_valid := True\<rparr>) = config u" for u
    by (simp add: config_def flash_config.truncate_def)
  show "flash_ok t = flash_ok s" using flash_ok_fore[OF f] by simp
  show "config t = config s" using config_fore[OF f] by (simp only: cfg)
  show "m_data t = m_data s" "m_mode t = m_mode s" "m_pending t = m_pending s"
    "m_dmi_granted t = m_dmi_granted s" "invalidations t = invalidations s" "flash_socket_bound t = flash_socket_bound s"
    "m_status t = m_status s" "can_map t = can_map s"
    using fore_sel[OF f] by simp_all
qed

lemma ranges_only_update:
  "ranges_only s t \<Longrightarrow> ranges_only s (t\<lparr>m_dmi_ranges := r\<rparr>)" "ranges_only s t \<Longrightarrow> ranges_only s (t\<lparr>m_dmi_ranges_valid := v\<rparr>)"
  "ranges_only s t \<Longrightarrow> ranges_only s (t\<lparr>m_open_dmi_ranges := o'\<rparr>)"
  by (simp_all add: ranges_only_def fore_def)

lemma ranges_only_count: "ranges_only s t \<Longrightarrow> ranges_only s (count_stat c n t)"
proof -
  have "fore ((count_stat c n t)\<lparr>m_open_dmi_ranges := [], m_dmi_ranges := [], m_dmi_ranges_valid := True\<rparr>) =
      fore (t\<lparr>m_open_dmi_ranges := [], m_dmi_ranges := [], m_dmi_ranges_valid := True\<rparr>)"
    by (simp add: count_stat_def fore_def)
  then show "ranges_only s t \<Longrightarrow> ranges_only s (count_stat c n t)" by (simp add: ranges_only_def)
qed

lemma refresh_ranges: "m_data s \<noteq> [] \<Longrightarrow> ranges_only s (refresh_dmi_ranges s)"
  unfolding refresh_dmi_ranges_def Let_def
  by (auto simp: storage_id intro!: ranges_only_update split: option.split)

lemma find_ranges:
  assumes "find_dmi_range a n s = (r, t)" and "m_data s \<noteq> []" shows "ranges_only s t"
  using assms refresh_ranges[OF assms(2)] by (auto simp: find_dmi_range_def storage_id Let_def split: if_splits)

lemma hint_ranges: "dmi_hint p s = (h, t) \<Longrightarrow> m_data s \<noteq> [] \<Longrightarrow> ranges_only s t"
  by (auto simp: dmi_hint_def ranges_only_count dest: find_ranges split: if_splits prod.splits)

lemma access_ok:
  assumes "flash_ok s" and "m_sector_size_value s \<noteq> 0" and "wf_payload t"
  shows "\<exists>ok t' s'. flash_access debug t s = Some (ok, t', s') \<and> flash_ok s' \<and> config s' = config s \<and>
    (m_data s \<noteq> [] \<longrightarrow> length (m_data s') = length (m_data s)) \<and> wf_payload t'"
proof -
  let ?n = "unat (p_len t)" and ?o = "unat (p_address t)" and ?s = "ensure_storage s"
  have true: "flash_access debug t s = flash_access True t s" by (cases debug) (simp_all add: flash_fast_path)
  have base: "flash_ok ?s" "config ?s = config s" "m_sector_size_value ?s \<noteq> 0" "m_data s \<noteq> [] \<Longrightarrow> m_data ?s = m_data s"
    using assms(1,2) by (simp_all add: storage_data)
  let ?c = "\<lambda>b c. count_stat b (of_nat ?n) (count1 c ?s)"
  have cfg: "config (count_stat b k u) = config u" for b k u by (rule config_fore) simp
  have n0: "?n \<noteq> 0" if "p_len t \<noteq> 0" using that by (simp add: unat_eq_zero)
  show ?thesis
  proof (cases "p_data t = None \<or> p_len t = 0 \<or> \<not> ?o + ?n \<le> length (m_data ?s)")
    case True
    then show ?thesis unfolding true flash_access_full using assms base by (auto split: option.split simp: wf_payload_def)
  next
    case False
    then obtain buf where buf: "p_data t = Some buf" "?n \<le> length buf" "p_len t \<noteq> 0" "?o + ?n \<le> length (m_data ?s)"
      using assms(3) by (auto simp: wf_payload_def)
    have ne: "m_data ?s \<noteq> []" using buf(4) n0[OF buf(3)] by auto
    consider (r) "p_command t = TLM_READ_COMMAND" | (w) "p_command t = TLM_WRITE_COMMAND" | (i) "p_command t = TLM_IGNORE_COMMAND"
      by (cases "p_command t") auto
    then show ?thesis
    proof cases
      case r
      obtain h u where hu: "dmi_hint (t\<lparr>p_dmi_allowed := False\<rparr>) (?c St_read_bytes St_read_accesses) = (h, u)" by fastforce
      have "ranges_only (?c St_read_bytes St_read_accesses) u" using hint_ranges[OF hu] ne by simp
      note u = ranges_only_sel[OF this]
      have len: "length (flash_read ?o ?n (?c St_read_bytes St_read_accesses)) = ?n"
        using buf(4) by (simp add: flash_read_def)
      show ?thesis unfolding true flash_access_full
        using r buf hu u base len by (auto simp: cfg wf_payload_def)
    next
      case w
      have "take ?n buf \<noteq> []" using buf(2) n0[OF buf(3)] by auto
      then obtain s' where "flash_write ?o (take ?n buf) (?c St_write_bytes St_write_accesses) = Some s'" "flash_ok s'"
        "config s' = config ?s" "length (m_data s') = length (m_data ?s)"
        using flash_write_ok[of "?c St_write_bytes St_write_accesses" ?o "take ?n buf"] base buf n0 by (auto simp: cfg)
      then show ?thesis unfolding true flash_access_full using w buf base by (auto simp: wf_payload_def)
    next
      case i
      then show ?thesis unfolding true flash_access_full using buf base by (auto simp: wf_payload_def)
    qed
  qed
qed

subsection \<open>Operations of the module\<close>

datatype flash_op =
    Op_transport payload
  | Op_debug payload
  | Op_dmi payload
  | Op_load "u8 list" u64
  | Op_param flash_param

fun flash_step :: "flash_op \<Rightarrow> strata_flash \<Rightarrow> strata_flash ub" where
  "flash_step (Op_transport t) s = map_option snd (flash_b_transport t s)"
| "flash_step (Op_debug t) s = map_option (\<lambda>(_, _, s'). s') (flash_transport_dbg t s)"
| "flash_step (Op_dmi t) s = Some (snd (flash_get_direct_mem_ptr t s))"
| "flash_step (Op_load bs off) s = Some (load_image bs off s)"
| "flash_step (Op_param p) s = Some (write_param p s)"

primrec flash_run :: "flash_op list \<Rightarrow> strata_flash \<Rightarrow> strata_flash ub" where
  "flash_run [] s = Some s"
| "flash_run (x # xs) s = do { s \<leftarrow> flash_step x s; flash_run xs s }"

text \<open>What a well-behaved environment calls: payloads with room for their length, sector sizes that are not 0.\<close>

fun op_ok :: "flash_op \<Rightarrow> bool" where
  "op_ok (Op_transport t) = wf_payload t"
| "op_ok (Op_debug t) = wf_payload t"
| "op_ok (Op_param (P_sector_size n)) = (n \<noteq> 0)"
| "op_ok _ = True"

lemma construct_ok: "flash_ok (flash_construct c f g b)"
  by (simp add: flash_construct_def flash_ok_def buffer_ok_def sectors_sound_def)



lemma config_count [simp]: "config (count_stat c n s) = config s"
  by (rule config_fore) simp

text \<open>\<open>same_array s t\<close>: the array is kept, once it exists, and the configuration too.\<close>

definition same_array :: "strata_flash \<Rightarrow> strata_flash \<Rightarrow> bool" where
  "same_array s t \<longleftrightarrow> (flash_ok s \<longrightarrow> flash_ok t) \<and> config t = config s \<and> (m_data s \<noteq> [] \<longrightarrow> m_data t = m_data s)"

lemma same_trans: "same_array s t \<Longrightarrow> same_array t u \<Longrightarrow> same_array s u"
  by (auto simp: same_array_def)

lemma same_fore: "fore t = fore s \<Longrightarrow> same_array s t"
  using fore_sel(1)[of t s] config_fore[of t s] flash_ok_fore[of t s] by (simp add: same_array_def)

lemma same_ranges: "ranges_only s t \<Longrightarrow> same_array s t"
  by (simp add: same_array_def ranges_only_sel)

lemma same_storage: "same_array s (ensure_storage s)"
  by (simp add: same_array_def storage_data)

lemma same_find: "find_dmi_range a n s = (r, t) \<Longrightarrow> same_array s t"
proof -
  assume f: "find_dmi_range a n s = (r, t)"
  show "same_array s t"
  proof (cases "m_data s = []")
    case False then show ?thesis using find_ranges[OF f] same_ranges by blast
  next
    case True
    have "t = ensure_storage s \<or> t = refresh_dmi_ranges (ensure_storage s) \<and> m_data (ensure_storage s) \<noteq> []"
      using f by (auto simp: find_dmi_range_def Let_def split: if_splits)
    then show ?thesis
      using refresh_ranges[of "ensure_storage s"] same_ranges same_storage same_trans by metis
  qed
qed

lemma same_reject: "same_array s (snd (reject_dmi c s))"
  by (rule same_fore) (simp add: reject_dmi_def Let_def)

lemma same_granted: "same_array s (s\<lparr>m_dmi_granted := b\<rparr>)"
  by (simp add: same_array_def config_def flash_config.truncate_def)

lemma grant_state: "\<exists>u. snd (grant_dmi rng s) = u\<lparr>m_dmi_granted := True\<rparr> \<and> fore u = fore s"
proof -
  define s1 where "s1 = flush_deferred_backing s"
  define s2 where "s2 = (if m_backing_file_value s1 \<noteq> [] then snd (ensure_backing_file s1) else s1)"
  define s3 where "s3 = count1 St_dmi_grants s2"
  define s4 where "s4 = (if m_stats_collecting s3 then maybe_write_dmi_stats (m_stats s3 St_dmi_grants = 1) s3 else s3)"
  have "snd (grant_dmi rng s) = s4\<lparr>m_dmi_granted := True\<rparr>"
    unfolding grant_dmi_def Let_def s4_def s3_def s2_def s1_def by (auto simp: split_beta)
  moreover have "fore s4 = fore s" by (simp add: s4_def s3_def s2_def s1_def)
  ultimately show ?thesis by blast
qed

lemma same_dmi: "same_array s (snd (flash_get_direct_mem_ptr t s))"
proof -
  define s1 where "s1 = count1 St_dmi_requests (ensure_storage s)"
  obtain rng u where f: "find_dmi_range (p_address t) (p_len t) s1 = (rng, u)" by fastforce
  have s1: "same_array s s1" unfolding s1_def by (rule same_trans[OF same_storage same_fore[OF fore_ops(1)]])
  have u: "same_array s u" using same_trans[OF s1 same_find[OF f]] .
  have r: "same_array s (snd (reject_dmi c s1))" "same_array s (snd (reject_dmi c u))" for c
    using same_trans[OF s1 same_reject] same_trans[OF u same_reject] by simp_all
  have g: "same_array s (snd (grant_dmi rng u))" for rng
    using grant_state[of rng u] same_trans[OF u same_trans[OF same_fore same_granted]] by metis
  show ?thesis
    unfolding flash_get_direct_mem_ptr_def Let_def s1_def[symmetric] f using r g by (simp split: option.split)
qed

lemma refresh_ok:
  assumes "flash_ok t" and "o' + length bs \<le> length (m_data t)" and "bs \<noteq> []" and nz: "m_sector_size_value t \<noteq> 0"
  shows "flash_ok (refresh_sector_erased_range o' (length bs) (t\<lparr>m_data := overwrite o' bs (m_data t)\<rparr>))"
proof -
  define v where "v = t\<lparr>m_data := overwrite o' bs (m_data t)\<rparr>"
  have len: "length (m_data v) = length (m_data t)" "o' + length bs \<le> length (m_data t)" "m_data v \<noteq> []"
    using assms by (auto simp: v_def overwrite_def)
  have same: "m_sector_size_value v = m_sector_size_value t" by (simp add: v_def)
  have nzv: "m_sector_size_value v \<noteq> 0" using nz same by simp
  have buf: "buffer_ok v" "m_status v = STATUS_READY" using assms(1) len(1) by (simp_all add: v_def flash_ok_def buffer_ok_def)
  let ?ss = "unat (m_sector_size_value v)"
  define w where "w = ensure_sector_erased_map v"
  define first where "first = o' div ?ss"
  define lst where "lst = (o' + length bs - 1) div ?ss"
  have ss: "0 < ?ss" using nzv by (simp add: unat_gt_0)
  have w: "refresh_sector_erased_range o' (length bs) v = w\<lparr>m_sector_erased :=
      map (\<lambda>i. if first \<le> i \<and> i \<le> lst then sector_all_ff w i else m_sector_erased w ! i) [0..<length (m_sector_erased w)]\<rparr>"
    using assms(3) ss len(3) by (simp add: refresh_sector_erased_range_def w_def first_def lst_def Let_def)
  define w' where "w' = w\<lparr>m_sector_erased :=
      map (\<lambda>i. if first \<le> i \<and> i \<le> lst then sector_all_ff w i else m_sector_erased w ! i) [0..<length (m_sector_erased w)]\<rparr>"
  have sel: "m_data w' = m_data v" "m_sector_size_value w' = m_sector_size_value v"
    "m_sector_erased_map_size w' = m_sector_erased_map_size w" "length (m_sector_erased w') = length (m_sector_erased w)"
    by (simp_all add: w'_def w_def)
  have bit: "m_sector_erased w' ! i \<longleftrightarrow> (if first \<le> i \<and> i \<le> lst then sector_all_ff w i else m_sector_erased w ! i)"
    if "i < length (m_sector_erased w)" for i
    using that by (simp add: w'_def)
  have all_ff: "sector_all_ff w i \<longleftrightarrow> (\<forall>pos < length (m_data v). pos div ?ss = i \<longrightarrow> m_data v ! pos = 0xff)" for i
    using sector_all_ff_iff[of w i] nzv by (simp add: w_def)
  have span: "first \<le> pos div ?ss \<and> pos div ?ss \<le> lst" if "o' \<le> pos" "pos < o' + length bs" for pos
    using that by (auto simp: first_def lst_def intro!: div_le_mono)
  have "sectors_sound w'"
  proof (rule sound_after_change[of t v w'])
    fix pos
    assume pos: "pos < length (m_data v)" "m_data v ! pos \<noteq> m_data t ! pos" "m_data v ! pos \<noteq> 0xff"
      "pos div unat (m_sector_size_value t) < length (m_sector_erased w')"
    have "o' \<le> pos \<and> pos < o' + length bs"
      using pos(1,2) len nth_overwrite[OF len(2), of pos] by (auto simp: v_def split: if_splits)
    then show "\<not> m_sector_erased w' ! (pos div unat (m_sector_size_value t))"
      using span[of pos] pos bit[of "pos div ?ss"] all_ff[of "pos div ?ss"] sel(4) unfolding same[symmetric] by auto
  next
    fix i
    assume "i < length (m_sector_erased w')" "m_sector_erased w' ! i"
    then show "m_sector_erased (ensure_sector_erased_map v) ! i \<or>
        (\<forall>pos < length (m_data v). pos div unat (m_sector_size_value t) = i \<longrightarrow> m_data v ! pos = 0xff)"
      using bit[of i] all_ff[of i] sel(4) by (auto simp: w_def v_def split: if_splits)
  qed (use assms(1) len sel in \<open>simp_all add: flash_ok_def v_def w_def\<close>)
  moreover have "map_consistent w" using nzv
    by (auto simp: w_def ensure_sector_erased_map_def rebuild_sector_erased_map_def map_consistent_def)
  then have "map_consistent w'" using sel map_consistent_cong[of w' w] by (simp add: w_def)
  moreover have "buffer_ok w'" "m_status w' = STATUS_READY"
    using buf by (simp_all add: w'_def w_def ensure_sector_erased_map_def rebuild_sector_erased_map_def buffer_ok_def)
  ultimately show ?thesis unfolding v_def[symmetric] w w'_def[symmetric] by (simp add: flash_ok_def)
qed

lemma load_ok: "flash_ok s \<Longrightarrow> flash_ok (load_image bs off s)"
proof -
  assume ok: "flash_ok s"
  let ?t = "ensure_storage s"
  define o' where "o' = unat off"
  have t: "flash_ok ?t" using ok by simp
  show "flash_ok (load_image bs off s)"
  proof (cases "bs = [] \<or> o' > length (m_data ?t) \<or> length bs > length (m_data ?t) - o'")
    case True
    show ?thesis
    proof (cases "bs = []")
      case nil: True
      have "?t\<lparr>m_data := overwrite o' bs (m_data ?t)\<rparr> = ?t" using nil by simp
      then have "load_image bs off s = ?t"
        using nil by (auto simp: load_image_def refresh_sector_erased_range_def o'_def Let_def)
      then show ?thesis using t by simp
    next
      case False
      then have "load_image bs off s = ?t" using True by (auto simp: load_image_def o'_def Let_def)
      then show ?thesis using t by simp
    qed
  next
    case False
    define v where "v = ?t\<lparr>m_data := overwrite o' bs (m_data ?t)\<rparr>"
    have len: "length (m_data v) = length (m_data ?t)" "o' + length bs \<le> length (m_data ?t)" "m_data v \<noteq> []"
      using False by (auto simp: v_def overwrite_def)
    have eq: "load_image bs off s = refresh_sector_erased_range o' (length bs) v"
      using False by (auto simp: load_image_def v_def o'_def Let_def)
    have buf: "buffer_ok v" "m_status v = STATUS_READY" using t len(1) by (simp_all add: v_def flash_ok_def buffer_ok_def)
    show ?thesis
    proof (cases "m_sector_size_value v = 0")
      case True
      then have "refresh_sector_erased_range o' (length bs) v = v" by (simp add: refresh_sector_erased_range_def)
      moreover have "map_consistent v" using t len map_consistent_cong[of v ?t] by (auto simp: v_def flash_ok_def)
      ultimately show ?thesis using True buf by (simp add: eq flash_ok_def sound_size_0)
    next
      case nz: False
      then show ?thesis using refresh_ok[OF t len(2)] False by (simp add: eq v_def)
    qed
  qed
qed

lemma load_size: "m_sector_size_value (load_image bs off s) = m_sector_size_value s"
proof -
  have "m_sector_size_value (refresh_sector_erased_range o' n t) = m_sector_size_value t" for o' n and t :: strata_flash
    by (simp add: refresh_sector_erased_range_def Let_def)
  then show ?thesis by (simp add: load_image_def Let_def)
qed

lemma rebuild_ok: "flash_ok s \<Longrightarrow> flash_ok (rebuild_sector_erased_map (s\<lparr>m_sector_size_value := n\<rparr>))"
  using rebuild_sound[of "s\<lparr>m_sector_size_value := n\<rparr>"]
  by (auto simp: flash_ok_def buffer_ok_def map_consistent_def rebuild_sector_erased_map_def)

lemma flash_ok_config [simp]:
  "flash_ok (s\<lparr>m_trace_enabled := b\<rparr>) = flash_ok s" "flash_ok (s\<lparr>m_trace_limit_value := k\<rparr>) = flash_ok s"
  "flash_ok (s\<lparr>m_enable_dmi_value := b\<rparr>) = flash_ok s" "flash_ok (s\<lparr>m_program_ff_sets_bits_value := b\<rparr>) = flash_ok s"
  "flash_ok (s\<lparr>m_program_ff_erases_sector_value := b\<rparr>) = flash_ok s" "flash_ok (s\<lparr>m_defer_backing_write_value := b\<rparr>) = flash_ok s"
  "flash_ok (s\<lparr>m_defer_backing_flush_interval_value := k\<rparr>) = flash_ok s" "flash_ok (s\<lparr>fp_dmi_ranges := t\<rparr>) = flash_ok s"
  "flash_ok (s\<lparr>m_backing_file_value := t\<rparr>) = flash_ok s" "flash_ok (s\<lparr>fp_stats_file := t\<rparr>) = flash_ok s"
  "flash_ok (s\<lparr>fp_stats_interval := k\<rparr>) = flash_ok s" "flash_ok (s\<lparr>m_stats_collecting := b\<rparr>) = flash_ok s"
  by (simp_all add: flash_ok_def buffer_ok_def sectors_sound_def map_consistent_def sector_count_def Let_def)

lemma param_ok: "flash_ok s \<Longrightarrow> flash_ok (write_param p s)"
  by (cases p) (simp_all add: rebuild_ok refresh_stats_collecting_def)

lemma param_size:
  "m_sector_size_value (write_param p s) = (case p of P_sector_size n \<Rightarrow> n | _ \<Rightarrow> m_sector_size_value s)"
  by (cases p) (simp_all add: rebuild_sector_erased_map_def refresh_stats_collecting_def)

lemma step_ok:
  assumes "flash_ok s" and "m_sector_size_value s \<noteq> 0" and "op_ok x"
  shows "\<exists>s'. flash_step x s = Some s' \<and> flash_ok s' \<and> m_sector_size_value s' \<noteq> 0"
proof (cases x)
  case (Op_transport t)
  then show ?thesis using access_ok[OF assms(1,2), of t False] assms(2,3)
    by (auto simp: flash_b_transport_def dest: config_sel(5))
next
  case (Op_debug t)
  then show ?thesis using access_ok[OF assms(1,2), of t True] assms(2,3)
    by (auto simp: flash_transport_dbg_def dest: config_sel(5))
next
  case (Op_dmi t)
  then show ?thesis using same_dmi[of s t] assms by (auto simp: same_array_def dest: config_sel(5))
next
  case (Op_load bs off)
  then show ?thesis using assms by (simp add: load_ok load_size)
next
  case (Op_param p)
  then show ?thesis using assms param_ok[of s p] param_size[of p s] by (auto simp del: write_param.simps split: flash_param.splits)
qed

lemma run_ok:
  assumes "flash_ok s" and "m_sector_size_value s \<noteq> 0" and "\<forall>x \<in> set xs. op_ok x"
  shows "\<exists>s'. flash_run xs s = Some s' \<and> flash_ok s' \<and> m_sector_size_value s' \<noteq> 0"
  using assms
proof (induction xs arbitrary: s)
  case Nil then show ?case by simp
next
  case (Cons x xs)
  then obtain s1 where "flash_step x s = Some s1" "flash_ok s1" "m_sector_size_value s1 \<noteq> 0"
    using step_ok[of s x] by auto
  then show ?case using Cons.IH[of s1] Cons.prems(3) by simp
qed



end
