(* ===== verification/Strata_Driver.thy ===== *)
theory Strata_Driver
  imports Strata_Props
begin

text \<open>
  A driver of the NOR flash: the command sequences it sends over the bus refine the commands of an abstract
  flash, which is its bytes.
\<close>


subsection \<open>What a driver sees\<close>

definition bus_write :: "nat \<times> u8 list \<Rightarrow> strata_flash \<Rightarrow> strata_flash ub" where
  "bus_write w s = map_option snd (flash_b_transport (write_payload (of_nat (fst w)) (snd w)) s)"

definition bus_read :: "nat \<Rightarrow> nat \<Rightarrow> strata_flash \<Rightarrow> u8 list option" where
  "bus_read off n s = (case flash_b_transport (read_payload (of_nat off) n) s of None \<Rightarrow> None | Some (t, _) \<Rightarrow> p_data t)"

primrec bus_writes :: "(nat \<times> u8 list) list \<Rightarrow> strata_flash \<Rightarrow> strata_flash ub" where
  "bus_writes [] s = Some s"
| "bus_writes (w # ws) s = do { s \<leftarrow> bus_write w s; bus_writes ws s }"

lemma bus_writes_append: "bus_writes (xs @ ys) s = do { s \<leftarrow> bus_writes xs s; bus_writes ys s }"
  by (induction xs arbitrary: s) (auto split: bind_split)

text \<open>A flash a driver can work with: well formed, allocated, a sector size, of a size the bus can address.\<close>

definition flash_live :: "strata_flash \<Rightarrow> bool" where
  "flash_live s \<longleftrightarrow> flash_ok s \<and> m_data s \<noteq> [] \<and> m_sector_size_value s \<noteq> 0 \<and> length (m_data s) < 2 ^ 64"

definition fits :: "nat \<Rightarrow> u8 list \<Rightarrow> nat \<Rightarrow> bool" where
  "fits off bs n \<longleftrightarrow> bs \<noteq> [] \<and> length bs < 2 ^ 32 \<and> off + length bs \<le> n"

lemma unat_64: "n < 2 ^ 64 \<Longrightarrow> unat (of_nat n :: u64) = n"
  by (simp add: unat_of_nat)

lemma unat_32: "n < 2 ^ 32 \<Longrightarrow> unat (of_nat n :: u32) = n"
  by (simp add: unat_of_nat)

lemma bus_write_eq:
  assumes "flash_live s" and "fits off bs (length (m_data s))"
  shows "bus_write (off, bs) s = map_option finish_access
    (flash_write off bs (count_stat St_write_bytes (of_nat (length bs)) (count1 St_write_accesses s)))"
proof -
  have off: "unat (of_nat off :: u64) = off" using assms by (intro unat_64) (simp add: flash_live_def fits_def)
  have len: "unat (of_nat (length bs) :: u32) = length bs" using assms by (intro unat_32) (simp add: fits_def)
  then have nz: "(of_nat (length bs) :: u32) \<noteq> 0" using assms(2) by (auto simp: fits_def)
  have "flash_access False (write_payload (of_nat off) bs) s = flash_access True (write_payload (of_nat off) bs) s"
    by (rule flash_fast_path)
  moreover have "flash_access True (write_payload (of_nat off) bs) s = map_option (\<lambda>s'. (True, (write_payload (of_nat off) bs)\<lparr>p_dmi_allowed := False,
      p_response := TLM_OK_RESPONSE\<rparr>, finish_access s'))
      (flash_write off bs (count_stat St_write_bytes (of_nat (length bs)) (count1 St_write_accesses s)))"
    using assms off len nz by (simp add: flash_access_full flash_live_def fits_def storage_id)
  ultimately show ?thesis
    by (cases "flash_write off bs (count_stat St_write_bytes (of_nat (length bs)) (count1 St_write_accesses s))")
      (simp_all add: bus_write_def flash_b_transport_def)
qed

text \<open>The state after a write, up to counters and tracing.\<close>

lemma live_after:
  "flash_live s \<Longrightarrow> flash_ok s' \<Longrightarrow> config s' = config s \<Longrightarrow> length (m_data s') = length (m_data s) \<Longrightarrow> flash_live s'"
  using config_sel(5)[of s' s] by (auto simp: flash_live_def)

definition pending_after :: "u8 \<Rightarrow> pending_command" where
  "pending_after c = (if c = CMD_WORD_PROGRAM then Pending_program else if c = CMD_BLOCK_ERASE then Pending_erase
     else if c = CMD_WRITE_TO_BUFFER then Pending_write_buffer_count else if c = CMD_LOCK_UNLOCK then Pending_lock else Pending_none)"

lemma write_command:
  assumes "flash_live s" and "fits off bs (length (m_data s))" and "m_pending s = Pending_none"
  shows "\<exists>s'. bus_write (off, bs) s = Some s' \<and> flash_live s' \<and> config s' = config s \<and> m_data s' = m_data s \<and>
    m_pending s' = pending_after (bs ! 0) \<and> (bs ! 0 = CMD_READ_ARRAY \<longrightarrow> m_mode s' = Mode_read_array)"
proof -
  define s1 where "s1 = record_command (bs ! 0) (invalidate_dmi (count_stat St_write_bytes (of_nat (length bs)) (count1 St_write_accesses s)))"
  have s1: "flash_ok s1" "config s1 = config s" "m_data s1 = m_data s" "m_pending s1 = Pending_none"
    using assms by (simp_all add: s1_def flash_live_def)
  have "bus_write (off, bs) s = Some (finish_access (start_command (bs ! 0) s1))"
    using assms s1(4) by (simp add: bus_write_eq flash_write_def handle_command_def s1_def Let_def)
  moreover have "m_pending (start_command (bs ! 0) s1) = pending_after (bs ! 0)" "bs ! 0 = CMD_READ_ARRAY \<Longrightarrow> m_mode (start_command (bs ! 0) s1) = Mode_read_array"
    using s1(4) by (simp_all add: start_command_def pending_after_def)
  ultimately show ?thesis
    using live_after[OF assms(1), of "finish_access (start_command (bs ! 0) s1)"] s1 start_command_ok[OF s1(1), of "bs ! 0"] by auto
qed

text \<open>What a program operation does to the array, the compatibility erase included.\<close>

definition nor_write :: "flash_config \<Rightarrow> nat \<Rightarrow> u8 list \<Rightarrow> u8 list \<Rightarrow> u8 list" where
  "nor_write c off bs d =
     (if m_program_ff_erases_sector_value c \<and> length bs = 1 \<and> bs ! 0 = 0xff \<and> m_sector_size_value c \<noteq> 0 \<and>
         off mod unat (m_sector_size_value c) = 0
      then nor_erase (unat (m_sector_size_value c)) off d
      else nor_program (m_program_ff_sets_bits_value c) off bs d)"

lemma config_values:
  "m_program_ff_erases_sector_value (config s) = m_program_ff_erases_sector_value s"
  "m_sector_size_value (config s) = m_sector_size_value s"
  "m_program_ff_sets_bits_value (config s) = m_program_ff_sets_bits_value s"
  by (simp_all add: config_def flash_config.truncate_def)

lemma program_nor:
  assumes "flash_ok s" and "m_sector_size_value s \<noteq> 0" and "off + length bs \<le> length (m_data s)" and "bs \<noteq> []"
  shows "\<exists>s'. program off bs s = Some s' \<and> flash_ok s' \<and> config s' = config s \<and> idle_status s' \<and>
    m_data s' = nor_write (config s) off bs (m_data s)"
proof -
  obtain s' where s': "program off bs s = Some s'" "flash_ok s'" "shell s' = shell s" "idle_status s'"
    "m_data s' = (if is_sector_aligned_program_ff_erase off bs s then nor_erase (unat (m_sector_size_value s)) off (m_data s)
      else nor_program (m_program_ff_sets_bits_value s) off bs (m_data s))"
    using program_ok[OF assms] by blast
  then have "m_data s' = nor_write (config s) off bs (m_data s)"
    by (simp add: nor_write_def config_values is_sector_aligned_program_ff_erase_def)
  then show ?thesis using s' config_shell[OF s'(3)] by blast
qed

lemma write_program:
  assumes "flash_live s" and "fits off bs (length (m_data s))" and "m_pending s = Pending_program"
  shows "\<exists>s'. bus_write (off, bs) s = Some s' \<and> flash_live s' \<and> config s' = config s \<and> m_pending s' = Pending_none \<and>
    m_data s' = nor_write (config s) off bs (m_data s)"
proof -
  define s1 where "s1 = count_stat St_write_bytes (of_nat (length bs)) (count1 St_write_accesses s)"
  have s1: "flash_ok s1" "config s1 = config s" "m_data s1 = m_data s" "m_pending s1 = Pending_program" "m_sector_size_value s1 \<noteq> 0"
    using assms by (simp_all add: s1_def flash_live_def)
  obtain s' where s': "program off bs s1 = Some s'" "flash_ok s'" "config s' = config s1" "idle_status s'"
    "m_data s' = nor_write (config s1) off bs (m_data s1)"
    using program_nor[OF s1(1,5), of off bs] assms(2) s1(3) by (auto simp: fits_def)
  have "bus_write (off, bs) s = Some (finish_access s')"
    using assms s1(4) s'(1) by (simp add: bus_write_eq flash_write_def s1_def)
  moreover have "length (m_data s') = length (m_data s)" using s'(5) s1(3) by (simp add: nor_write_def)
  ultimately show ?thesis
    using s' s1 live_after[OF assms(1), of "finish_access s'"] by (simp add: idle_status_def)
qed

lemma write_erase:
  assumes "flash_live s" and "off < length (m_data s)" and "m_pending s = Pending_erase"
  shows "\<exists>s'. bus_write (off, [CMD_BLOCK_ERASE_ACK]) s = Some s' \<and> flash_live s' \<and> config s' = config s \<and> m_pending s' = Pending_none \<and>
    m_data s' = nor_erase (unat (m_sector_size_value s)) off (m_data s)"
proof -
  have fit: "fits off [CMD_BLOCK_ERASE_ACK] (length (m_data s))" using assms(2) by (simp add: fits_def)
  define s1 where "s1 = record_command CMD_BLOCK_ERASE_ACK (invalidate_dmi (count_stat St_write_bytes 1 (count1 St_write_accesses s)))"
  have s1: "flash_ok s1" "config s1 = config s" "m_data s1 = m_data s" "m_pending s1 = Pending_erase" "m_sector_size_value s1 = m_sector_size_value s"
    using assms by (simp_all add: s1_def flash_live_def)
  obtain s' where s': "erase_sector off s1 = Some s'" "flash_ok s'" "shell s' = shell s1" "idle_status s'"
    "m_data s' = nor_erase (unat (m_sector_size_value s)) off (m_data s)"
    using erase_ok[OF s1(1), of off] assms(1,2) s1 by (auto simp: flash_live_def)
  have "bus_write (off, [CMD_BLOCK_ERASE_ACK]) s = Some (finish_access s')"
    using assms s1(4) s'(1) by (simp add: bus_write_eq[OF assms(1) fit] flash_write_def handle_command_def s1_def Let_def)
  moreover have "config s' = config s" using config_shell[OF s'(3)] s1(2) by simp
  moreover have "length (m_data s') = length (m_data s)" using s'(5) by simp
  ultimately show ?thesis
    using s' live_after[OF assms(1), of "finish_access s'"] by (simp add: idle_status_def)
qed


subsection \<open>The write buffer, as a driver fills it\<close>

definition filling :: "nat \<Rightarrow> u8 list \<Rightarrow> nat \<Rightarrow> strata_flash \<Rightarrow> bool" where
  "filling base bs k s \<longleftrightarrow> m_pending s = Pending_write_buffer_data \<and> m_write_buffer_base s = base \<and>
     m_write_buffer s = take k bs @ replicate (length bs - k) 0xff \<and>
     m_write_buffer_written s = replicate k True @ replicate (length bs - k) False"

lemma filling_finish [simp]: "filling base bs k (finish_access s) = filling base bs k s"
proof -
  have "m_write_buffer (finish_access s) = m_write_buffer s" "m_write_buffer_written (finish_access s) = m_write_buffer_written s"
    "m_write_buffer_base (finish_access s) = m_write_buffer_base s"
    by (simp_all add: finish_access_def flash_trace_access_def Let_def)
  then show ?thesis by (simp add: filling_def)
qed

lemma write_count:
  assumes "flash_live s" and "off + length bs \<le> length (m_data s)" and "bs \<noteq> []" and "length bs \<le> 256"
    and "m_pending s = Pending_write_buffer_count"
  shows "\<exists>s'. bus_write (off, [of_nat (length bs - 1)]) s = Some s' \<and> flash_live s' \<and> config s' = config s \<and>
    m_data s' = m_data s \<and> filling off bs 0 s'"
proof -
  let ?cnt = "[of_nat (length bs - 1) :: u8]"
  have fit: "fits off ?cnt (length (m_data s))" using assms(2,3) by (cases bs) (auto simp: fits_def)
  have "length bs - 1 < 2 ^ 8" using assms(3,4) by (cases bs) auto
  then have cnt: "count_value ?cnt = length bs" using assms(3) by (simp add: count_value_def unat_of_nat Suc_diff_Suc)
  define s1 where "s1 = count_stat St_write_bytes 1 (count1 St_write_accesses s)"
  have s1: "flash_ok s1" "config s1 = config s" "m_data s1 = m_data s" "m_pending s1 = Pending_write_buffer_count"
    using assms by (simp_all add: s1_def flash_live_def)
  have "bus_write (off, ?cnt) s = Some (finish_access (begin_write_buffer off ?cnt s1))"
    using assms s1(4) by (simp add: bus_write_eq[OF assms(1) fit, simplified] flash_write_def s1_def)
  moreover have "filling off bs 0 (begin_write_buffer off ?cnt s1)" "m_data (begin_write_buffer off ?cnt s1) = m_data s"
    using cnt assms(2,3,4) s1(3) by (auto simp: begin_write_buffer_def filling_def Let_def)
  ultimately show ?thesis
    using live_after[OF assms(1), of "finish_access (begin_write_buffer off ?cnt s1)"] s1 begin_ok[OF s1(1), of off ?cnt] by auto
qed

lemma overwrite_prefix:
  "k + length xs \<le> n \<Longrightarrow> length ys = k \<Longrightarrow> overwrite k xs (ys @ replicate (n - k) z) = (ys @ xs) @ replicate (n - (k + length xs)) z"
  by (auto simp: overwrite_def)

lemma write_chunk:
  assumes "flash_live s" and "base + length bs \<le> length (m_data s)" and "length bs \<le> 256"
    and "filling base bs k s" and "c \<noteq> []" and "k + length c \<le> length bs" and "c = take (length c) (drop k bs)"
  shows "\<exists>s'. bus_write (base + k, c) s = Some s' \<and> flash_live s' \<and> config s' = config s \<and>
    m_data s' = m_data s \<and> filling base bs (k + length c) s'"
proof -
  have kb: "k < length bs" using assms(5,6) by (cases c) auto
  have fit: "fits (base + k) c (length (m_data s))" using assms(2,3,5,6) by (auto simp: fits_def)
  define s1 where "s1 = count_stat St_write_bytes (of_nat (length c)) (count1 St_write_accesses s)"
  have s1: "flash_ok s1" "config s1 = config s" "m_data s1 = m_data s" "m_pending s1 = Pending_write_buffer_data"
    "filling base bs k s1"
    using assms(1,4) by (simp_all add: s1_def flash_live_def filling_def)
  have "False \<in> set (m_write_buffer_written s1)" using s1(5) kb by (auto simp: filling_def)
  then have "\<not> write_buffer_complete s1" by (auto simp: write_buffer_complete_def list_all_iff)
  then have "bus_write (base + k, c) s = Some (finish_access (collect_write_buffer_data (base + k) c s1))"
    using s1(4) by (simp add: bus_write_eq[OF assms(1) fit] flash_write_def s1_def)
  moreover have "filling base bs (k + length c) (collect_write_buffer_data (base + k) c s1)"
  proof -
    have buf: "m_write_buffer s1 = take k bs @ replicate (length bs - k) 0xff" "m_write_buffer_base s1 = base"
      "m_write_buffer_written s1 = replicate k True @ replicate (length bs - k) False"
      using s1(5) by (simp_all add: filling_def)
    have len: "length (m_write_buffer s1) = length bs" using kb buf(1) by simp
    have ok: "\<not> (m_write_buffer s1 = [] \<or> base + k < base \<or> base + k > base + length bs \<or> base + k - base \<ge> length bs)"
      using kb len by auto
    have "overwrite k c (m_write_buffer s1) = take k bs @ c @ replicate (length bs - (k + length c)) 0xff"
      using overwrite_prefix[OF assms(6), of "take k bs" "0xff"] kb buf(1) by simp
    moreover have "take (k + length c) bs = take k bs @ c" using assms(7) by (simp add: take_add)
    moreover have "overwrite k (replicate (length c) True) (m_write_buffer_written s1) =
        replicate (k + length c) True @ replicate (length bs - (k + length c)) False"
      using overwrite_prefix[of k "replicate (length c) True" "length bs" "replicate k True" False] assms(6) buf(3)
      by (simp add: replicate_add)
    moreover have "min (length c) (length bs - k) = length c" using assms(6) by simp
    ultimately show ?thesis
      using ok len s1(4) buf(2) by (simp add: collect_write_buffer_data_def filling_def Let_def)
  qed
  moreover have "m_data (collect_write_buffer_data (base + k) c s1) = m_data s"
    using s1(3) by (simp add: collect_write_buffer_data_def Let_def)
  ultimately show ?thesis
    using live_after[OF assms(1), of "finish_access (collect_write_buffer_data (base + k) c s1)"] s1 collect_ok[OF s1(1), of "base + k" c]
    by auto
qed

lemma write_confirm:
  assumes "flash_live s" and "base + length bs \<le> length (m_data s)" and "bs \<noteq> []" and "length bs \<le> 256"
    and "filling base bs (length bs) s"
  shows "\<exists>s'. bus_write (base, [CMD_BLOCK_ERASE_ACK]) s = Some s' \<and> flash_live s' \<and> config s' = config s \<and>
    m_pending s' = Pending_none \<and> m_data s' = nor_write (config s) base bs (m_data s)"
proof -
  have fit: "fits base [CMD_BLOCK_ERASE_ACK] (length (m_data s))" using assms(2,3) by (cases bs) (auto simp: fits_def)
  define s1 where "s1 = count_stat St_write_bytes 1 (count1 St_write_accesses s)"
  have s1: "flash_ok s1" "config s1 = config s" "m_data s1 = m_data s" "m_sector_size_value s1 \<noteq> 0"
    "m_pending s1 = Pending_write_buffer_data" "m_write_buffer_base s1 = base" "m_write_buffer s1 = bs"
    "m_write_buffer_written s1 = replicate (length bs) True"
    using assms by (simp_all add: s1_def flash_live_def filling_def)
  have complete: "write_buffer_complete t" if "m_write_buffer_written t = replicate (length bs) True" for t
    using that assms(3) by (simp add: write_buffer_complete_def list_all_iff)
  define s2 where "s2 = count_stat St_write_buffer_bytes (of_nat (length bs)) (count1 St_write_buffer_ops (count1 St_write_buffer_confirm_cmds s1))"
  have s2: "flash_ok s2" "config s2 = config s" "m_data s2 = m_data s" "m_sector_size_value s2 \<noteq> 0"
    using s1 by (simp_all add: s2_def)
  obtain s' where s': "program base bs s2 = Some s'" "flash_ok s'" "config s' = config s2" "idle_status s'"
    "m_data s' = nor_write (config s2) base bs (m_data s2)"
    using program_nor[OF s2(1,4), of base bs] assms(2,3) s2(3) by auto
  have "confirm_write_buffer s1 = Some (clear_write_buffer s')"
    using s'(1) s1 complete[of "count1 St_write_buffer_confirm_cmds s1"] by (simp add: confirm_write_buffer_def s2_def Let_def)
  then have "bus_write (base, [CMD_BLOCK_ERASE_ACK]) s = Some (finish_access (clear_write_buffer s'))"
    using s1(5) complete[OF s1(8)] by (simp add: bus_write_eq[OF assms(1) fit] flash_write_def s1_def)
  moreover have "length (m_data s') = length (m_data s)" using s'(5) s2(3) by (simp add: nor_write_def)
  ultimately show ?thesis
    using s' s2 live_after[OF assms(1), of "finish_access (clear_write_buffer s')"] by (simp add: idle_status_def)
qed


subsection \<open>Drivers refine the abstract flash\<close>

datatype nor_command =
    Nor_program nat "u8 list"
  | Nor_buffer nat "u8 list list"
  | Nor_erase nat

text \<open>The writes a driver makes for a command; the buffer is filled in chunks.\<close>

primrec chunk_writes :: "nat \<Rightarrow> u8 list list \<Rightarrow> (nat \<times> u8 list) list" where
  "chunk_writes off [] = []"
| "chunk_writes off (c # cs) = (off, c) # chunk_writes (off + length c) cs"

fun script :: "nor_command \<Rightarrow> (nat \<times> u8 list) list" where
  "script (Nor_program off bs) = [(off, [CMD_WORD_PROGRAM]), (off, bs)]"
| "script (Nor_buffer off cs) =
     (off, [CMD_WRITE_TO_BUFFER]) # (off, [of_nat (length (concat cs) - 1)]) # chunk_writes off cs @ [(off, [CMD_BLOCK_ERASE_ACK])]"
| "script (Nor_erase off) = [(off, [CMD_BLOCK_ERASE]), (off, [CMD_BLOCK_ERASE_ACK])]"

text \<open>The same commands on an abstract flash, which is its bytes.\<close>

fun nor_exec :: "flash_config \<Rightarrow> nor_command \<Rightarrow> u8 list \<Rightarrow> u8 list" where
  "nor_exec c (Nor_program off bs) d = nor_write c off bs d"
| "nor_exec c (Nor_buffer off cs) d = nor_write c off (concat cs) d"
| "nor_exec c (Nor_erase off) d = nor_erase (unat (m_sector_size_value c)) off d"

fun command_fits :: "nat \<Rightarrow> nor_command \<Rightarrow> bool" where
  "command_fits n (Nor_program off bs) \<longleftrightarrow> fits off bs n"
| "command_fits n (Nor_buffer off cs) \<longleftrightarrow> fits off (concat cs) n \<and> length (concat cs) \<le> 256 \<and> [] \<notin> set cs"
| "command_fits n (Nor_erase off) \<longleftrightarrow> off < n"

lemma length_exec [simp]: "length (nor_exec c x d) = length d"
  by (cases x) (simp_all add: nor_write_def)

lemma write_chunks:
  assumes "flash_live s" and "base + length bs \<le> length (m_data s)" and "length bs \<le> 256"
    and "filling base bs k s" and "[] \<notin> set cs" and "drop k bs = concat cs" and "k \<le> length bs"
  shows "\<exists>s'. bus_writes (chunk_writes (base + k) cs) s = Some s' \<and> flash_live s' \<and> config s' = config s \<and>
    m_data s' = m_data s \<and> filling base bs (length bs) s'"
  using assms
proof (induction cs arbitrary: k s)
  case Nil
  then have "k = length bs" by simp
  then show ?case using Nil by simp
next
  case (Cons c cs)
  have c: "c \<noteq> []" "c = take (length c) (drop k bs)" using Cons.prems(5,6) by auto
  have len: "length (drop k bs) = length c + length (concat cs)" using Cons.prems(6) by simp
  then have kc: "k + length c \<le> length bs" using Cons.prems(7) by simp
  have rest: "drop (k + length c) bs = concat cs"
    using Cons.prems(6) by (metis add.commute append_eq_conv_conj concat.simps(2) drop_drop)
  obtain s1 where s1: "bus_write (base + k, c) s = Some s1" "flash_live s1" "config s1 = config s" "m_data s1 = m_data s"
    "filling base bs (k + length c) s1"
    using write_chunk[OF Cons.prems(1-4) c(1) kc c(2)] by blast
  obtain s' where "bus_writes (chunk_writes (base + (k + length c)) cs) s1 = Some s'" "flash_live s'" "config s' = config s1"
    "m_data s' = m_data s1" "filling base bs (length bs) s'"
    using Cons.IH[OF s1(2) _ Cons.prems(3) s1(5) _ rest kc] Cons.prems(2,5) s1(4) by auto
  then show ?case using s1 by (simp add: add.assoc)
qed

lemma script_exec:
  assumes "flash_live s" and "m_pending s = Pending_none" and "command_fits (length (m_data s)) x"
  shows "\<exists>s'. bus_writes (script x) s = Some s' \<and> flash_live s' \<and> config s' = config s \<and> m_pending s' = Pending_none \<and>
    m_data s' = nor_exec (config s) x (m_data s)"
proof (cases x)
  case (Nor_program off bs)
  then have f: "fits off bs (length (m_data s))" using assms(3) by simp
  have "fits off [CMD_WORD_PROGRAM] (length (m_data s))" using f by (cases bs) (auto simp: fits_def)
  from write_command[OF assms(1) this assms(2)]
  obtain s1 where s1: "bus_write (off, [CMD_WORD_PROGRAM]) s = Some s1" "flash_live s1" "config s1 = config s" "m_data s1 = m_data s"
    "m_pending s1 = Pending_program" by (auto simp: pending_after_def)
  then show ?thesis using write_program[of s1 off bs] f Nor_program by auto
next
  case (Nor_buffer off cs)
  let ?bs = "concat cs"
  have f: "fits off ?bs (length (m_data s))" "length ?bs \<le> 256" "[] \<notin> set cs" using assms(3) Nor_buffer by simp_all
  then have b: "off + length ?bs \<le> length (m_data s)" "?bs \<noteq> []" unfolding fits_def by blast+
  have "fits off [CMD_WRITE_TO_BUFFER] (length (m_data s))" using b by (cases ?bs) (auto simp: fits_def)
  from write_command[OF assms(1) this assms(2)]
  obtain s1 where s1: "bus_write (off, [CMD_WRITE_TO_BUFFER]) s = Some s1" "flash_live s1" "config s1 = config s" "m_data s1 = m_data s"
    "m_pending s1 = Pending_write_buffer_count" by (auto simp: pending_after_def)
  obtain s2 where s2: "bus_write (off, [of_nat (length ?bs - 1)]) s1 = Some s2" "flash_live s2" "config s2 = config s"
    "m_data s2 = m_data s" "filling off ?bs 0 s2"
    using write_count[OF s1(2) _ b(2) f(2) s1(5), of off] s1 b(1) by auto
  obtain s3 where s3: "bus_writes (chunk_writes (off + 0) cs) s2 = Some s3" "flash_live s3" "config s3 = config s"
    "m_data s3 = m_data s" "filling off ?bs (length ?bs) s3"
    using write_chunks[OF s2(2) _ f(2) s2(5) f(3)] s2 b(1) by auto
  obtain s' where "bus_write (off, [CMD_BLOCK_ERASE_ACK]) s3 = Some s'" "flash_live s'" "config s' = config s3"
    "m_pending s' = Pending_none" "m_data s' = nor_write (config s3) off ?bs (m_data s3)"
    using write_confirm[OF s3(2) _ b(2) f(2) s3(5)] s3 b(1) by auto
  then show ?thesis using s1(1) s2(1) s3 Nor_buffer by (simp add: bus_writes_append)
next
  case (Nor_erase off)
  then have f: "off < length (m_data s)" using assms(3) by simp
  have "fits off [CMD_BLOCK_ERASE] (length (m_data s))" using f by (simp add: fits_def)
  from write_command[OF assms(1) this assms(2)]
  obtain s1 where s1: "bus_write (off, [CMD_BLOCK_ERASE]) s = Some s1" "flash_live s1" "config s1 = config s" "m_data s1 = m_data s"
    "m_pending s1 = Pending_erase" by (auto simp: pending_after_def)
  then show ?thesis using write_erase[of s1 off] f Nor_erase config_sel(5)[OF s1(3)] by (auto simp: config_values)
qed

lemma scripts_exec:
  assumes "flash_live s" and "m_pending s = Pending_none" and "\<forall>x \<in> set xs. command_fits (length (m_data s)) x"
  shows "\<exists>s'. bus_writes (concat (map script xs)) s = Some s' \<and> flash_live s' \<and> config s' = config s \<and>
    m_pending s' = Pending_none \<and> m_data s' = fold (nor_exec (config s)) xs (m_data s)"
  using assms
proof (induction xs arbitrary: s)
  case Nil then show ?case by simp
next
  case (Cons x xs)
  obtain s1 where s1: "bus_writes (script x) s = Some s1" "flash_live s1" "config s1 = config s" "m_pending s1 = Pending_none"
    "m_data s1 = nor_exec (config s) x (m_data s)"
    using script_exec[OF Cons.prems(1,2)] Cons.prems(3) by auto
  then show ?case using Cons.IH[OF s1(2,4)] Cons.prems(3) by (auto simp: bus_writes_append)
qed


lemma read_array:
  assumes "flash_live s" and "m_mode s = Mode_read_array" and "off + n \<le> length (m_data s)" and "0 < n" and "n < 2 ^ 32"
  shows "bus_read off n s = Some (take n (drop off (m_data s)))"
proof -
  have off: "unat (of_nat off :: u64) = off" using assms(1,3) by (intro unat_64) (simp add: flash_live_def)
  have len: "unat (of_nat n :: u32) = n" using assms(5) by (rule unat_32)
  then have nz: "(of_nat n :: u32) \<noteq> 0" using assms(4) by auto
  have rd: "flash_read off n (count_stat a k (count_stat b j s)) = take n (drop off (m_data s))" for a k b j
    using assms(2) by (simp add: flash_read_def)
  have "flash_access False (read_payload (of_nat off) n) s = flash_access True (read_payload (of_nat off) n) s"
    by (rule flash_fast_path)
  moreover have "\<exists>t s'. flash_access True (read_payload (of_nat off) n) s = Some (True, t, s') \<and> p_data t = Some (take n (drop off (m_data s)))"
    using assms(1,3) off len nz rd by (simp add: flash_access_full flash_live_def storage_id split: prod.split)
  ultimately show ?thesis by (auto simp: bus_read_def flash_b_transport_def)
qed

text \<open>
  C3. Any sequence of word programs, buffered programs (the buffer filled in chunks of any sizes) and sector erases a driver sends over
  the bus, ended by the read array command, has on the array the effect the commands have on the abstract NOR flash: programming only
  clears bits (or sets all bits of a byte, where that is configured) in the programmed bytes, and erasing sets the sector to 0xff. No access is undefined, and
  afterwards every read returns the bytes of the abstract flash.
\<close>

theorem flash_refines_nor:
  assumes "flash_live s" and "m_pending s = Pending_none" and "\<forall>x \<in> set xs. command_fits (length (m_data s)) x"
  shows "\<exists>s'. bus_writes (concat (map script xs) @ [(0, [CMD_READ_ARRAY])]) s = Some s' \<and> flash_live s' \<and>
    m_data s' = fold (nor_exec (config s)) xs (m_data s) \<and> m_pending s' = Pending_none \<and>
    (\<forall>off n. 0 < n \<and> n < 2 ^ 32 \<and> off + n \<le> length (m_data s) \<longrightarrow>
       bus_read off n s' = Some (take n (drop off (fold (nor_exec (config s)) xs (m_data s)))))"
proof -
  obtain s1 where s1: "bus_writes (concat (map script xs)) s = Some s1" "flash_live s1" "m_pending s1 = Pending_none"
    "m_data s1 = fold (nor_exec (config s)) xs (m_data s)"
    using scripts_exec[OF assms] by blast
  have "length (fold (nor_exec c) xs d) = length d" for c d by (induction xs arbitrary: d) simp_all
  then have len: "length (m_data s1) = length (m_data s)" using s1(4) by simp
  have "fits 0 [CMD_READ_ARRAY] (length (m_data s1))" using s1(2) by (cases "m_data s1") (auto simp: fits_def flash_live_def)
  from write_command[OF s1(2) this s1(3)]
  obtain s' where s': "bus_write (0, [CMD_READ_ARRAY]) s1 = Some s'" "flash_live s'" "m_data s' = m_data s1"
    "m_pending s' = Pending_none" "m_mode s' = Mode_read_array" by (auto simp: pending_after_def)
  have "bus_writes (concat (map script xs) @ [(0, [CMD_READ_ARRAY])]) s = Some s'"
    using s1(1) s'(1) by (simp add: bus_writes_append)
  then show ?thesis using s' s1(4) len read_array[OF s'(2,5)] by (intro exI[of _ s']) auto
qed

definition small_flash :: strata_flash where
  "small_flash = ensure_storage (flash_construct (flash_default_config\<lparr>fp_size := 64, m_sector_size_value := 16\<rparr>) (\<lambda>_. None) (\<lambda>_. False) True)"

lemma small_flash:
  "flash_live small_flash" "m_pending small_flash = Pending_none" "m_data small_flash = replicate 64 0xff"
  "config small_flash = flash_default_config\<lparr>fp_size := 64, m_sector_size_value := 16\<rparr>"
proof -
  show "m_pending small_flash = Pending_none" "m_data small_flash = replicate 64 0xff"
    by (simp_all add: small_flash_def storage_data flash_construct_def flash_default_config_def)
  show "config small_flash = flash_default_config\<lparr>fp_size := 64, m_sector_size_value := 16\<rparr>"
    unfolding small_flash_def storage_config
    by (simp add: flash_construct_def config_def flash_config.truncate_def flash_default_config_def stats_collecting_def)
  have "flash_ok small_flash" unfolding small_flash_def by (intro storage_ok construct_ok)
  moreover have "m_sector_size_value small_flash = 16"
    by (simp add: small_flash_def flash_construct_def flash_default_config_def)
  moreover have "m_data small_flash = replicate 64 0xff"
    by (simp add: small_flash_def storage_data flash_construct_def flash_default_config_def)
  ultimately show "flash_live small_flash" by (simp add: flash_live_def)
qed

lemma flash_refines_nor_witness:
  "\<exists>s'. bus_writes (concat (map script [Nor_program 5 [0x0f], Nor_buffer 20 [[1, 2], [3]], Nor_erase 7]) @ [(0, [CMD_READ_ARRAY])]) small_flash = Some s' \<and>
     bus_read 4 2 s' = Some [0xff, 0xff] \<and> bus_read 20 4 s' = Some [1, 2, 3, 0xff]"
proof -
  let ?xs = "[Nor_program 5 [0x0f], Nor_buffer 20 [[1, 2], [3]], Nor_erase 7]"
  have "\<forall>x \<in> set ?xs. command_fits (length (m_data small_flash)) x" by (simp add: small_flash fits_def)
  from flash_refines_nor[OF small_flash(1,2) this]
  obtain s' where s': "bus_writes (concat (map script ?xs) @ [(0, [CMD_READ_ARRAY])]) small_flash = Some s'"
    "\<And>off n. 0 < n \<Longrightarrow> n < 2 ^ 32 \<Longrightarrow> off + n \<le> 64 \<Longrightarrow>
      bus_read off n s' = Some (take n (drop off (fold (nor_exec (config small_flash)) ?xs (m_data small_flash))))"
    by (auto simp: small_flash(3))
  have "take 2 (drop 4 (fold (nor_exec (config small_flash)) ?xs (m_data small_flash))) = [0xff, 0xff]"
    "take 4 (drop 20 (fold (nor_exec (config small_flash)) ?xs (m_data small_flash))) = [1, 2, 3, 0xff]"
    unfolding small_flash flash_default_config_def by code_simp+
  then show ?thesis using s'(1) s'(2)[of 2 4] s'(2)[of 4 20] by auto
qed

end
