(* ===== verification/Strata_Dmi.thy ===== *)
theory Strata_Dmi
  imports Strata_Driver
begin

text \<open>
  Direct memory pointers of the NOR flash: while one is out the array and the read mode do not change, and what would
  change them withdraws it first.
\<close>


subsection \<open>Pointers that are out\<close>

text \<open>What an access does to the grant and to the invalidations the target socket saw.\<close>

definition grants :: "strata_flash \<Rightarrow> bool \<times> (u64 \<times> u64) list \<times> bool" where
  "grants s = (m_dmi_granted s, invalidations s, flash_socket_bound s)"

lemma grants_shell: "shell s = shell t \<Longrightarrow> grants s = grants t"
  using shell_sel(5,9,10)[of s t] by (simp add: grants_def)

lemma grants_fore: "fore s = fore t \<Longrightarrow> grants s = grants t"
  by (rule grants_shell) (rule shell_fore)

lemma grants_count [simp]: "grants (count_stat c n s) = grants s"
  by (rule grants_fore) simp

lemma grants_record [simp]: "grants (record_command c s) = grants s"
  by (rule grants_fore) simp

lemma grants_ops [simp]:
  "grants (set_idle_status s) = grants s" "grants (clear_write_buffer s) = grants s" "grants (start_command c s) = grants s"
  "grants (begin_write_buffer off bs s) = grants s" "grants (collect_write_buffer_data off bs s) = grants s"
  "grants (s\<lparr>m_pending := p\<rparr>) = grants s" "grants (finish_access s) = grants s" "grants (ensure_storage s) = grants s"
  by (simp_all add: grants_def set_idle_status_def clear_write_buffer_def start_command_def begin_write_buffer_def
      collect_write_buffer_data_def Let_def)

lemma grants_program: "program off bs s = Some s' \<Longrightarrow> grants s' = grants s"
  by (rule grants_shell) (rule program_shell)

lemma grants_erase: "erase_sector off s = Some s' \<Longrightarrow> grants s' = grants s"
  by (rule grants_shell) (rule erase_shell)

lemma grants_handle: "handle_command off c s = Some s' \<Longrightarrow> grants s' = grants s"
  by (auto simp: handle_command_def Let_def dest!: grants_erase split: pending_command.splits if_splits)

lemma grants_confirm: "confirm_write_buffer s = Some s' \<Longrightarrow> grants s' = grants s"
  by (auto simp: confirm_write_buffer_def Let_def dest!: grants_program split: if_splits bind_splits)

lemma grants_write:
  assumes "flash_write off bs s = Some s'"
  shows "grants s' = (if m_pending s = Pending_none \<or> m_pending s = Pending_erase \<or> m_pending s = Pending_lock
    then grants (invalidate_dmi s) else grants s)"
  using assms by (auto simp: flash_write_def dest!: grants_program grants_handle grants_confirm split: if_splits)
    (cases "m_pending s"; simp)+

text \<open>A granted pointer can only be read while the flash shows its array and has no command pending.\<close>

definition pointer_ok :: "strata_flash \<Rightarrow> bool" where
  "pointer_ok s \<longleftrightarrow> flash_socket_bound s \<and> (m_dmi_granted s \<longrightarrow>
     m_enable_dmi_value s \<and> m_mode s = Mode_read_array \<and> m_pending s = Pending_none \<and> m_data s \<noteq> [])"

definition whole_array :: "strata_flash \<Rightarrow> u64 \<times> u64" where
  "whole_array s = (0, of_nat (length (m_data s) - 1))"

lemma invalidate_grants:
  assumes "pointer_ok s"
  shows "grants (invalidate_dmi s) = (False, if m_dmi_granted s then invalidations s @ [whole_array s] else invalidations s, True)"
  using assms by (auto simp: grants_def invalidate_dmi_def pointer_ok_def whole_array_def Let_def)


text \<open>What a step may do: keep everything, or withdraw the pointer before anything changes.\<close>

definition pointer_step :: "strata_flash \<Rightarrow> strata_flash \<Rightarrow> bool" where
  "pointer_step s s' \<longleftrightarrow> pointer_ok s' \<and>
     (if m_dmi_granted s then (grants s' = grants s \<and> m_data s' = m_data s \<or> grants s' = (False, invalidations s @ [whole_array s], True))
      else invalidations s' = invalidations s)"

lemma pointer_keep:
  assumes "pointer_ok s" and "grants s' = grants s" and "m_dmi_granted s \<Longrightarrow> m_data s' = m_data s \<and> m_mode s' = m_mode s \<and>
      m_pending s' = m_pending s \<and> m_enable_dmi_value s' = m_enable_dmi_value s"
  shows "pointer_step s s'"
  using assms by (auto simp: pointer_step_def pointer_ok_def grants_def)

lemma pointer_same:
  assumes "pointer_ok s" and "ranges_only s s'" shows "pointer_step s s'"
  using assms ranges_only_sel[OF assms(2)] config_sel(4)[OF ranges_only_sel(2)[OF assms(2)]]
  by (intro pointer_keep) (auto simp: grants_def)

lemma pointer_write:
  assumes "pointer_ok s" and "flash_write off bs s = Some s'"
  shows "pointer_step s s'"
proof (cases "m_dmi_granted s")
  case True
  then have "grants s' = grants (invalidate_dmi s)"
    using grants_write[OF assms(2)] assms(1) by (simp add: pointer_ok_def)
  then have "grants s' = (False, invalidations s @ [whole_array s], True)"
    using invalidate_grants[OF assms(1)] True by simp
  then show ?thesis using True by (auto simp: pointer_step_def pointer_ok_def grants_def)
next
  case False
  then have "grants s' = (False, invalidations s, True)"
    using grants_write[OF assms(2)] invalidate_grants[OF assms(1)] assms(1) by (auto simp: pointer_ok_def grants_def)
  then show ?thesis using False by (auto simp: pointer_step_def pointer_ok_def grants_def)
qed

lemma pointer_cong:
  assumes "grants t = grants s" and "m_data s \<noteq> [] \<Longrightarrow> m_data t = m_data s" and "m_mode t = m_mode s" and "m_pending t = m_pending s"
    and "m_enable_dmi_value t = m_enable_dmi_value s"
  shows "pointer_ok s \<Longrightarrow> pointer_ok t" "pointer_ok s \<Longrightarrow> pointer_step t s' \<Longrightarrow> pointer_step s s'"
    "pointer_ok s \<Longrightarrow> m_data t = m_data s \<Longrightarrow> pointer_step u s \<Longrightarrow> pointer_step u t"
  using assms by (auto simp: pointer_ok_def pointer_step_def grants_def whole_array_def)

lemma pointer_access:
  assumes "pointer_ok s" and "flash_access debug t s = Some (ok, t', s')"
  shows "pointer_step s s'"
proof -
  have acc: "flash_access True t s = Some (ok, t', s')" using assms(2) flash_fast_path by (cases debug) auto
  let ?n = "unat (p_len t)" and ?o = "unat (p_address t)" and ?s = "ensure_storage s"
  have st: "grants ?s = grants s" "m_data s \<noteq> [] \<Longrightarrow> m_data ?s = m_data s" "m_mode ?s = m_mode s" "m_pending ?s = m_pending s"
    "m_enable_dmi_value ?s = m_enable_dmi_value s"
    by (simp_all add: storage_data)
  note cong = pointer_cong(1,2)[OF st assms(1)]
  have refl: "pointer_step s s" "pointer_step s ?s"
    using assms(1) pointer_same[OF assms(1) ranges_refl] pointer_same[OF cong(1) ranges_refl] cong(2) by auto
  consider (s) "s' = s" | (a) "s' = ?s"
    | (r) h u a b i j where "?o + ?n \<le> length (m_data ?s)" "p_len t \<noteq> 0" "dmi_hint (t\<lparr>p_dmi_allowed := False\<rparr>) (count_stat a i (count_stat b j ?s)) = (h, u)" "s' = finish_access u"
    | (w) u bs a b i j where "flash_write ?o bs (count_stat a i (count_stat b j ?s)) = Some u" "s' = finish_access u"
    using acc unfolding flash_access_full by (auto split: option.splits if_splits prod.splits)
  then show ?thesis
  proof cases
    case s then show ?thesis using refl by simp
  next
    case a then show ?thesis using refl by simp
  next
    case r
    let ?c = "count_stat a i (count_stat b j ?s)"
    have c: "pointer_ok ?c" using cong(1) pointer_cong(1)[of ?c ?s] by simp
    have "?n \<noteq> 0" using r(2) by (simp add: unat_eq_zero)
    then have "m_data ?c \<noteq> []" using r(1) by auto
    then have "pointer_step ?c u" using pointer_same[OF c hint_ranges[OF r(3)]] by simp
    then have "pointer_step ?s u" using pointer_cong(2)[of ?c ?s u] cong(1) by simp
    then have "pointer_step s u" using cong(2) by blast
    moreover have "m_enable_dmi_value (finish_access u) = m_enable_dmi_value u" using config_sel(4)[of "finish_access u" u] by simp
    ultimately show ?thesis using r(4) pointer_cong(3)[of s' u s] by (simp add: pointer_step_def)
  next
    case w
    let ?c = "count_stat a i (count_stat b j ?s)"
    have c: "pointer_ok ?c" using cong(1) pointer_cong(1)[of ?c ?s] by simp
    have "pointer_step ?s u" using pointer_cong(2)[of ?c ?s u] cong(1) pointer_write[OF c w(1)] by simp
    then have "pointer_step s u" using cong(2) by blast
    moreover have "m_enable_dmi_value (finish_access u) = m_enable_dmi_value u" using config_sel(4)[of "finish_access u" u] by simp
    ultimately show ?thesis using w(2) pointer_cong(3)[of s' u s] by (simp add: pointer_step_def)
  qed
qed


lemma find_data: "find_dmi_range a n s = (Some r, t) \<Longrightarrow> m_data t \<noteq> []"
proof -
  assume f: "find_dmi_range a n s = (Some r, t)"
  then have "m_data (ensure_storage s) \<noteq> []" "t = refresh_dmi_ranges (ensure_storage s)"
    by (auto simp: find_dmi_range_def Let_def split: if_splits)
  then show ?thesis using ranges_only_sel(3)[OF refresh_ranges] by simp
qed

lemma pointer_dmi:
  assumes "pointer_ok s" shows "pointer_step s (snd (flash_get_direct_mem_ptr t s))"
proof -
  define s1 where "s1 = count1 St_dmi_requests (ensure_storage s)"
  obtain rng u where f: "find_dmi_range (p_address t) (p_len t) s1 = (rng, u)" by fastforce
  have st: "grants s1 = grants s" "m_data s \<noteq> [] \<Longrightarrow> m_data s1 = m_data s" "m_mode s1 = m_mode s" "m_pending s1 = m_pending s"
    "m_enable_dmi_value s1 = m_enable_dmi_value s"
    by (simp_all add: storage_data s1_def)
  note cong = pointer_cong(1,2)[OF st assms]
  have eqs: "grants v = grants w \<and> m_data v = m_data w \<and> m_mode v = m_mode w \<and> m_pending v = m_pending w \<and>
      m_enable_dmi_value v = m_enable_dmi_value w" if "fore v = fore w" for v w
    using grants_fore[OF that] fore_sel[OF that] fore_config(6)[OF that] by simp
  have from1: "pointer_step s v" if "fore v = fore s1" for v
    using eqs[OF that] cong pointer_keep[OF cong(1), of v] by auto
  have rej: "fore (snd (reject_dmi c v)) = fore v" for c v by (simp add: reject_dmi_def Let_def)
  show ?thesis
  proof (cases rng)
    case None
    have u: "grants u = grants s1 \<and> m_mode u = m_mode s1 \<and> m_pending u = m_pending s1 \<and> m_enable_dmi_value u = m_enable_dmi_value s1 \<and>
        (m_data s1 \<noteq> [] \<longrightarrow> m_data u = m_data s1)"
    proof (cases "m_data s1 = []")
      case True
      have "u = ensure_storage s1 \<or> u = refresh_dmi_ranges (ensure_storage s1) \<and> m_data (ensure_storage s1) \<noteq> []"
        using f by (auto simp: find_dmi_range_def Let_def split: if_splits)
      then show ?thesis
        using ranges_only_sel[OF refresh_ranges, of "ensure_storage s1"] config_sel(4)[OF ranges_only_sel(2)[OF refresh_ranges, of "ensure_storage s1"]] True
        by (auto simp: grants_def)
    next
      case False
      then show ?thesis using ranges_only_sel[OF find_ranges[OF f]] config_sel(4)[OF ranges_only_sel(2)[OF find_ranges[OF f]]]
        by (simp add: grants_def)
    qed
    have "pointer_step s (snd (reject_dmi c u))" for c
      using u eqs[OF rej[of c u]] cong pointer_keep[OF cong(1), of "snd (reject_dmi c u)"] cong(1) by (auto simp: pointer_ok_def)
    then show ?thesis
      unfolding flash_get_direct_mem_ptr_def Let_def s1_def[symmetric] f None using from1[OF rej] by simp
  next
    case (Some r)
    then have ne: "m_data u \<noteq> []" using find_data f by simp
    have st1: "m_data s1 \<noteq> []" using f Some config_sel(1)[OF storage_config, of s]
      by (auto simp: find_dmi_range_def s1_def storage_data Let_def split: if_splits)
    have ro: "ranges_only s1 u" using find_ranges[OF f st1] .
    note u = ranges_only_sel[OF ro] config_sel(4)[OF ranges_only_sel(2)[OF ro]]
    obtain v where v: "snd (grant_dmi r u) = v\<lparr>m_dmi_granted := True\<rparr>" "fore v = fore u" using grant_state by blast
    have "pointer_step s (snd (grant_dmi r u))"
      if "m_enable_dmi_value s1" "m_mode s1 = Mode_read_array" "m_pending s1 = Pending_none"
      using that eqs[OF v(2)] u st ne v(1) assms st1 storage_data[of s]
      by (auto simp: pointer_step_def pointer_ok_def grants_def)
    then show ?thesis
      unfolding flash_get_direct_mem_ptr_def Let_def s1_def[symmetric] f Some using from1[OF rej] by simp
  qed
qed

lemma pointer_load: "pointer_ok s \<Longrightarrow> pointer_ok (load_image bs off s)"
proof -
  have ref: "grants (refresh_sector_erased_range o' n t) = grants t" "m_mode (refresh_sector_erased_range o' n t) = m_mode t"
    "m_pending (refresh_sector_erased_range o' n t) = m_pending t" "m_data (refresh_sector_erased_range o' n t) = m_data t"
    "m_enable_dmi_value (refresh_sector_erased_range o' n t) = m_enable_dmi_value t" for o' n t
    by (simp_all add: refresh_sector_erased_range_def ensure_sector_erased_map_def rebuild_sector_erased_map_def grants_def Let_def)
  have upd: "grants (t\<lparr>m_data := d\<rparr>) = grants t" for t d by (simp add: grants_def)
  define t where "t = load_image bs off s"
  have t: "grants t = grants s" "m_mode t = m_mode s" "m_pending t = m_pending s" "m_enable_dmi_value t = m_enable_dmi_value s"
    "m_data s \<noteq> [] \<Longrightarrow> m_data t \<noteq> []"
    by (auto simp: t_def load_image_def ref upd Let_def overwrite_def storage_data)
  then show "pointer_ok s \<Longrightarrow> pointer_ok (load_image bs off s)"
    unfolding t_def[symmetric] by (auto simp: pointer_ok_def grants_def)
qed

fun keeps_dmi :: "flash_op \<Rightarrow> bool" where
  "keeps_dmi (Op_param (P_enable_dmi b)) = False"
| "keeps_dmi _ = True"

lemma pointer_param:
  assumes "pointer_ok s" and "keeps_dmi (Op_param p)" shows "pointer_step s (write_param p s)"
proof -
  have "grants (flush_deferred_backing t) = grants t" for t by (rule grants_fore) simp
  then show ?thesis
    using assms
    by (intro pointer_keep) (cases p; simp add: grants_def rebuild_sector_erased_map_def refresh_stats_collecting_def)+
qed

lemma pointer_run:
  assumes "pointer_ok s" and "\<forall>x \<in> set xs. keeps_dmi x" and "flash_run xs s = Some s'"
  shows "pointer_ok s'"
  using assms
proof (induction xs arbitrary: s)
  case Nil then show ?case by simp
next
  case (Cons x xs)
  then obtain s1 where s1: "flash_step x s = Some s1" "flash_run xs s1 = Some s'" by (auto split: bind_splits)
  have "pointer_ok s1"
  proof (cases x)
    case (Op_transport t) then show ?thesis using s1(1) pointer_access[OF Cons.prems(1)]
      by (auto simp: flash_b_transport_def pointer_step_def split: bind_splits)
  next
    case (Op_debug t) then show ?thesis using s1(1) pointer_access[OF Cons.prems(1)]
      by (auto simp: flash_transport_dbg_def pointer_step_def split: bind_splits)
  next
    case (Op_dmi t) then show ?thesis using s1(1) pointer_dmi[OF Cons.prems(1)] by (auto simp: pointer_step_def)
  next
    case (Op_load bs off) then show ?thesis using s1(1) pointer_load[OF Cons.prems(1)] by auto
  next
    case (Op_param p) then show ?thesis using s1(1) pointer_param[OF Cons.prems(1), of p] Cons.prems(2) by (auto simp: pointer_step_def)
  qed
  then show ?case using Cons.IH s1(2) Cons.prems(2) by simp
qed

text \<open>
  C21. In every state a module with a bound socket and its direct access switch left alone reaches, a pointer that is out can only be read while the flash shows its
  array and has no command pending; the next transport, debug access, direct access request or parameter write either leaves the array and the grant as they are, or
  withdraws the pointer with one invalidation of the whole array. Without a pointer out, no invalidation is sent.
\<close>

theorem flash_pointer_withdrawn:
  assumes "\<forall>x \<in> set xs. keeps_dmi x" and "flash_run xs (flash_construct c host_files host_maps True) = Some s"
    and "keeps_dmi x" and "\<forall>bs off. x \<noteq> Op_load bs off" and "flash_step x s = Some s'"
  shows "(m_dmi_granted s \<longrightarrow> m_mode s = Mode_read_array \<and> m_pending s = Pending_none) \<and>
    (if m_dmi_granted s
     then (m_dmi_granted s' \<and> invalidations s' = invalidations s \<and> m_data s' = m_data s) \<or>
          (\<not> m_dmi_granted s' \<and> invalidations s' = invalidations s @ [(0, of_nat (length (m_data s) - 1))])
     else invalidations s' = invalidations s)"
proof -
  have "pointer_ok (flash_construct c host_files host_maps True)" by (simp add: pointer_ok_def flash_construct_def)
  then have s: "pointer_ok s" using pointer_run assms(1,2) by blast
  have "pointer_step s s'"
  proof (cases x)
    case (Op_transport t) then show ?thesis using assms(5) pointer_access[OF s] by (auto simp: flash_b_transport_def split: bind_splits)
  next
    case (Op_debug t) then show ?thesis using assms(5) pointer_access[OF s] by (auto simp: flash_transport_dbg_def split: bind_splits)
  next
    case (Op_dmi t) then show ?thesis using assms(5) pointer_dmi[OF s] by auto
  next
    case (Op_load bs off) then show ?thesis using assms(4) by blast
  next
    case (Op_param p) then show ?thesis using assms(3,5) pointer_param[OF s, of p] by auto
  qed
  then show ?thesis using s by (auto simp: pointer_step_def pointer_ok_def grants_def whole_array_def split: if_splits)
qed


definition dmi_flash :: strata_flash where
  "dmi_flash = flash_construct (flash_default_config\<lparr>fp_size := 64, m_enable_dmi_value := True\<rparr>) (\<lambda>_. None) (\<lambda>_. False) True"

lemma dmi_flash_granted: "m_dmi_granted (snd (flash_get_direct_mem_ptr (read_payload 0 4) dmi_flash))"
proof -
  define s1 where "s1 = count1 St_dmi_requests (ensure_storage dmi_flash)"
  have s1: "m_data s1 = replicate 64 0xff" "m_enable_dmi_value s1" "m_mode s1 = Mode_read_array" "m_pending s1 = Pending_none"
    "m_open_dmi_ranges s1 = []" "fp_dmi_ranges s1 = []" "m_dmi_ranges_valid s1"
    by (simp_all add: s1_def dmi_flash_def storage_data flash_construct_def flash_default_config_def)
      (simp_all add: ensure_storage_def initialize_sector_erased_map_def)
  then have "refresh_dmi_ranges s1 = s1" by (simp add: refresh_dmi_ranges_def storage_id remove_spaces_def Let_def)
  then have f: "find_dmi_range 0 4 s1 = (Some (0, 63), s1)"
    using s1 by (simp add: find_dmi_range_def storage_id Let_def)
  obtain v where "snd (grant_dmi (0, 63) s1) = v\<lparr>m_dmi_granted := True\<rparr>" using grant_state by blast
  then show ?thesis
    using s1 f by (simp add: flash_get_direct_mem_ptr_def s1_def[symmetric] Let_def)
qed

lemma flash_pointer_withdrawn_witness:
  "\<exists>s s'. flash_run [Op_dmi (read_payload 0 4)] dmi_flash = Some s \<and> m_dmi_granted s \<and>
     flash_step (Op_transport (write_payload 8 [0x40])) s = Some s' \<and>
     (m_dmi_granted s' \<and> invalidations s' = invalidations s \<and> m_data s' = m_data s \<or>
      \<not> m_dmi_granted s' \<and> invalidations s' = invalidations s @ [(0, of_nat (length (m_data s) - 1))])"
proof -
  let ?s = "snd (flash_get_direct_mem_ptr (read_payload 0 4) dmi_flash)"
  have run: "flash_run [Op_dmi (read_payload 0 4)] dmi_flash = Some ?s" by simp
  have "m_sector_size_value dmi_flash \<noteq> 0" by (simp add: dmi_flash_def flash_construct_def flash_default_config_def)
  then have "m_sector_size_value ?s \<noteq> 0" "flash_ok ?s"
    using same_dmi[of dmi_flash "read_payload 0 4"] construct_ok by (auto simp: same_array_def dmi_flash_def dest: config_sel(5))
  then obtain s' where step: "flash_step (Op_transport (write_payload 8 [0x40])) ?s = Some s'"
    using step_ok[of ?s "Op_transport (write_payload 8 [0x40])"] by (auto simp: wf_payload_def)
  have "\<forall>x \<in> set [Op_dmi (read_payload 0 4)]. keeps_dmi x" "keeps_dmi (Op_transport (write_payload 8 [0x40]))"
    "\<forall>bs off. Op_transport (write_payload 8 [0x40]) \<noteq> Op_load bs off" by simp_all
  from flash_pointer_withdrawn[OF this(1) run[unfolded dmi_flash_def] this(2,3) step[unfolded dmi_flash_def]]
  have "m_dmi_granted s' \<and> invalidations s' = invalidations ?s \<and> m_data s' = m_data ?s \<or>
      \<not> m_dmi_granted s' \<and> invalidations s' = invalidations ?s @ [(0, of_nat (length (m_data ?s) - 1))]"
    using dmi_flash_granted unfolding dmi_flash_def by (auto split: if_splits)
  then show ?thesis using run step dmi_flash_granted by blast
qed


text \<open>Switching direct access off does not withdraw a pointer, and later writes do not either.\<close>

lemma flash_disabled_pointer_stays:
  assumes "m_dmi_granted s" and "\<not> m_enable_dmi_value s" and "flash_access debug t s = Some (ok, t', s')"
  shows "m_dmi_granted s' \<and> invalidations s' = invalidations s"
proof -
  have acc: "flash_access True t s = Some (ok, t', s')" using assms(3) flash_fast_path by (cases debug) auto
  have inv: "invalidate_dmi u = u" if "\<not> m_enable_dmi_value u" for u using that by (simp add: invalidate_dmi_def)
  have hint: "dmi_hint p u = (False, u)" if "\<not> m_enable_dmi_value u" for p u using that by (simp add: dmi_hint_def)
  have "grants s' = grants s"
    using acc assms(2) unfolding flash_access_full
    by (auto simp: hint inv dest!: grants_write split: option.splits if_splits prod.splits)
  then show ?thesis using assms(1) by (simp add: grants_def)
qed

end
