(* ===== verification/Strata_Backing.thy ===== *)
theory Strata_Backing
  imports Strata_Dmi
begin

text \<open>
  The backing file of the NOR flash: outside the range that waits to be written it has the bytes of the array, through every operation,
  so a flush completes it and a pointer into it reads the array.
\<close>


subsection \<open>The file and the array\<close>

definition in_dirty :: "strata_flash \<Rightarrow> nat \<Rightarrow> bool" where
  "in_dirty s pos \<longleftrightarrow> m_backing_dirty s \<and> m_backing_dirty_start s \<le> pos \<and> pos \<le> m_backing_dirty_end s"

text \<open>
  The backing file can be mapped, is at least as long as the array, and has its bytes at every position that is neither waiting in the
  dirty range nor in \<open>X\<close>; an open mapping is the whole file.
\<close>

definition backed :: "nat set \<Rightarrow> strata_flash \<Rightarrow> bool" where
  "backed X s \<longleftrightarrow> m_backing_file_value s \<noteq> [] \<and> can_map s (m_backing_file_value s) \<and> m_data s \<noteq> [] \<and>
     (m_backing_dirty s \<longrightarrow> m_backing_dirty_start s \<le> m_backing_dirty_end s \<and> m_backing_dirty_end s < length (m_data s)) \<and>
     (\<exists>content. files s (m_backing_file_value s) = Some content \<and> length (m_data s) \<le> length content \<and>
          (\<forall>pos < length (m_data s). \<not> in_dirty s pos \<longrightarrow> pos \<notin> X \<longrightarrow> content ! pos = m_data s ! pos) \<and>
          (m_backing_fd s \<and> m_open_backing_file s = m_backing_file_value s \<longrightarrow>
             m_backing_map s \<and> m_backing_size s = length content))"

text \<open>The mapping is open on the backing file.\<close>

definition mapped :: "strata_flash \<Rightarrow> bool" where
  "mapped s \<longleftrightarrow> m_backing_map s \<and> m_open_backing_file s = m_backing_file_value s \<and>
     (\<forall>content. files s (m_backing_file_value s) = Some content \<longrightarrow> m_backing_size s = length content)"

lemma backed_updates [simp]:
  "backed X (count_stat c n s) = backed X s" "backed X (set_idle_status s) = backed X s" "backed X (clear_write_buffer s) = backed X s"
  "backed X (maybe_write_stats s) = backed X s" "backed X (maybe_write_dmi_stats b s) = backed X s"
  "backed X (s\<lparr>m_pending := p\<rparr>) = backed X s" "backed X (s\<lparr>m_dmi_granted := b\<rparr>) = backed X s"
  "backed X (s\<lparr>m_sector_erased := m\<rparr>) = backed X s" "backed X (s\<lparr>m_backing_deferred_since_flush := k\<rparr>) = backed X s"
  "backed X (s\<lparr>m_defer_backing_write_value := b\<rparr>) = backed X s" "backed X (s\<lparr>m_defer_backing_flush_interval_value := v\<rparr>) = backed X s"
  by (simp_all add: backed_def in_dirty_def count_stat_def set_idle_status_def clear_write_buffer_def maybe_write_stats_def
      maybe_write_dmi_stats_def write_stats_file_def Let_def)

lemma backed_map [simp]: "backed X (ensure_sector_erased_map s) = backed X s" "backed X (mark_programmed_range a n s) = backed X s"
  "backed X (mark_sector_erased a s) = backed X s" "backed X (mark_programmed_byte a s) = backed X s"
proof -
  have e: "backed X (ensure_sector_erased_map s) = backed X s" for s
    by (simp add: ensure_sector_erased_map_def rebuild_sector_erased_map_def backed_def in_dirty_def)
  then show "backed X (ensure_sector_erased_map s) = backed X s" "backed X (mark_programmed_range a n s) = backed X s"
    "backed X (mark_sector_erased a s) = backed X s" "backed X (mark_programmed_byte a s) = backed X s"
    by (simp_all add: mark_programmed_range_def mark_sector_erased_def mark_programmed_byte_def Let_def)
qed

lemma backed_close: "backed X s \<Longrightarrow> backed X (close_mapped s)"
  by (auto simp: backed_def in_dirty_def close_mapped_def)

lemma ensure_with_backed:
  assumes "backed X s" and "\<And>s. backed X s \<Longrightarrow> backed X (close s)" and "\<And>s. m_backing_file_value (close s) = m_backing_file_value s"
  shows "\<exists>s'. ensure_backing_with close s = (True, s') \<and> backed X s' \<and> mapped s' \<and> (s' = s \<or> m_backing_dirty s' = m_backing_dirty (close s))"
proof (cases "m_backing_fd s \<and> m_backing_file_value s = m_open_backing_file s")
  case True
  then show ?thesis using assms(1) by (auto simp: ensure_backing_with_def backed_def mapped_def)
next
  case False
  define t where "t = close s"
  have t: "backed X t" "m_backing_file_value t = m_backing_file_value s" using assms by (simp_all add: t_def)
  obtain content where c: "files t (m_backing_file_value t) = Some content" "length (m_data t) \<le> length content" "m_data t \<noteq> []"
    "can_map t (m_backing_file_value t)" "m_backing_file_value t \<noteq> []"
    using t(1) by (auto simp: backed_def)
  define u where "u = t\<lparr>m_backing_fd := True, m_backing_size := length content, m_backing_map := True, m_open_backing_file := m_backing_file_value t\<rparr>"
  have "ensure_backing_with close s = (True, u)"
    using False c t(2) by (auto simp: ensure_backing_with_def u_def t_def[symmetric] Let_def)
  moreover have "backed X u" using t(1) c(1) by (simp add: backed_def in_dirty_def u_def)
  moreover have "mapped u" using c(1) by (simp add: mapped_def u_def)
  moreover have "m_backing_dirty u = m_backing_dirty t" by (simp add: u_def)
  ultimately show ?thesis by (auto simp: t_def)
qed

lemma write_now_backed:
  assumes "ensure s = (True, t)" and "backed X t" and "mapped t" and "off + len \<le> length (m_data t)" and "0 < len"
  shows "\<exists>s'. write_now_with ensure off len s = (True, s') \<and> backed (X - {off..<off + len}) s' \<and> m_backing_dirty s' = m_backing_dirty t \<and>
    m_backing_dirty_start s' = m_backing_dirty_start t \<and> m_backing_dirty_end s' = m_backing_dirty_end t \<and>
    (\<forall>content. files s' (m_backing_file_value s') = Some content \<longrightarrow> (\<forall>pos. off \<le> pos \<and> pos < off + len \<longrightarrow> content ! pos = m_data s' ! pos))"
proof -
  obtain content where c: "files t (m_backing_file_value t) = Some content" "length (m_data t) \<le> length content"
    "\<forall>pos < length (m_data t). \<not> in_dirty t pos \<longrightarrow> pos \<notin> X \<longrightarrow> content ! pos = m_data t ! pos"
    using assms(2) by (auto simp: backed_def)
  have m: "m_backing_map t" "m_open_backing_file t = m_backing_file_value t" "m_backing_size t = length content"
    using assms(3) c(1) by (auto simp: mapped_def)
  let ?new = "overwrite off (take len (drop off (m_data t))) content"
  define u where "u = t\<lparr>files := (files t)(m_backing_file_value t := Some ?new)\<rparr>"
  have "write_now_with ensure off len s = (True, u)"
    using assms(1,4,5) m c(1,2) by (auto simp: write_now_with_def u_def Let_def)
  moreover have fit: "off + length (take len (drop off (m_data t))) \<le> length content" using assms(4) c(2) by simp
  have new: "?new ! pos = (if off \<le> pos \<and> pos < off + len then m_data t ! pos else content ! pos)" if "pos < length content" for pos
    using that nth_overwrite[OF fit that] assms(4) by auto
  moreover have "backed (X - {off..<off + len}) u"
    using assms(2) c m fit new by (auto simp: backed_def u_def in_dirty_def)
  moreover have "\<forall>pos. off \<le> pos \<and> pos < off + len \<longrightarrow> ?new ! pos = m_data t ! pos" using new assms(4) c(2) by auto
  ultimately show ?thesis by (intro exI[of _ u]) (simp add: u_def)
qed


lemma backed_mono: "backed X s \<Longrightarrow> X \<subseteq> Y \<Longrightarrow> backed Y s"
  unfolding backed_def by (elim conjE exE, intro conjI exI) (assumption | blast)+

lemma close_mapped_sel [simp]:
  "m_backing_file_value (close_mapped s) = m_backing_file_value s" "m_backing_dirty (close_mapped s) = m_backing_dirty s"
  "m_backing_dirty_start (close_mapped s) = m_backing_dirty_start s" "m_backing_dirty_end (close_mapped s) = m_backing_dirty_end s"
  "m_data (close_mapped (s :: strata_flash)) = m_data s"
  by (simp_all add: close_mapped_def)

lemma ensure_with_sel:
  assumes "\<And>s. m_backing_dirty (close s) = m_backing_dirty s" "\<And>s. m_backing_dirty_start (close s) = m_backing_dirty_start s"
    "\<And>s. m_backing_dirty_end (close s) = m_backing_dirty_end s"
  shows "m_backing_dirty (snd (ensure_backing_with close s)) = m_backing_dirty s"
    "m_backing_dirty_start (snd (ensure_backing_with close s)) = m_backing_dirty_start s"
    "m_backing_dirty_end (snd (ensure_backing_with close s)) = m_backing_dirty_end s"
  using assms by (simp_all add: ensure_backing_with_def Let_def split: option.split)

lemma flush_backed:
  assumes "backed X s"
  shows "backed X (flush_deferred_backing s) \<and> \<not> m_backing_dirty (flush_deferred_backing s)"
proof (cases "m_backing_dirty s")
  case False
  then show ?thesis using assms by (simp add: flush_deferred_backing_def)
next
  case True
  have path: "m_backing_file_value s \<noteq> []" using assms by (simp add: backed_def)
  let ?start = "m_backing_dirty_start s" and ?len = "m_backing_dirty_end s - m_backing_dirty_start s + 1"
  let ?ens = "ensure_backing_with close_mapped :: strata_flash \<Rightarrow> bool \<times> strata_flash"
  obtain t where t: "?ens s = (True, t)" "backed X t" "mapped t"
    using ensure_with_backed[OF assms, of close_mapped] backed_close by auto
  have d: "m_backing_dirty t = m_backing_dirty s" "m_backing_dirty_start t = ?start" "m_backing_dirty_end t = m_backing_dirty_end s"
    using ensure_with_sel[of "close_mapped :: strata_flash \<Rightarrow> strata_flash" s] t(1) by simp_all
  then have range: "?start + ?len \<le> length (m_data t)" "?start + ?len = m_backing_dirty_end s + 1"
    using t(2) True by (auto simp: backed_def)
  obtain u where u: "write_now_with ?ens ?start ?len s = (True, u)" "backed (X - {?start..<?start + ?len}) u"
    "m_backing_dirty u = m_backing_dirty t" "m_backing_dirty_start u = ?start" "m_backing_dirty_end u = m_backing_dirty_end s"
    "\<forall>content. files u (m_backing_file_value u) = Some content \<longrightarrow>
       (\<forall>pos. ?start \<le> pos \<and> pos < ?start + ?len \<longrightarrow> content ! pos = m_data u ! pos)"
    using write_now_backed[where ensure = ?ens, OF t(1-3) range(1)] d by auto
  let ?v = "u\<lparr>m_backing_dirty := False, m_backing_deferred_since_flush := 0\<rparr>"
  obtain content where c: "files u (m_backing_file_value u) = Some content" "length (m_data u) \<le> length content"
    "\<And>pos. pos < length (m_data u) \<Longrightarrow> \<not> in_dirty u pos \<Longrightarrow> pos \<notin> X - {?start..<?start + ?len} \<Longrightarrow> content ! pos = m_data u ! pos"
    using u(2) by (auto simp: backed_def)
  have same: "content ! pos = m_data u ! pos" if "pos < length (m_data u)" "pos \<notin> X" for pos
  proof (cases "?start \<le> pos \<and> pos < ?start + ?len")
    case True then show ?thesis using u(6) c(1) by blast
  next
    case False
    then show ?thesis using c(3)[OF that(1)] that(2) u(4,5) range(2) by (auto simp: in_dirty_def)
  qed
  have "backed X ?v" using u(2) c(1,2) same by (simp add: backed_def)
  moreover have "flush_deferred_backing s = count_stat St_backing_flush_bytes (of_nat ?len) (count1 St_backing_flush_ops ?v)"
    using True path u(1) by (simp add: flush_deferred_backing_def Let_def)
  moreover have "m_backing_dirty (count_stat c n w) = m_backing_dirty w" for c n and w :: strata_flash by (simp add: count_stat_def)
  ultimately show ?thesis by simp
qed

lemma ensure_backed:
  assumes "backed X s"
  shows "\<exists>t. ensure_backing_file s = (True, t) \<and> backed X t \<and> mapped t \<and> (m_backing_dirty t \<longrightarrow> t = s)"
proof -
  have close: "backed X (close_backing_file t)" "\<not> m_backing_dirty (close_backing_file t)" if "backed X t" for t
    using flush_backed[OF that] backed_close by (simp_all add: close_backing_file_def)
  have "m_backing_file_value (close_backing_file t) = m_backing_file_value t" for t :: strata_flash
    by (simp add: close_backing_file_def)
  then show ?thesis
    using ensure_with_backed[OF assms, of close_backing_file] close assms by (auto simp: ensure_backing_file_def)
qed

lemma write_range_now_backed:
  assumes "backed {off..<off + len} s" and "off + len \<le> length (m_data s)" and "0 < len"
  shows "backed {} (snd (write_backing_range_now off len s))"
proof -
  obtain t where t: "ensure_backing_file s = (True, t)" "backed {off..<off + len} t" "mapped t"
    using ensure_backed[OF assms(1)] by blast
  have "m_data t = m_data s" using ensure_backing_sel(1)[of s] t(1) by simp
  then have "off + len \<le> length (m_data t)" using assms(2) by simp
  from write_now_backed[where ensure = ensure_backing_file, OF t this assms(3)]
  obtain u where "write_backing_range_now off len s = (True, u)" "backed ({off..<off + len} - {off..<off + len}) u"
    unfolding write_backing_range_now_def by blast
  then show ?thesis by (simp only: Diff_cancel snd_conv)
qed

lemma mark_dirty_backed:
  assumes "backed {off..<off + len} s" and "off + len \<le> length (m_data s)" and "0 < len"
  shows "backed {} (mark_backing_dirty off len s)"
proof -
  have "pos \<le> off + len - 1 \<longleftrightarrow> pos < off + len" for pos using assms(3) by auto
  then show ?thesis
    using assms by (auto simp: mark_backing_dirty_def backed_def in_dirty_def Let_def min_def max_def)
qed

text \<open>Writing the changed range, at once or deferred, puts file and array in agreement again.\<close>

lemma write_range_backed:
  assumes "backed {off..<off + len} s" and "off + len \<le> length (m_data s)" and "0 < len"
  shows "backed {} (write_backing_range off len s)"
proof -
  have path: "m_backing_file_value s \<noteq> []" using assms(1) by (simp add: backed_def)
  define s1 where "s1 = count_stat St_backing_write_bytes (of_nat len) (count1 St_backing_write_ops s)"
  define s2 where "s2 = mark_backing_dirty off len (count_stat St_backing_deferred_bytes (of_nat len) (count1 St_backing_deferred_ranges s1))"
  have s1: "backed {off..<off + len} s1" "m_data s1 = m_data s" using assms(1) by (simp_all add: s1_def)
  have s2: "backed {} (s2\<lparr>m_backing_deferred_since_flush := k\<rparr>)" for k
    using mark_dirty_backed[of off len "count_stat St_backing_deferred_bytes (of_nat len) (count1 St_backing_deferred_ranges s1)"] s1 assms(2,3)
    by (simp add: s2_def)
  show ?thesis
    using path assms(2,3) write_range_now_backed[OF s1(1)] s1(2) s2 flush_backed[OF s2]
    by (auto simp: write_backing_range_def s1_def[symmetric] s2_def[symmetric] Let_def)
qed


subsection \<open>Every access keeps file and array in agreement\<close>

lemma backed_change:
  assumes "backed {} s" and "length d = length (m_data s)" and "\<And>pos. pos < length d \<Longrightarrow> pos \<notin> X \<Longrightarrow> d ! pos = m_data s ! pos"
  shows "backed X (s\<lparr>m_data := d\<rparr>)"
  using assms by (auto simp: backed_def in_dirty_def)

lemma loop_range:
  assumes "off + length bs \<le> length d" and "fold (program_loop_step ff off bs) [0..<length bs] (d, 0, length bs, 0) = (arr, changed, first, lst)"
  shows "length arr = length d" "\<And>pos. pos < length arr \<Longrightarrow> pos \<notin> {off + first..<off + first + (lst - first + 1)} \<Longrightarrow> arr ! pos = d ! pos"
    "first = length bs \<or> first \<le> lst \<and> lst < length bs" "first = length bs \<Longrightarrow> arr = d"
proof -
  have inv: "arr = nor_program ff off bs d"
    "\<And>i. i < length bs \<Longrightarrow> programmed_byte ff (d ! (off + i)) (bs ! i) \<noteq> d ! (off + i) \<Longrightarrow> first \<le> i \<and> i \<le> lst"
    "first = length bs \<or> first \<le> lst \<and> lst < length bs"
    using program_loop[OF assms(1) order_refl, of ff] unfolding assms(2) loop_state_def by auto
  show len: "length arr = length d" using inv(1) by simp
  show "first = length bs \<or> first \<le> lst \<and> lst < length bs" by (rule inv(3))
  have out: "off \<le> pos \<and> pos < off + length bs \<and> first \<le> pos - off \<and> pos - off \<le> lst" if "pos < length arr" "arr ! pos \<noteq> d ! pos" for pos
  proof -
    have pos: "off \<le> pos" "pos < off + length bs" "programmed_byte ff (d ! pos) (bs ! (pos - off)) \<noteq> d ! pos"
      using that by (auto simp: inv(1) nth_nor_program split: if_splits)
    then show ?thesis using inv(2)[of "pos - off"] by auto
  qed
  then show "\<And>pos. pos < length arr \<Longrightarrow> pos \<notin> {off + first..<off + first + (lst - first + 1)} \<Longrightarrow> arr ! pos = d ! pos"
    by force
  show "first = length bs \<Longrightarrow> arr = d" using out len by (intro nth_equalityI) force+
qed

lemma program_many_backed:
  assumes "backed {} s" and "off + length bs \<le> length (m_data s)"
  shows "backed {} (program_many off bs s)"
proof -
  define s1 where "s1 = count_stat St_program_bytes (of_nat (length bs)) (count1 St_program_ops s)"
  have s1: "m_data s1 = m_data s" "backed {} s1" using assms(1) by (simp_all add: s1_def)
  obtain arr changed first lst where loop:
    "fold (program_loop_step (m_program_ff_sets_bits_value s1) off bs) [0..<length bs] (m_data s1, 0, length bs, 0) = (arr, changed, first, lst)"
    by (metis prod_cases4)
  note r = loop_range[OF assms(2)[folded s1(1)] loop]
  define s2 where "s2 = count_stat St_program_noop_bytes (of_nat (length bs - changed))
      (count_stat St_program_changed_bytes (of_nat changed) (s1\<lparr>m_data := arr\<rparr>))"
  have eq: "program_many off bs s = set_idle_status (if first \<noteq> length bs
      then write_backing_range (off + first) (lst - first + 1) (mark_programmed_range (off + first) (lst - first + 1) s2) else s2)"
    using loop unfolding program_many_def s1_def[symmetric] s2_def Let_def by simp
  show ?thesis
  proof (cases "first = length bs")
    case True
    have "s1\<lparr>m_data := m_data s1\<rparr> = s1" by simp
    then have "backed {} s2" using r(4)[OF True] s1(2) by (simp add: s2_def)
    then show ?thesis using True by (simp add: eq)
  next
    case False
    have "backed {off + first..<off + first + (lst - first + 1)} (s1\<lparr>m_data := arr\<rparr>)"
      by (rule backed_change[OF s1(2) r(1,2)])
    then have "backed {off + first..<off + first + (lst - first + 1)} (mark_programmed_range (off + first) (lst - first + 1) s2)"
      by (simp add: s2_def)
    moreover have "off + first + (lst - first + 1) \<le> length (m_data s2)"
      using r(1,3) False assms(2) s1(1) by (simp add: s2_def)
    ultimately show ?thesis
      using False write_range_backed[of "off + first" "lst - first + 1" "mark_programmed_range (off + first) (lst - first + 1) s2"]
      by (simp add: eq)
  qed
qed

lemma erase_backed:
  assumes "backed {} s" and "erase_sector off s = Some s'" and "off < length (m_data s)"
  shows "backed {} s'"
proof -
  define ss where "ss = unat (m_sector_size_value s)"
  define start where "start = off div ss * ss"
  define len where "len = min (start + ss) (length (m_data s)) - start"
  define s1 where "s1 = count_stat St_sector_erase_bytes (of_nat len) (count1 St_sector_erase_ops s)"
  obtain e t where t: "sector_is_erased start s1 = (e, t)" by fastforce
  have ss: "0 < ss" using assms(2) by (auto simp: erase_sector_def ss_def Let_def split: if_splits)
  have st: "start \<le> off" by (simp add: start_def)
  have "off < start + ss" using ss by (simp add: start_def) (metis dividend_less_div_times add.commute)
  then have fits: "start + len \<le> length (m_data s)" "0 < len" using st assms(3) ss by (auto simp: len_def)
  have b: "backed {} t" "m_data t = m_data s"
    using t assms(1) by (auto simp: sector_is_erased_def s1_def Let_def split: if_splits)
  have eq: "Some s' = (if e then Some (set_idle_status t)
      else Some (set_idle_status (write_backing_range start len (mark_sector_erased start
             (t\<lparr>m_data := overwrite start (replicate len 0xff) (m_data t)\<rparr>)))))"
    using assms(2) ss t unfolding erase_sector_def s1_def len_def start_def ss_def Let_def by simp
  have "backed {start..<start + len} (t\<lparr>m_data := overwrite start (replicate len 0xff) (m_data t)\<rparr>)"
    using fits b(2) nth_overwrite[of start "replicate len 0xff" "m_data t"] by (intro backed_change[OF b(1)]) auto
  then have "backed {} (write_backing_range start len (mark_sector_erased start (t\<lparr>m_data := overwrite start (replicate len 0xff) (m_data t)\<rparr>)))"
    using fits b(2) by (intro write_range_backed) (simp_all add: mark_sector_erased_def Let_def)
  then show ?thesis using eq b(1) by (auto split: if_splits)
qed

lemma program_backed:
  assumes "flash_ok s" and "backed {} s" and "program off bs s = Some s'" and "bs \<noteq> []"
  shows "backed {} s'"
proof -
  have fits: "off + length bs \<le> length (m_data s)" using assms(3) by (auto simp: program_def split: if_splits)
  then have off: "off < length (m_data s)" "m_data s \<noteq> []" using assms(4) by (cases bs; auto)+
  have one: "program_one off (bs ! 0) s = program_many off bs s" if "length bs = 1" "\<not> m_stats_collecting s"
    using that off assms(1) program_one_eq[of s off "bs ! 0"] by (cases bs) (auto simp: flash_ok_def)
  show ?thesis
    using assms(2,3) fits off program_many_backed[OF assms(2) fits] one
    by (auto simp: program_def dest: erase_backed[rotated] split: if_splits)
qed


lemma backed_commands [simp]:
  "backed X (start_command c s) = backed X s" "backed X (record_command c s) = backed X s" "backed X (invalidate_dmi s) = backed X s"
  "backed X (begin_write_buffer off bs s) = backed X s" "backed X (collect_write_buffer_data off bs s) = backed X s"
  "backed X (finish_access s) = backed X s"
proof -
  have upd: "backed X (t\<lparr>m_status := x\<rparr>) = backed X t" "backed X (t\<lparr>m_mode := m\<rparr>) = backed X t"
    "backed X (t\<lparr>invalidations := i\<rparr>) = backed X t" "backed X (t\<lparr>fl_trace_count := k\<rparr>) = backed X t"
    "backed X (t\<lparr>m_write_buffer_base := n\<rparr>) = backed X t" "backed X (t\<lparr>m_write_buffer := wb\<rparr>) = backed X t"
    "backed X (t\<lparr>m_write_buffer_written := wr\<rparr>) = backed X t" for t x m i k n wb wr
    by (simp_all add: backed_def in_dirty_def)
  show "backed X (start_command c s) = backed X s" "backed X (record_command c s) = backed X s" "backed X (invalidate_dmi s) = backed X s"
    "backed X (begin_write_buffer off bs s) = backed X s" "backed X (collect_write_buffer_data off bs s) = backed X s"
    "backed X (finish_access s) = backed X s"
    by (simp_all add: start_command_def record_command_def invalidate_dmi_def begin_write_buffer_def collect_write_buffer_data_def
        finish_access_def flash_trace_access_def upd Let_def)
qed

lemma handle_backed:
  assumes "backed {} s" and "handle_command off c s = Some s'" and "off < length (m_data s)"
  shows "backed {} s'"
  using assms erase_backed[of "record_command c s" off s']
  by (auto simp: handle_command_def Let_def split: pending_command.splits if_splits)

lemma confirm_backed:
  assumes "flash_ok s" and "backed {} s" and "confirm_write_buffer s = Some s'"
  shows "backed {} s'"
proof -
  let ?t = "count_stat St_write_buffer_bytes (of_nat (length (m_write_buffer s))) (count1 St_write_buffer_ops (count1 St_write_buffer_confirm_cmds s))"
  show ?thesis
  proof (cases "write_buffer_complete s")
    case True
    then have "m_write_buffer s \<noteq> []" using assms(1) by (auto simp: write_buffer_complete_def flash_ok_def buffer_ok_def)
    then show ?thesis
      using True assms program_backed[of ?t "m_write_buffer_base s" "m_write_buffer s"]
      by (auto simp: confirm_write_buffer_def write_buffer_complete_def Let_def split: bind_splits)
  next
    case False
    then have "\<not> (m_write_buffer_written s \<noteq> [] \<and> list_all id (m_write_buffer_written s))" by (simp add: write_buffer_complete_def)
    then show ?thesis using assms(2,3) unfolding confirm_write_buffer_def write_buffer_complete_def Let_def by auto
  qed
qed

lemma write_backed:
  assumes "flash_ok s" and "backed {} s" and "flash_write off bs s = Some s'" and "bs \<noteq> []" and "off < length (m_data s)"
  shows "backed {} s'"
  using assms program_backed[OF assms(1,2)] confirm_backed[OF assms(1,2)] handle_backed[of "invalidate_dmi s"]
  by (auto simp: flash_write_def split: if_splits)

lemma find_backed: "find_dmi_range a n s = (r, t) \<Longrightarrow> backed X s \<Longrightarrow> backed X t"
proof -
  assume f: "find_dmi_range a n s = (r, t)" and b: "backed X s"
  then have "m_data s \<noteq> []" by (simp add: backed_def)
  then have "t = s \<or> t = refresh_dmi_ranges s" using f by (auto simp: find_dmi_range_def storage_id Let_def split: if_splits)
  moreover have "backed X (u\<lparr>m_open_dmi_ranges := o'\<rparr>) = backed X u" "backed X (u\<lparr>m_dmi_ranges_valid := v\<rparr>) = backed X u" "backed X (u\<lparr>m_dmi_ranges := q\<rparr>) = backed X u" for u o' q v
    by (simp_all add: backed_def in_dirty_def)
  then have "backed X (refresh_dmi_ranges s)"
    using b \<open>m_data s \<noteq> []\<close> by (auto simp: refresh_dmi_ranges_def storage_id Let_def split: option.split)
  ultimately show ?thesis using b by blast
qed

lemma hint_backed: "dmi_hint p s = (h, t) \<Longrightarrow> backed X s \<Longrightarrow> backed X t"
  by (auto simp: dmi_hint_def dest: find_backed split: if_splits prod.splits)

lemma access_backed:
  assumes "flash_ok s" and "backed {} s" and "flash_access debug t s = Some (ok, t', s')"
  shows "backed {} s'"
proof -
  have acc: "flash_access True t s = Some (ok, t', s')" using assms(3) flash_fast_path by (cases debug) auto
  have st: "ensure_storage s = s" using assms(2) by (intro storage_id) (simp add: backed_def)
  have n: "unat (p_len t) \<noteq> 0" if "p_len t \<noteq> 0" using that by (simp add: unat_eq_zero)
  have w: "backed {} u" if "flash_write (unat (p_address t)) (take (unat (p_len t)) buf) (count_stat a i (count_stat b j s)) = Some u"
    "p_len t \<noteq> 0" "unat (p_address t) + unat (p_len t) \<le> length (m_data s)" "unat (p_len t) \<le> length buf" for buf a b i j u
    by (rule write_backed[OF _ _ that(1)]) (use that(2-4) n assms(1,2) in auto)
  show ?thesis
    using acc w assms(2) unfolding flash_access_full st
    by (auto dest: hint_backed split: option.splits if_splits prod.splits)
qed

lemma grant_backed:
  assumes "backed {} s" shows "backed {} (snd (grant_dmi r s))"
proof -
  obtain t where t: "ensure_backing_file (flush_deferred_backing s) = (True, t)" "backed {} t"
    using ensure_backed flush_backed[OF assms] by blast
  have "m_backing_file_value s \<noteq> []" using assms by (simp add: backed_def)
  then show ?thesis using t by (simp add: grant_dmi_def split_beta Let_def)
qed

lemma dmi_backed:
  assumes "backed {} s" shows "backed {} (snd (flash_get_direct_mem_ptr t s))"
proof -
  define s1 where "s1 = count1 St_dmi_requests (ensure_storage s)"
  obtain rng u where f: "find_dmi_range (p_address t) (p_len t) s1 = (rng, u)" by fastforce
  have "ensure_storage s = s" using assms by (intro storage_id) (simp add: backed_def)
  then have b: "backed {} s1" "backed {} u" using assms find_backed[OF f] by (simp_all add: s1_def)
  have rej: "backed {} (snd (reject_dmi c v)) = backed {} v" for c v by (simp add: reject_dmi_def Let_def)
  show ?thesis
    unfolding flash_get_direct_mem_ptr_def Let_def s1_def[symmetric] f using b grant_backed[OF b(2)] rej by (simp split: option.split)
qed

fun keeps_backing :: "flash_op \<Rightarrow> bool" where
  "keeps_backing (Op_param (P_backing_file f)) = False"
| "keeps_backing (Op_load bs off) = False"
| "keeps_backing _ = True"

lemma param_backed:
  assumes "backed {} s" and "keeps_backing (Op_param p)" shows "backed {} (write_param p s)"
proof -
  have upd: "backed {} (t\<lparr>m_trace_enabled := b\<rparr>) = backed {} t" "backed {} (t\<lparr>m_trace_limit_value := k\<rparr>) = backed {} t"
    "backed {} (t\<lparr>m_enable_dmi_value := b\<rparr>) = backed {} t" "backed {} (t\<lparr>m_program_ff_sets_bits_value := b\<rparr>) = backed {} t"
    "backed {} (t\<lparr>m_program_ff_erases_sector_value := b\<rparr>) = backed {} t" "backed {} (t\<lparr>fp_dmi_ranges := x\<rparr>) = backed {} t"
    "backed {} (refresh_stats_collecting (t\<lparr>fp_stats_file := x\<rparr>)) = backed {} t"
    "backed {} (refresh_stats_collecting (t\<lparr>fp_stats_interval := k\<rparr>)) = backed {} t"
    "backed {} (rebuild_sector_erased_map (t\<lparr>m_sector_size_value := n\<rparr>)) = backed {} t" for t b k x n
    by (simp_all add: backed_def in_dirty_def refresh_stats_collecting_def rebuild_sector_erased_map_def)
  show ?thesis using assms flush_backed[OF assms(1)] by (cases p) (simp_all add: upd)
qed

lemma step_backed:
  assumes "flash_ok s" and "backed {} s" and "keeps_backing x" and "flash_step x s = Some s'"
  shows "backed {} s'"
  using assms access_backed[OF assms(1,2)] dmi_backed[OF assms(2)] param_backed[OF assms(2)]
  by (cases x) (auto simp: flash_b_transport_def flash_transport_dbg_def split: bind_splits)


lemma run_backed:
  assumes "flash_ok s" and "m_sector_size_value s \<noteq> 0" and "backed {} s" and "\<forall>x \<in> set xs. op_ok x \<and> keeps_backing x"
  shows "\<exists>s'. flash_run xs s = Some s' \<and> backed {} s'"
  using assms
proof (induction xs arbitrary: s)
  case Nil then show ?case by simp
next
  case (Cons x xs)
  obtain s1 where s1: "flash_step x s = Some s1" "flash_ok s1" "m_sector_size_value s1 \<noteq> 0"
    using step_ok[OF Cons.prems(1,2), of x] Cons.prems(4) by auto
  have "backed {} s1" using step_backed[OF Cons.prems(1,3) _ s1(1)] Cons.prems(4) by simp
  then show ?case using Cons.IH[OF s1(2,3)] s1(1) Cons.prems(4) by simp
qed

lemma flushed_content:
  assumes "backed {} s" and "\<not> m_backing_dirty s"
  shows "\<exists>content. files s (m_backing_file_value s) = Some content \<and> take (length (m_data s)) content = m_data s"
proof -
  obtain content where c: "files s (m_backing_file_value s) = Some content" "length (m_data s) \<le> length content"
    "\<forall>pos < length (m_data s). content ! pos = m_data s ! pos"
    using assms by (auto simp: backed_def in_dirty_def)
  then have "take (length (m_data s)) content = m_data s" by (intro nth_equalityI) auto
  then show ?thesis using c(1) by blast
qed

text \<open>
  C18. Starting with a backing file that has the bytes of the array, no sequence of accesses, direct access requests and changes of other parameters
  loses a byte: with deferred writes or without, writing the deferred range out, as the destructor and every change of the
  backing parameters does, leaves the array's bytes at the start of the file.
\<close>

theorem flash_backing_agrees:
  assumes "flash_ok s" and "m_sector_size_value s \<noteq> 0" and "backed {} s" and "\<forall>x \<in> set xs. op_ok x \<and> keeps_backing x"
  shows "\<exists>s' content. flash_run xs s = Some s' \<and>
    files (flash_destroy s') (m_backing_file_value s') = Some content \<and> take (length (m_data s')) content = m_data s'"
proof -
  obtain s' where s': "flash_run xs s = Some s'" "backed {} s'" using run_backed[OF assms] by blast
  let ?t = "write_stats_file (flush_deferred_backing s')"
  have stats: "files (write_stats_file u) = files u" "m_backing_dirty (write_stats_file u) = m_backing_dirty u"
    "m_backing_file_value (write_stats_file u) = m_backing_file_value u" "m_data (write_stats_file u) = m_data u"
    for u :: strata_flash by (simp_all add: write_stats_file_def)
  have f: "backed {} (flush_deferred_backing s')" "\<not> m_backing_dirty (flush_deferred_backing s')" using flush_backed[OF s'(2)] by simp_all
  have "files (flash_destroy s') = files (flush_deferred_backing s')"
    using f(2) by (simp add: flash_destroy_def close_backing_file_def flush_deferred_backing_def[of ?t] stats close_mapped_def)
  then show ?thesis using s'(1) flushed_content[OF f] by auto
qed

text \<open>The byte a reader sees through a granted pointer, at a distance from its start.\<close>

definition pointer_byte :: "strata_flash \<Rightarrow> flash_dmi \<Rightarrow> nat \<Rightarrow> u8 option" where
  "pointer_byte s p i =
     (case fd_ptr p of
        In_array k \<Rightarrow> if k + i < length (m_data s) then Some (m_data s ! (k + i)) else None
      | In_backing k \<Rightarrow>
          (case map_option (files s \<circ> fst) (fd_file p) of
             Some (Some content) \<Rightarrow> if k + i < length content then Some (content ! (k + i)) else None
           | _ \<Rightarrow> None))"

text \<open>
  A pointer granted on a flash whose backing file agrees with it, whether it points into the array or into the mapped file, reads the bytes of
  the array: deferred writes have been written out before.
\<close>

theorem flash_pointer_reads:
  assumes "backed {} s" and "flash_get_direct_mem_ptr t s = (Some p, s')" and "unat (fd_start p) + i < length (m_data s)"
  shows "m_data s' = m_data s \<and> pointer_byte s' p i = Some (m_data s ! (unat (fd_start p) + i))"
proof -
  define s1 where "s1 = count1 St_dmi_requests (ensure_storage s)"
  have "ensure_storage s = s" using assms(1) by (intro storage_id) (simp add: backed_def)
  then have s1: "backed {} s1" "m_data s1 = m_data s" "m_data s1 \<noteq> []" using assms(1) by (simp_all add: s1_def) (simp add: backed_def)
  have rej: "fst (reject_dmi c v) = None" for c v by (simp add: reject_dmi_def)
  obtain rng u where f: "find_dmi_range (p_address t) (p_len t) s1 = (Some rng, u)" "grant_dmi rng u = (Some p, s')"
    using assms(2) rej unfolding flash_get_direct_mem_ptr_def Let_def s1_def[symmetric]
    by (auto split: if_splits prod.splits option.splits simp: reject_dmi_def)
  have u: "backed {} u" "m_data u = m_data s"
    using find_backed[OF f(1) s1(1)] ranges_only_sel(3)[OF find_ranges[OF f(1) s1(3)]] s1(2) by simp_all
  obtain start stop where rng: "rng = (start, stop)" by fastforce
  obtain v where v: "ensure_backing_file (flush_deferred_backing u) = (True, v)" "backed {} v" "mapped v" "\<not> m_backing_dirty v"
    using ensure_backed flush_backed[OF u(1)] by blast
  have vd: "m_data v = m_data s" using ensure_backing_sel(1)[of "flush_deferred_backing u"] v(1) u(2) by simp
  have path: "m_backing_file_value (flush_deferred_backing u) \<noteq> []" using u(1) by (simp add: backed_def)
  let ?b = "unat stop < m_backing_size v"
  have p: "p = \<lparr>fd_ptr = (if ?b then In_backing (unat start) else In_array (unat start)), fd_start = start, fd_end = stop,
      fd_file = (if ?b then Some (m_open_backing_file v, m_backing_size v) else None)\<rparr>"
    using f(2) v(1,3) path by (simp add: grant_dmi_def rng mapped_def Let_def)
  have stats: "files (count_stat c n w) = files w" "files (maybe_write_dmi_stats b w) = files w" for c n b and w :: strata_flash
    by (simp_all add: count_stat_def maybe_write_dmi_stats_def write_stats_file_def Let_def)
  have s': "files s' = files v" "m_data s' = m_data s"
    using f(2) v(1) path vd by (auto simp: grant_dmi_def rng stats Let_def)
  obtain content where c: "files v (m_backing_file_value v) = Some content" "take (length (m_data v)) content = m_data v"
    using flushed_content[OF v(2,4)] by blast
  have "length (m_data v) \<le> length content" using c v(2) by (auto simp: backed_def)
  moreover have "content ! k = m_data s ! k" if "k < length (m_data s)" for k
    using c(2) that vd by (metis nth_take)
  ultimately show ?thesis
    using s' assms(3) v(3) c(1) vd by (auto simp: pointer_byte_def p mapped_def)
qed

definition backed_flash :: strata_flash where
  "backed_flash = ensure_storage (flash_construct
     (flash_default_config\<lparr>fp_size := 64, m_sector_size_value := 16, m_enable_dmi_value := True, m_backing_file_value := ''nor'', m_defer_backing_write_value := True\<rparr>)
     (\<lambda>_. Some (replicate 64 0xff)) (\<lambda>_. True) True)"

lemma backed_flash_backed: "backed {} backed_flash"
  by (simp add: backed_flash_def backed_def in_dirty_def ensure_storage_def initialize_sector_erased_map_def
      flash_construct_def flash_default_config_def)

lemma backed_flash_ok: "flash_ok backed_flash" "m_sector_size_value backed_flash \<noteq> 0"
  using storage_ok[OF construct_ok] by (auto simp: backed_flash_def)
    (simp add: flash_construct_def flash_default_config_def)

lemma flash_backing_agrees_witness:
  "\<exists>s' content. flash_run [Op_transport (write_payload 8 [0x40]), Op_transport (write_payload 8 [0x12]), Op_dmi (read_payload 0 4)] backed_flash = Some s' \<and>
     files (flash_destroy s') (m_backing_file_value s') = Some content \<and> take (length (m_data s')) content = m_data s'"
  by (rule flash_backing_agrees[OF backed_flash_ok backed_flash_backed]) (simp add: wf_payload_def)

lemma backed_flash_grant: "map_option fd_start (fst (flash_get_direct_mem_ptr (read_payload 0 4) backed_flash)) = Some 0"
proof -
  define s1 where "s1 = count1 St_dmi_requests (ensure_storage backed_flash)"
  have s1: "m_data s1 = replicate 64 0xff" "m_enable_dmi_value s1" "m_mode s1 = Mode_read_array" "m_pending s1 = Pending_none"
    "m_open_dmi_ranges s1 = []" "fp_dmi_ranges s1 = []" "m_dmi_ranges_valid s1"
    by (simp_all add: s1_def backed_flash_def storage_data flash_construct_def flash_default_config_def)
      (simp_all add: ensure_storage_def initialize_sector_erased_map_def)
  then have "refresh_dmi_ranges s1 = s1" by (simp add: refresh_dmi_ranges_def storage_id remove_spaces_def Let_def)
  then have f: "find_dmi_range 0 4 s1 = (Some (0, 63), s1)"
    using s1 by (simp add: find_dmi_range_def storage_id Let_def)
  show ?thesis using s1 f by (simp add: flash_get_direct_mem_ptr_def s1_def[symmetric] grant_dmi_def split_beta Let_def)
qed

lemma flash_pointer_reads_witness:
  "\<exists>p s'. flash_get_direct_mem_ptr (read_payload 0 4) backed_flash = (Some p, s') \<and> pointer_byte s' p 7 = Some 0xff"
proof -
  obtain p s' where g: "flash_get_direct_mem_ptr (read_payload 0 4) backed_flash = (Some p, s')" "fd_start p = 0"
    using backed_flash_grant by (cases "flash_get_direct_mem_ptr (read_payload 0 4) backed_flash") auto
  have "m_data backed_flash = replicate 64 0xff"
    by (simp add: backed_flash_def storage_data flash_construct_def flash_default_config_def)
  then have "pointer_byte s' p 7 = Some 0xff"
    using flash_pointer_reads[OF backed_flash_backed g(1), of 7] g(2) by simp
  then show ?thesis using g(1) by blast
qed

end
