(* ===== verification/Cc3xx_Aes.thy ===== *)
theory Cc3xx_Aes
  imports Tlm_Regs
begin

text \<open>
  The AES engine of the crypto cell (\<^verbatim>\<open>src/systemc-components/cc3xx/include/cc3xx_core.h\<close>): block encryption and decryption, the key schedule, counter mode on a
  buffer, CMAC. Arrays of bytes are lists; a block has 16 bytes, in the order of memory, which is column by column.
\<close>

subsection \<open>Bytes\<close>

definition aes_xtime :: "u8 \<Rightarrow> u8" where
  "aes_xtime v = push_bit 1 v XOR (if v AND 0x80 \<noteq> 0 then 0x1b else 0)"

definition sbox :: "u8 list" where
  "sbox =
    [0x63, 0x7c, 0x77, 0x7b, 0xf2, 0x6b, 0x6f, 0xc5, 0x30, 0x01, 0x67, 0x2b, 0xfe, 0xd7, 0xab, 0x76,
     0xca, 0x82, 0xc9, 0x7d, 0xfa, 0x59, 0x47, 0xf0, 0xad, 0xd4, 0xa2, 0xaf, 0x9c, 0xa4, 0x72, 0xc0,
     0xb7, 0xfd, 0x93, 0x26, 0x36, 0x3f, 0xf7, 0xcc, 0x34, 0xa5, 0xe5, 0xf1, 0x71, 0xd8, 0x31, 0x15,
     0x04, 0xc7, 0x23, 0xc3, 0x18, 0x96, 0x05, 0x9a, 0x07, 0x12, 0x80, 0xe2, 0xeb, 0x27, 0xb2, 0x75,
     0x09, 0x83, 0x2c, 0x1a, 0x1b, 0x6e, 0x5a, 0xa0, 0x52, 0x3b, 0xd6, 0xb3, 0x29, 0xe3, 0x2f, 0x84,
     0x53, 0xd1, 0x00, 0xed, 0x20, 0xfc, 0xb1, 0x5b, 0x6a, 0xcb, 0xbe, 0x39, 0x4a, 0x4c, 0x58, 0xcf,
     0xd0, 0xef, 0xaa, 0xfb, 0x43, 0x4d, 0x33, 0x85, 0x45, 0xf9, 0x02, 0x7f, 0x50, 0x3c, 0x9f, 0xa8,
     0x51, 0xa3, 0x40, 0x8f, 0x92, 0x9d, 0x38, 0xf5, 0xbc, 0xb6, 0xda, 0x21, 0x10, 0xff, 0xf3, 0xd2,
     0xcd, 0x0c, 0x13, 0xec, 0x5f, 0x97, 0x44, 0x17, 0xc4, 0xa7, 0x7e, 0x3d, 0x64, 0x5d, 0x19, 0x73,
     0x60, 0x81, 0x4f, 0xdc, 0x22, 0x2a, 0x90, 0x88, 0x46, 0xee, 0xb8, 0x14, 0xde, 0x5e, 0x0b, 0xdb,
     0xe0, 0x32, 0x3a, 0x0a, 0x49, 0x06, 0x24, 0x5c, 0xc2, 0xd3, 0xac, 0x62, 0x91, 0x95, 0xe4, 0x79,
     0xe7, 0xc8, 0x37, 0x6d, 0x8d, 0xd5, 0x4e, 0xa9, 0x6c, 0x56, 0xf4, 0xea, 0x65, 0x7a, 0xae, 0x08,
     0xba, 0x78, 0x25, 0x2e, 0x1c, 0xa6, 0xb4, 0xc6, 0xe8, 0xdd, 0x74, 0x1f, 0x4b, 0xbd, 0x8b, 0x8a,
     0x70, 0x3e, 0xb5, 0x66, 0x48, 0x03, 0xf6, 0x0e, 0x61, 0x35, 0x57, 0xb9, 0x86, 0xc1, 0x1d, 0x9e,
     0xe1, 0xf8, 0x98, 0x11, 0x69, 0xd9, 0x8e, 0x94, 0x9b, 0x1e, 0x87, 0xe9, 0xce, 0x55, 0x28, 0xdf,
     0x8c, 0xa1, 0x89, 0x0d, 0xbf, 0xe6, 0x42, 0x68, 0x41, 0x99, 0x2d, 0x0f, 0xb0, 0x54, 0xbb, 0x16]"

definition inv_sbox :: "u8 list" where
  "inv_sbox =
    [0x52, 0x09, 0x6a, 0xd5, 0x30, 0x36, 0xa5, 0x38, 0xbf, 0x40, 0xa3, 0x9e, 0x81, 0xf3, 0xd7, 0xfb,
     0x7c, 0xe3, 0x39, 0x82, 0x9b, 0x2f, 0xff, 0x87, 0x34, 0x8e, 0x43, 0x44, 0xc4, 0xde, 0xe9, 0xcb,
     0x54, 0x7b, 0x94, 0x32, 0xa6, 0xc2, 0x23, 0x3d, 0xee, 0x4c, 0x95, 0x0b, 0x42, 0xfa, 0xc3, 0x4e,
     0x08, 0x2e, 0xa1, 0x66, 0x28, 0xd9, 0x24, 0xb2, 0x76, 0x5b, 0xa2, 0x49, 0x6d, 0x8b, 0xd1, 0x25,
     0x72, 0xf8, 0xf6, 0x64, 0x86, 0x68, 0x98, 0x16, 0xd4, 0xa4, 0x5c, 0xcc, 0x5d, 0x65, 0xb6, 0x92,
     0x6c, 0x70, 0x48, 0x50, 0xfd, 0xed, 0xb9, 0xda, 0x5e, 0x15, 0x46, 0x57, 0xa7, 0x8d, 0x9d, 0x84,
     0x90, 0xd8, 0xab, 0x00, 0x8c, 0xbc, 0xd3, 0x0a, 0xf7, 0xe4, 0x58, 0x05, 0xb8, 0xb3, 0x45, 0x06,
     0xd0, 0x2c, 0x1e, 0x8f, 0xca, 0x3f, 0x0f, 0x02, 0xc1, 0xaf, 0xbd, 0x03, 0x01, 0x13, 0x8a, 0x6b,
     0x3a, 0x91, 0x11, 0x41, 0x4f, 0x67, 0xdc, 0xea, 0x97, 0xf2, 0xcf, 0xce, 0xf0, 0xb4, 0xe6, 0x73,
     0x96, 0xac, 0x74, 0x22, 0xe7, 0xad, 0x35, 0x85, 0xe2, 0xf9, 0x37, 0xe8, 0x1c, 0x75, 0xdf, 0x6e,
     0x47, 0xf1, 0x1a, 0x71, 0x1d, 0x29, 0xc5, 0x89, 0x6f, 0xb7, 0x62, 0x0e, 0xaa, 0x18, 0xbe, 0x1b,
     0xfc, 0x56, 0x3e, 0x4b, 0xc6, 0xd2, 0x79, 0x20, 0x9a, 0xdb, 0xc0, 0xfe, 0x78, 0xcd, 0x5a, 0xf4,
     0x1f, 0xdd, 0xa8, 0x33, 0x88, 0x07, 0xc7, 0x31, 0xb1, 0x12, 0x10, 0x59, 0x27, 0x80, 0xec, 0x5f,
     0x60, 0x51, 0x7f, 0xa9, 0x19, 0xb5, 0x4a, 0x0d, 0x2d, 0xe5, 0x7a, 0x9f, 0x93, 0xc9, 0x9c, 0xef,
     0xa0, 0xe0, 0x3b, 0x4d, 0xae, 0x2a, 0xf5, 0xb0, 0xc8, 0xeb, 0xbb, 0x3c, 0x83, 0x53, 0x99, 0x61,
     0x17, 0x2b, 0x04, 0x7e, 0xba, 0x77, 0xd6, 0x26, 0xe1, 0x69, 0x14, 0x63, 0x55, 0x21, 0x0c, 0x7d]"

definition aes_sbox :: "u8 \<Rightarrow> u8" where
  "aes_sbox v = sbox ! unat v"

definition aes_inv_sbox :: "u8 \<Rightarrow> u8" where
  "aes_inv_sbox v = inv_sbox ! unat v"

text \<open>The loop of \<^verbatim>\<open>aes_mul\<close>: the factor is shifted out bit by bit.\<close>

function aes_mul_loop :: "u8 \<Rightarrow> u8 \<Rightarrow> u8 \<Rightarrow> u8" where
  "aes_mul_loop result v factor =
     (if factor = 0 then result
      else aes_mul_loop (if factor AND 1 \<noteq> 0 then result XOR v else result) (aes_xtime v) (drop_bit 1 factor))"
  by pat_completeness auto
termination
proof (relation "measure (\<lambda>(result, v, factor). unat factor)")
  fix result v factor :: u8
  assume "factor \<noteq> 0"
  then have "0 < unat factor" by (simp add: unat_gt_0)
  then have "unat (drop_bit 1 factor) < unat factor" by (simp add: drop_bit_Suc unat_div_distrib)
  then show "((if factor AND 1 \<noteq> 0 then result XOR v else result, aes_xtime v, drop_bit 1 factor), result, v, factor)
      \<in> measure (\<lambda>(result, v, factor). unat factor)" by simp
qed simp

declare aes_mul_loop.simps [simp del]

definition aes_mul :: "u8 \<Rightarrow> u8 \<Rightarrow> u8" where
  "aes_mul v factor = aes_mul_loop 0 v factor"

subsection \<open>Rounds\<close>

type_synonym block = "u8 list"

definition aes_xor_block :: "block \<Rightarrow> block \<Rightarrow> block" where
  "aes_xor_block lhs rhs = map (\<lambda>i. lhs ! i XOR rhs ! i) [0..<16]"

definition aes_add_round_key :: "block \<Rightarrow> block \<Rightarrow> block" where
  "aes_add_round_key state round_key = map (\<lambda>i. state ! i XOR round_key ! i) [0..<16]"

definition aes_sub_bytes :: "block \<Rightarrow> block" where
  "aes_sub_bytes state = map (\<lambda>i. aes_sbox (state ! i)) [0..<16]"

definition aes_inv_sub_bytes :: "block \<Rightarrow> block" where
  "aes_inv_sub_bytes state = map (\<lambda>i. aes_inv_sbox (state ! i)) [0..<16]"

text \<open>The assignments that rotate the rows, as the byte each position gets.\<close>

definition aes_shift_rows :: "block \<Rightarrow> block" where
  "aes_shift_rows state = map ((!) state) [0, 5, 10, 15, 4, 9, 14, 3, 8, 13, 2, 7, 12, 1, 6, 11]"

definition aes_inv_shift_rows :: "block \<Rightarrow> block" where
  "aes_inv_shift_rows state = map ((!) state) [0, 13, 10, 7, 4, 1, 14, 11, 8, 5, 2, 15, 12, 9, 6, 3]"

definition mix_column :: "u8 \<Rightarrow> u8 \<Rightarrow> u8 \<Rightarrow> u8 \<Rightarrow> u8 list" where
  "mix_column a b c d =
     (let t = a XOR b XOR c XOR d
      in [a XOR (t XOR aes_xtime (a XOR b)), b XOR (t XOR aes_xtime (b XOR c)),
          c XOR (t XOR aes_xtime (c XOR d)), d XOR (t XOR aes_xtime (d XOR a))])"

definition inv_mix_column :: "u8 \<Rightarrow> u8 \<Rightarrow> u8 \<Rightarrow> u8 \<Rightarrow> u8 list" where
  "inv_mix_column a0 a1 a2 a3 =
     [aes_mul a0 0x0e XOR aes_mul a1 0x0b XOR aes_mul a2 0x0d XOR aes_mul a3 0x09,
      aes_mul a0 0x09 XOR aes_mul a1 0x0e XOR aes_mul a2 0x0b XOR aes_mul a3 0x0d,
      aes_mul a0 0x0d XOR aes_mul a1 0x09 XOR aes_mul a2 0x0e XOR aes_mul a3 0x0b,
      aes_mul a0 0x0b XOR aes_mul a1 0x0d XOR aes_mul a2 0x09 XOR aes_mul a3 0x0e]"

definition on_columns :: "(u8 \<Rightarrow> u8 \<Rightarrow> u8 \<Rightarrow> u8 \<Rightarrow> u8 list) \<Rightarrow> block \<Rightarrow> block" where
  "on_columns f s = concat (map (\<lambda>i. f (s ! (i * 4)) (s ! (i * 4 + 1)) (s ! (i * 4 + 2)) (s ! (i * 4 + 3))) [0..<4])"

definition aes_mix_columns :: "block \<Rightarrow> block" where
  "aes_mix_columns = on_columns mix_column"

definition aes_inv_mix_columns :: "block \<Rightarrow> block" where
  "aes_inv_mix_columns = on_columns inv_mix_column"

subsection \<open>Keys\<close>

definition rcon :: "u8 list" where
  "rcon = [0x00, 0x01, 0x02, 0x04, 0x08, 0x10, 0x20, 0x40, 0x80, 0x1b, 0x36]"

text \<open>One turn of the loop that expands the key: word \<open>i\<close> from word \<open>i - 1\<close> and word \<open>i - nk\<close>.\<close>

definition expand_word :: "nat \<Rightarrow> nat \<Rightarrow> u8 list \<Rightarrow> u8 list" where
  "expand_word nk i round_keys =
     (let t0 = round_keys ! ((i - 1) * 4); t1 = round_keys ! ((i - 1) * 4 + 1);
          t2 = round_keys ! ((i - 1) * 4 + 2); t3 = round_keys ! ((i - 1) * 4 + 3);
          temp = (if i mod nk = 0 then [aes_sbox t1 XOR rcon ! (i div nk), aes_sbox t2, aes_sbox t3, aes_sbox t0]
                  else if nk > 6 \<and> i mod nk = 4 then map aes_sbox [t0, t1, t2, t3]
                  else [t0, t1, t2, t3])
      in fold (\<lambda>j rk. rk[i * 4 + j := rk ! ((i - nk) * 4 + j) XOR temp ! j]) [0..<4] round_keys)"

definition aes_expand_key :: "u8 list \<Rightarrow> (u8 list \<times> nat) option" where
  "aes_expand_key key =
     (let key_len = length key
      in if key_len \<noteq> 16 \<and> key_len \<noteq> 24 \<and> key_len \<noteq> 32 then None
         else
           (let nk = key_len div 4; rounds = nk + 6; words = 4 * (rounds + 1)
            in Some (fold (expand_word nk) [nk..<words] (key @ replicate (240 - key_len) 0), rounds)))"

definition round_key :: "u8 list \<Rightarrow> nat \<Rightarrow> block" where
  "round_key round_keys r = drop (r * 16) round_keys"

subsection \<open>Blocks\<close>

definition encrypt_round :: "u8 list \<Rightarrow> nat \<Rightarrow> block \<Rightarrow> block" where
  "encrypt_round rk r state = aes_add_round_key (aes_mix_columns (aes_shift_rows (aes_sub_bytes state))) (round_key rk r)"

definition aes_encrypt_block :: "u8 list \<Rightarrow> block \<Rightarrow> block option" where
  "aes_encrypt_block key input =
     (case aes_expand_key key of
        None \<Rightarrow> None
      | Some (rk, rounds) \<Rightarrow>
          (let state = aes_add_round_key input (round_key rk 0);
               state = fold (encrypt_round rk) [1..<rounds] state
           in Some (aes_add_round_key (aes_shift_rows (aes_sub_bytes state)) (round_key rk rounds))))"

definition decrypt_round :: "u8 list \<Rightarrow> nat \<Rightarrow> block \<Rightarrow> block" where
  "decrypt_round rk r state = aes_inv_mix_columns (aes_add_round_key (aes_inv_sub_bytes (aes_inv_shift_rows state)) (round_key rk r))"

definition aes_decrypt_block :: "u8 list \<Rightarrow> block \<Rightarrow> block option" where
  "aes_decrypt_block key input =
     (case aes_expand_key key of
        None \<Rightarrow> None
      | Some (rk, rounds) \<Rightarrow>
          (let state = aes_add_round_key input (round_key rk rounds);
               state = fold (decrypt_round rk) (rev [1..<rounds]) state
           in Some (aes_add_round_key (aes_inv_sub_bytes (aes_inv_shift_rows state)) (round_key rk 0))))"

subsection \<open>Counter mode on a buffer\<close>

text \<open>From the last byte on: a byte that wraps to 0 carries into the next.\<close>

primrec increment_le :: "u8 list \<Rightarrow> u8 list" where
  "increment_le [] = []"
| "increment_le (b # bs) = (let b = b + 1 in if b \<noteq> 0 then b # bs else b # increment_le bs)"

definition aes_increment_counter :: "u8 list \<Rightarrow> u8 list" where
  "aes_increment_counter counter = rev (increment_le (rev counter))"

text \<open>The loop over the blocks; the first block of the key stream may be used from an offset on.\<close>

function ctr_loop :: "u8 list \<Rightarrow> u8 list \<Rightarrow> nat \<Rightarrow> u8 list \<Rightarrow> u8 list option" where
  "ctr_loop key counter stream_offset input =
     (if input = [] then Some []
      else if stream_offset \<ge> 16 then None
      else
        (case aes_encrypt_block key counter of
           None \<Rightarrow> None
         | Some stream \<Rightarrow>
             (let block_len = min (16 - stream_offset) (length input);
                  out = map (\<lambda>i. input ! i XOR stream ! (stream_offset + i)) [0..<block_len]
              in map_option ((@) out) (ctr_loop key (aes_increment_counter counter) 0 (drop block_len input)))))"
  by pat_completeness auto
termination
  by (relation "measure (\<lambda>(key, counter, stream_offset, input). length input)") auto

declare ctr_loop.simps [simp del]

definition aes_ctr_xcrypt_buffer :: "u8 list \<Rightarrow> u8 list \<Rightarrow> u8 list \<Rightarrow> nat \<Rightarrow> u8 list option" where
  "aes_ctr_xcrypt_buffer key counter input blk_off =
     (if length key \<noteq> 16 \<and> length key \<noteq> 24 \<and> length key \<noteq> 32 then None
      else if blk_off \<ge> 16 then None
      else ctr_loop key counter blk_off input)"

subsection \<open>CMAC\<close>

primrec shift_le :: "u8 \<Rightarrow> u8 list \<Rightarrow> u8 list" where
  "shift_le carry [] = []"
| "shift_le carry (b # bs) = (push_bit 1 b OR carry) # shift_le (if b AND 0x80 \<noteq> 0 then 1 else 0) bs"

definition aes_left_shift_block :: "block \<Rightarrow> block" where
  "aes_left_shift_block input = rev (shift_le 0 (rev input))"

definition cmac_subkey :: "block \<Rightarrow> block" where
  "cmac_subkey l = (let k = aes_left_shift_block l in if l ! 0 AND 0x80 \<noteq> 0 then k[15 := k ! 15 XOR 0x87] else k)"

text \<open>The block with index \<open>n\<close> of \<open>count\<close>, the last one padded where it is not complete and masked by a subkey.\<close>

definition cmac_block :: "block \<Rightarrow> block \<Rightarrow> u8 list \<Rightarrow> nat \<Rightarrow> nat \<Rightarrow> block" where
  "cmac_block k1 k2 data count n =
     (let chunk = take 16 (drop (n * 16) data); copy_len = length chunk;
          block = chunk @ replicate (16 - copy_len) 0
      in if n = count - 1
         then (if data \<noteq> [] \<and> length data mod 16 = 0 then aes_xor_block block k1
               else aes_xor_block (block[copy_len := 0x80]) k2)
         else block)"

fun cmac_loop :: "u8 list \<Rightarrow> (nat \<Rightarrow> block) \<Rightarrow> nat list \<Rightarrow> block \<Rightarrow> block option" where
  "cmac_loop key block [] state = Some state"
| "cmac_loop key block (n # ns) state =
     (case aes_encrypt_block key (aes_xor_block (block n) state) of
        None \<Rightarrow> None
      | Some state \<Rightarrow> cmac_loop key block ns state)"

definition aes_cmac :: "u8 list \<Rightarrow> u8 list \<Rightarrow> block option" where
  "aes_cmac key data =
     (case aes_encrypt_block key (replicate 16 0) of
        None \<Rightarrow> None
      | Some l \<Rightarrow>
          (let k1 = cmac_subkey l; k2 = cmac_subkey k1;
               count = (if data = [] then 1 else (length data + 15) div 16)
           in cmac_loop key (cmac_block k1 k2 data count) [0..<count] (replicate 16 0)))"

subsection \<open>Decryption undoes encryption\<close>

lemma inv_sbox_all: "list_all (\<lambda>n. inv_sbox ! unat (sbox ! n) = of_nat n) [0..<256]"
  unfolding sbox_def inv_sbox_def by code_simp

lemma aes_inv_sbox_sbox [simp]: "aes_inv_sbox (aes_sbox v) = v"
proof -
  have "unat v < 256" using unsigned_less[of v] by simp
  then have "inv_sbox ! unat (sbox ! unat v) = of_nat (unat v)" using inv_sbox_all by (simp add: list_all_length)
  then show ?thesis by (simp add: aes_sbox_def aes_inv_sbox_def)
qed

lemma and_0x80_iff: "(v :: u8) AND 0x80 \<noteq> 0 \<longleftrightarrow> bit v 7"
  using and_exp_iff[of v 7] by simp

lemma aes_xtime_xor [simp]: "aes_xtime (a XOR b) = aes_xtime a XOR aes_xtime b"
proof -
  have ac: "(x XOR y) XOR (p XOR q) = (x XOR p) XOR (y XOR q)" for x y p q :: u8 by (simp add: xor.assoc xor.left_commute)
  have "aes_xtime (a XOR b) = (push_bit 1 a XOR push_bit 1 b) XOR ((if bit a 7 then 0x1b else 0) XOR (if bit b 7 then 0x1b else 0))"
    unfolding aes_xtime_def and_0x80_iff push_bit_xor by (simp add: bit_xor_iff)
  also have "\<dots> = (push_bit 1 a XOR (if bit a 7 then 0x1b else 0)) XOR (push_bit 1 b XOR (if bit b 7 then 0x1b else 0))"
    by (rule ac)
  finally show ?thesis by (simp only: aes_xtime_def and_0x80_iff)
qed

lemma xor_left_cancel: "(a :: u8) XOR (a XOR b) = b"
  by (simp flip: xor.assoc)

lemma aes_mul_factors:
  "aes_mul v 0x0e = aes_xtime v XOR aes_xtime (aes_xtime v) XOR aes_xtime (aes_xtime (aes_xtime v))"
  "aes_mul v 0x0b = v XOR aes_xtime v XOR aes_xtime (aes_xtime (aes_xtime v))"
  "aes_mul v 0x0d = v XOR aes_xtime (aes_xtime v) XOR aes_xtime (aes_xtime (aes_xtime v))"
  "aes_mul v 0x09 = v XOR aes_xtime (aes_xtime (aes_xtime v))"
  by (simp_all add: aes_mul_def aes_mul_loop.simps xor.assoc)

lemma inv_mix_mix: "mix_column a b c d = [w, x, y, z] \<Longrightarrow> inv_mix_column w x y z = [a, b, c, d]"
  by (auto simp: mix_column_def inv_mix_column_def aes_mul_factors Let_def xor.assoc xor.commute xor.left_commute xor_left_cancel)


text \<open>Columns and positions of a block.\<close>

lemma sixteen:
  "length s = 16 \<Longrightarrow> \<exists>s0 s1 s2 s3 s4 s5 s6 s7 s8 s9 sa sb sc sd se sf. s = [s0, s1, s2, s3, s4, s5, s6, s7, s8, s9, sa, sb, sc, sd, se, sf]"
  by (auto simp: length_Suc_conv numeral_eq_Suc)

lemma on_columns_columns:
  assumes "\<And>a b c d w x y z. f a b c d = [w, x, y, z] \<Longrightarrow> g w x y z = [a, b, c, d]"
    and "\<And>a b c d. \<exists>w x y z. f a b c d = [w, x, y, z]" and "length s = 16"
  shows "on_columns g (on_columns f s) = s"
proof -
  obtain s0 s1 s2 s3 s4 s5 s6 s7 s8 s9 sa sb sc sd se sf
    where s: "s = [s0, s1, s2, s3, s4, s5, s6, s7, s8, s9, sa, sb, sc, sd, se, sf]"
    using sixteen[OF assms(3)] by blast
  obtain w0 x0 y0 z0 where c0: "f s0 s1 s2 s3 = [w0, x0, y0, z0]" using assms(2) by blast
  obtain w1 x1 y1 z1 where c1: "f s4 s5 s6 s7 = [w1, x1, y1, z1]" using assms(2) by blast
  obtain w2 x2 y2 z2 where c2: "f s8 s9 sa sb = [w2, x2, y2, z2]" using assms(2) by blast
  obtain w3 x3 y3 z3 where c3: "f sc sd se sf = [w3, x3, y3, z3]" using assms(2) by blast
  have "on_columns f s = [w0, x0, y0, z0, w1, x1, y1, z1, w2, x2, y2, z2, w3, x3, y3, z3]"
    by (simp add: on_columns_def s c0 c1 c2 c3 upt_rec)
  then show ?thesis
    using assms(1)[OF c0] assms(1)[OF c1] assms(1)[OF c2] assms(1)[OF c3] by (simp add: on_columns_def s upt_rec)
qed

lemma length_on_columns:
  assumes "\<And>a b c d. length (f a b c d) = 4" shows "length (on_columns f s) = 16"
  by (simp add: on_columns_def upt_rec assms)

lemma length_block [simp]:
  "length (aes_xor_block a b) = 16" "length (aes_add_round_key a b) = 16" "length (aes_sub_bytes a) = 16"
  "length (aes_inv_sub_bytes a) = 16" "length (aes_shift_rows a) = 16" "length (aes_inv_shift_rows a) = 16"
  "length (aes_mix_columns a) = 16" "length (aes_inv_mix_columns a) = 16"
  by (simp_all add: aes_xor_block_def aes_add_round_key_def aes_sub_bytes_def aes_inv_sub_bytes_def aes_shift_rows_def aes_inv_shift_rows_def
      aes_mix_columns_def aes_inv_mix_columns_def length_on_columns mix_column_def inv_mix_column_def Let_def)

lemma inverse_steps:
  assumes "length s = 16"
  shows "aes_inv_mix_columns (aes_mix_columns s) = s" "aes_inv_sub_bytes (aes_sub_bytes s) = s"
    "aes_inv_shift_rows (aes_shift_rows s) = s" "aes_add_round_key (aes_add_round_key s k) k = s"
proof -
  show "aes_inv_mix_columns (aes_mix_columns s) = s"
    unfolding aes_inv_mix_columns_def aes_mix_columns_def
    by (rule on_columns_columns[OF inv_mix_mix _ assms]) (simp_all add: mix_column_def Let_def)
  show "aes_inv_sub_bytes (aes_sub_bytes s) = s" "aes_add_round_key (aes_add_round_key s k) k = s"
    using assms by (auto intro!: nth_equalityI simp: aes_inv_sub_bytes_def aes_sub_bytes_def aes_add_round_key_def xor.assoc)
  show "aes_inv_shift_rows (aes_shift_rows s) = s"
    using sixteen[OF assms] by (auto simp: aes_inv_shift_rows_def aes_shift_rows_def)
qed

lemma rounds_undone:
  "length s = 16 \<Longrightarrow> fold (decrypt_round rk) (rev rs) (aes_shift_rows (aes_sub_bytes (fold (encrypt_round rk) rs s))) = aes_shift_rows (aes_sub_bytes s)"
proof (induction rs arbitrary: s rule: rev_induct)
  case Nil then show ?case by simp
next
  case (snoc r rs)
  let ?t = "fold (encrypt_round rk) rs s"
  have "decrypt_round rk r (aes_shift_rows (aes_sub_bytes (encrypt_round rk r ?t))) = aes_shift_rows (aes_sub_bytes ?t)"
    by (simp add: decrypt_round_def encrypt_round_def inverse_steps)
  then show ?case using snoc by simp
qed

text \<open>
  C15. Under every key of 16, 24 or 32 bytes decryption undoes encryption of a block.
\<close>

theorem aes_decrypt_encrypt:
  assumes "length input = 16" and "aes_encrypt_block key input = Some output"
  shows "aes_decrypt_block key output = Some input \<and> length output = 16"
proof -
  obtain rk rounds where k: "aes_expand_key key = Some (rk, rounds)"
    using assms(2) by (auto simp: aes_encrypt_block_def split: option.splits)
  define s where "s = aes_add_round_key input (round_key rk 0)"
  define t where "t = fold (encrypt_round rk) [1..<rounds] s"
  have out: "output = aes_add_round_key (aes_shift_rows (aes_sub_bytes t)) (round_key rk rounds)"
    using assms(2) k by (simp add: aes_encrypt_block_def s_def t_def)
  have "length s = 16" by (simp add: s_def)
  then have "fold (decrypt_round rk) (rev [1..<rounds]) (aes_shift_rows (aes_sub_bytes t)) = aes_shift_rows (aes_sub_bytes s)"
    unfolding t_def by (rule rounds_undone)
  then show ?thesis
    using k assms(1) by (simp add: aes_decrypt_block_def out inverse_steps \<open>length s = 16\<close>) (simp add: s_def inverse_steps)
qed

lemma length_encrypt: "aes_encrypt_block key x = Some y \<Longrightarrow> length y = 16"
  by (auto simp: aes_encrypt_block_def Let_def split: option.splits prod.splits)

lemma encrypt_defined: "(\<exists>y. aes_encrypt_block key x = Some y) \<longleftrightarrow> length key \<in> {16, 24, 32}"
  by (auto simp: aes_encrypt_block_def aes_expand_key_def Let_def)

lemma aes_decrypt_encrypt_witness:
  "aes_encrypt_block (replicate 16 7) (replicate 16 9) \<noteq> None \<and>
   aes_decrypt_block (replicate 16 7) (the (aes_encrypt_block (replicate 16 7) (replicate 16 9))) = Some (replicate 16 9)"
proof -
  obtain y where y: "aes_encrypt_block (replicate 16 7) (replicate 16 9) = Some y"
    using encrypt_defined[of "replicate 16 7" "replicate 16 9"] by auto
  from aes_decrypt_encrypt[OF _ y] y show ?thesis by simp
qed

subsection \<open>Counter mode is its own inverse\<close>

lemma ctr_loop_length: "ctr_loop key counter off xs = Some ys \<Longrightarrow> length ys = length xs"
proof (induction key counter off xs arbitrary: ys rule: ctr_loop.induct)
  case (1 key counter off xs)
  show ?case
  proof (cases "xs = []")
    case True
    with 1(2) show ?thesis by (simp add: ctr_loop.simps)
  next
    case False
    with 1(2) obtain stream rest where s: "\<not> 16 \<le> off" "aes_encrypt_block key counter = Some stream"
      "ctr_loop key (aes_increment_counter counter) 0 (drop (min (16 - off) (length xs)) xs) = Some rest"
      "ys = map (\<lambda>i. xs ! i XOR stream ! (off + i)) [0..<min (16 - off) (length xs)] @ rest"
      by (subst (asm) ctr_loop.simps) (auto simp: Let_def split: if_splits option.splits)
    from 1(1)[OF False s(1,2) refl refl s(3)] s(4) show ?thesis by simp
  qed
qed

lemma ctr_loop_twice: "ctr_loop key counter off xs = Some ys \<Longrightarrow> ctr_loop key counter off ys = Some xs"
proof (induction key counter off xs arbitrary: ys rule: ctr_loop.induct)
  case (1 key counter off xs)
  show ?case
  proof (cases "xs = []")
    case True
    with 1(2) show ?thesis by (simp add: ctr_loop.simps)
  next
    case False
    let ?n = "min (16 - off) (length xs)"
    from False 1(2) obtain stream rest where s: "\<not> 16 \<le> off" "aes_encrypt_block key counter = Some stream"
      "ctr_loop key (aes_increment_counter counter) 0 (drop ?n xs) = Some rest"
      and ys: "ys = map (\<lambda>i. xs ! i XOR stream ! (off + i)) [0..<?n] @ rest"
      by (subst (asm) ctr_loop.simps) (auto simp: Let_def split: if_splits option.splits)
    have len: "length ys = length xs" using ctr_loop_length[OF 1(2)] .
    have ne: "ys \<noteq> []" using len False by auto
    define n where "n = ?n"
    have n: "min (16 - off) (length ys) = n" "drop n ys = rest" unfolding len n_def by (simp_all add: ys)
    have "ys ! i XOR stream ! (off + i) = xs ! i" if "i < n" for i
      unfolding ys n_def[symmetric] using that by (simp add: nth_append xor.assoc)
    then have "map (\<lambda>i. ys ! i XOR stream ! (off + i)) [0..<n] = take n xs"
      by (intro nth_equalityI) (simp_all add: n_def)
    moreover have "ctr_loop key counter off ys = map_option ((@) (map (\<lambda>i. ys ! i XOR stream ! (off + i)) [0..<n]))
        (ctr_loop key (aes_increment_counter counter) 0 rest)"
      using s(1,2) ne by (subst ctr_loop.simps) (simp add: Let_def n)
    moreover have "ctr_loop key (aes_increment_counter counter) 0 rest = Some (drop n xs)"
      unfolding n_def using 1(1)[OF False s(1,2) refl refl s(3)] .
    ultimately show ?thesis by simp
  qed
qed

text \<open>
  Counter mode is its own inverse: what it makes of a buffer, with the same key, counter and offset, it makes the buffer again.
\<close>

theorem aes_ctr_twice:
  "aes_ctr_xcrypt_buffer key counter xs off = Some ys \<Longrightarrow> aes_ctr_xcrypt_buffer key counter ys off = Some xs"
  by (auto simp: aes_ctr_xcrypt_buffer_def intro: ctr_loop_twice split: if_splits)

lemma ctr_defined: "length key \<in> {16, 24, 32} \<Longrightarrow> off < 16 \<Longrightarrow> \<exists>ys. ctr_loop key counter off xs = Some ys"
proof (induction key counter off xs rule: ctr_loop.induct)
  case (1 key counter off xs)
  obtain stream where s: "aes_encrypt_block key counter = Some stream" using encrypt_defined 1(2) by blast
  show ?case
  proof (cases "xs = []")
    case False
    from 1(3) have off: "\<not> 16 \<le> off" by simp
    from 1(1)[OF False off s refl refl 1(2)] s off show ?thesis by (subst ctr_loop.simps) (auto simp: Let_def)
  qed (simp add: ctr_loop.simps)
qed

lemma aes_ctr_twice_witness:
  "\<exists>ys. aes_ctr_xcrypt_buffer (replicate 16 1) (replicate 16 2) [3, 4, 5] 0 = Some ys \<and>
     aes_ctr_xcrypt_buffer (replicate 16 1) (replicate 16 2) ys 0 = Some [3, 4, 5]"
proof -
  obtain ys where "aes_ctr_xcrypt_buffer (replicate 16 1) (replicate 16 2) [3, 4, 5] 0 = Some ys"
    using ctr_defined[of "replicate 16 1" 0] by (auto simp: aes_ctr_xcrypt_buffer_def)
  with aes_ctr_twice show ?thesis by blast
qed

text \<open>Cut at a block boundary, the rest goes on with the counter advanced by the blocks before it.\<close>

lemma ctr_split:
  "length xs = 16 * k \<Longrightarrow>
   ctr_loop key counter 0 (xs @ ys) =
     do { a \<leftarrow> ctr_loop key counter 0 xs; b \<leftarrow> ctr_loop key ((aes_increment_counter ^^ k) counter) 0 ys; Some (a @ b) }"
proof (induction k arbitrary: xs counter)
  case 0
  then show ?case by (simp add: ctr_loop.simps[of _ _ _ "[]"])
next
  case (Suc k)
  then have ne: "xs \<noteq> []" and len: "length (drop 16 xs) = 16 * k" "16 \<le> length xs" by auto
  show ?case
  proof (cases "aes_encrypt_block key counter")
    case None
    with ne show ?thesis by (simp add: ctr_loop.simps)
  next
    case (Some stream)
    have first: "map (\<lambda>i. (xs @ ys) ! i XOR stream ! i) [0..<16] = map (\<lambda>i. xs ! i XOR stream ! i) [0..<16]"
      using len by (simp add: nth_append)
    show ?thesis using ne len Some Suc.IH[OF len(1), of "aes_increment_counter counter"] first
      by (subst (1 2) ctr_loop.simps)
        (auto simp: Let_def min_absorb1 funpow_Suc_right simp del: funpow.simps split: option.split bind_split)
  qed
qed

end
