(* ===== verification/Cc3xx_Sha.thy ===== *)
theory Cc3xx_Sha
  imports Tlm_Regs
begin

text \<open>
  The SHA-256 engine of the crypto cell (\<^verbatim>\<open>src/systemc-components/cc3xx/include/cc3xx_core.h\<close>): the hash state, which mirrors itself in the hash and length
  registers, and its operations.
\<close>

unbundle bit_operations_syntax

subsection \<open>State\<close>

abbreviation (input) HASH_H :: nat where "HASH_H \<equiv> 0x640"
abbreviation (input) HASH_CUR_LEN0 :: nat where "HASH_CUR_LEN0 \<equiv> 0x7cc"
abbreviation (input) HASH_CUR_LEN1 :: nat where "HASH_CUR_LEN1 \<equiv> 0x7d0"

record sha256_state =
  sha_h :: "u32 list"
  sha_block :: "u8 list"
  sha_bytes :: u64
  sha_block_len :: nat
  sha_active :: bool
  sha_finalized :: bool

definition sha256_initial :: sha256_state where
  "sha256_initial = \<lparr>sha_h = replicate 8 0, sha_block = replicate 64 0, sha_bytes = 0, sha_block_len = 0,
     sha_active = False, sha_finalized = False\<rparr>"

record cc3xx_hash = reg_state +
  m_sha256 :: sha256_state

definition on_sha :: "(sha256_state \<Rightarrow> sha256_state) \<Rightarrow> 'a cc3xx_hash_scheme \<Rightarrow> 'a cc3xx_hash_scheme" where
  "on_sha f s = s\<lparr>m_sha256 := f (m_sha256 s)\<rparr>"

definition hash_current_len :: "'a reg_state_scheme \<Rightarrow> u64" where
  "hash_current_len s = ucast (load32 s HASH_CUR_LEN0) OR push_bit 32 (ucast (load32 s HASH_CUR_LEN1))"

definition store_hash_current_len :: "u64 \<Rightarrow> 'a reg_state_scheme \<Rightarrow> 'a reg_state_scheme" where
  "store_hash_current_len v s = store32 HASH_CUR_LEN1 (ucast (drop_bit 32 v)) (store32 HASH_CUR_LEN0 (ucast v) s)"

definition store_sha256_h :: "'a cc3xx_hash_scheme \<Rightarrow> 'a cc3xx_hash_scheme" where
  "store_sha256_h s = fold (\<lambda>i. store32 (HASH_H + i * 4) (sha_h (m_sha256 s) ! i)) [0..<8] s"

subsection \<open>The compression function\<close>

definition rotr32 :: "u32 \<Rightarrow> nat \<Rightarrow> u32" where
  "rotr32 v n = drop_bit n v OR push_bit (32 - n) v"

definition load_be32 :: "u8 list \<Rightarrow> u32" where
  "load_be32 bs = push_bit 24 (ucast (bs ! 0)) OR push_bit 16 (ucast (bs ! 1)) OR push_bit 8 (ucast (bs ! 2)) OR ucast (bs ! 3)"

definition store_be64 :: "u64 \<Rightarrow> u8 list" where
  "store_be64 v = map (\<lambda>i. ucast (drop_bit ((7 - i) * 8) v)) [0..<8]"

definition sha256_k :: "u32 list" where
  "sha256_k =
    concat [
      [0x428a2f98, 0x71374491, 0xb5c0fbcf, 0xe9b5dba5], [0x3956c25b, 0x59f111f1, 0x923f82a4, 0xab1c5ed5],
      [0xd807aa98, 0x12835b01, 0x243185be, 0x550c7dc3], [0x72be5d74, 0x80deb1fe, 0x9bdc06a7, 0xc19bf174],
      [0xe49b69c1, 0xefbe4786, 0x0fc19dc6, 0x240ca1cc], [0x2de92c6f, 0x4a7484aa, 0x5cb0a9dc, 0x76f988da],
      [0x983e5152, 0xa831c66d, 0xb00327c8, 0xbf597fc7], [0xc6e00bf3, 0xd5a79147, 0x06ca6351, 0x14292967],
      [0x27b70a85, 0x2e1b2138, 0x4d2c6dfc, 0x53380d13], [0x650a7354, 0x766a0abb, 0x81c2c92e, 0x92722c85],
      [0xa2bfe8a1, 0xa81a664b, 0xc24b8b70, 0xc76c51a3], [0xd192e819, 0xd6990624, 0xf40e3585, 0x106aa070],
      [0x19a4c116, 0x1e376c08, 0x2748774c, 0x34b0bcb5], [0x391c0cb3, 0x4ed8aa4a, 0x5b9cca4f, 0x682e6ff3],
      [0x748f82ee, 0x78a5636f, 0x84c87814, 0x8cc70208], [0x90befffa, 0xa4506ceb, 0xbef9a3f7, 0xc67178f2]]"

definition schedule_word :: "nat \<Rightarrow> u32 list \<Rightarrow> u32 list" where
  "schedule_word i w =
     (let s0 = rotr32 (w ! (i - 15)) 7 XOR rotr32 (w ! (i - 15)) 18 XOR drop_bit 3 (w ! (i - 15));
          s1 = rotr32 (w ! (i - 2)) 17 XOR rotr32 (w ! (i - 2)) 19 XOR drop_bit 10 (w ! (i - 2))
      in w @ [w ! (i - 16) + s0 + w ! (i - 7) + s1])"

definition schedule :: "u8 list \<Rightarrow> u32 list" where
  "schedule block = fold schedule_word [16..<64] (map (\<lambda>i. load_be32 (drop (i * 4) block)) [0..<16])"

definition sha256_round :: "u32 list \<Rightarrow> nat \<Rightarrow> u32 list \<Rightarrow> u32 list" where
  "sha256_round w i v =
     (let a = v ! 0; b = v ! 1; c = v ! 2; d = v ! 3; e = v ! 4; f = v ! 5; g = v ! 6; h = v ! 7;
          s1 = rotr32 e 6 XOR rotr32 e 11 XOR rotr32 e 25;
          ch = (e AND f) XOR (NOT e AND g);
          temp1 = h + s1 + ch + sha256_k ! i + w ! i;
          s0 = rotr32 a 2 XOR rotr32 a 13 XOR rotr32 a 22;
          maj = (a AND b) XOR (a AND c) XOR (b AND c);
          temp2 = s0 + maj
      in [temp1 + temp2, a, b, c, d + temp1, e, f, g])"

definition sha256_compress :: "u8 list \<Rightarrow> u32 list \<Rightarrow> u32 list" where
  "sha256_compress block h = map2 (+) h (fold (sha256_round (schedule block)) [0..<64] h)"

definition sha256_transform :: "u8 list \<Rightarrow> 'a cc3xx_hash_scheme \<Rightarrow> 'a cc3xx_hash_scheme" where
  "sha256_transform block s = store_sha256_h (on_sha (\<lambda>t. t\<lparr>sha_h := sha256_compress block (sha_h t)\<rparr>) s)"

subsection \<open>Operations\<close>

definition sha256_reset :: "'a cc3xx_hash_scheme \<Rightarrow> 'a cc3xx_hash_scheme" where
  "sha256_reset s =
     (let s = s\<lparr>m_sha256 := \<lparr>sha_h = [0x6a09e667, 0xbb67ae85, 0x3c6ef372, 0xa54ff53a, 0x510e527f, 0x9b05688c, 0x1f83d9ab, 0x5be0cd19],
                sha_block = replicate 64 0, sha_bytes = 0, sha_block_len = 0, sha_active = True, sha_finalized = False\<rparr>\<rparr>
      in store_sha256_h (store_hash_current_len 0 s))"

text \<open>The loop that fills the block: each turn copies what fits and transforms a full block.\<close>

function update_loop :: "u8 list \<Rightarrow> 'a cc3xx_hash_scheme \<Rightarrow> 'a cc3xx_hash_scheme ub" where
  "update_loop data s =
     (if data = [] then Some s
      else
        (let len = sha_block_len (m_sha256 s); copy_len = min (length data) (64 - len);
             s = on_sha (\<lambda>t. t\<lparr>sha_block := take len (sha_block t) @ take copy_len data @ drop (len + copy_len) (sha_block t),
                                sha_block_len := len + copy_len\<rparr>) s;
             s = (if len + copy_len = 64
                  then on_sha (\<lambda>t. t\<lparr>sha_block_len := 0\<rparr>) (sha256_transform (sha_block (m_sha256 s)) s) else s)
         in if copy_len = 0 then None else update_loop (drop copy_len data) s))"
  by pat_completeness auto
termination
  by (relation "measure (\<lambda>(data, s). length data)") auto

declare update_loop.simps [simp del]

definition sha256_update_impl :: "u8 list \<Rightarrow> 'a cc3xx_hash_scheme \<Rightarrow> 'a cc3xx_hash_scheme ub" where
  "sha256_update_impl data s =
     (if \<not> sha_active (m_sha256 s) \<or> sha_finalized (m_sha256 s) then Some s
      else
        (let s = on_sha (\<lambda>t. t\<lparr>sha_bytes := sha_bytes t + of_nat (length data)\<rparr>) s
         in update_loop data (store_hash_current_len (sha_bytes (m_sha256 s)) s)))"

definition sha256_finish :: "'a cc3xx_hash_scheme \<Rightarrow> 'a cc3xx_hash_scheme ub" where
  "sha256_finish s =
     (if \<not> sha_active (m_sha256 s) \<or> sha_finalized (m_sha256 s) then Some s
      else
        (let message_bytes = sha_bytes (m_sha256 s); bit_len = message_bytes * 8;
             len = sha_block_len (m_sha256 s);
             pad_len = (if len < 56 then 56 - len else 120 - len)
         in do {
              s \<leftarrow> sha256_update_impl (0x80 # replicate (pad_len - 1) 0) s;
              s \<leftarrow> sha256_update_impl (store_be64 bit_len) s;
              Some (on_sha (\<lambda>t. t\<lparr>sha_finalized := True\<rparr>) (store_hash_current_len message_bytes (store_sha256_h s)))
            }))"

subsection \<open>The hash of a message\<close>

function sha_absorb :: "u32 list \<Rightarrow> u8 list \<Rightarrow> u32 list" where
  "sha_absorb h bs = (if length bs < 64 then h else sha_absorb (sha256_compress (take 64 bs) h) (drop 64 bs))"
  by pat_completeness auto
termination
  by (relation "measure (\<lambda>(h, bs). length bs)") auto

declare sha_absorb.simps [simp del]

definition sha256_init :: "u32 list" where
  "sha256_init = [0x6a09e667, 0xbb67ae85, 0x3c6ef372, 0xa54ff53a, 0x510e527f, 0x9b05688c, 0x1f83d9ab, 0x5be0cd19]"

definition sha_pad :: "nat \<Rightarrow> u8 list" where
  "sha_pad n = 0x80 # replicate (nat ((55 - int n) mod 64)) 0 @ store_be64 (8 * of_nat n)"

definition sha256 :: "u8 list \<Rightarrow> u32 list" where
  "sha256 msg = sha_absorb sha256_init (msg @ sha_pad (length msg))"

lemma sha_absorb_short [simp]: "length bs < 64 \<Longrightarrow> sha_absorb h bs = h"
  by (simp add: sha_absorb.simps)

lemma sha_absorb_block: "length bs = 64 \<Longrightarrow> sha_absorb h bs = sha256_compress bs h"
  by (subst sha_absorb.simps) simp

lemma sha_absorb_append: "length xs mod 64 = 0 \<Longrightarrow> sha_absorb h (xs @ ys) = sha_absorb (sha_absorb h xs) ys"
proof (induction h xs rule: sha_absorb.induct)
  case (1 h xs)
  show ?case
  proof (cases "length xs < 64")
    case True
    with 1 have "xs = []" by simp
    then show ?thesis by simp
  next
    case False
    then have "length (drop 64 xs) mod 64 = 0" using 1(2) by (simp add: mod_if)
    with 1(1) False show ?thesis by (subst (1 2) sha_absorb.simps) simp
  qed
qed

lemma length_rounds: "length v = 8 \<Longrightarrow> length (fold (sha256_round w) is v) = 8"
  by (induction "is" arbitrary: v) (simp_all add: sha256_round_def Let_def)

lemma length_compress [simp]: "length h = 8 \<Longrightarrow> length (sha256_compress b h) = 8"
  by (simp add: sha256_compress_def length_rounds)

lemma length_absorb: "length h = 8 \<Longrightarrow> length (sha_absorb h bs) = 8"
  by (induction h bs rule: sha_absorb.induct) (subst sha_absorb.simps, simp)

lemma length_init [simp]: "length sha256_init = 8"
  by (simp add: sha256_init_def)

subsection \<open>The hash registers mirror the state\<close>

definition h_mirrored :: "'a cc3xx_hash_scheme \<Rightarrow> bool" where
  "h_mirrored s \<longleftrightarrow> (\<forall>i<8. load32 s (HASH_H + i * 4) = sha_h (m_sha256 s) ! i)"

lemma sha_store32 [simp]: "m_sha256 (store32 off v s) = m_sha256 s"
  by (simp add: store32_def)

lemma load32_on_sha [simp]: "load32 (on_sha f s) off = load32 s off"
  by (simp add: load32_def on_sha_def)

lemma sha_on_sha [simp]: "m_sha256 (on_sha f s) = f (m_sha256 s)"
  by (simp add: on_sha_def)

lemma sha_store_h [simp]: "m_sha256 (store_sha256_h s) = m_sha256 s"
proof -
  have "m_sha256 (fold (\<lambda>i. store32 (f i) (g i)) is t) = m_sha256 t" for f g "is" and t :: "'a cc3xx_hash_scheme"
    by (induction "is" arbitrary: t) simp_all
  then show ?thesis by (simp add: store_sha256_h_def)
qed

lemma upt_8: "[0..<8] = [0, 1, 2, 3, 4, 5, 6, 7 :: nat]"
  by (simp add: upt_conv_Cons)

lemma nat_less_8: "i < 8 \<longleftrightarrow> i = 0 \<or> i = 1 \<or> i = 2 \<or> i = 3 \<or> i = 4 \<or> i = 5 \<or> i = 6 \<or> i = (7 :: nat)"
  by auto

lemma load32_store_h: "i < 8 \<Longrightarrow> load32 (store_sha256_h s) (HASH_H + i * 4) = sha_h (m_sha256 s) ! i"
  unfolding store_sha256_h_def upt_8 by (auto simp: nat_less_8)

lemma load32_store_h_other [simp]: "off + 4 \<le> HASH_H \<or> HASH_H + 32 \<le> off \<Longrightarrow> load32 (store_sha256_h s) off = load32 s off"
  unfolding store_sha256_h_def upt_8 by auto

lemma mirrored_store_h [simp]: "h_mirrored (store_sha256_h s)"
  using load32_store_h by (auto simp: h_mirrored_def)

lemma sha_store_len [simp]: "m_sha256 (store_hash_current_len v s) = m_sha256 s"
  by (simp add: store_hash_current_len_def)

lemma split64: "ucast (ucast v :: u32) OR push_bit 32 (ucast (ucast (drop_bit 32 v) :: u32)) = (v :: u64)"
  by (rule bit_word_eqI) (auto simp: bit_or_iff bit_push_bit_iff bit_drop_bit_eq bit_ucast_iff)

lemma hash_len_store [simp]: "hash_current_len (store_hash_current_len v s) = v"
  by (simp add: hash_current_len_def store_hash_current_len_def split64)

lemma hash_len_on_sha [simp]: "hash_current_len (on_sha f s) = hash_current_len s"
  by (simp add: hash_current_len_def)

lemma hash_len_store_h [simp]: "hash_current_len (store_sha256_h s) = hash_current_len s"
  by (simp add: hash_current_len_def)

lemma hash_len_transform [simp]: "hash_current_len (sha256_transform b s) = hash_current_len s"
  by (simp add: sha256_transform_def)

lemma mirrored_store_len [simp]: "h_mirrored (store_hash_current_len v s) = h_mirrored s"
  by (simp add: h_mirrored_def store_hash_current_len_def nat_less_8 all_conj_distrib)

lemma mirrored_on_sha: "sha_h (f (m_sha256 s)) = sha_h (m_sha256 s) \<Longrightarrow> h_mirrored (on_sha f s) = h_mirrored s"
  by (simp add: h_mirrored_def)

subsection \<open>What the engine holds of a message\<close>

text \<open>
  \<open>holding h msg s\<close>: started from the chaining value \<open>h\<close>, the engine has compressed the whole
  blocks of \<open>msg\<close>, keeps the rest in its block, and shows its chaining value in the registers.
  \<open>absorbed n h msg s\<close> adds that it is running and that its two lengths count \<open>msg\<close> and the
  \<open>n\<close> bytes before it.
\<close>

definition holding :: "u32 list \<Rightarrow> u8 list \<Rightarrow> 'a cc3xx_hash_scheme \<Rightarrow> bool" where
  "holding h msg s \<longleftrightarrow>
     sha_block_len (m_sha256 s) = length msg mod 64 \<and> length (sha_block (m_sha256 s)) = 64 \<and>
     take (length msg mod 64) (sha_block (m_sha256 s)) = drop (length msg - length msg mod 64) msg \<and>
     length h = 8 \<and> sha_h (m_sha256 s) = sha_absorb h msg \<and> h_mirrored s"

definition sha_frame :: "'a cc3xx_hash_scheme \<Rightarrow> 'a cc3xx_hash_scheme \<Rightarrow> bool" where
  "sha_frame s s' \<longleftrightarrow> sha_bytes (m_sha256 s') = sha_bytes (m_sha256 s) \<and> sha_active (m_sha256 s') = sha_active (m_sha256 s) \<and>
     sha_finalized (m_sha256 s') = sha_finalized (m_sha256 s) \<and> hash_current_len s' = hash_current_len s"

lemma holding_tail: "drop (length msg - length msg mod 64) msg @ data = drop (length msg - length msg mod 64) (msg @ data)"
  by simp

lemma absorb_tail: "sha_absorb h (msg @ data) = sha_absorb (sha_absorb h msg) (drop (length msg - length msg mod 64) msg @ data)"
proof -
  let ?n = "length msg - length msg mod 64"
  have n: "length (take ?n msg) mod 64 = 0"
    by (simp add: minus_mod_eq_mult_div min_absorb1 min_absorb2)
  have short: "length (drop ?n msg) < 64" by simp
  have "sha_absorb h (msg @ data) = sha_absorb h (take ?n msg @ (drop ?n msg @ data))"
    by (metis append.assoc append_take_drop_id)
  also have "\<dots> = sha_absorb (sha_absorb h (take ?n msg)) (drop ?n msg @ data)" using n by (rule sha_absorb_append)
  also have "sha_absorb h (take ?n msg) = sha_absorb h (take ?n msg @ drop ?n msg)"
    using n short by (simp only: sha_absorb_append sha_absorb_short)
  finally show ?thesis by simp
qed

lemma update_step:
  assumes "holding h msg s" and "data \<noteq> []"
  defines "len \<equiv> sha_block_len (m_sha256 s)"
  defines "c \<equiv> min (length data) (64 - len)"
  defines "s1 \<equiv> on_sha (\<lambda>t. t\<lparr>sha_block := take len (sha_block t) @ take c data @ drop (len + c) (sha_block t), sha_block_len := len + c\<rparr>) s"
  defines "s2 \<equiv> (if len + c = 64 then on_sha (\<lambda>t. t\<lparr>sha_block_len := 0\<rparr>) (sha256_transform (sha_block (m_sha256 s1)) s1) else s1)"
  shows "0 < c" and "c \<le> length data" and "holding h (msg @ take c data) s2" and "sha_frame s s2"
    and "update_loop data s = update_loop (drop c data) s2"
proof -
  have len: "len = length msg mod 64" using assms(1) by (simp add: len_def holding_def)
  then have "len < 64" by simp
  then show c: "0 < c" "c \<le> length data" using assms(2) by (auto simp: c_def)
  have fits: "len + c \<le> 64" using \<open>len < 64\<close> unfolding c_def by arith
  let ?tail = "drop (length msg - length msg mod 64) msg @ take c data"
  have blk: "length (sha_block (m_sha256 s)) = 64" "take len (sha_block (m_sha256 s)) = drop (length msg - length msg mod 64) msg"
    using assms(1) len by (simp_all add: holding_def)
  have l: "length (msg @ take c data) = length msg + c" "length (drop (length msg - length msg mod 64) msg) = len"
    using c by (simp_all add: len)
  have s1: "take (len + c) (sha_block (m_sha256 s1)) = ?tail" "length (sha_block (m_sha256 s1)) = 64"
    "sha_h (m_sha256 s1) = sha_absorb h msg" "h_mirrored s1"
    using blk c fits l(2) assms(1) by (simp_all add: s1_def mirrored_on_sha holding_def)
  show "holding h (msg @ take c data) s2"
  proof (cases "len + c = 64")
    case True
    then have "(length msg + c) mod 64 = 0" using len by (simp add: mod_add_left_eq[symmetric])
    moreover have "sha_block (m_sha256 s1) = ?tail" using s1(1,2) True by simp
    moreover from this have "sha_absorb h (msg @ take c data) = sha256_compress (sha_block (m_sha256 s1)) (sha_absorb h msg)"
      using s1(2) by (simp add: absorb_tail[of h msg] sha_absorb_block)
    ultimately show ?thesis using True s1 assms(1) l by (simp add: s2_def holding_def sha256_transform_def mirrored_on_sha)
  next
    case False
    then have small: "len + c < 64" using fits by simp
    then have m: "(length msg + c) mod 64 = len + c" using len by (metis mod_add_left_eq mod_less)
    have "length msg + c - (len + c) = length msg - length msg mod 64" using len by simp
    then have tail: "drop (length msg + c - (len + c)) (msg @ take c data) = ?tail" by simp
    have "sha_absorb h (msg @ take c data) = sha_absorb h msg"
      using small l c by (simp only: absorb_tail[of h msg]) simp
    then show ?thesis using small s1 assms(1) l m tail by (simp add: s2_def s1_def holding_def)
  qed
  show "sha_frame s s2" by (simp add: s2_def s1_def sha_frame_def sha256_transform_def)
  have nz: "(min (length data) (64 - sha_block_len (m_sha256 s)) = 0) = False"
    using c(1) unfolding c_def len_def by arith
  show "update_loop data s = update_loop (drop c data) s2"
    using assms(2) unfolding s2_def s1_def c_def len_def by (subst update_loop.simps) (simp add: Let_def nz)
qed

lemma frame_refl: "sha_frame s s" and frame_trans: "sha_frame s t \<Longrightarrow> sha_frame t u \<Longrightarrow> sha_frame s u"
  by (simp_all add: sha_frame_def)

lemma update_loop_holding:
  "holding h msg s \<Longrightarrow> \<exists>s'. update_loop data s = Some s' \<and> holding h (msg @ data) s' \<and> sha_frame s s'"
proof (induction "length data" arbitrary: data msg s rule: less_induct)
  case less
  show ?case
  proof (cases "data = []")
    case True
    with less(2) show ?thesis by (simp add: update_loop.simps frame_refl)
  next
    case False
    obtain c s2 where c: "0 < c" "c \<le> length data" and s2: "holding h (msg @ take c data) s2" "sha_frame s s2"
      "update_loop data s = update_loop (drop c data) s2"
      by (rule that[OF update_step[OF less(2) False]])
    then have "length (drop c data) < length data" by simp
    from less(1)[OF this s2(1)] obtain s' where "update_loop (drop c data) s2 = Some s'"
      "holding h (msg @ data) s'" "sha_frame s2 s'" by auto
    with s2 show ?thesis using frame_trans[OF s2(2)] by metis
  qed
qed

definition absorbed :: "nat \<Rightarrow> u32 list \<Rightarrow> u8 list \<Rightarrow> 'a cc3xx_hash_scheme \<Rightarrow> bool" where
  "absorbed n h msg s \<longleftrightarrow> holding h msg s \<and> sha_active (m_sha256 s) \<and> \<not> sha_finalized (m_sha256 s) \<and>
     sha_bytes (m_sha256 s) = of_nat (n + length msg) \<and> hash_current_len s = of_nat (n + length msg)"

lemma update_absorbed:
  assumes "absorbed n h msg s"
  shows "\<exists>s'. sha256_update_impl data s = Some s' \<and> absorbed n h (msg @ data) s'"
proof -
  let ?t = "on_sha (\<lambda>t. t\<lparr>sha_bytes := sha_bytes t + of_nat (length data)\<rparr>) s"
  let ?u = "store_hash_current_len (sha_bytes (m_sha256 ?t)) ?t"
  have "holding h msg ?u" using assms by (simp add: absorbed_def holding_def mirrored_on_sha)
  from update_loop_holding[OF this] obtain s' where s': "update_loop data ?u = Some s'" "holding h (msg @ data) s'" "sha_frame ?u s'"
    by blast
  moreover have "sha256_update_impl data s = update_loop data ?u"
    using assms by (simp add: sha256_update_impl_def absorbed_def Let_def)
  ultimately show ?thesis using assms by (auto simp: absorbed_def sha_frame_def algebra_simps)
qed

lemma absorbed_reset: "absorbed 0 sha256_init [] (sha256_reset s)"
  by (simp add: absorbed_def holding_def sha256_reset_def sha256_init_def Let_def)

lemma pad_length:
  "1 + nat ((55 - int n) mod 64) = (if n mod 64 < 56 then 56 - n mod 64 else 120 - n mod (64::nat))"
proof -
  define r where "r = n mod 64"
  define q where "q = int n div 64"
  have "r < 64" "int n = 64 * q + int r" by (simp_all add: r_def q_def zmod_int)
  then have "55 - int n = (if r < 56 then 55 - int r + 64 * (- q) else 119 - int r + 64 * (- q - 1))" by simp
  then have "(55 - int n) mod 64 = (if r < 56 then (55 - int r) mod 64 else (119 - int r) mod 64)"
    by (cases "r < 56") (simp_all only: mod_mult_self2 if_True if_False)
  then have "(55 - int n) mod 64 = (if r < 56 then 55 - int r else 119 - int r)"
    using \<open>r < 64\<close> by (simp add: mod_pos_pos_trivial)
  then show ?thesis unfolding r_def[symmetric] using \<open>r < 64\<close> by (auto simp: nat_diff_distrib Suc_diff_le)
qed

lemma finish_absorbed:
  assumes "absorbed n h msg s" and "n mod 64 = 0"
  shows "\<exists>s'. sha256_finish s = Some s' \<and> sha_finalized (m_sha256 s') \<and> sha_active (m_sha256 s') \<and> h_mirrored s' \<and>
      sha_h (m_sha256 s') = sha_absorb h (msg @ sha_pad (n + length msg)) \<and>
      hash_current_len s' = of_nat (n + length msg)"
proof -
  let ?len = "sha_block_len (m_sha256 s)"
  let ?pad = "0x80 # replicate ((if ?len < 56 then 56 - ?len else 120 - ?len) - 1) (0::u8)"
  let ?bits = "store_be64 (sha_bytes (m_sha256 s) * 8)"
  have len: "?len = (n + length msg) mod 64" using assms by (auto simp: absorbed_def holding_def)
  from update_absorbed[OF assms(1)] obtain s1 where s1: "sha256_update_impl ?pad s = Some s1" "absorbed n h (msg @ ?pad) s1" by blast
  from update_absorbed[OF s1(2)] obtain s2 where s2: "sha256_update_impl ?bits s1 = Some s2" "absorbed n h ((msg @ ?pad) @ ?bits) s2" by blast
  have "?pad @ ?bits = sha_pad (n + length msg)"
    using assms(1) pad_length[of "n + length msg"] by (auto simp: sha_pad_def absorbed_def len mult.commute)
  then have "sha_absorb h (msg @ sha_pad (n + length msg)) = sha_h (m_sha256 s2)" using s2(2) by (simp add: absorbed_def holding_def)
  then show ?thesis using assms(1) s1(1) s2 by (simp add: sha256_finish_def absorbed_def Let_def mirrored_on_sha)
qed

text \<open>A message handed over in pieces.\<close>

fun sha256_updates :: "u8 list list \<Rightarrow> 'a cc3xx_hash_scheme \<Rightarrow> 'a cc3xx_hash_scheme ub" where
  "sha256_updates [] s = Some s"
| "sha256_updates (c # cs) s = do { s \<leftarrow> sha256_update_impl c s; sha256_updates cs s }"

lemma updates_absorbed:
  "absorbed n h msg s \<Longrightarrow> \<exists>s'. sha256_updates cs s = Some s' \<and> absorbed n h (msg @ concat cs) s'"
proof (induction cs arbitrary: msg s)
  case (Cons c cs)
  from update_absorbed[OF Cons.prems] obtain s1 where "sha256_update_impl c s = Some s1" "absorbed n h (msg @ c) s1" by blast
  with Cons.IH[OF this(2)] show ?case by simp
qed simp

definition hash_registers :: "'a reg_state_scheme \<Rightarrow> u32 list" where
  "hash_registers s = map (\<lambda>i. load32 s (HASH_H + i * 4)) [0..<8]"

lemma mirrored_registers: "h_mirrored s \<Longrightarrow> length (sha_h (m_sha256 s)) = 8 \<Longrightarrow> hash_registers s = sha_h (m_sha256 s)"
  by (rule nth_equalityI) (simp_all add: hash_registers_def h_mirrored_def)

text \<open>
  A message handed to the engine in pieces of any sizes leaves its SHA-256 digest in the hash registers and its length in the length registers.
\<close>

theorem sha_digest:
  "\<exists>s'. do { s \<leftarrow> sha256_updates chunks (sha256_reset s); sha256_finish s } = Some s' \<and>
     hash_registers s' = sha256 (concat chunks) \<and> hash_current_len s' = of_nat (length (concat chunks)) \<and>
     sha_finalized (m_sha256 s')"
proof -
  from updates_absorbed[OF absorbed_reset, of chunks s] obtain s1
    where s1: "sha256_updates chunks (sha256_reset s) = Some s1" "absorbed 0 sha256_init (concat chunks) s1" by auto
  from finish_absorbed[OF s1(2)] obtain s2 where "sha256_finish s1 = Some s2" "sha_finalized (m_sha256 s2)" "h_mirrored s2"
    "sha_h (m_sha256 s2) = sha256 (concat chunks)" "hash_current_len s2 = of_nat (length (concat chunks))"
    by (auto simp: sha256_def)
  with s1(1) show ?thesis by (simp add: mirrored_registers sha256_def length_absorb)
qed

end
