(* ===== verification/Cc3xx_Pka.thy ===== *)
theory Cc3xx_Pka
  imports Cc3xx_Sha "HOL-Library.Signed_Division"
begin

text \<open>
  The public-key accelerator of the crypto cell (\<^verbatim>\<open>src/systemc-components/cc3xx/include/cc3xx_core.h\<close>): its word memory, the operands an opcode
  names, the arithmetic, and the cache of the modulus in register 0. Big integers are \<open>int\<close>, with the truncating division
  of \<^verbatim>\<open>cpp_int\<close>; vectors of words are lists, least significant word first.
\<close>

unbundle bit_operations_syntax

subsection \<open>State\<close>

abbreviation (input) PKA_OPCODE :: nat where "PKA_OPCODE \<equiv> 0x080"
abbreviation (input) PKA_STATUS :: nat where "PKA_STATUS \<equiv> 0x088"
abbreviation (input) PKA_L_BASE :: nat where "PKA_L_BASE \<equiv> 0x090"
abbreviation (input) PKA_PIPE_RDY :: nat where "PKA_PIPE_RDY \<equiv> 0x0b0"
abbreviation (input) PKA_DONE :: nat where "PKA_DONE \<equiv> 0x0b4"
abbreviation (input) PKA_STATUS_ALU_SIGN_OUT :: u32 where "PKA_STATUS_ALU_SIGN_OUT \<equiv> 0x100"
abbreviation (input) PKA_STATUS_ALU_CARRY :: u32 where "PKA_STATUS_ALU_CARRY \<equiv> 0x200"
abbreviation (input) PKA_STATUS_ALU_OUT_ZERO :: u32 where "PKA_STATUS_ALU_OUT_ZERO \<equiv> 0x1000"
abbreviation (input) PKA_STATUS_DIV_BY_ZERO :: u32 where "PKA_STATUS_DIV_BY_ZERO \<equiv> 0x4000"
abbreviation (input) PKA_SRAM_WORDS :: nat where "PKA_SRAM_WORDS \<equiv> 0x600"

record cc3xx_pka = cc3xx_hash +
  m_pka_sram :: "nat \<Rightarrow> u32"
  m_pka_write_addr :: u32
  m_pka_read_addr :: u32
  m_pka_modulus_cache_valid :: bool
  m_pka_modulus_cache_words :: nat
  m_pka_modulus_cache :: int

definition sign_extend_5 :: "u32 \<Rightarrow> int" where
  "sign_extend_5 v = (let v = v AND 0x1f in if v AND 0x10 \<noteq> 0 then sint (v OR NOT 0x1f) else sint v)"

definition pka_len_words :: "u32 \<Rightarrow> 'a cc3xx_pka_scheme \<Rightarrow> nat" where
  "pka_len_words size_id s =
     (let bits = (if size_id < 8 then load32 s (PKA_L_BASE + unat size_id * 4) else 0)
      in if bits = 0 then 1 else min (unat ((bits + 31) div 32)) PKA_SRAM_WORDS)"

definition pka_sram_read :: "u32 \<Rightarrow> 'a cc3xx_pka_scheme \<Rightarrow> u32" where
  "pka_sram_read a s = (if unat a \<ge> PKA_SRAM_WORDS then 0 else m_pka_sram s (unat a))"

definition pka_invalidate_modulus_cache :: "'a cc3xx_pka_scheme \<Rightarrow> 'a cc3xx_pka_scheme" where
  "pka_invalidate_modulus_cache s =
     s\<lparr>m_pka_modulus_cache_valid := False, m_pka_modulus_cache_words := 0, m_pka_modulus_cache := 0\<rparr>"

definition pka_sram_write :: "u32 \<Rightarrow> u32 \<Rightarrow> bool \<Rightarrow> 'a cc3xx_pka_scheme \<Rightarrow> 'a cc3xx_pka_scheme" where
  "pka_sram_write a v invalidate_modulus s =
     (if unat a < PKA_SRAM_WORDS
      then (let s = s\<lparr>m_pka_sram := (m_pka_sram s)(unat a := v)\<rparr>
            in if invalidate_modulus then pka_invalidate_modulus_cache s else s)
      else s)"

definition pka_phys_reg_base :: "u32 \<Rightarrow> 'a reg_state_scheme \<Rightarrow> u32" where
  "pka_phys_reg_base phys_reg s = (if phys_reg \<ge> 32 then 0 else load32 s (unat phys_reg * 4))"

subsection \<open>Operands\<close>

definition pka_load_operand :: "bool \<Rightarrow> u32 \<Rightarrow> nat \<Rightarrow> bool \<Rightarrow> 'a cc3xx_pka_scheme \<Rightarrow> u32 list" where
  "pka_load_operand is_immediate v words signed_immediate s =
     (if words = 0 then []
      else if is_immediate then
        (if signed_immediate
         then (let imm = sign_extend_5 v
               in (replicate words (if imm < 0 then 0xffffffff else 0))[0 := word_of_int imm])
         else (replicate words 0)[0 := v AND 0x1f])
      else map (\<lambda>i. pka_sram_read (pka_phys_reg_base v s + of_nat i) s) [0..<words])"

definition pka_store_operand :: "u32 \<Rightarrow> u32 list \<Rightarrow> 'a cc3xx_pka_scheme \<Rightarrow> 'a cc3xx_pka_scheme" where
  "pka_store_operand phys_reg data s =
     (let base = pka_phys_reg_base phys_reg s;
          n_base = pka_phys_reg_base 0 s;
          writes_modulus = (unat base < unat n_base + length data \<and> unat n_base < unat base + length data)
      in fold (\<lambda>i. pka_sram_write (base + of_nat i) (data ! i) writes_modulus) [0..<length data] s)"

definition pka_is_zero :: "u32 list \<Rightarrow> bool" where
  "pka_is_zero data = list_all (\<lambda>v. v = 0) data"

definition pka_word_modulus :: "nat \<Rightarrow> int" where
  "pka_word_modulus words = push_bit (words * 32) 1"

definition pka_word_mask :: "nat \<Rightarrow> int" where
  "pka_word_mask words = pka_word_modulus words - 1"

definition pka_words_to_int :: "u32 list \<Rightarrow> int" where
  "pka_words_to_int data = fold (\<lambda>w v. push_bit 32 v + uint w) (rev data) 0"

primrec int_words :: "int \<Rightarrow> nat \<Rightarrow> u32 list" where
  "int_words v 0 = []"
| "int_words v (Suc n) = word_of_int (v AND 0xffffffff) # int_words (drop_bit 32 v) n"

definition pka_int_to_words :: "int \<Rightarrow> nat \<Rightarrow> u32 list" where
  "pka_int_to_words v words =
     (if words = 0 then []
      else
        (let modulus = pka_word_modulus words; v = v smod modulus
         in int_words (if v < 0 then v + modulus else v) words))"

text \<open>The modulus is read through the cache, which is filled where it has not the size asked for.\<close>

definition pka_modulus_value :: "nat \<Rightarrow> 'a cc3xx_pka_scheme \<Rightarrow> int \<times> 'a cc3xx_pka_scheme" where
  "pka_modulus_value words s =
     (if m_pka_modulus_cache_valid s \<and> m_pka_modulus_cache_words s = words then (m_pka_modulus_cache s, s)
      else
        (let v = pka_words_to_int (pka_load_operand False 0 words False s)
         in (v, s\<lparr>m_pka_modulus_cache := v, m_pka_modulus_cache_words := words, m_pka_modulus_cache_valid := True\<rparr>)))"

subsection \<open>Arithmetic\<close>

definition pka_positive_mod :: "int \<Rightarrow> int \<Rightarrow> int" where
  "pka_positive_mod v modulus =
     (if modulus \<le> 0 then 0 else (let v = v smod modulus in if v < 0 then v + modulus else v))"

function pow_mod_loop :: "int \<Rightarrow> int \<Rightarrow> int \<Rightarrow> int \<Rightarrow> int" where
  "pow_mod_loop modulus result base exponent =
     (if exponent > 0
      then pow_mod_loop modulus (if exponent AND 1 \<noteq> 0 then (result * base) smod modulus else result)
             ((base * base) smod modulus) (drop_bit 1 exponent)
      else result)"
  by pat_completeness auto
termination
  by (relation "measure (\<lambda>(modulus, result, base, exponent). nat exponent)") (auto simp: drop_bit_Suc)

declare pow_mod_loop.simps [simp del]

definition pka_pow_mod :: "int \<Rightarrow> int \<Rightarrow> int \<Rightarrow> int" where
  "pka_pow_mod base exponent modulus =
     (if modulus \<le> 0 then 0 else pow_mod_loop modulus (1 smod modulus) (pka_positive_mod base modulus) exponent)"

lemma abs_smod_less: "(b :: int) \<noteq> 0 \<Longrightarrow> \<bar>a smod b\<bar> < \<bar>b\<bar>"
  by (auto simp: signed_modulo_int_def abs_mult sgn_if)

function inverse_loop :: "int \<Rightarrow> int \<Rightarrow> int \<Rightarrow> int \<Rightarrow> int \<times> int" where
  "inverse_loop t new_t r new_r =
     (if new_r \<noteq> 0
      then (let quotient = r sdiv new_r in inverse_loop new_t (t - quotient * new_t) new_r (r - quotient * new_r))
      else (t, r))"
  by pat_completeness auto
termination
  by (relation "measure (\<lambda>(t, new_t, r, new_r). nat \<bar>new_r\<bar>)")
    (auto simp: minus_sdiv_mult_eq_smod abs_smod_less nat_less_eq_zless)

declare inverse_loop.simps [simp del]

text \<open>The value and the flag \<^verbatim>\<open>ok\<close>.\<close>

definition pka_mod_inverse :: "int \<Rightarrow> int \<Rightarrow> int \<times> bool" where
  "pka_mod_inverse v modulus =
     (if modulus \<le> 1 then (0, False)
      else
        (let (t, r) = inverse_loop 0 1 modulus (pka_positive_mod v modulus)
         in if r \<noteq> 1 then (0, False) else (if t < 0 then t + modulus else t, True)))"

definition pka_shift_words :: "u32 list \<Rightarrow> u32 \<Rightarrow> bool \<Rightarrow> bool \<Rightarrow> u32 list" where
  "pka_shift_words v amount left fill_one =
     (let words = length v; width = words * 32; amount = unat amount
      in if words = 0 \<or> amount = 0 then v
         else if amount \<ge> width then (if fill_one then pka_int_to_words (pka_word_mask words) words else replicate words 0)
         else
           (let result = pka_words_to_int v;
                result = (if left
                  then push_bit amount result OR (if fill_one then push_bit amount 1 - 1 else 0)
                  else drop_bit amount result OR (if fill_one then push_bit (width - amount) (push_bit amount 1 - 1) else 0))
            in pka_int_to_words result words))"

fun add_loop :: "u64 \<Rightarrow> u32 list \<Rightarrow> u32 list \<Rightarrow> u32 list \<times> u64" where
  "add_loop c (x # xs) (y # ys) =
     (let sum = ucast x + ucast y + c; (zs, c') = add_loop (drop_bit 32 sum) xs ys in (ucast sum # zs, c'))"
| "add_loop c _ _ = ([], c)"

definition pka_add_words :: "u32 list \<Rightarrow> u32 list \<Rightarrow> u32 list \<times> bool" where
  "pka_add_words lhs rhs = (let (result, c) = add_loop 0 lhs rhs in (result, c \<noteq> 0))"

fun sub_loop :: "u64 \<Rightarrow> u32 list \<Rightarrow> u32 list \<Rightarrow> u32 list \<times> u64" where
  "sub_loop b (x # xs) (y # ys) =
     (let subtrahend = ucast y + b; borrow = (ucast x < subtrahend); diff = ucast x - subtrahend;
          (zs, b') = sub_loop (if borrow then 1 else 0) xs ys in (ucast diff # zs, b'))"
| "sub_loop b _ _ = ([], b)"

definition pka_sub_words :: "u32 list \<Rightarrow> u32 list \<Rightarrow> u32 list \<times> bool" where
  "pka_sub_words lhs rhs = (let (result, b) = sub_loop 0 lhs rhs in (result, b \<noteq> 0))"

subsection \<open>Opcodes\<close>

definition pka_update_status :: "u32 list \<Rightarrow> bool \<Rightarrow> bool \<Rightarrow> bool \<Rightarrow> 'a cc3xx_pka_scheme \<Rightarrow> 'a cc3xx_pka_scheme" where
  "pka_update_status result carry sign div_by_zero s =
     (let status = 1 OR (if sign then PKA_STATUS_ALU_SIGN_OUT else 0) OR (if carry then PKA_STATUS_ALU_CARRY else 0)
            OR (if pka_is_zero result then PKA_STATUS_ALU_OUT_ZERO else 0)
            OR (if div_by_zero then PKA_STATUS_DIV_BY_ZERO else 0)
      in store32 PKA_DONE 1 (store32 PKA_PIPE_RDY 1 (store32 PKA_STATUS status s)))"

text \<open>What the switch computes: the result, carry, sign and the divide flag; \<open>None\<close> is its default branch.\<close>

record pka_flags =
  pf_result :: "u32 list"
  pf_carry :: bool
  pf_sign :: bool
  pf_div_by_zero :: bool

definition pka_plain :: "u32 list \<Rightarrow> pka_flags" where
  "pka_plain result = \<lparr>pf_result = result, pf_carry = False, pf_sign = False, pf_div_by_zero = False\<rparr>"

definition pka_modadd :: "nat \<Rightarrow> u32 list \<Rightarrow> u32 list \<Rightarrow> int \<Rightarrow> pka_flags" where
  "pka_modadd words lhs rhs modulus =
     (if modulus > 0 then
        (let sum = pka_words_to_int lhs + pka_words_to_int rhs
         in (pka_plain (pka_int_to_words (pka_positive_mod sum modulus) words))\<lparr>pf_carry := sum \<ge> modulus\<rparr>)
      else (let (res, carry) = pka_add_words lhs rhs in (pka_plain res)\<lparr>pf_carry := carry\<rparr>))"

definition pka_modsub :: "nat \<Rightarrow> u32 list \<Rightarrow> u32 list \<Rightarrow> int \<Rightarrow> pka_flags" where
  "pka_modsub words lhs rhs modulus =
     (let l = pka_words_to_int lhs; r = pka_words_to_int rhs
      in if modulus > 0
         then (pka_plain (pka_int_to_words (pka_positive_mod (l - r) modulus) words))\<lparr>pf_carry := l < r, pf_sign := l < r\<rparr>
         else (let (res, carry) = pka_sub_words lhs rhs in (pka_plain res)\<lparr>pf_carry := carry, pf_sign := carry\<rparr>))"

text \<open>The cases of the switch that read the modulus.\<close>

definition pka_mod_op :: "u32 \<Rightarrow> nat \<Rightarrow> u32 list \<Rightarrow> u32 list \<Rightarrow> int \<Rightarrow> pka_flags" where
  "pka_mod_op op words lhs rhs modulus =
     (let l = pka_words_to_int lhs; r = pka_words_to_int rhs
      in if op = 0x06 then pka_modadd words lhs rhs modulus
         else if op = 0x07 then pka_modsub words lhs rhs modulus
         else if op = 0x11 then
           (pka_plain (pka_int_to_words (pka_positive_mod (l * r) modulus) words))\<lparr>pf_div_by_zero := modulus \<le> 0\<rparr>
         else if op = 0x13 then
           (pka_plain (pka_int_to_words (pka_pow_mod l r modulus) words))\<lparr>pf_div_by_zero := modulus \<le> 0\<rparr>
         else if op = 0x15 then
           (let (v, invertible) = pka_mod_inverse r modulus
            in (pka_plain (pka_int_to_words v words))\<lparr>pf_div_by_zero := \<not> invertible\<rparr>)
         else
           (pka_plain (pka_int_to_words (pka_positive_mod l modulus) words))\<lparr>pf_div_by_zero := modulus \<le> 0\<rparr>)"

definition pka_divide :: "nat \<Rightarrow> bool \<Rightarrow> u32 \<Rightarrow> u32 list \<Rightarrow> u32 list \<Rightarrow> 'a cc3xx_pka_scheme \<Rightarrow> pka_flags \<times> 'a cc3xx_pka_scheme" where
  "pka_divide words lhs_immediate lhs_id lhs rhs s =
     (let divisor = pka_words_to_int rhs; dividend = pka_words_to_int lhs
      in if divisor = 0
         then ((pka_plain (replicate words 0))\<lparr>pf_div_by_zero := True\<rparr>,
               if lhs_immediate then s else pka_store_operand lhs_id lhs s)
         else (pka_plain (pka_int_to_words (dividend sdiv divisor) words),
               if lhs_immediate then s
               else pka_store_operand lhs_id (pka_int_to_words (dividend smod divisor) words) s))"

definition pka_compute ::
    "u32 \<Rightarrow> nat \<Rightarrow> bool \<Rightarrow> u32 \<Rightarrow> u32 \<Rightarrow> u32 list \<Rightarrow> u32 list \<Rightarrow> 'a cc3xx_pka_scheme \<Rightarrow> pka_flags option \<times> 'a cc3xx_pka_scheme" where
  "pka_compute op words lhs_immediate lhs_id rhs_id lhs rhs s =
     (if op = 0x04 then (let (res, carry) = pka_add_words lhs rhs in (Some ((pka_plain res)\<lparr>pf_carry := carry\<rparr>), s))
      else if op = 0x05 then
        (let (res, carry) = pka_sub_words lhs rhs in (Some ((pka_plain res)\<lparr>pf_carry := carry, pf_sign := carry\<rparr>), s))
      else if op \<in> {0x06, 0x07, 0x11, 0x13, 0x15, 0x1b} then
        (let (modulus, s) = pka_modulus_value words s in (Some (pka_mod_op op words lhs rhs modulus), s))
      else if op = 0x08 then (Some (pka_plain (map (\<lambda>i. lhs ! i AND rhs ! i) [0..<words])), s)
      else if op = 0x09 then (Some (pka_plain (map (\<lambda>i. lhs ! i OR rhs ! i) [0..<words])), s)
      else if op = 0x0a then (Some (pka_plain (map (\<lambda>i. lhs ! i XOR rhs ! i) [0..<words])), s)
      else if op \<in> {0x0c, 0x0d, 0x0e, 0x0f} then
        (Some (pka_plain (pka_shift_words lhs (rhs_id + 1) (op = 0x0e \<or> op = 0x0f) (op = 0x0d \<or> op = 0x0f))), s)
      else if op = 0x10 then
        (let product = pka_words_to_int lhs * pka_words_to_int rhs
         in (Some ((pka_plain (pka_int_to_words product words))\<lparr>pf_carry := drop_bit (words * 32) product \<noteq> 0\<rparr>), s))
      else if op = 0x17 then
        (let product = pka_words_to_int lhs * pka_words_to_int rhs
         in (Some (pka_plain (pka_int_to_words (drop_bit (words * 32) product) words)), s))
      else if op = 0x14 then (let (fl, s) = pka_divide words lhs_immediate lhs_id lhs rhs s in (Some fl, s))
      else (None, s))"

definition execute_pka_opcode :: "u32 \<Rightarrow> 'a cc3xx_pka_scheme \<Rightarrow> 'a cc3xx_pka_scheme" where
  "execute_pka_opcode opcode s =
     (let op = drop_bit 27 opcode AND 0x1f
      in if op = 0 then s
         else
           (let size_id = drop_bit 24 opcode AND 0x7;
                lhs_immediate = (drop_bit 23 opcode AND 0x1 \<noteq> 0);
                lhs_id = drop_bit 18 opcode AND 0x1f;
                rhs_immediate = (drop_bit 17 opcode AND 0x1 \<noteq> 0);
                rhs_id = drop_bit 12 opcode AND 0x1f;
                discard_result = (drop_bit 11 opcode AND 0x1 \<noteq> 0);
                result_id = drop_bit 6 opcode AND 0x1f;
                shift_op = (op \<ge> 0x0c \<and> op \<le> 0x0f);
                signed_immediate = (op = 0x04 \<or> op = 0x05 \<or> op = 0x06 \<or> op = 0x07);
                words = pka_len_words size_id s;
                lhs = pka_load_operand lhs_immediate lhs_id words signed_immediate s;
                rhs = (if shift_op then replicate words 0 else pka_load_operand rhs_immediate rhs_id words signed_immediate s)
            in case pka_compute op words lhs_immediate lhs_id rhs_id lhs rhs s of
                 (None, s) \<Rightarrow> pka_update_status (replicate words 0) False False False s
               | (Some fl, s) \<Rightarrow>
                   (let s = (if discard_result then s else pka_store_operand result_id (pf_result fl) s)
                    in pka_update_status (pf_result fl) (pf_carry fl) (pf_sign fl) (pf_div_by_zero fl) s)))"

subsection \<open>Words and integers\<close>

lemma words_to_int_Nil [simp]: "pka_words_to_int [] = 0"
  by (simp add: pka_words_to_int_def)

lemma words_to_int_Cons [simp]: "pka_words_to_int (w # ws) = 2 ^ 32 * pka_words_to_int ws + uint w"
  by (simp add: pka_words_to_int_def push_bit_eq_mult mult.commute)

lemma words_to_int_bounds: "0 \<le> pka_words_to_int ws" "pka_words_to_int ws < 2 ^ (32 * length ws)"
proof -
  have "0 \<le> pka_words_to_int ws \<and> pka_words_to_int ws < 2 ^ (32 * length ws)"
  proof (induction ws)
    case (Cons w ws)
    have "uint w < 2 ^ 32" using uint_u32_bound by simp
    then have "2 ^ 32 * pka_words_to_int ws + uint w < 2 ^ 32 * (pka_words_to_int ws + 1)" by simp
    also have "\<dots> \<le> 2 ^ 32 * 2 ^ (32 * length ws)" using Cons by (intro mult_left_mono) auto
    finally show ?case using Cons by (simp add: power_add)
  qed simp
  then show "0 \<le> pka_words_to_int ws" "pka_words_to_int ws < 2 ^ (32 * length ws)" by simp_all
qed

lemma length_int_words [simp]: "length (int_words v n) = n"
  by (induction n arbitrary: v) simp_all

lemma length_int_to_words [simp]: "length (pka_int_to_words v n) = n"
  by (simp add: pka_int_to_words_def Let_def)

lemma words_to_int_int_words: "pka_words_to_int (int_words v n) = v mod 2 ^ (32 * n)"
proof (induction n arbitrary: v)
  case (Suc n)
  have "uint (word_of_int (v AND 0xffffffff) :: u32) = v mod 2 ^ 32"
    using take_bit_eq_mask[of 32 v] by (simp add: uint_word_of_int mask_eq_exp_minus_1 take_bit_eq_mod)
  moreover have "v mod 2 ^ (32 * Suc n) = 2 ^ 32 * (v div 2 ^ 32 mod 2 ^ (32 * n)) + v mod 2 ^ 32"
    by (simp only: mult_Suc_right power_add zmod_zmult2_eq zero_le_power zero_le_numeral)
  ultimately show ?case using Suc by (simp add: drop_bit_eq_div)
qed simp

lemma word_modulus [simp]: "pka_word_modulus n = 2 ^ (32 * n)"
  by (simp add: pka_word_modulus_def push_bit_eq_mult mult.commute)

lemma smod_fixed: "0 < m \<Longrightarrow> (if v smod m < 0 then v smod m + m else v smod m) = v mod (m :: int)"
proof -
  assume m: "0 < m"
  have eq: "v smod m = v - (v sdiv m) * m" by (simp add: minus_sdiv_mult_eq_smod)
  have "\<bar>v smod m\<bar> < m" using abs_smod_less[of m v] m by simp
  moreover have "(if v smod m < 0 then v smod m + m else v smod m) mod m = v mod m"
    by (simp add: eq mod_diff_eq[symmetric])
  ultimately show ?thesis by (smt (verit) mod_pos_pos_trivial)
qed

lemma int_to_words [simp]: "pka_words_to_int (pka_int_to_words v n) = v mod 2 ^ (32 * n)"
  using smod_fixed[of "2 ^ (32 * n)" v] by (simp add: pka_int_to_words_def words_to_int_int_words Let_def)

lemma positive_mod: "pka_positive_mod v m = (if m \<le> 0 then 0 else v mod m)"
  using smod_fixed[of m v] by (simp add: pka_positive_mod_def Let_def)

lemma uint_mod_32: "uint (x :: u32) mod 2 ^ 32 = uint x"
  using uint_u32_bound[of x] by (rule mod_pos_pos_trivial)

lemma words_to_int_inj: "length xs = length ys \<Longrightarrow> pka_words_to_int xs = pka_words_to_int ys \<Longrightarrow> xs = ys"
proof (induction xs ys rule: list_induct2)
  case (Cons x xs y ys)
  have "uint x = uint y" using arg_cong[OF Cons.prems, of "\<lambda>i. i mod 2 ^ 32"] using uint_mod_32[of x] uint_mod_32[of y] by simp
  with Cons show ?case by (simp add: word_uint_eq_iff)
qed simp

lemma words_roundtrip: "pka_int_to_words (pka_words_to_int ws) (length ws) = ws"
  by (rule words_to_int_inj) (simp_all add: words_to_int_bounds)

subsection \<open>Sums and differences\<close>

lemma unat_le_1: "unat (c :: 'a::len word) \<le> 1 \<longleftrightarrow> uint c \<le> 1"
  by transfer (simp add: nat_le_iff)

lemma sum_fits:
  assumes "unat (c :: u64) \<le> 1"
  shows "uint (ucast (x :: u32) + ucast (y :: u32) + c) = uint x + uint y + uint c"
    and "uint (ucast x + ucast y + c) < 2 * 2 ^ 32"
proof -
  have c: "uint c \<le> 1" using assms by (simp only: unat_le_1)
  have b: "uint x < 2 ^ 32" "uint y < 2 ^ 32" by (rule uint_u32_bound)+
  have "uint (ucast x :: u64) + uint (ucast y :: u64) < 2 ^ 64" using b unfolding uint_ucast_32_64 by simp
  from uint_add_fits[OF this] have xy: "uint (ucast x + ucast y :: u64) = uint x + uint y" by (simp only: uint_ucast_32_64)
  have "uint (ucast x + ucast y :: u64) + uint c < 2 ^ 64" using b c unfolding xy by simp
  from uint_add_fits[OF this] show "uint (ucast x + ucast y + c) = uint x + uint y + uint c" by (simp only: xy)
  then show "uint (ucast x + ucast y + c) < 2 * 2 ^ 32" using b c by simp
qed

lemma carry_step:
  assumes "A + P * c = X + Y + h" and "B * h + l = (s :: int)"
  shows "B * A + l + B * P * c = B * X + B * Y + s"
proof -
  have "B * (A + P * c) + l = B * X + B * Y + (B * h + l)" unfolding assms(1) by (simp add: distrib_left)
  then show ?thesis unfolding assms(2) by (simp add: distrib_left mult.assoc)
qed

lemma add_loop_int:
  "length xs = length ys \<Longrightarrow> unat c \<le> 1 \<Longrightarrow>
   pka_words_to_int (fst (add_loop c xs ys)) + 2 ^ (32 * length xs) * uint (snd (add_loop c xs ys)) =
     pka_words_to_int xs + pka_words_to_int ys + uint c \<and> unat (snd (add_loop c xs ys)) \<le> 1 \<and>
   length (fst (add_loop c xs ys)) = length xs"
proof (induction c xs ys rule: add_loop.induct)
  case (1 c x xs y ys)
  let ?sum = "ucast x + ucast y + c :: u64"
  note sum = sum_fits[OF 1(3), of x y]
  have lo: "uint (ucast ?sum :: u32) = uint ?sum mod 2 ^ 32" by (simp add: unsigned_ucast_eq take_bit_eq_mod)
  have hi: "uint (drop_bit 32 ?sum) = uint ?sum div 2 ^ 32" by (simp add: uint_div_distrib drop_bit_eq_div)
  then have "uint (drop_bit 32 ?sum) < 2" using sum(2) by simp
  then have c: "unat (drop_bit 32 ?sum) \<le> 1" unfolding unat_le_1 by linarith
  obtain zs c' where z: "add_loop (drop_bit 32 ?sum) xs ys = (zs, c')" by force
  have IH: "pka_words_to_int zs + 2 ^ (32 * length xs) * uint c' = pka_words_to_int xs + pka_words_to_int ys + uint (drop_bit 32 ?sum)"
    "unat c' \<le> 1" "length zs = length xs"
    using 1(1)[OF refl _ c] 1(2) z by simp_all
  have "2 ^ 32 * uint (drop_bit 32 ?sum) + uint (ucast ?sum :: u32) = uint x + uint y + uint c"
    unfolding hi lo sum(1)[symmetric] by (rule mult_div_mod_eq)
  from carry_step[OF IH(1) this] show ?case
    using z IH(2,3) by (simp add: Let_def power_add)
qed simp_all

lemma add_words_int:
  assumes "length xs = length ys" and "pka_add_words xs ys = (zs, carry)"
  shows "pka_words_to_int zs + of_bool carry * 2 ^ (32 * length xs) = pka_words_to_int xs + pka_words_to_int ys"
    and "length zs = length xs"
proof -
  obtain c where c: "add_loop 0 xs ys = (zs, c)" "carry = (c \<noteq> 0)"
    using assms(2) by (auto simp: pka_add_words_def split: prod.splits)
  have "unat (0 :: u64) \<le> 1" by simp
  from add_loop_int[OF assms(1) this] c(1) have *: "pka_words_to_int zs + 2 ^ (32 * length xs) * uint c = pka_words_to_int xs + pka_words_to_int ys"
    "unat c \<le> 1" "length zs = length xs" by simp_all
  have "uint c = of_bool carry" using *(2) c(2) unfolding unat_le_1 by (simp add: word_uint_eq_iff) (smt (verit) unsigned_greater_eq)
  with * show "pka_words_to_int zs + of_bool carry * 2 ^ (32 * length xs) = pka_words_to_int xs + pka_words_to_int ys"
    and "length zs = length xs" by (simp_all add: mult.commute)
qed

lemma diff_fits:
  fixes y :: u32
  assumes "unat (b :: u64) \<le> 1"
  defines "sub \<equiv> ucast y + b"
  shows "uint sub = uint y + uint b"
    and "(ucast (x :: u32) < sub) = (uint x < uint y + uint b)"
    and "uint (ucast (ucast x - sub) :: u32) = (uint x - uint y - uint b) mod 2 ^ 32"
proof -
  have b: "uint b \<le> 1" using assms(1) unfolding unat_le_1 .
  have "uint (ucast y :: u64) + uint b < 2 ^ 64" using b uint_u32_bound(2)[of y] unfolding uint_ucast_32_64 by simp
  from uint_add_fits[OF this] show s: "uint sub = uint y + uint b" unfolding sub_def uint_ucast_32_64 .
  show "(ucast x < sub) = (uint x < uint y + uint b)" unfolding word_less_def s uint_ucast_32_64 ..
  have "uint (ucast (ucast x - sub) :: u32) = uint (ucast x - sub) mod 2 ^ 32" by (simp add: unsigned_ucast_eq take_bit_eq_mod)
  also have "\<dots> = ((uint x - uint sub) mod 2 ^ 64) mod 2 ^ 32" by (simp only: uint_word_ariths uint_ucast_32_64) simp
  also have "\<dots> = (uint x - uint sub) mod 2 ^ 32" by (rule mod_mod_cancel) (simp add: le_imp_power_dvd)
  finally show "uint (ucast (ucast x - sub) :: u32) = (uint x - uint y - uint b) mod 2 ^ 32" by (simp only: s diff_diff_eq)
qed

lemma borrow_step:
  assumes "A - P * c = X - Y - h" and "l - B * h = (s :: int)"
  shows "B * A + l - B * P * c = B * X - B * Y + s"
proof -
  have "B * (A - P * c) + l = B * X - B * Y + (l - B * h)" unfolding assms(1) by (simp add: right_diff_distrib)
  then show ?thesis unfolding assms(2) by (simp add: right_diff_distrib mult.assoc)
qed

lemma borrow_digit:
  assumes "0 \<le> x" "x < (2 ^ 32 :: int)" "0 \<le> y" "y < 2 ^ 32" "0 \<le> b" "b \<le> 1"
  shows "(x - y - b) mod 2 ^ 32 - 2 ^ 32 * of_bool (x < y + b) = x - y - b"
proof (cases "x < y + b")
  case True
  have "(x - y - b) mod 2 ^ 32 = (x - y - b + 2 ^ 32) mod 2 ^ 32" by simp
  also have "\<dots> = x - y - b + 2 ^ 32" using assms True by (intro mod_pos_pos_trivial) simp_all
  finally show ?thesis using True by simp
next
  case False
  then have "(x - y - b) mod 2 ^ 32 = x - y - b" using assms by (intro mod_pos_pos_trivial) simp_all
  with False show ?thesis by simp
qed

lemma sub_loop_int:
  "length xs = length ys \<Longrightarrow> unat b \<le> 1 \<Longrightarrow>
   pka_words_to_int (fst (sub_loop b xs ys)) - 2 ^ (32 * length xs) * uint (snd (sub_loop b xs ys)) =
     pka_words_to_int xs - pka_words_to_int ys - uint b \<and> unat (snd (sub_loop b xs ys)) \<le> 1 \<and>
   length (fst (sub_loop b xs ys)) = length xs"
proof (induction b xs ys rule: sub_loop.induct)
  case (1 b x xs y ys)
  note f = diff_fits[OF 1(3), where y = y]
  let ?d = "ucast (ucast x - (ucast y + b)) :: u32"
  let ?b = "if ucast x < ucast y + b then 1 else 0 :: u64"
  have b: "unat ?b \<le> 1" "uint ?b = of_bool (uint x < uint y + uint b)" using f(2) by simp_all
  obtain zs c where z: "sub_loop ?b xs ys = (zs, c)" by force
  have IH: "pka_words_to_int zs - 2 ^ (32 * length xs) * uint c = pka_words_to_int xs - pka_words_to_int ys - uint ?b"
    "unat c \<le> 1" "length zs = length xs"
    using 1(1)[OF refl refl refl _ b(1)] 1(2) z by simp_all
  have "uint ?d - 2 ^ 32 * uint ?b = uint x - uint y - uint b"
    unfolding f(3) b(2) using 1(3) unfolding unat_le_1 by (intro borrow_digit uint_u32_bound) simp_all
  from borrow_step[OF IH(1) this] show ?case
    using z IH(2,3) by (simp add: Let_def power_add)
qed simp_all

lemma sub_words_int:
  assumes "length xs = length ys" and "pka_sub_words xs ys = (zs, borrow)"
  shows "pka_words_to_int zs = pka_words_to_int xs - pka_words_to_int ys + of_bool borrow * 2 ^ (32 * length xs)"
    and "length zs = length xs" and "borrow \<longleftrightarrow> pka_words_to_int xs < pka_words_to_int ys"
proof -
  obtain c where c: "sub_loop 0 xs ys = (zs, c)" "borrow = (c \<noteq> 0)"
    using assms(2) by (auto simp: pka_sub_words_def split: prod.splits)
  have "unat (0 :: u64) \<le> 1" by simp
  from sub_loop_int[OF assms(1) this] c(1) have *: "pka_words_to_int zs - 2 ^ (32 * length xs) * uint c = pka_words_to_int xs - pka_words_to_int ys"
    "unat c \<le> 1" "length zs = length xs" by simp_all
  have "uint c = of_bool borrow" using *(2) c(2) unfolding unat_le_1 by (simp add: word_uint_eq_iff) (smt (verit) unsigned_greater_eq)
  with * show eq: "pka_words_to_int zs = pka_words_to_int xs - pka_words_to_int ys + of_bool borrow * 2 ^ (32 * length xs)"
    and l: "length zs = length xs" by (simp_all add: mult.commute)
  have z: "0 \<le> pka_words_to_int zs" "pka_words_to_int zs < 2 ^ (32 * length xs)"
    using words_to_int_bounds[of zs] l by simp_all
  then show "borrow \<longleftrightarrow> pka_words_to_int xs < pka_words_to_int ys"
    using eq by (cases borrow) simp_all
qed

subsection \<open>Powers and inverses\<close>

lemma smod_nonneg: "0 \<le> a \<Longrightarrow> 0 < (m :: int) \<Longrightarrow> a smod m = a mod m"
  by (cases "a = 0") (simp_all add: signed_modulo_int_def)

lemma pow_mod_loop_mod:
  "0 < m \<Longrightarrow> 0 \<le> result \<Longrightarrow> 0 \<le> base \<Longrightarrow> result < m \<Longrightarrow> pow_mod_loop m result base e = (result * base ^ nat e) mod m"
proof (induction m result base e rule: pow_mod_loop.induct)
  case (1 m result base e)
  show ?case
  proof (cases "0 < e")
    case True
    let ?r = "if e AND 1 \<noteq> 0 then (result * base) smod m else result"
    have r: "0 \<le> ?r" "?r < m" using 1(2-5) by (simp_all add: smod_nonneg)
    have b: "0 \<le> (base * base) smod m" using 1(2-4) by (simp add: smod_nonneg)
    have odd: "e AND 1 \<noteq> 0 \<longleftrightarrow> odd e" by (simp add: and_one_eq mod2_eq_if)
    have "nat e = 2 * (nat e div 2) + nat e mod 2" by simp
    then have e: "nat e = 2 * nat (drop_bit 1 e) + nat (e mod 2)" using True
      by (simp add: drop_bit_Suc nat_div_distrib nat_mod_distrib)
    have "pow_mod_loop m result base e = (?r * ((base * base) smod m) ^ nat (drop_bit 1 e)) mod m"
      using 1(1)[OF True 1(2) r(1) b r(2)] True by (subst pow_mod_loop.simps) (simp only: if_True)
    also have "\<dots> = (?r * (base * base) ^ nat (drop_bit 1 e)) mod m"
      using 1(2,4) by (simp add: smod_nonneg) (metis mod_mult_right_eq power_mod)
    also have "\<dots> = ((if e AND 1 \<noteq> 0 then result * base else result) * (base * base) ^ nat (drop_bit 1 e)) mod m"
      using 1(2-4) by (simp add: smod_nonneg mod_mult_left_eq)
    also have "\<dots> = (result * base ^ nat e) mod m"
      unfolding e odd by (simp add: power_add power_mult power2_eq_square mod2_eq_if ac_simps)
    finally show ?thesis .
  next
    case False
    with 1(3,5) show ?thesis by (subst pow_mod_loop.simps) simp
  qed
qed

lemma pow_mod: "pka_pow_mod b e m = (if m \<le> 0 then 0 else b ^ nat e mod m)"
proof (cases "0 < m")
  case True
  have "pow_mod_loop m (1 smod m) (b mod m) e = (1 mod m * (b mod m) ^ nat e) mod m"
    using True pow_mod_loop_mod[of m "1 mod m" "b mod m" e] by (simp add: smod_nonneg)
  then show ?thesis using True by (simp add: pka_pow_mod_def positive_mod mod_mult_left_eq power_mod)
qed (simp add: pka_pow_mod_def)

text \<open>
  What the extended Euclidean loop keeps: the remainders fall and keep their divisor with the modulus, each coefficient
  times the value is congruent to its remainder, and the coefficients stay below the modulus.
\<close>

definition euclid_inv :: "int \<Rightarrow> int \<Rightarrow> int \<Rightarrow> int \<Rightarrow> int \<Rightarrow> int \<Rightarrow> bool" where
  "euclid_inv m v t nt r nr \<longleftrightarrow>
     0 \<le> nr \<and> nr < r \<and> gcd r nr = gcd m v \<and> (t * v) mod m = r mod m \<and> (nt * v) mod m = nr mod m \<and>
     r * \<bar>nt\<bar> + nr * \<bar>t\<bar> = m \<and> t * nt \<le> 0 \<and> \<bar>t\<bar> < m"

lemma abs_opposite: "t * nt \<le> 0 \<Longrightarrow> 0 \<le> q \<Longrightarrow> \<bar>t - q * nt\<bar> = \<bar>t\<bar> + q * \<bar>nt :: int\<bar> \<and> nt * (t - q * nt) \<le> 0"
proof -
  assume t: "t * nt \<le> 0" and q: "0 \<le> q"
  have "nt * (t - q * nt) = t * nt - q * (nt * nt)" by (simp add: algebra_simps)
  moreover have "0 \<le> q * (nt * nt)" using q by simp
  ultimately have s: "nt * (t - q * nt) \<le> 0" using t by simp
  show ?thesis
  proof (cases "nt = 0")
    case False
    then consider "0 < nt" "t \<le> 0" | "nt < 0" "0 \<le> t" using t by (metis linorder_neqE_linordered_idom mult_le_0_iff not_le)
    then show ?thesis
    proof cases
      case 1
      then have "0 \<le> q * nt" using q by simp
      with 1 s show ?thesis by (simp add: abs_if)
    next
      case 2
      then have "q * nt \<le> 0" using q by (simp add: mult_nonneg_nonpos)
      with 2 s show ?thesis by (simp add: abs_if)
    qed
  qed (use t in simp)
qed

lemma euclid_step:
  assumes "euclid_inv m v t nt r nr" and "nr \<noteq> 0"
  shows "euclid_inv m v nt (t - (r sdiv nr) * nt) nr (r - (r sdiv nr) * nr)"
proof -
  have p: "0 < nr" "nr < r" using assms by (auto simp: euclid_inv_def)
  let ?q = "r div nr"
  have q: "r sdiv nr = ?q" "0 \<le> ?q" using p by (simp_all add: signed_divide_int_def pos_imp_zdiv_nonneg_iff)
  have nr: "r - ?q * nr = r mod nr" by (simp add: minus_div_mult_eq_mod)
  have a: "\<bar>t - ?q * nt\<bar> = \<bar>t\<bar> + ?q * \<bar>nt\<bar>" "nt * (t - ?q * nt) \<le> 0"
    using abs_opposite[OF _ q(2)] assms(1) by (auto simp: euclid_inv_def)
  have "((t - ?q * nt) * v) mod m = (t * v - ?q * (nt * v)) mod m" by (simp add: algebra_simps)
  also have "\<dots> = ((t * v) mod m - ?q * ((nt * v) mod m)) mod m" by (metis mod_diff_left_eq mod_diff_right_eq mod_mult_right_eq)
  also have "\<dots> = (r mod m - ?q * (nr mod m)) mod m" using assms(1) by (simp add: euclid_inv_def)
  also have "\<dots> = (r - ?q * nr) mod m" by (metis mod_diff_left_eq mod_diff_right_eq mod_mult_right_eq)
  finally have c: "((t - ?q * nt) * v) mod m = (r mod nr) mod m" by (simp only: nr)
  have "nr * (\<bar>t\<bar> + ?q * \<bar>nt\<bar>) + (r - ?q * nr) * \<bar>nt\<bar> = r * \<bar>nt\<bar> + nr * \<bar>t\<bar>" by (simp add: algebra_simps)
  then have sum: "nr * \<bar>t - ?q * nt\<bar> + (r mod nr) * \<bar>nt\<bar> = m" using assms(1) by (simp add: euclid_inv_def a(1) nr)
  have "2 * \<bar>nt\<bar> \<le> r * \<bar>nt\<bar>" using p by (intro mult_right_mono) simp_all
  also have "\<dots> \<le> m" using assms(1) p(1) unfolding euclid_inv_def by (smt (verit) abs_ge_zero mult_nonneg_nonneg)
  finally have "\<bar>nt\<bar> < m" using assms(1) unfolding euclid_inv_def by linarith
  with assms(1) p a(2) c sum show ?thesis unfolding q(1) nr
    by (simp add: euclid_inv_def gcd_red_int[symmetric] gcd.commute[of nr])
qed

lemma inverse_loop_spec:
  "euclid_inv m v t nt r nr \<Longrightarrow> \<exists>t' nt'. inverse_loop t nt r nr = (t', gcd m v) \<and> euclid_inv m v t' nt' (gcd m v) 0"
proof (induction t nt r nr rule: inverse_loop.induct)
  case (1 t nt r nr)
  show ?case
  proof (cases "nr = 0")
    case True
    with 1(2) have "gcd m v = r" by (auto simp: euclid_inv_def)
    with True 1(2) show ?thesis by (subst inverse_loop.simps) auto
  next
    case False
    with 1(1)[OF False refl euclid_step[OF 1(2) False]] show ?thesis by (subst inverse_loop.simps) (simp add: Let_def)
  qed
qed

lemma mod_inverse:
  assumes "pka_mod_inverse v m = (x, ok)"
  shows "ok \<longleftrightarrow> 1 < m \<and> gcd v m = 1" and "ok \<Longrightarrow> (x * v) mod m = 1 \<and> 0 \<le> x \<and> x < m" and "\<not> ok \<Longrightarrow> x = 0"
proof -
  have "(ok \<longleftrightarrow> 1 < m \<and> gcd v m = 1) \<and> (ok \<longrightarrow> (x * v) mod m = 1 \<and> 0 \<le> x \<and> x < m) \<and> (\<not> ok \<longrightarrow> x = 0)"
  proof (cases "1 < m")
    case True
    have "euclid_inv m (v mod m) 0 1 m (v mod m)" using True by (simp add: euclid_inv_def)
    from inverse_loop_spec[OF this] obtain t nt where t: "inverse_loop 0 1 m (v mod m) = (t, gcd v m)"
      "euclid_inv m (v mod m) t nt (gcd v m) 0" using True by (auto simp: gcd_red_int[symmetric] gcd.commute[of m])
    show ?thesis
    proof (cases "gcd v m = 1")
      case g: True
      have "(t * v) mod m = (t * (v mod m)) mod m" by (simp add: mod_mult_right_eq)
      also have "\<dots> = 1" using t(2) g True by (simp add: euclid_inv_def)
      finally have "(t * v) mod m = 1" .
      moreover from this have "((t + m) * v) mod m = 1" by (simp add: distrib_right)
      moreover have "\<bar>t\<bar> < m" using t(2) by (simp add: euclid_inv_def)
      ultimately show ?thesis using assms True t(1) g by (auto simp: pka_mod_inverse_def positive_mod split: if_splits)
    next
      case False
      with assms True t(1) show ?thesis by (auto simp: pka_mod_inverse_def positive_mod)
    qed
  next
    case False
    with assms show ?thesis by (auto simp: pka_mod_inverse_def)
  qed
  then show "ok \<longleftrightarrow> 1 < m \<and> gcd v m = 1" and "ok \<Longrightarrow> (x * v) mod m = 1 \<and> 0 \<le> x \<and> x < m" and "\<not> ok \<Longrightarrow> x = 0" by simp_all
qed

subsection \<open>Operands in the word memory\<close>

definition operand_fits :: "u32 \<Rightarrow> nat \<Rightarrow> 'a cc3xx_pka_scheme \<Rightarrow> bool" where
  "operand_fits r words s \<longleftrightarrow> unat (pka_phys_reg_base r s) + words \<le> PKA_SRAM_WORDS"

definition pka_value :: "u32 \<Rightarrow> nat \<Rightarrow> 'a cc3xx_pka_scheme \<Rightarrow> int" where
  "pka_value r words s = pka_words_to_int (pka_load_operand False r words False s)"

text \<open>Two registers whose words do not meet.\<close>

definition operands_apart :: "u32 \<Rightarrow> u32 \<Rightarrow> nat \<Rightarrow> 'a cc3xx_pka_scheme \<Rightarrow> bool" where
  "operands_apart r r' words s \<longleftrightarrow>
     unat (pka_phys_reg_base r s) + words \<le> unat (pka_phys_reg_base r' s) \<or>
     unat (pka_phys_reg_base r' s) + words \<le> unat (pka_phys_reg_base r s)"

lemma unat_base_plus:
  "unat (b :: u32) + n \<le> PKA_SRAM_WORDS \<Longrightarrow> i < n \<Longrightarrow> unat (b + of_nat i) = unat b + i"
  by (subst unat_add_small) (simp_all add: unat_of_nat_small)

lemma load_operand_words:
  "operand_fits r words s \<Longrightarrow>
   pka_load_operand False r words sg s = map (\<lambda>i. m_pka_sram s (unat (pka_phys_reg_base r s) + i)) [0..<words]"
  by (simp add: pka_load_operand_def operand_fits_def pka_sram_read_def unat_base_plus)

lemma length_load_operand [simp]: "length (pka_load_operand im r words sg s) = words"
  by (simp add: pka_load_operand_def Let_def)

lemma sram_write_sel [simp]:
  "m_regs (pka_sram_write a v b s) = m_regs s" "m_sha256 (pka_sram_write a v b s) = m_sha256 s"
  "m_trace_count (pka_sram_write a v b s) = m_trace_count s"
  "m_pka_write_addr (pka_sram_write a v b s) = m_pka_write_addr s" "m_pka_read_addr (pka_sram_write a v b s) = m_pka_read_addr s"
  by (simp_all add: pka_sram_write_def pka_invalidate_modulus_cache_def Let_def)

lemma sram_write_sram:
  "unat a < PKA_SRAM_WORDS \<Longrightarrow> m_pka_sram (pka_sram_write a v b s) = (m_pka_sram s)(unat a := v)"
  by (simp add: pka_sram_write_def pka_invalidate_modulus_cache_def Let_def)

lemma sram_write_cache:
  "\<not> b \<Longrightarrow> m_pka_modulus_cache_valid (pka_sram_write a v b s) = m_pka_modulus_cache_valid s"
  "\<not> b \<Longrightarrow> m_pka_modulus_cache_words (pka_sram_write a v b s) = m_pka_modulus_cache_words s"
  "\<not> b \<Longrightarrow> m_pka_modulus_cache (pka_sram_write a v b s) = m_pka_modulus_cache s"
  "b \<Longrightarrow> unat a < PKA_SRAM_WORDS \<Longrightarrow> \<not> m_pka_modulus_cache_valid (pka_sram_write a v b s)"
  by (simp_all add: pka_sram_write_def pka_invalidate_modulus_cache_def Let_def)

lemma store_fold:
  fixes s :: "'a cc3xx_pka_scheme" and data :: "u32 list" and b :: bool
  assumes "unat base + n \<le> PKA_SRAM_WORDS"
  defines "t \<equiv> fold (\<lambda>i. pka_sram_write (base + of_nat i) (data ! i) b) [0..<n] s"
  shows "m_regs t = m_regs s \<and> m_sha256 t = m_sha256 s \<and>
     m_pka_sram t = (\<lambda>k. if unat base \<le> k \<and> k < unat base + n then data ! (k - unat base) else m_pka_sram s k) \<and>
     (b \<and> n \<noteq> 0 \<longrightarrow> \<not> m_pka_modulus_cache_valid t) \<and>
     (\<not> b \<longrightarrow> m_pka_modulus_cache_valid t = m_pka_modulus_cache_valid s \<and>
        m_pka_modulus_cache_words t = m_pka_modulus_cache_words s \<and> m_pka_modulus_cache t = m_pka_modulus_cache s)"
  using assms(1) unfolding t_def
proof (induction n)
  case (Suc n)
  have a: "unat (base + of_nat n) = unat base + n" using Suc.prems by (intro unat_base_plus[of base "Suc n"]) simp_all
  with Suc show ?case by (auto simp: sram_write_cache sram_write_sram fun_eq_iff less_Suc_eq)
qed (auto simp: fun_eq_iff)

lemma store_operand:
  fixes s :: "'a cc3xx_pka_scheme"
  assumes "operand_fits r (length data) s"
  defines "t \<equiv> pka_store_operand r data s" and "base \<equiv> unat (pka_phys_reg_base r s)"
    and "n_base \<equiv> unat (pka_phys_reg_base 0 s)"
  shows "m_regs t = m_regs s" and "m_sha256 t = m_sha256 s"
    and "m_pka_sram t = (\<lambda>k. if base \<le> k \<and> k < base + length data then data ! (k - base) else m_pka_sram s k)"
    and "base < n_base + length data \<Longrightarrow> n_base < base + length data \<Longrightarrow> \<not> m_pka_modulus_cache_valid t"
    and "\<not> (base < n_base + length data \<and> n_base < base + length data) \<Longrightarrow>
       m_pka_modulus_cache_valid t = m_pka_modulus_cache_valid s \<and>
       m_pka_modulus_cache_words t = m_pka_modulus_cache_words s \<and> m_pka_modulus_cache t = m_pka_modulus_cache s"
proof -
  have t: "t = fold (\<lambda>i. pka_sram_write (pka_phys_reg_base r s + of_nat i) (data ! i)
      (base < n_base + length data \<and> n_base < base + length data)) [0..<length data] s"
    by (simp add: t_def base_def n_base_def pka_store_operand_def Let_def)
  note sf = store_fold[OF assms(1)[unfolded operand_fits_def], of data "base < n_base + length data \<and> n_base < base + length data" s, folded t]
  show "m_regs t = m_regs s" and "m_sha256 t = m_sha256 s" using sf by (blast+)
  show "m_pka_sram t = (\<lambda>k. if base \<le> k \<and> k < base + length data then data ! (k - base) else m_pka_sram s k)"
    using sf unfolding base_def by blast
  show "base < n_base + length data \<Longrightarrow> n_base < base + length data \<Longrightarrow> \<not> m_pka_modulus_cache_valid t"
    using sf by (cases "data = []") auto
  show "\<not> (base < n_base + length data \<and> n_base < base + length data) \<Longrightarrow>
       m_pka_modulus_cache_valid t = m_pka_modulus_cache_valid s \<and>
       m_pka_modulus_cache_words t = m_pka_modulus_cache_words s \<and> m_pka_modulus_cache t = m_pka_modulus_cache s"
    using sf by blast
qed

lemma base_cong: "m_regs s = m_regs t \<Longrightarrow> pka_phys_reg_base r s = pka_phys_reg_base r t"
  by (simp add: pka_phys_reg_base_def load32_def)

lemma fits_cong: "m_regs s = m_regs t \<Longrightarrow> operand_fits r n s = operand_fits r n t"
  by (simp add: operand_fits_def base_cong[of s t])

lemma apart_cong: "m_regs s = m_regs t \<Longrightarrow> operands_apart r r' n s = operands_apart r r' n t"
  by (simp add: operands_apart_def base_cong[of s t])

lemma value_cong: "m_regs s = m_regs t \<Longrightarrow> m_pka_sram s = m_pka_sram t \<Longrightarrow> pka_value r n s = pka_value r n t"
  by (simp add: pka_value_def pka_load_operand_def pka_sram_read_def base_cong[of s t] cong: if_cong)

lemma value_store_same:
  assumes "operand_fits r (length data) s"
  shows "pka_value r (length data) (pka_store_operand r data s) = pka_words_to_int data"
proof -
  note st = store_operand[OF assms]
  have f: "operand_fits r (length data) (pka_store_operand r data s)" using assms fits_cong[OF st(1)] by simp
  have "map (\<lambda>i. m_pka_sram (pka_store_operand r data s) (unat (pka_phys_reg_base r s) + i)) [0..<length data] = data"
    unfolding st(3) by (rule nth_equalityI) simp_all
  then show ?thesis unfolding pka_value_def load_operand_words[OF f] base_cong[OF st(1)] by simp
qed

lemma value_store_apart:
  assumes "operand_fits r (length data) s" and "operand_fits r' (length data) s" and "operands_apart r r' (length data) s"
  shows "pka_value r' (length data) (pka_store_operand r data s) = pka_value r' (length data) s"
proof -
  note st = store_operand[OF assms(1)]
  have f: "operand_fits r' (length data) (pka_store_operand r data s)" using assms(2) fits_cong[OF st(1)] by simp
  show ?thesis using assms(3) unfolding pka_value_def load_operand_words[OF f] load_operand_words[OF assms(2)] base_cong[OF st(1)] st(3)
    by (intro arg_cong[of _ _ pka_words_to_int] map_cong refl) (auto simp: operands_apart_def)
qed

subsection \<open>The cached modulus\<close>

definition pka_cache_ok :: "'a cc3xx_pka_scheme \<Rightarrow> bool" where
  "pka_cache_ok s \<longleftrightarrow> (m_pka_modulus_cache_valid s \<longrightarrow> m_pka_modulus_cache s = pka_value 0 (m_pka_modulus_cache_words s) s)"

lemma modulus_value:
  assumes "pka_cache_ok s"
  shows "fst (pka_modulus_value words s) = pka_value 0 words s"
    and "m_regs (snd (pka_modulus_value words s)) = m_regs s" and "m_pka_sram (snd (pka_modulus_value words s)) = m_pka_sram s"
    and "m_sha256 (snd (pka_modulus_value words s)) = m_sha256 s"
    and "pka_cache_ok (snd (pka_modulus_value words s))"
    and "m_pka_modulus_cache_words (snd (pka_modulus_value words s)) = words"
  using assms by (auto simp: pka_modulus_value_def pka_cache_ok_def pka_value_def pka_load_operand_def
      pka_sram_read_def pka_phys_reg_base_def load32_def Let_def cong: if_cong)

lemma cache_ok_store:
  assumes "pka_cache_ok s" and "operand_fits r (length data) s" and "operand_fits 0 (length data) s"
    and "m_pka_modulus_cache_valid s \<Longrightarrow> m_pka_modulus_cache_words s = length data"
  shows "pka_cache_ok (pka_store_operand r data s)"
proof (cases "unat (pka_phys_reg_base r s) < unat (pka_phys_reg_base 0 s) + length data \<and>
    unat (pka_phys_reg_base 0 s) < unat (pka_phys_reg_base r s) + length data")
  case True
  then show ?thesis using store_operand(4)[OF assms(2)] by (simp add: pka_cache_ok_def)
next
  case False
  note st = store_operand(5)[OF assms(2) False]
  have "operands_apart r 0 (length data) s" using False by (auto simp: operands_apart_def)
  from value_store_apart[OF assms(2,3) this] show ?thesis using assms(1,4) st by (auto simp: pka_cache_ok_def)
qed

subsection \<open>Instructions\<close>

text \<open>An opcode word without immediates that keeps its result, and how its fields are read back.\<close>

definition pka_insn :: "u32 \<Rightarrow> u32 \<Rightarrow> u32 \<Rightarrow> u32 \<Rightarrow> u32 \<Rightarrow> u32" where
  "pka_insn op size_id lhs rhs res =
     push_bit 27 op OR push_bit 24 size_id OR push_bit 18 lhs OR push_bit 12 rhs OR push_bit 6 res"

definition insn_ok :: "u32 \<Rightarrow> u32 \<Rightarrow> u32 \<Rightarrow> u32 \<Rightarrow> u32 \<Rightarrow> bool" where
  "insn_ok op size_id lhs rhs res \<longleftrightarrow> op < 32 \<and> size_id < 8 \<and> lhs < 32 \<and> rhs < 32 \<and> res < 32"

lemma insn_bit:
  assumes "insn_ok op sz a b d"
  shows "bit (pka_insn op sz a b d) n \<longleftrightarrow> n < 32 \<and>
     (if 27 \<le> n then bit op (n - 27) else if 24 \<le> n then bit sz (n - 24) else if 18 \<le> n then bit a (n - 18)
      else if 12 \<le> n then bit b (n - 12) else 6 \<le> n \<and> bit d (n - 6))"
proof -
  have "bit op j \<Longrightarrow> j < 5" "bit sz j \<Longrightarrow> j < 3" "bit a j \<Longrightarrow> j < 5" "bit b j \<Longrightarrow> j < 5" "bit d j \<Longrightarrow> j < 5" for j
    using assms bit_lt_exp[of _ 5 j] bit_lt_exp[of _ 3 j] by (auto simp: insn_ok_def)
  then have no: "5 \<le> j \<Longrightarrow> \<not> bit op j" "3 \<le> j \<Longrightarrow> \<not> bit sz j" "5 \<le> j \<Longrightarrow> \<not> bit a j" "5 \<le> j \<Longrightarrow> \<not> bit b j" "5 \<le> j \<Longrightarrow> \<not> bit d j" for j
    by (meson not_le)+
  show ?thesis by (auto simp: pka_insn_def bit_or_iff bit_push_bit_iff no)
qed

lemma masks_u32: "(0x1f :: u32) = mask 5" "(0x7 :: u32) = mask 3" "(0x1 :: u32) = mask 1"
  by (simp_all add: mask_eq_exp_minus_1)

lemma insn_fields:
  assumes "insn_ok op sz a b d"
  shows "drop_bit 27 (pka_insn op sz a b d) AND 0x1f = op" "drop_bit 24 (pka_insn op sz a b d) AND 0x7 = sz"
    "drop_bit 23 (pka_insn op sz a b d) AND 0x1 = 0" "drop_bit 18 (pka_insn op sz a b d) AND 0x1f = a"
    "drop_bit 17 (pka_insn op sz a b d) AND 0x1 = 0" "drop_bit 12 (pka_insn op sz a b d) AND 0x1f = b"
    "drop_bit 11 (pka_insn op sz a b d) AND 0x1 = 0" "drop_bit 6 (pka_insn op sz a b d) AND 0x1f = d"
proof -
  have lt: "bit op j \<Longrightarrow> j < 5" "bit sz j \<Longrightarrow> j < 3" "bit a j \<Longrightarrow> j < 5" "bit b j \<Longrightarrow> j < 5" "bit d j \<Longrightarrow> j < 5" for j
    using assms bit_lt_exp[of _ 5 j] bit_lt_exp[of _ 3 j] by (auto simp: insn_ok_def)
  have no: "\<not> bit a 5" "\<not> bit b 5" "\<not> bit d 5" using lt(3)[of 5] lt(4)[of 5] lt(5)[of 5] by auto
  note bits = bit_and_iff bit_drop_bit_eq bit_mask_iff insn_bit[OF assms]
  show "drop_bit 27 (pka_insn op sz a b d) AND 0x1f = op" "drop_bit 24 (pka_insn op sz a b d) AND 0x7 = sz"
    "drop_bit 23 (pka_insn op sz a b d) AND 0x1 = 0" "drop_bit 18 (pka_insn op sz a b d) AND 0x1f = a"
    "drop_bit 17 (pka_insn op sz a b d) AND 0x1 = 0" "drop_bit 12 (pka_insn op sz a b d) AND 0x1f = b"
    "drop_bit 11 (pka_insn op sz a b d) AND 0x1 = 0" "drop_bit 6 (pka_insn op sz a b d) AND 0x1f = d"
    unfolding masks_u32 by (rule bit_word_eqI; auto simp: bits no bit_1_iff dest: lt)+
qed

subsection \<open>Bitwise operations on words and on integers\<close>

lemma words_to_int_bit:
  "bit (pka_words_to_int ws) n \<longleftrightarrow> n < 32 * length ws \<and> bit (ws ! (n div 32)) (n mod 32)"
proof (induction ws arbitrary: n)
  case (Cons w ws)
  have "2 ^ 32 * pka_words_to_int ws + uint w = concat_bit 32 (uint w) (pka_words_to_int ws)"
    using uint_mod_32[of w] by (simp add: concat_bit_eq take_bit_eq_mod push_bit_eq_mult)
  then have "bit (pka_words_to_int (w # ws)) n = (if n < 32 then bit w n else bit (pka_words_to_int ws) (n - 32))"
    by (auto simp: bit_concat_bit_iff bit_uint_iff)
  moreover have "n div 32 = Suc ((n - 32) div 32) \<and> n mod 32 = (n - 32) mod 32" if "32 \<le> n"
    using le_div_geq[OF _ that] le_mod_geq[OF that] by simp
  ultimately show ?case using Cons[of "n - 32"] by (cases "n < 32") (simp_all, linarith)
qed simp

lemma words_to_int_logical:
  assumes "length xs = n" and "length ys = n"
  shows "pka_words_to_int (map (\<lambda>i. xs ! i AND ys ! i) [0..<n]) = pka_words_to_int xs AND pka_words_to_int ys"
    and "pka_words_to_int (map (\<lambda>i. xs ! i OR ys ! i) [0..<n]) = pka_words_to_int xs OR pka_words_to_int ys"
    and "pka_words_to_int (map (\<lambda>i. xs ! i XOR ys ! i) [0..<n]) = pka_words_to_int xs XOR pka_words_to_int ys"
  using assms
  by (auto intro!: bit_eqI simp: words_to_int_bit bit_and_iff bit_or_iff bit_xor_iff div_less_iff_less_mult less_mult_imp_div_less mult.commute)

subsection \<open>What an opcode computes\<close>

text \<open>
  The integers an opcode stands for: its operands \<open>l\<close> and \<open>r\<close>, the modulus \<open>m\<close>, the size in words.
\<close>

definition pka_reference :: "u32 \<Rightarrow> nat \<Rightarrow> int \<Rightarrow> int \<Rightarrow> int \<Rightarrow> int option" where
  "pka_reference op words m l r =
     (if op = 0x04 then Some (l + r)
      else if op = 0x05 then Some (l - r)
      else if op = 0x06 then Some (if m > 0 then (l + r) mod m else l + r)
      else if op = 0x07 then Some (if m > 0 then (l - r) mod m else l - r)
      else if op = 0x08 then Some (l AND r)
      else if op = 0x09 then Some (l OR r)
      else if op = 0x0a then Some (l XOR r)
      else if op = 0x10 then Some (l * r)
      else if op = 0x11 then Some (if m > 0 then (l * r) mod m else 0)
      else if op = 0x13 then Some (if m > 0 then (l ^ nat r) mod m else 0)
      else if op = 0x17 then Some ((l * r) div 2 ^ (32 * words))
      else if op = 0x1b then Some (if m > 0 then l mod m else 0)
      else None)"

lemma status_load [simp]:
  "off + 4 \<le> PKA_STATUS \<or> PKA_DONE + 4 \<le> off \<or> PKA_L_BASE \<le> off \<and> off + 4 \<le> PKA_PIPE_RDY \<Longrightarrow>
   load32 (pka_update_status res c sg z s) off = load32 s off"
  by (auto simp: pka_update_status_def Let_def)

lemma pka_store32 [simp]:
  "m_pka_sram (store32 off v s) = m_pka_sram s" "m_pka_modulus_cache_valid (store32 off v s) = m_pka_modulus_cache_valid s"
  "m_pka_modulus_cache_words (store32 off v s) = m_pka_modulus_cache_words s"
  "m_pka_modulus_cache (store32 off v s) = m_pka_modulus_cache s"
  "m_pka_write_addr (store32 off v s) = m_pka_write_addr s" "m_pka_read_addr (store32 off v s) = m_pka_read_addr s"
  by (simp_all add: store32_def)

lemma status_sel [simp]:
  "m_pka_sram (pka_update_status res c sg z s) = m_pka_sram s"
  "m_pka_modulus_cache_valid (pka_update_status res c sg z s) = m_pka_modulus_cache_valid s"
  "m_pka_modulus_cache_words (pka_update_status res c sg z s) = m_pka_modulus_cache_words s"
  "m_pka_modulus_cache (pka_update_status res c sg z s) = m_pka_modulus_cache s"
  "m_sha256 (pka_update_status res c sg z s) = m_sha256 s"
  by (simp_all add: pka_update_status_def Let_def)

lemma status_base [simp]: "pka_phys_reg_base r (pka_update_status res c sg z s) = pka_phys_reg_base r s"
proof (cases "32 \<le> r")
  case False
  then have "unat r < 32" by (simp add: not_le word_less_nat_alt)
  with False show ?thesis by (simp add: pka_phys_reg_base_def)
qed (simp add: pka_phys_reg_base_def)

lemma value_base_cong:
  "(\<And>r. pka_phys_reg_base r s = pka_phys_reg_base r t) \<Longrightarrow> m_pka_sram s = m_pka_sram t \<Longrightarrow> pka_value r n s = pka_value r n t"
  by (simp add: pka_value_def pka_load_operand_def pka_sram_read_def cong: if_cong)

lemma status_value [simp]: "pka_value r n (pka_update_status res c sg z s) = pka_value r n s"
  by (rule value_base_cong) simp_all

lemma status_cache_ok [simp]: "pka_cache_ok (pka_update_status res c sg z s) = pka_cache_ok s"
  by (simp add: pka_cache_ok_def)

lemma pka_status_bits:
  "load32 (pka_update_status res c sg z s) PKA_STATUS AND PKA_STATUS_ALU_CARRY \<noteq> 0 \<longleftrightarrow> c"
  "load32 (pka_update_status res c sg z s) PKA_STATUS AND PKA_STATUS_DIV_BY_ZERO \<noteq> 0 \<longleftrightarrow> z"
  "load32 (pka_update_status res c sg z s) PKA_STATUS AND PKA_STATUS_ALU_OUT_ZERO \<noteq> 0 \<longleftrightarrow> pka_words_to_int res = 0"
proof -
  have "pka_is_zero res \<longleftrightarrow> pka_words_to_int res = 0"
  proof (induction res)
    case (Cons w ws)
    have "0 \<le> uint w" "0 \<le> pka_words_to_int ws" by (simp_all add: words_to_int_bounds)
    then have "2 ^ 32 * pka_words_to_int ws + uint w = 0 \<longleftrightarrow> uint w = 0 \<and> pka_words_to_int ws = 0"
      by (auto simp: add_nonneg_eq_0_iff)
    with Cons show ?case by (simp add: pka_is_zero_def uint_0_iff)
  qed (simp add: pka_is_zero_def)
  moreover have "load32 (pka_update_status res c sg z s) PKA_STATUS = 1 OR (if sg then PKA_STATUS_ALU_SIGN_OUT else 0) OR
      (if c then PKA_STATUS_ALU_CARRY else 0) OR (if pka_is_zero res then PKA_STATUS_ALU_OUT_ZERO else 0) OR
      (if z then PKA_STATUS_DIV_BY_ZERO else 0)"
    by (simp add: pka_update_status_def Let_def)
  ultimately show
    "load32 (pka_update_status res c sg z s) PKA_STATUS AND PKA_STATUS_ALU_CARRY \<noteq> 0 \<longleftrightarrow> c"
    "load32 (pka_update_status res c sg z s) PKA_STATUS AND PKA_STATUS_DIV_BY_ZERO \<noteq> 0 \<longleftrightarrow> z"
    "load32 (pka_update_status res c sg z s) PKA_STATUS AND PKA_STATUS_ALU_OUT_ZERO \<noteq> 0 \<longleftrightarrow> pka_words_to_int res = 0"
    by (cases sg; cases c; cases "pka_is_zero res"; cases z; simp)+
qed

definition same_memory :: "'a cc3xx_pka_scheme \<Rightarrow> 'a cc3xx_pka_scheme \<Rightarrow> bool" where
  "same_memory s t \<longleftrightarrow> m_regs t = m_regs s \<and> m_pka_sram t = m_pka_sram s \<and> m_sha256 t = m_sha256 s"

lemma int_words_small: "0 \<le> v \<Longrightarrow> v < 2 ^ (32 * n) \<Longrightarrow> pka_words_to_int (pka_int_to_words v n) = v"
  by simp

lemma pka_plain_sel [simp]:
  "pf_result (pka_plain r) = r" "pf_carry (pka_plain r) = False" "pf_sign (pka_plain r) = False" "pf_div_by_zero (pka_plain r) = False"
  by (simp_all add: pka_plain_def)

lemma add_words_mod:
  assumes "length xs = n" and "length ys = n" and "pka_add_words xs ys = (zs, c)"
  shows "pka_words_to_int zs = (pka_words_to_int xs + pka_words_to_int ys) mod 2 ^ (32 * n)" and "length zs = n"
proof -
  note a = add_words_int[OF _ assms(3)]
  have l: "length xs = length ys" using assms by simp
  have "pka_words_to_int zs mod 2 ^ (32 * n) = (pka_words_to_int xs + pka_words_to_int ys) mod 2 ^ (32 * n)"
    unfolding a(1)[OF l, symmetric] using assms(1) by simp
  then show "pka_words_to_int zs = (pka_words_to_int xs + pka_words_to_int ys) mod 2 ^ (32 * n)" "length zs = n"
    using words_to_int_bounds[of zs] a(2)[OF l] assms(1) by simp_all
qed

lemma sub_words_mod:
  assumes "length xs = n" and "length ys = n" and "pka_sub_words xs ys = (zs, c)"
  shows "pka_words_to_int zs = (pka_words_to_int xs - pka_words_to_int ys) mod 2 ^ (32 * n)" and "length zs = n"
proof -
  note a = sub_words_int[OF _ assms(3)]
  have l: "length xs = length ys" using assms by simp
  have "pka_words_to_int zs mod 2 ^ (32 * n) = (pka_words_to_int xs - pka_words_to_int ys) mod 2 ^ (32 * n)"
    unfolding a(1)[OF l] using assms(1) by simp
  then show "pka_words_to_int zs = (pka_words_to_int xs - pka_words_to_int ys) mod 2 ^ (32 * n)" "length zs = n"
    using words_to_int_bounds[of zs] a(2)[OF l] assms(1) by simp_all
qed

lemma mod_op_reference:
  assumes "length xs = n" and "length ys = n" and "op \<in> {0x06, 0x07, 0x11, 0x13, 0x1b}"
    and "pka_reference op n m (pka_words_to_int xs) (pka_words_to_int ys) = Some v"
  shows "pka_words_to_int (pf_result (pka_mod_op op n xs ys m)) = v mod 2 ^ (32 * n)" and "length (pf_result (pka_mod_op op n xs ys m)) = n"
proof -
  obtain as ac ss sc where as: "pka_add_words xs ys = (as, ac)" and ss: "pka_sub_words xs ys = (ss, sc)" by fastforce
  note w = add_words_mod[OF assms(1,2) as] sub_words_mod[OF assms(1,2) ss]
  show "pka_words_to_int (pf_result (pka_mod_op op n xs ys m)) = v mod 2 ^ (32 * n)" and "length (pf_result (pka_mod_op op n xs ys m)) = n"
    using assms(3,4) by (auto simp: pka_mod_op_def pka_modadd_def pka_modsub_def pka_reference_def Let_def as ss w positive_mod pow_mod split: if_splits)
qed

lemma compute_reference:
  assumes "length xs = n" and "length ys = n" and "pka_cache_ok s"
    and "pka_reference op n (pka_value 0 n s) (pka_words_to_int xs) (pka_words_to_int ys) = Some v"
  shows "\<exists>fl t. pka_compute op n im a b xs ys s = (Some fl, t) \<and> pka_words_to_int (pf_result fl) = v mod 2 ^ (32 * n) \<and>
     length (pf_result fl) = n \<and> same_memory s t \<and> pka_cache_ok t \<and>
     (t = s \<or> m_pka_modulus_cache_words t = n)"
proof (cases "op \<in> {0x06, 0x07, 0x11, 0x13, 0x1b}")
  case True
  note mv = modulus_value[OF assms(3), of n]
  have "pka_compute op n im a b xs ys s = (Some (pka_mod_op op n xs ys (fst (pka_modulus_value n s))), snd (pka_modulus_value n s))"
    using True by (auto simp: pka_compute_def split_def Let_def)
  then show ?thesis using mod_op_reference[OF assms(1,2) True assms(4)] mv by (simp add: same_memory_def)
next
  case False
  obtain as ac ss sc where as: "pka_add_words xs ys = (as, ac)" and ss: "pka_sub_words xs ys = (ss, sc)" by fastforce
  note w = add_words_mod[OF assms(1,2) as] sub_words_mod[OF assms(1,2) ss] words_to_int_logical[OF assms(1,2)]
  have small: "(pka_words_to_int xs AND pka_words_to_int ys) mod 2 ^ (32 * n) = (pka_words_to_int xs AND pka_words_to_int ys)"
    "(pka_words_to_int xs OR pka_words_to_int ys) mod 2 ^ (32 * n) = (pka_words_to_int xs OR pka_words_to_int ys)"
    "(pka_words_to_int xs XOR pka_words_to_int ys) mod 2 ^ (32 * n) = (pka_words_to_int xs XOR pka_words_to_int ys)"
    unfolding w(5-7)[symmetric] by (rule mod_pos_pos_trivial; use words_to_int_bounds[of "map _ [0..<n]"] in simp)+
  show ?thesis using False assms(3,4)
    by (auto simp: pka_compute_def pka_reference_def same_memory_def Let_def as ss w small drop_bit_eq_div mult.commute[of n] split: if_splits)
qed

lemma unsigned_operand [simp]: "pka_words_to_int (pka_load_operand False r n sg s) = pka_value r n s"
  by (simp add: pka_value_def pka_load_operand_def)

lemma execute_insn:
  assumes "insn_ok op sz a b d" and "op \<noteq> 0" and "\<not> (op \<ge> 0x0c \<and> op \<le> 0x0f)"
  shows "\<exists>sg. execute_pka_opcode (pka_insn op sz a b d) s =
    (case pka_compute op (pka_len_words sz s) False a b (pka_load_operand False a (pka_len_words sz s) sg s)
        (pka_load_operand False b (pka_len_words sz s) sg s) s of
       (None, t) \<Rightarrow> pka_update_status (replicate (pka_len_words sz s) 0) False False False t
     | (Some fl, t) \<Rightarrow> pka_update_status (pf_result fl) (pf_carry fl) (pf_sign fl) (pf_div_by_zero fl) (pka_store_operand d (pf_result fl) t))"
  by (rule exI[of _ "op = 0x04 \<or> op = 0x05 \<or> op = 0x06 \<or> op = 0x07"])
    (use assms(2,3) in \<open>simp only: execute_pka_opcode_def insn_fields[OF assms(1)] Let_def if_False if_True not_True_eq_False simp_thms cong: prod.case_cong option.case_cong\<close>)

lemma same_memory_cong:
  assumes "same_memory s t"
  shows "pka_value r n t = pka_value r n s" "operand_fits r n t = operand_fits r n s" "operands_apart r r' n t = operands_apart r r' n s"
    "pka_phys_reg_base r t = pka_phys_reg_base r s"
  using assms value_cong[of t s] fits_cong[of t s] apart_cong[of t s] base_cong[of t s] unfolding same_memory_def by metis+

text \<open>The state in which the result is stored, and what is left of it once it is.\<close>

lemma after_store:
  fixes c sg z :: bool
  assumes "same_memory s t" and "operand_fits d n s" and "length res = n"
  defines "u \<equiv> pka_update_status res c sg z (pka_store_operand d res t)"
  shows "pka_value d n u = pka_words_to_int res"
    and "operand_fits r n s \<Longrightarrow> operands_apart d r n s \<Longrightarrow> pka_value r n u = pka_value r n s"
proof -
  have f: "operand_fits d (length res) t" using same_memory_cong(2)[OF assms(1)] assms(2,3) by simp
  show "pka_value d n u = pka_words_to_int res" using value_store_same[OF f] by (simp add: u_def assms(3))
  assume "operand_fits r n s" and "operands_apart d r n s"
  then show "pka_value r n u = pka_value r n s"
    using value_store_apart[OF f, of r] same_memory_cong[OF assms(1)] by (simp add: u_def assms(3))
qed

lemma reference_op: "pka_reference op n m l r = Some v \<Longrightarrow> op \<noteq> 0 \<and> \<not> (op \<ge> 0x0c \<and> op \<le> 0x0f)"
  by (auto simp: pka_reference_def split: if_splits)

text \<open>
  C5. An opcode of the public-key accelerator acts on its registers as on integers: the result register holds the sum, difference, product, power, reduction or bitwise
  combination the opcode stands for, modulo the register size, registers apart from it keep their values, and the zero flag tells whether the result is 0. The cached
  modulus must be the one in register 0.
\<close>

theorem pka_refines_integers:
  fixes s :: "'a cc3xx_pka_scheme"
  assumes "insn_ok op sz a b d" and "n = pka_len_words sz s" and "pka_cache_ok s" and "operand_fits d n s"
    and "pka_reference op n (pka_value 0 n s) (pka_value a n s) (pka_value b n s) = Some v"
  defines "s' \<equiv> execute_pka_opcode (pka_insn op sz a b d) s"
  shows "pka_value d n s' = v mod 2 ^ (32 * n) \<and>
    (operand_fits r n s \<and> operands_apart d r n s \<longrightarrow> pka_value r n s' = pka_value r n s) \<and>
    (load32 s' PKA_STATUS AND PKA_STATUS_ALU_OUT_ZERO \<noteq> 0 \<longleftrightarrow> pka_value d n s' = 0)"
proof -
  obtain sg where ex: "s' = (case pka_compute op n False a b (pka_load_operand False a n sg s) (pka_load_operand False b n sg s) s of
       (None, t) \<Rightarrow> pka_update_status (replicate n 0) False False False t
     | (Some fl, t) \<Rightarrow> pka_update_status (pf_result fl) (pf_carry fl) (pf_sign fl) (pf_div_by_zero fl) (pka_store_operand d (pf_result fl) t))"
    using execute_insn[OF assms(1)] reference_op[OF assms(5)] unfolding s'_def assms(2) by blast
  obtain fl t where t: "pka_compute op n False a b (pka_load_operand False a n sg s) (pka_load_operand False b n sg s) s = (Some fl, t)"
    "pka_words_to_int (pf_result fl) = v mod 2 ^ (32 * n)" "length (pf_result fl) = n" "same_memory s t"
    using compute_reference[where xs = "pka_load_operand False a n sg s" and ys = "pka_load_operand False b n sg s"
        and im = False and a = a and b = b, OF length_load_operand length_load_operand assms(3)] assms(5)
    by (simp only: unsigned_operand) blast
  show ?thesis using after_store[OF t(4) assms(4) t(3)] t(2) unfolding ex t(1) by (simp add: pka_status_bits)
qed

text \<open>
  C9. The inversion opcode reports success exactly where the modulus is above 1 and the operand has no common divisor with it; then the result is the inverse below the
  modulus, and 0 otherwise.
\<close>

theorem pka_inverse:
  fixes s :: "'a cc3xx_pka_scheme"
  assumes "insn_ok 0x15 sz a b d" and "n = pka_len_words sz s" and "pka_cache_ok s" and "operand_fits d n s"
  defines "s' \<equiv> execute_pka_opcode (pka_insn 0x15 sz a b d) s"
  defines "ok \<equiv> (load32 s' PKA_STATUS AND PKA_STATUS_DIV_BY_ZERO = 0)"
  shows "ok = (1 < pka_value 0 n s \<and> gcd (pka_value b n s) (pka_value 0 n s) = 1) \<and>
    (ok \<longrightarrow> (pka_value d n s' * pka_value b n s) mod pka_value 0 n s = 1 \<and> pka_value d n s' < pka_value 0 n s) \<and>
    (\<not> ok \<longrightarrow> pka_value d n s' = 0)"
proof -
  note mv = modulus_value[OF assms(3), of n]
  obtain x inv where x: "pka_mod_inverse (pka_value b n s) (pka_value 0 n s) = (x, inv)" by fastforce
  let ?res = "pka_int_to_words x n" and ?t = "snd (pka_modulus_value n s)"
  let ?fl = "(pka_plain ?res)\<lparr>pf_div_by_zero := \<not> inv\<rparr>"
  have comp: "pka_compute 0x15 n False a b (pka_load_operand False a n sg s) (pka_load_operand False b n sg s) s = (Some ?fl, ?t)" for sg
    using mv(1) x by (simp add: pka_compute_def pka_mod_op_def split_def Let_def)
  have "s' = pka_update_status ?res False False (\<not> inv) (pka_store_operand d ?res ?t)"
    using execute_insn[OF assms(1), of s] unfolding s'_def assms(2)[symmetric] comp by simp
  moreover have "same_memory s ?t" using mv by (simp add: same_memory_def)
  ultimately have v: "pka_value d n s' = x mod 2 ^ (32 * n)" and ok: "ok = inv"
    using after_store[OF _ assms(4) length_int_to_words] by (simp_all add: ok_def pka_status_bits(2)[of _ _ _ _ "pka_store_operand d ?res ?t"], metis pka_status_bits(2))
  have "pka_value 0 n s < 2 ^ (32 * n)" using words_to_int_bounds(2)[of "pka_load_operand False 0 n False s"] by simp
  then have "inv \<Longrightarrow> x mod 2 ^ (32 * n) = x" using mod_inverse(2)[OF x] by (intro mod_pos_pos_trivial) simp_all
  then show ?thesis using mod_inverse[OF x] unfolding v ok by auto
qed

lemma sdiv_smod_nonneg: "0 \<le> l \<Longrightarrow> 0 < r \<Longrightarrow> l sdiv r = l div r \<and> l smod r = l mod (r :: int)"
  by (cases "l = 0") (simp_all add: signed_divide_int_def signed_modulo_int_def)

lemma value_bounds: "0 \<le> pka_value r n s" "pka_value r n s < 2 ^ (32 * n)"
  using words_to_int_bounds[of "pka_load_operand False r n False s"] by simp_all

text \<open>
  The division opcode leaves quotient and remainder of its operands, the remainder in place of the dividend; a division by 0 is flagged and keeps the dividend.
\<close>

theorem pka_division:
  fixes s :: "'a cc3xx_pka_scheme"
  assumes "insn_ok 0x14 sz a b d" and "n = pka_len_words sz s" and "operand_fits a n s" and "operand_fits d n s"
    and "operands_apart a d n s"
  defines "s' \<equiv> execute_pka_opcode (pka_insn 0x14 sz a b d) s"
  shows "(load32 s' PKA_STATUS AND PKA_STATUS_DIV_BY_ZERO \<noteq> 0 \<longleftrightarrow> pka_value b n s = 0) \<and>
    (if pka_value b n s = 0 then pka_value d n s' = 0 \<and> pka_value a n s' = pka_value a n s
     else pka_value a n s = pka_value d n s' * pka_value b n s + pka_value a n s' \<and> pka_value a n s' < pka_value b n s)"
proof -
  let ?l = "pka_value a n s" and ?r = "pka_value b n s"
  define fl where "fl = (if ?r = 0 then (pka_plain (replicate n 0))\<lparr>pf_div_by_zero := True\<rparr> else pka_plain (pka_int_to_words (?l sdiv ?r) n))"
  define rem where "rem = (if ?r = 0 then pka_load_operand False a n False s else pka_int_to_words (?l smod ?r) n)"
  have lens: "length rem = n" "length (pf_result fl) = n" by (simp_all add: rem_def fl_def)
  have "pka_load_operand False a n True s = pka_load_operand False a n False s" by (simp add: pka_load_operand_def)
  then have comp: "pka_compute 0x14 n False a b (pka_load_operand False a n sg s) (pka_load_operand False b n sg s) s = (Some fl, pka_store_operand a rem s)" for sg
    by (cases sg) (simp_all add: pka_compute_def pka_divide_def fl_def rem_def Let_def)
  have s': "s' = pka_update_status (pf_result fl) (pf_carry fl) (pf_sign fl) (pf_div_by_zero fl) (pka_store_operand d (pf_result fl) (pka_store_operand a rem s))"
    using execute_insn[OF assms(1), of s] unfolding s'_def assms(2)[symmetric] comp by simp
  have z: "pka_words_to_int (replicate k 0) = 0" for k by (induction k) simp_all
  have nn: "0 \<le> ?r" "0 \<le> ?l" "?l < 2 ^ (32 * n)" "?r < 2 ^ (32 * n)" by (rule value_bounds)+
  have q: "pka_words_to_int (pf_result fl) = (if ?r = 0 then 0 else ?l div ?r)"
  proof (cases "?r = 0")
    case False
    have "?l div ?r \<le> ?l" using zdiv_mono2[of ?l 1 ?r] nn False by simp
    then show ?thesis using False nn by (simp add: fl_def sdiv_smod_nonneg pos_imp_zdiv_nonneg_iff)
  qed (simp add: fl_def z)
  have m: "pka_words_to_int rem = (if ?r = 0 then ?l else ?l mod ?r)"
  proof (cases "?r = 0")
    case False
    have "0 < ?r" using nn False by simp
    from pos_mod_bound[OF this, of ?l] pos_mod_sign[OF this, of ?l]
    have "0 \<le> ?l mod ?r" "?l mod ?r < 2 ^ (32 * n)" using nn by linarith+
    then have "?l mod ?r mod 2 ^ (32 * n) = ?l mod ?r" by (rule mod_pos_pos_trivial)
    then show ?thesis using False nn by (simp add: rem_def sdiv_smod_nonneg)
  qed (simp add: rem_def)
  have fa: "operand_fits a (length rem) s" using assms(3) lens by simp
  note same = store_operand(1)[OF fa]
  have fd: "operand_fits r n (pka_store_operand a rem s) = operand_fits r n s"
    "operands_apart r r' n (pka_store_operand a rem s) = operands_apart r r' n s" for r r'
    using fits_cong[OF same] apart_cong[OF same] by simp_all
  have d: "pka_value d n s' = pka_words_to_int (pf_result fl)"
    using value_store_same[of d "pf_result fl" "pka_store_operand a rem s"] fd assms(4) lens by (simp add: s')
  have "pka_value a n s' = pka_value a n (pka_store_operand a rem s)"
    using value_store_apart[of d "pf_result fl" "pka_store_operand a rem s" a] fd assms(3-5) lens by (simp add: s' operands_apart_def disj_commute)
  also have "\<dots> = pka_words_to_int rem" using value_store_same[OF fa] lens by simp
  finally have a: "pka_value a n s' = pka_words_to_int rem" .
  have st: "(load32 s' PKA_STATUS AND PKA_STATUS_DIV_BY_ZERO \<noteq> 0) = (?r = 0)" unfolding s' pka_status_bits by (simp add: fl_def)
  have "?l = ?l div ?r * ?r + ?l mod ?r" by simp
  moreover have "?r \<noteq> 0 \<Longrightarrow> ?l mod ?r < ?r" using nn pos_mod_bound[of ?r ?l] by linarith
  ultimately show ?thesis unfolding st d a q m by (cases "?r = 0") simp_all
qed

lemma length_shift_words [simp]: "length (pka_shift_words v k left one) = length v"
  by (simp add: pka_shift_words_def Let_def)

lemma length_add_loop [simp]: "length (fst (add_loop c xs ys)) = min (length xs) (length ys)"
  by (induction c xs ys rule: add_loop.induct) (simp_all add: Let_def split_def)

lemma length_sub_loop [simp]: "length (fst (sub_loop c xs ys)) = min (length xs) (length ys)"
  by (induction c xs ys rule: sub_loop.induct) (simp_all add: Let_def split_def)

lemma length_add_words [simp]: "length (fst (pka_add_words xs ys)) = min (length xs) (length ys)"
  by (simp add: pka_add_words_def split_def Let_def)

lemma length_sub_words [simp]: "length (fst (pka_sub_words xs ys)) = min (length xs) (length ys)"
  by (simp add: pka_sub_words_def split_def Let_def)

text \<open>The states in which the cache can be trusted by operations on \<open>n\<close> words.\<close>

definition uniform_cache :: "nat \<Rightarrow> 'a cc3xx_pka_scheme \<Rightarrow> bool" where
  "uniform_cache n s \<longleftrightarrow> pka_cache_ok s \<and> (m_pka_modulus_cache_valid s \<longrightarrow> m_pka_modulus_cache_words s = n)"

lemma uniform_store:
  assumes "uniform_cache n s" and "operand_fits r n s" and "operand_fits 0 n s" and "length data = n"
  shows "uniform_cache n (pka_store_operand r data s)"
proof -
  have f: "operand_fits r (length data) s" "operand_fits 0 (length data) s" using assms by simp_all
  from cache_ok_store[OF _ f] assms have ok: "pka_cache_ok (pka_store_operand r data s)" by (simp add: uniform_cache_def)
  moreover have "m_pka_modulus_cache_valid (pka_store_operand r data s) \<Longrightarrow> m_pka_modulus_cache_words (pka_store_operand r data s) = n"
    using store_operand(4,5)[OF f(1)] assms(1) unfolding uniform_cache_def by metis
  ultimately show ?thesis by (simp add: uniform_cache_def)
qed

lemma uniform_status [simp]: "uniform_cache n (pka_update_status res c sg z s) = uniform_cache n s"
  by (simp add: uniform_cache_def)

lemma compute_uniform:
  assumes "uniform_cache n s" and "operand_fits a n s" and "operand_fits 0 n s" and "length xs = n" and "length ys = n"
    and "pka_compute op n im a b xs ys s = (res, t)"
  shows "uniform_cache n t" and "m_regs t = m_regs s" and "res = Some fl \<Longrightarrow> length (pf_result fl) = n"
proof -
  have c: "pka_cache_ok s" using assms(1) by (simp add: uniform_cache_def)
  note mv = modulus_value[OF c, of n]
  have u: "uniform_cache n (snd (pka_modulus_value n s))" using mv by (simp add: uniform_cache_def)
  have st: "uniform_cache n (pka_store_operand a ws s)" "m_regs (pka_store_operand a ws s) = m_regs s" if "length ws = n" for ws
    using uniform_store[OF assms(1-3) that] store_operand(1)[of a ws s] assms(2) that by simp_all
  have mo: "length (pf_result (pka_mod_op op n xs ys m)) = n" for m
    using assms(4,5) by (simp add: pka_mod_op_def pka_modadd_def pka_modsub_def split_def Let_def)
  have dv: "uniform_cache n (snd (pka_divide n im a xs ys s)) \<and> m_regs (snd (pka_divide n im a xs ys s)) = m_regs s \<and>
      length (pf_result (fst (pka_divide n im a xs ys s))) = n"
    using st assms(1,4) by (simp add: pka_divide_def Let_def)
  have "uniform_cache n t \<and> m_regs t = m_regs s \<and> (\<forall>fl. res = Some fl \<longrightarrow> length (pf_result fl) = n)"
    using assms(1,4-6) u mv(2) dv mo unfolding pka_compute_def
    by (auto simp: split_def Let_def split: if_splits)
  then show "uniform_cache n t" and "m_regs t = m_regs s" and "res = Some fl \<Longrightarrow> length (pf_result fl) = n" by blast+
qed

text \<open>
  As long as one operand size is in use, no opcode word makes the cached modulus differ from the value in register 0.
\<close>

theorem pka_cache_kept:
  assumes "uniform_cache n s" and "n = pka_len_words (drop_bit 24 opcode AND 0x7) s"
    and "operand_fits (drop_bit 18 opcode AND 0x1f) n s" and "operand_fits (drop_bit 6 opcode AND 0x1f) n s" and "operand_fits 0 n s"
  shows "uniform_cache n (execute_pka_opcode opcode s)"
proof -
  let ?op = "drop_bit 27 opcode AND 0x1f" and ?sg = "drop_bit 27 opcode AND 0x1f = 4 \<or> drop_bit 27 opcode AND 0x1f = 5 \<or> drop_bit 27 opcode AND 0x1f = 6 \<or> drop_bit 27 opcode AND 0x1f = 7"
  let ?xs = "pka_load_operand (drop_bit 23 opcode AND 0x1 \<noteq> 0) (drop_bit 18 opcode AND 0x1f) n ?sg s"
  let ?ys = "if ?op \<ge> 0x0c \<and> ?op \<le> 0x0f then replicate n 0 else pka_load_operand (drop_bit 17 opcode AND 0x1 \<noteq> 0) (drop_bit 12 opcode AND 0x1f) n ?sg s"
  obtain res t where t: "pka_compute ?op n (drop_bit 23 opcode AND 0x1 \<noteq> 0) (drop_bit 18 opcode AND 0x1f) (drop_bit 12 opcode AND 0x1f) ?xs ?ys s = (res, t)"
    by fastforce
  have ly: "length ?xs = n" "length ?ys = n" by simp_all
  note cu = compute_uniform[OF assms(1,3,5) ly t]
  have st: "uniform_cache n (pka_store_operand (drop_bit 6 opcode AND 0x1f) (pf_result fl) t)" if "res = Some fl" for fl
    using uniform_store[OF cu(1) _ _ cu(3)[OF that]] assms(4,5) fits_cong[OF cu(2)] by simp
  have "execute_pka_opcode opcode s = (if ?op = 0 then s else
      (case (res, t) of
         (None, t) \<Rightarrow> pka_update_status (replicate n 0) False False False t
       | (Some fl, t) \<Rightarrow> pka_update_status (pf_result fl) (pf_carry fl) (pf_sign fl) (pf_div_by_zero fl)
           (if drop_bit 11 opcode AND 0x1 \<noteq> 0 then t else pka_store_operand (drop_bit 6 opcode AND 0x1f) (pf_result fl) t)))"
    unfolding execute_pka_opcode_def Let_def assms(2)[symmetric] t ..
  then show ?thesis using assms(1) cu(1) st by (cases res) simp_all
qed

text \<open>
  The size in words that a length register stands for: at least one and no more than the word memory, except for the 31 largest lengths, whose rounding wraps to 0 words.
\<close>

theorem pka_len_words_bounds:
  "pka_len_words size_id s =
    (let bits = (if size_id < 8 then unat (load32 s (PKA_L_BASE + unat size_id * 4)) else 0)
     in if bits = 0 then 1 else if bits > 2 ^ 32 - 32 then 0 else min ((bits + 31) div 32) PKA_SRAM_WORDS)"
proof -
  have "unat ((w + 31) div 32) = (if unat w > 2 ^ 32 - 32 then 0 else (unat w + 31) div 32)" for w :: u32
    using unat_add_wrap[of w 31] unat_add_small[of w 31] unat_bound[of w] by (auto simp: unat_div_distrib)
  then show ?thesis by (simp add: pka_len_words_def Let_def unat_eq_0)
qed

subsection \<open>An example\<close>

text \<open>
  Register \<open>r\<close> lies at word \<open>8 * r\<close>, the size 0 is 64 bits and the size 1 is 32 bits; the modulus is 13.
\<close>

definition pka_board :: cc3xx_pka where
  "pka_board = \<lparr>m_regs = (\<lambda>i. if i mod 4 = 0 \<and> i < 0x80 then of_nat (2 * i) else if i = 0x90 then 64
                        else if i = 0x94 then 32 else 0),
     m_trace_count = 0, m_sha256 = sha256_initial,
     m_pka_sram = (\<lambda>i. if i = 0 then 13 else if i = 8 then 17 else if i = 16 then 5 else 0),
     m_pka_write_addr = 0, m_pka_read_addr = 0, m_pka_modulus_cache_valid = False,
     m_pka_modulus_cache_words = 0, m_pka_modulus_cache = 0\<rparr>"

lemma pka_board_facts:
  "pka_len_words 0 pka_board = 2" "pka_value 0 2 pka_board = 13" "pka_value 1 2 pka_board = 17"
  "pka_value 2 2 pka_board = 5" "operand_fits 0 2 pka_board" "operand_fits 1 2 pka_board"
  "operand_fits 2 2 pka_board" "operand_fits 3 2 pka_board" "operands_apart 1 3 2 pka_board"
  "insn_ok 0x13 0 1 2 3" "insn_ok 0x15 0 1 2 3" "insn_ok 0x14 0 1 2 3"
  unfolding pka_board_def by code_simp+

lemma pka_board_cache: "pka_cache_ok pka_board" "uniform_cache 2 pka_board"
  by (simp_all add: pka_cache_ok_def uniform_cache_def pka_board_def)

lemma pka_refines_integers_witness:
  "pka_value 3 2 (execute_pka_opcode (pka_insn 0x13 0 1 2 3) pka_board) = 17 ^ 5 mod 13"
  using pka_refines_integers[OF pka_board_facts(10) pka_board_facts(1)[symmetric] pka_board_cache(1)
      pka_board_facts(8), of "17 ^ 5 mod 13"]
  by (simp add: pka_board_facts pka_reference_def)

lemma pka_inverse_witness:
  "(pka_value 3 2 (execute_pka_opcode (pka_insn 0x15 0 1 2 3) pka_board) * 5) mod 13 = 1"
proof -
  have "gcd 5 (13 :: int) = 1" by code_simp
  then show ?thesis
    using pka_inverse[OF pka_board_facts(11) pka_board_facts(1)[symmetric] pka_board_cache(1) pka_board_facts(8)]
    by (simp add: pka_board_facts)
qed

lemma pka_division_witness:
  "17 = pka_value 3 2 (execute_pka_opcode (pka_insn 0x14 0 1 2 3) pka_board) * 5
      + pka_value 1 2 (execute_pka_opcode (pka_insn 0x14 0 1 2 3) pka_board)"
  using pka_division[OF pka_board_facts(12) pka_board_facts(1)[symmetric] pka_board_facts(6,8,9)]
  by (simp add: pka_board_facts)

lemma pka_cache_kept_witness: "uniform_cache 2 (execute_pka_opcode (pka_insn 0x13 0 1 2 3) pka_board)"
  by (rule pka_cache_kept[OF pka_board_cache(2)]) (simp_all only: insn_fields[OF pka_board_facts(10)] pka_board_facts)

text \<open>
  With two sizes in use the cache can be stale: a short result stored in the upper half of the modulus leaves it.
\<close>

lemma pka_cache_stale:
  "\<exists>s :: cc3xx_pka. pka_cache_ok s \<and> operand_fits 0 2 s \<and> operand_fits 2 1 s \<and> pka_len_words 1 s = 1
     \<and> \<not> pka_cache_ok (execute_pka_opcode (pka_insn 0x09 1 1 1 2) s)"
proof -
  define s where "s = (snd (pka_modulus_value 2 pka_board))\<lparr>m_regs := (m_regs pka_board)(8 := 1)\<rparr>"
  have "operand_fits 0 2 s" "operand_fits 2 1 s" "pka_len_words 1 s = 1" "m_pka_modulus_cache_valid s"
    "m_pka_modulus_cache s = pka_value 0 (m_pka_modulus_cache_words s) s"
    unfolding s_def pka_board_def by code_simp+
  moreover have "m_pka_modulus_cache_valid (execute_pka_opcode (pka_insn 0x09 1 1 1 2) s)"
    "m_pka_modulus_cache (execute_pka_opcode (pka_insn 0x09 1 1 1 2) s)
       \<noteq> pka_value 0 (m_pka_modulus_cache_words (execute_pka_opcode (pka_insn 0x09 1 1 1 2) s))
            (execute_pka_opcode (pka_insn 0x09 1 1 1 2) s)"
    unfolding s_def pka_board_def by code_simp+
  ultimately show ?thesis unfolding pka_cache_ok_def by blast
qed

end
