(* ===== verification/Cc3xx.thy ===== *)
theory Cc3xx
  imports Cc3xx_Aes Cc3xx_Pka
begin

text \<open>
  The crypto cell itself: the core (\<^verbatim>\<open>src/systemc-components/cc3xx/include/cc3xx_core.h\<close>) with its register file, its engines fed
  by DMA over a memory interface, and the module around it (\<^verbatim>\<open>cc3xx.h\<close>). Statistics, their JSON and
  the time they measure are left out; nothing else reads them.
\<close>

unbundle bit_operations_syntax

subsection \<open>State\<close>

abbreviation (input) RNG_ISR :: nat where "RNG_ISR \<equiv> 0x104"
abbreviation (input) EHR_DATA :: nat where "EHR_DATA \<equiv> 0x114"
abbreviation (input) AES_KEY_0 :: nat where "AES_KEY_0 \<equiv> 0x400"
abbreviation (input) AES_IV_0 :: nat where "AES_IV_0 \<equiv> 0x440"
abbreviation (input) AES_CTR_0 :: nat where "AES_CTR_0 \<equiv> 0x460"
abbreviation (input) AES_BUSY :: nat where "AES_BUSY \<equiv> 0x470"
abbreviation (input) AES_CMAC_INIT :: nat where "AES_CMAC_INIT \<equiv> 0x47c"
abbreviation (input) AES_REMAINING_BYTES :: nat where "AES_REMAINING_BYTES \<equiv> 0x4bc"
abbreviation (input) AES_CONTROL :: nat where "AES_CONTROL \<equiv> 0x4c0"
abbreviation (input) AES_HW_FLAGS :: nat where "AES_HW_FLAGS \<equiv> 0x4c8"
abbreviation (input) AUTO_HW_PADDING :: nat where "AUTO_HW_PADDING \<equiv> 0x684"
abbreviation (input) HASH_CONTROL :: nat where "HASH_CONTROL \<equiv> 0x7c0"
abbreviation (input) HASH_PAD_CFG :: nat where "HASH_PAD_CFG \<equiv> 0x7c8"
abbreviation (input) CRYPTO_CTL :: nat where "CRYPTO_CTL \<equiv> 0x900"
abbreviation (input) CRYPTO_BUSY :: nat where "CRYPTO_BUSY \<equiv> 0x910"
abbreviation (input) HASH_BUSY :: nat where "HASH_BUSY \<equiv> 0x91c"
abbreviation (input) HOST_RGF_IRR :: nat where "HOST_RGF_IRR \<equiv> 0xa00"
abbreviation (input) HOST_RGF_IMR :: nat where "HOST_RGF_IMR \<equiv> 0xa04"
abbreviation (input) HOST_RGF_ICR :: nat where "HOST_RGF_ICR \<equiv> 0xa08"
abbreviation (input) HOST_CC_IS_IDLE :: nat where "HOST_CC_IS_IDLE \<equiv> 0xa7c"
abbreviation (input) DIN_MEM_DMA_BUSY :: nat where "DIN_MEM_DMA_BUSY \<equiv> 0xc20"
abbreviation (input) DIN_SRC_LLI_WORD0 :: nat where "DIN_SRC_LLI_WORD0 \<equiv> 0xc28"
abbreviation (input) DIN_SRC_LLI_WORD1 :: nat where "DIN_SRC_LLI_WORD1 \<equiv> 0xc2c"
abbreviation (input) DIN_SRAM_SRC_ADDR :: nat where "DIN_SRAM_SRC_ADDR \<equiv> 0xc30"
abbreviation (input) DIN_SRAM_BYTES_LEN :: nat where "DIN_SRAM_BYTES_LEN \<equiv> 0xc34"
abbreviation (input) DIN_SRAM_DMA_BUSY :: nat where "DIN_SRAM_DMA_BUSY \<equiv> 0xc38"
abbreviation (input) FIFO_IN_EMPTY :: nat where "FIFO_IN_EMPTY \<equiv> 0xc50"
abbreviation (input) DOUT_MEM_DMA_BUSY :: nat where "DOUT_MEM_DMA_BUSY \<equiv> 0xd20"
abbreviation (input) DOUT_DST_LLI_WORD0 :: nat where "DOUT_DST_LLI_WORD0 \<equiv> 0xd28"
abbreviation (input) DOUT_DST_LLI_WORD1 :: nat where "DOUT_DST_LLI_WORD1 \<equiv> 0xd2c"
abbreviation (input) DOUT_SRAM_BYTES_LEN :: nat where "DOUT_SRAM_BYTES_LEN \<equiv> 0xd34"
abbreviation (input) DOUT_SRAM_DMA_BUSY :: nat where "DOUT_SRAM_DMA_BUSY \<equiv> 0xd38"
abbreviation (input) DOUT_FIFO_EMPTY :: nat where "DOUT_FIFO_EMPTY \<equiv> 0xd50"
abbreviation (input) ENGINE_AES :: u32 where "ENGINE_AES \<equiv> 0x01"
abbreviation (input) ENGINE_AES_AND_HASH :: u32 where "ENGINE_AES_AND_HASH \<equiv> 0x03"
abbreviation (input) ENGINE_HASH :: u32 where "ENGINE_HASH \<equiv> 0x07"
abbreviation (input) ENGINE_AES_TO_HASH_AND_DOUT :: u32 where "ENGINE_AES_TO_HASH_AND_DOUT \<equiv> 0x0a"
abbreviation (input) DMA_CHUNK_BYTES :: nat where "DMA_CHUNK_BYTES \<equiv> 1024"

record cc3xx = cc3xx_pka +
  m_engine :: u32
  m_cmac_data :: "u8 list"
  m_cmac_active :: bool
  m_trace_seen_count :: u32

record trace_config =
  tc_enabled :: bool
  tc_limit :: u32
  tc_skip :: u32
  tc_filter :: string
  tc_address_min :: u64

definition store_all :: "(nat \<times> u32) list \<Rightarrow> 'a reg_state_scheme \<Rightarrow> 'a reg_state_scheme" where
  "store_all rvs s = fold (\<lambda>(off, v). store32 off v) rvs s"

text \<open>The values \<^verbatim>\<open>reset_registers\<close> stores over the zeroed register file, in its order.\<close>

definition cc3xx_reset_values :: "(nat \<times> u32) list" where
  "cc3xx_reset_values =
     [(PKA_STATUS, 1), (PKA_PIPE_RDY, 1), (PKA_DONE, 1),
      (RNG_ISR, 1), (0x110, 1), (0x130, 0xffff), (0x1b8, 0), (0x1c0, 0x03120000),
      (EHR_DATA, 0x243f6a88), (EHR_DATA + 4, 0x85a308d3), (EHR_DATA + 8, 0x13198a2e),
      (EHR_DATA + 12, 0x03707344), (EHR_DATA + 16, 0xa4093822), (EHR_DATA + 20, 0x299f31d0),
      (0x3b0, 0), (0x3b4, 1), (AES_BUSY, 0), (AES_HW_FLAGS, 0x1009), (0x4fc, 1), (0x824, 0xffffffff),
      (CRYPTO_BUSY, 0), (HASH_BUSY, 0), (0xa28, 0x52628800), (HOST_CC_IS_IDLE, 1), (0xa84, 0), (0xa88, 0), (0xa90, 1),
      (HOST_RGF_IRR, 0), (HOST_RGF_IMR, 0), (DIN_MEM_DMA_BUSY, 0), (DIN_SRAM_DMA_BUSY, 0), (FIFO_IN_EMPTY, 1),
      (DOUT_MEM_DMA_BUSY, 0), (DOUT_SRAM_DMA_BUSY, 0), (DOUT_FIFO_EMPTY, 1),
      (0xfe0, 0xc1), (0xfe4, 0xb0), (0xfe8, 0x0b), (0xfec, 0), (0xff0, 0x0d), (0xff4, 0xf0),
      (0x1e30, 0), (0x1e3c, 0), (0x1f04, 1), (0x1f0c, 1), (0x1f10, 1), (0x1f14, 5)]"

definition cc3xx_reset_registers :: "'a cc3xx_scheme \<Rightarrow> 'a cc3xx_scheme" where
  "cc3xx_reset_registers s =
     store_all cc3xx_reset_values
       ((pka_invalidate_modulus_cache (s\<lparr>m_regs := (\<lambda>_. 0), m_pka_sram := (\<lambda>_. 0), m_pka_write_addr := 0, m_pka_read_addr := 0\<rparr>))
          \<lparr>m_sha256 := sha256_initial, m_engine := 0, m_cmac_data := [], m_cmac_active := False\<rparr>)"

definition cc3xx_init :: cc3xx where
  "cc3xx_init = cc3xx_reset_registers \<lparr>m_regs = (\<lambda>_. 0), m_trace_count = 0, m_sha256 = sha256_initial, m_pka_sram = (\<lambda>_. 0),
     m_pka_write_addr = 0, m_pka_read_addr = 0, m_pka_modulus_cache_valid = False, m_pka_modulus_cache_words = 0,
     m_pka_modulus_cache = 0, m_engine = 0, m_cmac_data = [], m_cmac_active = False, m_trace_seen_count = 0\<rparr>"

subsection \<open>The memory interface\<close>

text \<open>
  \<^verbatim>\<open>memory_if\<close> is what the core is given to reach memory, here two functions on a state of its own: a read delivers its bytes
  or fails, a write says whether it succeeded. The core may have none.
\<close>

record 'm memory_if =
  mi_read :: "u64 \<Rightarrow> nat \<Rightarrow> 'm \<Rightarrow> u8 list option \<times> 'm"
  mi_write :: "u64 \<Rightarrow> u8 list \<Rightarrow> 'm \<Rightarrow> bool \<times> 'm"

definition core_mem_read :: "'m memory_if option \<Rightarrow> u64 \<Rightarrow> nat \<Rightarrow> 'm \<Rightarrow> u8 list option \<times> 'm" where
  "core_mem_read mem a len m = (case mem of None \<Rightarrow> (None, m) | Some i \<Rightarrow> mi_read i a len m)"

definition core_mem_write :: "'m memory_if option \<Rightarrow> u64 \<Rightarrow> u8 list \<Rightarrow> 'm \<Rightarrow> bool \<times> 'm" where
  "core_mem_write mem a bs m = (case mem of None \<Rightarrow> (False, m) | Some i \<Rightarrow> mi_write i a bs m)"

subsection \<open>AES over DMA\<close>

definition aes_key_size_bytes :: "'a reg_state_scheme \<Rightarrow> nat" where
  "aes_key_size_bytes s =
     (let k = drop_bit 12 (load32 s AES_CONTROL) AND 0x3
      in if k = 0 then 16 else if k = 1 then 24 else if k = 2 then 32 else 16)"

definition aes_mode :: "'a reg_state_scheme \<Rightarrow> u32" where
  "aes_mode s = drop_bit 2 (load32 s AES_CONTROL) AND 0xf"

definition aes_decrypt :: "'a reg_state_scheme \<Rightarrow> bool" where
  "aes_decrypt s \<longleftrightarrow> load32 s AES_CONTROL AND 0x1 \<noteq> 0"

definition aes_key :: "'a reg_state_scheme \<Rightarrow> u8 list" where
  "aes_key s = mem_read (m_regs s) AES_KEY_0 (aes_key_size_bytes s)"

text \<open>The inner loop of \<^verbatim>\<open>aes_ctr_xcrypt\<close>: the blocks of one chunk, and the counter after them.\<close>

function ctr_chunk :: "u8 list \<Rightarrow> u8 list \<Rightarrow> u8 list \<Rightarrow> (u8 list \<times> u8 list) option" where
  "ctr_chunk key counter input =
     (if input = [] then Some ([], counter)
      else
        (case aes_encrypt_block key counter of
           None \<Rightarrow> None
         | Some stream \<Rightarrow>
             (let block_len = min 16 (length input);
                  out = map (\<lambda>i. input ! i XOR stream ! i) [0..<block_len]
              in map_option (apfst ((@) out)) (ctr_chunk key (aes_increment_counter counter) (drop block_len input)))))"
  by pat_completeness auto
termination
  by (relation "measure (\<lambda>(key, counter, input). length input)") auto

declare ctr_chunk.simps [simp del]

function ctr_dma_loop :: "'m memory_if option \<Rightarrow> u8 list \<Rightarrow> u64 \<Rightarrow> u64 \<Rightarrow> nat \<Rightarrow> u8 list \<Rightarrow> 'm \<Rightarrow> u8 list option \<times> 'm" where
  "ctr_dma_loop mem key source dest len counter m =
     (if len = 0 then (Some counter, m)
      else
        (let chunk_len = min len DMA_CHUNK_BYTES
         in case core_mem_read mem source chunk_len m of
              (None, m) \<Rightarrow> (None, m)
            | (Some input, m) \<Rightarrow>
                (case ctr_chunk key counter input of
                   None \<Rightarrow> (None, m)
                 | Some (output, counter) \<Rightarrow>
                     (case core_mem_write mem dest output m of
                        (False, m) \<Rightarrow> (None, m)
                      | (True, m) \<Rightarrow>
                          ctr_dma_loop mem key (source + of_nat chunk_len) (dest + of_nat chunk_len) (len - chunk_len) counter m))))"
  by pat_completeness auto
termination
  by (relation "measure (\<lambda>(mem, key, source, dest, len, counter, m). len)") auto

declare ctr_dma_loop.simps [simp del]

definition aes_ctr_xcrypt :: "'m memory_if option \<Rightarrow> u64 \<Rightarrow> u64 \<Rightarrow> nat \<Rightarrow> 'a cc3xx_scheme \<times> 'm \<Rightarrow> 'a cc3xx_scheme \<times> 'm" where
  "aes_ctr_xcrypt mem source dest len = (\<lambda>(s, m).
     (case ctr_dma_loop mem (aes_key s) source dest len (mem_read (m_regs s) AES_CTR_0 16) m of
        (None, m) \<Rightarrow> (s, m)
      | (Some counter, m) \<Rightarrow>
          (store32 AES_BUSY 0 (store32 AES_REMAINING_BYTES 0 (s\<lparr>m_regs := mem_write (m_regs s) AES_CTR_0 counter\<rparr>)), m)))"

function ecb_chunk :: "bool \<Rightarrow> u8 list \<Rightarrow> u8 list \<Rightarrow> u8 list option" where
  "ecb_chunk decrypt key input =
     (if input = [] then Some []
      else
        (case (if decrypt then aes_decrypt_block key (take 16 input) else aes_encrypt_block key (take 16 input)) of
           None \<Rightarrow> None
         | Some out \<Rightarrow> map_option ((@) out) (ecb_chunk decrypt key (drop 16 input))))"
  by pat_completeness auto
termination
  by (relation "measure (\<lambda>(decrypt, key, input). length input)") auto

declare ecb_chunk.simps [simp del]

function ecb_dma_loop :: "'m memory_if option \<Rightarrow> bool \<Rightarrow> u8 list \<Rightarrow> u64 \<Rightarrow> u64 \<Rightarrow> nat \<Rightarrow> 'm \<Rightarrow> bool \<times> 'm" where
  "ecb_dma_loop mem decrypt key source dest len m =
     (if len = 0 then (True, m)
      else
        (let chunk_len = min len DMA_CHUNK_BYTES
         in case core_mem_read mem source chunk_len m of
              (None, m) \<Rightarrow> (False, m)
            | (Some input, m) \<Rightarrow>
                (case ecb_chunk decrypt key input of
                   None \<Rightarrow> (False, m)
                 | Some output \<Rightarrow>
                     (case core_mem_write mem dest output m of
                        (False, m) \<Rightarrow> (False, m)
                      | (True, m) \<Rightarrow>
                          ecb_dma_loop mem decrypt key (source + of_nat chunk_len) (dest + of_nat chunk_len) (len - chunk_len) m))))"
  by pat_completeness auto
termination
  by (relation "measure (\<lambda>(mem, decrypt, key, source, dest, len, m). len)") auto

declare ecb_dma_loop.simps [simp del]

definition aes_ecb_xcrypt :: "'m memory_if option \<Rightarrow> u64 \<Rightarrow> u64 \<Rightarrow> nat \<Rightarrow> 'a cc3xx_scheme \<times> 'm \<Rightarrow> 'a cc3xx_scheme \<times> 'm" where
  "aes_ecb_xcrypt mem source dest len = (\<lambda>(s, m).
     (if len mod 16 \<noteq> 0 then (s, m)
      else (case ecb_dma_loop mem (aes_decrypt s) (aes_key s) source dest len m of
              (False, m) \<Rightarrow> (s, m)
            | (True, m) \<Rightarrow> (store32 AES_BUSY 0 (store32 AES_REMAINING_BYTES 0 s), m))))"

definition aes_dma_output :: "'m memory_if option \<Rightarrow> nat \<Rightarrow> 'a cc3xx_scheme \<times> 'm \<Rightarrow> 'a cc3xx_scheme \<times> 'm" where
  "aes_dma_output mem trigger_offset = (\<lambda>(s, m).
     (if trigger_offset \<noteq> DIN_SRC_LLI_WORD1 \<or>
         \<not> (m_engine s = ENGINE_AES \<or> m_engine s = ENGINE_AES_AND_HASH \<or> m_engine s = ENGINE_AES_TO_HASH_AND_DOUT)
      then (s, m)
      else
        (let source = ucast (load32 s DIN_SRC_LLI_WORD0); dest = ucast (load32 s DOUT_DST_LLI_WORD0);
             len = min (unat (load32 s DIN_SRC_LLI_WORD1)) (unat (load32 s DOUT_DST_LLI_WORD1))
         in if len = 0 then (s, m)
            else if aes_mode s = 0x00 then aes_ecb_xcrypt mem source dest len (s, m)
            else if aes_mode s = 0x02 then aes_ctr_xcrypt mem source dest len (s, m)
            else (s, m))))"

subsection \<open>The hash and CMAC over DMA\<close>

function hash_dma_loop ::
    "'m memory_if option \<Rightarrow> u64 \<Rightarrow> nat \<Rightarrow> 'a cc3xx_scheme \<times> 'm \<Rightarrow> (bool \<times> 'a cc3xx_scheme \<times> 'm) ub" where
  "hash_dma_loop mem source remaining (s, m) =
     (if remaining = 0 then Some (True, s, m)
      else
        (let len = min remaining DMA_CHUNK_BYTES
         in case core_mem_read mem source len m of
              (None, m) \<Rightarrow> Some (False, s, m)
            | (Some chunk, m) \<Rightarrow>
                do { s \<leftarrow> sha256_update_impl chunk s;
                     hash_dma_loop mem (source + of_nat len) (remaining - len) (s, m) }))"
  by pat_completeness auto
termination
  by (relation "measure (\<lambda>(mem, source, remaining, sm). remaining)") auto

declare hash_dma_loop.simps [simp del]

definition hash_dma_input :: "'m memory_if option \<Rightarrow> nat \<Rightarrow> 'a cc3xx_scheme \<times> 'm \<Rightarrow> ('a cc3xx_scheme \<times> 'm) ub" where
  "hash_dma_input mem trigger_offset = (\<lambda>(s, m).
     (if m_engine s \<noteq> ENGINE_HASH \<or> \<not> sha_active (m_sha256 s) \<or> sha_finalized (m_sha256 s) \<or> trigger_offset \<noteq> DIN_SRC_LLI_WORD1
      then Some (s, m)
      else do {
        (ok, s, m) \<leftarrow> hash_dma_loop mem (ucast (load32 s DIN_SRC_LLI_WORD0)) (unat (load32 s DIN_SRC_LLI_WORD1)) (s, m);
        if ok \<and> load32 s AUTO_HW_PADDING AND 0x1 \<noteq> 0 then do { s \<leftarrow> sha256_finish s; Some (s, m) } else Some (s, m)
      }))"

definition cmac_reset :: "'a cc3xx_scheme \<Rightarrow> 'a cc3xx_scheme" where
  "cmac_reset s = s\<lparr>m_cmac_data := [], m_cmac_active := True\<rparr>"

function cmac_dma_loop :: "'m memory_if option \<Rightarrow> u64 \<Rightarrow> nat \<Rightarrow> u8 list \<Rightarrow> 'm \<Rightarrow> u8 list \<times> 'm" where
  "cmac_dma_loop mem source remaining data m =
     (if remaining = 0 then (data, m)
      else
        (let len = min remaining DMA_CHUNK_BYTES
         in case core_mem_read mem source len m of
              (None, m) \<Rightarrow> (data, m)
            | (Some chunk, m) \<Rightarrow> cmac_dma_loop mem (source + of_nat len) (remaining - len) (data @ chunk) m))"
  by pat_completeness auto
termination
  by (relation "measure (\<lambda>(mem, source, remaining, data, m). remaining)") auto

declare cmac_dma_loop.simps [simp del]

definition cmac_dma_input :: "'m memory_if option \<Rightarrow> nat \<Rightarrow> 'a cc3xx_scheme \<times> 'm \<Rightarrow> 'a cc3xx_scheme \<times> 'm" where
  "cmac_dma_input mem trigger_offset = (\<lambda>(s, m).
     (if \<not> m_cmac_active s \<or> m_engine s \<noteq> ENGINE_AES \<or> aes_mode s \<noteq> 0x07 \<or> trigger_offset \<noteq> DIN_SRC_LLI_WORD1
      then (s, m)
      else
        (let (data, m) = cmac_dma_loop mem (ucast (load32 s DIN_SRC_LLI_WORD0)) (unat (load32 s DIN_SRC_LLI_WORD1)) (m_cmac_data s) m
         in (s\<lparr>m_cmac_data := data\<rparr>, m))))"

definition cmac_finish :: "'a cc3xx_scheme \<Rightarrow> 'a cc3xx_scheme" where
  "cmac_finish s =
     (if \<not> m_cmac_active s \<or> aes_mode s \<noteq> 0x07 then s
      else
        (let s = (case aes_cmac (aes_key s) (m_cmac_data s) of
                    None \<Rightarrow> s
                  | Some tag \<Rightarrow> s\<lparr>m_regs := mem_write (m_regs s) AES_IV_0 tag\<rparr>)
         in (store32 AES_BUSY 0 s)\<lparr>m_cmac_active := False\<rparr>))"

text \<open>A write to a DMA length register runs the transfer and reports its end.\<close>

definition complete_dma_transfer :: "'m memory_if option \<Rightarrow> nat \<Rightarrow> 'a cc3xx_scheme \<times> 'm \<Rightarrow> ('a cc3xx_scheme \<times> 'm) ub" where
  "complete_dma_transfer mem trigger_offset sm =
     (let interrupts = 0x800 OR
            (if trigger_offset = DIN_SRC_LLI_WORD1 then 0x40
             else if trigger_offset = DIN_SRAM_BYTES_LEN then 0x10
             else if trigger_offset = DOUT_DST_LLI_WORD1 then 0x80
             else if trigger_offset = DOUT_SRAM_BYTES_LEN then 0x20 else 0)
      in do {
        sm \<leftarrow> hash_dma_input mem trigger_offset sm;
        let (s, m) = cmac_dma_input mem trigger_offset (aes_dma_output mem trigger_offset sm);
        Some (store_all [(DIN_MEM_DMA_BUSY, 0), (DIN_SRAM_DMA_BUSY, 0), (DOUT_MEM_DMA_BUSY, 0), (DOUT_SRAM_DMA_BUSY, 0),
               (FIFO_IN_EMPTY, 1), (DOUT_FIFO_EMPTY, 1), (HOST_CC_IS_IDLE, 1)]
               (store32 HOST_RGF_IRR (load32 s HOST_RGF_IRR OR interrupts) s), m)
      })"

subsection \<open>Register writes\<close>

definition update_rng_after_write :: "nat \<Rightarrow> u32 \<Rightarrow> 'a reg_state_scheme \<Rightarrow> 'a reg_state_scheme" where
  "update_rng_after_write offset v s =
     (if offset = 0x140 then store32 RNG_ISR 0 (store32 0x140 v s)
      else if offset = 0x108 then store32 RNG_ISR (load32 s RNG_ISR AND NOT v) s
      else if offset = 0x12c then
        (let s = store32 0x12c v s in if v AND 0x1 \<noteq> 0 then store32 RNG_ISR (load32 s RNG_ISR OR 0x1) s else s)
      else if offset = 0x1bc then store32 0x1bc v s
      else if offset = 0x1c4 then store32 0x1c4 v s
      else s)"

definition is_hash_h :: "nat \<Rightarrow> bool" where
  "is_hash_h offset \<longleftrightarrow> HASH_H \<le> offset \<and> offset < HASH_H + 8 * 4"

definition update_hash_after_write :: "nat \<Rightarrow> u32 \<Rightarrow> 'a cc3xx_hash_scheme \<Rightarrow> 'a cc3xx_hash_scheme ub" where
  "update_hash_after_write offset v s =
     (if is_hash_h offset then
        (let s = store32 offset v s
         in Some (if sha_active (m_sha256 s) \<and> \<not> sha_finalized (m_sha256 s)
                  then on_sha (\<lambda>t. t\<lparr>sha_h := (sha_h t)[(offset - HASH_H) div 4 := v]\<rparr>) s else s))
      else if offset = HASH_CUR_LEN0 \<or> offset = HASH_CUR_LEN1 then
        (let s = store32 offset v s
         in Some (if sha_active (m_sha256 s) \<and> \<not> sha_finalized (m_sha256 s)
                  then on_sha (\<lambda>t. t\<lparr>sha_bytes := hash_current_len s, sha_block_len := 0\<rparr>) s else s))
      else if offset = HASH_CONTROL then
        (let s = store32 HASH_CONTROL v s
         in Some (if v AND 0xf = 0x02 then sha256_reset s
                  else on_sha (\<lambda>t. t\<lparr>sha_active := False, sha_finalized := False\<rparr>) s))
      else if offset = HASH_PAD_CFG then
        (let s = store32 HASH_PAD_CFG v s
         in if v AND 0x4 \<noteq> 0 \<and> sha_active (m_sha256 s) then sha256_finish s else Some s)
      else if offset = AUTO_HW_PADDING then Some (store32 AUTO_HW_PADDING v s)
      else Some s)"

definition pka_sw_reset :: "u32 \<Rightarrow> 'a cc3xx_pka_scheme \<Rightarrow> 'a cc3xx_pka_scheme" where
  "pka_sw_reset v s =
     store_all [(PKA_STATUS, 1), (PKA_PIPE_RDY, 1), (PKA_DONE, 1)]
       (pka_invalidate_modulus_cache ((store32 0x08c v s)\<lparr>m_pka_sram := (\<lambda>_. 0), m_pka_write_addr := 0, m_pka_read_addr := 0\<rparr>))"

definition cc3xx_write32 :: "'m memory_if option \<Rightarrow> nat \<Rightarrow> u32 \<Rightarrow> 'a cc3xx_scheme \<times> 'm \<Rightarrow> ('a cc3xx_scheme \<times> 'm) ub" where
  "cc3xx_write32 mem offset v = (\<lambda>(s, m).
     (if offset = 0x08c then Some (pka_sw_reset v s, m)
      else if offset = 0x0d4 then Some ((store32 0x0d4 v s)\<lparr>m_pka_write_addr := v\<rparr>, m)
      else if offset = 0x0d8 then
        (let s = store32 0x0d8 v s; a = m_pka_write_addr s
         in Some (pka_sram_write a v True (s\<lparr>m_pka_write_addr := a + 1\<rparr>), m))
      else if offset = 0x0e4 then Some ((store32 0x0e4 v s)\<lparr>m_pka_read_addr := v\<rparr>, m)
      else if offset = PKA_OPCODE then Some (execute_pka_opcode v (store32 PKA_OPCODE v s), m)
      else if offset \<in> {0x108, 0x140, 0x12c, 0x1bc, 0x1c4} then Some (update_rng_after_write offset v s, m)
      else if offset = HOST_RGF_ICR then Some (store32 HOST_RGF_IRR (load32 s HOST_RGF_IRR AND NOT v) s, m)
      else if offset \<in> {HASH_CONTROL, HASH_PAD_CFG, AUTO_HW_PADDING, HASH_CUR_LEN0, HASH_CUR_LEN1}
      then do { s \<leftarrow> update_hash_after_write offset v s; Some (s, m) }
      else if offset = AES_CMAC_INIT then
        (let s = store32 AES_CMAC_INIT v s in Some (if v AND 0x1 \<noteq> 0 then cmac_reset s else s, m))
      else if offset = AES_REMAINING_BYTES then
        (let s = store32 AES_REMAINING_BYTES v s in Some (if v = 0 then cmac_finish s else s, m))
      else if offset = CRYPTO_CTL then
        Some (store_all [(CRYPTO_BUSY, 0), (HASH_BUSY, 0), (HOST_CC_IS_IDLE, 1)]
                ((store32 CRYPTO_CTL v s)\<lparr>m_engine := v AND 0x1f\<rparr>), m)
      else if offset \<in> {DIN_SRC_LLI_WORD1, DIN_SRAM_BYTES_LEN, DOUT_DST_LLI_WORD1, DOUT_SRAM_BYTES_LEN}
      then complete_dma_transfer mem offset (store32 offset v s, m)
      else if is_hash_h offset then do { s \<leftarrow> update_hash_after_write offset v s; Some (s, m) }
      else Some (store32 offset v (if offset = 0 then pka_invalidate_modulus_cache s else s), m)))"

subsection \<open>Tracing\<close>

definition cc3xx_dma_trace_address_matches :: "trace_config \<Rightarrow> 'a cc3xx_scheme \<Rightarrow> bool" where
  "cc3xx_dma_trace_address_matches cfg s \<longleftrightarrow>
     tc_address_min cfg = 0 \<or> ucast (load32 s DIN_SRC_LLI_WORD0) \<ge> tc_address_min cfg \<or>
     ucast (load32 s DOUT_DST_LLI_WORD0) \<ge> tc_address_min cfg"

definition is_dma_trace_offset :: "trace_config \<Rightarrow> nat \<Rightarrow> 'a cc3xx_scheme \<Rightarrow> bool" where
  "is_dma_trace_offset cfg offset s =
     (let aes_engine = (m_engine s = ENGINE_AES \<or> m_engine s = ENGINE_AES_AND_HASH \<or> m_engine s = ENGINE_AES_TO_HASH_AND_DOUT);
          input_dma_engine = (aes_engine \<or> m_engine s = ENGINE_HASH);
          address_match = cc3xx_dma_trace_address_matches cfg s
      in if offset \<in> {AES_CONTROL, AES_REMAINING_BYTES} then address_match
         else if offset = CRYPTO_CTL then input_dma_engine \<and> address_match
         else if offset \<in> {HOST_RGF_IRR, HOST_RGF_IMR, HOST_RGF_ICR} then input_dma_engine \<and> address_match
         else if offset \<in> {DIN_MEM_DMA_BUSY, DIN_SRC_LLI_WORD0, DIN_SRC_LLI_WORD1, DIN_SRAM_SRC_ADDR, DIN_SRAM_BYTES_LEN, DIN_SRAM_DMA_BUSY, FIFO_IN_EMPTY}
         then input_dma_engine \<and> address_match
         else if offset \<in> {DOUT_MEM_DMA_BUSY, DOUT_DST_LLI_WORD0, DOUT_DST_LLI_WORD1, DOUT_SRAM_BYTES_LEN, DOUT_SRAM_DMA_BUSY, DOUT_FIFO_EMPTY}
         then address_match
         else address_match \<and> (AES_KEY_0 \<le> offset \<and> offset < AES_KEY_0 + 32 \<or> AES_CTR_0 \<le> offset \<and> offset < AES_CTR_0 + 16))"

definition trace_filter_matches :: "trace_config \<Rightarrow> nat \<Rightarrow> 'a cc3xx_scheme \<Rightarrow> bool" where
  "trace_filter_matches cfg offset s =
     (let f = tc_filter cfg
      in if f = [] \<or> f = ''all'' then True
         else if f = ''pka'' then offset < 0x100
         else if f = ''pka-opcode'' then offset \<in> {PKA_OPCODE, PKA_STATUS, PKA_PIPE_RDY, PKA_DONE}
         else if f = ''dma'' then is_dma_trace_offset cfg offset s
         else if f = ''crypto'' then
           offset < 0x100 \<or> AES_KEY_0 \<le> offset \<and> offset \<le> AES_HW_FLAGS \<or> HASH_H \<le> offset \<and> offset \<le> HASH_PAD_CFG \<or>
           offset \<in> {CRYPTO_CTL, CRYPTO_BUSY, HASH_BUSY} \<or> is_dma_trace_offset cfg offset s
         else False)"

definition cc3xx_trace_access :: "trace_config \<Rightarrow> nat \<Rightarrow> 'a cc3xx_scheme \<Rightarrow> 'a cc3xx_scheme" where
  "cc3xx_trace_access cfg offset s =
     (if \<not> tc_enabled cfg \<or> \<not> trace_filter_matches cfg offset s then s
      else
        (let s = s\<lparr>m_trace_seen_count := m_trace_seen_count s + 1\<rparr>
         in if m_trace_seen_count s \<le> tc_skip cfg \<or> m_trace_count s \<ge> tc_limit cfg then s
            else s\<lparr>m_trace_count := m_trace_count s + 1\<rparr>))"

subsection \<open>Reads and writes of the core\<close>

abbreviation (input) REG_BYTES :: nat where "REG_BYTES \<equiv> 0x10000"

datatype cc3xx_status = Access_Ok | Address_Error | Command_Error

text \<open>The bytes read replace the front of the buffer.\<close>

definition cc3xx_read ::
    "trace_config \<Rightarrow> u64 \<Rightarrow> u8 list option \<Rightarrow> u32 \<Rightarrow> bool \<Rightarrow> 'a cc3xx_scheme \<Rightarrow> (cc3xx_status \<times> u8 list option \<times> 'a cc3xx_scheme) ub" where
  "cc3xx_read cfg offset data len debug s =
     (case data of
        None \<Rightarrow> Some (Address_Error, data, s)
      | Some buf \<Rightarrow>
          if \<not> is_supported_length len \<or> beyond REG_BYTES offset len then Some (Address_Error, data, s)
          else if length buf < unat len then None
          else do {
            (bs, s) \<leftarrow> (if \<not> debug \<and> len = 4 \<and> offset = 0x0dc
              then (let v = pka_sram_read (m_pka_read_addr s) s; s = s\<lparr>m_pka_read_addr := m_pka_read_addr s + 1\<rparr>
                    in Some (le_bytes 4 v, store32 0x0dc v s))
              else do { bs \<leftarrow> regs_read REG_BYTES offset (unat len) s; Some (bs, s) });
            let s = (if \<not> debug \<and> of_nat EHR_DATA \<le> offset \<and> offset < of_nat (EHR_DATA + 24)
                     then store32 RNG_ISR (load32 s RNG_ISR OR 0x1) s else s);
            Some (Access_Ok, Some (bs @ drop (unat len) buf), cc3xx_trace_access cfg (unat offset) s)
          })"

definition cc3xx_write ::
    "trace_config \<Rightarrow> 'm memory_if option \<Rightarrow> u64 \<Rightarrow> u8 list option \<Rightarrow> u32 \<Rightarrow> 'a cc3xx_scheme \<times> 'm \<Rightarrow>
     (cc3xx_status \<times> 'a cc3xx_scheme \<times> 'm) ub" where
  "cc3xx_write cfg mem offset data len = (\<lambda>(s, m).
     (case data of
        None \<Rightarrow> Some (Address_Error, s, m)
      | Some buf \<Rightarrow>
          if \<not> is_supported_length len \<or> beyond REG_BYTES offset len then Some (Address_Error, s, m)
          else if length buf < unat len then None
          else do {
            (s, m) \<leftarrow> (if len = 4 \<and> offset mod 4 = 0
              then (if unat offset + 4 \<le> REG_BYTES then cc3xx_write32 mem (unat offset) (le_word (take 4 buf)) (s, m) else None)
              else do { regs \<leftarrow> arr_write REG_BYTES (m_regs s) (unat offset) (take (unat len) buf); Some (s\<lparr>m_regs := regs\<rparr>, m) });
            Some (Access_Ok, cc3xx_trace_access cfg (unat offset) s, m)
          }))"

subsection \<open>The module\<close>

text \<open>The module's memory interface: a payload sent over the initiator socket, which may be unbound.\<close>

definition memory_access :: "'m bus option \<Rightarrow> tlm_command \<Rightarrow> u64 \<Rightarrow> u8 list \<Rightarrow> 'm \<Rightarrow> (bool \<times> u8 list option) \<times> 'm" where
  "memory_access bus cmd address data m =
     (case bus of
        None \<Rightarrow> ((False, Some data), m)
      | Some b \<Rightarrow>
          (let (t, m) = b \<lparr>p_command = cmd, p_address = address, p_data = Some data, p_len = of_nat (length data),
                  p_response = TLM_INCOMPLETE_RESPONSE, p_dmi_allowed = False\<rparr> m
           in ((is_response_ok t, p_data t), m)))"

definition systemc_memory_if :: "'m bus option \<Rightarrow> 'm memory_if" where
  "systemc_memory_if bus = \<lparr>
     mi_read = (\<lambda>address len m. case memory_access bus TLM_READ_COMMAND address (replicate len 0) m of
        ((ok, data), m) \<Rightarrow> (if ok then data else None, m)),
     mi_write = (\<lambda>address data m. case memory_access bus TLM_WRITE_COMMAND address data m of ((ok, _), m) \<Rightarrow> (ok, m))\<rparr>"

definition cc3xx_map_status :: "payload \<Rightarrow> cc3xx_status \<Rightarrow> payload" where
  "cc3xx_map_status t st = t\<lparr>p_response := (case st of Access_Ok \<Rightarrow> TLM_OK_RESPONSE | Address_Error \<Rightarrow> TLM_ADDRESS_ERROR_RESPONSE
     | Command_Error \<Rightarrow> TLM_COMMAND_ERROR_RESPONSE)\<rparr>"

definition cc3xx_access ::
    "trace_config \<Rightarrow> 'm bus option \<Rightarrow> bool \<Rightarrow> payload \<Rightarrow> 'a cc3xx_scheme \<times> 'm \<Rightarrow> (bool \<times> payload \<times> 'a cc3xx_scheme \<times> 'm) ub" where
  "cc3xx_access cfg bus debug t = (\<lambda>(s, m). do {
     (st, data, s, m) \<leftarrow> (case p_command t of
         TLM_READ_COMMAND \<Rightarrow> do { (st, data, s) \<leftarrow> cc3xx_read cfg (p_address t) (p_data t) (p_len t) debug s; Some (st, data, s, m) }
       | TLM_WRITE_COMMAND \<Rightarrow>
           do { (st, s, m) \<leftarrow> cc3xx_write cfg (Some (systemc_memory_if bus)) (p_address t) (p_data t) (p_len t) (s, m);
                Some (st, p_data t, s, m) }
       | TLM_IGNORE_COMMAND \<Rightarrow> Some (Command_Error, p_data t, s, m));
     Some (st = Access_Ok, cc3xx_map_status (t\<lparr>p_data := data\<rparr>) st, s, m)
   })"

definition cc3xx_b_transport :: "trace_config \<Rightarrow> 'm bus option \<Rightarrow> payload \<Rightarrow> 'a cc3xx_scheme \<times> 'm \<Rightarrow> (payload \<times> 'a cc3xx_scheme \<times> 'm) ub" where
  "cc3xx_b_transport cfg bus = b_transport_of (cc3xx_access cfg bus False)"

definition cc3xx_transport_dbg :: "trace_config \<Rightarrow> 'm bus option \<Rightarrow> payload \<Rightarrow> 'a cc3xx_scheme \<times> 'm \<Rightarrow> (u32 \<times> payload \<times> 'a cc3xx_scheme \<times> 'm) ub" where
  "cc3xx_transport_dbg cfg bus = transport_dbg_of (cc3xx_access cfg bus True)"

definition cc3xx_doreset :: "bool \<Rightarrow> 'a cc3xx_scheme \<Rightarrow> 'a cc3xx_scheme" where
  "cc3xx_doreset v s = (if v then cc3xx_reset_registers s else s)"

subsection \<open>What a hash operation leaves alone\<close>

definition sha_only :: "'a cc3xx_hash_scheme \<Rightarrow> 'a cc3xx_hash_scheme \<Rightarrow> bool" where
  "sha_only s s' \<longleftrightarrow> cc3xx_hash.more s' = cc3xx_hash.more s \<and> m_trace_count s' = m_trace_count s \<and>
     (\<forall>i. \<not> (HASH_H \<le> i \<and> i < HASH_H + 32 \<or> HASH_CUR_LEN0 \<le> i \<and> i < HASH_CUR_LEN0 + 8) \<longrightarrow> m_regs s' i = m_regs s i)"

lemma sha_only_refl [simp]: "sha_only s s"
  by (simp add: sha_only_def)

lemma sha_only_trans: "sha_only s t \<Longrightarrow> sha_only t u \<Longrightarrow> sha_only s u"
  by (simp add: sha_only_def)

lemma sha_only_on_sha [simp]: "sha_only s (on_sha f t) = sha_only s t"
  by (simp add: sha_only_def on_sha_def)

lemma sha_only_store_len [simp]: "sha_only s t \<Longrightarrow> sha_only s (store_hash_current_len v t)"
  by (auto simp: sha_only_def store_hash_current_len_def store32_def mem_write_outside)

lemma sha_only_store_h [simp]: "sha_only s t \<Longrightarrow> sha_only s (store_sha256_h t)"
  unfolding store_sha256_h_def upt_8 by (auto simp: sha_only_def store32_def mem_write_outside)

lemma sha_only_transform [simp]: "sha_only s t \<Longrightarrow> sha_only s (sha256_transform b t)"
  by (simp add: sha256_transform_def)

lemma sha_only_loop: "update_loop data t = Some u \<Longrightarrow> sha_only s t \<Longrightarrow> sha_only s u"
proof (induction data t rule: update_loop.induct)
  case (1 data t)
  show ?case
  proof (cases "data = []")
    case False
    let ?len = "sha_block_len (m_sha256 t)"
    define c where "c = min (length data) (64 - ?len)"
    let ?t1 = "on_sha (\<lambda>x. x\<lparr>sha_block := take ?len (sha_block x) @ take c data @ drop (?len + c) (sha_block x), sha_block_len := ?len + c\<rparr>) t"
    let ?t2 = "if ?len + c = 64 then on_sha (\<lambda>x. x\<lparr>sha_block_len := 0\<rparr>) (sha256_transform (sha_block (m_sha256 ?t1)) ?t1) else ?t1"
    have u: "update_loop data t = (if c = 0 then None else update_loop (drop c data) ?t2)"
      using False unfolding c_def by (subst update_loop.simps) (simp only: Let_def if_False)
    then have nz: "c \<noteq> 0" using 1(2) by (metis option.distinct(1))
    with u 1(2) have eq: "update_loop (drop c data) ?t2 = Some u" by (simp only: if_False)
    have "sha_only s ?t2" using 1(3) by simp
    from 1(1)[OF False refl c_def refl refl nz eq this] show ?thesis .
  qed (use 1 in \<open>simp add: update_loop.simps\<close>)
qed

lemma sha_only_update: "sha256_update_impl data s = Some t \<Longrightarrow> sha_only s t"
  by (auto simp: sha256_update_impl_def Let_def intro: sha_only_loop split: if_splits)

lemma sha_only_finish: "sha256_finish s = Some t \<Longrightarrow> sha_only s t"
  by (auto simp: sha256_finish_def Let_def dest!: sha_only_update intro: sha_only_trans split: if_splits bind_splits)

lemma sha_only_load: "sha_only s t \<Longrightarrow> off + 4 \<le> HASH_H \<or> HASH_H + 32 \<le> off \<and> off + 4 \<le> HASH_CUR_LEN0 \<or> HASH_CUR_LEN0 + 8 \<le> off \<Longrightarrow>
    load32 t off = load32 s off"
  by (rule load32_cong) (auto simp: sha_only_def)

text \<open>What makes an engine's update total: the block is never full between two operations.\<close>

definition sha_wf :: "sha256_state \<Rightarrow> bool" where
  "sha_wf t \<longleftrightarrow> sha_block_len t < 64 \<and> length (sha_block t) = 64 \<and> length (sha_h t) = 8"

lemma wf_loop: "sha_wf (m_sha256 s) \<Longrightarrow> \<exists>t. update_loop data s = Some t \<and> sha_wf (m_sha256 t)"
proof (induction data s rule: update_loop.induct)
  case (1 data t)
  show ?case
  proof (cases "data = []")
    case False
    let ?len = "sha_block_len (m_sha256 t)"
    define c where "c = min (length data) (64 - ?len)"
    let ?t1 = "on_sha (\<lambda>x. x\<lparr>sha_block := take ?len (sha_block x) @ take c data @ drop (?len + c) (sha_block x), sha_block_len := ?len + c\<rparr>) t"
    let ?t2 = "if ?len + c = 64 then on_sha (\<lambda>x. x\<lparr>sha_block_len := 0\<rparr>) (sha256_transform (sha_block (m_sha256 ?t1)) ?t1) else ?t1"
    have c: "c \<noteq> 0" "c \<le> length data" "?len + c \<le> 64" using 1(2) False by (auto simp: c_def sha_wf_def)
    have u: "update_loop data t = update_loop (drop c data) ?t2"
      using False c(1) unfolding c_def by (subst update_loop.simps) (simp only: Let_def if_False)
    have "sha_wf (m_sha256 ?t2)" using 1(2) c by (auto simp: sha_wf_def sha256_transform_def)
    with 1(1)[OF False refl c_def refl refl c(1)] show ?thesis unfolding u by blast
  qed (use 1 in \<open>simp add: update_loop.simps\<close>)
qed

lemma wf_update: "sha_wf (m_sha256 s) \<Longrightarrow> \<exists>t. sha256_update_impl data s = Some t \<and> sha_wf (m_sha256 t)"
proof (cases "\<not> sha_active (m_sha256 s) \<or> sha_finalized (m_sha256 s)")
  case False
  assume wf: "sha_wf (m_sha256 s)"
  let ?u = "on_sha (\<lambda>t. t\<lparr>sha_bytes := sha_bytes t + of_nat (length data)\<rparr>) s"
  have "sha_wf (m_sha256 (store_hash_current_len (sha_bytes (m_sha256 ?u)) ?u))" using wf by (simp add: sha_wf_def)
  from wf_loop[OF this] show ?thesis using False by (simp add: sha256_update_impl_def Let_def)
qed (auto simp: sha256_update_impl_def)

lemma wf_finish: "sha_wf (m_sha256 s) \<Longrightarrow> \<exists>t. sha256_finish s = Some t \<and> sha_wf (m_sha256 t)"
proof -
  assume wf: "sha_wf (m_sha256 s)"
  let ?len = "sha_block_len (m_sha256 s)"
  let ?pad = "0x80 # replicate ((if ?len < 56 then 56 - ?len else 120 - ?len) - 1) (0::u8)"
  obtain s1 where s1: "sha256_update_impl ?pad s = Some s1" "sha_wf (m_sha256 s1)" using wf_update[OF wf] by blast
  obtain s2 where s2: "sha256_update_impl (store_be64 (sha_bytes (m_sha256 s) * 8)) s1 = Some s2" "sha_wf (m_sha256 s2)"
    using wf_update[OF s1(2)] by blast
  then show ?thesis using s1 wf by (auto simp: sha256_finish_def Let_def sha_wf_def)
qed

subsection \<open>Every access is defined\<close>

lemma sha_store_all [simp]: "m_sha256 (store_all rvs s) = m_sha256 s"
  by (induction rvs arbitrary: s) (simp_all add: store_all_def split_def)

lemma sha_m_regs [simp]: "m_sha256 (s\<lparr>m_regs := r\<rparr>) = m_sha256 s"
  by (cases s) simp

lemma sha_invalidate [simp]: "m_sha256 (pka_invalidate_modulus_cache s) = m_sha256 s"
  by (simp add: pka_invalidate_modulus_cache_def)

lemma sha_store_operand [simp]: "m_sha256 (pka_store_operand r data s) = m_sha256 s"
proof -
  have "m_sha256 (fold (\<lambda>i. pka_sram_write (b i) (f i) w) is t) = m_sha256 t" for b f w "is" and t :: "'a cc3xx_pka_scheme"
    by (induction "is" arbitrary: t) simp_all
  then show ?thesis by (simp add: pka_store_operand_def Let_def)
qed

lemma sha_modulus_value [simp]: "m_sha256 (snd (pka_modulus_value n s)) = m_sha256 s"
  by (simp add: pka_modulus_value_def Let_def)

lemma sha_divide [simp]: "m_sha256 (snd (pka_divide n im a l r s)) = m_sha256 s"
  by (simp add: pka_divide_def Let_def)

lemma sha_compute [simp]: "m_sha256 (snd (pka_compute op n im a b l r s)) = m_sha256 s"
  by (simp add: pka_compute_def split_def Let_def)

lemma sha_execute [simp]: "m_sha256 (execute_pka_opcode v s) = m_sha256 s"
proof -
  have "pka_compute op n im a b l r s = (res, t) \<Longrightarrow> m_sha256 t = m_sha256 s" for op n im a b l r res t
    by (metis sha_compute snd_conv)
  then have "m_sha256 (case pka_compute op n im a b l r s of
      (None, t) \<Rightarrow> pka_update_status z c1 c2 c3 t
    | (Some fl, t) \<Rightarrow> pka_update_status (pf_result fl) (pf_carry fl) (pf_sign fl) (pf_div_by_zero fl) (if d then t else pka_store_operand q (pf_result fl) t)) = m_sha256 s"
    for op n im a b l r z c1 c2 c3 d q by (simp split: prod.split option.split)
  then show ?thesis unfolding execute_pka_opcode_def Let_def by (cases "drop_bit 27 v AND 0x1f = 0") (simp_all only: simp_thms if_True if_False)
qed

lemma sha_pka_sw_reset [simp]: "m_sha256 (pka_sw_reset v s) = m_sha256 s"
  by (simp add: pka_sw_reset_def)

lemma sha_rng [simp]: "m_sha256 (update_rng_after_write off v s) = m_sha256 s"
  by (simp add: update_rng_after_write_def Let_def)

lemma sha_cmac_reset [simp]: "m_sha256 (cmac_reset s) = m_sha256 s"
  by (simp add: cmac_reset_def)

lemma sha_cmac_finish [simp]: "m_sha256 (cmac_finish s) = m_sha256 s"
  by (simp add: cmac_finish_def Let_def split: option.split)

lemma sha_cmac_input [simp]: "m_sha256 (fst (cmac_dma_input mem off sm)) = m_sha256 (fst sm)"
  by (simp add: cmac_dma_input_def split_def Let_def)

lemma sha_ctr_xcrypt [simp]: "m_sha256 (fst (aes_ctr_xcrypt mem src dst n sm)) = m_sha256 (fst sm)"
  by (cases sm) (simp add: aes_ctr_xcrypt_def split: prod.split option.split)

lemma sha_ecb_xcrypt [simp]: "m_sha256 (fst (aes_ecb_xcrypt mem src dst n sm)) = m_sha256 (fst sm)"
  by (cases sm) (simp add: aes_ecb_xcrypt_def split: prod.split bool.split)

lemma sha_aes_output [simp]: "m_sha256 (fst (aes_dma_output mem off sm)) = m_sha256 (fst sm)"
  by (cases sm) (simp add: aes_dma_output_def Let_def)

lemma sha_wf_initial [simp]: "sha_wf sha256_initial"
  by (simp add: sha_wf_def sha256_initial_def)

lemma wf_reset: "sha_wf (m_sha256 (sha256_reset s))"
  by (simp add: sha256_reset_def sha_wf_def Let_def)

lemma wf_hash_loop:
  "sha_wf (m_sha256 (fst sm)) \<Longrightarrow> \<exists>ok s' m'. hash_dma_loop mem src n sm = Some (ok, s', m') \<and> sha_wf (m_sha256 s')"
proof (induction n arbitrary: src sm rule: less_induct)
  case (less n)
  obtain s m where sm: "sm = (s, m)" by fastforce
  show ?case
  proof (cases "n = 0")
    case False
    obtain r m1 where r: "core_mem_read mem src (min n DMA_CHUNK_BYTES) m = (r, m1)" by fastforce
    show ?thesis
    proof (cases r)
      case None
      with r False less.prems show ?thesis by (subst sm, subst hash_dma_loop.simps) (auto simp: sm Let_def)
    next
      case (Some chunk)
      obtain t where t: "sha256_update_impl chunk s = Some t" "sha_wf (m_sha256 t)" using wf_update less.prems sm by fastforce
      have "n - min n DMA_CHUNK_BYTES < n" using False by simp
      from less.IH[OF this, of "(t, m1)"] t(2) show ?thesis using r Some False t(1)
        by (subst sm, subst hash_dma_loop.simps) (simp add: Let_def)
    qed
  qed (use less.prems sm in \<open>auto simp: hash_dma_loop.simps\<close>)
qed

lemma wf_hash_input:
  "sha_wf (m_sha256 s) \<Longrightarrow> \<exists>s' m'. hash_dma_input mem off (s, m) = Some (s', m') \<and> sha_wf (m_sha256 s')"
proof -
  assume wf: "sha_wf (m_sha256 s)"
  obtain ok s1 m1 where l: "hash_dma_loop mem (ucast (load32 s DIN_SRC_LLI_WORD0)) (unat (load32 s DIN_SRC_LLI_WORD1)) (s, m) = Some (ok, s1, m1)"
    "sha_wf (m_sha256 s1)" using wf_hash_loop[of "(s, m)"] wf by fastforce
  obtain s2 where "sha256_finish s1 = Some s2" "sha_wf (m_sha256 s2)" using wf_finish[OF l(2)] by blast
  with wf l show ?thesis by (simp add: hash_dma_input_def)
qed

lemma wf_complete:
  "sha_wf (m_sha256 s) \<Longrightarrow> \<exists>s' m'. complete_dma_transfer mem off (s, m) = Some (s', m') \<and> sha_wf (m_sha256 s')"
proof -
  assume wf: "sha_wf (m_sha256 s)"
  obtain s1 m1 where h: "hash_dma_input mem off (s, m) = Some (s1, m1)" "sha_wf (m_sha256 s1)"
    using wf_hash_input[OF wf, of mem off m] by blast
  obtain s2 m2 where c: "cmac_dma_input mem off (aes_dma_output mem off (s1, m1)) = (s2, m2)" by fastforce
  then have "m_sha256 s2 = m_sha256 s1" using sha_cmac_input[of mem off "aes_dma_output mem off (s1, m1)"] by simp
  with h c show ?thesis by (simp add: complete_dma_transfer_def Let_def)
qed

lemma wf_hash_write:
  "sha_wf (m_sha256 s) \<Longrightarrow> \<exists>s'. update_hash_after_write off v s = Some s' \<and> sha_wf (m_sha256 s')"
proof -
  assume wf: "sha_wf (m_sha256 s)"
  then have "sha_wf (m_sha256 (store32 HASH_PAD_CFG v s))" by simp
  from wf_finish[OF this] wf show ?thesis
    by (auto simp: update_hash_after_write_def Let_def wf_reset) (simp_all add: sha_wf_def)
qed

lemma wf_write32:
  "sha_wf (m_sha256 s) \<Longrightarrow> \<exists>s' m'. cc3xx_write32 mem off v (s, m) = Some (s', m') \<and> sha_wf (m_sha256 s')"
proof -
  assume wf: "sha_wf (m_sha256 s)"
  obtain s1 where h: "update_hash_after_write off v s = Some s1" "sha_wf (m_sha256 s1)" using wf_hash_write[OF wf] by blast
  obtain s2 m2 where c: "complete_dma_transfer mem off (store32 off v s, m) = Some (s2, m2)" "sha_wf (m_sha256 s2)"
    using wf_complete[of "store32 off v s" mem off m] wf by auto
  define good where "good = (\<lambda>r :: ('a cc3xx_scheme \<times> 'b) ub. \<exists>s' m'. r = Some (s', m') \<and> sha_wf (m_sha256 s'))"
  have if_good: "good (if b then x else y)" if "b \<Longrightarrow> good x" "\<not> b \<Longrightarrow> good y" for b x y using that by simp
  have some: "good (Some (t, m))" if "sha_wf (m_sha256 t)" for t using that by (simp add: good_def)
  have hash: "good (do { s \<leftarrow> update_hash_after_write off v s; Some (s, m) })" using h by (simp add: good_def)
  have dma: "good (complete_dma_transfer mem off (store32 off v s, m))" using c by (simp add: good_def)
  have "good (cc3xx_write32 mem off v (s, m))" unfolding cc3xx_write32_def split Let_def
    by (intro if_good some hash dma) (simp_all add: wf)
  then show ?thesis by (simp add: good_def)
qed

lemma trace_sel [simp]:
  "m_sha256 (cc3xx_trace_access cfg off s) = m_sha256 s" "m_regs (cc3xx_trace_access cfg off s) = m_regs s"
  "load32 (cc3xx_trace_access cfg off s) k = load32 s k"
  by (simp_all add: cc3xx_trace_access_def Let_def load32_def)

lemma guard_in_bounds:
  assumes "is_supported_length len" and "\<not> beyond REG_BYTES off len" and "unat off < 2 ^ 64 - 8"
  shows "unat off + unat len \<le> REG_BYTES"
  using assms beyond_iff_no_wrap[of len off REG_BYTES] by simp

lemma read_defined:
  assumes "sha_wf (m_sha256 s)" and "unat off < 2 ^ 64 - 8" and "case data of None \<Rightarrow> True | Some buf \<Rightarrow> unat len \<le> length buf"
  shows "\<exists>st data' s'. cc3xx_read cfg off data len debug s = Some (st, data', s') \<and> sha_wf (m_sha256 s')"
proof (cases data)
  case (Some buf)
  show ?thesis
  proof (cases "is_supported_length len \<and> \<not> beyond REG_BYTES off len")
    case True
    with guard_in_bounds assms(2) have b: "unat off + unat len \<le> REG_BYTES" by blast
    then have "regs_read REG_BYTES off (unat len) s = Some (mem_read (m_regs s) (unat off) (unat len))" by (simp add: regs_read_def)
    with True Some assms(1,3) show ?thesis by (auto simp: cc3xx_read_def Let_def)
  qed (use Some assms in \<open>auto simp: cc3xx_read_def\<close>)
qed (use assms in \<open>simp add: cc3xx_read_def\<close>)

lemma write_defined:
  assumes "sha_wf (m_sha256 s)" and "unat off < 2 ^ 64 - 8" and "case data of None \<Rightarrow> True | Some buf \<Rightarrow> unat len \<le> length buf"
  shows "\<exists>st s' m'. cc3xx_write cfg mem off data len (s, m) = Some (st, s', m') \<and> sha_wf (m_sha256 s')"
proof (cases data)
  case (Some buf)
  show ?thesis
  proof (cases "is_supported_length len \<and> \<not> beyond REG_BYTES off len")
    case True
    with guard_in_bounds assms(2) have b: "unat off + unat len \<le> REG_BYTES" by blast
    obtain s1 m1 where w: "cc3xx_write32 mem (unat off) (le_word (take 4 buf)) (s, m) = Some (s1, m1)" "sha_wf (m_sha256 s1)"
      using wf_write32[OF assms(1), of mem "unat off" "le_word (take 4 buf)" m] by blast
    show ?thesis
    proof (cases "len = 4 \<and> off mod 4 = 0")
      case word: True
      with True Some assms(3) b w show ?thesis by (simp add: cc3xx_write_def)
    next
      case False
      have "min (length buf) (unat len) = unat len" using assms(3) Some by simp
      then show ?thesis using True Some assms(1,3) False b by (auto simp: cc3xx_write_def arr_write_def)
    qed
  qed (use Some assms in \<open>auto simp: cc3xx_write_def\<close>)
qed (use assms in \<open>simp add: cc3xx_write_def\<close>)


lemma sha_wf_init: "sha_wf (m_sha256 cc3xx_init)"
  by (simp add: cc3xx_init_def cc3xx_reset_registers_def)


subsection \<open>DMA over a memory\<close>

text \<open>
  What the core's transfers rely on when a memory lies behind the interface: reads deliver what it holds and leave it, writes change
  it. \<open>peek\<close> shows its contents. Within, transfers of any length are those of the whole range.
\<close>

locale cc_memory =
  fixes mi :: "'m memory_if" and peek :: "'m \<Rightarrow> ram"
  assumes read_bytes: "n < 2 ^ 32 \<Longrightarrow> mi_read mi a n m = (r, m') \<Longrightarrow> r = Some (ram_read (peek m) a n) \<and> peek m' = peek m"
    and write_bytes: "length bs < 2 ^ 32 \<Longrightarrow> mi_write mi a bs m = (ok, m') \<Longrightarrow> ok \<and> peek m' = ram_write (peek m) a bs"
begin

lemma chunk_read:
  assumes "core_mem_read (Some mi) a (min n DMA_CHUNK_BYTES) m = (r, m')"
  shows "r = Some (ram_read (peek m) a (min n DMA_CHUNK_BYTES)) \<and> peek m' = peek m"
  using assms by (intro read_bytes) (simp_all add: core_mem_read_def)

lemma chunk_write:
  assumes "core_mem_write (Some mi) a bs m = (ok, m')" and "length bs \<le> DMA_CHUNK_BYTES"
  shows "ok \<and> peek m' = ram_write (peek m) a bs"
  using assms by (intro write_bytes) (simp_all add: core_mem_write_def)

lemma ram_read_min: "ram_read p a (min n k) @ ram_read p (a + of_nat (min n k)) (n - min n k) = ram_read p a n"
  using ram_read_add[of p a "min n k" "n - min n k"] by simp

lemma cmac_loop_reads:
  "\<exists>m'. cmac_dma_loop (Some mi) a n data m = (data @ ram_read (peek m) a n, m') \<and> peek m' = peek m"
proof (induction n arbitrary: a data m rule: less_induct)
  case (less n)
  show ?case
  proof (cases "n = 0")
    case False
    obtain r m1 where r: "core_mem_read (Some mi) a (min n DMA_CHUNK_BYTES) m = (r, m1)" by fastforce
    note c = chunk_read[OF r]
    have "n - min n DMA_CHUNK_BYTES < n" using False by simp
    from less.IH[OF this, of "a + of_nat (min n DMA_CHUNK_BYTES)" "data @ ram_read (peek m) a (min n DMA_CHUNK_BYTES)" m1]
    show ?thesis using False r c ram_read_min[of "peek m" a n DMA_CHUNK_BYTES] by (subst cmac_dma_loop.simps) (simp add: Let_def)
  qed (simp add: cmac_dma_loop.simps ram_read_def)
qed

lemma hash_loop_absorbs:
  "absorbed k h msg s \<Longrightarrow> \<exists>s' m'. hash_dma_loop (Some mi) a n (s, m) = Some (True, s', m') \<and>
     absorbed k h (msg @ ram_read (peek m) a n) s' \<and> sha_only s s' \<and> peek m' = peek m"
proof (induction n arbitrary: a msg s m rule: less_induct)
  case (less n)
  show ?case
  proof (cases "n = 0")
    case False
    let ?c = "min n DMA_CHUNK_BYTES"
    obtain r m1 where r: "core_mem_read (Some mi) a ?c m = (r, m1)" by fastforce
    note c = chunk_read[OF r]
    obtain t where t: "sha256_update_impl (ram_read (peek m) a ?c) s = Some t" "absorbed k h (msg @ ram_read (peek m) a ?c) t"
      using update_absorbed[OF less.prems] by blast
    have "n - ?c < n" using False by simp
    from less.IH[OF this t(2), of "a + of_nat ?c" m1] obtain s' m' where
      "hash_dma_loop (Some mi) (a + of_nat ?c) (n - ?c) (t, m1) = Some (True, s', m')"
      "absorbed k h (msg @ ram_read (peek m) a n) s'" "sha_only t s'" "peek m' = peek m"
      using c by (auto simp: ram_read_min)
    then show ?thesis using False r c t sha_only_update[OF t(1)] sha_only_trans
      by (subst hash_dma_loop.simps) (auto simp: Let_def)
  qed (use less.prems in \<open>simp add: hash_dma_loop.simps ram_read_def\<close>)
qed

end

lemma memory_bus_interface: "memory_bus bus peek \<Longrightarrow> cc_memory (systemc_memory_if (Some bus)) peek"
proof
  assume mb: "memory_bus bus peek"
  fix n a r m m' assume "n < 2 ^ 32" and e: "mi_read (systemc_memory_if (Some bus)) a n m = (r, m')"
  let ?t = "\<lparr>p_command = TLM_READ_COMMAND, p_address = a, p_data = Some (replicate n 0), p_len = of_nat n,
      p_response = TLM_INCOMPLETE_RESPONSE, p_dmi_allowed = False\<rparr>"
  obtain t' where b: "bus ?t m = (t', m')" using e
    by (auto simp: systemc_memory_if_def memory_access_def Let_def split: prod.splits)
  have "unat (of_nat n :: u32) = n" using \<open>n < 2 ^ 32\<close> by (simp add: unat_of_nat_small)
  with memory_bus_read[OF mb _ _ _ b, of "replicate n 0"] e b show "r = Some (ram_read (peek m) a n) \<and> peek m' = peek m"
    by (simp add: systemc_memory_if_def memory_access_def Let_def is_response_ok_def)
next
  assume mb: "memory_bus bus peek"
  fix bs a ok m m' assume "length bs < 2 ^ 32" and e: "mi_write (systemc_memory_if (Some bus)) a bs m = (ok, m')"
  let ?t = "\<lparr>p_command = TLM_WRITE_COMMAND, p_address = a, p_data = Some bs, p_len = of_nat (length bs),
      p_response = TLM_INCOMPLETE_RESPONSE, p_dmi_allowed = False\<rparr>"
  obtain t' where b: "bus ?t m = (t', m')" using e
    by (auto simp: systemc_memory_if_def memory_access_def Let_def split: prod.splits)
  have "unat (of_nat (length bs) :: u32) = length bs" using \<open>length bs < 2 ^ 32\<close> by (simp add: unat_of_nat_small)
  with memory_bus_write[OF mb _ _ _ b, of bs] e b show "ok \<and> peek m' = ram_write (peek m) a bs"
    by (simp add: systemc_memory_if_def memory_access_def Let_def is_response_ok_def)
qed

interpretation ram_cell: cc_memory "systemc_memory_if (Some ram_bus)" "\<lambda>m. m"
  by (rule memory_bus_interface[OF memory_bus_ram])

end
