(* ===== verification/Cc3xx_Dma.thy ===== *)
theory Cc3xx_Dma
  imports Cc3xx
begin

text \<open>
  The crypto cell as its driver uses it: messages, ciphertext and authenticated data fetched from memory by writes to the DMA
  registers (\<^verbatim>\<open>src/systemc-components/cc3xx/include/cc3xx_core.h\<close>).
\<close>

unbundle bit_operations_syntax

subsection \<open>Register stores and the engines\<close>

lemma store_all_Nil [simp]: "store_all [] s = s"
  by (simp add: store_all_def)

lemma store_all_Cons [simp]: "store_all ((off, v) # rvs) s = store_all rvs (store32 off v s)"
  by (simp add: store_all_def)

lemma core_store32 [simp]:
  "m_engine (store32 off v s) = m_engine s" "m_cmac_data (store32 off v s) = m_cmac_data s"
  "m_cmac_active (store32 off v s) = m_cmac_active s"
  by (simp_all add: store32_def)

lemma core_load32 [simp]:
  "load32 (s\<lparr>m_engine := e\<rparr>) off = load32 s off" "load32 (s\<lparr>m_cmac_data := d\<rparr>) off = load32 s off"
  "load32 (s\<lparr>m_cmac_active := b\<rparr>) off = load32 s off"
  by (simp_all add: load32_def)

lemma absorbed_store32 [simp]:
  "off + 4 \<le> HASH_H \<or> HASH_H + 32 \<le> off \<and> off + 4 \<le> HASH_CUR_LEN0 \<or> HASH_CUR_LEN0 + 8 \<le> off \<Longrightarrow>
   absorbed k h msg (store32 off v s) = absorbed k h msg s"
proof -
  assume off: "off + 4 \<le> HASH_H \<or> HASH_H + 32 \<le> off \<and> off + 4 \<le> HASH_CUR_LEN0 \<or> HASH_CUR_LEN0 + 8 \<le> off"
  have "load32 (store32 off v s) (HASH_H + i * 4) = load32 s (HASH_H + i * 4)" if "i < 8" for i
    using off that by (intro load32_store32_disjoint) linarith
  then have "h_mirrored (store32 off v s) = h_mirrored s" by (simp add: h_mirrored_def)
  moreover have "hash_current_len (store32 off v s) = hash_current_len s" using off by (auto simp: hash_current_len_def)
  ultimately show ?thesis by (simp add: absorbed_def holding_def)
qed

lemma sha_only_core:
  assumes "sha_only s t"
  shows "m_engine t = m_engine s" "m_cmac_active t = m_cmac_active s" "m_cmac_data t = m_cmac_data s"
  using assms by (cases s, cases t, simp add: sha_only_def cc3xx.defs cc3xx_pka.defs)+

subsection \<open>Hashing memory\<close>

text \<open>The driver's way to hand over data: the source and the length of each segment.\<close>

fun dma_feed :: "'m memory_if option \<Rightarrow> (u32 \<times> u32) list \<Rightarrow> 'a cc3xx_scheme \<times> 'm \<Rightarrow> ('a cc3xx_scheme \<times> 'm) ub" where
  "dma_feed mem [] sm = Some sm"
| "dma_feed mem ((src, len) # segs) sm =
     do { sm \<leftarrow> cc3xx_write32 mem DIN_SRC_LLI_WORD0 src sm; sm \<leftarrow> cc3xx_write32 mem DIN_SRC_LLI_WORD1 len sm; dma_feed mem segs sm }"

definition segment_bytes :: "ram \<Rightarrow> (u32 \<times> u32) list \<Rightarrow> u8 list" where
  "segment_bytes p segs = concat (map (\<lambda>(src, len). ram_read p (ucast src) (unat len)) segs)"

lemma write_source: "cc3xx_write32 mem DIN_SRC_LLI_WORD0 v (s, m) = Some (store32 DIN_SRC_LLI_WORD0 v s, m)"
  by (simp add: cc3xx_write32_def is_hash_h_def)

lemma write_length: "cc3xx_write32 mem DIN_SRC_LLI_WORD1 v (s, m) = complete_dma_transfer mem DIN_SRC_LLI_WORD1 (store32 DIN_SRC_LLI_WORD1 v s, m)"
  by (simp add: cc3xx_write32_def)

lemma sha_only_reset: "sha_only x (sha256_reset x)"
proof -
  have "x\<lparr>m_sha256 := c\<rparr> = on_sha (\<lambda>_. c) x" for c by (simp add: on_sha_def)
  then show ?thesis by (simp add: sha256_reset_def Let_def)
qed

definition hashing :: "u8 list \<Rightarrow> 'a cc3xx_scheme \<Rightarrow> bool" where
  "hashing msg s \<longleftrightarrow> absorbed 0 sha256_init msg s \<and> m_engine s = ENGINE_HASH \<and> load32 s AUTO_HW_PADDING AND 0x1 = 0"

context cc_memory
begin

lemma hash_segment:
  assumes "hashing msg s"
  shows "\<exists>s' m'. cc3xx_write32 (Some mi) DIN_SRC_LLI_WORD1 len (store32 DIN_SRC_LLI_WORD0 src s, m) = Some (s', m') \<and>
    hashing (msg @ ram_read (peek m) (ucast src) (unat len)) s' \<and> peek m' = peek m"
proof -
  define t where "t = store32 DIN_SRC_LLI_WORD1 len (store32 DIN_SRC_LLI_WORD0 src s)"
  have t: "absorbed 0 sha256_init msg t" "m_engine t = ENGINE_HASH" "load32 t AUTO_HW_PADDING AND 0x1 = 0"
    "load32 t DIN_SRC_LLI_WORD0 = src" "load32 t DIN_SRC_LLI_WORD1 = len"
    using assms by (simp_all add: t_def hashing_def)
  obtain u m1 where u: "hash_dma_loop (Some mi) (ucast src) (unat len) (t, m) = Some (True, u, m1)"
    "absorbed 0 sha256_init (msg @ ram_read (peek m) (ucast src) (unat len)) u" "sha_only t u" "peek m1 = peek m"
    using hash_loop_absorbs[OF t(1)] by blast
  have ld: "load32 u AUTO_HW_PADDING = load32 t AUTO_HW_PADDING" using u(3) by (rule sha_only_load) simp
  have "hash_dma_input (Some mi) DIN_SRC_LLI_WORD1 (t, m) = Some (u, m1)"
    using t u(1) ld by (simp add: hash_dma_input_def absorbed_def)
  moreover have "m_engine u = ENGINE_HASH" using sha_only_core(1)[OF u(3)] t(2) by simp
  ultimately show ?thesis using u(2,4) t(3) ld
    by (simp add: write_length t_def[symmetric] complete_dma_transfer_def Let_def aes_dma_output_def cmac_dma_input_def hashing_def)
qed

lemma hash_feed:
  "hashing msg s \<Longrightarrow> \<exists>s' m'. dma_feed (Some mi) segs (s, m) = Some (s', m') \<and> hashing (msg @ segment_bytes (peek m) segs) s' \<and> peek m' = peek m"
proof (induction segs arbitrary: msg s m)
  case (Cons seg segs)
  obtain src len where seg: "seg = (src, len)" by fastforce
  obtain s1 m1 where s1: "cc3xx_write32 (Some mi) DIN_SRC_LLI_WORD1 len (store32 DIN_SRC_LLI_WORD0 src s, m) = Some (s1, m1)"
    "hashing (msg @ ram_read (peek m) (ucast src) (unat len)) s1" "peek m1 = peek m"
    using hash_segment[OF Cons.prems] by blast
  from Cons.IH[OF s1(2), of m1] show ?case using s1 by (simp add: seg write_source segment_bytes_def)
qed (simp add: segment_bytes_def)

lemma hash_memory:
  assumes "load32 s AUTO_HW_PADDING AND 0x1 = 0"
  shows "\<exists>s' m'. do { sm \<leftarrow> cc3xx_write32 (Some mi) CRYPTO_CTL ENGINE_HASH (s, m); sm \<leftarrow> cc3xx_write32 (Some mi) HASH_CONTROL 0x2 sm;
      sm \<leftarrow> dma_feed (Some mi) segs sm; cc3xx_write32 (Some mi) HASH_PAD_CFG 0x4 sm } = Some (s', m') \<and>
    hash_registers s' = sha256 (segment_bytes (peek m) segs) \<and>
    hash_current_len s' = of_nat (length (segment_bytes (peek m) segs)) \<and> peek m' = peek m"
proof -
  define t where "t = sha256_reset (store32 HASH_CONTROL 2 (store_all [(CRYPTO_BUSY, 0), (HASH_BUSY, 0), (HOST_CC_IS_IDLE, 1)]
      ((store32 CRYPTO_CTL ENGINE_HASH s)\<lparr>m_engine := ENGINE_HASH\<rparr>)))"
  have e: "(7 :: u32) AND 0x1f = 7" by simp
  have w1: "cc3xx_write32 (Some mi) CRYPTO_CTL ENGINE_HASH (s, m) =
      Some (store_all [(CRYPTO_BUSY, 0), (HASH_BUSY, 0), (HOST_CC_IS_IDLE, 1)] ((store32 CRYPTO_CTL ENGINE_HASH s)\<lparr>m_engine := ENGINE_HASH\<rparr>), m)"
    by (simp add: cc3xx_write32_def)
  have w2: "cc3xx_write32 (Some mi) HASH_CONTROL 2 (x, m) = Some (sha256_reset (store32 HASH_CONTROL 2 x), m)" for x
    by (simp add: cc3xx_write32_def update_hash_after_write_def is_hash_h_def Let_def)
  have so: "sha_only x (sha256_reset x)" for x :: "'b cc3xx_scheme"
    by (rule sha_only_reset)
  have "load32 t AUTO_HW_PADDING = load32 s AUTO_HW_PADDING" unfolding t_def by (subst sha_only_load[OF so]) simp_all
  moreover have "m_engine t = ENGINE_HASH" unfolding t_def by (subst sha_only_core(1)[OF so]) simp
  moreover have "absorbed 0 sha256_init [] t" unfolding t_def by (rule absorbed_reset)
  ultimately have "hashing [] t" using assms by (simp add: hashing_def)
  then obtain s1 m1 where s1: "dma_feed (Some mi) segs (t, m) = Some (s1, m1)" "hashing (segment_bytes (peek m) segs) s1" "peek m1 = peek m"
    using hash_feed[of "[]" t segs m] by auto
  have "absorbed 0 sha256_init (segment_bytes (peek m) segs) (store32 HASH_PAD_CFG 4 s1)" using s1(2) by (simp add: hashing_def)
  from finish_absorbed[OF this] obtain s2 where s2: "sha256_finish (store32 HASH_PAD_CFG 4 s1) = Some s2" "h_mirrored s2"
    "sha_h (m_sha256 s2) = sha256 (segment_bytes (peek m) segs)" "hash_current_len s2 = of_nat (length (segment_bytes (peek m) segs))"
    by (auto simp: sha256_def)
  have w3: "cc3xx_write32 (Some mi) HASH_PAD_CFG 4 (s1, m1) = Some (s2, m1)"
    using s1(2) s2(1) by (simp add: cc3xx_write32_def update_hash_after_write_def is_hash_h_def Let_def hashing_def absorbed_def)
  have "hash_registers s2 = sha256 (segment_bytes (peek m) segs)" using s2(2,3) by (simp add: mirrored_registers sha256_def length_absorb)
  then show ?thesis using s1(3) s2(4) unfolding w1 bind.bind_lunit w2 t_def[symmetric] s1(1) w3 by simp
qed

end

text \<open>
  C2. The hash engine over DMA: from any state, selecting the engine, starting SHA-256, feeding any segments of memory by writes to the source registers and asking for
  padding leaves the digest of the concatenated segments in the hash registers, and the memory as it was.
\<close>

theorem cc3xx_hash_memory:
  assumes "memory_bus bus peek" and "load32 s AUTO_HW_PADDING AND 0x1 = 0"
  defines "mem \<equiv> Some (systemc_memory_if (Some bus))"
  shows "\<exists>s' m'. do { sm \<leftarrow> cc3xx_write32 mem CRYPTO_CTL ENGINE_HASH (s, m); sm \<leftarrow> cc3xx_write32 mem HASH_CONTROL 0x2 sm;
      sm \<leftarrow> dma_feed mem segs sm; cc3xx_write32 mem HASH_PAD_CFG 0x4 sm } = Some (s', m') \<and>
    hash_registers s' = sha256 (segment_bytes (peek m) segs) \<and>
    hash_current_len s' = of_nat (length (segment_bytes (peek m) segs)) \<and> peek m' = peek m"
  unfolding mem_def by (rule cc_memory.hash_memory[OF memory_bus_interface[OF assms(1)] assms(2)])

lemma example_bytes: "segment_bytes (\<lambda>a. ucast a) [(0x100, 3), (0x200, 2)] = [0, 1, 2, 0, 1]"
  by code_simp

lemma cc3xx_hash_memory_witness:
  "\<exists>s' m'. do { sm \<leftarrow> cc3xx_write32 (Some (systemc_memory_if (Some ram_bus))) CRYPTO_CTL ENGINE_HASH (cc3xx_init, \<lambda>a. ucast a);
      sm \<leftarrow> cc3xx_write32 (Some (systemc_memory_if (Some ram_bus))) HASH_CONTROL 0x2 sm;
      sm \<leftarrow> dma_feed (Some (systemc_memory_if (Some ram_bus))) [(0x100, 3), (0x200, 2)] sm;
      cc3xx_write32 (Some (systemc_memory_if (Some ram_bus))) HASH_PAD_CFG 0x4 sm } = Some (s', m') \<and>
    hash_registers s' = sha256 [0, 1, 2, 0, 1]"
proof -
  have "load32 cc3xx_init AUTO_HW_PADDING AND 0x1 = 0"
    by (simp add: cc3xx_init_def cc3xx_reset_registers_def cc3xx_reset_values_def pka_invalidate_modulus_cache_def load32_cleared)
  from cc3xx_hash_memory[OF memory_bus_ram this, of "\<lambda>a. ucast a" "[(0x100, 3), (0x200, 2)]"]
  show ?thesis unfolding example_bytes by blast
qed

subsection \<open>Authenticating memory\<close>

lemma aes_store32 [simp]:
  "off + 4 \<le> AES_KEY_0 \<or> AES_CONTROL + 4 \<le> off \<or> AES_KEY_0 + 32 \<le> off \<and> off + 4 \<le> AES_CONTROL \<Longrightarrow> aes_key (store32 off v s) = aes_key s"
  "off + 4 \<le> AES_CONTROL \<or> AES_CONTROL + 4 \<le> off \<Longrightarrow> aes_mode (store32 off v s) = aes_mode s"
proof -
  assume off: "off + 4 \<le> AES_KEY_0 \<or> AES_CONTROL + 4 \<le> off \<or> AES_KEY_0 + 32 \<le> off \<and> off + 4 \<le> AES_CONTROL"
  have "aes_key_size_bytes s \<le> 32" by (simp add: aes_key_size_bytes_def Let_def)
  moreover have "aes_key_size_bytes (store32 off v s) = aes_key_size_bytes s" using off by (auto simp: aes_key_size_bytes_def Let_def)
  ultimately show "aes_key (store32 off v s) = aes_key s" unfolding aes_key_def m_regs_store32
    using off by (simp, intro mem_read_write_disjoint) auto
qed (auto simp: aes_mode_def)

lemma aes_fields [simp]:
  "aes_key (s\<lparr>m_engine := e\<rparr>) = aes_key s" "aes_key (s\<lparr>m_cmac_data := d\<rparr>) = aes_key s" "aes_key (s\<lparr>m_cmac_active := b\<rparr>) = aes_key s"
  "aes_mode (s\<lparr>m_engine := e\<rparr>) = aes_mode s" "aes_mode (s\<lparr>m_cmac_data := d\<rparr>) = aes_mode s" "aes_mode (s\<lparr>m_cmac_active := b\<rparr>) = aes_mode s"
  by (simp_all add: aes_key_def aes_key_size_bytes_def aes_mode_def)

lemma length_aes_key: "length (aes_key s) \<in> {16, 24, 32}"
  by (simp add: aes_key_def aes_key_size_bytes_def Let_def)

lemma cmac_loop_length: "cmac_loop key f ns st = Some t \<Longrightarrow> length st = 16 \<Longrightarrow> length t = 16"
  by (induction key f ns st rule: cmac_loop.induct) (auto split: option.splits dest: length_encrypt)

lemma cmac_loop_defined: "length key \<in> {16, 24, 32} \<Longrightarrow> \<exists>t. cmac_loop key f ns st = Some t"
proof (induction ns arbitrary: st)
  case (Cons n ns)
  obtain y where "aes_encrypt_block key (aes_xor_block (f n) st) = Some y" using encrypt_defined Cons.prems by blast
  with Cons show ?case by simp
qed simp

lemma cmac_defined: "length key \<in> {16, 24, 32} \<Longrightarrow> \<exists>tag. aes_cmac key data = Some tag \<and> length tag = 16"
proof -
  assume k: "length key \<in> {16, 24, 32}"
  obtain l where l: "aes_encrypt_block key (replicate 16 0) = Some l" using encrypt_defined k by blast
  let ?k1 = "cmac_subkey l" and ?n = "if data = [] then 1 else (length data + 15) div 16"
  obtain t where "cmac_loop key (cmac_block ?k1 (cmac_subkey ?k1) data ?n) [0..<?n] (replicate 16 0) = Some t"
    using cmac_loop_defined[OF k] by blast
  moreover from this have "length t = 16" by (rule cmac_loop_length) simp
  ultimately show ?thesis using l by (simp add: aes_cmac_def Let_def)
qed

definition macing :: "u8 list \<Rightarrow> u8 list \<Rightarrow> 'a cc3xx_scheme \<Rightarrow> bool" where
  "macing key data s \<longleftrightarrow> m_cmac_active s \<and> m_engine s = ENGINE_AES \<and> aes_mode s = 0x07 \<and> m_cmac_data s = data \<and> aes_key s = key"

context cc_memory
begin

lemma mac_segment:
  assumes "macing key data s"
  shows "\<exists>s' m'. cc3xx_write32 (Some mi) DIN_SRC_LLI_WORD1 len (store32 DIN_SRC_LLI_WORD0 src s, m) = Some (s', m') \<and>
    macing key (data @ ram_read (peek m) (ucast src) (unat len)) s' \<and> peek m' = peek m"
proof -
  define t where "t = store32 DIN_SRC_LLI_WORD1 len (store32 DIN_SRC_LLI_WORD0 src s)"
  have t: "macing key data t" "load32 t DIN_SRC_LLI_WORD0 = src" "load32 t DIN_SRC_LLI_WORD1 = len"
    using assms by (simp_all add: t_def macing_def)
  obtain m1 where "cmac_dma_loop (Some mi) (ucast src) (unat len) data m = (data @ ram_read (peek m) (ucast src) (unat len), m1)"
    "peek m1 = peek m" using cmac_loop_reads by blast
  then show ?thesis using t
    by (simp add: write_length t_def[symmetric] complete_dma_transfer_def hash_dma_input_def Let_def aes_dma_output_def cmac_dma_input_def macing_def)
qed

lemma mac_feed:
  "macing key data s \<Longrightarrow> \<exists>s' m'. dma_feed (Some mi) segs (s, m) = Some (s', m') \<and> macing key (data @ segment_bytes (peek m) segs) s' \<and> peek m' = peek m"
proof (induction segs arbitrary: data s m)
  case (Cons seg segs)
  obtain src len where seg: "seg = (src, len)" by fastforce
  obtain s1 m1 where s1: "cc3xx_write32 (Some mi) DIN_SRC_LLI_WORD1 len (store32 DIN_SRC_LLI_WORD0 src s, m) = Some (s1, m1)"
    "macing key (data @ ram_read (peek m) (ucast src) (unat len)) s1" "peek m1 = peek m"
    using mac_segment[OF Cons.prems] by blast
  from Cons.IH[OF s1(2), of m1] show ?case using s1 by (simp add: seg write_source segment_bytes_def)
qed (simp add: segment_bytes_def)

lemma mac_memory:
  assumes "aes_mode s = 0x07"
  shows "\<exists>s' m'. do { sm \<leftarrow> cc3xx_write32 (Some mi) CRYPTO_CTL ENGINE_AES (s, m); sm \<leftarrow> cc3xx_write32 (Some mi) AES_CMAC_INIT 0x1 sm;
      sm \<leftarrow> dma_feed (Some mi) segs sm; cc3xx_write32 (Some mi) AES_REMAINING_BYTES 0 sm } = Some (s', m') \<and>
    aes_cmac (aes_key s) (segment_bytes (peek m) segs) = Some (mem_read (m_regs s') AES_IV_0 16) \<and>
    \<not> m_cmac_active s' \<and> peek m' = peek m"
proof -
  define t where "t = cmac_reset (store32 AES_CMAC_INIT 1 (store_all [(CRYPTO_BUSY, 0), (HASH_BUSY, 0), (HOST_CC_IS_IDLE, 1)]
      ((store32 CRYPTO_CTL ENGINE_AES s)\<lparr>m_engine := ENGINE_AES\<rparr>)))"
  have w1: "cc3xx_write32 (Some mi) CRYPTO_CTL ENGINE_AES (s, m) =
      Some (store_all [(CRYPTO_BUSY, 0), (HASH_BUSY, 0), (HOST_CC_IS_IDLE, 1)] ((store32 CRYPTO_CTL ENGINE_AES s)\<lparr>m_engine := ENGINE_AES\<rparr>), m)"
    by (simp add: cc3xx_write32_def)
  have w2: "cc3xx_write32 (Some mi) AES_CMAC_INIT 1 (x, m) = Some (cmac_reset (store32 AES_CMAC_INIT 1 x), m)" for x
    by (simp add: cc3xx_write32_def is_hash_h_def Let_def)
  have "macing (aes_key s) [] t" using assms by (simp add: t_def macing_def cmac_reset_def)
  then obtain s1 m1 where s1: "dma_feed (Some mi) segs (t, m) = Some (s1, m1)" "macing (aes_key s) (segment_bytes (peek m) segs) s1" "peek m1 = peek m"
    using mac_feed[of "aes_key s" "[]" t segs m] by auto
  obtain tag where tag: "aes_cmac (aes_key s) (segment_bytes (peek m) segs) = Some tag" "length tag = 16" using cmac_defined length_aes_key by blast
  define u where "u = (store32 AES_REMAINING_BYTES 0 s1)"
  have w3: "cc3xx_write32 (Some mi) AES_REMAINING_BYTES 0 (s1, m1) =
      Some ((store32 AES_BUSY 0 (u\<lparr>m_regs := mem_write (m_regs u) AES_IV_0 tag\<rparr>))\<lparr>m_cmac_active := False\<rparr>, m1)"
    using s1(2) tag(1) by (simp add: cc3xx_write32_def is_hash_h_def Let_def cmac_finish_def macing_def u_def)
  have "mem_read (mem_write (mem_write (m_regs u) AES_IV_0 tag) AES_BUSY (le_bytes 4 (0 :: u32))) AES_IV_0 16 = tag"
    using tag(2) by simp
  then show ?thesis using s1(3) tag(1) unfolding w1 bind.bind_lunit w2 t_def[symmetric] s1(1) w3 by (simp add: m_regs_store32)
qed

end

text \<open>
  C12. The CMAC engine over DMA: started, fed any segments of memory and told that no bytes remain, it leaves the tag of the concatenated segments under the key registers
  in the IV registers.
\<close>

theorem cc3xx_cmac_memory:
  assumes "memory_bus bus peek" and "aes_mode s = 0x07"
  defines "mem \<equiv> Some (systemc_memory_if (Some bus))"
  shows "\<exists>s' m'. do { sm \<leftarrow> cc3xx_write32 mem CRYPTO_CTL ENGINE_AES (s, m); sm \<leftarrow> cc3xx_write32 mem AES_CMAC_INIT 0x1 sm;
      sm \<leftarrow> dma_feed mem segs sm; cc3xx_write32 mem AES_REMAINING_BYTES 0 sm } = Some (s', m') \<and>
    aes_cmac (aes_key s) (segment_bytes (peek m) segs) = Some (mem_read (m_regs s') AES_IV_0 16) \<and>
    \<not> m_cmac_active s' \<and> peek m' = peek m"
  unfolding mem_def by (rule cc_memory.mac_memory[OF memory_bus_interface[OF assms(1)] assms(2)])

lemma cc3xx_cmac_memory_witness:
  "\<exists>s' m'. do { sm \<leftarrow> cc3xx_write32 (Some (systemc_memory_if (Some ram_bus))) CRYPTO_CTL ENGINE_AES (store32 AES_CONTROL 0x1c cc3xx_init, \<lambda>a. ucast a);
      sm \<leftarrow> cc3xx_write32 (Some (systemc_memory_if (Some ram_bus))) AES_CMAC_INIT 0x1 sm;
      sm \<leftarrow> dma_feed (Some (systemc_memory_if (Some ram_bus))) [(0x100, 3), (0x200, 2)] sm;
      cc3xx_write32 (Some (systemc_memory_if (Some ram_bus))) AES_REMAINING_BYTES 0 sm } = Some (s', m') \<and>
    aes_cmac (aes_key (store32 AES_CONTROL 0x1c cc3xx_init)) [0, 1, 2, 0, 1] = Some (mem_read (m_regs s') AES_IV_0 16)"
proof -
  have "aes_mode (store32 AES_CONTROL 0x1c cc3xx_init) = 0x07" by (simp add: aes_mode_def)
  from cc3xx_cmac_memory[OF memory_bus_ram this, of "\<lambda>a. ucast a" "[(0x100, 3), (0x200, 2)]"]
  show ?thesis unfolding example_bytes by blast
qed

subsection \<open>Encrypting memory in counter mode\<close>

lemma blocks_step: "0 < (l :: nat) \<Longrightarrow> (l + 15) div 16 = Suc ((l - min 16 l + 15) div 16)"
proof (cases "l \<le> 16")
  case True
  assume "0 < l"
  then have "l + 15 = 16 + (l - 1)" by simp
  then have "(l + 15) div 16 = Suc ((l - 1) div 16)" by simp
  with True \<open>0 < l\<close> show ?thesis by simp
next
  case False
  then have "l + 15 = 16 + (l - 16 + 15)" by simp
  then have "(l + 15) div 16 = Suc ((l - 16 + 15) div 16)" by simp
  with False show ?thesis by simp
qed

lemma ctr_chunk_buffer:
  "ctr_chunk key counter xs = map_option (\<lambda>ys. (ys, (aes_increment_counter ^^ ((length xs + 15) div 16)) counter)) (ctr_loop key counter 0 xs)"
proof (induction key counter xs rule: ctr_chunk.induct)
  case (1 key counter xs)
  show ?case
  proof (cases "xs = []")
    case False
    show ?thesis
    proof (cases "aes_encrypt_block key counter")
      case None
      with False show ?thesis by (simp add: ctr_chunk.simps ctr_loop.simps)
    next
      case (Some stream)
      let ?n = "min 16 (length xs)"
      have "0 < length xs" using False by simp
      then have "(length xs + 15) div 16 = Suc ((length (drop ?n xs) + 15) div 16)" using blocks_step by simp
      then have k: "(aes_increment_counter ^^ ((length xs + 15) div 16)) counter =
          (aes_increment_counter ^^ ((length (drop ?n xs) + 15) div 16)) (aes_increment_counter counter)"
        by (simp only: funpow_Suc_right o_apply)
      show ?thesis using 1[OF False Some refl refl] False Some unfolding k
        by (subst ctr_chunk.simps, subst ctr_loop.simps) (simp add: Let_def option.map_comp o_def)
    qed
  qed (simp add: ctr_chunk.simps ctr_loop.simps)
qed

text \<open>No byte is overwritten before it is read: in place, or the destination not ahead within the source.\<close>

definition chunks_safe :: "u64 \<Rightarrow> u64 \<Rightarrow> nat \<Rightarrow> bool" where
  "chunks_safe source dest n \<longleftrightarrow> (\<forall>i<n. \<forall>j<i. source + of_nat i \<noteq> dest + of_nat j)"

lemma chunks_safe_rest: "chunks_safe a b n \<Longrightarrow> chunks_safe (a + of_nat k) (b + of_nat k) (n - k)"
  unfolding chunks_safe_def
proof (intro allI impI)
  fix i j assume "\<forall>i<n. \<forall>j<i. a + of_nat i \<noteq> b + of_nat j" and "i < n - k" "j < i"
  then show "a + of_nat k + of_nat i \<noteq> b + of_nat k + of_nat j"
    by (auto simp: algebra_simps dest!: spec[of _ "k + i"])
qed

lemma chunks_safe_read:
  assumes "chunks_safe a b n" and "k \<le> n" and "length bs = k" and "n < 2 ^ 64"
  shows "ram_read (ram_write p b bs) (a + of_nat k) (n - k) = ram_read p (a + of_nat k) (n - k)"
proof (rule ram_read_write_other)
  fix i assume i: "i < n - k"
  show "length bs \<le> unat (a + of_nat k + of_nat i - b)"
  proof (rule ccontr)
    assume "\<not> length bs \<le> unat (a + of_nat k + of_nat i - b)"
    then have j: "unat (a + of_nat k + of_nat i - b) < k" using assms(3) by simp
    have "a + of_nat (k + i) = b + of_nat (unat (a + of_nat k + of_nat i - b))" by (simp add: algebra_simps)
    moreover have "unat (a + of_nat k + of_nat i - b) < k + i" "k + i < n" using i j by simp_all
    ultimately show False using assms(1) unfolding chunks_safe_def by blast
  qed
qed

context cc_memory
begin

lemma ctr_dma_writes:
  assumes "length key \<in> {16, 24, 32}"
  shows "chunks_safe a b n \<Longrightarrow> n < 2 ^ 64 \<Longrightarrow>
   \<exists>out m'. ctr_loop key counter 0 (ram_read (peek m) a n) = Some out \<and>
     ctr_dma_loop (Some mi) key a b n counter m = (Some ((aes_increment_counter ^^ ((n + 15) div 16)) counter), m') \<and>
     peek m' = ram_write (peek m) b out"
proof (induction n arbitrary: a b counter m rule: less_induct)
  case (less n)
  show ?case
  proof (cases "n = 0")
    case False
    let ?c = "min n DMA_CHUNK_BYTES"
    let ?next = "(aes_increment_counter ^^ ((?c + 15) div 16)) counter"
    obtain r m1 where r: "core_mem_read (Some mi) a ?c m = (r, m1)" by fastforce
    note rd = chunk_read[OF r]
    obtain out where out: "ctr_loop key counter 0 (ram_read (peek m) a ?c) = Some out" using ctr_defined[OF assms] by force
    have lo: "length out = ?c" using ctr_loop_length[OF out] by simp
    obtain ok m2 where w: "core_mem_write (Some mi) b out m1 = (ok, m2)" by fastforce
    note wr = chunk_write[OF w]
    have p2: "ok" "peek m2 = ram_write (peek m) b out" using wr lo rd by simp_all
    have lt: "n - ?c < n" "n - ?c < 2 ^ 64" using False less.prems(2) by simp_all
    have "chunks_safe (a + of_nat ?c) (b + of_nat ?c) (n - ?c)" using less.prems(1) by (rule chunks_safe_rest)
    from less.IH[OF lt(1) this lt(2), of ?next m2] obtain out2 m3 where
      o2: "ctr_loop key ?next 0 (ram_read (peek m2) (a + of_nat ?c) (n - ?c)) = Some out2"
      "ctr_dma_loop (Some mi) key (a + of_nat ?c) (b + of_nat ?c) (n - ?c) ?next m2 =
        (Some ((aes_increment_counter ^^ ((n - ?c + 15) div 16)) ?next), m3)"
      "peek m3 = ram_write (peek m2) (b + of_nat ?c) out2" by blast
    have step: "ctr_dma_loop (Some mi) key a b n counter m = ctr_dma_loop (Some mi) key (a + of_nat ?c) (b + of_nat ?c) (n - ?c) ?next m2"
      using False r rd w p2(1) out by (subst ctr_dma_loop.simps) (simp add: Let_def ctr_chunk_buffer)
    have same: "ram_read (peek m2) (a + of_nat ?c) (n - ?c) = ram_read (peek m) (a + of_nat ?c) (n - ?c)"
      unfolding p2(2) using less.prems lo by (intro chunks_safe_read) simp_all
    have k: "(n + 15) div 16 = (n - ?c + 15) div 16 + (?c + 15) div 16" by (cases "n \<le> 1024") (simp_all add: min_def)
    have whole: "ctr_loop key counter 0 (ram_read (peek m) a n) = Some (out @ out2)"
    proof (cases "n \<le> 1024")
      case True
      then have "out2 = []" using o2(1) by (simp add: ctr_loop.simps ram_read_def)
      with out True show ?thesis by simp
    next
      case False
      then have c: "?c = 16 * 64" by simp
      then have "length (ram_read (peek m) a ?c) = 16 * 64" by simp
      from ctr_split[OF this, of key counter "ram_read (peek m) (a + of_nat ?c) (n - ?c)"]
      show ?thesis using out o2(1) same c unfolding ram_read_min by simp
    qed
    have "length out + length out2 \<le> 2 ^ 64" using ctr_loop_length[OF whole] less.prems(2) by simp
    from ram_write_append[OF this, of "peek m" b] have "peek m3 = ram_write (peek m) b (out @ out2)" using o2(3) p2(2) lo by simp
    moreover have "(aes_increment_counter ^^ ((n - ?c + 15) div 16)) ?next = (aes_increment_counter ^^ ((n + 15) div 16)) counter"
      unfolding k funpow_add by simp
    ultimately show ?thesis using whole step o2(2) by simp
  qed (simp add: ctr_dma_loop.simps ctr_loop.simps ram_read_def)
qed

end

lemma length_increment: "length (aes_increment_counter c) = length c"
proof -
  have "length (increment_le bs) = length bs" for bs by (induction bs) (simp_all add: Let_def)
  then show ?thesis by (simp add: aes_increment_counter_def)
qed

lemma length_increments [simp]: "length ((aes_increment_counter ^^ k) c) = length c"
  by (induction k) (simp_all add: length_increment)

lemma transfer_registers:
  "load32 (store_all [(DIN_MEM_DMA_BUSY, 0), (DIN_SRAM_DMA_BUSY, 0), (DOUT_MEM_DMA_BUSY, 0), (DOUT_SRAM_DMA_BUSY, 0),
      (FIFO_IN_EMPTY, 1), (DOUT_FIFO_EMPTY, 1), (HOST_CC_IS_IDLE, 1)] (store32 HOST_RGF_IRR v s)) HOST_RGF_IRR = v"
  "mem_read (m_regs (store_all [(DIN_MEM_DMA_BUSY, 0), (DIN_SRAM_DMA_BUSY, 0), (DOUT_MEM_DMA_BUSY, 0), (DOUT_SRAM_DMA_BUSY, 0),
      (FIFO_IN_EMPTY, 1), (DOUT_FIFO_EMPTY, 1), (HOST_CC_IS_IDLE, 1)] (store32 HOST_RGF_IRR v s))) AES_CTR_0 16 = mem_read (m_regs s) AES_CTR_0 16"
  by (simp_all add: m_regs_store32)

context cc_memory
begin

lemma ctr_memory:
  assumes "m_engine s = ENGINE_AES" and "aes_mode s = 0x02" and "len \<le> load32 s DOUT_DST_LLI_WORD1"
    and "chunks_safe (ucast (load32 s DIN_SRC_LLI_WORD0)) (ucast (load32 s DOUT_DST_LLI_WORD0)) (unat len)"
  shows "\<exists>out s' m'. aes_ctr_xcrypt_buffer (aes_key s) (mem_read (m_regs s) AES_CTR_0 16)
        (ram_read (peek m) (ucast (load32 s DIN_SRC_LLI_WORD0)) (unat len)) 0 = Some out \<and>
    cc3xx_write32 (Some mi) DIN_SRC_LLI_WORD1 len (s, m) = Some (s', m') \<and>
    peek m' = ram_write (peek m) (ucast (load32 s DOUT_DST_LLI_WORD0)) out \<and>
    mem_read (m_regs s') AES_CTR_0 16 = (aes_increment_counter ^^ ((unat len + 15) div 16)) (mem_read (m_regs s) AES_CTR_0 16) \<and>
    load32 s' HOST_RGF_IRR = load32 s HOST_RGF_IRR OR 0x840"
proof -
  let ?src = "load32 s DIN_SRC_LLI_WORD0" and ?dst = "load32 s DOUT_DST_LLI_WORD0" and ?ctr = "mem_read (m_regs s) AES_CTR_0 16"
  define t where "t = store32 DIN_SRC_LLI_WORD1 len s"
  have t: "m_engine t = ENGINE_AES" "aes_mode t = 0x02" "aes_key t = aes_key s" "mem_read (m_regs t) AES_CTR_0 16 = ?ctr"
    "load32 t DIN_SRC_LLI_WORD0 = ?src" "load32 t DOUT_DST_LLI_WORD0 = ?dst" "load32 t DIN_SRC_LLI_WORD1 = len"
    "load32 t DOUT_DST_LLI_WORD1 = load32 s DOUT_DST_LLI_WORD1" "load32 t HOST_RGF_IRR = load32 s HOST_RGF_IRR"
    using assms by (simp_all add: t_def m_regs_store32)
  have len: "min (unat len) (unat (load32 s DOUT_DST_LLI_WORD1)) = unat len" using assms(3) by (simp add: word_le_nat_alt)
  have n: "unat len < 2 ^ 64" using unat_bound[of len] by simp
  let ?new = "(aes_increment_counter ^^ ((unat len + 15) div 16)) ?ctr"
  obtain out m1 where out: "ctr_loop (aes_key s) ?ctr 0 (ram_read (peek m) (ucast ?src) (unat len)) = Some out"
    "ctr_dma_loop (Some mi) (aes_key s) (ucast ?src) (ucast ?dst) (unat len) ?ctr m = (Some ?new, m1)"
    "peek m1 = ram_write (peek m) (ucast ?dst) out"
    using ctr_dma_writes[OF length_aes_key assms(4) n] by blast
  have buf: "aes_ctr_xcrypt_buffer (aes_key s) ?ctr (ram_read (peek m) (ucast ?src) (unat len)) 0 = Some out"
    using out(1) length_aes_key[of s] by (auto simp: aes_ctr_xcrypt_buffer_def)
  obtain u m2 where u: "aes_dma_output (Some mi) DIN_SRC_LLI_WORD1 (t, m) = (u, m2)" "mem_read (m_regs u) AES_CTR_0 16 = ?new"
    "peek m2 = peek m1" "aes_mode u = 0x02" "load32 u HOST_RGF_IRR = load32 s HOST_RGF_IRR"
  proof (cases "unat len = 0")
    case True
    then have "aes_dma_output (Some mi) DIN_SRC_LLI_WORD1 (t, m) = (t, m)" using t len by (simp add: aes_dma_output_def)
    moreover have "peek m1 = peek m" using out(1,3) True by (simp add: ctr_loop.simps ram_read_def)
    ultimately show ?thesis using that[of t m] t True by simp
  next
    case False
    let ?u = "store32 AES_BUSY 0 (store32 AES_REMAINING_BYTES 0 (t\<lparr>m_regs := mem_write (m_regs t) AES_CTR_0 ?new\<rparr>))"
    have "aes_dma_output (Some mi) DIN_SRC_LLI_WORD1 (t, m) = (?u, m1)"
      using t len False out(2) by (simp add: aes_dma_output_def aes_ctr_xcrypt_def Let_def)
    moreover have "mem_read (m_regs ?u) AES_CTR_0 16 = ?new" by (simp add: m_regs_store32)
    moreover have "aes_mode ?u = 0x02" using t(2) by (simp add: aes_mode_def)
    moreover have "load32 ?u HOST_RGF_IRR = load32 s HOST_RGF_IRR" using t(9) by simp
    ultimately show ?thesis using that by blast
  qed
  have "cmac_dma_input (Some mi) DIN_SRC_LLI_WORD1 (u, m2) = (u, m2)" using u(4) by (simp add: cmac_dma_input_def)
  moreover have "hash_dma_input (Some mi) DIN_SRC_LLI_WORD1 (t, m) = Some (t, m)" using t(1) by (simp add: hash_dma_input_def)
  moreover have "0x800 OR 0x40 = (0x840 :: u32)" by simp
  ultimately have "\<exists>s'. cc3xx_write32 (Some mi) DIN_SRC_LLI_WORD1 len (s, m) = Some (s', m2) \<and>
      mem_read (m_regs s') AES_CTR_0 16 = ?new \<and> load32 s' HOST_RGF_IRR = load32 s HOST_RGF_IRR OR 0x840"
    unfolding write_length t_def[symmetric] complete_dma_transfer_def
    by (simp only: Let_def bind.bind_lunit u(1) split if_True transfer_registers u(2,5)) (simp add: m_regs_store32 u)
  then show ?thesis using buf out(3) u(3) by auto
qed

end

text \<open>
  C11. A counter-mode transfer writes to the destination what counter mode makes of the whole source, in chunks or not, leaves the counter advanced by the blocks used, and
  raises the completion interrupts.
\<close>

theorem cc3xx_ctr_memory:
  assumes "memory_bus bus peek" and "m_engine s = ENGINE_AES" and "aes_mode s = 0x02" and "len \<le> load32 s DOUT_DST_LLI_WORD1"
    and "chunks_safe (ucast (load32 s DIN_SRC_LLI_WORD0)) (ucast (load32 s DOUT_DST_LLI_WORD0)) (unat len)"
  shows "\<exists>out s' m'. aes_ctr_xcrypt_buffer (aes_key s) (mem_read (m_regs s) AES_CTR_0 16)
        (ram_read (peek m) (ucast (load32 s DIN_SRC_LLI_WORD0)) (unat len)) 0 = Some out \<and>
    cc3xx_write32 (Some (systemc_memory_if (Some bus))) DIN_SRC_LLI_WORD1 len (s, m) = Some (s', m') \<and>
    peek m' = ram_write (peek m) (ucast (load32 s DOUT_DST_LLI_WORD0)) out \<and>
    mem_read (m_regs s') AES_CTR_0 16 = (aes_increment_counter ^^ ((unat len + 15) div 16)) (mem_read (m_regs s) AES_CTR_0 16) \<and>
    load32 s' HOST_RGF_IRR = load32 s HOST_RGF_IRR OR 0x840"
  by (rule cc_memory.ctr_memory[OF memory_bus_interface[OF assms(1)] assms(2-5)])

definition ctr_setup :: cc3xx where
  "ctr_setup = store_all [(AES_CONTROL, 0x08), (DIN_SRC_LLI_WORD0, 0x1000), (DOUT_DST_LLI_WORD0, 0x1000), (DOUT_DST_LLI_WORD1, 20)] cc3xx_init\<lparr>m_engine := ENGINE_AES\<rparr>"

lemma cc3xx_ctr_memory_witness:
  "\<exists>out s' m'. aes_ctr_xcrypt_buffer (aes_key ctr_setup) (mem_read (m_regs ctr_setup) AES_CTR_0 16) (ram_read (\<lambda>a. ucast a) 0x1000 20) 0 = Some out \<and>
    cc3xx_write32 (Some (systemc_memory_if (Some ram_bus))) DIN_SRC_LLI_WORD1 20 (ctr_setup, \<lambda>a. ucast a) = Some (s', m') \<and>
    m' = ram_write (\<lambda>a. ucast a) 0x1000 out"
proof -
  have r: "m_engine ctr_setup = ENGINE_AES" "load32 ctr_setup DOUT_DST_LLI_WORD1 = 20" "load32 ctr_setup DIN_SRC_LLI_WORD0 = 0x1000"
    "load32 ctr_setup DOUT_DST_LLI_WORD0 = 0x1000" "aes_mode ctr_setup = 0x02"
    by (simp_all add: ctr_setup_def aes_mode_def)
  have "chunks_safe (ucast (0x1000 :: u32)) (ucast (0x1000 :: u32)) (unat (20 :: u32))"
    unfolding chunks_safe_def
  proof (intro allI impI)
    fix i j assume "i < unat (20 :: u32)" "j < i"
    then have "unat (of_nat i :: u64) = i" "unat (of_nat j :: u64) = j" by (auto intro!: unat_of_nat_small)
    then show "ucast (0x1000 :: u32) + of_nat i \<noteq> (ucast (0x1000 :: u32) + of_nat j :: u64)" using \<open>j < i\<close> by auto
  qed
  then show ?thesis using cc3xx_ctr_memory[OF memory_bus_ram r(1,5), of 20 "\<lambda>a. ucast a"] unfolding r by auto
qed

subsection \<open>Resuming a message\<close>

text \<open>
  A driver that shares the engine reads its chaining value and length at a block boundary and writes them back into a fresh engine,
  in the order control, values, length.
\<close>

fun hash_writes :: "(nat \<times> u32) list \<Rightarrow> 'a cc3xx_hash_scheme \<Rightarrow> 'a cc3xx_hash_scheme ub" where
  "hash_writes [] s = Some s"
| "hash_writes ((off, v) # ws) s = do { s \<leftarrow> update_hash_after_write off v s; hash_writes ws s }"

definition restore_writes :: "u32 list \<Rightarrow> u64 \<Rightarrow> (nat \<times> u32) list" where
  "restore_writes h n = (HASH_CONTROL, 0x2) # map (\<lambda>i. (HASH_H + i * 4, h ! i)) [0..<8] @
     [(HASH_CUR_LEN0, ucast n), (HASH_CUR_LEN1, ucast (drop_bit 32 n))]"

lemma hash_write_h:
  assumes "sha_active (m_sha256 s)" and "\<not> sha_finalized (m_sha256 s)" and "i < 8"
  shows "update_hash_after_write (HASH_H + i * 4) v s = Some (on_sha (\<lambda>t. t\<lparr>sha_h := (sha_h t)[i := v]\<rparr>) (store32 (HASH_H + i * 4) v s))"
  using assms by (simp add: update_hash_after_write_def is_hash_h_def)

lemma hash_writes_h:
  assumes "sha_active (m_sha256 s)" and "\<not> sha_finalized (m_sha256 s)" and "n \<le> 8" and "length h = 8" and "length (sha_h (m_sha256 s)) = 8"
    and "h_mirrored s"
  shows "\<exists>t. hash_writes (map (\<lambda>i. (HASH_H + i * 4, h ! i)) [0..<n] @ ws) s = hash_writes ws t \<and> h_mirrored t \<and>
    m_sha256 t = (m_sha256 s)\<lparr>sha_h := take n h @ drop n (sha_h (m_sha256 s))\<rparr>"
  using assms(3)
proof (induction n arbitrary: ws)
  case 0
  then show ?case using assms(6) by (intro exI[of _ s]) simp
next
  case (Suc n)
  then obtain t where t: "hash_writes (map (\<lambda>i. (HASH_H + i * 4, h ! i)) [0..<n] @ (HASH_H + n * 4, h ! n) # ws) s = hash_writes ((HASH_H + n * 4, h ! n) # ws) t"
    "h_mirrored t" "m_sha256 t = (m_sha256 s)\<lparr>sha_h := take n h @ drop n (sha_h (m_sha256 s))\<rparr>" by fastforce
  let ?u = "on_sha (\<lambda>x. x\<lparr>sha_h := (sha_h x)[n := h ! n]\<rparr>) (store32 (HASH_H + n * 4) (h ! n) t)"
  have n: "n < 8" using Suc.prems by simp
  have "(take n h @ drop n (sha_h (m_sha256 s)))[n := h ! n] = take (Suc n) h @ drop (Suc n) (sha_h (m_sha256 s))"
    using n assms(4,5) by (intro nth_equalityI) (auto simp: nth_append nth_list_update less_Suc_eq)
  moreover have "h_mirrored ?u"
    unfolding h_mirrored_def
  proof (intro allI impI)
    fix i :: nat assume "i < 8"
    moreover have "length (sha_h (m_sha256 t)) = 8" using t(3) assms(4,5) n by simp
    ultimately show "load32 ?u (HASH_H + i * 4) = sha_h (m_sha256 ?u) ! i"
      using t(2) by (simp add: load32_store32_aligned h_mirrored_def nth_list_update)
  qed
  moreover have "hash_writes ((HASH_H + n * 4, h ! n) # ws) t = hash_writes ws ?u"
    using hash_write_h[of t n "h ! n"] t(3) assms(1,2) n by simp
  ultimately show ?case using t(1,3) by (intro exI[of _ ?u]) simp
qed

lemma restore_absorbed:
  assumes "length h = 8"
  shows "\<exists>t. hash_writes (restore_writes h (of_nat n)) s = Some t \<and> absorbed n h [] t"
proof -
  define r where "r = sha256_reset (store32 HASH_CONTROL 2 s)"
  have a: "absorbed 0 sha256_init [] r" unfolding r_def by (rule absorbed_reset)
  then have r: "sha_active (m_sha256 r)" "\<not> sha_finalized (m_sha256 r)" "length (sha_h (m_sha256 r)) = 8" "h_mirrored r"
    by (simp_all add: absorbed_def holding_def)
  let ?len = "[(HASH_CUR_LEN0, ucast (of_nat n :: u64)), (HASH_CUR_LEN1, ucast (drop_bit 32 (of_nat n :: u64)))] :: (nat \<times> u32) list"
  obtain t where t: "hash_writes (map (\<lambda>i. (HASH_H + i * 4, h ! i)) [0..<8] @ ?len) r = hash_writes ?len t" "h_mirrored t"
    "m_sha256 t = (m_sha256 r)\<lparr>sha_h := h\<rparr>"
    using hash_writes_h[OF r(1,2) order.refl assms r(3,4), of ?len] assms r(3) by auto
  have "update_hash_after_write HASH_CONTROL 2 s = Some r" by (simp add: update_hash_after_write_def is_hash_h_def r_def Let_def)
  then have w: "hash_writes (restore_writes h (of_nat n)) s = hash_writes ?len t" using t(1) by (simp add: restore_writes_def)
  let ?t0 = "store32 HASH_CUR_LEN0 (ucast (of_nat n :: u64)) t"
  let ?t1 = "on_sha (\<lambda>x. x\<lparr>sha_bytes := hash_current_len ?t0, sha_block_len := 0\<rparr>) ?t0"
  let ?t2 = "store32 HASH_CUR_LEN1 (ucast (drop_bit 32 (of_nat n :: u64))) ?t1"
  let ?t3 = "on_sha (\<lambda>x. x\<lparr>sha_bytes := hash_current_len ?t2, sha_block_len := 0\<rparr>) ?t2"
  have "hash_writes ?len t = Some ?t3" using t(3) r(1,2)
    by (simp add: update_hash_after_write_def is_hash_h_def Let_def)
  moreover have cur: "hash_current_len ?t2 = of_nat n" by (simp add: hash_current_len_def split64)
  moreover have "h_mirrored ?t3" using t(2) by (simp add: h_mirrored_def nat_less_8 all_conj_distrib)
  moreover have "absorbed n h [] ?t3" using t(3) a assms calculation
    by (simp add: absorbed_def holding_def)
  ultimately show ?thesis using w by auto
qed

text \<open>
  A message interrupted at a block boundary can be resumed: writing back chaining value and length to a fresh engine and handing over the rest gives the digest and
  length of the whole message.
\<close>

theorem cc3xx_hash_resume:
  assumes "length msg mod 64 = 0"
  shows "\<exists>s'. do { s \<leftarrow> hash_writes (restore_writes (sha_absorb sha256_init msg) (of_nat (length msg))) s; s \<leftarrow> sha256_updates chunks s; sha256_finish s } = Some s' \<and>
    hash_registers s' = sha256 (msg @ concat chunks) \<and> hash_current_len s' = of_nat (length msg + length (concat chunks))"
proof -
  have l: "length (sha_absorb sha256_init msg) = 8" by (simp add: length_absorb)
  obtain s1 where s1: "hash_writes (restore_writes (sha_absorb sha256_init msg) (of_nat (length msg))) s = Some s1"
    "absorbed (length msg) (sha_absorb sha256_init msg) [] s1" using restore_absorbed[OF l] by blast
  obtain s2 where s2: "sha256_updates chunks s1 = Some s2" "absorbed (length msg) (sha_absorb sha256_init msg) (concat chunks) s2"
    using updates_absorbed[OF s1(2), of chunks] by auto
  obtain s3 where s3: "sha256_finish s2 = Some s3" "h_mirrored s3"
    "sha_h (m_sha256 s3) = sha_absorb (sha_absorb sha256_init msg) (concat chunks @ sha_pad (length msg + length (concat chunks)))"
    "hash_current_len s3 = of_nat (length msg + length (concat chunks))" using finish_absorbed[OF s2(2) assms] by blast
  have "sha_h (m_sha256 s3) = sha256 (msg @ concat chunks)"
    unfolding s3(3) sha_absorb_append[OF assms, symmetric] by (simp add: sha256_def)
  with s1(1) s2(1) s3(1,2,4) show ?thesis by (simp add: mirrored_registers sha256_def length_absorb)
qed

lemma cc3xx_hash_resume_witness:
  "\<exists>s'. do { s \<leftarrow> hash_writes (restore_writes (sha_absorb sha256_init (replicate 64 7)) 64) cc3xx_init; s \<leftarrow> sha256_updates [[1, 2], [3]] s; sha256_finish s } = Some s' \<and>
    hash_registers s' = sha256 (replicate 64 7 @ [1, 2, 3])"
  using cc3xx_hash_resume[of "replicate 64 7" cc3xx_init "[[1, 2], [3]]"] by auto

end
