(* ===== verification/Cc3xx_Native.thy ===== *)
theory Cc3xx_Native
  imports Cc3xx
begin

text \<open>
  The crypto cell as a QEMU device (\<^verbatim>\<open>src/qemu-components/cc3xx_native/include/qemu_cc3xx.h\<close>): the core of
  \<open>Cc3xx\<close> behind the callbacks of a memory region. Its accesses to memory go through QEMU's address
  space, through direct memory pointers that it caches, and through its socket. The first group of
  definitions is the cache, the second the accesses, the third the callbacks; the locale
  \<open>native_memory\<close> says what the wrapper expects of the target behind it, and its lemmas that the core
  sees one memory whichever way an access takes. Profile counters and the files are not modelled.
\<close>

unbundle bit_operations_syntax

subsection \<open>What lies outside\<close>

text \<open>
  A direct memory descriptor: a host pointer for the byte at the start address, the inclusive
  window, and the accesses allowed.
\<close>

record dmi_grant =
  dg_ptr :: u64
  dg_start :: u64
  dg_end :: u64
  dg_read :: bool
  dg_write :: bool

record tx_attrs =
  attrs_debug :: bool

text \<open>
  QEMU's address space, which may be absent, the initiator socket, which may be unbound, the direct
  memory requests of the target behind it, and host memory. A read of the address space leaves some
  bytes in the buffer also where it fails.
\<close>

record ('a, 'w) native_env =
  system_as_read :: "(u64 \<Rightarrow> u8 list \<Rightarrow> 'a tx_attrs_scheme \<Rightarrow> 'w \<Rightarrow> (bool \<times> u8 list) \<times> 'w) option"
  system_as_write :: "u64 \<Rightarrow> u8 list \<Rightarrow> 'a tx_attrs_scheme \<Rightarrow> 'w \<Rightarrow> bool \<times> 'w"
  initiator_bus :: "'w bus option"
  initiator_dmi :: "payload \<Rightarrow> 'w \<Rightarrow> dmi_grant option \<times> 'w"
  dmi_host_read :: "u64 \<Rightarrow> nat \<Rightarrow> 'w \<Rightarrow> u8 list"
  dmi_host_write :: "u64 \<Rightarrow> u8 list \<Rightarrow> 'w \<Rightarrow> 'w"

subsection \<open>The cache of direct memory pointers\<close>

text \<open>The \<^verbatim>\<open>std::map\<close> from start addresses, in the order of its keys.\<close>

type_synonym dmi_cache = "(u64 \<times> dmi_grant) list"

text \<open>The position \<^verbatim>\<open>upper_bound(a)\<close>: the entries before it have keys up to \<open>a\<close>.\<close>

definition before_upper_bound :: "u64 \<Rightarrow> dmi_cache \<Rightarrow> dmi_cache" where
  "before_upper_bound a cache = takeWhile (\<lambda>e. fst e \<le> a) cache"

definition from_upper_bound :: "u64 \<Rightarrow> dmi_cache \<Rightarrow> dmi_cache" where
  "from_upper_bound a cache = dropWhile (\<lambda>e. fst e \<le> a) cache"

definition dmi_cache_lookup :: "u64 \<Rightarrow> u32 \<Rightarrow> dmi_cache \<Rightarrow> dmi_grant option" where
  "dmi_cache_lookup address len cache =
     (if len = 0 \<or> address > -1 - (ucast (len - 1)) then None
      else
        (let before = before_upper_bound address cache
         in if before = [] then None
            else
              (let d = snd (last before); end = address + ucast len - 1
               in if address \<ge> dg_start d \<and> end \<le> dg_end d then Some d else None)))"

definition dmi_cache_access ::
    "('a, 'w) native_env \<Rightarrow> tlm_command \<Rightarrow> u64 \<Rightarrow> u8 list \<Rightarrow> dmi_cache \<times> 'w \<Rightarrow> (bool \<times> u8 list) \<times> dmi_cache \<times> 'w" where
  "dmi_cache_access E cmd address data = (\<lambda>(cache, w).
     (case dmi_cache_lookup address (of_nat (length data)) cache of
        None \<Rightarrow> ((False, data), cache, w)
      | Some d \<Rightarrow>
          (let ptr = dg_ptr d + (address - dg_start d)
           in case cmd of
                TLM_READ_COMMAND \<Rightarrow>
                  (if \<not> dg_read d then ((False, data), cache, w)
                   else ((True, dmi_host_read E ptr (length data) w), cache, w))
              | TLM_WRITE_COMMAND \<Rightarrow>
                  (if \<not> dg_write d then ((False, data), cache, w)
                   else ((True, data), cache, dmi_host_write E ptr data w))
              | TLM_IGNORE_COMMAND \<Rightarrow> ((False, data), cache, w))))"

definition cache_put :: "dmi_grant \<Rightarrow> dmi_cache \<Rightarrow> dmi_cache" where
  "cache_put d cache = takeWhile (\<lambda>e. fst e < dg_start d) cache @ [(dg_start d, d)] @ from_upper_bound (dg_start d) cache"

definition request_dmi_cache :: "('a, 'w) native_env \<Rightarrow> u64 \<Rightarrow> u32 \<Rightarrow> dmi_cache \<times> 'w \<Rightarrow> dmi_cache \<times> 'w" where
  "request_dmi_cache E address len = (\<lambda>(cache, w).
     if initiator_bus E = None \<or> len = 0 then (cache, w)
     else
       (case initiator_dmi E \<lparr>p_command = TLM_IGNORE_COMMAND, p_address = address, p_data = Some [0], p_len = len,
               p_response = TLM_INCOMPLETE_RESPONSE, p_dmi_allowed = False\<rparr> w of
          (None, w) \<Rightarrow> (cache, w)
        | (Some d, w) \<Rightarrow>
            (if \<not> dg_read d \<and> \<not> dg_write d then (cache, w)
             else
               (case map_of cache (dg_start d) of
                  Some e \<Rightarrow> (if dg_end e = dg_end d then (cache, w) else (cache_put d cache, w))
                | None \<Rightarrow> (cache_put d cache, w)))))"

text \<open>The loop of the invalidation, from an iterator on: entries that end before the range are passed over.\<close>

fun invalidate_loop :: "u64 \<Rightarrow> u64 \<Rightarrow> dmi_cache \<Rightarrow> dmi_cache" where
  "invalidate_loop start end [] = []"
| "invalidate_loop start end ((k, d) # rest) =
     (if dg_start d > end then (k, d) # rest
      else if dg_end d < start then (k, d) # invalidate_loop start end rest
      else invalidate_loop start end rest)"

definition native_invalidate_direct_mem_ptr :: "u64 \<Rightarrow> u64 \<Rightarrow> dmi_cache \<Rightarrow> dmi_cache" where
  "native_invalidate_direct_mem_ptr start end cache =
     (let before = before_upper_bound start cache; after = from_upper_bound start cache
      in if before = [] then invalidate_loop start end after
         else butlast before @ invalidate_loop start end (last before # after))"

subsection \<open>Memory accesses of the core\<close>

definition native_tlm_memory_access :: "('a, 'w) native_env \<Rightarrow> tlm_command \<Rightarrow> u64 \<Rightarrow> u8 list \<Rightarrow> dmi_cache \<times> 'w \<Rightarrow> (bool \<times> u8 list) \<times> dmi_cache \<times> 'w" where
  "native_tlm_memory_access E cmd address data = (\<lambda>(cache, w).
     (case initiator_bus E of
        None \<Rightarrow> ((False, data), cache, w)
      | Some bus \<Rightarrow>
          (let (t, w) = bus \<lparr>p_command = cmd, p_address = address, p_data = Some data, p_len = of_nat (length data),
                  p_response = TLM_INCOMPLETE_RESPONSE, p_dmi_allowed = False\<rparr> w
           in ((is_response_ok t, case p_data t of None \<Rightarrow> [] | Some bs \<Rightarrow> bs), cache, w))))"

text \<open>The cached pointer, a fresh pointer, and the socket, in this order, for a command.\<close>

definition dmi_or_tlm :: "('a, 'w) native_env \<Rightarrow> tlm_command \<Rightarrow> u64 \<Rightarrow> u8 list \<Rightarrow> dmi_cache \<times> 'w \<Rightarrow> (bool \<times> u8 list) \<times> dmi_cache \<times> 'w" where
  "dmi_or_tlm E cmd address data st =
     (case dmi_cache_access E cmd address data st of
        ((True, bs), st) \<Rightarrow> ((True, bs), st)
      | ((False, bs), st) \<Rightarrow>
      (let st = request_dmi_cache E address (of_nat (length data)) st
       in case dmi_cache_access E cmd address bs st of
            ((True, bs), st) \<Rightarrow> ((True, bs), st)
          | ((False, bs), st) \<Rightarrow> native_tlm_memory_access E cmd address bs st))"

definition memory_read :: "('a, 'w) native_env \<Rightarrow> 'a tx_attrs_scheme \<Rightarrow> u64 \<Rightarrow> u8 list \<Rightarrow> dmi_cache \<times> 'w \<Rightarrow> (bool \<times> u8 list) \<times> dmi_cache \<times> 'w" where
  "memory_read E attrs address data = (\<lambda>(cache, w).
     (case system_as_read E of
        None \<Rightarrow> dmi_or_tlm E TLM_READ_COMMAND address data (cache, w)
      | Some as_read \<Rightarrow>
          (case as_read address data attrs w of
             ((True, bs), w) \<Rightarrow> ((True, bs), cache, w)
           | ((False, bs), w) \<Rightarrow> dmi_or_tlm E TLM_READ_COMMAND address bs (cache, w))))"

definition memory_write :: "('a, 'w) native_env \<Rightarrow> 'a tx_attrs_scheme \<Rightarrow> u64 \<Rightarrow> u8 list \<Rightarrow> dmi_cache \<times> 'w \<Rightarrow> bool \<times> dmi_cache \<times> 'w" where
  "memory_write E attrs address data = (\<lambda>(cache, w).
     (if system_as_read E = None then apfst fst (dmi_or_tlm E TLM_WRITE_COMMAND address data (cache, w))
      else
        (case system_as_write E address data attrs w of
           (True, w) \<Rightarrow> (True, cache, w)
         | (False, w) \<Rightarrow> apfst fst (dmi_or_tlm E TLM_WRITE_COMMAND address data (cache, w)))))"

definition native_memory_if :: "('a, 'w) native_env \<Rightarrow> 'a tx_attrs_scheme \<Rightarrow> (dmi_cache \<times> 'w) memory_if" where
  "native_memory_if E attrs = \<lparr>
     mi_read = (\<lambda>address len st. case memory_read E attrs address (replicate len 0) st of
        ((ok, bs), st) \<Rightarrow> (if ok then Some bs else None, st)),
     mi_write = memory_write E attrs\<rparr>"

subsection \<open>Callbacks\<close>

datatype mem_tx_result = MemTxOK | MemTxDecodeError | MemTxError

definition native_map_status :: "cc3xx_status \<Rightarrow> mem_tx_result" where
  "native_map_status status =
     (case status of Access_Ok \<Rightarrow> MemTxOK | Address_Error \<Rightarrow> MemTxDecodeError | Command_Error \<Rightarrow> MemTxError)"

text \<open>\<open>has_data\<close> says whether the pointer for the result is not null; the value is \<open>None\<close> where it is not stored.\<close>

definition native_qemu_read ::
    "trace_config \<Rightarrow> u64 \<Rightarrow> bool \<Rightarrow> u32 \<Rightarrow> 'a tx_attrs_scheme \<Rightarrow> 'b cc3xx_scheme \<Rightarrow> (mem_tx_result \<times> u64 option \<times> 'b cc3xx_scheme) ub" where
  "native_qemu_read cfg address has_data len attrs s =
     (if \<not> has_data \<or> len > 8 then Some (MemTxDecodeError, None, s)
      else do {
        (status, buffer, s) \<leftarrow> cc3xx_read cfg address (Some (replicate 8 0)) len (attrs_debug attrs) s;
        let result = (case buffer of None \<Rightarrow> [] | Some bs \<Rightarrow> bs);
        Some (native_map_status status, if status = Access_Ok then Some (le_word (take (unat len) result)) else None, s)
      })"

definition native_qemu_write ::
    "('a, 'w) native_env \<Rightarrow> trace_config \<Rightarrow> u64 \<Rightarrow> u64 \<Rightarrow> u32 \<Rightarrow> 'a tx_attrs_scheme \<Rightarrow> 'b cc3xx_scheme \<times> dmi_cache \<times> 'w \<Rightarrow>
     (mem_tx_result \<times> 'b cc3xx_scheme \<times> dmi_cache \<times> 'w) ub" where
  "native_qemu_write E cfg address data len attrs = (\<lambda>(s, st).
     if len > 8 then Some (MemTxDecodeError, s, st)
     else do {
       let buffer = take (unat len) (le_bytes 8 data) @ replicate (8 - unat len) 0;
       (status, s, st) \<leftarrow> cc3xx_write cfg (Some (native_memory_if E attrs)) address (Some buffer) len (s, st);
       Some (native_map_status status, s, st)
     })"

definition native_doreset :: "bool \<Rightarrow> 'a cc3xx_scheme \<Rightarrow> 'a cc3xx_scheme" where
  "native_doreset v s = (if v then cc3xx_reset_registers s else s)"


subsection \<open>What the wrapper expects of its surroundings\<close>

text \<open>
  \<open>peek\<close> is the memory that address space, socket and granted pointers all show, \<open>valid w\<close> the
  grants that hold in the world \<open>w\<close>. Grants that hold together are the same or do not meet.
  \<open>remap\<close> is the target withdrawing its grants on a range, behind which the memory may change.
\<close>

definition meets :: "u64 \<Rightarrow> u64 \<Rightarrow> dmi_grant \<Rightarrow> bool" where
  "meets start end d \<longleftrightarrow> dg_start d \<le> end \<and> start \<le> dg_end d"

locale native_memory =
  fixes E :: "('a, 'w) native_env"
    and peek :: "'w \<Rightarrow> ram"
    and valid :: "'w \<Rightarrow> dmi_grant \<Rightarrow> bool"
    and remap :: "u64 \<Rightarrow> u64 \<Rightarrow> ram \<Rightarrow> 'w \<Rightarrow> 'w"
  assumes as_read: "system_as_read E = Some rd \<Longrightarrow> rd a data attrs w = ((ok, bs), w') \<Longrightarrow>
      length bs = length data \<and> (ok \<longrightarrow> bs = ram_read (peek w) a (length data)) \<and> peek w' = peek w \<and> valid w \<le> valid w'"
    and as_write: "system_as_write E a data attrs w = (ok, w') \<Longrightarrow>
      peek w' = (if ok then ram_write (peek w) a data else peek w) \<and> valid w \<le> valid w'"
    and bus: "\<exists>bus. initiator_bus E = Some bus \<and> memory_bus bus peek \<and> (\<forall>t w. valid w \<le> valid (snd (bus t w)))"
    and dmi: "initiator_dmi E t w = (g, w') \<Longrightarrow> peek w' = peek w \<and> valid w \<le> valid w' \<and> (\<forall>d. g = Some d \<longrightarrow> valid w' d)"
    and host_read: "valid w d \<Longrightarrow> dg_read d \<Longrightarrow> dg_start d \<le> a \<Longrightarrow> unat a + n \<le> unat (dg_end d) + 1 \<Longrightarrow>
      dmi_host_read E (dg_ptr d + (a - dg_start d)) n w = ram_read (peek w) a n"
    and host_write: "valid w d \<Longrightarrow> dg_write d \<Longrightarrow> dg_start d \<le> a \<Longrightarrow> unat a + length bs \<le> unat (dg_end d) + 1 \<Longrightarrow>
      peek (dmi_host_write E (dg_ptr d + (a - dg_start d)) bs w) = ram_write (peek w) a bs \<and>
      valid w \<le> valid (dmi_host_write E (dg_ptr d + (a - dg_start d)) bs w)"
    and windows: "valid w d \<Longrightarrow> dg_start d \<le> dg_end d"
    and disjoint: "valid w d \<Longrightarrow> valid w e \<Longrightarrow> d = e \<or> dg_end d < dg_start e \<or> dg_end e < dg_start d"
    and remap: "peek (remap start end m w) = m" "valid w d \<Longrightarrow> \<not> meets start end d \<Longrightarrow> valid (remap start end m w) d"
begin

definition cache_ok :: "dmi_cache \<Rightarrow> 'w \<Rightarrow> bool" where
  "cache_ok cache w \<longleftrightarrow> sorted_wrt (<) (map fst cache) \<and> (\<forall>(k, d) \<in> set cache. k = dg_start d \<and> valid w d)"

lemma cache_ok_mono: "cache_ok cache w \<Longrightarrow> valid w \<le> valid w' \<Longrightarrow> cache_ok cache w'"
  by (auto simp: cache_ok_def)

lemma native_lookup_sound:
  assumes "cache_ok cache w" "dmi_cache_lookup a n cache = Some d"
  shows "valid w d \<and> dg_start d \<le> a \<and> unat a + unat n \<le> unat (dg_end d) + 1"
proof -
  have n: "n \<noteq> 0" and nowrap: "a \<le> -1 - ucast (n - 1)" and ne: "before_upper_bound a cache \<noteq> []"
    and d: "d = snd (last (before_upper_bound a cache))" "dg_start d \<le> a" "a + ucast n - 1 \<le> dg_end d"
    using assms(2) by (auto simp: dmi_cache_lookup_def Let_def split: if_splits)
  have "last (before_upper_bound a cache) \<in> set cache"
    using last_in_set[OF ne] by (auto simp: before_upper_bound_def dest: set_takeWhileD)
  with assms(1) d(1) have "valid w d" by (auto simp: cache_ok_def)
  moreover have "unat (a + ucast n - 1) = unat a + unat n - 1"
  proof -
    have n1: "unat (n - 1) = unat n - 1" using n by (simp add: unat_minus_one)
    have "unat (-1 - ucast (n - 1) :: u64) = 2 ^ 64 - 1 - (unat n - 1)"
      using unat_bound[of n] by (subst unat_sub) (simp_all add: word_le_nat_alt n1 unsigned_minus_1_eq_mask mask_eq_exp_minus_1)
    then have le: "unat a + (unat n - 1) < 2 ^ 64"
      using nowrap unat_bound[of n] by (simp add: word_le_nat_alt)
    have "(ucast n :: u64) \<noteq> 0" using n by (simp add: word_unat_eq_iff)
    then have "unat ((ucast n :: u64) - 1) = unat (ucast (n - 1) :: u64)" by (simp add: unat_minus_one n1)
    then have "(ucast n :: u64) - 1 = ucast (n - 1)" by (rule word_unat_eq_iff[THEN iffD2])
    then have eq: "a + ucast n - 1 = a + ucast (n - 1)" by (simp only: add_diff_eq[symmetric])
    have sum: "unat (a + ucast (n - 1)) = unat a + (unat n - 1)" using le n1 by (simp add: unat_add_small)
    show ?thesis using n unfolding eq sum by (simp add: word_unat_eq_iff)
  qed
  ultimately show ?thesis using d(2,3) n by (simp add: word_le_nat_alt)
qed

lemma invalidate_loop_filter:
  "sorted_wrt (<) (map fst cache) \<Longrightarrow> \<forall>(k, d) \<in> set cache. k = dg_start d \<Longrightarrow>
   invalidate_loop start end cache = filter (\<lambda>(k, d). \<not> meets start end d) cache"
proof (induction cache)
  case (Cons e cache)
  obtain k d where e: "e = (k, d)" by fastforce
  show ?case
  proof (cases "dg_start d > end")
    case True
    have "\<not> meets start end d'" if "(k', d') \<in> set cache" for k' d'
      using that Cons.prems True by (fastforce simp: e meets_def)
    then show ?thesis using True by (auto simp: e meets_def intro!: filter_True[symmetric])
  next
    case False
    with Cons show ?thesis by (auto simp: e meets_def not_less)
  qed
qed simp

lemma invalidate_filter:
  assumes "cache_ok cache w"
  shows "native_invalidate_direct_mem_ptr start end cache = filter (\<lambda>(k, d). \<not> meets start end d) cache"
proof -
  let ?b = "before_upper_bound start cache" and ?a = "from_upper_bound start cache"
  have split: "?b @ ?a = cache" by (simp add: before_upper_bound_def from_upper_bound_def)
  have srt: "sorted_wrt (<) (map fst (?b @ ?a))" and key: "\<forall>(k, d) \<in> set cache. k = dg_start d \<and> valid w d"
    using assms split by (simp_all add: cache_ok_def)
  have keys: "k = dg_start d" "valid w d" if "(k, d) \<in> set cache" for k d using key that by auto
  show ?thesis
  proof (cases "?b = []")
    case True
    then show ?thesis using invalidate_loop_filter[of cache start "end"] assms split
      by (auto simp: native_invalidate_direct_mem_ptr_def cache_ok_def)
  next
    case False
    let ?l = "last ?b"
    have parts: "cache = butlast ?b @ ?l # ?a" using split False by (metis append_butlast_last_id append.assoc append_Cons append_Nil)
    have l: "fst ?l \<le> start" using last_in_set[OF False] by (auto simp: before_upper_bound_def dest: set_takeWhileD)
    have srt2: "sorted_wrt (<) (map fst (butlast ?b @ ?l # ?a))" using assms parts by (simp add: cache_ok_def)
    have "\<not> meets start end d" if "(k, d) \<in> set (butlast ?b)" for k d
    proof -
      obtain kl dl where kl: "?l = (kl, dl)" by fastforce
      have in_c: "(k, d) \<in> set cache" "(kl, dl) \<in> set cache" using that parts kl by (metis Un_iff list.set_intros(1) set_append)+
      have "k < kl" using srt2 that kl by (fastforce simp: sorted_wrt_append)
      then have "dg_start d < dg_start dl" using keys(1)[OF in_c(1)] keys(1)[OF in_c(2)] by simp
      moreover have "d = dl \<or> dg_end d < dg_start dl \<or> dg_end dl < dg_start d" "dg_start dl \<le> dg_end dl"
        using disjoint[OF keys(2)[OF in_c(1)] keys(2)[OF in_c(2)]] windows[OF keys(2)[OF in_c(2)]] .
      ultimately have "dg_end d < dg_start dl" by auto
      also have "\<dots> \<le> start" using l kl keys(1)[OF in_c(2)] by simp
      finally show ?thesis by (auto simp: meets_def)
    qed
    then have "filter (\<lambda>(k, d). \<not> meets start end d) (butlast ?b) = butlast ?b" by (intro filter_True) auto
    moreover have "invalidate_loop start end (?l # ?a) = filter (\<lambda>(k, d). \<not> meets start end d) (?l # ?a)"
    proof (rule invalidate_loop_filter)
      show "sorted_wrt (<) (map fst (?l # ?a))" using srt2 by (simp add: sorted_wrt_append)
      show "\<forall>(k, d) \<in> set (?l # ?a). k = dg_start d" using key parts by (metis (no_types, lifting) Un_iff case_prodD case_prodI2 set_append)
    qed
    ultimately show ?thesis using False parts by (simp only: native_invalidate_direct_mem_ptr_def Let_def if_False) (metis filter_append)
  qed
qed

lemma native_invalidate_ok: "cache_ok cache w \<Longrightarrow> cache_ok (native_invalidate_direct_mem_ptr start end cache) (remap start end m w)"
  unfolding invalidate_filter by (auto simp: cache_ok_def remap(2) sorted_wrt_filter sorted_wrt_map split: prod.splits)

lemma native_put_ok:
  assumes ok: "cache_ok cache w" and d: "valid w d"
  shows "cache_ok (cache_put d cache) w"
proof -
  let ?l = "takeWhile (\<lambda>e. fst e < dg_start d) cache" and ?r = "from_upper_bound (dg_start d) cache"
  have srt: "sorted_wrt (<) (map fst cache)" using ok by (simp add: cache_ok_def)
  have "set ?l \<subseteq> set cache" "set ?r \<subseteq> set cache" by (auto simp: from_upper_bound_def dest: set_takeWhileD set_dropWhileD)
  moreover have "fst e > dg_start d" if "e \<in> set ?r" for e
    using that srt unfolding from_upper_bound_def
  proof (induction cache)
    case (Cons c cache) then show ?case by (cases "fst c \<le> dg_start d") (auto simp: sorted_wrt_map)
  qed simp
  moreover have "fst e < dg_start d" if "e \<in> set ?l" for e using that by (auto dest: set_takeWhileD)
  moreover have "sorted_wrt (<) (map fst ?l)" "sorted_wrt (<) (map fst ?r)"
    using srt unfolding from_upper_bound_def by (metis map_append sorted_wrt_append takeWhile_dropWhile_id)+
  ultimately show ?thesis using ok d by (fastforce simp: cache_ok_def cache_put_def sorted_wrt_append)
qed

lemma native_request_ok:
  assumes "cache_ok cache w" "request_dmi_cache E a n (cache, w) = (cache', w')"
  shows "cache_ok cache' w' \<and> peek w' = peek w"
proof (cases "initiator_bus E = None \<or> n = 0")
  case False
  let ?t = "\<lparr>p_command = TLM_IGNORE_COMMAND, p_address = a, p_data = Some [0], p_len = n, p_response = TLM_INCOMPLETE_RESPONSE,
      p_dmi_allowed = False\<rparr>"
  obtain g w1 where g: "initiator_dmi E ?t w = (g, w1)" by fastforce
  from dmi[OF g] assms(1) cache_ok_mono have c1: "cache_ok cache w1" "peek w1 = peek w" "\<forall>d. g = Some d \<longrightarrow> valid w1 d" by auto
  from assms(2) g False have "w' = w1 \<and> (cache' = cache \<or> (\<exists>d. g = Some d \<and> cache' = cache_put d cache))"
    by (auto simp: request_dmi_cache_def split: option.splits if_splits)
  with c1 native_put_ok show ?thesis by auto
qed (use assms in \<open>auto simp: request_dmi_cache_def\<close>)

lemma native_access_ok:
  assumes "cache_ok cache w" "length data < 2 ^ 32" "dmi_cache_access E cmd a data (cache, w) = ((ok, bs), cache', w')"
  shows "cache_ok cache' w' \<and> length bs = length data \<and>
    (cmd = TLM_READ_COMMAND \<longrightarrow> peek w' = peek w \<and> (ok \<longrightarrow> bs = ram_read (peek w) a (length data))) \<and>
    (cmd = TLM_WRITE_COMMAND \<longrightarrow> bs = data \<and> peek w' = (if ok then ram_write (peek w) a data else peek w))"
proof (cases "dmi_cache_lookup a (of_nat (length data)) cache")
  case None
  with assms show ?thesis by (auto simp: dmi_cache_access_def)
next
  case (Some d)
  have n: "unat (of_nat (length data) :: u32) = length data" using assms(2) by (simp add: unat_of_nat_small)
  from native_lookup_sound[OF assms(1) Some] n have d: "valid w d" "dg_start d \<le> a" "unat a + length data \<le> unat (dg_end d) + 1" by simp_all
  from assms(3) Some d host_read[OF d(1) _ d(2,3)] host_write[OF d(1) _ d(2,3)] cache_ok_mono[OF assms(1)] assms(1) show ?thesis
    by (cases cmd) (auto simp: dmi_cache_access_def Let_def split: if_splits)
qed

lemma native_tlm_ok:
  assumes "cache_ok cache w" "length data < 2 ^ 32" "cmd = TLM_READ_COMMAND \<or> cmd = TLM_WRITE_COMMAND"
    "native_tlm_memory_access E cmd a data (cache, w) = ((ok, bs), cache', w')"
  shows "ok \<and> cache_ok cache' w' \<and>
    (cmd = TLM_READ_COMMAND \<longrightarrow> peek w' = peek w \<and> bs = ram_read (peek w) a (length data)) \<and>
    (cmd = TLM_WRITE_COMMAND \<longrightarrow> peek w' = ram_write (peek w) a data)"
proof -
  obtain b where b: "initiator_bus E = Some b" "memory_bus b peek" "\<And>t w. valid w \<le> valid (snd (b t w))" using bus by blast
  let ?t = "\<lparr>p_command = cmd, p_address = a, p_data = Some data, p_len = of_nat (length data),
      p_response = TLM_INCOMPLETE_RESPONSE, p_dmi_allowed = False\<rparr>"
  obtain t w1 where t: "b ?t w = (t, w1)" by fastforce
  have n: "unat (of_nat (length data) :: u32) = length data" using assms(2) by (simp add: unat_of_nat_small)
  have "valid w \<le> valid w1" using b(3)[of w ?t] t by simp
  with cache_ok_mono[OF assms(1)] have "cache_ok cache w1" by blast
  with assms(3,4) b(1) t n memory_bus_read[OF b(2) _ _ _ t] memory_bus_write[OF b(2) _ _ _ t] show ?thesis
    by (cases cmd) (simp_all add: native_tlm_memory_access_def is_response_ok_def)
qed

lemma dmi_or_tlm_ok:
  assumes "cache_ok cache w" "length data < 2 ^ 32" "cmd = TLM_READ_COMMAND \<or> cmd = TLM_WRITE_COMMAND"
    "dmi_or_tlm E cmd a data (cache, w) = ((ok, bs), cache', w')"
  shows "ok \<and> cache_ok cache' w' \<and>
    (cmd = TLM_READ_COMMAND \<longrightarrow> peek w' = peek w \<and> bs = ram_read (peek w) a (length data)) \<and>
    (cmd = TLM_WRITE_COMMAND \<longrightarrow> peek w' = ram_write (peek w) a data)"
proof -
  obtain ok1 bs1 c1 w1 where a1: "dmi_cache_access E cmd a data (cache, w) = ((ok1, bs1), c1, w1)" by (metis prod.collapse)
  note r1 = native_access_ok[OF assms(1,2) a1]
  show ?thesis
  proof (cases ok1)
    case True
    with a1 r1 assms(3,4) show ?thesis by (auto simp: dmi_or_tlm_def)
  next
    case False
    obtain c2 w2 where q: "request_dmi_cache E a (of_nat (length data)) (c1, w1) = (c2, w2)" by fastforce
    have r2: "cache_ok c2 w2" "peek w2 = peek w1" using native_request_ok[OF _ q] r1 by simp_all
    obtain ok3 bs3 c3 w3 where a3: "dmi_cache_access E cmd a bs1 (c2, w2) = ((ok3, bs3), c3, w3)" by (metis prod.collapse)
    have l1: "length bs1 < 2 ^ 32" using r1 assms(2) by simp
    note r3 = native_access_ok[OF r2(1) l1 a3]
    show ?thesis
    proof (cases ok3)
      case True
      with a1 q a3 r1 r2 r3 False assms(3,4) show ?thesis by (auto simp: dmi_or_tlm_def)
    next
      case no: False
      have l3: "length bs3 < 2 ^ 32" using r3 l1 by simp
      from a1 q a3 False no assms(4) have t: "native_tlm_memory_access E cmd a bs3 (c3, w3) = ((ok, bs), cache', w')"
        by (simp add: dmi_or_tlm_def)
      have c3: "cache_ok c3 w3" using r3 by simp
      from native_tlm_ok[OF c3 l3 assms(3) t] r1 r2 r3 False no show ?thesis by auto
    qed
  qed
qed

lemma native_read_ok:
  assumes "cache_ok cache w" "length data < 2 ^ 32" "memory_read E attrs a data (cache, w) = ((ok, bs), cache', w')"
  shows "ok \<and> cache_ok cache' w' \<and> peek w' = peek w \<and> bs = ram_read (peek w) a (length data)"
proof (cases "system_as_read E")
  case None
  with assms dmi_or_tlm_ok[OF assms(1,2), of TLM_READ_COMMAND a] show ?thesis by (auto simp: memory_read_def)
next
  case (Some rd)
  obtain ok1 bs1 w1 where r: "rd a data attrs w = ((ok1, bs1), w1)" by (metis prod.collapse)
  note r1 = as_read[OF Some r]
  have c1: "cache_ok cache w1" "length bs1 < 2 ^ 32" using r1 assms(1,2) cache_ok_mono by auto
  show ?thesis
  proof (cases ok1)
    case False
    with assms(3) Some r have "dmi_or_tlm E TLM_READ_COMMAND a bs1 (cache, w1) = ((ok, bs), cache', w')" by (simp add: memory_read_def)
    from dmi_or_tlm_ok[OF c1 _ this] r1 show ?thesis by simp
  qed (use assms(3) Some r r1 c1 in \<open>simp add: memory_read_def\<close>)
qed

lemma native_write_ok:
  assumes "cache_ok cache w" "length data < 2 ^ 32" "memory_write E attrs a data (cache, w) = (ok, cache', w')"
  shows "ok \<and> cache_ok cache' w' \<and> peek w' = ram_write (peek w) a data"
proof (cases "system_as_read E = None")
  case True
  with assms(3) obtain bs where "dmi_or_tlm E TLM_WRITE_COMMAND a data (cache, w) = ((ok, bs), cache', w')"
    by (cases "dmi_or_tlm E TLM_WRITE_COMMAND a data (cache, w)") (auto simp: memory_write_def)
  from dmi_or_tlm_ok[OF assms(1,2) _ this] show ?thesis by simp
next
  case False
  obtain ok1 w1 where w1: "system_as_write E a data attrs w = (ok1, w1)" by fastforce
  note r1 = as_write[OF w1]
  have c1: "cache_ok cache w1" using r1 assms(1) cache_ok_mono by blast
  show ?thesis
  proof (cases ok1)
    case no: False
    with assms(3) False w1 obtain bs where "dmi_or_tlm E TLM_WRITE_COMMAND a data (cache, w1) = ((ok, bs), cache', w')"
      by (cases "dmi_or_tlm E TLM_WRITE_COMMAND a data (cache, w1)") (auto simp: memory_write_def)
    from dmi_or_tlm_ok[OF c1 assms(2) _ this] r1 no show ?thesis by simp
  qed (use assms(3) False w1 r1 c1 in \<open>simp add: memory_write_def\<close>)
qed

end

subsection \<open>Runs\<close>

text \<open>Reads and writes of the core, and targets that withdraw their grants and change the memory behind them.\<close>

datatype native_op = Native_read u64 nat | Native_write u64 "u8 list" | Native_remap u64 u64 ram

fun native_run ::
    "('a, 'w) native_env \<Rightarrow> (u64 \<Rightarrow> u64 \<Rightarrow> ram \<Rightarrow> 'w \<Rightarrow> 'w) \<Rightarrow> 'a tx_attrs_scheme \<Rightarrow> native_op list \<Rightarrow> dmi_cache \<times> 'w \<Rightarrow>
     u8 list option list \<times> dmi_cache \<times> 'w" where
  "native_run E remap attrs [] st = ([], st)"
| "native_run E remap attrs (Native_read a n # ops) st =
     (case mi_read (native_memory_if E attrs) a n st of (r, st) \<Rightarrow> apfst ((#) r) (native_run E remap attrs ops st))"
| "native_run E remap attrs (Native_write a bs # ops) st =
     (case mi_write (native_memory_if E attrs) a bs st of
        (ok, st) \<Rightarrow> apfst ((#) (if ok then Some [] else None)) (native_run E remap attrs ops st))"
| "native_run E remap attrs (Native_remap start end m # ops) (cache, w) =
     apfst ((#) (Some [])) (native_run E remap attrs ops (native_invalidate_direct_mem_ptr start end cache, remap start end m w))"

text \<open>The same on a memory alone.\<close>

fun ram_run :: "native_op list \<Rightarrow> ram \<Rightarrow> u8 list option list \<times> ram" where
  "ram_run [] m = ([], m)"
| "ram_run (Native_read a n # ops) m = apfst ((#) (Some (ram_read m a n))) (ram_run ops m)"
| "ram_run (Native_write a bs # ops) m = apfst ((#) (Some [])) (ram_run ops (ram_write m a bs))"
| "ram_run (Native_remap start end m' # ops) m = apfst ((#) (Some [])) (ram_run ops m')"

primrec op_size :: "native_op \<Rightarrow> nat" where
  "op_size (Native_read a n) = n"
| "op_size (Native_write a bs) = length bs"
| "op_size (Native_remap start end m) = 0"

context native_memory
begin

lemma native_run_ok:
  "cache_ok cache w \<Longrightarrow> \<forall>op \<in> set ops. op_size op < 2 ^ 32 \<Longrightarrow> native_run E remap attrs ops (cache, w) = (rs, cache', w') \<Longrightarrow>
   ram_run ops (peek w) = (rs, peek w') \<and> cache_ok cache' w'"
proof (induction ops arbitrary: cache w rs)
  case (Cons op ops)
  show ?case
  proof (cases op)
    case (Native_read a n)
    obtain ok bs c1 w1 where r: "memory_read E attrs a (replicate n 0) (cache, w) = ((ok, bs), c1, w1)" by (metis prod.collapse)
    have r1: "ok" "cache_ok c1 w1" "peek w1 = peek w" "bs = ram_read (peek w) a n"
      using native_read_ok[OF Cons.prems(1) _ r] Cons.prems(2) Native_read by simp_all
    obtain rs1 where "native_run E remap attrs ops (c1, w1) = (rs1, cache', w')" "rs = Some bs # rs1"
      using Cons.prems(3) r r1(1) Native_read
      by (cases "native_run E remap attrs ops (c1, w1)") (simp add: native_memory_if_def)
    with Cons.IH[OF r1(2) _ this(1)] Cons.prems(2) r1 Native_read show ?thesis by simp
  next
    case (Native_write a bs)
    obtain ok c1 w1 where r: "memory_write E attrs a bs (cache, w) = (ok, c1, w1)" by (metis prod.collapse)
    have r1: "ok" "cache_ok c1 w1" "peek w1 = ram_write (peek w) a bs"
      using native_write_ok[OF Cons.prems(1) _ r] Cons.prems(2) Native_write by simp_all
    obtain rs1 where "native_run E remap attrs ops (c1, w1) = (rs1, cache', w')" "rs = Some [] # rs1"
      using Cons.prems(3) r r1(1) Native_write
      by (cases "native_run E remap attrs ops (c1, w1)") (simp add: native_memory_if_def)
    with Cons.IH[OF r1(2) _ this(1)] Cons.prems(2) r1 Native_write show ?thesis by simp
  next
    case (Native_remap start "end" m)
    obtain rs1 where "native_run E remap attrs ops (native_invalidate_direct_mem_ptr start end cache, remap start end m w) = (rs1, cache', w')"
      "rs = Some [] # rs1"
      using Cons.prems(3) Native_remap
      by (cases "native_run E remap attrs ops (native_invalidate_direct_mem_ptr start end cache, remap start end m w)") simp
    with Cons.IH[OF native_invalidate_ok[OF Cons.prems(1)] _ this(1)] Cons.prems(2) Native_remap show ?thesis by (simp add: remap(1))
  qed
qed simp

end

subsection \<open>Surroundings that fulfil the expectations\<close>

text \<open>
  A memory whose first page is behind the address space and whose second page grants a pointer.
\<close>

record page_world =
  pw_ram :: ram
  pw_granted :: bool

definition page_grant :: dmi_grant where
  "page_grant = \<lparr>dg_ptr = 0x1000, dg_start = 0x1000, dg_end = 0x1fff, dg_read = True, dg_write = True\<rparr>"

definition page_env :: "(unit, page_world) native_env" where
  "page_env = \<lparr>
     system_as_read = Some (\<lambda>a data attrs w. (if unat a + length data \<le> 0x1000 then (True, ram_read (pw_ram w) a (length data)) else (False, data), w)),
     system_as_write = (\<lambda>a data attrs w. if unat a + length data \<le> 0x1000 then (True, w\<lparr>pw_ram := ram_write (pw_ram w) a data\<rparr>) else (False, w)),
     initiator_bus = Some (\<lambda>t w. case ram_bus t (pw_ram w) of (t, m) \<Rightarrow> (t, w\<lparr>pw_ram := m\<rparr>)),
     initiator_dmi = (\<lambda>t w. if 0x1000 \<le> p_address t \<and> p_address t \<le> 0x1fff then (Some page_grant, w\<lparr>pw_granted := True\<rparr>) else (None, w)),
     dmi_host_read = (\<lambda>p n w. ram_read (pw_ram w) p n),
     dmi_host_write = (\<lambda>p bs w. w\<lparr>pw_ram := ram_write (pw_ram w) p bs\<rparr>)\<rparr>"

definition page_remap :: "u64 \<Rightarrow> u64 \<Rightarrow> ram \<Rightarrow> page_world \<Rightarrow> page_world" where
  "page_remap start end m w = \<lparr>pw_ram = m, pw_granted = (pw_granted w \<and> \<not> meets start end page_grant)\<rparr>"

lemma page_bus: "memory_bus (\<lambda>t w. case ram_bus t (pw_ram w) of (t, m) \<Rightarrow> (t, w\<lparr>pw_ram := m\<rparr>)) pw_ram"
  by (simp add: memory_bus_def ram_bus_def)

interpretation page: native_memory page_env pw_ram "\<lambda>w d. pw_granted w \<and> d = page_grant" page_remap
  by unfold_locales
    (auto simp: page_env_def page_grant_def page_remap_def page_bus le_fun_def split: if_splits prod.splits)



text \<open>
  Without the disjointness of the grants a pointer can survive: the first of two nested windows lies
  before the predecessor of the withdrawn range and is not looked at.
\<close>

lemma nested_grant_survives:
  "let outer = \<lparr>dg_ptr = 0, dg_start = 0, dg_end = 0xfff, dg_read = True, dg_write = True\<rparr>;
       inner = outer\<lparr>dg_start := 0x100, dg_end := 0x1ff\<rparr>;
       cache = native_invalidate_direct_mem_ptr 0x150 0x160 [(0, outer), (0x100, inner)]
   in cache = [(0, outer)] \<and> meets 0x150 0x160 outer \<and> dmi_cache_lookup 0x150 4 cache = Some outer"
  by (simp add: native_invalidate_direct_mem_ptr_def before_upper_bound_def from_upper_bound_def meets_def dmi_cache_lookup_def Let_def)

end
