(* ===== verification/Rse_Lms.thy ===== *)
theory Rse_Lms
  imports Cc3xx_Sha
begin

text \<open>
  The LMS signature check (\<^verbatim>\<open>src/qemu-components/rse_cpu_accel/include/rse_lms_accel.h\<close>):
  its own SHA-256, hashed over lists of buffers, the one-time key a signature leads to, and the
  walk up the hash tree to the root in the public key. The compression function is the one of
  \<open>Cc3xx_Sha\<close>, as the two headers hold the same code.

  The hash is shown to be SHA-256 of the concatenated buffers, the check to accept every signature
  of the scheme (a signer is defined for that) and to bind an accepted signature to one leaf key
  unless two given inputs of the hash collide.
\<close>

unbundle bit_operations_syntax

subsection \<open>Big-endian bytes\<close>

definition store_be16 :: "u16 \<Rightarrow> u8 list" where
  "store_be16 v = [ucast (drop_bit 8 v), ucast v]"

definition store_be32 :: "u32 \<Rightarrow> u8 list" where
  "store_be32 v = [ucast (drop_bit 24 v), ucast (drop_bit 16 v), ucast (drop_bit 8 v), ucast v]"

subsection \<open>The hash\<close>

record lms_sha =
  m_h :: "u32 list"
  m_block :: "u8 list"
  m_bytes :: u64
  m_block_len :: nat

definition lms_reset :: lms_sha where
  "lms_reset = \<lparr>m_h = [0x6a09e667, 0xbb67ae85] @ [0x3c6ef372, 0xa54ff53a] @ [0x510e527f, 0x9b05688c] @ [0x1f83d9ab, 0x5be0cd19],
     m_block = replicate 64 0, m_bytes = 0, m_block_len = 0\<rparr>"

definition transform :: "u8 list \<Rightarrow> lms_sha \<Rightarrow> lms_sha" where
  "transform block s = s\<lparr>m_h := sha256_compress block (m_h s)\<rparr>"

function lms_update_loop :: "u8 list \<Rightarrow> lms_sha \<Rightarrow> lms_sha ub" where
  "lms_update_loop data s =
     (if data = [] then Some s
      else
        (let len = m_block_len s; copy_len = min (length data) (64 - len);
             s = s\<lparr>m_block := take len (m_block s) @ take copy_len data @ drop (len + copy_len) (m_block s),
                   m_block_len := len + copy_len\<rparr>;
             s = (if m_block_len s = 64 then (transform (m_block s) s)\<lparr>m_block_len := 0\<rparr> else s)
         in if copy_len = 0 then None else lms_update_loop (drop copy_len data) s))"
  by pat_completeness auto
termination
  by (relation "measure (\<lambda>(data, s). length data)") auto

declare lms_update_loop.simps [simp del]

definition update :: "u8 list \<Rightarrow> lms_sha \<Rightarrow> lms_sha ub" where
  "update data s = lms_update_loop data (s\<lparr>m_bytes := m_bytes s + of_nat (length data)\<rparr>)"

definition finish :: "lms_sha \<Rightarrow> u8 list ub" where
  "finish s =
     (let bit_len = m_bytes s * 8;
          pad_len = (if m_block_len s < 56 then 56 - m_block_len s else 120 - m_block_len s)
      in do {
           s \<leftarrow> update (0x80 # replicate (pad_len - 1) 0) s;
           s \<leftarrow> update (store_be64 bit_len) s;
           Some (concat (map store_be32 (m_h s)))
         })"

definition digest :: "u8 list \<Rightarrow> u8 list ub" where
  "digest data = do { s \<leftarrow> update data lms_reset; finish s }"

fun updates :: "u8 list list \<Rightarrow> lms_sha \<Rightarrow> lms_sha ub" where
  "updates [] s = Some s"
| "updates (c # cs) s = do { s \<leftarrow> update c s; updates cs s }"

definition sha256_concat :: "u8 list list \<Rightarrow> u8 list ub" where
  "sha256_concat chunks = do { s \<leftarrow> updates chunks lms_reset; finish s }"

subsection \<open>The hash computes SHA-256\<close>

definition sha256_bytes :: "u8 list \<Rightarrow> u8 list" where
  "sha256_bytes msg = concat (map store_be32 (sha256 msg))"

definition lms_holding :: "u8 list \<Rightarrow> lms_sha \<Rightarrow> bool" where
  "lms_holding msg s \<longleftrightarrow>
     m_block_len s = length msg mod 64 \<and> length (m_block s) = 64 \<and>
     take (length msg mod 64) (m_block s) = drop (length msg - length msg mod 64) msg \<and>
     m_h s = sha_absorb sha256_init msg"

lemma lms_loop_holding:
  "lms_holding msg s \<Longrightarrow> \<exists>s'. lms_update_loop data s = Some s' \<and> lms_holding (msg @ data) s' \<and> m_bytes s' = m_bytes s"
proof (induction data s arbitrary: msg rule: lms_update_loop.induct)
  case (1 data s)
  show ?case
  proof (cases "data = []")
    case True
    with 1(2) show ?thesis by (simp add: lms_update_loop.simps)
  next
    case False
    define len where "len = m_block_len s"
    define c where "c = min (length data) (64 - len)"
    define s1 where "s1 = s\<lparr>m_block := take len (m_block s) @ take c data @ drop (len + c) (m_block s), m_block_len := len + c\<rparr>"
    define s2 where "s2 = (if m_block_len s1 = 64 then (transform (m_block s1) s1)\<lparr>m_block_len := 0\<rparr> else s1)"
    define t where "t = drop (length msg - length msg mod 64) msg @ take c data"
    have len: "len = length msg mod 64" "len < 64" using 1(2) by (simp_all add: lms_holding_def len_def)
    then have c: "0 < c" "c \<le> length data" "len + c \<le> 64" using False by (auto simp: c_def)
    have blk: "take (len + c) (m_block s1) = t" "length (m_block s1) = 64" "length t = len + c"
      using 1(2) c len by (auto simp: lms_holding_def s1_def t_def)
    have "lms_holding (msg @ take c data) s2"
    proof (cases "len + c = 64")
      case True
      then have m: "(length msg + c) mod 64 = 0" using len by (simp add: mod_add_left_eq[symmetric])
      have "m_block s1 = t" using blk True by simp
      with blk True have "sha_absorb sha256_init (msg @ take c data) = sha256_compress (m_block s1) (sha_absorb sha256_init msg)"
        by (simp add: absorb_tail[of _ msg] sha_absorb_block t_def)
      then show ?thesis using True blk 1(2) m c by (simp add: s2_def s1_def lms_holding_def transform_def)
    next
      case False
      with c(3) have small: "len + c < 64" by simp
      then have m: "(length msg + c) mod 64 = len + c" using len by (metis mod_add_left_eq mod_less)
      have d: "drop (length msg + c - (len + c)) (msg @ take c data) = t"
        using len by (simp add: t_def)
      have "sha_absorb sha256_init (msg @ take c data) = sha_absorb sha256_init msg"
        using small blk(3) by (simp only: absorb_tail[of _ msg] t_def[symmetric]) simp
      then show ?thesis using small blk 1(2) m c d by (simp add: s2_def s1_def lms_holding_def)
    qed
    moreover have "lms_update_loop data s = lms_update_loop (drop c data) s2"
      using False c(1) unfolding s2_def s1_def by (subst lms_update_loop.simps) (simp add: Let_def c_def[symmetric] len_def[symmetric])
    moreover have "m_bytes s2 = m_bytes s" by (simp add: s2_def s1_def transform_def)
    moreover note 1(1)[OF False len_def c_def s1_def s2_def, of "msg @ take c data"]
    ultimately show ?thesis using c by auto
  qed
qed

definition lms_absorbed :: "u8 list \<Rightarrow> lms_sha \<Rightarrow> bool" where
  "lms_absorbed msg s \<longleftrightarrow> lms_holding msg s \<and> m_bytes s = of_nat (length msg)"

lemma absorbed_init: "lms_absorbed [] lms_reset"
  by (simp add: lms_absorbed_def lms_holding_def lms_reset_def sha256_init_def)

lemma update_absorbs: "lms_absorbed msg s \<Longrightarrow> \<exists>s'. update data s = Some s' \<and> lms_absorbed (msg @ data) s'"
  using lms_loop_holding[of msg "s\<lparr>m_bytes := m_bytes s + of_nat (length data)\<rparr>" data]
  by (auto simp: update_def lms_absorbed_def lms_holding_def)

lemma updates_absorb: "lms_absorbed msg s \<Longrightarrow> \<exists>s'. updates cs s = Some s' \<and> lms_absorbed (msg @ concat cs) s'"
proof (induction cs arbitrary: msg s)
  case (Cons c cs)
  from update_absorbs[OF Cons.prems] obtain s1 where "update c s = Some s1" "lms_absorbed (msg @ c) s1" by blast
  with Cons.IH[OF this(2)] show ?case by simp
qed simp

lemma finish_absorbs:
  assumes "lms_absorbed msg s"
  shows "finish s = Some (sha256_bytes msg)"
proof -
  let ?len = "m_block_len s"
  let ?pad = "0x80 # replicate ((if ?len < 56 then 56 - ?len else 120 - ?len) - 1) (0::u8)"
  let ?bits = "store_be64 (m_bytes s * 8)"
  have len: "?len = length msg mod 64" using assms by (auto simp: lms_absorbed_def lms_holding_def)
  from update_absorbs[OF assms] obtain s1 where s1: "update ?pad s = Some s1" "lms_absorbed (msg @ ?pad) s1" by blast
  from update_absorbs[OF s1(2)] obtain s2 where s2: "update ?bits s1 = Some s2" "lms_absorbed ((msg @ ?pad) @ ?bits) s2" by blast
  have "?pad @ ?bits = sha_pad (length msg)"
    using assms pad_length[of "length msg"] by (auto simp: sha_pad_def lms_absorbed_def len mult.commute)
  then have "m_h s2 = sha256 msg" using s2(2) by (simp add: lms_absorbed_def lms_holding_def sha256_def)
  with s1(1) s2(1) show ?thesis by (simp add: finish_def Let_def sha256_bytes_def)
qed

lemma sha256_concat [simp]: "sha256_concat chunks = Some (sha256_bytes (concat chunks))"
proof -
  from updates_absorb[OF absorbed_init] obtain s where "updates chunks lms_reset = Some s" "lms_absorbed (concat chunks) s" by auto
  then show ?thesis by (simp add: sha256_concat_def finish_absorbs)
qed

lemma digest [simp]: "digest data = Some (sha256_bytes data)"
  using sha256_concat[of "[data]"] unfolding sha256_concat_def digest_def by (simp del: sha256_concat cong: Option.bind_cong)

lemma length_sha256_bytes [simp]: "length (sha256_bytes msg) = 32"
proof -
  have "length (concat (map store_be32 ws)) = 4 * length ws" for ws by (induction ws) (simp_all add: store_be32_def)
  then show ?thesis by (simp add: sha256_bytes_def sha256_def length_absorb)
qed


subsection \<open>Verifying a signature\<close>

abbreviation (input) LMS_SHA256_M32_H10 :: u32 where "LMS_SHA256_M32_H10 \<equiv> 6"
abbreviation (input) LMOTS_SHA256_N32_W8 :: u32 where "LMOTS_SHA256_N32_W8 \<equiv> 4"
abbreviation (input) HASH_LEN :: nat where "HASH_LEN \<equiv> 32"
abbreviation (input) LMOTS_P :: nat where "LMOTS_P \<equiv> 34"
abbreviation (input) LMS_HEIGHT :: nat where "LMS_HEIGHT \<equiv> 10"
abbreviation (input) LMS_PUBLIC_KEY_LEN :: nat where "LMS_PUBLIC_KEY_LEN \<equiv> 56"
abbreviation (input) LMOTS_SIG_LEN :: nat where "LMOTS_SIG_LEN \<equiv> 1124"
abbreviation (input) LMS_SIG_LEN :: nat where "LMS_SIG_LEN \<equiv> 1452"

definition d_message :: "u8 list" where "d_message = [0x81, 0x81]"
definition d_public :: "u8 list" where "d_public = [0x80, 0x80]"
definition d_leaf :: "u8 list" where "d_leaf = [0x82, 0x82]"
definition d_intr :: "u8 list" where "d_intr = [0x83, 0x83]"

text \<open>The bytes \<open>[off, off + len)\<close> of a buffer.\<close>

definition slice :: "nat \<Rightarrow> nat \<Rightarrow> 'a list \<Rightarrow> 'a list" where
  "slice off len bs = take len (drop off bs)"

text \<open>The inner loop: \<open>n\<close> turns from the digit \<open>j\<close> on, each hashing the value before it.\<close>

primrec chain_loop :: "u8 list \<Rightarrow> u8 list \<Rightarrow> u8 list \<Rightarrow> nat \<Rightarrow> u32 \<Rightarrow> u8 list \<Rightarrow> u8 list ub" where
  "chain_loop i_key_id q_leaf_id i_bytes 0 j tmp = Some tmp"
| "chain_loop i_key_id q_leaf_id i_bytes (Suc n) j tmp =
     do { tmp \<leftarrow> sha256_concat [i_key_id, q_leaf_id, i_bytes, [ucast j], tmp];
          chain_loop i_key_id q_leaf_id i_bytes n (j + 1) tmp }"

definition lmots_digits :: "u8 list \<Rightarrow> u8 list" where
  "lmots_digits q_hash =
     (let checksum = fold (\<lambda>digit checksum. checksum + (0xff - ucast digit)) q_hash (0::u32)
      in q_hash @ store_be16 (ucast checksum))"

fun hashed_digits :: "u8 list \<Rightarrow> u8 list \<Rightarrow> u8 list \<Rightarrow> u8 list \<Rightarrow> nat list \<Rightarrow> u8 list ub" where
  "hashed_digits i_key_id q_leaf_id digits y [] = Some []"
| "hashed_digits i_key_id q_leaf_id digits y (i # is) =
     do { tmp \<leftarrow> chain_loop i_key_id q_leaf_id (store_be16 (of_nat i)) (255 - unat (digits ! i)) (ucast (digits ! i))
                  (slice (i * HASH_LEN) HASH_LEN y);
          rest \<leftarrow> hashed_digits i_key_id q_leaf_id digits y is;
          Some (tmp @ rest) }"

text \<open>The candidate key of a one-time signature, or \<open>Some None\<close> where the code returns false.\<close>

definition lmots_candidate :: "u8 list \<Rightarrow> u8 list \<Rightarrow> u8 list \<Rightarrow> u8 list \<Rightarrow> u8 list option ub" where
  "lmots_candidate msg sig i_key_id q_leaf_id =
     (if length sig \<noteq> LMOTS_SIG_LEN \<or> load_be32 sig \<noteq> LMOTS_SHA256_N32_W8 then Some None
      else
        do { q_hash \<leftarrow> sha256_concat [i_key_id, q_leaf_id, d_message, slice 4 HASH_LEN sig, msg];
             hashed \<leftarrow> hashed_digits i_key_id q_leaf_id (lmots_digits q_hash) (drop (4 + HASH_LEN) sig) [0..<LMOTS_P];
             out \<leftarrow> sha256_concat [i_key_id, q_leaf_id, d_public, hashed];
             Some (Some out) })"

fun path_loop :: "u8 list \<Rightarrow> u8 list \<Rightarrow> nat list \<Rightarrow> u32 \<Rightarrow> u8 list \<Rightarrow> u8 list ub" where
  "path_loop i_key_id path [] curr_node_id node = Some node"
| "path_loop i_key_id path (height # hs) curr_node_id node =
     (let child_node_id = curr_node_id; sibling = slice (height * HASH_LEN) HASH_LEN path;
          curr_node_id = curr_node_id div 2
      in do { node \<leftarrow> (if child_node_id AND 1 \<noteq> 0
                      then sha256_concat [i_key_id, store_be32 curr_node_id, d_intr, sibling, node]
                      else sha256_concat [i_key_id, store_be32 curr_node_id, d_intr, node, sibling]);
              path_loop i_key_id path hs curr_node_id node })"

text \<open>
  A buffer \<open>None\<close> is a null pointer with a nonzero length. A null pointer with length 0 is the
  empty buffer: it is refused for the key and the signature by its length and accepted for the message.
\<close>

definition lms_verify :: "u8 list option \<Rightarrow> u8 list option \<Rightarrow> u8 list option \<Rightarrow> bool ub" where
  "lms_verify public_key msg sig =
     (case (public_key, msg, sig) of
        (Some public_key, Some msg, Some sig) \<Rightarrow>
          (if length public_key \<noteq> LMS_PUBLIC_KEY_LEN \<or> length sig \<noteq> LMS_SIG_LEN then Some False
           else if load_be32 public_key \<noteq> LMS_SHA256_M32_H10 \<or> load_be32 (drop 4 public_key) \<noteq> LMOTS_SHA256_N32_W8
           then Some False
           else
             (let i_key_id = slice 8 16 public_key; public_root = drop 24 public_key
              in if load_be32 (drop (4 + LMOTS_SIG_LEN) sig) \<noteq> LMS_SHA256_M32_H10 then Some False
                 else
                   (let q_leaf = load_be32 sig
                    in if q_leaf \<ge> push_bit LMS_HEIGHT 1 then Some False
                       else
                         (let q_leaf_id = store_be32 q_leaf; curr_node_id = push_bit LMS_HEIGHT 1 + q_leaf
                          in do {
                               kc \<leftarrow> lmots_candidate msg (slice 4 LMOTS_SIG_LEN sig) i_key_id q_leaf_id;
                               case kc of
                                 None \<Rightarrow> Some False
                               | Some kc \<Rightarrow> do {
                                   node \<leftarrow> sha256_concat [i_key_id, store_be32 curr_node_id, d_leaf, kc];
                                   node \<leftarrow> path_loop i_key_id (drop (4 + LMOTS_SIG_LEN + 4) sig) [0..<LMS_HEIGHT] curr_node_id node;
                                   Some (node = public_root) } }))))
      | _ \<Rightarrow> Some False)"

definition lms_verify_vectors :: "u8 list \<Rightarrow> u8 list \<Rightarrow> u8 list \<Rightarrow> bool ub" where
  "lms_verify_vectors public_key msg sig = lms_verify (Some public_key) (Some msg) (Some sig)"

subsection \<open>The signatures of a key\<close>

text \<open>
  The scheme the verifier belongs to (RFC 8554). A private key is an identifier and the secret
  start of each of the 34 hash chains of each of the 1024 leaves; a signature walks every chain
  as far as the digit of the message hash says, and names the siblings on the way to the root.
\<close>

record lms_key =
  key_id :: "u8 list"
  key_secret :: "nat \<Rightarrow> nat \<Rightarrow> u8 list"

definition wf_lms_key :: "lms_key \<Rightarrow> bool" where
  "wf_lms_key k \<longleftrightarrow> length (key_id k) = 16 \<and> (\<forall>q i. length (key_secret k q i) = 32)"

primrec chain :: "u8 list \<Rightarrow> nat \<Rightarrow> u32 \<Rightarrow> u8 list \<Rightarrow> u8 list" where
  "chain pre 0 j x = x"
| "chain pre (Suc n) j x = chain pre n (j + 1) (sha256_bytes (pre @ [ucast j] @ x))"

definition chain_prefix :: "lms_key \<Rightarrow> nat \<Rightarrow> nat \<Rightarrow> u8 list" where
  "chain_prefix k q i = key_id k @ store_be32 (of_nat q) @ store_be16 (of_nat i)"

definition ots_public :: "lms_key \<Rightarrow> nat \<Rightarrow> u8 list" where
  "ots_public k q =
     sha256_bytes (key_id k @ store_be32 (of_nat q) @ d_public @
       concat (map (\<lambda>i. chain (chain_prefix k q i) 255 0 (key_secret k q i)) [0..<34]))"

primrec tree_input :: "lms_key \<Rightarrow> nat \<Rightarrow> nat \<Rightarrow> u8 list" where
  "tree_input k 0 r = key_id k @ store_be32 (of_nat r) @ d_leaf @ ots_public k (r - 1024)"
| "tree_input k (Suc h) r =
     key_id k @ store_be32 (of_nat r) @ d_intr @
       sha256_bytes (tree_input k h (2 * r)) @ sha256_bytes (tree_input k h (2 * r + 1))"

definition tree_node :: "lms_key \<Rightarrow> nat \<Rightarrow> nat \<Rightarrow> u8 list" where
  "tree_node k h r = sha256_bytes (tree_input k h r)"

definition lms_public_key :: "lms_key \<Rightarrow> u8 list" where
  "lms_public_key k = store_be32 6 @ store_be32 4 @ key_id k @ tree_node k 10 1"

definition sibling :: "nat \<Rightarrow> nat" where
  "sibling r = (if odd r then r - 1 else r + 1)"

definition message_digits :: "lms_key \<Rightarrow> nat \<Rightarrow> u8 list \<Rightarrow> u8 list \<Rightarrow> u8 list" where
  "message_digits k q c msg = lmots_digits (sha256_bytes (key_id k @ store_be32 (of_nat q) @ d_message @ c @ msg))"

definition lms_sign :: "lms_key \<Rightarrow> nat \<Rightarrow> u8 list \<Rightarrow> u8 list \<Rightarrow> u8 list" where
  "lms_sign k q c msg =
     store_be32 (of_nat q) @
     (store_be32 4 @ c @
       concat (map (\<lambda>i. chain (chain_prefix k q i) (unat (message_digits k q c msg ! i)) 0 (key_secret k q i)) [0..<34])) @
     store_be32 6 @ concat (map (\<lambda>h. tree_node k h (sibling ((1024 + q) div 2 ^ h))) [0..<10])"

subsection \<open>Facts about the encodings\<close>

lemma length_be [simp]: "length (store_be32 v) = 4" "length (store_be16 w) = 2"
  by (simp_all add: store_be32_def store_be16_def)

lemma store_be32_le: "store_be32 v = rev (le_bytes 4 v)"
  by (simp add: store_be32_def le_bytes_4)

lemma load_be32_le: "load_be32 ([a, b, c, d] @ bs) = le_word [d, c, b, a]"
  by (simp add: load_be32_def push_bit_or ac_simps)

lemma four_bytes: "length bs = 4 \<Longrightarrow> \<exists>a b c d. bs = [a, b, c, d]"
  by (auto simp: numeral_eq_Suc length_Suc_conv)

lemma load_store_be32 [simp]: "load_be32 (store_be32 v @ bs) = v"
proof -
  have "load_be32 (store_be32 v @ bs) = le_word (rev (store_be32 v))"
    unfolding store_be32_def load_be32_le by simp
  then show ?thesis by (simp add: store_be32_le)
qed

lemma store_load_be32 [simp]: "length bs = 4 \<Longrightarrow> store_be32 (load_be32 bs) = bs"
  using four_bytes[of bs] load_be32_le[of _ _ _ _ "[]"] le_bytes_le_word_32[of "rev bs"]
  by (auto simp: store_be32_le simp del: le_word.simps le_bytes_le_word_32)

lemma slice_concat:
  "(\<And>x. x \<in> set xs \<Longrightarrow> length (f x) = n) \<Longrightarrow> i < length xs \<Longrightarrow> slice (i * n) n (concat (map f xs) @ ys) = f (xs ! i)"
proof (induction xs arbitrary: i)
  case (Cons x xs)
  show ?case
  proof (cases i)
    case (Suc j)
    have "slice (Suc j * n) n (f x @ bs) = slice (j * n) n bs" for bs
      using Cons.prems(1)[of x] by (simp add: slice_def drop_append)
    then show ?thesis using Cons Suc by simp
  qed (use Cons.prems in \<open>simp add: slice_def\<close>)
qed simp

lemma length_concat_const: "(\<And>x. x \<in> set xs \<Longrightarrow> length (f x) = n) \<Longrightarrow> length (concat (map f xs)) = length xs * n"
  by (induction xs) auto


subsection \<open>What verification computes\<close>

lemma chain_loop_eq: "chain_loop i_key_id q_leaf_id i_bytes n j tmp = Some (chain (i_key_id @ q_leaf_id @ i_bytes) n j tmp)"
  by (induction n arbitrary: j tmp) simp_all

lemma chain_add: "chain pre (m + n) j x = chain pre n (j + of_nat m) (chain pre m j x)"
  by (induction m arbitrary: j x) (simp_all add: algebra_simps)

lemma length_chain [simp]: "length x = 32 \<Longrightarrow> length (chain pre n j x) = 32"
  by (induction n arbitrary: j x) simp_all

lemma hashed_digits_eq:
  "hashed_digits I q digits y is =
     Some (concat (map (\<lambda>i. chain (I @ q @ store_be16 (of_nat i)) (255 - unat (digits ! i)) (ucast (digits ! i)) (slice (i * 32) 32 y)) is))"
  by (induction "is") (simp_all add: chain_loop_eq)

lemma length_digits [simp]: "length (lmots_digits (sha256_bytes m)) = 34"
  by (simp add: lmots_digits_def Let_def)

lemma length_tree_node [simp]: "length (tree_node k h r) = 32"
  by (simp add: tree_node_def)

lemma sibling_halves:
  "odd r \<Longrightarrow> 2 * (r div 2) = sibling r" "odd r \<Longrightarrow> Suc (sibling r) = r"
  "even r \<Longrightarrow> 2 * (r div 2) = r" "even r \<Longrightarrow> Suc r = sibling r"
  by (auto simp: sibling_def)

lemma odd_of_nat: "r < 2 ^ 32 \<Longrightarrow> (of_nat r AND 1 \<noteq> (0 :: u32)) = odd r"
  using bit_of_nat_iff[where 'a = "32 word", of r 0] by (simp add: and_one_eq odd_iff_mod_2_eq_one bit_0 even_iff_mod_2_eq_zero)

lemma of_nat_half: "r < 2 ^ 32 \<Longrightarrow> (of_nat r :: u32) div 2 = of_nat (r div 2)"
  by (simp add: word_arith_nat_div unat_of_nat_small)

lemma tree_node_parent:
  "tree_node k (Suc h) p = sha256_bytes (key_id k @ store_be32 (of_nat p) @ d_intr @ tree_node k h (2 * p) @ tree_node k h (Suc (2 * p)))"
  by (simp add: tree_node_def)

text \<open>The way up: from the leaf the path loop follows the nodes of the tree.\<close>

fun path_nodes :: "u8 list \<Rightarrow> u8 list \<Rightarrow> nat list \<Rightarrow> nat \<Rightarrow> u8 list \<Rightarrow> u8 list" where
  "path_nodes I path [] r node = node"
| "path_nodes I path (h # hs) r node =
     path_nodes I path hs (r div 2)
       (sha256_bytes (I @ store_be32 (of_nat (r div 2)) @ d_intr @
          (if odd r then slice (h * 32) 32 path @ node else node @ slice (h * 32) 32 path)))"

lemma path_loop_eq: "r < 2 ^ 32 \<Longrightarrow> path_loop I path hs (of_nat r) node = Some (path_nodes I path hs r node)"
proof (induction hs arbitrary: r node)
  case (Cons h hs)
  then have "r div 2 < 2 ^ 32" by simp
  from Cons.IH[OF this] show ?case using Cons.prems by (simp add: odd_of_nat of_nat_half Let_def)
qed simp

lemma path_nodes_tree:
  assumes "\<And>i. i < 10 \<Longrightarrow> slice (i * 32) 32 path = tree_node k i (sibling (r div 2 ^ i))" and "h \<le> 10"
  shows "path_nodes (key_id k) path [h..<10] (r div 2 ^ h) (tree_node k h (r div 2 ^ h)) = tree_node k 10 (r div 2 ^ 10)"
  using assms(2)
proof (induction "10 - h" arbitrary: h)
  case (Suc n)
  then have h: "h < 10" by simp
  let ?c = "r div 2 ^ h"
  have up: "?c div 2 = r div 2 ^ Suc h" by (simp add: div_mult2_eq mult.commute[of 2])
  have "sha256_bytes (key_id k @ store_be32 (of_nat (?c div 2)) @ d_intr @
      (if odd ?c then slice (h * 32) 32 path @ tree_node k h ?c else tree_node k h ?c @ slice (h * 32) 32 path)) = tree_node k (Suc h) (?c div 2)"
    unfolding tree_node_parent assms(1)[OF h] by (cases "even ?c") (simp_all only: sibling_halves if_True if_False not_not not_True_eq_False not_False_eq_True)
  then show ?case using Suc(1)[of "Suc h"] Suc(2) h by (simp add: upt_conv_Cons up del: power_Suc)
qed simp


lemma slice_skip: "n = length xs \<Longrightarrow> slice n len (xs @ ys) = slice 0 len ys"
  by (simp add: slice_def)

lemma slice_all: "len = length xs \<Longrightarrow> slice 0 len (xs @ ys) = xs"
  by (simp add: slice_def)

lemma sign_shape:
  assumes "wf_lms_key k" "length c = 32"
  obtains ots path where
    "lms_sign k q c msg = store_be32 (of_nat q) @ (store_be32 4 @ c @ ots) @ store_be32 6 @ path"
    "length ots = 1088" "length path = 320"
    "\<And>i. i < 34 \<Longrightarrow> slice (i * 32) 32 ots =
       chain (chain_prefix k q i) (unat (message_digits k q c msg ! i)) 0 (key_secret k q i)"
    "\<And>i. i < 10 \<Longrightarrow> slice (i * 32) 32 path = tree_node k i (sibling ((1024 + q) div 2 ^ i))"
proof (rule that[OF lms_sign_def])
  let ?f = "\<lambda>i. chain (chain_prefix k q i) (unat (message_digits k q c msg ! i)) 0 (key_secret k q i)"
  have f: "length (?f i) = 32" for i using assms(1) by (simp add: wf_lms_key_def)
  let ?g = "\<lambda>i. tree_node k i (sibling ((1024 + q) div 2 ^ i))"
  show "length (concat (map ?f [0..<34])) = 1088" using f by (subst length_concat_const[where n = 32]) simp_all
  show "length (concat (map ?g [0..<10])) = 320" by (subst length_concat_const[where n = 32]) simp_all
  show "slice (i * 32) 32 (concat (map ?f [0..<34])) = ?f i" if "i < 34" for i
    using slice_concat[of "[0..<34]" ?f 32 i "[]"] f that by simp
  show "slice (i * 32) 32 (concat (map ?g [0..<10])) = ?g i" if "i < 10" for i
    using slice_concat[of "[0..<10]" ?g 32 i "[]"] that by simp
qed

text \<open>The whole of a verification, for buffers of the right lengths with the right type words.\<close>

definition candidate_key :: "u8 list \<Rightarrow> u8 list \<Rightarrow> u8 list \<Rightarrow> nat \<Rightarrow> u8 list" where
  "candidate_key I sig msg q =
     (let digits = lmots_digits (sha256_bytes (I @ store_be32 (of_nat q) @ d_message @ slice 8 32 sig @ msg))
      in sha256_bytes (I @ store_be32 (of_nat q) @ d_public @
           concat (map (\<lambda>i. chain (I @ store_be32 (of_nat q) @ store_be16 (of_nat i)) (255 - unat (digits ! i)) (ucast (digits ! i))
             (slice (i * 32) 32 (drop 40 sig))) [0..<34])))"

lemma drop_slice: "drop n (slice off len bs) = slice (off + n) (len - n) bs"
  by (simp add: slice_def drop_take add.commute)

lemma slice_slice: "a + n \<le> len \<Longrightarrow> slice a n (slice off len bs) = slice (off + a) n bs"
  by (simp add: slice_def drop_take min_def add.commute)

lemma lms_verify_eq:
  assumes len: "length public_key = 56" "length sig = 1452"
    and types: "load_be32 public_key = 6" "load_be32 (drop 4 public_key) = 4" "load_be32 (drop 4 sig) = 4" "load_be32 (drop 1128 sig) = 6"
    and q: "load_be32 sig = of_nat q" "q < 1024"
  shows "lms_verify (Some public_key) (Some msg) (Some sig) =
    Some (path_nodes (slice 8 16 public_key) (drop 1132 sig) [0..<10] (1024 + q)
      (sha256_bytes (slice 8 16 public_key @ store_be32 (of_nat (1024 + q)) @ d_leaf @ candidate_key (slice 8 16 public_key) sig msg q))
      = drop 24 public_key)"
proof -
  let ?I = "slice 8 16 public_key"
  have small: "\<not> (of_nat q :: u32) \<ge> push_bit 10 1"
    using q(2) by (simp add: word_le_nat_alt unat_of_nat_small push_bit_eq_mult)
  have node: "(push_bit 10 1 + of_nat q :: u32) = of_nat (1024 + q)" by (simp add: push_bit_eq_mult)
  have ld: "load_be32 (slice 4 1124 sig) = 4" using types(3) by (simp add: slice_def load_be32_def)
  have "slice (i * 32) 32 (slice 40 1088 sig) = slice (i * 32) 32 (drop 40 sig)" if "i < 34" for i
    using that by (simp add: slice_slice) (simp add: slice_def add.commute)
  then have "map (\<lambda>i. chain (?I @ store_be32 (of_nat q) @ store_be16 (of_nat i)) (f i) (g i) (slice (i * 32) 32 (slice 40 1088 sig))) [0..<34]
      = map (\<lambda>i. chain (?I @ store_be32 (of_nat q) @ store_be16 (of_nat i)) (f i) (g i) (slice (i * 32) 32 (drop 40 sig))) [0..<34]" for f g
    by (intro map_cong) auto
  note same = this
  have parts: "length (slice 4 1124 sig) = 1124" "slice 4 32 (slice 4 1124 sig) = slice 8 32 sig"
    "drop (4 + 32) (slice 4 1124 sig) = slice 40 1088 sig"
    using len(2) by (simp_all add: slice_slice drop_slice) (simp add: slice_def)
  have cand: "lmots_candidate msg (slice 4 1124 sig) ?I (store_be32 (of_nat q)) = Some (Some (candidate_key ?I sig msg q))"
    unfolding lmots_candidate_def parts ld hashed_digits_eq candidate_key_def Let_def sha256_concat same
    by (simp add: same)
  show ?thesis
    using len types q small cand path_loop_eq[of "1024 + q" _ _ _] unfolding lms_verify_def
    by (simp add: Let_def node)
qed


subsection \<open>Signatures of a key are accepted\<close>

lemma digit_chain:
  "chain pre (255 - unat (d :: u8)) (ucast d) (chain pre (unat d) 0 x) = chain pre 255 0 x"
proof -
  have "unat d \<le> 255" using unat_bound[of d] by simp
  then have "255 = unat d + (255 - unat d)" by simp
  moreover have "(of_nat (unat d) :: u32) = ucast d" by simp
  ultimately show ?thesis using chain_add[of pre "unat d" "255 - unat d" 0 x] by (metis add_0)
qed

lemma signature_accepted:
  assumes "wf_lms_key k" and "length c = 32" and "q < 1024"
  shows "lms_verify (Some (lms_public_key k)) (Some msg) (Some (lms_sign k q c msg)) = Some True"
proof -
  obtain ots path where sig: "lms_sign k q c msg = store_be32 (of_nat q) @ (store_be32 4 @ c @ ots) @ store_be32 6 @ path"
    and l: "length ots = 1088" "length path = 320"
    and ots: "\<And>i. i < 34 \<Longrightarrow> slice (i * 32) 32 ots =
       chain (chain_prefix k q i) (unat (message_digits k q c msg ! i)) 0 (key_secret k q i)"
    and path: "\<And>i. i < 10 \<Longrightarrow> slice (i * 32) 32 path = tree_node k i (sibling ((1024 + q) div 2 ^ i))"
    by (rule sign_shape[OF assms(1,2), of q msg]) blast
  let ?sig = "lms_sign k q c msg" and ?pk = "lms_public_key k"
  have I: "length (key_id k) = 16" using assms(1) by (simp add: wf_lms_key_def)
  have pk: "length ?pk = 56" "load_be32 ?pk = 6" "load_be32 (drop 4 ?pk) = 4" "slice 8 16 ?pk = key_id k"
    "drop 24 ?pk = tree_node k 10 1"
    using I by (simp_all add: lms_public_key_def slice_def)
  have sg: "length ?sig = 1452" "load_be32 ?sig = of_nat q" "load_be32 (drop 4 ?sig) = 4" "load_be32 (drop 1128 ?sig) = 6"
    "drop 1132 ?sig = path" "slice 8 32 ?sig = c"
    using assms(2) l load_store_be32[of 6 path] by (simp_all add: sig slice_def)
  have y: "slice (i * 32) 32 (drop 40 ?sig) = slice (i * 32) 32 ots" if "i < 34" for i
    using assms(2) l that by (simp add: sig slice_def)
  have "candidate_key (key_id k) ?sig msg q = ots_public k q"
    unfolding candidate_key_def ots_public_def Let_def sg(6) message_digits_def[symmetric]
    by (intro arg_cong[where f = sha256_bytes] arg_cong2[where f = "(@)"] arg_cong[where f = concat] map_cong refl)
      (simp add: y ots digit_chain chain_prefix_def)
  then have leaf: "sha256_bytes (key_id k @ store_be32 (of_nat (1024 + q)) @ d_leaf @ candidate_key (key_id k) ?sig msg q)
      = tree_node k 0 ((1024 + q) div 2 ^ 0)"
    by (simp add: tree_node_def)
  have "(1024 + q) div 2 ^ 10 = 1" using assms(3) by simp
  with path_nodes_tree[OF path, of 0] have
    "path_nodes (key_id k) path [0..<10] (1024 + q) (tree_node k 0 ((1024 + q) div 2 ^ 0)) = tree_node k 10 1"
    by simp
  then show ?thesis using lms_verify_eq[OF pk(1) sg(1) pk(2,3) sg(3,4,2) assms(3)] by (simp add: pk(4,5) sg(5) leaf del: of_nat_add)
qed


text \<open>C7. Every signature that a private key makes, at any of its 1024 leaves and for any message and randomizer, is accepted under its public key.\<close>

theorem lms_accepts_signatures:
  assumes "wf_lms_key k" and "length c = 32" and "q < 1024"
  shows "lms_verify_vectors (lms_public_key k) msg (lms_sign k q c msg) = Some True"
  unfolding lms_verify_vectors_def by (rule signature_accepted[OF assms])

definition plain_key :: lms_key where
  "plain_key = \<lparr>key_id = replicate 16 7, key_secret = (\<lambda>q i. replicate 32 (of_nat (34 * q + i)))\<rparr>"

lemma plain_key_wf: "wf_lms_key plain_key"
  by (simp add: wf_lms_key_def plain_key_def)

lemma lms_accepts_signatures_witness:
  "lms_verify_vectors (lms_public_key plain_key) [1, 2, 3] (lms_sign plain_key 5 (replicate 32 9) [1, 2, 3]) = Some True"
  by (rule lms_accepts_signatures[OF plain_key_wf]) simp_all

subsection \<open>What acceptance binds\<close>

text \<open>The inputs of the hashes on the way from a candidate leaf to the root.\<close>

primrec path_input :: "u8 list \<Rightarrow> u8 list \<Rightarrow> u8 list \<Rightarrow> nat \<Rightarrow> nat \<Rightarrow> u8 list" where
  "path_input I path kc r 0 = I @ store_be32 (of_nat r) @ d_leaf @ kc"
| "path_input I path kc r (Suc h) =
     I @ store_be32 (of_nat (r div 2 ^ Suc h)) @ d_intr @
       (if odd (r div 2 ^ h) then slice (h * 32) 32 path @ sha256_bytes (path_input I path kc r h)
        else sha256_bytes (path_input I path kc r h) @ slice (h * 32) 32 path)"

lemma path_nodes_input:
  "h \<le> n \<Longrightarrow> path_nodes I path [h..<n] (r div 2 ^ h) (sha256_bytes (path_input I path kc r h)) = sha256_bytes (path_input I path kc r n)"
proof (induction "n - h" arbitrary: h)
  case (Suc m)
  have up: "r div 2 ^ h div 2 = r div 2 ^ Suc h" by (simp add: div_mult2_eq mult.commute[of 2])
  from Suc show ?case using Suc(1)[of "Suc h"] by (simp add: upt_conv_Cons up del: power_Suc)
qed simp

lemma bound_below:
  assumes path: "length path = 320" and id: "length (key_id k) = 16" and h: "h < 10"
    and eq: "path_input (key_id k) path kc r (Suc h) = tree_input k (Suc h) (r div 2 ^ Suc h)"
  shows "sha256_bytes (path_input (key_id k) path kc r h) = sha256_bytes (tree_input k h (r div 2 ^ h))"
proof -
  let ?c = "r div 2 ^ h"
  have up: "r div 2 ^ Suc h = ?c div 2" by (simp add: div_mult2_eq mult.commute[of 2])
  have s: "length (slice (h * 32) 32 path) = 32" using path h by (simp add: slice_def)
  show ?thesis
  proof (cases "odd ?c")
    case True
    with eq s have "sha256_bytes (path_input (key_id k) path kc r h) = sha256_bytes (tree_input k h (2 * (?c div 2) + 1))"
      by (simp add: up del: power_Suc)
    with True show ?thesis by simp
  next
    case False
    with eq s have "sha256_bytes (path_input (key_id k) path kc r h) = sha256_bytes (tree_input k h (2 * (?c div 2)))"
      by (simp add: up del: power_Suc)
    with False show ?thesis by simp
  qed
qed

definition collision_at :: "lms_key \<Rightarrow> u8 list \<Rightarrow> u8 list \<Rightarrow> nat \<Rightarrow> nat \<Rightarrow> bool" where
  "collision_at k path kc r h \<longleftrightarrow>
     path_input (key_id k) path kc r h \<noteq> tree_input k h (r div 2 ^ h) \<and>
     sha256_bytes (path_input (key_id k) path kc r h) = sha256_bytes (tree_input k h (r div 2 ^ h))"

lemma root_binds:
  assumes path: "length path = 320" and id: "length (key_id k) = 16"
  shows "h \<le> 10 \<Longrightarrow> sha256_bytes (path_input (key_id k) path kc r h) = sha256_bytes (tree_input k h (r div 2 ^ h)) \<Longrightarrow>
     path_input (key_id k) path kc r 0 = tree_input k 0 r \<or> (\<exists>i\<le>h. collision_at k path kc r i)"
proof (induction h)
  case 0
  then show ?case by (auto simp: collision_at_def)
next
  case (Suc h)
  show ?case
  proof (cases "path_input (key_id k) path kc r (Suc h) = tree_input k (Suc h) (r div 2 ^ Suc h)")
    case True
    with bound_below[OF path id _ True] Suc.prems Suc.IH show ?thesis by (auto intro: le_SucI)
  next
    case False
    then show ?thesis using Suc.prems(2) unfolding collision_at_def by blast
  qed
qed

text \<open>
  C10. A signature accepted under the public key of \<open>k\<close> names a leaf \<open>q\<close> below 1024 and its candidate
  key is the one-time key of that leaf, unless one of the eleven hashes on its way to the root
  collides with the hash of the tree at the same node.
\<close>

theorem lms_binds_leaf:
  assumes "wf_lms_key k" and "lms_verify (Some (lms_public_key k)) (Some msg) (Some sig) = Some True"
  shows "\<exists>kc. unat (load_be32 sig) < 1024 \<and>
     lmots_candidate msg (slice 4 1124 sig) (key_id k) (store_be32 (load_be32 sig)) = Some (Some kc) \<and>
     (kc = ots_public k (unat (load_be32 sig)) \<or>
      (\<exists>h\<le>10. collision_at k (drop 1132 sig) kc (1024 + unat (load_be32 sig)) h))"
proof -
  let ?pk = "lms_public_key k" and ?q = "unat (load_be32 sig)"
  have I: "length (key_id k) = 16" using assms(1) by (simp add: wf_lms_key_def)
  have pk: "slice 8 16 ?pk = key_id k" "drop 24 ?pk = tree_node k 10 1"
    using I by (simp_all add: lms_public_key_def slice_def)
  have len: "length sig = 1452" and q: "?q < 1024"
    using assms(2) by (auto simp: lms_verify_def pk Let_def word_le_nat_alt push_bit_eq_mult not_le split: if_splits)
  have node: "(of_nat (1024 + ?q) :: u32) = 1024 + load_be32 sig" by simp
  have up: "path_loop I P hs (1024 + load_be32 sig) n = Some (path_nodes I P hs (1024 + ?q) n)" for I P hs n
    using path_loop_eq[of "1024 + ?q" I P hs n] q by simp
  have small: "\<not> load_be32 sig \<ge> push_bit 10 1" using q by (simp add: word_le_nat_alt push_bit_eq_mult)
  obtain kc where kc: "lmots_candidate msg (slice 4 1124 sig) (key_id k) (store_be32 (load_be32 sig)) = Some (Some kc)"
    and root: "path_nodes (key_id k) (drop 1132 sig) [0..<10] (1024 + ?q)
        (sha256_bytes (key_id k @ store_be32 (of_nat (1024 + ?q)) @ d_leaf @ kc)) = tree_node k 10 1"
    using assms(2) small unfolding lms_verify_def node
    by (auto simp: pk Let_def push_bit_eq_mult up split: if_splits bind_splits option.splits)
  have one: "(1024 + ?q) div 2 ^ 10 = 1" using q by simp
  have "sha256_bytes (path_input (key_id k) (drop 1132 sig) kc (1024 + ?q) 10) =
      sha256_bytes (tree_input k 10 ((1024 + ?q) div 2 ^ 10))"
    using root path_nodes_input[of 0 10 "key_id k" "drop 1132 sig" "1024 + ?q" kc] unfolding one by (simp add: tree_node_def)
  from root_binds[OF _ I _ this] len
  have "path_input (key_id k) (drop 1132 sig) kc (1024 + ?q) 0 = tree_input k 0 (1024 + ?q) \<or>
      (\<exists>h\<le>10. collision_at k (drop 1132 sig) kc (1024 + ?q) h)"
    by simp
  then show ?thesis using kc q by auto
qed


lemma lms_binds_leaf_witness:
  "let sig = lms_sign plain_key 5 (replicate 32 9) [1, 2, 3]
   in \<exists>kc. unat (load_be32 sig) < 1024 \<and>
        lmots_candidate [1, 2, 3] (slice 4 1124 sig) (key_id plain_key) (store_be32 (load_be32 sig)) = Some (Some kc) \<and>
        (kc = ots_public plain_key (unat (load_be32 sig)) \<or>
         (\<exists>h\<le>10. collision_at plain_key (drop 1132 sig) kc (1024 + unat (load_be32 sig)) h))"
  unfolding Let_def
  by (rule lms_binds_leaf[OF plain_key_wf signature_accepted[OF plain_key_wf]]) simp_all

end
