(* ===== verification/Rse_Mcuboot.thy ===== *)
theory Rse_Mcuboot
  imports Rse_Lms
begin

text \<open>
  MCUboot image headers (\<^verbatim>\<open>src/qemu-components/rse_cpu_accel/include/rse_mcuboot_image.h\<close>):
  reading a header and the length of the region that is hashed, whose sum is shown never to wrap,
  and the digest of a region behind a seed.
\<close>


subsection \<open>The image header\<close>

abbreviation (input) IMAGE_MAGIC :: u32 where "IMAGE_MAGIC \<equiv> 0x96f3b83d"
abbreviation (input) IMAGE_F_ENCRYPTED_AES128 :: u32 where "IMAGE_F_ENCRYPTED_AES128 \<equiv> 4"
abbreviation (input) IMAGE_F_RAM_LOAD :: u32 where "IMAGE_F_RAM_LOAD \<equiv> 0x20"
abbreviation (input) IMAGE_HEADER_SIZE :: nat where "IMAGE_HEADER_SIZE \<equiv> 32"
abbreviation (input) IMAGE_TLV_INFO_SIZE :: nat where "IMAGE_TLV_INFO_SIZE \<equiv> 4"

record image_header =
  ih_magic :: u32
  ih_load_addr :: u32
  ih_hdr_size :: u16
  ih_protect_tlv_size :: u16
  ih_img_size :: u32
  ih_flags :: u32

definition image_header0 :: image_header where
  "image_header0 = \<lparr>ih_magic = 0, ih_load_addr = 0, ih_hdr_size = 0, ih_protect_tlv_size = 0, ih_img_size = 0, ih_flags = 0\<rparr>"

definition load_le16 :: "u8 list \<Rightarrow> u16" where
  "load_le16 p = ucast (p ! 0) OR push_bit 8 (ucast (p ! 1))"

definition load_le32 :: "u8 list \<Rightarrow> u32" where
  "load_le32 p = ucast (p ! 0) OR push_bit 8 (ucast (p ! 1)) OR push_bit 16 (ucast (p ! 2)) OR push_bit 24 (ucast (p ! 3))"

text \<open>Success and the header, which is written before its magic and size are judged.\<close>

definition parse_header :: "u8 list option \<Rightarrow> image_header \<Rightarrow> bool \<times> image_header" where
  "parse_header data header =
     (case data of
        None \<Rightarrow> (False, header)
      | Some data \<Rightarrow>
          (if length data < IMAGE_HEADER_SIZE then (False, header)
           else
             (let header = \<lparr>ih_magic = load_le32 data, ih_load_addr = load_le32 (drop 4 data), ih_hdr_size = load_le16 (drop 8 data),
                  ih_protect_tlv_size = load_le16 (drop 10 data), ih_img_size = load_le32 (drop 12 data), ih_flags = load_le32 (drop 16 data)\<rparr>
              in (ih_magic header = IMAGE_MAGIC \<and> unat (ih_hdr_size header) \<ge> IMAGE_HEADER_SIZE, header))))"

definition checked_add :: "u64 \<Rightarrow> u64 \<Rightarrow> u64 option" where
  "checked_add lhs rhs = (if lhs > - 1 - rhs then None else Some (lhs + rhs))"

definition hash_region_size :: "image_header \<Rightarrow> u64 option" where
  "hash_region_size header =
     do { total \<leftarrow> checked_add (ucast (ih_hdr_size header)) (ucast (ih_img_size header));
          checked_add total (ucast (ih_protect_tlv_size header)) }"

definition parse_tlv_info :: "u8 list option \<Rightarrow> (u16 \<times> u16) option" where
  "parse_tlv_info data =
     (case data of
        None \<Rightarrow> None
      | Some data \<Rightarrow> (if length data < IMAGE_TLV_INFO_SIZE then None else Some (load_le16 data, load_le16 (drop 2 data))))"

definition mcuboot_sha256 :: "u8 list option \<Rightarrow> u8 list \<Rightarrow> u8 list ub" where
  "mcuboot_sha256 seed img =
     do { sha \<leftarrow> (case seed of None \<Rightarrow> Some lms_reset | Some seed \<Rightarrow> (if seed \<noteq> [] then update seed lms_reset else Some lms_reset));
          sha \<leftarrow> update img sha;
          finish sha }"

subsection \<open>Facts\<close>

lemma load_le16_le: "load_le16 ([a, b] @ bs) = le_word [a, b]"
  by (simp add: load_le16_def)

lemma load_le32_le: "load_le32 ([a, b, c, d] @ bs) = le_word [a, b, c, d]"
  by (simp add: load_le32_def push_bit_or ac_simps)

lemma load_le_bytes [simp]: "load_le16 (le_bytes 2 v @ bs) = v" "load_le32 (le_bytes 4 w @ bs) = w"
proof -
  have "load_le16 (le_bytes 2 v @ bs) = le_word (le_bytes 2 v)" unfolding le_bytes_2 by (rule load_le16_le)
  then show "load_le16 (le_bytes 2 v @ bs) = v" by simp
  have "load_le32 (le_bytes 4 w @ bs) = le_word (le_bytes 4 w)" unfolding le_bytes_4 by (rule load_le32_le)
  then show "load_le32 (le_bytes 4 w @ bs) = w" by simp
qed

definition header_bytes :: "image_header \<Rightarrow> u8 list" where
  "header_bytes h = le_bytes 4 (ih_magic h) @ le_bytes 4 (ih_load_addr h) @ le_bytes 2 (ih_hdr_size h) @
     le_bytes 2 (ih_protect_tlv_size h) @ le_bytes 4 (ih_img_size h) @ le_bytes 4 (ih_flags h)"

lemma length_header_bytes [simp]: "length (header_bytes h) = 20"
  by (simp add: header_bytes_def)

text \<open>A header written to bytes is read back, whatever follows it.\<close>

lemma header_roundtrip:
  assumes "ih_magic h = IMAGE_MAGIC" "32 \<le> unat (ih_hdr_size h)" "12 \<le> length rest"
  shows "parse_header (Some (header_bytes h @ rest)) h0 = (True, h)"
  using assms by (cases h) (simp add: parse_header_def header_bytes_def Let_def)

text \<open>The region to hash always has a size: its three parts are narrower than the sum, which never wraps.\<close>

lemma hash_region_total:
  "\<exists>n. hash_region_size h = Some n \<and>
     unat n = unat (ih_hdr_size h) + unat (ih_img_size h) + unat (ih_protect_tlv_size h)"
proof -
  have u: "uint (ucast x :: u64) = uint x" for x :: u16
    using uint_lt2p[of x] by (simp add: unsigned_ucast_eq take_bit_int_eq_self_iff)
  have h: "uint (ih_hdr_size h) < 2 ^ 16" "uint (ih_protect_tlv_size h) < 2 ^ 16" "uint (ih_img_size h) < 2 ^ 32"
    using unsigned_less[of "ih_hdr_size h"] unsigned_less[of "ih_protect_tlv_size h"] unsigned_less[of "ih_img_size h"] by simp_all
  let ?a = "ucast (ih_hdr_size h) + ucast (ih_img_size h) :: u64"
  have a: "uint ?a = uint (ih_hdr_size h) + uint (ih_img_size h)"
    using h by (subst uint_add_fits) (simp_all add: u)
  have b: "uint (?a + ucast (ih_protect_tlv_size h)) = uint (ih_hdr_size h) + uint (ih_img_size h) + uint (ih_protect_tlv_size h)"
    using h by (subst uint_add_fits) (simp_all add: u a)
  have "hash_region_size h = Some (?a + ucast (ih_protect_tlv_size h))"
    using h by (simp add: hash_region_size_def checked_add_def max_minus_less_iff a u)
  moreover from b have "unat (?a + ucast (ih_protect_tlv_size h)) =
      unat (ih_hdr_size h) + unat (ih_img_size h) + unat (ih_protect_tlv_size h)"
    by (simp only: unat_eq_nat_uint) (simp add: nat_add_distrib)
  ultimately show ?thesis by blast
qed

lemma mcuboot_sha256: "mcuboot_sha256 seed img = Some (sha256_bytes (case_option [] (\<lambda>s. s) seed @ img))"
proof -
  have "mcuboot_sha256 seed img = sha256_concat (case seed of None \<Rightarrow> [img] | Some s \<Rightarrow> if s = [] then [img] else [s, img])"
    by (auto simp: mcuboot_sha256_def sha256_concat_def simp del: sha256_concat split: option.split)
  then show ?thesis by (auto split: option.split)
qed

end
