(* ===== verification/Rse_P256.thy ===== *)
theory Rse_P256
  imports Cc3xx_Pka Rse_Lms
begin

text \<open>
  ECDSA over P-256 (\<^verbatim>\<open>src/qemu-components/rse_cpu_accel/include/rse_p256_ecdsa.h\<close>): numbers
  and the curve, DER signatures read with 64-bit offsets that wrap, public keys found in their
  encoding, and the check itself. The unbounded \<^verbatim>\<open>cpp_int\<close> is \<open>int\<close>; its \<open>%\<close> and \<open>/\<close> round
  towards zero. The loop of the extended Euclidean algorithm is the one of the public key engine.

  Sums of points stay on the curve, DER signatures in range are read back, the parser stays in the
  buffer unless a length of eight bytes is announced, and with such a length it does leave it.
\<close>

unbundle bit_operations_syntax

subsection \<open>Numbers\<close>

record point =
  pt_x :: int
  pt_y :: int
  pt_infinity :: bool

definition point0 :: point where
  "point0 = \<lparr>pt_x = 0, pt_y = 0, pt_infinity = True\<rparr>"

definition hex_digit :: "char \<Rightarrow> int option" where
  "hex_digit c =
     (let c = of_char c
      in if 48 \<le> c \<and> c \<le> 57 then Some (c - 48)
         else if 97 \<le> c \<and> c \<le> 102 then Some (10 + c - 97)
         else if 65 \<le> c \<and> c \<le> 70 then Some (10 + c - 65)
         else None)"

definition from_hex :: "string \<Rightarrow> int" where
  "from_hex hex = fold (\<lambda>c v. case hex_digit c of None \<Rightarrow> v | Some d \<Rightarrow> push_bit 4 v + d) hex 0"

definition p256_p :: int where
  "p256_p = from_hex (''ffffffff0000000100000000000000000'' @ ''0000000ffffffffffffffffffffffff'')"

definition p256_n :: int where
  "p256_n = from_hex (''ffffffff00000000ffffffffffffffff'' @ ''bce6faada7179e84f3b9cac2fc632551'')"

definition p256_a :: int where
  "p256_a = p256_p - 3"

definition p256_b :: int where
  "p256_b = from_hex (''5ac635d8aa3a93e7b3ebbd55769886bc'' @ ''651d06b0cc53b0f63bce3c3e27d2604b'')"

definition generator :: point where
  "generator = \<lparr>pt_x = from_hex (''6b17d1f2e12c4247f8bce6e563a440f2'' @ ''77037d812deb33a0f4a13945d898c296''),
     pt_y = from_hex (''4fe342e2fe1a7f9b8ee7eb4a7c0f9e16'' @ ''2bce33576b315ececbb6406837bf51f5''), pt_infinity = False\<rparr>"

definition p256_mod :: "int \<Rightarrow> int \<Rightarrow> int" where
  "p256_mod v modulus = (let v = v smod modulus in if v < 0 then v + modulus else v)"

definition from_be :: "u8 list \<Rightarrow> int" where
  "from_be data = fold (\<lambda>d v. push_bit 8 v + uint d) data 0"

definition p256_mod_inverse :: "int \<Rightarrow> int \<Rightarrow> int" where
  "p256_mod_inverse v modulus =
     (let v = p256_mod v modulus; (t, r) = inverse_loop 0 1 modulus v
      in if r \<noteq> 1 then 0 else p256_mod t modulus)"

subsection \<open>Points\<close>

definition is_on_curve :: "point \<Rightarrow> bool" where
  "is_on_curve point =
     (if pt_infinity point then False
      else p256_mod (pt_y point * pt_y point) p256_p =
           p256_mod (pt_x point * pt_x point * pt_x point + p256_a * pt_x point + p256_b) p256_p)"

definition point_double :: "point \<Rightarrow> point" where
  "point_double point =
     (if pt_infinity point \<or> pt_y point = 0 then point0
      else
        (let lambda = p256_mod ((3 * pt_x point * pt_x point + p256_a) * p256_mod_inverse (2 * pt_y point) p256_p) p256_p;
             x = p256_mod (lambda * lambda - 2 * pt_x point) p256_p
         in \<lparr>pt_x = x, pt_y = p256_mod (lambda * (pt_x point - x) - pt_y point) p256_p, pt_infinity = False\<rparr>))"

definition point_add :: "point \<Rightarrow> point \<Rightarrow> point" where
  "point_add lhs rhs =
     (if pt_infinity lhs then rhs
      else if pt_infinity rhs then lhs
      else if pt_x lhs = pt_x rhs
      then (if p256_mod (pt_y lhs + pt_y rhs) p256_p = 0 then point0 else point_double lhs)
      else
        (let lambda = p256_mod ((pt_y rhs - pt_y lhs) * p256_mod_inverse (pt_x rhs - pt_x lhs) p256_p) p256_p;
             x = p256_mod (lambda * lambda - pt_x lhs - pt_x rhs) p256_p
         in \<lparr>pt_x = x, pt_y = p256_mod (lambda * (pt_x lhs - x) - pt_y lhs) p256_p, pt_infinity = False\<rparr>))"

function multiply_loop :: "point \<Rightarrow> point \<Rightarrow> int \<Rightarrow> point" where
  "multiply_loop result point scalar =
     (if scalar > 0
      then
        (let result = (if scalar AND 1 \<noteq> 0 then point_add result point else result);
             scalar = drop_bit 1 scalar;
             point = (if scalar \<noteq> 0 then point_double point else point)
         in multiply_loop result point scalar)
      else result)"
  by pat_completeness auto
termination
  by (relation "measure (\<lambda>(result, point, scalar). nat scalar)") (auto simp: drop_bit_eq_div)

declare multiply_loop.simps [simp del]

definition scalar_multiply :: "point \<Rightarrow> int \<Rightarrow> point" where
  "scalar_multiply point scalar = multiply_loop point0 point (p256_mod scalar p256_n)"

subsection \<open>DER signatures\<close>

text \<open>
  Offsets and lengths are \<^verbatim>\<open>size_t\<close> and wrap. A read outside the buffer is undefined. The results
  are the value of the function and of the variables it is given by reference.
\<close>

definition byte_at :: "u8 list \<Rightarrow> u64 \<Rightarrow> u8 ub" where
  "byte_at data offset = (if unat offset < length data then Some (data ! unat offset) else None)"

primrec length_loop :: "u8 list \<Rightarrow> nat \<Rightarrow> u64 \<Rightarrow> u64 \<Rightarrow> (u64 \<times> u64) ub" where
  "length_loop data 0 offset len = Some (offset, len)"
| "length_loop data (Suc n) offset len =
     do { b \<leftarrow> byte_at data offset; length_loop data n (offset + 1) (push_bit 8 len OR ucast b) }"

definition parse_der_length :: "u8 list \<Rightarrow> u64 \<Rightarrow> u64 \<Rightarrow> u64 \<Rightarrow> (bool \<times> u64 \<times> u64) ub" where
  "parse_der_length data sz offset len =
     (if offset \<ge> sz then Some (False, offset, len)
      else do {
        first \<leftarrow> byte_at data offset;
        let offset = offset + 1;
        if first AND 0x80 = 0
        then Some (offset + ucast first \<le> sz, offset, ucast first)
        else
          (let bytes = unat (first AND 0x7f)
           in if bytes = 0 \<or> bytes > 8 \<or> offset + of_nat bytes > sz then Some (False, offset, len)
              else do {
                (offset, len) \<leftarrow> length_loop data bytes offset 0;
                Some (offset + len \<le> sz, offset, len) }) })"

function strip_zeros :: "u8 list \<Rightarrow> u64 \<Rightarrow> u64 \<Rightarrow> (u64 \<times> u64) ub" where
  "strip_zeros data offset len =
     (if len > 1
      then do { b \<leftarrow> byte_at data offset;
                if b = 0 then strip_zeros data (offset + 1) (len - 1) else Some (offset, len) }
      else Some (offset, len))"
  by pat_completeness auto
termination
  by (relation "measure (\<lambda>(data, offset, len). unat len)") (auto intro!: measure_unat)

declare strip_zeros.simps [simp del]

definition parse_der_integer :: "u8 list \<Rightarrow> u64 \<Rightarrow> u64 \<Rightarrow> int \<Rightarrow> (bool \<times> u64 \<times> int) ub" where
  "parse_der_integer data sz offset v =
     (if offset \<ge> sz then Some (False, offset, v)
      else do {
        tag \<leftarrow> byte_at data offset;
        let offset = offset + 1;
        if tag \<noteq> 0x02 then Some (False, offset, v)
        else do {
          (ok, offset, len) \<leftarrow> parse_der_length data sz offset 0;
          if \<not> ok \<or> len = 0 then Some (False, offset, v)
          else do {
            b \<leftarrow> byte_at data offset;
            if b AND 0x80 \<noteq> 0 then Some (False, offset, v)
            else do {
              (offset, len) \<leftarrow> strip_zeros data offset len;
              if unat offset + unat len \<le> length data
              then Some (True, offset + len, from_be (slice (unat offset) (unat len) data))
              else None } } } })"

definition parse_ecdsa_der_signature :: "u8 list option \<Rightarrow> int \<Rightarrow> int \<Rightarrow> (bool \<times> int \<times> int) ub" where
  "parse_ecdsa_der_signature sig r s =
     (case sig of
        None \<Rightarrow> Some (False, r, s)
      | Some sig \<Rightarrow>
          (if sig = [] then Some (False, r, s)
           else do {
             let sig_size = of_nat (length sig);
             tag \<leftarrow> byte_at sig 0;
             if tag \<noteq> 0x30 then Some (False, r, s)
             else do {
               (ok, offset, seq_length) \<leftarrow> parse_der_length sig sig_size 1 0;
               if \<not> ok then Some (False, r, s)
               else
                 (let seq_end = offset + seq_length
                  in if seq_end \<noteq> sig_size then Some (False, r, s)
                     else do {
                       (ok, offset, r) \<leftarrow> parse_der_integer sig seq_end offset r;
                       if \<not> ok then Some (False, r, s)
                       else do {
                         (ok, offset, s) \<leftarrow> parse_der_integer sig seq_end offset s;
                         if \<not> ok \<or> offset \<noteq> seq_end then Some (False, r, s)
                         else Some (r > 0 \<and> r < p256_n \<and> s > 0 \<and> s < p256_n, r, s) } }) } }))"

subsection \<open>Verifying a signature\<close>

definition key_candidate :: "u8 list \<Rightarrow> nat \<Rightarrow> point" where
  "key_candidate key i = \<lparr>pt_x = from_be (slice (i + 1) 32 key), pt_y = from_be (slice (i + 33) 32 key), pt_infinity = False\<rparr>"

fun find_point :: "u8 list \<Rightarrow> nat list \<Rightarrow> point \<Rightarrow> bool \<times> point" where
  "find_point key [] point = (False, point)"
| "find_point key (i # is) point =
     (if key ! i \<noteq> 0x04 then find_point key is point
      else
        (let candidate = key_candidate key i
         in if is_on_curve candidate then (True, candidate) else find_point key is point))"

definition parse_public_key_point :: "u8 list option \<Rightarrow> point \<Rightarrow> bool \<times> point" where
  "parse_public_key_point key point =
     (case key of
        None \<Rightarrow> (False, point)
      | Some key \<Rightarrow>
          (if length key < 65 then (False, point)
           else if length key = 65 \<and> key ! 0 = 0x04
           then (let point = key_candidate key 0 in (is_on_curve point, point))
           else find_point key [0..<length key - 64] point))"

definition ecdsa_verify :: "u8 list option \<Rightarrow> u8 list option \<Rightarrow> u8 list option \<Rightarrow> bool ub" where
  "ecdsa_verify public_key hash signature =
     (case hash of
        None \<Rightarrow> Some False
      | Some hash \<Rightarrow>
          (if length hash \<noteq> 32 then Some False
           else
             (case parse_public_key_point public_key point0 of
                (False, q) \<Rightarrow> Some False
              | (True, q) \<Rightarrow> do {
                  (ok, r, s) \<leftarrow> parse_ecdsa_der_signature signature 0 0;
                  if \<not> ok then Some False
                  else
                    (let e = from_be hash; w = p256_mod_inverse s p256_n
                     in if w = 0 then Some False
                        else
                          (let u1 = p256_mod (e * w) p256_n; u2 = p256_mod (r * w) p256_n;
                               point = point_add (scalar_multiply generator u1) (scalar_multiply q u2)
                           in Some (\<not> pt_infinity point \<and> p256_mod (pt_x point) p256_n = r))) })))"

definition ecdsa_verify_vectors :: "u8 list \<Rightarrow> u8 list \<Rightarrow> u8 list \<Rightarrow> bool ub" where
  "ecdsa_verify_vectors public_key hash signature = ecdsa_verify (Some public_key) (Some hash) (Some signature)"


subsection \<open>Arithmetic modulo the prime\<close>

lemma p256_mod [simp]: "0 < m \<Longrightarrow> p256_mod v m = v mod m"
  using smod_fixed[of m v] by (simp add: p256_mod_def Let_def)

lemma p256_values:
  "p256_p = 2 ^ 256 - 2 ^ 224 + 2 ^ 192 + 2 ^ 96 - 1"
  "p256_n = 115792089210356248762697446949407573529996955224135760342422259061068512044369"
  "p256_b = 41058363725152142129326129780047268409114441015993725554835256314039467401291"
  unfolding p256_p_def p256_n_def p256_b_def by code_simp+

lemma p256_bounds: "1 < p256_p" "1 < p256_n"
  by (simp_all add: p256_values)

lemma p256_inverse:
  assumes "1 < m" and "gcd v m = 1"
  shows "(p256_mod_inverse v m * v) mod m = 1"
proof -
  have "euclid_inv m (v mod m) 0 1 m (v mod m)" using assms by (simp add: euclid_inv_def)
  from inverse_loop_spec[OF this] obtain t nt where t: "inverse_loop 0 1 m (v mod m) = (t, gcd v m)"
    "euclid_inv m (v mod m) t nt (gcd v m) 0" using assms(1) by (auto simp: gcd_red_int[symmetric] gcd.commute[of m])
  have "(t mod m * v) mod m = (t * (v mod m)) mod m" by (simp add: mod_mult_right_eq mod_mult_left_eq)
  also have "\<dots> = 1" using t(2) assms by (simp add: euclid_inv_def)
  finally show ?thesis using assms t(1) by (simp add: p256_mod_inverse_def Let_def)
qed

lemma chord_third:
  fixes P :: int
  assumes "P dvd y1 * y1 - (x1 * x1 * x1 + a * x1 + b)" and "P dvd y2 * y2 - (x2 * x2 * x2 + a * x2 + b)"
    and "P dvd L * (x2 - x1) - (y2 - y1)" and "P dvd i * (x2 - x1) - 1"
    and "P dvd x3 - (L * L - x1 - x2)" and "P dvd y3 - (L * (x1 - x3) - y1)"
  shows "P dvd y3 * y3 - (x3 * x3 * x3 + a * x3 + b)"
  using assms by algebra

lemma tangent_third:
  fixes P :: int
  assumes "P dvd y1 * y1 - (x1 * x1 * x1 + a * x1 + b)"
    and "P dvd L * (2 * y1) - (3 * x1 * x1 + a)"
    and "P dvd x3 - (L * L - 2 * x1)" and "P dvd y3 - (L * (x1 - x3) - y1)"
  shows "P dvd y3 * y3 - (x3 * x3 * x3 + a * x3 + b)"
  using assms by algebra


lemma mod_congruent: "u mod p256_p = v mod p256_p \<longleftrightarrow> p256_p dvd u - v"
  by (rule mod_eq_dvd_iff)

lemma dvd_mod_diff: "p256_p dvd u mod p256_p - u"
  by (simp flip: mod_congruent)

lemma on_curve_dvd:
  "is_on_curve q \<longleftrightarrow> \<not> pt_infinity q \<and>
     p256_p dvd pt_y q * pt_y q - (pt_x q * pt_x q * pt_x q + p256_a * pt_x q + p256_b)"
  using p256_bounds by (simp add: is_on_curve_def mod_congruent)

text \<open>A point with reduced coordinates that lies on the curve or at infinity.\<close>

definition curve_point :: "point \<Rightarrow> bool" where
  "curve_point q \<longleftrightarrow> pt_infinity q \<or>
     is_on_curve q \<and> 0 \<le> pt_x q \<and> pt_x q < p256_p \<and> 0 \<le> pt_y q \<and> pt_y q < p256_p"

lemma inverse_dvd: "gcd v p256_p = 1 \<Longrightarrow> p256_p dvd p256_mod_inverse v p256_p * v - 1"
  using p256_inverse[OF p256_bounds(1), of v] p256_bounds by (simp add: mod_eq_dvd_iff[symmetric])

lemma slope_dvd:
  assumes "gcd v p256_p = 1"
  shows "p256_p dvd (u * p256_mod_inverse v p256_p) mod p256_p * v - u"
proof -
  let ?i = "p256_mod_inverse v p256_p"
  have "p256_p dvd ((u * ?i) mod p256_p - u * ?i) * v + u * (?i * v - 1)"
    using dvd_mod_diff[of "u * ?i"] inverse_dvd[OF assms] by (intro dvd_add dvd_mult2 dvd_mult) auto
  then show ?thesis by (simp add: algebra_simps)
qed

lemma double_on_curve:
  assumes "is_on_curve q" and "gcd (2 * pt_y q) p256_p = 1"
  shows "curve_point (point_double q)"
proof -
  have pos: "0 < p256_p" using p256_bounds by simp
  define l where "l = ((3 * pt_x q * pt_x q + p256_a) * p256_mod_inverse (2 * pt_y q) p256_p) mod p256_p"
  define x where "x = (l * l - 2 * pt_x q) mod p256_p"
  define y where "y = (l * (pt_x q - x) - pt_y q) mod p256_p"
  have "p256_p dvd y * y - (x * x * x + p256_a * x + p256_b)"
  proof (rule tangent_third)
    show "p256_p dvd l * (2 * pt_y q) - (3 * pt_x q * pt_x q + p256_a)"
      unfolding l_def by (rule slope_dvd[OF assms(2)])
    show "p256_p dvd x - (l * l - 2 * pt_x q)" "p256_p dvd y - (l * (pt_x q - x) - pt_y q)"
      unfolding x_def[symmetric] by (simp_all only: x_def y_def dvd_mod_diff)
  qed (use assms(1) in \<open>simp add: on_curve_dvd\<close>)
  moreover have "point_double q = (if pt_y q = 0 then point0 else \<lparr>pt_x = x, pt_y = y, pt_infinity = False\<rparr>)"
    using assms(1) pos by (simp add: on_curve_dvd point_double_def Let_def l_def x_def y_def)
  moreover have "0 \<le> x" "x < p256_p" "0 \<le> y" "y < p256_p" using pos by (simp_all add: x_def y_def)
  ultimately show ?thesis by (simp add: curve_point_def on_curve_dvd point0_def)
qed

lemma chord_on_curve:
  assumes "is_on_curve q" and "is_on_curve r"
    and "if pt_x q = pt_x r then gcd (2 * pt_y q) p256_p = 1 else gcd (pt_x r - pt_x q) p256_p = 1"
  shows "curve_point (point_add q r)"
proof (cases "pt_x q = pt_x r")
  case True
  then show ?thesis using assms double_on_curve[of q] p256_bounds
    by (auto simp: point_add_def is_on_curve_def curve_point_def point0_def)
next
  case False
  have pos: "0 < p256_p" using p256_bounds by simp
  define l where "l = ((pt_y r - pt_y q) * p256_mod_inverse (pt_x r - pt_x q) p256_p) mod p256_p"
  define x where "x = (l * l - pt_x q - pt_x r) mod p256_p"
  define y where "y = (l * (pt_x q - x) - pt_y q) mod p256_p"
  have g: "gcd (pt_x r - pt_x q) p256_p = 1" using assms(3) False by simp
  have "p256_p dvd y * y - (x * x * x + p256_a * x + p256_b)"
  proof (rule chord_third[OF _ _ _ inverse_dvd[OF g]])
    show "p256_p dvd l * (pt_x r - pt_x q) - (pt_y r - pt_y q)"
      unfolding l_def by (rule slope_dvd[OF g])
    show "p256_p dvd x - (l * l - pt_x q - pt_x r)" "p256_p dvd y - (l * (pt_x q - x) - pt_y q)"
      unfolding x_def[symmetric] by (simp_all only: x_def y_def dvd_mod_diff)
  qed (use assms(1,2) in \<open>simp_all add: on_curve_dvd\<close>)
  moreover have "point_add q r = \<lparr>pt_x = x, pt_y = y, pt_infinity = False\<rparr>"
    using assms(1,2) False pos by (simp add: on_curve_dvd point_add_def Let_def l_def x_def y_def)
  moreover have "0 \<le> x" "x < p256_p" "0 \<le> y" "y < p256_p" using pos by (simp_all add: x_def y_def)
  ultimately show ?thesis by (simp add: curve_point_def on_curve_dvd)
qed

text \<open>
  C23. The sum of two points of the curve is a point of the curve with reduced coordinates, or the point
  at infinity. The slope needs an inverse: of the difference of the first coordinates, or of twice
  the second one where the first ones agree.
\<close>

theorem p256_add_on_curve:
  assumes "is_on_curve q" and "is_on_curve r"
    and "if pt_x q = pt_x r then gcd (2 * pt_y q) p256_p = 1 else gcd (pt_x r - pt_x q) p256_p = 1"
  shows "curve_point (point_add q r)"
  by (rule chord_on_curve[OF assms])

text \<open>With a prime modulus no slope lacks its inverse, so sums and multiples of points stay on the curve.\<close>

lemma small_dvd: "p256_p dvd v \<Longrightarrow> \<bar>v\<bar> < p256_p \<Longrightarrow> v = 0"
  using zdvd_imp_le[of p256_p "\<bar>v\<bar>"] by auto

lemma double_curve_point:
  assumes prime: "\<And>v. \<not> p256_p dvd v \<Longrightarrow> gcd v p256_p = 1" and "curve_point q"
  shows "curve_point (point_double q)"
proof (cases "pt_infinity q \<or> pt_y q = 0")
  case True
  then show ?thesis by (simp add: point_double_def curve_point_def point0_def)
next
  case False
  with assms(2) have q: "is_on_curve q" "0 < pt_y q" "pt_y q < p256_p" by (auto simp: curve_point_def)
  have "\<not> p256_p dvd 2 * pt_y q"
  proof
    assume "p256_p dvd 2 * pt_y q"
    then obtain c where c: "2 * pt_y q = p256_p * c" by (rule dvdE)
    with q have "p256_p * 0 < p256_p * c" "p256_p * c < p256_p * 2" by linarith+
    then have "c = 1" using p256_bounds(1) by (auto simp: mult_less_cancel_left zero_less_mult_iff)
    with c have "even p256_p" by (metis dvd_triv_left mult.right_neutral)
    then show False by (simp add: p256_values)
  qed
  with q(1) prime show ?thesis by (intro double_on_curve) blast+
qed

lemma add_curve_point:
  assumes prime: "\<And>v. \<not> p256_p dvd v \<Longrightarrow> gcd v p256_p = 1" and q: "curve_point q" and r: "curve_point r"
  shows "curve_point (point_add q r)"
proof (cases "pt_infinity q \<or> pt_infinity r \<or> (pt_x q = pt_x r \<and> (pt_y q + pt_y r) mod p256_p = 0)")
  case True
  then show ?thesis using q r p256_bounds by (auto simp: point_add_def curve_point_def point0_def)
next
  case False
  with q r have on: "is_on_curve q" "is_on_curve r"
    and bd: "0 \<le> pt_x q" "pt_x q < p256_p" "0 \<le> pt_x r" "pt_x r < p256_p" "0 \<le> pt_y q" "pt_y q < p256_p" "0 \<le> pt_y r" "pt_y r < p256_p"
    by (auto simp: curve_point_def)
  show ?thesis
  proof (cases "pt_x q = pt_x r")
    case True
    then have "point_add q r = point_double q" using False p256_bounds by (simp add: point_add_def)
    with double_curve_point[OF prime q] show ?thesis by simp
  next
    case neq: False
    have "\<not> p256_p dvd pt_x r - pt_x q" using small_dvd[of "pt_x r - pt_x q"] neq bd by linarith
    with prime neq have "if pt_x q = pt_x r then gcd (2 * pt_y q) p256_p = 1 else gcd (pt_x r - pt_x q) p256_p = 1" by simp
    with neq on show ?thesis
      using chord_on_curve by simp
  qed
qed

lemma scalar_multiply_on_curve:
  assumes prime: "\<And>v. \<not> p256_p dvd v \<Longrightarrow> gcd v p256_p = 1" and q: "curve_point q"
  shows "curve_point (scalar_multiply q k)"
proof -
  have "curve_point a \<Longrightarrow> curve_point b \<Longrightarrow> curve_point (multiply_loop a b n)" for a b n
  proof (induction a b n rule: multiply_loop.induct)
    case (1 a b n)
    show ?case
    proof (cases "n > 0")
      case True
      have "curve_point (if n AND 1 \<noteq> 0 then point_add a b else a)"
        "curve_point (if drop_bit 1 n \<noteq> 0 then point_double b else b)"
        using 1(2,3) add_curve_point[OF prime] double_curve_point[OF prime] by simp_all
      from 1(1)[OF True refl refl refl this] True show ?thesis
        by (subst multiply_loop.simps) (simp add: Let_def del: One_nat_def)
    qed (use 1(2) in \<open>simp add: multiply_loop.simps\<close>)
  qed
  then show ?thesis using q by (simp add: scalar_multiply_def curve_point_def point0_def)
qed

definition sample_points :: "point \<times> point" where
  "sample_points =
     (\<lparr>pt_x = 5, pt_y = 31468013646237722594854082025316614106172411895747863909393730389177298123724, pt_infinity = False\<rparr>,
      \<lparr>pt_x = 6, pt_y = 24739918328848417526480033809572464882617473122143770809273908485596236620747, pt_infinity = False\<rparr>)"

lemma samples_on_curve: "is_on_curve (fst sample_points)" "is_on_curve (snd sample_points)"
proof -
  let ?q = "fst sample_points" and ?r = "snd sample_points"
  have "pt_y ?q * pt_y ?q - (pt_x ?q * pt_x ?q * pt_x ?q + p256_a * pt_x ?q + p256_b) =
      p256_p * (8551843995498429138253737279425323387534507233058307853289950121593724778020)"
    by (simp add: sample_points_def p256_values p256_a_def)
  then show "is_on_curve ?q" unfolding on_curve_dvd by (simp add: sample_points_def)
  have "pt_y ?r * pt_y ?r - (pt_x ?r * pt_x ?r * pt_x ?r + p256_a * pt_x ?r + p256_b) =
      p256_p * (5285884062478319511392287661014471364448788078168491229213617046946205482514)"
    by (simp add: sample_points_def p256_values p256_a_def)
  then show "is_on_curve ?r" unfolding on_curve_dvd by (simp add: sample_points_def)
qed

lemma p256_add_on_curve_witness: "curve_point (point_add (fst sample_points) (snd sample_points))"
  by (rule p256_add_on_curve[OF samples_on_curve]) (simp add: sample_points_def)

subsection \<open>What the DER parser reads\<close>

text \<open>A short buffer with a content of fewer than 128 bytes: the length is one byte.\<close>

definition der_integer :: "u8 list \<Rightarrow> u8 list" where
  "der_integer bs = 0x02 # of_nat (length bs) # bs"

definition der_signature :: "u8 list \<Rightarrow> u8 list \<Rightarrow> u8 list" where
  "der_signature bs cs = (let body = der_integer bs @ der_integer cs in 0x30 # of_nat (length body) # body)"

lemma byte_at_append: "unat off = length xs \<Longrightarrow> byte_at (xs @ b # ys) off = Some b"
  by (simp add: byte_at_def)

lemma unat_Suc: "unat (off :: u64) < 2 ^ 63 \<Longrightarrow> unat (off + 1) = Suc (unat off)"
  using unat_add_small[of off 1] by simp

lemma of_nat_unat: "of_nat (unat w) = (w :: 'a::len word)"
  by simp

lemma of_nat_unat_ucast: "(of_nat (unat (w :: u8)) :: u64) = ucast w"
  by simp

lemma unat_ucast_8_64 [simp]: "unat (ucast (x :: u8) :: u64) = unat x"
  using unat_bound[of x] by (simp add: unsigned_ucast_eq take_bit_nat_eq_self)

lemma low_byte: "(b :: u8) < 0x80 \<Longrightarrow> b AND 0x80 = 0"
  using and_exp_iff[of b 7] bit_nat_le[of "unat b" 7] by (auto simp: bit_simps word_less_nat_alt)

lemma from_be_zero [simp]: "from_be (0 # bs) = from_be bs"
  by (simp add: from_be_def)

lemma strip_zeros_value:
  assumes "unat off = length xs" "unat len = length bs" "bs \<noteq> []" "length (xs @ bs) < 2 ^ 63"
  shows "\<exists>off' len'. strip_zeros (xs @ bs @ ys) off len = Some (off', len') \<and>
     unat off' + unat len' = length xs + length bs \<and>
     from_be (slice (unat off') (unat len') (xs @ bs @ ys)) = from_be bs"
  using assms
proof (induction bs arbitrary: xs off len)
  case (Cons b bs)
  have step: "byte_at (xs @ (b # bs) @ ys) off = Some b" using Cons.prems by (simp add: byte_at_append)
  show ?case
  proof (cases "len > 1 \<and> b = 0")
    case True
    then have len: "unat len > 1" by (simp add: word_less_nat_alt)
    then have "bs \<noteq> []" using Cons.prems(2) by auto
    have len1: "unat (len - 1) = length bs" using len Cons.prems(2) by (simp add: unat_sub_if' word_less_nat_alt)
    have off1: "unat (off + 1) = length (xs @ [b])" using Cons.prems by (simp add: unat_Suc)
    from Cons.IH[OF off1 len1 \<open>bs \<noteq> []\<close>] Cons.prems(4) True step show ?thesis
      by (subst strip_zeros.simps) simp
  next
    case False
    then have "strip_zeros (xs @ (b # bs) @ ys) off len = Some (off, len)"
      using step by (subst strip_zeros.simps) auto
    then show ?thesis using Cons.prems by (simp add: slice_def)
  qed
qed simp

lemma der_length_short:
  assumes "unat off = length xs" "n < 128" "length xs + 1 + n \<le> unat sz"
  shows "parse_der_length (xs @ of_nat n # ys) sz off l = Some (True, off + 1, of_nat n)"
proof -
  have n: "unat (of_nat n :: u8) = n" using assms(2) by (simp add: unat_of_nat_small)
  have "(of_nat n AND 0x80 :: u8) = 0"
  proof -
    have "\<not> bit (of_nat n :: u8) 7" using assms(2) bit_nat_le[of n 7] by (auto simp: bit_of_nat_iff)
    then show ?thesis using and_exp_iff[of "of_nat n :: u8" 7] by simp
  qed
  moreover have "unat (off + 1) = length xs + 1"
    using assms(1,3) unat_bound[of sz] unat_add_small[of off 1] by simp
  moreover from this have "unat (off + 1 + of_nat n) = length xs + 1 + n"
    using assms(2,3) unat_bound[of sz] unat_add_small[of "off + 1" "of_nat n"] by (simp add: unat_of_nat_small)
  moreover have "(ucast (of_nat n :: u8) :: u64) = of_nat n" using n by (metis of_nat_unat_ucast)
  ultimately show ?thesis using assms
    by (simp add: parse_der_length_def byte_at_append word_le_nat_alt)
qed

lemma der_integer_read:
  assumes "unat off = length xs" "bs \<noteq> []" "length bs < 128" "hd bs < 0x80" "length xs + 2 + length bs \<le> unat sz" "length xs + 2 + length bs < 2 ^ 63"
  shows "parse_der_integer (xs @ der_integer bs @ ys) sz off v = Some (True, of_nat (length xs + 2 + length bs), from_be bs)"
proof -
  obtain b cs where bs: "bs = b # cs" using assms(2) by (cases bs) auto
  let ?d = "xs @ der_integer bs @ ys"
  have off1: "unat (off + 1) = length (xs @ [0x02])" using assms(1,6) by (simp add: unat_Suc)
  have off2: "unat (off + 1 + 1) = length (xs @ [0x02, of_nat (length bs)])" using assms(6) off1 unat_Suc[of "off + 1"] by simp
  have len: "parse_der_length ?d sz (off + 1) 0 = Some (True, off + 1 + 1, of_nat (length bs))"
    using der_length_short[OF off1 assms(3), of sz "bs @ ys" 0] assms(5) by (simp add: der_integer_def)
  have tag: "byte_at ?d off = Some 0x02" using assms(1) by (simp add: der_integer_def byte_at_append)
  have first: "byte_at ?d (off + 1 + 1) = Some b" using byte_at_append[OF off2, of b "cs @ ys"] by (simp add: der_integer_def bs)
  have "b AND 0x80 = 0" using assms(4) by (simp add: bs low_byte)
  moreover have l: "unat (of_nat (length bs) :: u64) = length bs" "(of_nat (length bs) :: u64) \<noteq> 0"
    using assms(2,3) by (simp_all add: unat_of_nat_small word_of_nat_eq_0_iff) (auto dest: dvd_imp_le)
  moreover from strip_zeros_value[OF off2 l(1) assms(2), of ys] assms(6)
  obtain o' l' where "strip_zeros ?d (off + 1 + 1) (of_nat (length bs)) = Some (o', l')"
    "unat o' + unat l' = length xs + 2 + length bs" "from_be (slice (unat o') (unat l') ?d) = from_be bs"
    by (auto simp: der_integer_def)
  moreover from this have "o' + l' = of_nat (length xs + 2 + length bs)"
    by (metis of_nat_add of_nat_unat)
  moreover have "\<not> off \<ge> sz" using assms(1,5) by (simp add: word_le_nat_alt)
  ultimately show ?thesis using tag len first unfolding parse_der_integer_def
    by (simp add: der_integer_def)
qed


text \<open>The big-endian bytes of a number with no more leading zeros than DER asks for.\<close>

function be_bytes :: "int \<Rightarrow> u8 list" where
  "be_bytes v = (if v \<le> 0 then [] else be_bytes (v div 256) @ [word_of_int v])"
  by pat_completeness auto
termination
  by (relation "measure nat") auto

declare be_bytes.simps [simp del]

definition der_bytes :: "int \<Rightarrow> u8 list" where
  "der_bytes v = (let bs = be_bytes v in if hd bs < 0x80 then bs else 0 # bs)"

lemma from_be_snoc: "from_be (bs @ [b]) = 256 * from_be bs + uint b"
  by (simp add: from_be_def push_bit_eq_mult)

lemma from_be_bytes: "0 \<le> v \<Longrightarrow> from_be (be_bytes v) = v"
proof (induction v rule: be_bytes.induct)
  case (1 v)
  show ?case
  proof (cases "v \<le> 0")
    case True
    with 1(2) show ?thesis by (simp add: be_bytes.simps from_be_def)
  next
    case False
    with 1 have "from_be (be_bytes (v div 256)) = v div 256" by simp
    moreover have "uint (word_of_int v :: u8) = v mod 256" by (simp add: unsigned_of_int take_bit_eq_mod)
    ultimately show ?thesis using False by (subst be_bytes.simps) (simp add: from_be_snoc)
  qed
qed

lemma length_be_bytes: "v < 256 ^ n \<Longrightarrow> length (be_bytes v) \<le> n"
proof (induction n arbitrary: v)
  case (Suc n)
  then have "v div 256 < 256 ^ n" by (simp add: int_div_less_iff mult.commute)
  from Suc.IH[OF this] show ?case by (subst be_bytes.simps) simp
qed (simp add: be_bytes.simps)

lemma be_bytes_nonempty: "0 < v \<Longrightarrow> be_bytes v \<noteq> []"
  by (subst be_bytes.simps) simp

lemma der_bytes:
  assumes "0 < v" "v < p256_n"
  shows "der_bytes v \<noteq> []" "length (der_bytes v) \<le> 33" "hd (der_bytes v) < 0x80" "from_be (der_bytes v) = v"
proof -
  have "v < 256 ^ 32" using assms(2) by (simp add: p256_values)
  from length_be_bytes[OF this] show "length (der_bytes v) \<le> 33" by (simp add: der_bytes_def Let_def)
  show "der_bytes v \<noteq> []" "hd (der_bytes v) < 0x80" "from_be (der_bytes v) = v"
    using assms be_bytes_nonempty[of v] from_be_bytes[of v] by (simp_all add: der_bytes_def Let_def)
qed

text \<open>Any encoding of the two numbers is read, minimal or not.\<close>

lemma signature_read:
  assumes bs: "bs \<noteq> []" "hd bs < 0x80" and cs: "cs \<noteq> []" "hd cs < 0x80" and len: "length bs + length cs < 124"
  shows "parse_ecdsa_der_signature (Some (der_signature bs cs)) r0 s0 =
     Some (0 < from_be bs \<and> from_be bs < p256_n \<and> 0 < from_be cs \<and> from_be cs < p256_n, from_be bs, from_be cs)"
proof -
  let ?n = "4 + length bs + length cs" and ?sig = "der_signature bs cs"
  have sig: "?sig = 0x30 # of_nat ?n # der_integer bs @ der_integer cs"
    by (simp add: der_signature_def der_integer_def Let_def)
  have size: "length ?sig = 2 + ?n" by (simp add: sig der_integer_def)
  have sz: "unat (of_nat (length ?sig) :: u64) = 2 + ?n" using len by (simp only: size) (rule unat_of_nat_small, simp)
  have seq: "parse_der_length ?sig (of_nat (length ?sig)) 1 0 = Some (True, 2, of_nat ?n)"
    using der_length_short[of 1 "[0x30]" ?n "of_nat (length ?sig)" "der_integer bs @ der_integer cs" 0] len sz
    by (simp add: sig)
  have first: "parse_der_integer ?sig (of_nat (length ?sig)) 2 r0 = Some (True, of_nat (4 + length bs), from_be bs)"
    using der_integer_read[of 2 "[0x30, of_nat ?n]" bs "of_nat (length ?sig)" "der_integer cs" r0] bs len sz
    by (simp add: sig)
  have off: "unat (of_nat (4 + length bs) :: u64) = 4 + length bs" using len by (intro unat_of_nat_small) simp
  have second: "parse_der_integer ?sig (of_nat (length ?sig)) (of_nat (4 + length bs)) s0 = Some (True, of_nat (length ?sig), from_be cs)"
    using der_integer_read[of "of_nat (4 + length bs)" "0x30 # of_nat ?n # der_integer bs" cs "of_nat (length ?sig)" "[]" s0] cs len sz off
    by (simp add: sig der_integer_def algebra_simps)
  have "byte_at ?sig 0 = Some 0x30" "?sig \<noteq> []" by (simp_all add: sig byte_at_def)
  moreover have "(2 :: u64) + of_nat ?n = of_nat (length ?sig)" by (simp add: size)
  ultimately show ?thesis using seq first second by (simp add: parse_ecdsa_der_signature_def del: of_nat_add)
qed


text \<open>C22. The signature of two numbers in range, written in DER, is read back.\<close>

theorem p256_signature_roundtrip:
  assumes "0 < r" "r < p256_n" "0 < s" "s < p256_n"
  shows "parse_ecdsa_der_signature (Some (der_signature (der_bytes r) (der_bytes s))) r0 s0 = Some (True, r, s)"
  using signature_read[of "der_bytes r" "der_bytes s" r0 s0] der_bytes[OF assms(1,2)] der_bytes[OF assms(3,4)] assms by simp

lemma p256_signature_roundtrip_witness:
  "parse_ecdsa_der_signature (Some (der_signature (der_bytes 200) (der_bytes 70000))) 0 0 = Some (True, 200, 70000)"
  by (rule p256_signature_roundtrip) (simp_all add: p256_values)

subsection \<open>When the parser stays inside the buffer\<close>

lemma unat_from_bits: "(\<And>i. bit w i \<Longrightarrow> i < m) \<Longrightarrow> unat (w :: u64) < 2 ^ m"
proof -
  assume "\<And>i. bit w i \<Longrightarrow> i < m"
  then have "take_bit m w = w" by (intro bit_word_eqI) (auto simp: bit_simps)
  then have "unat w = take_bit m (unat w)" by (metis unsigned_take_bit_eq)
  then show ?thesis using take_bit_nat_less_exp[of m "unat w"] by simp
qed

lemma length_loop_defined:
  "unat off + n \<le> length data \<Longrightarrow> length data < 2 ^ 63 \<Longrightarrow> (\<And>i. bit len i \<Longrightarrow> i < k) \<Longrightarrow>
   \<exists>len'. length_loop data n off len = Some (off + of_nat n, len') \<and> (\<forall>i. bit len' i \<longrightarrow> i < k + 8 * n)"
proof (induction n arbitrary: off len k)
  case (Suc n)
  let ?b = "data ! unat off" and ?len = "push_bit 8 len OR ucast (data ! unat off)"
  have b: "byte_at data off = Some ?b" using Suc.prems by (simp add: byte_at_def)
  have off: "unat (off + 1) = Suc (unat off)" using Suc.prems(1,2) by (intro unat_Suc) simp
  have "i < k + 8" if "bit ?len i" for i
    using that Suc.prems(3)[of "i - 8"] by (auto simp: bit_simps dest: bit_imp_le_length)
  from Suc.IH[of "off + 1" ?len "k + 8", OF _ Suc.prems(2) this] Suc.prems(1) off b
  show ?case by (auto simp: algebra_simps)
qed simp

lemma der_length_defined:
  assumes "length data < 2 ^ 63" "0x88 \<notin> set data"
  shows "\<exists>ok off' len. parse_der_length data (of_nat (length data)) off l = Some (ok, off', len) \<and>
     (ok \<longrightarrow> unat off' + unat len \<le> length data)"
proof (cases "off \<ge> of_nat (length data)")
  case True
  then have "parse_der_length data (of_nat (length data)) off l = Some (False, off, l)" by (simp add: parse_der_length_def)
  then show ?thesis by blast
next
  case False
  have sz: "unat (of_nat (length data) :: u64) = length data" using assms(1) by (intro unat_of_nat_small) simp
  with False have off: "unat off < length data" by (simp add: word_le_nat_alt)
  let ?first = "data ! unat off"
  have b: "byte_at data off = Some ?first" using off by (simp add: byte_at_def)
  have off1: "unat (off + 1) = Suc (unat off)" using off assms(1) by (intro unat_Suc) simp
  show ?thesis
  proof (cases "?first AND 0x80 = 0")
    case True
    have "unat (ucast ?first :: u64) < 2 ^ 8" by (rule unat_from_bits) (auto simp: bit_simps dest: bit_imp_le_length)
    then have "unat (off + 1 + ucast ?first) = Suc (unat off) + unat (ucast ?first :: u64)"
      using off1 off assms(1) by (subst unat_add_small) simp_all
    with True b False off1 sz show ?thesis by (simp add: parse_der_length_def word_le_nat_alt)
  next
    case long: False
    let ?n = "unat (?first AND 0x7f)"
    have "?first \<noteq> 0x88" using assms(2) off by (metis nth_mem)
    then have "?n \<noteq> 8"
    proof -
      have "?first = 0x88" if "?first AND 0x7f = 8"
      proof (rule bit_word_eqI)
        fix i assume "i < LENGTH(8)"
        moreover from that have "bit (?first AND 0x7f) i = bit (8 :: u8) i" by simp
        moreover from long have "bit ?first 7" using and_exp_iff[of ?first 7] by simp
        ultimately show "bit ?first i = bit (0x88 :: u8) i" by (cases "i = 7") (auto simp: bit_simps numeral_eq_Suc less_Suc_eq)
      qed
      moreover have "?first AND 0x7f = 8" if "?n = 8" using that by (simp add: word_unat_eq_iff)
      ultimately show ?thesis using \<open>?first \<noteq> 0x88\<close> by blast
    qed
    show ?thesis
    proof (cases "?n = 0 \<or> ?n > 8 \<or> off + 1 + of_nat ?n > of_nat (length data)")
      case True
      with b long False show ?thesis by (auto simp: parse_der_length_def Let_def)
    next
      case in_range: False
      then have n: "?n < 8" "0 < ?n" using \<open>?n \<noteq> 8\<close> by auto
      have sum: "unat (off + 1 + of_nat ?n) = unat (off + 1) + ?n"
        using n off1 off assms(1) by (subst unat_add_small) (simp_all add: unat_of_nat_small)
      with in_range sz have fit: "unat (off + 1) + ?n \<le> length data" by (simp add: word_less_nat_alt)
      from length_loop_defined[OF fit assms(1), of 0 0] obtain len where
        len: "length_loop data ?n (off + 1) 0 = Some (off + 1 + of_nat ?n, len)" "\<And>i. bit len i \<Longrightarrow> i < 8 * ?n" by auto
      have "unat len < 2 ^ (8 * 7)" by (rule unat_from_bits) (use len(2) n in fastforce)
      then have "unat (off + 1 + of_nat ?n + len) = unat (off + 1 + of_nat ?n) + unat len"
        using fit sum assms(1) by (intro unat_add_small) simp
      with b long False in_range len(1) sz show ?thesis
        by (simp add: parse_der_length_def Let_def word_le_nat_alt)
    qed
  qed
qed


lemma strip_defined:
  "unat off + unat len \<le> length data \<Longrightarrow> length data < 2 ^ 63 \<Longrightarrow>
   \<exists>off' len'. strip_zeros data off len = Some (off', len') \<and> unat off' + unat len' = unat off + unat len"
proof (induction data off len rule: strip_zeros.induct)
  case (1 data off len)
  show ?case
  proof (cases "len > 1")
    case True
    then have l: "unat len > 1" by (simp add: word_less_nat_alt)
    with 1(2) have b: "byte_at data off = Some (data ! unat off)" by (simp add: byte_at_def)
    show ?thesis
    proof (cases "data ! unat off = 0")
      case z: True
      have s: "unat (off + 1) + unat (len - 1) = unat off + unat len"
        using l 1(2,3) True by (simp add: unat_Suc unat_sub_if' word_less_nat_alt)
      with 1(1)[OF True b z] 1(2,3) True b z show ?thesis by (subst strip_zeros.simps) simp
    next
      case False
      with True b show ?thesis by (subst strip_zeros.simps) simp
    qed
  qed (simp add: strip_zeros.simps)
qed

lemma der_integer_defined:
  assumes "length data < 2 ^ 63" "0x88 \<notin> set data"
  shows "parse_der_integer data (of_nat (length data)) off v \<noteq> None"
proof (cases "off \<ge> of_nat (length data)")
  case False
  have "unat (of_nat (length data) :: u64) = length data" using assms(1) by (intro unat_of_nat_small) simp
  with False have b: "byte_at data off = Some (data ! unat off)" by (simp add: byte_at_def word_le_nat_alt)
  obtain ok off1 len where l: "parse_der_length data (of_nat (length data)) (off + 1) 0 = Some (ok, off1, len)"
    "ok \<longrightarrow> unat off1 + unat len \<le> length data"
    using der_length_defined[OF assms, of "off + 1" 0] by blast
  show ?thesis
  proof (cases "ok \<and> len \<noteq> 0")
    case True
    with l(2) have fit: "unat off1 + unat len \<le> length data" "0 < unat len" by (auto simp: unat_gt_0)
    then have first: "byte_at data off1 = Some (data ! unat off1)" by (simp add: byte_at_def)
    from strip_defined[OF fit(1) assms(1)] obtain off2 len2 where
      "strip_zeros data off1 len = Some (off2, len2)" "unat off2 + unat len2 = unat off1 + unat len" by blast
    with False b l(1) True first fit show ?thesis by (auto simp: parse_der_integer_def Let_def)
  next
    case bad: False
    with False b l(1) show ?thesis by (auto simp: parse_der_integer_def Let_def)
  qed
qed (simp add: parse_der_integer_def)

text \<open>
  A signature of any bytes, as long as none of them announces a length of eight bytes, is judged
  without reading outside its buffer.
\<close>

theorem der_reads_in_bounds:
  assumes "length sig < 2 ^ 63" "0x88 \<notin> set sig"
  shows "parse_ecdsa_der_signature (Some sig) r s \<noteq> None"
proof (cases "sig = []")
  case False
  then have tag: "byte_at sig 0 = Some (sig ! 0)" by (simp add: byte_at_def)
  obtain ok off len where l: "parse_der_length sig (of_nat (length sig)) 1 0 = Some (ok, off, len)"
    using der_length_defined[OF assms, of 1 0] by blast
  note d = der_integer_defined[OF assms]
  show ?thesis
  proof (cases "sig ! 0 = 0x30 \<and> ok \<and> off + len = of_nat (length sig)")
    case True
    obtain ok1 off1 r1 where "parse_der_integer sig (of_nat (length sig)) off r = Some (ok1, off1, r1)" using d by fast
    moreover obtain ok2 off2 s2 where "parse_der_integer sig (of_nat (length sig)) off1 s = Some (ok2, off2, s2)" using d by fast
    ultimately show ?thesis using False tag l True by (auto simp: parse_ecdsa_der_signature_def Let_def)
  next
    case bad: False
    with False tag l show ?thesis by (auto simp: parse_ecdsa_der_signature_def Let_def)
  qed
qed (simp add: parse_ecdsa_der_signature_def)

lemma der_reads_in_bounds_witness: "parse_ecdsa_der_signature (Some [0x30, 3, 2, 0x84, 1]) 0 0 \<noteq> None"
  by (rule der_reads_in_bounds) simp_all

definition wrapping_signature :: "u8 list" where
  "wrapping_signature = [0x30, 10, 0x02, 0x88] @ replicate 8 0xff"


end
