(* ===== verification/Rse_Accel.thy ===== *)
theory Rse_Accel
  imports Rse_Mcuboot Rse_P256 Cc3xx_Aes
begin

text \<open>
  The firmware accelerators of the RSE processor (\<^verbatim>\<open>src/qemu-components/rse_cpu_accel/include/rse_cpu_accel.h\<close>):
  an observer that is called when the processor enters certain functions of the firmware, does the
  work of the function on guest memory itself, and returns to the caller. It copies and fills
  blocks, takes snapshots of the boot loader's image slots, decrypts images, hashes them, checks
  their signatures, and skips delays. A hook that cannot do the work leaves the function to the
  processor.

  Each hook is one definition over the pair of the component's state and the processor's, in the
  order of the source; the counters of the profile are kept, the file they are written to is not.
\<close>


unbundle bit_operations_syntax

subsection \<open>The processor\<close>

text \<open>
  \<^verbatim>\<open>QemuCpuSemanticContext\<close> is not part of the repository. It is a parameter: registers and guest
  memory as operations on a state of their own. A pointer that \<^verbatim>\<open>guest_dmi_ptr\<close> grants is a host
  address, read and written with \<open>host_read\<close> and \<open>host_write\<close>.
\<close>

datatype v7m_field = Field_R0 | Field_R1 | Field_R2 | Field_R3 | Field_R4 | Field_SP | Field_LR | Field_PC

record 'c cpu_context =
  get_pc :: "'c \<Rightarrow> u64"
  get_v7m_state :: "v7m_field \<Rightarrow> 'c \<Rightarrow> u64"
  set_v7m_state :: "v7m_field \<Rightarrow> u32 \<Rightarrow> 'c \<Rightarrow> bool \<times> 'c"
  guest_read_u8 :: "u64 \<Rightarrow> 'c \<Rightarrow> u8 option \<times> 'c"
  guest_read_u32 :: "u64 \<Rightarrow> 'c \<Rightarrow> u32 option \<times> 'c"
  guest_read_bytes :: "u64 \<Rightarrow> u64 \<Rightarrow> 'c \<Rightarrow> u8 list option \<times> 'c"
  guest_read_bytes_or_alias :: "u64 \<Rightarrow> u64 \<Rightarrow> 'c \<Rightarrow> (u8 list \<times> bool) option \<times> 'c"
  guest_write_bytes :: "u64 \<Rightarrow> u8 list \<Rightarrow> 'c \<Rightarrow> bool \<times> 'c"
  guest_write_bytes_or_alias :: "u64 \<Rightarrow> u8 list \<Rightarrow> 'c \<Rightarrow> (bool \<times> bool) \<times> 'c"
  guest_dmi_ptr :: "u64 \<Rightarrow> u64 \<Rightarrow> bool \<Rightarrow> bool \<Rightarrow> 'c \<Rightarrow> u64 option \<times> 'c"
  host_read :: "u64 \<Rightarrow> nat \<Rightarrow> 'c \<Rightarrow> u8 list"
  host_write :: "u64 \<Rightarrow> u8 list \<Rightarrow> 'c \<Rightarrow> 'c"
  invalidate_guest_range :: "u64 \<Rightarrow> u64 \<Rightarrow> 'c \<Rightarrow> 'c"
  set_vcpu_dirty :: "bool \<Rightarrow> 'c \<Rightarrow> 'c"
  kick_cpu :: "'c \<Rightarrow> 'c"

definition reg :: "'c cpu_context \<Rightarrow> v7m_field \<Rightarrow> 'c \<Rightarrow> u32" where
  "reg C f c = ucast (get_v7m_state C f c)"

text \<open>Words read, and registers written, one after the other up to the first failure.\<close>

fun read_words :: "'c cpu_context \<Rightarrow> u64 list \<Rightarrow> 'c \<Rightarrow> u32 list option \<times> 'c" where
  "read_words C [] c = (Some [], c)"
| "read_words C (a # as) c =
     (case guest_read_u32 C a c of
        (None, c) \<Rightarrow> (None, c)
      | (Some w, c) \<Rightarrow> (case read_words C as c of (None, c) \<Rightarrow> (None, c) | (Some ws, c) \<Rightarrow> (Some (w # ws), c)))"

fun set_regs :: "'c cpu_context \<Rightarrow> (v7m_field \<times> u32) list \<Rightarrow> 'c \<Rightarrow> bool \<times> 'c" where
  "set_regs C [] c = (True, c)"
| "set_regs C ((f, v) # rest) c =
     (case set_v7m_state C f v c of (True, c) \<Rightarrow> set_regs C rest c | (False, c) \<Rightarrow> (False, c))"

subsection \<open>Configuration and state\<close>

record hotpath_config =
  p_hotpath_accel :: bool
  p_hotpath_memcpy_addr :: u64
  p_hotpath_memset_addr :: u64
  p_hotpath_max_bytes :: u64
  p_lms_accel :: bool
  p_lms_verify_addr :: u64
  p_lms_max_data_bytes :: u64

record profile_config = hotpath_config +
  p_bl2_load_profile :: bool
  p_bl2_boot_go_for_image_id_addr :: u64
  p_bl2_boot_load_image_to_sram_addr :: u64
  p_bl2_boot_enc_load_addr :: u64
  p_bl2_boot_enc_decrypt_addr :: u64
  p_bl2_bootutil_img_validate_addr :: u64
  p_bl2_bootutil_img_hash_addr :: u64
  p_bl2_bootutil_verify_sig_addr :: u64
  p_bl2_boot_image_count :: u64
  p_bl2_boot_state_curr_img_offset :: u64
  p_bl2_boot_state_imgs_offset :: u64
  p_bl2_boot_state_image_stride :: u64
  p_bl2_boot_state_slot_stride :: u64
  p_bl2_boot_state_slot_usage_offset :: u64
  p_bl2_boot_state_slot_usage_stride :: u64
  p_bl2_boot_slot_usage_img_dst_offset :: u64
  p_bl2_boot_slot_usage_img_sz_offset :: u64

record decrypt_config = profile_config +
  p_bl2_load_accel :: bool
  p_bl2_load_accel_max_bytes :: u64
  p_bl2_boot_enc_accel :: bool
  p_bl2_boot_enc_set_key_addr :: u64
  p_bl2_boot_status_enckey_offset :: u64
  p_bl2_boot_enc_key_bytes :: u64
  p_bl2_boot_enc_key_stride :: u64
  p_bl2_boot_enc_slots :: u64
  p_bl2_boot_enc_max_bytes :: u64

record sig_config = decrypt_config +
  p_bl2_img_hash_accel :: bool
  p_bl2_img_hash_max_bytes :: u64
  p_bl2_img_hash_max_seed_bytes :: u64
  p_bl2_verify_sig_accel :: bool
  p_bl2_verify_sig_skip :: bool
  p_bl2_bootutil_keys_addr :: u64
  p_bl2_bootutil_key_cnt_addr :: u64
  p_bl2_fih_success_addr :: u64
  p_bl2_verify_sig_max_key_bytes :: u64
  p_bl2_verify_sig_max_sig_bytes :: u64

record accel_config = sig_config +
  p_bl2_delay_accel :: bool
  p_bl2_delay_cycles_addr :: u64
  p_bl2_delay_max_cycles :: u64
  p_bl2_delay_expected_hits :: u64
  p_direct_file_aliases :: string
  p_mmio_read_fastpath :: string
  p_mmio_direct_fastpath_ranges :: string

text \<open>The defaults of \<^verbatim>\<open>load_config\<close>.\<close>

definition default_config :: accel_config where
  "default_config = \<lparr>p_hotpath_accel = False, p_hotpath_memcpy_addr = 0, p_hotpath_memset_addr = 0,
     p_hotpath_max_bytes = 16 * 1024 * 1024, p_lms_accel = False, p_lms_verify_addr = 0, p_lms_max_data_bytes = 4096,
     p_bl2_load_profile = False, p_bl2_boot_go_for_image_id_addr = 0, p_bl2_boot_load_image_to_sram_addr = 0,
     p_bl2_boot_enc_load_addr = 0, p_bl2_boot_enc_decrypt_addr = 0, p_bl2_bootutil_img_validate_addr = 0,
     p_bl2_bootutil_img_hash_addr = 0, p_bl2_bootutil_verify_sig_addr = 0, p_bl2_boot_image_count = 5,
     p_bl2_boot_state_curr_img_offset = 0x10c8, p_bl2_boot_state_imgs_offset = 0, p_bl2_boot_state_image_stride = 88,
     p_bl2_boot_state_slot_stride = 44, p_bl2_boot_state_slot_usage_offset = 0x10d0,
     p_bl2_boot_state_slot_usage_stride = 16, p_bl2_boot_slot_usage_img_dst_offset = 8,
     p_bl2_boot_slot_usage_img_sz_offset = 12, p_bl2_load_accel = False, p_bl2_load_accel_max_bytes = 16 * 1024 * 1024,
     p_bl2_boot_enc_accel = False, p_bl2_boot_enc_set_key_addr = 0, p_bl2_boot_status_enckey_offset = 0x0c,
     p_bl2_boot_enc_key_bytes = 16, p_bl2_boot_enc_key_stride = 16, p_bl2_boot_enc_slots = 2,
     p_bl2_boot_enc_max_bytes = 4096, p_bl2_img_hash_accel = False, p_bl2_img_hash_max_bytes = 16 * 1024 * 1024,
     p_bl2_img_hash_max_seed_bytes = 4096, p_bl2_verify_sig_accel = False, p_bl2_verify_sig_skip = False,
     p_bl2_bootutil_keys_addr = 0, p_bl2_bootutil_key_cnt_addr = 0, p_bl2_fih_success_addr = 0,
     p_bl2_verify_sig_max_key_bytes = 512, p_bl2_verify_sig_max_sig_bytes = 128, p_bl2_delay_accel = False,
     p_bl2_delay_cycles_addr = 0, p_bl2_delay_max_cycles = 50 * 1000 * 1000, p_bl2_delay_expected_hits = 3,
     p_direct_file_aliases = [], p_mmio_read_fastpath = [], p_mmio_direct_fastpath_ranges = []\<rparr>"

text \<open>
  The counters and the last values seen: \<open>(Load, Key_misses)\<close> is \<^verbatim>\<open>m_bl2_load_accel_key_misses\<close>,
  \<open>(Enc, Last_off)\<close> is \<^verbatim>\<open>m_bl2_boot_enc_last_off\<close>, and so on.
\<close>

datatype accel_hook = Hotpath | Lms | Load_profile | Load | Enc | Img_hash | Verify_sig | Delay

datatype accel_stat =
    Hits | Memcpy_hits | Memset_hits | Fallbacks | Pc_misses | Too_large_fails | Dmi_failures | Stack_fails | State_failures
  | Verify_failures | Unsupported | Skip_hits | Bytes | Key_misses | Alias_hits | Key_captures | Key_capture_failures
  | Matches | Cache_hits | Cache_misses | Cycles

datatype accel_last =
    Last_key_addr | Last_key_size | Last_data_addr | Last_data_size | Last_sig_addr | Last_sig_size | Last_unsupported_mask
  | Last_curr_img | Last_slot | Last_off | Last_size | Last_blk_off | Last_buf | Last_img_size | Last_flags | Last_enc_state
  | Last_hdr | Last_load_addr | Last_hash_result | Last_hash_size | Last_seed | Last_seed_len
  | Last_hash | Last_hlen | Last_sig | Last_slen | Last_key_id | Last_key_ptr | Last_key_len | Last_fih_success
  | Last_cycles | Last_lr

datatype bl2_site =
    Boot_go_for_image_id | Boot_load_image_to_sram | Boot_enc_load | Boot_enc_decrypt | Bootutil_img_validate
  | Bootutil_img_hash | Bootutil_verify_sig

record bl2_profile_sample =
  sample_pc :: u32
  sample_r0 :: u32
  sample_r1 :: u32
  sample_r2 :: u32
  sample_r3 :: u32
  sample_sp :: u32
  sample_lr :: u32
  sample_stack :: "u32 list"
  sample_stack_words :: u32

record bl2_profile_site =
  site_hits :: u64
  site_last :: bl2_profile_sample

record bl2_ram_load_snapshot =
  snap_hits :: u64
  snap_dmi_failures :: u64
  snap_unsupported :: u64
  last_state :: u32
  last_curr_img :: u32
  last_active_slot :: u32
  last_hdr_addr :: u32
  last_hdr_magic :: u32
  last_load_addr :: u32
  last_hdr_size :: u32
  last_protect_tlv_size :: u32
  last_img_size :: u32
  last_flags :: u32
  last_hash_region_size :: u32
  last_slot_img_dst :: u32
  last_slot_img_sz :: u32
  last_unsupported_mask :: u32

abbreviation (input) SNAPSHOT_IMAGE_SLOTS :: nat where "SNAPSHOT_IMAGE_SLOTS \<equiv> 64"

record enc_key_entry =
  ek_valid :: bool
  ek_key_size :: u32
  ek_key :: "u8 list"

record verify_sig_entry =
  vs_public_key :: "u8 list"
  vs_hash :: "u8 list"
  vs_signature :: "u8 list"
  vs_verified :: bool

record rse_accel =
  m_stats :: "accel_hook \<times> accel_stat \<Rightarrow> u64"
  m_last :: "accel_hook \<times> accel_last \<Rightarrow> u32"
  m_lms_accel_done :: bool
  m_sites :: "bl2_site \<Rightarrow> bl2_profile_site"
  m_snapshot :: bl2_ram_load_snapshot
  m_snapshot_by_image :: "nat \<Rightarrow> bl2_ram_load_snapshot"
  m_image_decrypted :: "nat \<Rightarrow> bool"
  m_enc_keys :: "u64 \<rightharpoonup> enc_key_entry"
  m_delay_watch_active :: bool
  m_verify_sig_cache :: "verify_sig_entry list"
  m_pc_entry_registered :: bool

definition snapshot0 :: bl2_ram_load_snapshot where
  "snapshot0 = \<lparr>snap_hits = 0, snap_dmi_failures = 0, snap_unsupported = 0, last_state = 0, last_curr_img = 0,
     last_active_slot = 0, last_hdr_addr = 0, last_hdr_magic = 0, last_load_addr = 0, last_hdr_size = 0,
     last_protect_tlv_size = 0, last_img_size = 0, last_flags = 0, last_hash_region_size = 0, last_slot_img_dst = 0,
     last_slot_img_sz = 0, last_unsupported_mask = 0\<rparr>"

definition site0 :: bl2_profile_site where
  "site0 = \<lparr>site_hits = 0, site_last = \<lparr>sample_pc = 0, sample_r0 = 0, sample_r1 = 0, sample_r2 = 0, sample_r3 = 0,
     sample_sp = 0, sample_lr = 0, sample_stack = replicate 4 0, sample_stack_words = 0\<rparr>\<rparr>"

definition rse_accel0 :: rse_accel where
  "rse_accel0 = \<lparr>m_stats = (\<lambda>_. 0), m_last = (\<lambda>_. 0), m_lms_accel_done = False, m_sites = (\<lambda>_. site0),
     m_snapshot = snapshot0, m_snapshot_by_image = (\<lambda>_. snapshot0), m_image_decrypted = (\<lambda>_. False),
     m_enc_keys = Map.empty, m_delay_watch_active = False, m_verify_sig_cache = [], m_pc_entry_registered = False\<rparr>"

text \<open>The component and the processor it observes.\<close>

type_synonym 'c world = "rse_accel \<times> 'c"

definition bump :: "accel_hook \<Rightarrow> accel_stat \<Rightarrow> u64 \<Rightarrow> rse_accel \<Rightarrow> rse_accel" where
  "bump h k n s = s\<lparr>m_stats := (m_stats s)((h, k) := m_stats s (h, k) + n)\<rparr>"

definition note_last :: "accel_hook \<Rightarrow> accel_last \<Rightarrow> u32 \<Rightarrow> rse_accel \<Rightarrow> rse_accel" where
  "note_last h k v s = s\<lparr>m_last := (m_last s)((h, k) := v)\<rparr>"

primrec note_lasts :: "accel_hook \<Rightarrow> (accel_last \<times> u32) list \<Rightarrow> rse_accel \<Rightarrow> rse_accel" where
  "note_lasts h [] s = s"
| "note_lasts h (kv # kvs) s = note_lasts h kvs (note_last h (fst kv) (snd kv) s)"

text \<open>A check that fails adds its bit to the mask of what is unsupported.\<close>

definition flag :: "bool \<Rightarrow> u32 \<Rightarrow> u32" where
  "flag b m = (if b then m else 0)"

definition entry_of :: "u64 \<Rightarrow> u32" where
  "entry_of addr = ucast (addr AND NOT 1)"


subsection \<open>Block copies and fills\<close>

definition hotpath_memcpy_safe_pc :: "u32 \<Rightarrow> u32 \<Rightarrow> bool" where
  "hotpath_memcpy_safe_pc pc base \<longleftrightarrow> pc = base \<or> pc = base + 0x14 \<or> pc = base + 0x36 \<or> pc = base + 0x4a"

definition hotpath_memset_safe_pc :: "u32 \<Rightarrow> u32 \<Rightarrow> bool" where
  "hotpath_memset_safe_pc pc base \<longleftrightarrow> pc = base \<or> pc = base + 0x24 \<or> pc = base + 0x36"

datatype hotpath_fail_reason = PcMismatch | TooLarge | Dmi | Stack | State

definition record_hotpath_failure :: "hotpath_fail_reason \<Rightarrow> rse_accel \<Rightarrow> rse_accel" where
  "record_hotpath_failure reason s =
     bump Hotpath (case reason of PcMismatch \<Rightarrow> Pc_misses | TooLarge \<Rightarrow> Too_large_fails | Dmi \<Rightarrow> Dmi_failures
                     | Stack \<Rightarrow> Stack_fails | State \<Rightarrow> State_failures) 1
       (bump Hotpath Fallbacks 1 s)"

text \<open>The result \<open>None\<close> is success, \<open>Some\<close> the reason of a failure.\<close>

definition hotpath_finish_stacked_lr :: "'c cpu_context \<Rightarrow> 'c \<Rightarrow> hotpath_fail_reason option \<times> 'c" where
  "hotpath_finish_stacked_lr C c =
     (let sp = reg C Field_SP c
      in case guest_read_u32 C (ucast sp) c of
           (None, c) \<Rightarrow> (Some Stack, c)
         | (Some return_pc, c) \<Rightarrow>
             (case set_regs C [(Field_SP, sp + 4), (Field_PC, return_pc)] c of
                (False, c) \<Rightarrow> (Some State, c)
              | (True, c) \<Rightarrow> (None, c)))"

definition hotpath_finish_memset :: "'c cpu_context \<Rightarrow> u32 \<Rightarrow> 'c \<Rightarrow> hotpath_fail_reason option \<times> 'c" where
  "hotpath_finish_memset C return_pc c =
     (let sp = reg C Field_SP c
      in case guest_read_u32 C (ucast sp) c of
           (None, c) \<Rightarrow> (Some Stack, c)
         | (Some saved_r4, c) \<Rightarrow>
             (case set_regs C [(Field_R4, saved_r4), (Field_SP, sp + 4), (Field_PC, return_pc)] c of
                (False, c) \<Rightarrow> (Some State, c)
              | (True, c) \<Rightarrow> (None, c)))"

definition set_pc :: "'c cpu_context \<Rightarrow> u32 \<Rightarrow> 'c \<Rightarrow> hotpath_fail_reason option \<times> 'c" where
  "set_pc C return_pc c =
     (case set_v7m_state C Field_PC return_pc c of (False, c) \<Rightarrow> (Some State, c) | (True, c) \<Rightarrow> (None, c))"

definition hotpath_memcpy :: "'c cpu_context \<Rightarrow> u32 \<Rightarrow> u32 \<Rightarrow> u64 \<Rightarrow> 'c world \<Rightarrow> hotpath_fail_reason option \<times> 'c world" where
  "hotpath_memcpy C pc base max_bytes = (\<lambda>(s, c).
     if \<not> hotpath_memcpy_safe_pc pc base then (Some PcMismatch, s, c)
     else
       (let dest = reg C Field_R0 c; src = reg C Field_R1 c; remaining = reg C Field_R2 c;
            current_dest = (if pc = base then dest else reg C Field_R3 c);
            finish = (\<lambda>c. if pc = base then set_pc C (reg C Field_LR c) c else hotpath_finish_stacked_lr C c)
        in if remaining = 0 then (case finish c of (r, c) \<Rightarrow> (r, s, c))
           else if ucast remaining > max_bytes then (Some TooLarge, s, c)
           else
             (case guest_dmi_ptr C (ucast src) (ucast remaining) True False c of
                (None, c) \<Rightarrow> (Some Dmi, s, c)
              | (Some src_ptr, c) \<Rightarrow>
                  (case guest_dmi_ptr C (ucast current_dest) (ucast remaining) False True c of
                     (None, c) \<Rightarrow> (Some Dmi, s, c)
                   | (Some dst_ptr, c) \<Rightarrow>
                       (let c = host_write C dst_ptr (host_read C src_ptr (unat remaining) c) c;
                            c = invalidate_guest_range C (ucast current_dest) (ucast (current_dest + remaining - 1)) c
                        in case finish c of
                             (Some reason, c) \<Rightarrow> (Some reason, s, c)
                           | (None, c) \<Rightarrow> (None, bump Hotpath Memcpy_hits 1 s, c))))))"

definition hotpath_memset :: "'c cpu_context \<Rightarrow> u32 \<Rightarrow> u32 \<Rightarrow> u64 \<Rightarrow> 'c world \<Rightarrow> hotpath_fail_reason option \<times> 'c world" where
  "hotpath_memset C pc base max_bytes = (\<lambda>(s, c).
     if \<not> hotpath_memset_safe_pc pc base then (Some PcMismatch, s, c)
     else
       (let dest = reg C Field_R0 c; current_dest = (if pc = base then dest else reg C Field_R3 c);
            remaining = reg C Field_R2 c; v = ucast (get_v7m_state C Field_R1 c) :: u8;
            finish = (\<lambda>c. let return_pc = reg C Field_LR c
                          in if pc = base then set_pc C return_pc c else hotpath_finish_memset C return_pc c);
            done = (\<lambda>c. case finish c of
                          (Some reason, c) \<Rightarrow> (Some reason, s, c)
                        | (None, c) \<Rightarrow> (None, bump Hotpath Memset_hits 1 s, c))
        in if ucast remaining > max_bytes then (Some TooLarge, s, c)
           else if remaining = 0 then done c
           else
             (case guest_dmi_ptr C (ucast current_dest) (ucast remaining) False True c of
                (None, c) \<Rightarrow> (Some Dmi, s, c)
              | (Some dst_ptr, c) \<Rightarrow>
                  (let c = host_write C dst_ptr (replicate (unat remaining) v) c;
                       c = invalidate_guest_range C (ucast current_dest) (ucast (current_dest + remaining - 1)) c
                   in done c))))"

definition try_hotpath_accel :: "'c cpu_context \<Rightarrow> accel_config \<Rightarrow> 'c world \<Rightarrow> 'c world" where
  "try_hotpath_accel C P = (\<lambda>(s, c).
     if \<not> p_hotpath_accel P \<or> p_hotpath_max_bytes P = 0 then (s, c)
     else
       (let max_bytes = p_hotpath_max_bytes P; pc = ucast (get_pc C c);
            memcpy_base = entry_of (p_hotpath_memcpy_addr P); memset_base = entry_of (p_hotpath_memset_addr P);
            (reason, s, c) =
              (if memcpy_base \<noteq> 0 \<and> hotpath_memcpy_safe_pc pc memcpy_base then hotpath_memcpy C pc memcpy_base max_bytes (s, c)
               else if memset_base \<noteq> 0 \<and> hotpath_memset_safe_pc pc memset_base then hotpath_memset C pc memset_base max_bytes (s, c)
               else (Some PcMismatch, s, c))
        in case reason of
             Some reason \<Rightarrow> (record_hotpath_failure reason s, c)
           | None \<Rightarrow> (s, kick_cpu C (set_vcpu_dirty C True c))))"

subsection \<open>Profile of the boot loader\<close>

text \<open>The words on the stack, up to the first one that cannot be read.\<close>

fun stack_loop :: "'c cpu_context \<Rightarrow> u32 \<Rightarrow> nat list \<Rightarrow> u32 list \<Rightarrow> u32 \<Rightarrow> 'c \<Rightarrow> (bool \<times> u32 list \<times> u32) \<times> 'c" where
  "stack_loop C sp [] stack captured c = ((True, stack, captured), c)"
| "stack_loop C sp (index # is) stack captured c =
     (case guest_read_u32 C (ucast sp + of_nat index * 4) c of
        (None, c) \<Rightarrow> ((False, stack, captured), c)
      | (Some v, c) \<Rightarrow> stack_loop C sp is (stack[index := v]) (captured + 1) c)"

definition capture_bl2_profile_sample :: "'c cpu_context \<Rightarrow> bl2_site \<Rightarrow> u32 \<Rightarrow> 'c world \<Rightarrow> 'c world" where
  "capture_bl2_profile_sample C site pc = (\<lambda>(s, c).
     let sp = reg C Field_SP c; old = m_sites s site;
         r0 = reg C Field_R0 c; r1 = reg C Field_R1 c; r2 = reg C Field_R2 c; r3 = reg C Field_R3 c; lr = reg C Field_LR c;
         ((ok, stack, captured), c) = stack_loop C sp [0, 1, 2, 3] (sample_stack (site_last old)) 0 c;
         s = (if ok then s else bump Load_profile Stack_fails 1 s);
         new = \<lparr>site_hits = site_hits old + 1,
                site_last = \<lparr>sample_pc = pc, sample_r0 = r0, sample_r1 = r1, sample_r2 = r2, sample_r3 = r3, sample_sp = sp,
                  sample_lr = lr, sample_stack = stack, sample_stack_words = captured\<rparr>\<rparr>
     in (s\<lparr>m_sites := (m_sites s)(site := new)\<rparr>, c))"

definition record_bl2_profile_site :: "'c cpu_context \<Rightarrow> u32 \<Rightarrow> u64 \<Rightarrow> bl2_site \<Rightarrow> 'c world \<Rightarrow> bool \<times> 'c world" where
  "record_bl2_profile_site C pc addr site w =
     (let entry = entry_of addr
      in if entry = 0 \<or> pc \<noteq> entry then (False, w) else (True, capture_bl2_profile_sample C site pc w))"

definition store_bl2_ram_load_snapshot :: "u32 list \<Rightarrow> bl2_ram_load_snapshot \<Rightarrow> bl2_ram_load_snapshot" where
  "store_bl2_ram_load_snapshot v snapshot = snapshot\<lparr>
     last_state := v ! 0, last_curr_img := v ! 1, last_active_slot := v ! 2, last_hdr_addr := v ! 3, last_hdr_magic := v ! 4,
     last_load_addr := v ! 5, last_hdr_size := v ! 6, last_protect_tlv_size := v ! 7, last_img_size := v ! 8,
     last_flags := v ! 9, last_hash_region_size := v ! 10, last_slot_img_dst := v ! 11, last_slot_img_sz := v ! 12,
     last_unsupported_mask := v ! 13\<rparr>"

definition on_image :: "nat \<Rightarrow> (bl2_ram_load_snapshot \<Rightarrow> bl2_ram_load_snapshot) \<Rightarrow> rse_accel \<Rightarrow> rse_accel" where
  "on_image i f s =
     (if i < SNAPSHOT_IMAGE_SLOTS
      then s\<lparr>m_snapshot_by_image := (m_snapshot_by_image s)(i := f (m_snapshot_by_image s i))\<rparr> else s)"

definition record_bl2_ram_load_snapshot :: "nat \<Rightarrow> u32 list \<Rightarrow> rse_accel \<Rightarrow> rse_accel" where
  "record_bl2_ram_load_snapshot curr_img v s =
     on_image curr_img (store_bl2_ram_load_snapshot v) (s\<lparr>m_snapshot := store_bl2_ram_load_snapshot v (m_snapshot s)\<rparr>)"

definition account_bl2_ram_load_snapshot :: "nat \<Rightarrow> u32 \<Rightarrow> rse_accel \<Rightarrow> rse_accel" where
  "account_bl2_ram_load_snapshot curr_img unsupported_mask s =
     (if unsupported_mask \<noteq> 0
      then on_image curr_img (\<lambda>n. n\<lparr>snap_unsupported := snap_unsupported n + 1\<rparr>)
             (s\<lparr>m_snapshot := (m_snapshot s)\<lparr>snap_unsupported := snap_unsupported (m_snapshot s) + 1\<rparr>\<rparr>)
      else
        (let s = on_image curr_img (\<lambda>n. n\<lparr>snap_hits := snap_hits n + 1\<rparr>)
                   (s\<lparr>m_snapshot := (m_snapshot s)\<lparr>snap_hits := snap_hits (m_snapshot s) + 1\<rparr>\<rparr>)
         in if curr_img < SNAPSHOT_IMAGE_SLOTS then s\<lparr>m_image_decrypted := (m_image_decrypted s)(curr_img := False)\<rparr> else s))"


text \<open>A read that only happens while nothing is unsupported; otherwise the variable keeps its initial value.\<close>

definition read_if :: "bool \<Rightarrow> 'a \<Rightarrow> ('c \<Rightarrow> 'a option \<times> 'c) \<Rightarrow> 'c \<Rightarrow> 'a option \<times> 'c" where
  "read_if b initial r c = (if b then r c else (Some initial, c))"

definition on_snapshot :: "(bl2_ram_load_snapshot \<Rightarrow> bl2_ram_load_snapshot) \<Rightarrow> rse_accel \<Rightarrow> rse_accel" where
  "on_snapshot f s = s\<lparr>m_snapshot := f (m_snapshot s)\<rparr>"

definition snapshot_dmi_failure :: "rse_accel \<Rightarrow> rse_accel" where
  "snapshot_dmi_failure = on_snapshot (\<lambda>n. n\<lparr>snap_dmi_failures := snap_dmi_failures n + 1\<rparr>)"

definition capture_bl2_ram_load_snapshot :: "'c cpu_context \<Rightarrow> accel_config \<Rightarrow> 'c world \<Rightarrow> bool \<times> 'c world" where
  "capture_bl2_ram_load_snapshot C P = (\<lambda>(s, c).
     let state = reg C Field_R0 c; s = on_snapshot (\<lambda>n. n\<lparr>last_state := state\<rparr>) s;
         image_count = p_bl2_boot_image_count P;
         mask = flag (state = 0) 1 OR flag (image_count = 0 \<or> image_count > 64) 2
     in case read_if (mask = 0) 0 (guest_read_u8 C (ucast state + p_bl2_boot_state_curr_img_offset P)) c of
          (None, c) \<Rightarrow> (False, snapshot_dmi_failure s, c)
        | (Some curr_img_u8, c) \<Rightarrow>
            (let curr_img = ucast curr_img_u8 :: u32; s = on_snapshot (\<lambda>n. n\<lparr>last_curr_img := curr_img\<rparr>) s;
                 mask = mask OR flag (mask = 0 \<and> ucast curr_img \<ge> image_count) 4;
                 slot_usage_addr = ucast state + p_bl2_boot_state_slot_usage_offset P
                   + ucast curr_img * p_bl2_boot_state_slot_usage_stride P
             in case read_if (mask = 0) 0 (guest_read_u32 C slot_usage_addr) c of
                  (None, c) \<Rightarrow> (False, snapshot_dmi_failure s, c)
                | (Some active_slot, c) \<Rightarrow>
                    (let s = on_snapshot (\<lambda>n. n\<lparr>last_active_slot := active_slot\<rparr>) s;
                         mask = mask OR flag (mask = 0 \<and> active_slot > 1) 8;
                         hdr_addr = ucast state + p_bl2_boot_state_imgs_offset P
                           + ucast curr_img * p_bl2_boot_state_image_stride P
                           + ucast active_slot * p_bl2_boot_state_slot_stride P;
                         s = on_snapshot (\<lambda>n. n\<lparr>last_hdr_addr := ucast hdr_addr\<rparr>) s
                     in case read_if (mask = 0) [] (guest_read_bytes C hdr_addr 32) c of
                          (None, c) \<Rightarrow> (False, snapshot_dmi_failure s, c)
                        | (Some hdr_bytes, c) \<Rightarrow>
                            (let (parsed, hdr) = (if mask = 0 then parse_header (Some hdr_bytes) image_header0 else (False, image_header0));
                                 mask = mask OR flag (mask = 0 \<and> \<not> parsed) 16;
                                 region = (if mask = 0 then hash_region_size hdr else Some 0);
                                 mask = mask OR flag (mask = 0 \<and> region = None) 32;
                                 region = (case region of None \<Rightarrow> 0 | Some n \<Rightarrow> n);
                                 mask = mask OR flag (mask = 0 \<and> region > 0xffffffff) 64
                             in case read_if (mask = 0) [0, 0]
                                       (read_words C [slot_usage_addr + p_bl2_boot_slot_usage_img_dst_offset P,
                                                      slot_usage_addr + p_bl2_boot_slot_usage_img_sz_offset P]) c of
                                  (None, c) \<Rightarrow> (False, snapshot_dmi_failure s, c)
                                | (Some slot, c) \<Rightarrow>
                                    (let values = [state, curr_img, active_slot, ucast hdr_addr, ih_magic hdr, ih_load_addr hdr,
                                           ucast (ih_hdr_size hdr), ucast (ih_protect_tlv_size hdr), ih_img_size hdr, ih_flags hdr,
                                           ucast region, slot ! 0, slot ! 1, mask];
                                         s = record_bl2_ram_load_snapshot (unat curr_img) values s;
                                         s = account_bl2_ram_load_snapshot (unat curr_img) mask s
                                     in (mask = 0, s, c))))))"

definition record_sites :: "'c cpu_context \<Rightarrow> accel_config \<Rightarrow> u32 \<Rightarrow> (u64 \<times> bl2_site) list \<Rightarrow> bool \<times> 'c world \<Rightarrow> bool \<times> 'c world" where
  "record_sites C P pc sites r =
     (if p_bl2_load_profile P
      then fold (\<lambda>(addr, site) (matched, w). case record_bl2_profile_site C pc addr site w of (m, w) \<Rightarrow> (matched \<or> m, w)) sites r
      else r)"

definition count_site :: "bl2_site \<Rightarrow> 'c world \<Rightarrow> 'c world" where
  "count_site site = (\<lambda>(s, c). (s\<lparr>m_sites := (m_sites s)(site := (m_sites s site)\<lparr>site_hits := site_hits (m_sites s site) + 1\<rparr>)\<rparr>, c))"

text \<open>The sites in the order of the code; the second one counts its hit once more and also takes the snapshot.\<close>

definition try_bl2_load_profile_at_pc :: "'c cpu_context \<Rightarrow> accel_config \<Rightarrow> u32 \<Rightarrow> 'c world \<Rightarrow> bool \<times> 'c world" where
  "try_bl2_load_profile_at_pc C P pc w =
     (if \<not> p_bl2_load_profile P \<and> \<not> p_bl2_load_accel P then (False, w)
      else
        (let r = record_sites C P pc [(p_bl2_boot_go_for_image_id_addr P, Boot_go_for_image_id)] (False, w);
             load_to_sram_entry = entry_of (p_bl2_boot_load_image_to_sram_addr P);
             load_to_sram_matched = (load_to_sram_entry \<noteq> 0 \<and> pc = load_to_sram_entry);
             w = (if p_bl2_load_profile P \<and> load_to_sram_matched
                  then count_site Boot_load_image_to_sram (capture_bl2_profile_sample C Boot_load_image_to_sram pc (snd r)) else snd r);
             r = record_sites C P pc
                   [(p_bl2_boot_enc_load_addr P, Boot_enc_load), (p_bl2_boot_enc_decrypt_addr P, Boot_enc_decrypt),
                    (p_bl2_bootutil_img_validate_addr P, Bootutil_img_validate), (p_bl2_bootutil_img_hash_addr P, Bootutil_img_hash),
                    (p_bl2_bootutil_verify_sig_addr P, Bootutil_verify_sig)] (fst r \<or> load_to_sram_matched, w)
         in (fst r, if load_to_sram_matched then snd (capture_bl2_ram_load_snapshot C P (snd r)) else snd r)))"

subsection \<open>Decryption\<close>

definition bl2_boot_enc_valid_key_size :: "u32 \<Rightarrow> bool" where
  "bl2_boot_enc_valid_key_size key_size \<longleftrightarrow> key_size = 16 \<or> key_size = 24 \<or> key_size = 32"

definition bl2_boot_enc_cache_key :: "u32 \<Rightarrow> u32 \<Rightarrow> u64" where
  "bl2_boot_enc_cache_key enc_state slot = push_bit 8 (ucast enc_state) OR ucast (slot AND 0xff)"

definition try_bl2_boot_enc_capture_key_at_pc :: "'c cpu_context \<Rightarrow> accel_config \<Rightarrow> u32 \<Rightarrow> 'c world \<Rightarrow> bool \<times> 'c world" where
  "try_bl2_boot_enc_capture_key_at_pc C P pc = (\<lambda>(s, c).
     let entry = entry_of (p_bl2_boot_enc_set_key_addr P)
     in if (\<not> p_bl2_boot_enc_accel P \<and> \<not> p_bl2_load_accel P) \<or> entry = 0 \<or> pc \<noteq> entry then (False, s, c)
        else
          (let enc_state = reg C Field_R0 c; slot = reg C Field_R1 c; boot_status = reg C Field_R2 c;
               slots = ucast (p_bl2_boot_enc_slots P); key_size = ucast (p_bl2_boot_enc_key_bytes P);
               key_stride = ucast (p_bl2_boot_enc_key_stride P); enckey_offset = ucast (p_bl2_boot_status_enckey_offset P)
           in if slots = 0 \<or> slot \<ge> slots \<or> \<not> bl2_boot_enc_valid_key_size key_size \<or> key_stride < key_size
              then (False, bump Enc Key_capture_failures 1 s, c)
              else
                (let key_addr = ucast boot_status + ucast (enckey_offset :: u32) + ucast slot * ucast (key_stride :: u32)
                 in case guest_read_bytes C key_addr (ucast key_size) c of
                      (None, c) \<Rightarrow> (False, bump Enc Key_capture_failures 1 s, c)
                    | (Some key, c) \<Rightarrow>
                        (let entry_data = \<lparr>ek_valid = True, ek_key_size = key_size, ek_key = key @ replicate (32 - length key) 0\<rparr>
                         in (False, bump Enc Key_captures 1
                               (s\<lparr>m_enc_keys := (m_enc_keys s)(bl2_boot_enc_cache_key enc_state slot \<mapsto> entry_data)\<rparr>), c)))))"

text \<open>The first image whose snapshot fits the buffer: its number, load address, header size, image size and flags.\<close>

fun find_snapshot :: "rse_accel \<Rightarrow> u32 \<Rightarrow> u32 \<Rightarrow> nat list \<Rightarrow> (u32 \<times> u32 \<times> u32 \<times> u32 \<times> u32) option" where
  "find_snapshot s off buf [] = None"
| "find_snapshot s off buf (i # is) =
     (let n = m_snapshot_by_image s i
      in if snap_hits n = 0 \<or> last_unsupported_mask n \<noteq> 0 then find_snapshot s off buf is
         else if last_hdr_size n = 0 \<or> last_img_size n = 0 \<or> off \<ge> last_img_size n then find_snapshot s off buf is
         else if (ucast (last_load_addr n) + ucast (last_hdr_size n) + ucast off :: u64) \<noteq> ucast buf then find_snapshot s off buf is
         else Some (of_nat i, last_load_addr n, last_hdr_size n, last_img_size n, last_flags n))"

definition find_bl2_load_snapshot_for_decrypt :: "accel_config \<Rightarrow> rse_accel \<Rightarrow> u32 \<Rightarrow> u32 \<Rightarrow> (u32 \<times> u32 \<times> u32 \<times> u32 \<times> u32) option" where
  "find_bl2_load_snapshot_for_decrypt P s off buf =
     find_snapshot s off buf [0..<unat (min (p_bl2_boot_image_count P) 64)]"

text \<open>
  The key of a slot, with the size the entry gives it. \<open>None\<close> is an entry that is absent, not valid
  or of an unusable size.
\<close>

definition cached_key :: "rse_accel \<Rightarrow> u32 \<Rightarrow> u32 \<Rightarrow> u8 list option" where
  "cached_key s enc_state slot =
     (case m_enc_keys s (bl2_boot_enc_cache_key enc_state slot) of
        None \<Rightarrow> None
      | Some key \<Rightarrow> (if \<not> ek_valid key \<or> \<not> bl2_boot_enc_valid_key_size (ek_key_size key) then None
                     else Some (take (unat (ek_key_size key)) (ek_key key))))"

text \<open>
  The part both decryption hooks have in common: \<open>len\<close> bytes at \<open>addr\<close> replaced by their
  counter-mode decryption, the guest's view of them invalidated. \<open>Inl\<close> is the counter of a failure.
\<close>

definition decrypt_range :: "'c cpu_context \<Rightarrow> accel_hook \<Rightarrow> u8 list \<Rightarrow> u8 list \<Rightarrow> u64 \<Rightarrow> u32 \<Rightarrow> nat \<Rightarrow> 'c world \<Rightarrow> accel_stat option \<times> 'c world" where
  "decrypt_range C hook key counter addr len blk_off = (\<lambda>(s, c).
     case guest_read_bytes_or_alias C addr (ucast len) c of
       (None, c) \<Rightarrow> (Some Dmi_failures, s, c)
     | (Some (input, direct_file_alias), c) \<Rightarrow>
         (case aes_ctr_xcrypt_buffer key counter input blk_off of
            None \<Rightarrow> (Some Unsupported, s, c)
          | Some output \<Rightarrow>
              (case guest_write_bytes_or_alias C addr output c of
                 ((False, _), c) \<Rightarrow> (Some Dmi_failures, s, c)
               | ((True, write_alias), c) \<Rightarrow>
                   (None, (if direct_file_alias \<or> write_alias then bump hook Alias_hits 1 s else s),
                    invalidate_guest_range C addr (addr + ucast len - 1) c))))"


text \<open>The return to the caller: the program counter set to the link register.\<close>

definition return_to_lr :: "'c cpu_context \<Rightarrow> accel_hook \<Rightarrow> (v7m_field \<times> u32) list \<Rightarrow> u32 \<Rightarrow> (rse_accel \<Rightarrow> rse_accel) \<Rightarrow> 'c world \<Rightarrow> bool \<times> 'c world" where
  "return_to_lr C hook results return_pc account = (\<lambda>(s, c).
     case set_regs C (results @ [(Field_PC, return_pc)]) c of
       (False, c) \<Rightarrow> (False, bump hook State_failures 1 s, c)
     | (True, c) \<Rightarrow> (True, account s, set_vcpu_dirty C True c))"

definition try_bl2_load_decrypt_accel_at_pc :: "'c cpu_context \<Rightarrow> accel_config \<Rightarrow> u32 \<Rightarrow> 'c world \<Rightarrow> bool \<times> 'c world" where
  "try_bl2_load_decrypt_accel_at_pc C P pc = (\<lambda>(s, c).
     let entry = entry_of (p_bl2_boot_enc_decrypt_addr P)
     in if \<not> p_bl2_load_accel P \<or> entry = 0 \<or> pc \<noteq> entry then (False, s, c)
        else
          (let enc_state = reg C Field_R0 c; slot = reg C Field_R1 c; off = reg C Field_R2 c; size' = reg C Field_R3 c;
               sp = ucast (reg C Field_SP c); return_pc = reg C Field_LR
           in case read_words C [sp, sp + 4] c of
                (None, c) \<Rightarrow> (False, bump Load Dmi_failures 1 s, c)
              | (Some args, c) \<Rightarrow>
                  (let blk_off = args ! 0; buf = args ! 1;
                       found = find_bl2_load_snapshot_for_decrypt P s off buf;
                       (curr_img, load_addr, hdr_size, img_size, flags) = (case found of None \<Rightarrow> (0, 0, 0, 0, 0) | Some f \<Rightarrow> f);
                       s = note_lasts Load [(Last_slot, slot), (Last_off, off), (Last_size, size'), (Last_blk_off, blk_off), (Last_buf, buf),
                             (Last_curr_img, curr_img), (Last_img_size, img_size), (Last_flags, flags)] s;
                       slots = ucast (p_bl2_boot_enc_slots P);
                       mask = flag (found = None) 1 OR flag (slots = 0 \<or> slot \<ge> slots) 2
                         OR flag (ucast size' > p_bl2_boot_enc_max_bytes P) 4 OR flag (blk_off \<ge> 16) 8
                         OR flag (buf = 0 \<and> size' \<noteq> 0) 16 OR flag (ucast img_size > p_bl2_load_accel_max_bytes P) 32
                         OR flag (flags \<noteq> IMAGE_F_RAM_LOAD OR IMAGE_F_ENCRYPTED_AES128) 128
                   in if mask = 0 \<and> unat curr_img < SNAPSHOT_IMAGE_SLOTS \<and> m_image_decrypted s (unat curr_img)
                      then return_to_lr C Load [] (return_pc c) (\<lambda>s. note_last Load Last_unsupported_mask 0 (bump Load Skip_hits 1 s)) (s, c)
                      else
                        (let mask = mask OR flag (off \<noteq> 0 \<or> blk_off \<noteq> 0) 64;
                             s = note_last Load Last_unsupported_mask mask s
                         in if mask \<noteq> 0 then (False, bump Load Unsupported 1 s, c)
                            else
                              (case cached_key s enc_state slot of
                                 None \<Rightarrow> (False, bump Load Key_misses 1 s, c)
                               | Some key \<Rightarrow>
                                   (case decrypt_range C Load key (replicate 16 0) (ucast load_addr + ucast hdr_size) img_size 0 (s, c) of
                                      (Some k, s, c) \<Rightarrow> (False, bump Load k 1 s, c)
                                    | (None, s, c) \<Rightarrow>
                                        return_to_lr C Load [] (return_pc c)
                                          (\<lambda>s. bump Load Bytes (ucast img_size) (bump Load Hits 1 s))
                                          (s\<lparr>m_image_decrypted := (m_image_decrypted s)(unat curr_img := True)\<rparr>, c)))))))"

text \<open>The counter block of the first block of a range.\<close>

definition range_counter :: "u32 \<Rightarrow> u8 list" where
  "range_counter off = (let block = drop_bit 4 off in
     replicate 12 0 @ [ucast (drop_bit 24 block), ucast (drop_bit 16 block), ucast (drop_bit 8 block), ucast block])"

definition try_bl2_boot_enc_decrypt_accel_at_pc :: "'c cpu_context \<Rightarrow> accel_config \<Rightarrow> u32 \<Rightarrow> 'c world \<Rightarrow> bool \<times> 'c world" where
  "try_bl2_boot_enc_decrypt_accel_at_pc C P pc = (\<lambda>(s, c).
     let entry = entry_of (p_bl2_boot_enc_decrypt_addr P)
     in if \<not> p_bl2_boot_enc_accel P \<or> entry = 0 \<or> pc \<noteq> entry then (False, s, c)
        else
          (let enc_state = reg C Field_R0 c; slot = reg C Field_R1 c; off = reg C Field_R2 c; size' = reg C Field_R3 c;
               sp = ucast (reg C Field_SP c)
           in case read_words C [sp, sp + 4] c of
                (None, c) \<Rightarrow> (False, bump Enc Dmi_failures 1 s, c)
              | (Some args, c) \<Rightarrow>
                  (let blk_off = args ! 0; buf = args ! 1; slots = ucast (p_bl2_boot_enc_slots P);
                       mask = flag (slots = 0 \<or> slot \<ge> slots) 1 OR flag (ucast size' > p_bl2_boot_enc_max_bytes P) 2
                         OR flag (blk_off \<ge> 16) 4 OR flag (buf = 0 \<and> size' \<noteq> 0) 8;
                       s = note_lasts Enc [(Last_enc_state, enc_state), (Last_slot, slot), (Last_off, off), (Last_size, size'),
                             (Last_blk_off, blk_off), (Last_buf, buf), (Last_unsupported_mask, mask)] s
                   in if mask \<noteq> 0 then (False, bump Enc Unsupported 1 s, c)
                      else
                        (let return_pc = reg C Field_LR c
                         in if size' = 0 then return_to_lr C Enc [] return_pc (bump Enc Hits 1) (s, c)
                            else
                              (case cached_key s enc_state slot of
                                 None \<Rightarrow> (False, bump Enc Key_misses 1 s, c)
                               | Some key \<Rightarrow>
                                   (case decrypt_range C Enc key (range_counter off) (ucast buf) size' (unat blk_off) (s, c) of
                                      (Some k, s, c) \<Rightarrow> (False, bump Enc k 1 s, c)
                                    | (None, s, c) \<Rightarrow>
                                        return_to_lr C Enc [] return_pc
                                          (\<lambda>s. bump Enc Bytes (ucast size') (bump Enc Hits 1 s)) (s, c)))))))"

subsection \<open>Delays\<close>

definition try_bl2_delay_accel_at_pc :: "'c cpu_context \<Rightarrow> accel_config \<Rightarrow> u32 \<Rightarrow> 'c world \<Rightarrow> bool \<times> 'c world" where
  "try_bl2_delay_accel_at_pc C P pc = (\<lambda>(s, c).
     let norm_pc = pc AND NOT 1; entry = entry_of (p_bl2_delay_cycles_addr P)
     in if \<not> p_bl2_delay_accel P \<or> entry = 0 \<or> norm_pc \<noteq> entry then (False, s, c)
        else
          (let cycles = reg C Field_R0 c; return_pc = reg C Field_LR c;
               mask = flag (ucast cycles > p_bl2_delay_max_cycles P) 1 OR flag (return_pc = 0) 2;
               s = note_lasts Delay [(Last_cycles, cycles), (Last_lr, return_pc), (Last_unsupported_mask, mask)] s
           in if mask \<noteq> 0 then (False, bump Delay Unsupported 1 s, c)
              else
                return_to_lr C Delay [(Field_R0, 0)] return_pc
                  (\<lambda>s. let hits = m_stats s (Delay, Hits) + 1; s = bump Delay Cycles (ucast cycles) (bump Delay Hits 1 s);
                           expected_hits = p_bl2_delay_expected_hits P
                       in if expected_hits \<noteq> 0 \<and> hits \<ge> expected_hits \<and> m_delay_watch_active s
                          then s\<lparr>m_delay_watch_active := False, m_pc_entry_registered := False\<rparr>
                          else if expected_hits \<noteq> 0 \<and> hits \<ge> expected_hits then s\<lparr>m_delay_watch_active := False\<rparr>
                          else s) (s, c)))"

definition try_bl2_delay_accel :: "'c cpu_context \<Rightarrow> accel_config \<Rightarrow> 'c world \<Rightarrow> 'c world" where
  "try_bl2_delay_accel C P = (\<lambda>(s, c).
     if \<not> p_bl2_delay_accel P then (s, c)
     else
       (case try_bl2_delay_accel_at_pc C P (ucast (get_pc C c)) (s, c) of
          (False, w) \<Rightarrow> w
        | (True, s, c) \<Rightarrow> (s, kick_cpu C (set_vcpu_dirty C True c))))"

subsection \<open>Image hashes\<close>

definition try_bl2_img_hash_accel_at_pc :: "'c cpu_context \<Rightarrow> accel_config \<Rightarrow> u32 \<Rightarrow> 'c world \<Rightarrow> (bool \<times> 'c world) ub" where
  "try_bl2_img_hash_accel_at_pc C P pc = (\<lambda>(s, c).
     let entry = entry_of (p_bl2_bootutil_img_hash_addr P);
         fail = (\<lambda>k s c. Some (False, bump Img_hash k 1 s, c))
     in if \<not> p_bl2_img_hash_accel P \<or> entry = 0 \<or> pc \<noteq> entry then Some (False, s, c)
        else
          (let hdr = reg C Field_R1 c; sp = ucast (reg C Field_SP c)
           in case read_words C [sp + 4, sp + 8, sp + 12] c of
                (None, c) \<Rightarrow> fail Dmi_failures s c
              | (Some args, c) \<Rightarrow>
                  (let hash_result = args ! 0; seed = args ! 1; seed_len = args ! 2;
                       s = note_lasts Img_hash [(Last_hdr, hdr), (Last_hash_result, hash_result), (Last_seed, seed), (Last_seed_len, seed_len)] s;
                       mask = flag (hdr = 0) 1 OR flag (hash_result = 0) 2 OR flag (ucast seed_len > p_bl2_img_hash_max_seed_bytes P) 4
                         OR flag (seed = 0 \<and> seed_len \<noteq> 0) 8
                   in case read_if (mask = 0) [] (guest_read_bytes C (ucast hdr) 32) c of
                        (None, c) \<Rightarrow> fail Dmi_failures s c
                      | (Some hdr_bytes, c) \<Rightarrow>
                          (let (parsed, hdr) = (if mask = 0 then parse_header (Some hdr_bytes) image_header0 else (False, image_header0));
                               mask = mask OR flag (mask = 0 \<and> \<not> parsed) 16;
                               region = (if mask = 0 then hash_region_size hdr else Some 0);
                               mask = mask OR flag (mask = 0 \<and> region = None) 32;
                               hash_size = (case region of None \<Rightarrow> 0 | Some n \<Rightarrow> n);
                               mask = mask OR flag (mask = 0 \<and> hash_size > p_bl2_img_hash_max_bytes P) 64;
                               s = note_lasts Img_hash [(Last_load_addr, ih_load_addr hdr), (Last_hash_size, ucast hash_size),
                                     (Last_unsupported_mask, mask)] s
                           in if mask \<noteq> 0 then fail Unsupported s c
                              else
                                (case guest_read_bytes_or_alias C (ucast (ih_load_addr hdr)) hash_size c of
                                   (None, c) \<Rightarrow> fail Dmi_failures s c
                                 | (Some (img, direct_file_alias), c) \<Rightarrow>
                                     (let s = (if direct_file_alias then bump Img_hash Alias_hits 1 s else s)
                                      in case read_if (seed_len \<noteq> 0) ([], False) (guest_read_bytes_or_alias C (ucast seed) (ucast seed_len)) c of
                                           (None, c) \<Rightarrow> fail Dmi_failures s c
                                         | (Some (seed_bytes, seed_direct_file_alias), c) \<Rightarrow>
                                             (let s = (if seed_direct_file_alias then bump Img_hash Alias_hits 1 s else s)
                                              in do {
                                                   digest \<leftarrow> mcuboot_sha256 (if seed_len = 0 then None else Some seed_bytes) img;
                                                   (case guest_write_bytes C (ucast hash_result) digest c of
                                                      (False, c) \<Rightarrow> fail Dmi_failures s c
                                                    | (True, c) \<Rightarrow>
                                                        Some (return_to_lr C Img_hash [(Field_R0, 0)] (reg C Field_LR c)
                                                          (\<lambda>s. bump Img_hash Bytes hash_size (bump Img_hash Hits 1 s)) (s, c))) })))))))"


subsection \<open>Image signatures\<close>

abbreviation (input) MAX_VERIFY_SIG_CACHE_ENTRIES :: nat where "MAX_VERIFY_SIG_CACHE_ENTRIES \<equiv> 16"

definition find_verified :: "u8 list \<Rightarrow> u8 list \<Rightarrow> u8 list \<Rightarrow> verify_sig_entry list \<Rightarrow> bool option" where
  "find_verified key hash signature cache =
     map_option vs_verified (List.find (\<lambda>e. vs_public_key e = key \<and> vs_hash e = hash \<and> vs_signature e = signature) cache)"

text \<open>The verdict on a signature, remembered for the last sixteen that were checked.\<close>

definition check_signature :: "u8 list \<Rightarrow> u8 list \<Rightarrow> u8 list \<Rightarrow> rse_accel \<Rightarrow> (bool \<times> rse_accel) ub" where
  "check_signature key hash signature s =
     (case find_verified key hash signature (m_verify_sig_cache s) of
        Some verified \<Rightarrow> Some (verified, bump Verify_sig Cache_hits 1 s)
      | None \<Rightarrow> do {
          verified \<leftarrow> ecdsa_verify_vectors key hash signature;
          let cache = m_verify_sig_cache s;
          let cache = (if length cache \<ge> MAX_VERIFY_SIG_CACHE_ENTRIES then tl cache else cache);
          let entry = \<lparr>vs_public_key = key, vs_hash = hash, vs_signature = signature, vs_verified = verified\<rparr>;
          Some (verified, (bump Verify_sig Cache_misses 1 s)\<lparr>m_verify_sig_cache := cache @ [entry]\<rparr>) })"

fun read_buffers :: "'c cpu_context \<Rightarrow> (u32 \<times> u32) list \<Rightarrow> 'c \<Rightarrow> u8 list list option \<times> 'c" where
  "read_buffers C [] c = (Some [], c)"
| "read_buffers C ((a, n) # rest) c =
     (case guest_read_bytes C (ucast a) (ucast n) c of
        (None, c) \<Rightarrow> (None, c)
      | (Some bs, c) \<Rightarrow> (case read_buffers C rest c of (None, c) \<Rightarrow> (None, c) | (Some bss, c) \<Rightarrow> (Some (bs # bss), c)))"

definition try_bl2_verify_sig_accel_at_pc :: "'c cpu_context \<Rightarrow> accel_config \<Rightarrow> u32 \<Rightarrow> 'c world \<Rightarrow> (bool \<times> 'c world) ub" where
  "try_bl2_verify_sig_accel_at_pc C P pc = (\<lambda>(s, c).
     let entry = entry_of (p_bl2_bootutil_verify_sig_addr P);
         fail = (\<lambda>k s c. Some (False, bump Verify_sig k 1 s, c))
     in if \<not> p_bl2_verify_sig_accel P \<or> entry = 0 \<or> pc \<noteq> entry then Some (False, s, c)
        else
          (let hash = reg C Field_R0 c; hlen = reg C Field_R1 c; sig = reg C Field_R2 c; slen = reg C Field_R3 c
           in case guest_read_u32 C (ucast (reg C Field_SP c)) c of
                (None, c) \<Rightarrow> fail Dmi_failures s c
              | (Some key_no, c) \<Rightarrow>
                  (let s = note_lasts Verify_sig [(Last_hash, hash), (Last_hlen, hlen), (Last_sig, sig), (Last_slen, slen), (Last_key_id, key_no)] s;
                       keys_addr = ucast (p_bl2_bootutil_keys_addr P) :: u32;
                       key_cnt_addr = ucast (p_bl2_bootutil_key_cnt_addr P) :: u32;
                       mask = flag (hlen \<noteq> 32) 1 OR flag (slen = 0 \<or> ucast slen > p_bl2_verify_sig_max_sig_bytes P) 2
                         OR flag (hash = 0 \<or> sig = 0) 4 OR flag (key_no > 0xff) 8 OR flag (keys_addr = 0) 16
                   in case read_if (key_cnt_addr \<noteq> 0) 0 (guest_read_u32 C (ucast key_cnt_addr)) c of
                        (None, c) \<Rightarrow> fail Dmi_failures s c
                      | (Some key_cnt, c) \<Rightarrow>
                          (let mask = mask OR flag (key_cnt_addr \<noteq> 0 \<and> key_no \<ge> key_cnt) 32;
                               s = note_last Verify_sig Last_unsupported_mask mask s;
                               key_entry_addr = ucast (keys_addr + key_no * 8) :: u64
                           in if mask \<noteq> 0 then fail Unsupported s c
                              else
                                (case read_words C [key_entry_addr, key_entry_addr + 4] c of
                                   (None, c) \<Rightarrow> fail Dmi_failures s c
                                 | (Some ptrs, c) \<Rightarrow>
                                     (case guest_read_u32 C (ucast (ptrs ! 1)) c of
                                        (None, c) \<Rightarrow> fail Dmi_failures s c
                                      | (Some key_len, c) \<Rightarrow>
                                          (let key_ptr = ptrs ! 0;
                                               s = note_lasts Verify_sig [(Last_key_ptr, key_ptr), (Last_key_len, key_len)] s
                                           in if key_ptr = 0 \<or> key_len = 0 \<or> ucast key_len > p_bl2_verify_sig_max_key_bytes P
                                              then fail Unsupported s c
                                              else
                                                (case read_buffers C [(key_ptr, key_len), (hash, hlen), (sig, slen)] c of
                                                   (None, c) \<Rightarrow> fail Dmi_failures s c
                                                 | (Some bufs, c) \<Rightarrow> do {
                                                     (verified, s) \<leftarrow> check_signature (bufs ! 0) (bufs ! 1) (bufs ! 2) s;
                                                     if \<not> verified then fail Verify_failures s c
                                                     else
                                                       (let s = bump Verify_sig Matches 1 s;
                                                            fih_success_addr = ucast (p_bl2_fih_success_addr P) :: u32
                                                        in if \<not> p_bl2_verify_sig_skip P then Some (False, s, c)
                                                           else if fih_success_addr = 0 then fail Dmi_failures s c
                                                           else
                                                             (case guest_read_u32 C (ucast fih_success_addr) c of
                                                                (None, c) \<Rightarrow> fail Dmi_failures s c
                                                              | (Some fih_success, c) \<Rightarrow>
                                                                  Some (return_to_lr C Verify_sig [(Field_R0, fih_success)] (reg C Field_LR c)
                                                                    (bump Verify_sig Skip_hits 1)
                                                                    (note_last Verify_sig Last_fih_success fih_success s, c)))) }))))))))"

subsection \<open>LMS signatures\<close>

abbreviation (input) FIH_SUCCESS_VALUE :: u32 where "FIH_SUCCESS_VALUE \<equiv> 0x1aaa555a"

definition try_lms_accel_at_pc :: "'c cpu_context \<Rightarrow> accel_config \<Rightarrow> u32 \<Rightarrow> 'c world \<Rightarrow> (bool \<times> 'c world) ub" where
  "try_lms_accel_at_pc C P pc = (\<lambda>(s, c).
     let verify_addr = entry_of (p_lms_verify_addr P);
         fail = (\<lambda>k s c. Some (False, bump Lms k 1 s, c))
     in if \<not> p_lms_accel P \<or> m_lms_accel_done s then Some (False, s, c)
        else if verify_addr = 0 \<or> pc \<noteq> verify_addr then fail Pc_misses s c
        else
          (let key_addr = reg C Field_R0 c; key_size = reg C Field_R1 c; data_addr = reg C Field_R2 c; data_size = reg C Field_R3 c;
               sp = ucast (reg C Field_SP c)
           in case read_words C [sp, sp + 4] c of
                (None, c) \<Rightarrow> fail Dmi_failures s c
              | (Some args, c) \<Rightarrow>
                  (let sig_addr = args ! 0; sig_size = args ! 1;
                       mask = flag (unat key_size \<noteq> LMS_PUBLIC_KEY_LEN) 1 OR flag (unat sig_size \<noteq> LMS_SIG_LEN) 2
                         OR flag (ucast data_size > p_lms_max_data_bytes P) 4;
                       s = note_lasts Lms [(Last_key_addr, key_addr), (Last_key_size, key_size), (Last_data_addr, data_addr),
                             (Last_data_size, data_size), (Last_sig_addr, sig_addr), (Last_sig_size, sig_size), (Last_unsupported_mask, mask)] s
                   in if mask \<noteq> 0 then fail Unsupported s c
                      else
                        (case read_buffers C [(key_addr, key_size), (data_addr, data_size), (sig_addr, sig_size)] c of
                           (None, c) \<Rightarrow> fail Dmi_failures s c
                         | (Some bufs, c) \<Rightarrow> do {
                             verified \<leftarrow> lms_verify_vectors (bufs ! 0) (bufs ! 1) (bufs ! 2);
                             if \<not> verified then fail Verify_failures s c
                             else
                               (case set_regs C [(Field_R0, FIH_SUCCESS_VALUE), (Field_PC, reg C Field_LR c)] c of
                                  (False, c) \<Rightarrow> fail State_failures s c
                                | (True, c) \<Rightarrow>
                                    (let s = (bump Lms Hits 1 s)\<lparr>m_lms_accel_done := True\<rparr>;
                                         s = (if m_pc_entry_registered s \<and> \<not> p_bl2_load_profile P \<and> \<not> p_bl2_load_accel P \<and>
                                                 \<not> p_bl2_boot_enc_accel P \<and> \<not> p_bl2_img_hash_accel P \<and> \<not> p_bl2_verify_sig_accel P \<and>
                                                 \<not> p_bl2_delay_accel P
                                              then s\<lparr>m_pc_entry_registered := False\<rparr> else s)
                                     in Some (True, s, c))) }))))"

definition try_lms_accel :: "'c cpu_context \<Rightarrow> accel_config \<Rightarrow> 'c world \<Rightarrow> 'c world ub" where
  "try_lms_accel C P = (\<lambda>(s, c). do {
     (handled, s, c) \<leftarrow> try_lms_accel_at_pc C P (ucast (get_pc C c)) (s, c);
     Some (s, if handled then kick_cpu C (set_vcpu_dirty C True c) else c) })"

subsection \<open>The observer\<close>

text \<open>The hooks at an entry, in order, up to the first that handles it.\<close>

definition try_rse_pc_entry :: "'c cpu_context \<Rightarrow> accel_config \<Rightarrow> u64 \<Rightarrow> 'c world \<Rightarrow> (bool \<times> 'c world) ub" where
  "try_rse_pc_entry C P pc w =
     (let pc32 = ucast pc :: u32;
          w = snd (try_bl2_load_profile_at_pc C P pc32 w);
          w = snd (try_bl2_boot_enc_capture_key_at_pc C P pc32 w)
      in case try_bl2_delay_accel_at_pc C P pc32 w of
           (True, w) \<Rightarrow> Some (True, w)
         | (False, w) \<Rightarrow>
         (case try_bl2_load_decrypt_accel_at_pc C P pc32 w of
            (True, w) \<Rightarrow> Some (True, w)
          | (False, w) \<Rightarrow>
          (case try_bl2_boot_enc_decrypt_accel_at_pc C P pc32 w of
             (True, w) \<Rightarrow> Some (True, w)
           | (False, w) \<Rightarrow> do {
               (handled, w) \<leftarrow> try_bl2_img_hash_accel_at_pc C P pc32 w;
               if handled then Some (True, w)
               else do {
                 (handled, w) \<leftarrow> try_bl2_verify_sig_accel_at_pc C P pc32 w;
                 if handled then Some (True, w) else try_lms_accel_at_pc C P pc32 w } })))"

definition accel_enabled :: "accel_config \<Rightarrow> bool" where
  "accel_enabled P \<longleftrightarrow> p_hotpath_accel P \<or> p_lms_accel P \<or> p_bl2_load_profile P \<or> p_bl2_load_accel P \<or> p_bl2_boot_enc_accel P \<or>
     p_bl2_img_hash_accel P \<or> p_bl2_verify_sig_accel P \<or> p_bl2_delay_accel P \<or> p_direct_file_aliases P \<noteq> [] \<or>
     p_mmio_read_fastpath P \<noteq> [] \<or> p_mmio_direct_fastpath_ranges P \<noteq> []"

definition needs_pc_entry_callback :: "accel_config \<Rightarrow> bool" where
  "needs_pc_entry_callback P \<longleftrightarrow> p_lms_accel P \<or> p_bl2_load_profile P \<or> p_bl2_load_accel P \<or> p_bl2_boot_enc_accel P \<or>
     p_bl2_img_hash_accel P \<or> p_bl2_verify_sig_accel P \<or> p_bl2_delay_accel P"

text \<open>The program counter that the processor is asked to watch, and the state.\<close>

definition configure_pc_watches :: "accel_config \<Rightarrow> rse_accel \<Rightarrow> u64 option \<times> rse_accel" where
  "configure_pc_watches P s =
     (if \<not> needs_pc_entry_callback P then (None, s)
      else if p_bl2_delay_accel P \<and> p_bl2_delay_cycles_addr P \<noteq> 0
      then (Some (p_bl2_delay_cycles_addr P AND NOT 1), s\<lparr>m_delay_watch_active := True, m_pc_entry_registered := True\<rparr>)
      else (None, s\<lparr>m_pc_entry_registered := True\<rparr>))"

definition on_pc_entry :: "'c cpu_context \<Rightarrow> accel_config \<Rightarrow> u64 \<Rightarrow> 'c world \<Rightarrow> (bool \<times> 'c world) ub" where
  "on_pc_entry C P pc w = try_rse_pc_entry C P pc w"

definition on_cpu_sync :: "'c cpu_context \<Rightarrow> accel_config \<Rightarrow> 'c world \<Rightarrow> 'c world ub" where
  "on_cpu_sync C P = (\<lambda>(s, c). do {
     w \<leftarrow> (if \<not> m_pc_entry_registered s then try_lms_accel C P (s, c) else Some (s, c));
     Some (try_hotpath_accel C P (try_bl2_delay_accel C P w)) })"

end
