(* ===== verification/Rse_Accel_Spec.thy ===== *)
theory Rse_Accel_Spec
  imports Rse_Accel
begin

text \<open>
  What the hooks of \<open>Rse_Accel\<close> do, stated over the registers and the memory of the processor.
  The locale \<open>cpu_model\<close> holds what they expect of it. Each hook is followed branch by branch: one
  that leaves an entry to the processor has changed neither registers nor memory, and one that
  handles it has done what its relation says and has returned to the caller.
\<close>


unbundle bit_operations_syntax

subsection \<open>Following a hook branch by branch\<close>

declare read_words.simps [simp del] read_buffers.simps [simp del]

text \<open>Rules that take a predicate of the result through the branches of a definition, keeping what each branch knows.\<close>

lemma branches:
  fixes T :: "'r \<Rightarrow> bool"
  shows "(\<And>x. x = t \<Longrightarrow> T (f x)) \<Longrightarrow> T (Let t f)"
    and "(P \<Longrightarrow> T u) \<Longrightarrow> (\<not> P \<Longrightarrow> T v) \<Longrightarrow> T (if P then u else v)"
    and "(\<And>x y. r = (x, y) \<Longrightarrow> T (g x y)) \<Longrightarrow> T (case r of (x, y) \<Rightarrow> g x y)"
    and "(opt = None \<Longrightarrow> T u) \<Longrightarrow> (\<And>x. opt = Some x \<Longrightarrow> T (h x)) \<Longrightarrow> T (case opt of None \<Rightarrow> u | Some x \<Rightarrow> h x)"
    and "(P \<Longrightarrow> T u) \<Longrightarrow> (\<not> P \<Longrightarrow> T v) \<Longrightarrow> T (case P of True \<Rightarrow> u | False \<Rightarrow> v)"
  by (auto split: prod.split option.split bool.split)

lemma branch_any_let: "(\<And>x. T (f x)) \<Longrightarrow> T (Let t f)"
  by simp

lemma branch_bind:
  "T None \<Longrightarrow> (\<And>x. m = Some x \<Longrightarrow> T (k x)) \<Longrightarrow> T (Option.bind m k)"
  by (cases m) auto

subsection \<open>What the hooks do, over registers and memory\<close>

definition word_at :: "ram \<Rightarrow> u64 \<Rightarrow> u32" where
  "word_at m a = le_word (ram_read m a 4)"

text \<open>The digest of the image region behind the seed is stored, and the function has returned 0.\<close>

definition img_hash_spec :: "(v7m_field \<Rightarrow> u32) \<Rightarrow> ram \<Rightarrow> (v7m_field \<Rightarrow> u32) \<Rightarrow> ram \<Rightarrow> bool" where
  "img_hash_spec rg m rg' m' \<longleftrightarrow>
     (\<exists>hdr n. let sp = ucast (rg Field_SP); result = word_at m (sp + 4); seed = word_at m (sp + 8); seed_len = word_at m (sp + 12)
       in parse_header (Some (ram_read m (ucast (rg Field_R1)) 32)) image_header0 = (True, hdr) \<and> hash_region_size hdr = Some n \<and>
          m' = ram_write m (ucast result)
            (sha256_bytes (ram_read m (ucast seed) (unat seed_len) @ ram_read m (ucast (ih_load_addr hdr)) (unat n))) \<and>
          rg' = rg(Field_R0 := 0, Field_PC := rg Field_LR))"

text \<open>The function has returned its success word, for a signature that verifies.\<close>

definition verify_sig_spec :: "accel_config \<Rightarrow> (v7m_field \<Rightarrow> u32) \<Rightarrow> ram \<Rightarrow> (v7m_field \<Rightarrow> u32) \<Rightarrow> ram \<Rightarrow> bool" where
  "verify_sig_spec P rg m rg' m' \<longleftrightarrow>
     (let entry = ucast (ucast (p_bl2_bootutil_keys_addr P) + word_at m (ucast (rg Field_SP)) * 8 :: u32);
          key = ram_read m (ucast (word_at m entry)) (unat (word_at m (ucast (word_at m (entry + 4)))))
      in ecdsa_verify_vectors key (ram_read m (ucast (rg Field_R0)) 32)
           (ram_read m (ucast (rg Field_R2)) (unat (rg Field_R3))) = Some True \<and>
         m' = m \<and>
         rg' = rg(Field_R0 := word_at m (ucast (ucast (p_bl2_fih_success_addr P) :: u32)), Field_PC := rg Field_LR))"

definition lms_spec :: "(v7m_field \<Rightarrow> u32) \<Rightarrow> ram \<Rightarrow> (v7m_field \<Rightarrow> u32) \<Rightarrow> ram \<Rightarrow> bool" where
  "lms_spec rg m rg' m' \<longleftrightarrow>
     (let sp = ucast (rg Field_SP)
      in lms_verify_vectors (ram_read m (ucast (rg Field_R0)) 56) (ram_read m (ucast (rg Field_R2)) (unat (rg Field_R3)))
           (ram_read m (ucast (word_at m sp)) 1452) = Some True \<and>
         m' = m \<and> rg' = rg(Field_R0 := FIH_SUCCESS_VALUE, Field_PC := rg Field_LR))"

text \<open>Every remembered verdict is the one the check would give.\<close>

definition cache_sound :: "rse_accel \<Rightarrow> bool" where
  "cache_sound s \<longleftrightarrow> length (m_verify_sig_cache s) \<le> 16 \<and>
     (\<forall>e \<in> set (m_verify_sig_cache s).
        ecdsa_verify_vectors (vs_public_key e) (vs_hash e) (vs_signature e) = Some (vs_verified e))"

lemma ram_read_0 [simp]: "ram_read m a 0 = []"
  by (simp add: ram_read_def)

lemma cache_note [simp]:
  "m_verify_sig_cache (note_last h k v s) = m_verify_sig_cache s" "m_verify_sig_cache (bump h j n s) = m_verify_sig_cache s"
  by (simp_all add: note_last_def bump_def)

lemma cache_notes [simp]: "m_verify_sig_cache (note_lasts h kvs s) = m_verify_sig_cache s"
  by (induction kvs arbitrary: s) simp_all

lemma sound_cong: "m_verify_sig_cache s = m_verify_sig_cache t \<Longrightarrow> cache_sound s = cache_sound t"
  by (simp add: cache_sound_def)

lemma sound_note [simp]:
  "cache_sound (note_last h k v s) = cache_sound s" "cache_sound (bump h j n s) = cache_sound s"
  "cache_sound (note_lasts h kvs s) = cache_sound s"
  by (rule sound_cong, simp)+

lemma find_sound:
  assumes "cache_sound s" "find_verified key hash signature (m_verify_sig_cache s) = Some v"
  shows "ecdsa_verify_vectors key hash signature = Some v"
proof -
  from assms(2) obtain e where "List.find (\<lambda>e. vs_public_key e = key \<and> vs_hash e = hash \<and> vs_signature e = signature) (m_verify_sig_cache s) = Some e"
    "v = vs_verified e" by (auto simp: find_verified_def)
  moreover from this(1) have "e \<in> set (m_verify_sig_cache s)" "vs_public_key e = key" "vs_hash e = hash" "vs_signature e = signature"
    by (auto simp: find_Some_iff)
  ultimately show ?thesis using assms(1) by (auto simp: cache_sound_def)
qed

lemma check_sound:
  assumes "cache_sound s" "check_signature key hash signature s = Some (v, s')"
  shows "ecdsa_verify_vectors key hash signature = Some v \<and> cache_sound s'"
proof (cases "find_verified key hash signature (m_verify_sig_cache s)")
  case None
  with assms(2) obtain "ecdsa_verify_vectors key hash signature = Some v"
    "m_verify_sig_cache s' = (if length (m_verify_sig_cache s) \<ge> 16 then tl (m_verify_sig_cache s) else m_verify_sig_cache s) @
       [\<lparr>vs_public_key = key, vs_hash = hash, vs_signature = signature, vs_verified = v\<rparr>]"
    by (auto simp: check_signature_def Let_def split: bind_split_asm)
  then show ?thesis using assms(1) by (auto simp: cache_sound_def dest: list.set_sel(2)[rotated] split: if_splits)
next
  case (Some w)
  with assms find_sound[OF assms(1) Some] show ?thesis
    by (auto simp: check_signature_def intro: sound_cong[THEN iffD1])
qed

lemma flag_zero [simp]: "flag b m = 0 \<longleftrightarrow> \<not> b \<or> m = 0"
  by (simp add: flag_def)

text \<open>\<open>n\<close> bytes at \<open>a\<close>, which start \<open>off\<close> bytes into the image, decrypted in place.\<close>

definition decrypt_at :: "u8 list \<Rightarrow> u32 \<Rightarrow> nat \<Rightarrow> u64 \<Rightarrow> nat \<Rightarrow> ram \<Rightarrow> ram" where
  "decrypt_at key off blk_off a n m =
     (case aes_ctr_xcrypt_buffer key (range_counter off) (ram_read m a n) blk_off of
        Some out \<Rightarrow> ram_write m a out | None \<Rightarrow> m)"

text \<open>The image, or the part of it that was asked for, is decrypted, or was already; the function has returned.\<close>

definition load_spec :: "accel_config \<Rightarrow> rse_accel \<Rightarrow> (v7m_field \<Rightarrow> u32) \<Rightarrow> ram \<Rightarrow> (v7m_field \<Rightarrow> u32) \<Rightarrow> ram \<Rightarrow> bool" where
  "load_spec P s rg m rg' m' \<longleftrightarrow>
     (\<exists>i load hdr size' flags.
        find_bl2_load_snapshot_for_decrypt P s (rg Field_R2) (word_at m (ucast (rg Field_SP) + 4)) = Some (i, load, hdr, size', flags) \<and>
        (m_image_decrypted s (unat i) \<and> m' = m \<or>
         (\<exists>key. cached_key s (rg Field_R0) (rg Field_R1) = Some key \<and> rg Field_R2 = 0 \<and>
            m' = decrypt_at key 0 0 (ucast load + ucast hdr) (unat size') m)) \<and>
        rg' = rg(Field_PC := rg Field_LR))"

definition enc_spec :: "rse_accel \<Rightarrow> (v7m_field \<Rightarrow> u32) \<Rightarrow> ram \<Rightarrow> (v7m_field \<Rightarrow> u32) \<Rightarrow> ram \<Rightarrow> bool" where
  "enc_spec s rg m rg' m' \<longleftrightarrow>
     (let sp = ucast (rg Field_SP); blk_off = word_at m sp; buf = word_at m (sp + 4)
      in (rg Field_R3 = 0 \<and> m' = m \<or>
          (\<exists>key. cached_key s (rg Field_R0) (rg Field_R1) = Some key \<and>
             m' = decrypt_at key (rg Field_R2) (unat blk_off) (ucast buf) (unat (rg Field_R3)) m)) \<and>
         rg' = rg(Field_PC := rg Field_LR))"

lemma note_others [simp]:
  "m_enc_keys (note_last h k v s) = m_enc_keys s" "m_image_decrypted (note_last h k v s) = m_image_decrypted s"
  by (simp_all add: note_last_def)

lemma note_all [simp]:
  "m_enc_keys (note_lasts h kvs s) = m_enc_keys s" "m_image_decrypted (note_lasts h kvs s) = m_image_decrypted s"
  by (induction kvs arbitrary: s) simp_all

lemma cached_key_cong: "m_enc_keys s = m_enc_keys t \<Longrightarrow> cached_key s e l = cached_key t e l"
  by (simp add: cached_key_def)

lemma cached_key_note [simp]:
  "cached_key (note_last h k v s) e l = cached_key s e l" "cached_key (note_lasts h kvs s) e l = cached_key s e l"
  by (rule cached_key_cong, simp)+

lemma zero_counter: "range_counter 0 = replicate 16 0"
  by (simp add: range_counter_def replicate_append_same[symmetric] numeral_eq_Suc)

subsection \<open>What the hooks expect of the processor\<close>

text \<open>
  \<open>regs\<close> and \<open>mem\<close> are the registers and the guest memory of a processor state, \<open>at\<close> the guest
  address behind a host pointer. Reads give the bytes of the memory or fail; a write that reports a
  failure has changed nothing.
\<close>

locale cpu_model =
  fixes C :: "'c cpu_context"
    and regs :: "'c \<Rightarrow> v7m_field \<Rightarrow> u32"
    and mem :: "'c \<Rightarrow> ram"
    and at :: "u64 \<Rightarrow> u64"
  assumes reg: "reg C f c = regs c f"
    and read_u8: "guest_read_u8 C a c = (r, c') \<Longrightarrow> regs c' = regs c \<and> mem c' = mem c \<and> (\<forall>v. r = Some v \<longrightarrow> v = mem c a)"
    and read_u32: "guest_read_u32 C a c = (w, c') \<Longrightarrow>
      regs c' = regs c \<and> mem c' = mem c \<and> (\<forall>v. w = Some v \<longrightarrow> v = le_word (ram_read (mem c) a 4))"
    and read_bytes: "guest_read_bytes C a n c = (b, c') \<Longrightarrow>
      regs c' = regs c \<and> mem c' = mem c \<and> (\<forall>v. b = Some v \<longrightarrow> v = ram_read (mem c) a (unat n))"
    and read_alias: "guest_read_bytes_or_alias C a n c = (d, c') \<Longrightarrow>
      regs c' = regs c \<and> mem c' = mem c \<and> (\<forall>v al. d = Some (v, al) \<longrightarrow> v = ram_read (mem c) a (unat n))"
    and write_bytes: "guest_write_bytes C a bs c = (ok, c') \<Longrightarrow>
      regs c' = regs c \<and> mem c' = (if ok then ram_write (mem c) a bs else mem c)"
    and write_alias: "guest_write_bytes_or_alias C a bs c = ((ok, al), c') \<Longrightarrow>
      regs c' = regs c \<and> mem c' = (if ok then ram_write (mem c) a bs else mem c)"
    and set_state: "set_v7m_state C f v c = (ok, c') \<Longrightarrow>
      mem c' = mem c \<and> regs c' = (if ok then (regs c)(f := v) else regs c)"
    and dmi_ptr: "guest_dmi_ptr C a n rd wr c = (p, c') \<Longrightarrow>
      regs c' = regs c \<and> mem c' = mem c \<and> (\<forall>q. p = Some q \<longrightarrow> at q = a)"
    and host_read: "host_read C q k c = ram_read (mem c) (at q) k"
    and host_write: "regs (host_write C q bs c) = regs c" "mem (host_write C q bs c) = ram_write (mem c) (at q) bs"
    and quiet: "regs (invalidate_guest_range C a e c) = regs c" "mem (invalidate_guest_range C a e c) = mem c"
      "regs (set_vcpu_dirty C b' c) = regs c" "mem (set_vcpu_dirty C b' c) = mem c"
      "regs (kick_cpu C c) = regs c" "mem (kick_cpu C c) = mem c"
begin

definition same :: "'c \<Rightarrow> 'c \<Rightarrow> bool" where
  "same c c' \<longleftrightarrow> regs c' = regs c \<and> mem c' = mem c"

lemma same_refl [intro]: "same c c" and same_trans: "same c d \<Longrightarrow> same d e \<Longrightarrow> same c e"
  by (simp_all add: same_def)

lemma read_same:
  "guest_read_u8 C a c = (r, c') \<Longrightarrow> same c0 c \<Longrightarrow> same c0 c'"
  "guest_read_u32 C a c = (w, c') \<Longrightarrow> same c0 c \<Longrightarrow> same c0 c'"
  "guest_read_bytes C a n c = (b, c') \<Longrightarrow> same c0 c \<Longrightarrow> same c0 c'"
  "guest_read_bytes_or_alias C a n c = (d, c') \<Longrightarrow> same c0 c \<Longrightarrow> same c0 c'"
  "guest_dmi_ptr C a n rd wr c = (p, c') \<Longrightarrow> same c0 c \<Longrightarrow> same c0 c'"
  using read_u8 read_u32 read_bytes read_alias dmi_ptr by (simp_all add: same_def)

lemma read_words_eq:
  "read_words C as c = (r, c') \<Longrightarrow> same c c' \<and> (\<forall>ws. r = Some ws \<longrightarrow> ws = map (\<lambda>a. le_word (ram_read (mem c) a 4)) as)"
proof (induction "as" arbitrary: c r c')
  case (Cons a "as")
  obtain w c1 where w: "guest_read_u32 C a c = (w, c1)" by fastforce
  obtain ws c2 where ws: "read_words C as c1 = (ws, c2)" by fastforce
  from read_u32[OF w] Cons.IH[OF ws] Cons.prems w ws show ?case
    by (cases w; cases ws) (auto simp: same_def read_words.simps)
qed (auto simp: read_words.simps)

lemma read_words_same: "read_words C as c = (r, c') \<Longrightarrow> same c0 c \<Longrightarrow> same c0 c'"
  using read_words_eq same_trans by blast

lemma read_buffers_eq:
  "read_buffers C ps c = (r, c') \<Longrightarrow>
   same c c' \<and> (\<forall>bs. r = Some bs \<longrightarrow> bs = map (\<lambda>(a, n). ram_read (mem c) (ucast a) (unat n)) ps)"
proof (induction ps arbitrary: c r c')
  case (Cons p ps)
  obtain a n where p: "p = (a, n)" by fastforce
  obtain b c1 where b: "guest_read_bytes C (ucast a) (ucast n) c = (b, c1)" by fastforce
  obtain bs c2 where bs: "read_buffers C ps c1 = (bs, c2)" by fastforce
  from read_bytes[OF b] Cons.IH[OF bs] Cons.prems b bs p show ?case
    by (cases b; cases bs) (auto simp: same_def read_buffers.simps)
qed (auto simp: read_buffers.simps)

lemma read_buffers_same: "read_buffers C ps c = (r, c') \<Longrightarrow> same c0 c \<Longrightarrow> same c0 c'"
  using read_buffers_eq same_trans by blast

lemma read_if_same:
  "read_if b x (guest_read_u8 C a) c = (r, c') \<Longrightarrow> same c0 c \<Longrightarrow> same c0 c'"
  "read_if b w (guest_read_u32 C a) c = (rw, c') \<Longrightarrow> same c0 c \<Longrightarrow> same c0 c'"
  "read_if b bs (guest_read_bytes C a n) c = (rb, c') \<Longrightarrow> same c0 c \<Longrightarrow> same c0 c'"
  "read_if b d (guest_read_bytes_or_alias C a n) c = (rd, c') \<Longrightarrow> same c0 c \<Longrightarrow> same c0 c'"
  "read_if b ws (read_words C as) c = (rws, c') \<Longrightarrow> same c0 c \<Longrightarrow> same c0 c'"
  by (auto simp: read_if_def intro: read_same read_words_same split: if_splits)

lemma quiet_same:
  "same c0 c \<Longrightarrow> same c0 (invalidate_guest_range C a e c)" "same c0 c \<Longrightarrow> same c0 (set_vcpu_dirty C b c)"
  "same c0 c \<Longrightarrow> same c0 (kick_cpu C c)"
  using quiet by (simp_all add: same_def)

lemma stack_loop_same: "stack_loop C sp is stack n c = (r, c') \<Longrightarrow> same c0 c \<Longrightarrow> same c0 c'"
proof (induction "is" arbitrary: stack n c)
  case (Cons i "is")
  obtain w c1 where w: "guest_read_u32 C (ucast sp + of_nat i * 4) c = (w, c1)" by fastforce
  from read_same(2)[OF w Cons.prems(2)] Cons.IH Cons.prems(1) w show ?case by (cases w) auto
qed auto

subsection \<open>A hook that does not handle an entry leaves no trace\<close>

text \<open>Where \<open>h\<close> is false the processor is as it was, whatever the result.\<close>

definition keeps :: "'c \<Rightarrow> 'c world \<Rightarrow> bool" where
  "keeps c0 w \<longleftrightarrow> same c0 (snd w)"

definition untouched :: "bool \<Rightarrow> 'c \<Rightarrow> bool \<times> 'c world \<Rightarrow> bool" where
  "untouched h c0 r \<longleftrightarrow> (fst r \<and> h) \<or> same c0 (snd (snd r))"

lemma keeps_pair [simp]: "keeps c0 (s, c) = same c0 c"
  by (simp add: keeps_def)

lemma untouched_handled: "untouched True c0 (True, w)"
  by (simp add: untouched_def)

lemma untouched_fail: "same c0 c \<Longrightarrow> untouched h c0 (b, s, c)"
  by (simp add: untouched_def)

lemma sample_same:
  assumes "keeps c0 w" shows "keeps c0 (capture_bl2_profile_sample C site pc w)"
proof -
  obtain s c where w: "w = (s, c)" by fastforce
  obtain ok st n c' where l: "stack_loop C (reg C Field_SP c) [0, 1, 2, 3] (sample_stack (site_last (m_sites s site))) 0 c = ((ok, st, n), c')"
    by (metis prod.collapse)
  show ?thesis using assms stack_loop_same[OF l] unfolding w capture_bl2_profile_sample_def prod.case Let_def l by simp
qed

lemma site_same: "keeps c0 w \<Longrightarrow> keeps c0 (snd (record_bl2_profile_site C pc a site w))"
  by (simp add: record_bl2_profile_site_def Let_def sample_same)

lemmas leaf_same = read_same read_words_same read_buffers_same read_if_same

lemma snapshot_same:
  assumes "same c0 c" shows "untouched False c0 (capture_bl2_ram_load_snapshot C P (s, c))"
  unfolding capture_bl2_ram_load_snapshot_def prod.case
  by (intro branch_any_let[where T = "untouched False c0"] branches(2-)[where T = "untouched False c0"] untouched_fail;
      (hypsubst | assumption | rule assms | erule leaf_same)+)


lemma sites_same: "keeps c0 (snd r) \<Longrightarrow> keeps c0 (snd (record_sites C P pc sites r))"
proof -
  have "keeps c0 (snd r) \<Longrightarrow> keeps c0 (snd (fold (\<lambda>(addr, site) (matched, w). case record_bl2_profile_site C pc addr site w of (m, w) \<Rightarrow> (matched \<or> m, w)) sites r))"
  proof (induction sites arbitrary: r)
    case (Cons a sites)
    obtain addr site where a: "a = (addr, site)" by fastforce
    obtain m w where r: "r = (m, w)" by (cases r)
    from site_same[of c0 w pc addr site] Cons show ?case
      by (cases "record_bl2_profile_site C pc addr site w") (simp add: a r)
  qed simp
  then show "keeps c0 (snd r) \<Longrightarrow> ?thesis" by (simp add: record_sites_def)
qed

lemma profile_same:
  assumes "keeps c0 w" shows "keeps c0 (snd (try_bl2_load_profile_at_pc C P pc w))"
proof -
  have snap: "keeps c0 w \<Longrightarrow> keeps c0 (snd (capture_bl2_ram_load_snapshot C P w))" for w
    using snapshot_same[of c0 "snd w" P "fst w"] by (simp add: untouched_def keeps_def)
  have count: "keeps c0 w \<Longrightarrow> keeps c0 (count_site site w)" for w site
    by (cases w) (simp add: count_site_def keeps_def)
  show ?thesis using assms by (simp add: try_bl2_load_profile_at_pc_def Let_def snap count sites_same sample_same)
qed

lemma capture_key_same: "same c0 c \<Longrightarrow> untouched False c0 (try_bl2_boot_enc_capture_key_at_pc C P pc (s, c))"
  unfolding try_bl2_boot_enc_capture_key_at_pc_def prod.case
  by (intro branch_any_let[where T = "untouched False c0"] branches(2-)[where T = "untouched False c0"] untouched_fail;
      (hypsubst | assumption | erule leaf_same)+)



definition sets_work :: bool where
  "sets_work \<longleftrightarrow> (\<forall>f v c. fst (set_v7m_state C f v c))"

lemma set_works: "sets_work \<Longrightarrow> \<exists>c'. set_v7m_state C f v c = (True, c')"
  unfolding sets_work_def by (metis prod.collapse)

lemma set_regs_work: "sets_work \<Longrightarrow> \<exists>c'. set_regs C fs c = (True, c')"
proof (induction fs arbitrary: c)
  case (Cons fv fs)
  obtain f v where fv: "fv = (f, v)" by fastforce
  from set_works[OF Cons.prems, of f v c] Cons.IH[OF Cons.prems] show ?case by (auto simp: fv)
qed simp

lemma return_handles: "sets_work \<Longrightarrow> untouched True c0 (return_to_lr C hook fs pc f (s, c))"
  using set_regs_work[of "fs @ [(Field_PC, pc)]" c] by (auto simp: return_to_lr_def untouched_def)

lemma write_fail_same:
  "guest_write_bytes_or_alias C a bs c = ((False, al), c') \<Longrightarrow> same c0 c \<Longrightarrow> same c0 c'"
  "guest_write_bytes C a bs c = (ok, c') \<Longrightarrow> \<not> ok \<Longrightarrow> same c0 c \<Longrightarrow> same c0 c'"
  using write_alias write_bytes by (simp_all add: same_def)

lemma decrypt_fail_same: "decrypt_range C hook key ctr a n off (s, c) = (Some k, s', c') \<Longrightarrow> same c0 c \<Longrightarrow> same c0 c'"
  by (auto simp: decrypt_range_def split: prod.split_asm option.split_asm bool.split_asm intro: read_same write_fail_same)

lemma delay_untouched:
  "sets_work \<Longrightarrow> same c0 c \<Longrightarrow> untouched True c0 (try_bl2_delay_accel_at_pc C P pc (s, c))"
  unfolding try_bl2_delay_accel_at_pc_def prod.case
  by (intro branch_any_let[where T = "untouched True c0"] branches(2-)[where T = "untouched True c0"] untouched_fail return_handles;
      (hypsubst | assumption | erule leaf_same | erule decrypt_fail_same)+)

lemma load_untouched:
  "sets_work \<Longrightarrow> same c0 c \<Longrightarrow> untouched True c0 (try_bl2_load_decrypt_accel_at_pc C P pc (s, c))"
  unfolding try_bl2_load_decrypt_accel_at_pc_def prod.case
  by (intro branch_any_let[where T = "untouched True c0"] branches(2-)[where T = "untouched True c0"] untouched_fail return_handles;
      (hypsubst | assumption | erule leaf_same | erule decrypt_fail_same)+)

lemma enc_untouched:
  "sets_work \<Longrightarrow> same c0 c \<Longrightarrow> untouched True c0 (try_bl2_boot_enc_decrypt_accel_at_pc C P pc (s, c))"
  unfolding try_bl2_boot_enc_decrypt_accel_at_pc_def prod.case
  by (intro branch_any_let[where T = "untouched True c0"] branches(2-)[where T = "untouched True c0"] untouched_fail return_handles;
      (hypsubst | assumption | erule leaf_same | erule decrypt_fail_same)+)


definition untouched_ub :: "'c \<Rightarrow> (bool \<times> 'c world) ub \<Rightarrow> bool" where
  "untouched_ub c0 r \<longleftrightarrow> (\<forall>x. r = Some x \<longrightarrow> untouched True c0 x)"

lemma untouched_ub:
  "untouched_ub c0 None" "untouched True c0 x \<Longrightarrow> untouched_ub c0 (Some x)"
  by (simp_all add: untouched_ub_def)

lemma set_regs_fails: "set_regs C fs c = (ok, c') \<Longrightarrow> \<not> ok \<Longrightarrow> sets_work \<Longrightarrow> same c0 c'"
  using set_regs_work[of fs c] by auto

lemma img_hash_untouched:
  "sets_work \<Longrightarrow> same c0 c \<Longrightarrow> untouched_ub c0 (try_bl2_img_hash_accel_at_pc C P pc (s, c))"
  unfolding try_bl2_img_hash_accel_at_pc_def prod.case
  by (subst Let_def, subst Let_def, intro branch_any_let[where T = "untouched_ub c0"] branches(2-)[where T = "untouched_ub c0"]
      branch_bind[where T = "untouched_ub c0"] untouched_ub untouched_handled untouched_fail return_handles;
      (hypsubst | assumption | erule leaf_same | erule write_fail_same)+)

lemma verify_sig_untouched:
  "sets_work \<Longrightarrow> same c0 c \<Longrightarrow> untouched_ub c0 (try_bl2_verify_sig_accel_at_pc C P pc (s, c))"
  unfolding try_bl2_verify_sig_accel_at_pc_def prod.case
  by (subst Let_def, subst Let_def, intro branch_any_let[where T = "untouched_ub c0"] branches(2-)[where T = "untouched_ub c0"]
      branch_bind[where T = "untouched_ub c0"] untouched_ub untouched_handled untouched_fail return_handles;
      (hypsubst | assumption | erule leaf_same)+)

lemma lms_untouched:
  "sets_work \<Longrightarrow> same c0 c \<Longrightarrow> untouched_ub c0 (try_lms_accel_at_pc C P pc (s, c))"
  unfolding try_lms_accel_at_pc_def prod.case
  by (subst Let_def, subst Let_def, intro branch_any_let[where T = "untouched_ub c0"] branches(2-)[where T = "untouched_ub c0"]
      branch_bind[where T = "untouched_ub c0"] untouched_ub untouched_handled untouched_fail return_handles;
      (hypsubst | assumption | erule leaf_same | erule set_regs_fails)+)

lemma pc_entry_untouched:
  assumes "sets_work" and "same c0 (snd w)" and "try_rse_pc_entry C P pc w = Some (False, w')"
  shows "same c0 (snd w')"
proof -
  define w1 where "w1 = snd (try_bl2_load_profile_at_pc C P (ucast pc) w)"
  define w2 where "w2 = snd (try_bl2_boot_enc_capture_key_at_pc C P (ucast pc) w1)"
  have w1: "same c0 (snd w1)" using profile_same[of c0 w P "ucast pc"] assms(2) by (simp add: w1_def keeps_def)
  have w2: "same c0 (snd w2)"
    using capture_key_same[of c0 "snd w1" P "ucast pc" "fst w1"] w1 by (simp add: w2_def untouched_def)
  have step: "untouched True c0 (try_bl2_delay_accel_at_pc C P (ucast pc) w)"
    "untouched True c0 (try_bl2_load_decrypt_accel_at_pc C P (ucast pc) w)"
    "untouched True c0 (try_bl2_boot_enc_decrypt_accel_at_pc C P (ucast pc) w)"
    "untouched_ub c0 (try_bl2_img_hash_accel_at_pc C P (ucast pc) w)"
    "untouched_ub c0 (try_bl2_verify_sig_accel_at_pc C P (ucast pc) w)"
    "untouched_ub c0 (try_lms_accel_at_pc C P (ucast pc) w)" if "same c0 (snd w)" for w
    using that delay_untouched load_untouched enc_untouched img_hash_untouched verify_sig_untouched lms_untouched
    by (metis assms(1) prod.collapse)+
  have next_w: "same c0 (snd w')" if "untouched True c0 (False, w')" for w' using that by (simp add: untouched_def)
  have next_ub: "same c0 (snd w')" if "untouched_ub c0 (Some (False, w'))" for w'
    using that by (simp add: untouched_ub_def untouched_def)
  from assms(3) obtain w3 w4 w5 w6 w7 where
    "try_bl2_delay_accel_at_pc C P (ucast pc) w2 = (False, w3)"
    "try_bl2_load_decrypt_accel_at_pc C P (ucast pc) w3 = (False, w4)"
    "try_bl2_boot_enc_decrypt_accel_at_pc C P (ucast pc) w4 = (False, w5)"
    "try_bl2_img_hash_accel_at_pc C P (ucast pc) w5 = Some (False, w6)"
    "try_bl2_verify_sig_accel_at_pc C P (ucast pc) w6 = Some (False, w7)"
    "try_lms_accel_at_pc C P (ucast pc) w7 = Some (False, w')"
    unfolding try_rse_pc_entry_def Let_def w1_def[symmetric] w2_def[symmetric]
    by (auto split: prod.split_asm bool.split_asm bind_split_asm if_split_asm)
  with step next_w next_ub w2 show ?thesis by metis
qed

subsection \<open>What a handled entry has done\<close>

lemma set_regs_eq:
  "set_regs C fs c = (True, c') \<Longrightarrow> mem c' = mem c \<and> regs c' = fold (\<lambda>(f, v) r. r(f := v)) fs (regs c)"
proof (induction fs arbitrary: c)
  case (Cons fv fs)
  obtain f v where fv: "fv = (f, v)" by fastforce
  obtain ok c1 where set: "set_v7m_state C f v c = (ok, c1)" by fastforce
  from set_state[OF set] Cons.IH[of c1] Cons.prems set show ?case by (cases ok) (auto simp: fv)
qed simp

lemma set_regs_ok:
  "set_regs C fs c = (ok, c') \<Longrightarrow> ok \<longrightarrow> mem c' = mem c \<and> regs c' = fold (\<lambda>(f, v) r. r(f := v)) fs (regs c)"
  using set_regs_eq[of fs c c'] by (cases ok) auto

lemma return_eq:
  "return_to_lr C hook fs pc f (s, c) = (True, s', c') \<Longrightarrow>
   mem c' = mem c \<and> regs c' = fold (\<lambda>(f, v) r. r(f := v)) (fs @ [(Field_PC, pc)]) (regs c) \<and> s' = f s"
  using set_regs_eq[of "fs @ [(Field_PC, pc)]" c] by (auto simp: return_to_lr_def quiet split: prod.splits bool.splits)

definition done_as :: "('c \<Rightarrow> bool) \<Rightarrow> (bool \<times> 'c world) ub \<Rightarrow> bool" where
  "done_as Q r \<longleftrightarrow> (\<forall>s c. r = Some (True, s, c) \<longrightarrow> Q c)"

lemma done_as_intros: "done_as Q None" "done_as Q (Some (False, w))"
  "(\<And>s' c'. return_to_lr C hook fs pc f (s, c) = (True, s', c') \<Longrightarrow> Q c') \<Longrightarrow> done_as Q (Some (return_to_lr C hook fs pc f (s, c)))"
  by (simp_all add: done_as_def)

lemma read_if_eq:
  "read_if b x (guest_read_bytes C a n) c = (Some v, c') \<Longrightarrow> same c c' \<and> (b \<longrightarrow> v = ram_read (mem c) a (unat n)) \<and> (\<not> b \<longrightarrow> v = x)"
  "read_if b y (guest_read_bytes_or_alias C a n) c = (Some (v, al), c') \<Longrightarrow>
     same c c' \<and> (b \<longrightarrow> v = ram_read (mem c) a (unat n)) \<and> (\<not> b \<longrightarrow> (v, al) = y)"
  using read_bytes read_alias by (auto simp: read_if_def same_def split: if_splits)

lemma img_hash_handled:
  "done_as (\<lambda>c'. img_hash_spec (regs c) (mem c) (regs c') (mem c')) (try_bl2_img_hash_accel_at_pc C P pc (s, c))"
  unfolding try_bl2_img_hash_accel_at_pc_def prod.case
  apply (subst Let_def, subst Let_def, intro branches[where T = "done_as _"]
      branch_bind[where T = "done_as _"] done_as_intros)
  apply (hypsubst_thin)?
  apply (drule return_eq)
  apply (drule write_bytes read_words_eq)+
  apply (drule read_alias)
  apply (drule read_if_eq)+
  apply (auto simp: img_hash_spec_def Let_def same_def mcuboot_sha256 word_at_def reg split: if_split_asm option.split_asm)
  done

lemma verify_sig_handled:
  "cache_sound s \<Longrightarrow>
   done_as (\<lambda>c'. verify_sig_spec P (regs c) (mem c) (regs c') (mem c')) (try_bl2_verify_sig_accel_at_pc C P pc (s, c))"
  unfolding try_bl2_verify_sig_accel_at_pc_def prod.case
  apply (subst Let_def, subst Let_def, intro branches[where T = "done_as _"]
      branch_bind[where T = "done_as _"] done_as_intros)
  apply hypsubst_thin
  apply (drule check_sound[rotated], simp del: note_lasts.simps)
  apply (drule return_eq)
  apply (drule read_u32 read_words_eq read_buffers_eq)+
  apply (drule read_if_same, rule same_refl)
  apply (auto simp: verify_sig_spec_def Let_def same_def word_at_def reg)
  done

lemma lms_handled:
  "done_as (\<lambda>c'. lms_spec (regs c) (mem c) (regs c') (mem c')) (try_lms_accel_at_pc C P pc (s, c))"
  unfolding try_lms_accel_at_pc_def prod.case
  apply (subst Let_def, subst Let_def, intro branches[where T = "done_as _"]
      branch_bind[where T = "done_as _"] done_as_intros)
  apply hypsubst_thin
  apply (drule set_regs_ok read_words_eq read_buffers_eq)+
  apply (auto simp: done_as_def lms_spec_def Let_def same_def word_at_def reg)
  done

lemma decrypt_ok:
  assumes "decrypt_range C hook key ctr a n off (s, c) = (None, s', c')"
  shows "\<exists>out. aes_ctr_xcrypt_buffer key ctr (ram_read (mem c) a (unat n)) off = Some out \<and>
     mem c' = ram_write (mem c) a out \<and> regs c' = regs c"
proof -
  obtain r c1 where r: "guest_read_bytes_or_alias C a (ucast n) c = (r, c1)" by fastforce
  with assms obtain input al where input: "r = Some (input, al)" by (auto simp: decrypt_range_def split: option.splits)
  with assms r obtain out where out: "aes_ctr_xcrypt_buffer key ctr input off = Some out"
    by (auto simp: decrypt_range_def split: option.splits)
  obtain ok al2 c2 where w: "guest_write_bytes_or_alias C a out c1 = ((ok, al2), c2)" by (metis prod.collapse)
  from assms r input out w have "ok" "c' = invalidate_guest_range C a (a + ucast n - 1) c2"
    by (auto simp: decrypt_range_def split: bool.splits)
  with read_alias[OF r] write_alias[OF w] out input quiet show ?thesis by auto
qed

definition done_pair :: "('c \<Rightarrow> bool) \<Rightarrow> bool \<times> 'c world \<Rightarrow> bool" where
  "done_pair Q r \<longleftrightarrow> (\<forall>s c. r = (True, s, c) \<longrightarrow> Q c)"

lemma done_pair_intros: "done_pair Q (False, w)"
  "(\<And>s' c'. return_to_lr C hook fs pc f (s, c) = (True, s', c') \<Longrightarrow> Q c') \<Longrightarrow> done_pair Q (return_to_lr C hook fs pc f (s, c))"
  by (simp_all add: done_pair_def)

lemma decrypt_ok_at:
  "decrypt_range C hook key (range_counter off) a n k (s, c) = (None, s', c') \<Longrightarrow>
   mem c' = decrypt_at key off k a (unat n) (mem c) \<and> regs c' = regs c"
  using decrypt_ok by (fastforce simp: decrypt_at_def)

lemma enc_handled:
  "done_pair (\<lambda>c'. enc_spec s (regs c) (mem c) (regs c') (mem c')) (try_bl2_boot_enc_decrypt_accel_at_pc C P pc (s, c))"
  unfolding try_bl2_boot_enc_decrypt_accel_at_pc_def prod.case
  apply (intro branches[where T = "done_pair _"] done_pair_intros)
   apply hypsubst_thin
   apply (drule return_eq read_words_eq)+
   apply (auto simp: enc_spec_def Let_def same_def word_at_def reg)[1]
  apply hypsubst_thin
  apply (drule return_eq read_words_eq decrypt_ok_at)+
  apply (auto simp: enc_spec_def Let_def same_def word_at_def reg)
  done

lemma load_handled:
  "done_pair (\<lambda>c'. load_spec P s (regs c) (mem c) (regs c') (mem c')) (try_bl2_load_decrypt_accel_at_pc C P pc (s, c))"
  unfolding try_bl2_load_decrypt_accel_at_pc_def prod.case zero_counter[symmetric]
  apply (intro branches[where T = "done_pair _"] done_pair_intros)
   apply hypsubst_thin
   apply (drule return_eq read_words_eq)+
   apply (auto simp: load_spec_def Let_def same_def word_at_def reg split: option.split_asm)[1]
  apply hypsubst_thin
  apply (drule return_eq read_words_eq decrypt_ok_at)+
  apply (auto simp: load_spec_def Let_def same_def word_at_def reg)
  done

end

end
