(* ===== verification/Rse_Accel_Effects.thy ===== *)
theory Rse_Accel_Effects
  imports Rse_Accel_Spec
begin

text \<open>
  What the hooks of \<open>Rse_Accel\<close> do together: decryption in chunks and of the whole image, the cache of
  verdicts, copies against the loop of the firmware, and the effect of every entry that is handled.
\<close>


unbundle bit_operations_syntax

subsection \<open>Whole images and chunks of them\<close>

lemma of_nat_add_one: "(of_nat n + 1 :: u8) = of_nat (n + 1)"
  by simp

lemma unat_drop_bits: "unat (drop_bit k w) = unat w div 2 ^ k"
  unfolding unat_drop_bit_eq by (rule drop_bit_eq_div)

lemma increment_le_bytes:
  "unat w + 1 < 256 ^ n \<Longrightarrow> unat w + 1 < 2 ^ 32 \<Longrightarrow> increment_le (le_bytes n (w :: u32) @ rest) = le_bytes n (w + 1) @ rest"
proof (induction n arbitrary: w)
  case (Suc n)
  have w1: "unat (w + 1) = unat w + 1" using Suc.prems(2) by (simp add: unat_add_small)
  have low: "(ucast v :: u8) = of_nat (unat v)" for v :: u32 by simp
  have byte: "(ucast (w + 1) :: u8) = ucast w + 1" unfolding low w1 by (rule of_nat_add_one[symmetric])
  have wrap: "(ucast w + 1 :: u8) = 0 \<longleftrightarrow> unat w mod 256 = 255"
  proof -
    have "(ucast w + 1 :: u8) = of_nat (unat w + 1)" unfolding low by (rule of_nat_add_one)
    also have "\<dots> = 0 \<longleftrightarrow> 2 ^ LENGTH(8) dvd unat w + 1" by (rule word_of_nat_eq_0_iff)
    also have "2 ^ LENGTH(8) = (256 :: nat)" by simp
    also have "256 dvd unat w + 1 \<longleftrightarrow> unat w mod 256 = 255" by (auto simp: dvd_eq_mod_eq_0 mod_Suc split: if_splits)
    finally show ?thesis .
  qed
  show ?case
  proof (cases "unat w mod 256 = 255")
    case True
    then have "(unat w + 1) div 256 = unat w div 256 + 1" by (simp add: div_Suc mod_Suc)
    then have "drop_bit 8 (w + 1) = drop_bit 8 w + 1"
      using Suc.prems by (simp add: word_unat_eq_iff unat_drop_bits w1 unat_add_small)
    moreover have "256 * (unat w div 256 + 1) = unat w + 1" using True mult_div_mod_eq[of 256 "unat w"] by (simp add: distrib_left)
    then have "unat (drop_bit 8 w) + 1 < 256 ^ n" "unat (drop_bit 8 w) + 1 < 2 ^ 32"
      using Suc.prems by (auto simp: unat_drop_bits)
    ultimately show ?thesis using Suc.IH[of "drop_bit 8 w"] True wrap by (simp add: byte Let_def)
  next
    case False
    then have "(unat w + 1) div 256 = unat w div 256" by (simp add: div_Suc mod_Suc)
    then have "drop_bit 8 (w + 1) = drop_bit 8 w"
      by (simp add: word_unat_eq_iff unat_drop_bits w1)
    then show ?thesis using False wrap by (simp add: byte Let_def)
  qed
qed simp


lemma range_counter_le: "range_counter off = rev (le_bytes 4 (drop_bit 4 off) @ replicate 12 0)"
  by (simp add: range_counter_def le_bytes_4 Let_def)

lemma range_counter_next:
  assumes "16 dvd unat off" "unat off + 16 < 2 ^ 32"
  shows "aes_increment_counter (range_counter off) = range_counter (off + 16)"
proof -
  let ?b = "drop_bit 4 off"
  have o16: "unat (off + 16) = unat off + 16" using assms(2) by (simp add: unat_add_small)
  have b: "unat ?b = unat off div 16" by (simp add: unat_drop_bits)
  then have b1: "unat (?b + 1) = unat off div 16 + 1" using unat_bound[of off] by (simp add: unat_add_small)
  have "?b + 1 = drop_bit 4 (off + 16)"
    by (simp add: word_unat_eq_iff b1 unat_drop_bits o16)
  moreover have "increment_le (le_bytes 4 ?b @ replicate 12 0) = le_bytes 4 (?b + 1) @ replicate 12 0"
    using assms(2) by (intro increment_le_bytes) (simp_all add: b)
  ultimately show ?thesis by (simp add: aes_increment_counter_def range_counter_le)
qed

lemma range_counter_iterate:
  "16 dvd unat off \<Longrightarrow> unat off + 16 * k < 2 ^ 32 \<Longrightarrow>
   (aes_increment_counter ^^ k) (range_counter off) = range_counter (off + of_nat (16 * k))"
proof (induction k)
  case (Suc k)
  have "unat (off + of_nat (16 * k)) = unat off + 16 * k"
    using Suc.prems(2) by (subst unat_add_small) (simp_all add: unat_of_nat_small del: of_nat_mult)
  with range_counter_next[of "off + of_nat (16 * k)"] Suc show ?case by (simp add: algebra_simps)
qed simp

lemma xcrypt_split:
  assumes "16 dvd unat off" "length xs = 16 * k" "unat off + 16 * k < 2 ^ 32"
  shows "aes_ctr_xcrypt_buffer key (range_counter off) (xs @ ys) 0 =
     do { a \<leftarrow> aes_ctr_xcrypt_buffer key (range_counter off) xs 0;
          b \<leftarrow> aes_ctr_xcrypt_buffer key (range_counter (off + of_nat (16 * k))) ys 0; Some (a @ b) }"
  using ctr_split[OF assms(2), of key "range_counter off" ys] range_counter_iterate[OF assms(1,3)]
  by (simp add: aes_ctr_xcrypt_buffer_def)

lemma xcrypt_length: "aes_ctr_xcrypt_buffer key counter xs off = Some ys \<Longrightarrow> length ys = length xs"
  using ctr_loop_length by (auto simp: aes_ctr_xcrypt_buffer_def split: if_splits)

lemma xcrypt_defined: "aes_ctr_xcrypt_buffer key counter xs 0 = None \<longleftrightarrow> length key \<notin> {16, 24, 32}"
  using ctr_defined[of key 0 counter xs] by (auto simp: aes_ctr_xcrypt_buffer_def)

lemma decrypt_at_split:
  assumes "16 dvd unat off" "16 dvd n1" "unat off + n1 < 2 ^ 32" "n1 + n2 \<le> 2 ^ 32"
  shows "decrypt_at key (off + of_nat n1) 0 (a + of_nat n1) n2 (decrypt_at key off 0 a n1 m) = decrypt_at key off 0 a (n1 + n2) m"
proof (cases "length key \<in> {16, 24, 32}")
  case False
  then have "aes_ctr_xcrypt_buffer key counter xs 0 = None" for counter xs by (simp add: xcrypt_defined)
  then show ?thesis by (simp add: decrypt_at_def)
next
  case True
  obtain k where k: "n1 = 16 * k" using assms(2) by (rule dvdE)
  let ?xs = "ram_read m a n1" and ?ys = "ram_read m (a + of_nat n1) n2"
  obtain x y where x: "aes_ctr_xcrypt_buffer key (range_counter off) ?xs 0 = Some x"
    and y: "aes_ctr_xcrypt_buffer key (range_counter (off + of_nat n1)) ?ys 0 = Some y"
    using True xcrypt_defined by (metis not_None_eq)
  have lx: "length x = n1" and ly: "length y = n2" using xcrypt_length[OF x] xcrypt_length[OF y] by simp_all
  have whole: "aes_ctr_xcrypt_buffer key (range_counter off) (ram_read m a (n1 + n2)) 0 = Some (x @ y)"
    using xcrypt_split[OF assms(1), of ?xs k key ?ys] assms(3) x y by (simp add: ram_read_add k)
  have "ram_read (ram_write m a x) (a + of_nat n1) n2 = ?ys"
  proof (rule ram_read_write_other)
    fix i assume "i < n2"
    then have "unat (a + of_nat n1 + of_nat i - a) = n1 + i"
      using assms(4) by (simp add: unat_of_nat_small del: of_nat_add flip: of_nat_add)
    then show "length x \<le> unat (a + of_nat n1 + of_nat i - a)" by (simp add: lx)
  qed
  then show ?thesis using x y whole ram_write_append[of x y m a] assms(4) lx ly by (simp add: decrypt_at_def)
qed

text \<open>An image decrypted chunk by chunk, each with the counter of its offset.\<close>

fun decrypt_chunks :: "u8 list \<Rightarrow> u32 \<Rightarrow> u64 \<Rightarrow> nat list \<Rightarrow> ram \<Rightarrow> ram" where
  "decrypt_chunks key off a [] m = m"
| "decrypt_chunks key off a (n # ns) m =
     decrypt_chunks key (off + of_nat n) (a + of_nat n) ns (decrypt_at key off 0 a n m)"

lemma decrypt_at_0 [simp]: "decrypt_at key off 0 a 0 m = m"
  using xcrypt_length[of key "range_counter off" "[]" 0] by (auto simp: decrypt_at_def split: option.split)

lemma decrypt_chunks_whole:
  "16 dvd unat off \<Longrightarrow> \<forall>n \<in> set (butlast ns). 16 dvd n \<Longrightarrow> unat off + sum_list ns < 2 ^ 32 \<Longrightarrow>
   decrypt_chunks key off a ns m = decrypt_at key off 0 a (sum_list ns) m"
proof (induction ns arbitrary: off a m)
  case (Cons n ns)
  show ?case
  proof (cases "ns = []")
    case False
    with Cons.prems(2) have n: "16 dvd n" "\<forall>n \<in> set (butlast ns). 16 dvd n" by auto
    have off: "unat (off + of_nat n) = unat off + n"
      using Cons.prems(3) by (subst unat_add_small) (simp_all add: unat_of_nat_small)
    then have "16 dvd unat (off + of_nat n)" using Cons.prems(1) n(1) by simp
    from Cons.IH[OF this n(2)] off Cons.prems(3) decrypt_at_split[OF Cons.prems(1) n(1)] show ?thesis by simp
  qed simp
qed simp


subsection \<open>The cache of verdicts\<close>

definition keeps_cache :: "rse_accel \<Rightarrow> bool \<times> 'c world \<Rightarrow> bool" where
  "keeps_cache s r \<longleftrightarrow> m_verify_sig_cache (fst (snd r)) = m_verify_sig_cache s"

definition keeps_cache_ub :: "rse_accel \<Rightarrow> (bool \<times> 'c world) ub \<Rightarrow> bool" where
  "keeps_cache_ub s r \<longleftrightarrow> (\<forall>x. r = Some x \<longrightarrow> keeps_cache s x)"

lemma keeps_cache_pair: "m_verify_sig_cache t = m_verify_sig_cache s \<Longrightarrow> keeps_cache s (b, t, c)"
  by (simp add: keeps_cache_def)

lemma keeps_cache_return:
  "m_verify_sig_cache t = m_verify_sig_cache s \<Longrightarrow> (\<And>u. m_verify_sig_cache (f u) = m_verify_sig_cache u) \<Longrightarrow>
   keeps_cache s (return_to_lr C hook fs pc f (t, c))"
  by (auto simp: keeps_cache_def return_to_lr_def split: prod.split bool.split)

lemma decrypt_cache: "decrypt_range C hook key ctr a n off (s, c) = (r, t, c') \<Longrightarrow> m_verify_sig_cache t = m_verify_sig_cache s"
  by (auto simp: decrypt_range_def split: prod.split_asm option.split_asm bool.split_asm if_split_asm)

lemma sample_cache: "m_verify_sig_cache (fst (capture_bl2_profile_sample C site pc w)) = m_verify_sig_cache (fst w)"
  by (simp add: capture_bl2_profile_sample_def Let_def split: prod.split)

lemma on_image_cache: "m_verify_sig_cache (on_image i f s) = m_verify_sig_cache s"
  by (simp add: on_image_def)

lemma snapshot_cache:
  "m_verify_sig_cache (on_snapshot g s) = m_verify_sig_cache s" "m_verify_sig_cache (snapshot_dmi_failure s) = m_verify_sig_cache s"
  "m_verify_sig_cache (record_bl2_ram_load_snapshot i v s) = m_verify_sig_cache s"
  "m_verify_sig_cache (account_bl2_ram_load_snapshot i u s) = m_verify_sig_cache s"
  by (simp_all add: on_snapshot_def snapshot_dmi_failure_def record_bl2_ram_load_snapshot_def account_bl2_ram_load_snapshot_def
      on_image_cache Let_def)

lemma capture_cache: "keeps_cache s (capture_bl2_ram_load_snapshot C P (s, c))"
  unfolding capture_bl2_ram_load_snapshot_def prod.case
  by (intro branches[where T = "keeps_cache s"] keeps_cache_pair; hypsubst_thin?; simp add: snapshot_cache)

lemma profile_cache: "keeps_cache (fst w) (try_bl2_load_profile_at_pc C P pc w)"
proof -
  have site: "m_verify_sig_cache (fst (snd (record_bl2_profile_site C pc a site w))) = m_verify_sig_cache (fst w)" for a site w pc
    by (simp add: record_bl2_profile_site_def Let_def sample_cache)
  have fold: "m_verify_sig_cache (fst (snd (fold (\<lambda>(addr, site) (matched, w).
      case record_bl2_profile_site C pc addr site w of (m, w) \<Rightarrow> (matched \<or> m, w)) sites r))) = m_verify_sig_cache (fst (snd r))" for sites r pc
  proof (induction sites arbitrary: r)
    case (Cons a sites)
    obtain addr st where a: "a = (addr, st)" by fastforce
    obtain m w where r: "r = (m, w)" by (cases r)
    from site[of pc addr st w] Cons show ?case
      by (cases "record_bl2_profile_site C pc addr st w") (simp add: a r)
  qed simp
  have sites: "m_verify_sig_cache (fst (snd (record_sites C P pc sites r))) = m_verify_sig_cache (fst (snd r))" for sites r pc
    by (simp add: record_sites_def fold)
  have count: "m_verify_sig_cache (fst (count_site st w)) = m_verify_sig_cache (fst w)" for st w
    by (cases w) (simp add: count_site_def)
  have cap: "m_verify_sig_cache (fst (snd (capture_bl2_ram_load_snapshot C P w))) = m_verify_sig_cache (fst w)" for w
    using capture_cache[of "fst w" C P "snd w"] by (simp add: keeps_cache_def)
  show ?thesis by (simp add: try_bl2_load_profile_at_pc_def Let_def keeps_cache_def sites count cap sample_cache)
qed

lemma key_cache: "keeps_cache s (try_bl2_boot_enc_capture_key_at_pc C P pc (s, c))"
  unfolding try_bl2_boot_enc_capture_key_at_pc_def prod.case
  by (intro branches[where T = "keeps_cache s"] keeps_cache_pair; hypsubst_thin?; simp)

lemma delay_cache: "keeps_cache s (try_bl2_delay_accel_at_pc C P pc (s, c))"
  unfolding try_bl2_delay_accel_at_pc_def prod.case
  by (intro branches[where T = "keeps_cache s"] keeps_cache_pair keeps_cache_return; hypsubst_thin?; simp add: Let_def)

lemma load_cache: "keeps_cache s (try_bl2_load_decrypt_accel_at_pc C P pc (s, c))"
  unfolding try_bl2_load_decrypt_accel_at_pc_def prod.case
  by (intro branches[where T = "keeps_cache s"] keeps_cache_pair keeps_cache_return; hypsubst_thin?; (drule decrypt_cache)?; simp)

lemma enc_cache: "keeps_cache s (try_bl2_boot_enc_decrypt_accel_at_pc C P pc (s, c))"
  unfolding try_bl2_boot_enc_decrypt_accel_at_pc_def prod.case
  by (intro branches[where T = "keeps_cache s"] keeps_cache_pair keeps_cache_return; hypsubst_thin?; (drule decrypt_cache)?; simp)

lemma keeps_cache_ub: "keeps_cache_ub s None" "keeps_cache s x \<Longrightarrow> keeps_cache_ub s (Some x)"
  by (simp_all add: keeps_cache_ub_def)

lemma img_hash_cache: "keeps_cache_ub s (try_bl2_img_hash_accel_at_pc C P pc (s, c))"
  unfolding try_bl2_img_hash_accel_at_pc_def prod.case
  by (subst Let_def, subst Let_def, intro branches[where T = "keeps_cache_ub s"] branch_bind[where T = "keeps_cache_ub s"]
      keeps_cache_ub keeps_cache_pair keeps_cache_return; hypsubst_thin?; simp)

lemma lms_cache: "keeps_cache_ub s (try_lms_accel_at_pc C P pc (s, c))"
  unfolding try_lms_accel_at_pc_def prod.case
  by (subst Let_def, subst Let_def, intro branches[where T = "keeps_cache_ub s"] branch_bind[where T = "keeps_cache_ub s"]
      keeps_cache_ub keeps_cache_pair keeps_cache_return; hypsubst_thin?; simp)

definition sound_ub :: "(bool \<times> 'c world) ub \<Rightarrow> bool" where
  "sound_ub r \<longleftrightarrow> (\<forall>b s c. r = Some (b, s, c) \<longrightarrow> cache_sound s)"

lemma sound_ub_intros:
  "sound_ub None" "cache_sound s \<Longrightarrow> sound_ub (Some (b, s, c))"
  "cache_sound s \<Longrightarrow> (\<And>u. m_verify_sig_cache (f u) = m_verify_sig_cache u) \<Longrightarrow> sound_ub (Some (return_to_lr C hook fs pc f (s, c)))"
  using keeps_cache_return[of s s f C hook fs pc c]
  by (auto simp: sound_ub_def keeps_cache_def intro: sound_cong[THEN iffD1, rotated])

lemma verify_sig_sound: "cache_sound s \<Longrightarrow> sound_ub (try_bl2_verify_sig_accel_at_pc C P pc (s, c))"
  unfolding try_bl2_verify_sig_accel_at_pc_def prod.case
  by (subst Let_def, subst Let_def, intro branches[where T = sound_ub] branch_bind[where T = sound_ub] sound_ub_intros;
      hypsubst_thin?; (drule check_sound[rotated])?; simp del: note_lasts.simps)


lemma keeps_cache_sound: "cache_sound s \<Longrightarrow> keeps_cache s (b, t, c) \<Longrightarrow> cache_sound t"
  using sound_cong[of t s] by (simp add: keeps_cache_def)

lemma sound_ub_pair: "cache_sound (fst w) \<Longrightarrow> sound_ub (Some (b, w))"
  by (cases w) (simp add: sound_ub_def)

lemma profile_sound: "cache_sound (fst w) \<Longrightarrow> cache_sound (fst (snd (try_bl2_load_profile_at_pc C P pc w)))"
  using profile_cache[of w C P pc] keeps_cache_sound by (metis prod.collapse)

lemma key_sound: "cache_sound (fst w) \<Longrightarrow> cache_sound (fst (snd (try_bl2_boot_enc_capture_key_at_pc C P pc w)))"
  using key_cache[of "fst w" C P pc "snd w"] keeps_cache_sound by (metis prod.collapse)

lemma hook_sound:
  "try_bl2_delay_accel_at_pc C P pc w = (b, w') \<Longrightarrow> cache_sound (fst w) \<Longrightarrow> cache_sound (fst w')"
  "try_bl2_load_decrypt_accel_at_pc C P pc w = (b, w') \<Longrightarrow> cache_sound (fst w) \<Longrightarrow> cache_sound (fst w')"
  "try_bl2_boot_enc_decrypt_accel_at_pc C P pc w = (b, w') \<Longrightarrow> cache_sound (fst w) \<Longrightarrow> cache_sound (fst w')"
  using delay_cache[of "fst w" C P pc "snd w"] load_cache[of "fst w" C P pc "snd w"] enc_cache[of "fst w" C P pc "snd w"]
    keeps_cache_sound[of "fst w" b "fst w'" "snd w'"] by simp_all

lemma hook_sound_ub:
  "try_bl2_img_hash_accel_at_pc C P pc w = Some (b, w') \<Longrightarrow> cache_sound (fst w) \<Longrightarrow> cache_sound (fst w')"
  "try_bl2_verify_sig_accel_at_pc C P pc w = Some (b, w') \<Longrightarrow> cache_sound (fst w) \<Longrightarrow> cache_sound (fst w')"
  "try_lms_accel_at_pc C P pc w = Some (b, w') \<Longrightarrow> cache_sound (fst w) \<Longrightarrow> cache_sound (fst w')"
  using img_hash_cache[of "fst w" C P pc "snd w"] lms_cache[of "fst w" C P pc "snd w"] verify_sig_sound[of "fst w" C P pc "snd w"]
    keeps_cache_sound[of "fst w" b "fst w'" "snd w'"] by (cases w'; simp add: keeps_cache_ub_def sound_ub_def)+

lemma sound_last: "cache_sound (fst w) \<Longrightarrow> sound_ub (try_lms_accel_at_pc C P pc w)"
  using hook_sound_ub(3)[of C P pc w] by (fastforce simp: sound_ub_def)

lemma sound_pc_entry: "cache_sound (fst w) \<Longrightarrow> sound_ub (on_pc_entry C P pc w)"
  unfolding on_pc_entry_def try_rse_pc_entry_def
  by (intro branches[where T = sound_ub] branch_bind[where T = sound_ub] sound_ub_pair sound_last sound_ub_intros(1);
      (hypsubst | assumption | erule hook_sound hook_sound_ub | rule profile_sound key_sound)+)

subsection \<open>Copies\<close>

text \<open>The loop of the firmware's copy function, a byte at a time.\<close>

fun byte_loop :: "u64 \<Rightarrow> u64 \<Rightarrow> nat \<Rightarrow> ram \<Rightarrow> ram" where
  "byte_loop d s 0 m = m"
| "byte_loop d s (Suc n) m = byte_loop (d + 1) (s + 1) n (m(d := m s))"

lemma ram_write_one: "m(d := v) = ram_write m d [v]"
proof
  fix x show "(m(d := v)) x = ram_write m d [v] x" by (auto simp: ram_write_def unat_eq_zero)
qed

lemma ram_read_Suc: "ram_read m a (Suc n) = m a # ram_read m (a + 1) n"
  by (simp add: ram_read_def upt_conv_Cons map_Suc_upt[symmetric] del: upt_Suc) (simp add: comp_def algebra_simps)

lemma byte_loop_write:
  "(\<And>i j. i < j \<Longrightarrow> j < n \<Longrightarrow> d + of_nat i \<noteq> s + of_nat j) \<Longrightarrow> n \<le> 2 ^ 64 \<Longrightarrow>
   byte_loop d s n m = ram_write m d (ram_read m s n)"
proof (induction n arbitrary: d s m)
  case (Suc n)
  have "byte_loop (d + 1) (s + 1) n (m(d := m s)) = ram_write (m(d := m s)) (d + 1) (ram_read (m(d := m s)) (s + 1) n)"
  proof (rule Suc.IH)
    fix i j assume "i < j" "j < n"
    with Suc.prems(1)[of "Suc i" "Suc j"] show "d + 1 + of_nat i \<noteq> s + 1 + of_nat j" by (simp add: algebra_simps)
  qed (use Suc.prems(2) in simp)
  also have "ram_read (m(d := m s)) (s + 1) n = ram_read m (s + 1) n"
  proof (rule nth_equalityI)
    fix i assume "i < length (ram_read (m(d := m s)) (s + 1) n)"
    then show "ram_read (m(d := m s)) (s + 1) n ! i = ram_read m (s + 1) n ! i"
      using Suc.prems(1)[of 0 "Suc i"] by (auto simp: algebra_simps)
  qed simp
  also have "ram_write (m(d := m s)) (d + 1) (ram_read m (s + 1) n) = ram_write m d (m s # ram_read m (s + 1) n)"
    using ram_write_append[of "[m s]" "ram_read m (s + 1) n" m d] Suc.prems(2) by (simp add: ram_write_one)
  finally show ?case by (simp only: byte_loop.simps ram_read_Suc)
qed (simp add: ram_read_def)


text \<open>What a copy or a fill has done that was taken over at \<open>pc\<close>, at its start or within its loop.\<close>

definition copied :: "bool \<Rightarrow> (v7m_field \<Rightarrow> u32) \<Rightarrow> ram \<Rightarrow> (v7m_field \<Rightarrow> u32) \<Rightarrow> ram \<Rightarrow> bool" where
  "copied at_start rg m rg' m' \<longleftrightarrow>
     (let n = unat (rg Field_R2); d = ucast (rg (if at_start then Field_R0 else Field_R3))
      in m' = ram_write m d (ram_read m (ucast (rg Field_R1)) n) \<and>
         rg' = (if at_start then rg(Field_PC := rg Field_LR)
                else rg(Field_SP := rg Field_SP + 4, Field_PC := word_at m' (ucast (rg Field_SP)))))"

definition filled :: "bool \<Rightarrow> (v7m_field \<Rightarrow> u32) \<Rightarrow> ram \<Rightarrow> (v7m_field \<Rightarrow> u32) \<Rightarrow> ram \<Rightarrow> bool" where
  "filled at_start rg m rg' m' \<longleftrightarrow>
     (let n = unat (rg Field_R2); d = ucast (rg (if at_start then Field_R0 else Field_R3))
      in m' = ram_write m d (replicate n (ucast (rg Field_R1))) \<and>
         rg' = (if at_start then rg(Field_PC := rg Field_LR)
                else rg(Field_R4 := word_at m' (ucast (rg Field_SP)), Field_SP := rg Field_SP + 4, Field_PC := rg Field_LR)))"

context cpu_model
begin

definition done_copy :: "('c \<Rightarrow> bool) \<Rightarrow> hotpath_fail_reason option \<times> 'c world \<Rightarrow> bool" where
  "done_copy Q r \<longleftrightarrow> (\<forall>s c. r = (None, s, c) \<longrightarrow> Q c)"

lemma done_copy_intros: "done_copy Q (Some k, w)" "Q c \<Longrightarrow> done_copy Q (r, s, c)"
  by (simp_all add: done_copy_def)

lemma set_pc_eq: "set_pc C v c = (None, c') \<Longrightarrow> mem c' = mem c \<and> regs c' = (regs c)(Field_PC := v)"
  using set_state[of Field_PC v c] by (auto simp: set_pc_def split: prod.splits bool.splits)

lemma stacked_lr_eq:
  "hotpath_finish_stacked_lr C c = (None, c') \<Longrightarrow>
   mem c' = mem c \<and> regs c' = (regs c)(Field_SP := regs c Field_SP + 4, Field_PC := word_at (mem c) (ucast (regs c Field_SP)))"
proof -
  assume fin: "hotpath_finish_stacked_lr C c = (None, c')"
  obtain w c1 where r: "guest_read_u32 C (ucast (reg C Field_SP c)) c = (w, c1)" by fastforce
  with fin obtain v where v: "w = Some v" by (cases w) (auto simp: hotpath_finish_stacked_lr_def Let_def)
  with fin r have "set_regs C [(Field_SP, reg C Field_SP c + 4), (Field_PC, v)] c1 = (True, c')"
    by (auto simp: hotpath_finish_stacked_lr_def Let_def simp del: set_regs.simps split: prod.splits bool.splits)
  from set_regs_eq[OF this] read_u32[OF r] v show ?thesis by (simp add: reg word_at_def)
qed

lemma finish_memset_eq:
  "hotpath_finish_memset C pc c = (None, c') \<Longrightarrow>
   mem c' = mem c \<and> regs c' = (regs c)(Field_R4 := word_at (mem c) (ucast (regs c Field_SP)), Field_SP := regs c Field_SP + 4, Field_PC := pc)"
proof -
  assume fin: "hotpath_finish_memset C pc c = (None, c')"
  obtain w c1 where r: "guest_read_u32 C (ucast (reg C Field_SP c)) c = (w, c1)" by fastforce
  with fin obtain v where v: "w = Some v" by (cases w) (auto simp: hotpath_finish_memset_def Let_def)
  with fin r have "set_regs C [(Field_R4, v), (Field_SP, reg C Field_SP c + 4), (Field_PC, pc)] c1 = (True, c')"
    by (auto simp: hotpath_finish_memset_def Let_def simp del: set_regs.simps split: prod.splits bool.splits)
  from set_regs_eq[OF this] read_u32[OF r] v show ?thesis by (simp add: reg word_at_def)
qed

lemma memcpy_done:
  assumes "hotpath_memcpy C pc base max_bytes (s, c) = (None, s', c')"
  shows "copied (pc = base) (regs c) (mem c) (regs c') (mem c')"
proof -
  let ?n = "reg C Field_R2 c" and ?d = "if pc = base then reg C Field_R0 c else reg C Field_R3 c"
  let ?finish = "\<lambda>c. if pc = base then set_pc C (reg C Field_LR c) c else hotpath_finish_stacked_lr C c"
  have finish: "mem e = mem d \<and> regs e = (if pc = base then (regs d)(Field_PC := regs d Field_LR)
      else (regs d)(Field_SP := regs d Field_SP + 4, Field_PC := word_at (mem d) (ucast (regs d Field_SP))))"
    if "?finish d = (None, e)" for d e
    using that set_pc_eq[of _ d e] stacked_lr_eq[of d e] by (auto simp: reg split: if_splits)
  show ?thesis
  proof (cases "?n = 0")
    case True
    with assms have "?finish c = (None, c')" by (auto simp: hotpath_memcpy_def Let_def split: if_splits prod.splits)
    from finish[OF this] True show ?thesis by (auto simp: copied_def Let_def reg)
  next
    case False
    obtain p c1 where p: "guest_dmi_ptr C (ucast (reg C Field_R1 c)) (ucast ?n) True False c = (p, c1)" by fastforce
    obtain q c2 where q: "guest_dmi_ptr C (ucast ?d) (ucast ?n) False True c1 = (q, c2)" by fastforce
    from assms False p q obtain sp dp where ptr: "p = Some sp" "q = Some dp"
      and f: "?finish (invalidate_guest_range C (ucast ?d) (ucast (?d + ?n - 1)) (host_write C dp (host_read C sp (unat ?n) c2) c2)) = (None, c')"
      by (auto simp: hotpath_memcpy_def Let_def split: if_splits option.splits prod.splits)
    from finish[OF f] dmi_ptr[OF p] dmi_ptr[OF q] ptr show ?thesis
      by (auto simp: copied_def Let_def reg host_read host_write quiet)
  qed
qed

lemma memset_done:
  assumes "hotpath_memset C pc base max_bytes (s, c) = (None, s', c')"
  shows "filled (pc = base) (regs c) (mem c) (regs c') (mem c')"
proof -
  let ?n = "reg C Field_R2 c" and ?d = "if pc = base then reg C Field_R0 c else reg C Field_R3 c"
  let ?finish = "\<lambda>c. if pc = base then set_pc C (reg C Field_LR c) c else hotpath_finish_memset C (reg C Field_LR c) c"
  have finish: "mem e = mem d \<and> regs e = (if pc = base then (regs d)(Field_PC := regs d Field_LR)
      else (regs d)(Field_R4 := word_at (mem d) (ucast (regs d Field_SP)), Field_SP := regs d Field_SP + 4, Field_PC := regs d Field_LR))"
    if "?finish d = (None, e)" for d e
    using that set_pc_eq[of _ d e] finish_memset_eq[of _ d e] by (auto simp: reg split: if_splits)
  have byte: "ucast (get_v7m_state C Field_R1 c) = (ucast (regs c Field_R1) :: u8)"
    unfolding reg[symmetric] reg_def by (rule bit_word_eqI) (simp add: bit_simps)
  show ?thesis
  proof (cases "?n = 0")
    case True
    with assms have "?finish c = (None, c')" by (auto simp: hotpath_memset_def Let_def split: if_splits prod.splits option.splits)
    from finish[OF this] True show ?thesis by (auto simp: filled_def Let_def reg)
  next
    case False
    obtain q c2 where q: "guest_dmi_ptr C (ucast ?d) (ucast ?n) False True c = (q, c2)" by fastforce
    from assms False q obtain dp where ptr: "q = Some dp"
      and f: "?finish (invalidate_guest_range C (ucast ?d) (ucast (?d + ?n - 1)) (host_write C dp (replicate (unat ?n) (ucast (get_v7m_state C Field_R1 c))) c2)) = (None, c')"
      by (auto simp: hotpath_memset_def Let_def split: if_splits option.splits prod.splits)
    from finish[OF f] dmi_ptr[OF q] ptr show ?thesis
      by (auto simp: filled_def Let_def reg byte host_write quiet)
  qed
qed

end


subsection \<open>Every handled entry\<close>

definition delay_spec :: "(v7m_field \<Rightarrow> u32) \<Rightarrow> ram \<Rightarrow> (v7m_field \<Rightarrow> u32) \<Rightarrow> ram \<Rightarrow> bool" where
  "delay_spec rg m rg' m' \<longleftrightarrow> m' = m \<and> rg' = rg(Field_R0 := 0, Field_PC := rg Field_LR)"

text \<open>The part of the component's state that the effect of a hook depends on.\<close>

definition image_state :: "rse_accel \<Rightarrow> (u64 \<rightharpoonup> enc_key_entry) \<times> (nat \<Rightarrow> bl2_ram_load_snapshot) \<times> (nat \<Rightarrow> bool)" where
  "image_state s = (m_enc_keys s, m_snapshot_by_image s, m_image_decrypted s)"

lemma image_state_note [simp]:
  "image_state (note_last h k v s) = image_state s" "image_state (bump h j n s) = image_state s"
  by (simp_all add: image_state_def note_last_def bump_def)

lemma image_state_notes [simp]: "image_state (note_lasts h kvs s) = image_state s"
  by (induction kvs arbitrary: s) simp_all

lemma image_state_decrypt:
  "decrypt_range C hook key ctr a n off (s, c) = (r, t, c') \<Longrightarrow> image_state t = image_state s"
  by (auto simp: decrypt_range_def split: prod.split_asm option.split_asm bool.split_asm if_split_asm)

lemma find_snapshot_cong: "m_snapshot_by_image s = m_snapshot_by_image t \<Longrightarrow> find_snapshot s off buf is = find_snapshot t off buf is"
  by (induction "is") (simp_all add: Let_def)

lemma image_spec_cong:
  assumes "image_state s = image_state t"
  shows "load_spec P s = load_spec P t" "enc_spec s = enc_spec t"
proof -
  have "cached_key s = cached_key t" using assms by (intro ext cached_key_cong) (simp add: image_state_def)
  moreover have "find_bl2_load_snapshot_for_decrypt P s = find_bl2_load_snapshot_for_decrypt P t"
    using assms by (intro ext) (simp add: find_bl2_load_snapshot_for_decrypt_def image_state_def cong: find_snapshot_cong)
  ultimately show "load_spec P s = load_spec P t" "enc_spec s = enc_spec t"
    using assms by (intro ext; simp add: load_spec_def enc_spec_def image_state_def)+
qed

definition entry_spec :: "accel_config \<Rightarrow> rse_accel \<Rightarrow> (v7m_field \<Rightarrow> u32) \<Rightarrow> ram \<Rightarrow> (v7m_field \<Rightarrow> u32) \<Rightarrow> ram \<Rightarrow> bool" where
  "entry_spec P s rg m rg' m' \<longleftrightarrow>
     delay_spec rg m rg' m' \<or> load_spec P s rg m rg' m' \<or> enc_spec s rg m rg' m' \<or> img_hash_spec rg m rg' m' \<or>
     verify_sig_spec P rg m rg' m' \<or> lms_spec rg m rg' m'"

text \<open>The component once the profile and the keys of an entry are recorded, before the hooks are tried.\<close>

definition recorded :: "'c cpu_context \<Rightarrow> accel_config \<Rightarrow> u64 \<Rightarrow> 'c world \<Rightarrow> 'c world" where
  "recorded C P pc w =
     snd (try_bl2_boot_enc_capture_key_at_pc C P (ucast pc) (snd (try_bl2_load_profile_at_pc C P (ucast pc) w)))"

text \<open>The hooks behind the one for delays, and those behind the decryption.\<close>

definition after_decrypt :: "'c cpu_context \<Rightarrow> accel_config \<Rightarrow> u32 \<Rightarrow> 'c world \<Rightarrow> (bool \<times> 'c world) ub" where
  "after_decrypt C P pc w = do {
     (handled, w) \<leftarrow> try_bl2_img_hash_accel_at_pc C P pc w;
     if handled then Some (True, w)
     else do {
       (handled, w) \<leftarrow> try_bl2_verify_sig_accel_at_pc C P pc w;
       if handled then Some (True, w) else try_lms_accel_at_pc C P pc w } }"

definition after_delay :: "'c cpu_context \<Rightarrow> accel_config \<Rightarrow> u32 \<Rightarrow> 'c world \<Rightarrow> (bool \<times> 'c world) ub" where
  "after_delay C P pc w =
     (case try_bl2_load_decrypt_accel_at_pc C P pc w of
        (True, w) \<Rightarrow> Some (True, w)
      | (False, w) \<Rightarrow>
      (case try_bl2_boot_enc_decrypt_accel_at_pc C P pc w of
         (True, w) \<Rightarrow> Some (True, w)
       | (False, w) \<Rightarrow> after_decrypt C P pc w))"

lemma after_decrypt_cases:
  assumes "after_decrypt C P pc w = Some (True, w')"
  obtains (img) "try_bl2_img_hash_accel_at_pc C P pc w = Some (True, w')"
  | (rest) v where "try_bl2_img_hash_accel_at_pc C P pc w = Some (False, v)"
      "try_bl2_verify_sig_accel_at_pc C P pc v = Some (True, w') \<or>
       (\<exists>u. try_bl2_verify_sig_accel_at_pc C P pc v = Some (False, u) \<and> try_lms_accel_at_pc C P pc u = Some (True, w'))"
proof -
  from assms obtain h v where img: "try_bl2_img_hash_accel_at_pc C P pc w = Some (h, v)"
    by (cases "try_bl2_img_hash_accel_at_pc C P pc w") (auto simp: after_decrypt_def)
  show ?thesis
  proof (cases h)
    case True
    with assms img show ?thesis by (intro that(1)) (simp add: after_decrypt_def)
  next
    case False
    with assms img obtain k u where ver: "try_bl2_verify_sig_accel_at_pc C P pc v = Some (k, u)"
      by (cases "try_bl2_verify_sig_accel_at_pc C P pc v") (auto simp: after_decrypt_def)
    with assms img False show ?thesis by (intro that(2)[of v]; cases k) (simp_all add: after_decrypt_def)
  qed
qed

lemma after_delay_cases:
  assumes "after_delay C P pc w = Some (True, w')"
  obtains (load) "try_bl2_load_decrypt_accel_at_pc C P pc w = (True, w')"
  | (rest) v where "try_bl2_load_decrypt_accel_at_pc C P pc w = (False, v)"
      "try_bl2_boot_enc_decrypt_accel_at_pc C P pc v = (True, w') \<or>
       (\<exists>u. try_bl2_boot_enc_decrypt_accel_at_pc C P pc v = (False, u) \<and> after_decrypt C P pc u = Some (True, w'))"
proof -
  obtain h v where load: "try_bl2_load_decrypt_accel_at_pc C P pc w = (h, v)" by (metis prod.collapse)
  obtain k u where enc: "try_bl2_boot_enc_decrypt_accel_at_pc C P pc v = (k, u)" by (metis prod.collapse)
  show ?thesis
  proof (cases h)
    case True
    with assms load show ?thesis by (intro that(1)) (simp add: after_delay_def)
  next
    case False
    with assms load enc show ?thesis by (intro that(2)[of v]; cases k) (simp_all add: after_delay_def)
  qed
qed

context cpu_model
begin

definition keeps_images :: "rse_accel \<Rightarrow> bool \<times> 'c world \<Rightarrow> bool" where
  "keeps_images s r \<longleftrightarrow> fst r \<or> image_state (fst (snd r)) = image_state s"

lemma keeps_images_intros:
  "image_state t = image_state s \<Longrightarrow> keeps_images s (b, t, c)"
  "sets_work \<Longrightarrow> keeps_images s (return_to_lr C hook fs pc f (t, c))"
  using set_regs_work[of "fs @ [(Field_PC, pc)]" c] by (auto simp: keeps_images_def return_to_lr_def)

lemma delay_images: "sets_work \<Longrightarrow> keeps_images s (try_bl2_delay_accel_at_pc C P pc (s, c))"
  unfolding try_bl2_delay_accel_at_pc_def prod.case
  by (intro branches[where T = "keeps_images s"] keeps_images_intros; hypsubst_thin?; simp)

lemma load_images: "sets_work \<Longrightarrow> keeps_images s (try_bl2_load_decrypt_accel_at_pc C P pc (s, c))"
  unfolding try_bl2_load_decrypt_accel_at_pc_def prod.case
  by (intro branches[where T = "keeps_images s"] keeps_images_intros; hypsubst_thin?; (drule image_state_decrypt)?; simp)

lemma delay_handled:
  "done_pair (\<lambda>c'. delay_spec (regs c) (mem c) (regs c') (mem c')) (try_bl2_delay_accel_at_pc C P pc (s, c))"
  unfolding try_bl2_delay_accel_at_pc_def prod.case
  by (intro branches[where T = "done_pair _"] done_pair_intros; hypsubst_thin?; (drule return_eq)?; simp add: delay_spec_def reg)

lemma step_same:
  "r = (False, v') \<Longrightarrow> untouched True c0 r \<Longrightarrow> same c0 (snd v')"
  "r' = Some (False, v') \<Longrightarrow> untouched_ub c0 r' \<Longrightarrow> same c0 (snd v')"
  by (auto simp: untouched_def untouched_ub_def)

lemma after_decrypt_done:
  assumes works: "sets_work" and sound: "cache_sound (fst w)" and handled: "after_decrypt C P pc w = Some (True, w')"
  shows "img_hash_spec (regs (snd w)) (mem (snd w)) (regs (snd w')) (mem (snd w')) \<or>
    verify_sig_spec P (regs (snd w)) (mem (snd w)) (regs (snd w')) (mem (snd w')) \<or>
    lms_spec (regs (snd w)) (mem (snd w)) (regs (snd w')) (mem (snd w'))"
  using handled
proof (cases rule: after_decrypt_cases)
  case img
  with img_hash_handled[of "snd w" P pc "fst w"] show ?thesis by (cases w') (simp add: done_as_def)
next
  case (rest v)
  have v: "same (snd w) (snd v)" using img_hash_untouched[OF works same_refl, of "snd w" P pc "fst w"] rest(1) step_same(2) by simp
  have sv: "cache_sound (fst v)" by (rule hook_sound_ub(1)[OF rest(1) sound])
  from rest(2) show ?thesis
  proof (elim disjE exE conjE)
    assume "try_bl2_verify_sig_accel_at_pc C P pc v = Some (True, w')"
    with verify_sig_handled[OF sv, of P "snd v" pc] v show ?thesis by (cases w') (simp add: done_as_def same_def)
  next
    fix u assume ver: "try_bl2_verify_sig_accel_at_pc C P pc v = Some (False, u)" and lms: "try_lms_accel_at_pc C P pc u = Some (True, w')"
    have "same (snd w) (snd u)" using verify_sig_untouched[OF works v, of P pc "fst v"] ver step_same(2) by simp
    with lms lms_handled[of "snd u" P pc "fst u"] show ?thesis by (cases w') (simp add: done_as_def same_def)
  qed
qed

lemma after_delay_done:
  assumes works: "sets_work" and sound: "cache_sound (fst w)" and handled: "after_delay C P pc w = Some (True, w')"
  shows "entry_spec P (fst w) (regs (snd w)) (mem (snd w)) (regs (snd w')) (mem (snd w'))"
  using handled
proof (cases rule: after_delay_cases)
  case load
  with load_handled[of P "fst w" "snd w" pc] show ?thesis by (cases w') (simp add: done_pair_def entry_spec_def)
next
  case (rest v)
  have v: "same (snd w) (snd v)" using load_untouched[OF works same_refl, of "snd w" P pc "fst w"] rest(1) step_same(1) by simp
  have sv: "cache_sound (fst v)" by (rule hook_sound(2)[OF rest(1) sound])
  have iv: "image_state (fst v) = image_state (fst w)"
    using load_images[OF works, of "fst w" P pc "snd w"] rest(1) by (simp add: keeps_images_def)
  from rest(2) show ?thesis
  proof (elim disjE exE conjE)
    assume "try_bl2_boot_enc_decrypt_accel_at_pc C P pc v = (True, w')"
    with enc_handled[of "fst v" "snd v" P pc] v show ?thesis
      by (cases w') (simp add: done_pair_def same_def entry_spec_def image_spec_cong(2)[OF iv])
  next
    fix u assume enc: "try_bl2_boot_enc_decrypt_accel_at_pc C P pc v = (False, u)" and dec: "after_decrypt C P pc u = Some (True, w')"
    have u: "same (snd w) (snd u)" using enc_untouched[OF works v, of P pc "fst v"] enc step_same(1) by simp
    have "cache_sound (fst u)" by (rule hook_sound(3)[OF enc sv])
    from after_decrypt_done[OF works this dec] u show ?thesis by (auto simp: same_def entry_spec_def)
  qed
qed

lemma pc_entry_done:
  assumes works: "sets_work" and sound: "cache_sound (fst w)" and handled: "try_rse_pc_entry C P pc w = Some (True, w')"
  shows "entry_spec P (fst (recorded C P pc w)) (regs (snd w)) (mem (snd w)) (regs (snd w')) (mem (snd w'))"
proof -
  let ?pc = "ucast pc :: u32"
  define w1 where "w1 = snd (try_bl2_load_profile_at_pc C P ?pc w)"
  define w2 where "w2 = recorded C P pc w"
  have w1: "same (snd w) (snd w1)" using profile_same[of "snd w" w P ?pc] by (simp add: w1_def keeps_def same_refl)
  have w2: "same (snd w) (snd w2)" and sound2: "cache_sound (fst w2)"
    using capture_key_same[of "snd w" "snd w1" P ?pc "fst w1"] w1 key_sound[OF profile_sound[OF sound]]
    by (simp_all add: w2_def recorded_def w1_def untouched_def)
  have next_w: "same (snd w) (snd v) \<Longrightarrow> r = (False, v') \<Longrightarrow> untouched True (snd v) r \<Longrightarrow> same (snd w) (snd v')"
    for v v' :: "'c world" and r using same_trans by (auto simp: untouched_def)
  have next_ub: "same (snd w) (snd v) \<Longrightarrow> r = Some (False, v') \<Longrightarrow> untouched_ub (snd v) r \<Longrightarrow> same (snd w) (snd v')"
    for v v' :: "'c world" and r using same_trans by (auto simp: untouched_ub_def untouched_def)
  have hooks: "untouched True (snd v) (try_bl2_delay_accel_at_pc C P ?pc v)"
    "untouched True (snd v) (try_bl2_load_decrypt_accel_at_pc C P ?pc v)"
    "untouched True (snd v) (try_bl2_boot_enc_decrypt_accel_at_pc C P ?pc v)"
    "untouched_ub (snd v) (try_bl2_img_hash_accel_at_pc C P ?pc v)"
    "untouched_ub (snd v) (try_bl2_verify_sig_accel_at_pc C P ?pc v)" for v
    using works same_refl delay_untouched load_untouched enc_untouched img_hash_untouched verify_sig_untouched by (metis prod.collapse)+
  from handled consider
      (delay) "try_bl2_delay_accel_at_pc C P ?pc w2 = (True, w')"
    | (rest) v where "try_bl2_delay_accel_at_pc C P ?pc w2 = (False, v)" "after_delay C P ?pc v = Some (True, w')"
    unfolding try_rse_pc_entry_def Let_def recorded_def[symmetric] w2_def[symmetric] after_decrypt_def[symmetric] after_delay_def[symmetric]
    by (auto split: prod.split_asm bool.split_asm)
  then show ?thesis
  proof cases
    case delay
    with delay_handled[of "snd w2" P ?pc "fst w2"] w2 show ?thesis
      by (cases w') (simp add: done_pair_def entry_spec_def same_def)
  next
    case (rest v)
    then have v: "same (snd w) (snd v)" "cache_sound (fst v)" "image_state (fst v) = image_state (fst w2)"
      using next_w[OF w2 _ hooks(1)] hook_sound(1)[of C P ?pc w2 False v] sound2 delay_images[OF works, of "fst w2" P ?pc "snd w2"]
      by (auto simp: keeps_images_def)
    from after_delay_done[OF works v(2) rest(2)] v(1,3) show ?thesis
      by (simp add: entry_spec_def same_def image_spec_cong[OF v(3)] w2_def[symmetric])
  qed
qed

end

end
