(* ===== verification/Rse_Accel_Props.thy ===== *)
theory Rse_Accel_Props
  imports Rse_Accel_Effects
begin

text \<open>
  The properties of the firmware accelerators of \<open>Rse_Accel\<close>. The laws of the locale \<open>cpu_model\<close> are
  their hypothesis on the processor, which is not part of the repository; \<open>ideal_cpu\<close> satisfies them
  and is the processor of the witnesses.
\<close>


unbundle bit_operations_syntax

subsection \<open>Delays\<close>

text \<open>The hook for delays entered once from each of the processor states \<open>cs\<close>.\<close>

definition delay_run :: "'c cpu_context \<Rightarrow> accel_config \<Rightarrow> u32 \<Rightarrow> 'c list \<Rightarrow> rse_accel \<Rightarrow> rse_accel" where
  "delay_run C P pc cs s = fold (\<lambda>c s. fst (snd (try_bl2_delay_accel_at_pc C P pc (s, c)))) cs s"

text \<open>A delay that the hook skips: no longer than allowed, with an address to return to.\<close>

definition skips_delay :: "'c cpu_context \<Rightarrow> accel_config \<Rightarrow> 'c \<Rightarrow> bool" where
  "skips_delay C P c \<longleftrightarrow> ucast (reg C Field_R0 c) \<le> p_bl2_delay_max_cycles P \<and> reg C Field_LR c \<noteq> 0"

definition counts_delays :: "accel_config \<Rightarrow> nat \<Rightarrow> rse_accel \<Rightarrow> bool" where
  "counts_delays P k s \<longleftrightarrow> m_stats s (Delay, Hits) = of_nat k \<and>
     m_delay_watch_active s = (k < unat (p_bl2_delay_expected_hits P)) \<and>
     m_pc_entry_registered s = (k < unat (p_bl2_delay_expected_hits P))"

lemma counts_delays_note [simp]: "counts_delays P k (note_last h j v s) = counts_delays P k s"
  by (simp add: counts_delays_def note_last_def)

context cpu_model
begin

lemma delay_step:
  assumes "sets_work" "p_bl2_delay_accel P" "pc AND NOT 1 = entry_of (p_bl2_delay_cycles_addr P)"
    "entry_of (p_bl2_delay_cycles_addr P) \<noteq> 0" "skips_delay C P c" "counts_delays P k s"
    "p_bl2_delay_expected_hits P \<noteq> 0" "k < unat (p_bl2_delay_expected_hits P)"
  shows "counts_delays P (Suc k) (fst (snd (try_bl2_delay_accel_at_pc C P pc (s, c))))"
proof -
  let ?E = "p_bl2_delay_expected_hits P"
  obtain c' where c': "set_regs C [(Field_R0, 0), (Field_PC, reg C Field_LR c)] c = (True, c')" using set_regs_work[OF assms(1)] by blast
  have mask: "flag (ucast (reg C Field_R0 c) > p_bl2_delay_max_cycles P) 1 OR flag (reg C Field_LR c = 0) 2 = 0"
    using assms(5) by (simp add: skips_delay_def flag_def not_less[symmetric])
  have k: "unat (of_nat (Suc k) :: u64) = Suc k" using assms(8) unat_bound[of ?E] by (intro unat_of_nat_small) (simp del: of_nat_Suc)
  have E: "?E \<le> of_nat (Suc k) \<longleftrightarrow> \<not> Suc k < unat ?E" by (simp add: word_le_nat_alt k not_less del: of_nat_Suc)
  show ?thesis
    using assms(2-4,6-8) c' mask E
    by (simp add: try_bl2_delay_accel_at_pc_def Let_def return_to_lr_def counts_delays_def note_last_def bump_def add.commute
        del: set_regs.simps)
qed

lemma delay_run_counts:
  assumes "sets_work" "p_bl2_delay_accel P" "pc AND NOT 1 = entry_of (p_bl2_delay_cycles_addr P)"
    "entry_of (p_bl2_delay_cycles_addr P) \<noteq> 0" "p_bl2_delay_expected_hits P \<noteq> 0"
  shows "list_all (skips_delay C P) cs \<Longrightarrow> counts_delays P k s \<Longrightarrow> k + length cs \<le> unat (p_bl2_delay_expected_hits P) \<Longrightarrow>
    counts_delays P (k + length cs) (delay_run C P pc cs s)"
proof (induction cs arbitrary: k s)
  case (Cons c cs)
  from Cons.prems delay_step[OF assms(1-4) _ Cons.prems(2) assms(5)]
  have "counts_delays P (Suc k) (fst (snd (try_bl2_delay_accel_at_pc C P pc (s, c))))" by simp
  from Cons.IH[OF _ this] Cons.prems show ?case by (simp add: delay_run_def)
qed (simp add: delay_run_def)

end

subsection \<open>A processor\<close>

text \<open>A processor with registers and a memory, on which every access succeeds: the laws of \<open>cpu_model\<close> can hold.\<close>

record ideal =
  i_regs :: "v7m_field \<Rightarrow> u32"
  i_mem :: ram

definition ideal_cpu :: "ideal cpu_context" where
  "ideal_cpu = \<lparr>get_pc = (\<lambda>c. ucast (i_regs c Field_PC)), get_v7m_state = (\<lambda>f c. ucast (i_regs c f)),
     set_v7m_state = (\<lambda>f v c. (True, c\<lparr>i_regs := (i_regs c)(f := v)\<rparr>)),
     guest_read_u8 = (\<lambda>a c. (Some (i_mem c a), c)),
     guest_read_u32 = (\<lambda>a c. (Some (le_word (ram_read (i_mem c) a 4)), c)),
     guest_read_bytes = (\<lambda>a n c. (Some (ram_read (i_mem c) a (unat n)), c)),
     guest_read_bytes_or_alias = (\<lambda>a n c. (Some (ram_read (i_mem c) a (unat n), False), c)),
     guest_write_bytes = (\<lambda>a bs c. (True, c\<lparr>i_mem := ram_write (i_mem c) a bs\<rparr>)),
     guest_write_bytes_or_alias = (\<lambda>a bs c. ((True, False), c\<lparr>i_mem := ram_write (i_mem c) a bs\<rparr>)),
     guest_dmi_ptr = (\<lambda>a n r w c. (Some a, c)),
     host_read = (\<lambda>p k c. ram_read (i_mem c) p k), host_write = (\<lambda>p bs c. c\<lparr>i_mem := ram_write (i_mem c) p bs\<rparr>),
     invalidate_guest_range = (\<lambda>a e c. c), set_vcpu_dirty = (\<lambda>b c. c), kick_cpu = (\<lambda>c. c)\<rparr>"

lemma ucast_up_down: "(ucast (ucast (v :: u32) :: u64) :: u32) = v"
  by (rule bit_word_eqI) (simp add: bit_simps)

interpretation ideal: cpu_model ideal_cpu i_regs i_mem "\<lambda>p. p"
  by unfold_locales (auto simp: ideal_cpu_def reg_def ucast_up_down)

lemma ideal_model: "cpu_model ideal_cpu i_regs i_mem (\<lambda>p. p)"
  by (rule ideal.cpu_model_axioms)

lemma ideal_sets: "fst (set_v7m_state ideal_cpu f v c)"
  by (simp add: ideal_cpu_def)

text \<open>A concrete configuration and processor: delays at \<open>0x100\<close>, a copy at \<open>0x200\<close>, decryption at \<open>0x300\<close>.\<close>

definition config1 :: accel_config where
  "config1 = default_config\<lparr>p_bl2_delay_accel := True, p_bl2_delay_cycles_addr := 0x101, p_bl2_load_accel := True,
     p_bl2_boot_enc_decrypt_addr := 0x301\<rparr>"

definition ideal1 :: "u32 \<Rightarrow> u32 \<Rightarrow> u32 \<Rightarrow> ideal" where
  "ideal1 r0 r1 r2 = \<lparr>i_regs = (\<lambda>_. 0)(Field_R0 := r0, Field_R1 := r1, Field_R2 := r2, Field_LR := 0x80, Field_SP := 0x1000),
     i_mem = (\<lambda>a. if a = 0x1004 \<or> a = 0x1005 then 0x20 else if a < 0x2000 then 0 else ucast a)\<rparr>"

text \<open>The state once an image of 20 bytes is known at \<open>0x2000\<close>, with the key of its slot.\<close>

definition accel1 :: rse_accel where
  "accel1 = rse_accel0\<lparr>m_snapshot_by_image := (\<lambda>_. snapshot0)(0 := snapshot0\<lparr>snap_hits := 1, last_load_addr := 0x2000, last_hdr_size := 0x20,
       last_img_size := 20, last_flags := 0x24\<rparr>),
     m_enc_keys := [bl2_boot_enc_cache_key 0x700 0 \<mapsto> \<lparr>ek_valid = True, ek_key_size = 16, ek_key = replicate 32 7\<rparr>]\<rparr>"

subsection \<open>Properties\<close>

text \<open>C6. An entry that the accelerators do not handle is as if they were not there: whatever they have read or
  tried, registers and guest memory are unchanged when the function of the firmware runs. The
  processor accepts every register write (a failed one would leave the work half done).\<close>

lemma accel_leaves_no_trace:
  assumes "cpu_model C regs mem at" and "\<And>f v c. fst (set_v7m_state C f v c)"
    and "on_pc_entry C P pc (s, c) = Some (False, s', c')"
  shows "regs c' = regs c \<and> mem c' = mem c"
proof -
  have "cpu_model.sets_work C" using assms(2) by (simp add: cpu_model.sets_work_def[OF assms(1)])
  from cpu_model.pc_entry_untouched[OF assms(1) this, of c "(s, c)" P pc "(s', c')"] assms(3)
  show ?thesis by (simp add: on_pc_entry_def cpu_model.same_def[OF assms(1)])
qed


text \<open>C30. The cache of signature verdicts never lies: after any entry, handled or not, it has at most sixteen
  verdicts and each is the one that the check of that key, hash and signature gives.\<close>

lemma verdict_cache_sound:
  assumes "cache_sound s" and "on_pc_entry C P pc (s, c) = Some (h, s', c')"
  shows "cache_sound s'"
  using sound_pc_entry[of "(s, c)" C P pc] assms by (simp add: sound_ub_def)

text \<open>C34. The delay watch ends by itself: from the start, the watch stays active and the callback registered
  for every delay before the expected number of them, and with the last expected one both are gone.\<close>

lemma delay_watch_ends:
  assumes "cpu_model C regs mem at" and "\<And>f v c. fst (set_v7m_state C f v c)"
    and "p_bl2_delay_accel P" "entry_of (p_bl2_delay_cycles_addr P) \<noteq> 0" "pc AND NOT 1 = entry_of (p_bl2_delay_cycles_addr P)"
    and "p_bl2_delay_expected_hits P \<noteq> 0" "list_all (skips_delay C P) cs"
    and "length cs \<le> unat (p_bl2_delay_expected_hits P)"
    and "s' = delay_run C P pc cs (snd (configure_pc_watches P rse_accel0))"
  shows "m_delay_watch_active s' = (length cs < unat (p_bl2_delay_expected_hits P)) \<and>
    m_pc_entry_registered s' = (length cs < unat (p_bl2_delay_expected_hits P))"
proof -
  have works: "cpu_model.sets_work C" using assms(2) by (simp add: cpu_model.sets_work_def[OF assms(1)])
  have "p_bl2_delay_cycles_addr P \<noteq> 0" using assms(4) by (auto simp: entry_of_def)
  then have "counts_delays P 0 (snd (configure_pc_watches P rse_accel0))"
    using assms(3,6) by (simp add: counts_delays_def configure_pc_watches_def needs_pc_entry_callback_def rse_accel0_def
        unat_gt_0)
  from cpu_model.delay_run_counts[OF assms(1) works assms(3,5,4,6,7) this] assms(8,9)
  show ?thesis by (simp add: counts_delays_def)
qed


text \<open>C19. Decrypting the whole image at the first request equals the chunks that the boot loader would have
  decrypted one after the other, each with the counter of its offset, however the image is cut into
  chunks of whole blocks.\<close>

lemma bl2_load_in_chunks:
  assumes "cpu_model C regs mem at" and "try_bl2_load_decrypt_accel_at_pc C P pc (s, c) = (True, s', c')"
    and "find_bl2_load_snapshot_for_decrypt P s (regs c Field_R2) (word_at (mem c) (ucast (regs c Field_SP) + 4)) =
      Some (i, load, hdr, image_size, flags)"
    and "\<not> m_image_decrypted s (unat i)" "cached_key s (regs c Field_R0) (regs c Field_R1) = Some key"
    and "sum_list ns = unat image_size" "\<forall>n \<in> set (butlast ns). 16 dvd n"
  shows "mem c' = decrypt_chunks key 0 (ucast load + ucast hdr) ns (mem c)"
proof -
  have "load_spec P s (regs c) (mem c) (regs c') (mem c')"
    using cpu_model.load_handled[OF assms(1), of P s c pc] assms(2) by (simp add: cpu_model.done_pair_def[OF assms(1)])
  then have "mem c' = decrypt_at key 0 0 (ucast load + ucast hdr) (unat image_size) (mem c)"
    using assms(3-5) by (auto simp: load_spec_def)
  moreover have "unat (0 :: u32) + sum_list ns < 2 ^ 32" using unat_bound[of image_size] assms(6) by simp
  ultimately show ?thesis using decrypt_chunks_whole[of 0 ns] assms(6,7) by simp
qed


lemma ideal_ops:
  "set_v7m_state ideal_cpu f v c = (True, c\<lparr>i_regs := (i_regs c)(f := v)\<rparr>)"
  "guest_read_u32 ideal_cpu a c = (Some (le_word (ram_read (i_mem c) a 4)), c)"
  "guest_read_bytes_or_alias ideal_cpu a n c = (Some (ram_read (i_mem c) a (unat n), False), c)"
  "guest_write_bytes_or_alias ideal_cpu a bs c = ((True, False), c\<lparr>i_mem := ram_write (i_mem c) a bs\<rparr>)"
  "invalidate_guest_range ideal_cpu a e c = c" "set_vcpu_dirty ideal_cpu b c = c"
  by (simp_all add: ideal_cpu_def)

lemma config1_load:
  "p_bl2_load_accel config1" "entry_of (p_bl2_boot_enc_decrypt_addr config1) = 0x300" "p_bl2_boot_enc_slots config1 = 2"
  "p_bl2_boot_enc_max_bytes config1 = 4096" "p_bl2_load_accel_max_bytes config1 = 0x1000000"
  by (simp_all add: config1_def default_config_def entry_of_def)

lemma ideal1_regs:
  "i_regs (ideal1 a b d) Field_R0 = a" "i_regs (ideal1 a b d) Field_R1 = b" "i_regs (ideal1 a b d) Field_R2 = d"
  "i_regs (ideal1 a b d) Field_R3 = 0" "i_regs (ideal1 a b d) Field_SP = 0x1000" "i_regs (ideal1 a b d) Field_LR = 0x80"
  by (simp_all add: ideal1_def)

lemma delay_entry1:
  "on_pc_entry ideal_cpu config1 0x100 (rse_accel0, ideal1 5 0 0) =
     Some (True, fst (snd (try_bl2_delay_accel_at_pc ideal_cpu config1 0x100 (rse_accel0, ideal1 5 0 0))),
       (ideal1 5 0 0)\<lparr>i_regs := (i_regs (ideal1 5 0 0))(Field_R0 := 0, Field_PC := 0x80)\<rparr>)"
  by (simp add: on_pc_entry_def try_rse_pc_entry_def Let_def try_bl2_load_profile_at_pc_def record_sites_def
      try_bl2_boot_enc_capture_key_at_pc_def try_bl2_delay_accel_at_pc_def return_to_lr_def config1_def default_config_def entry_of_def
      ideal1_def ideal_cpu_def reg_def flag_def)

lemma delay_refused1:
  "\<exists>s'. on_pc_entry ideal_cpu config1 0x100 (rse_accel0, ideal1 0xffffffff 0 0) = Some (False, s', ideal1 0xffffffff 0 0)"
  by (simp add: on_pc_entry_def try_rse_pc_entry_def Let_def try_bl2_load_profile_at_pc_def record_sites_def
      try_bl2_boot_enc_capture_key_at_pc_def try_bl2_delay_accel_at_pc_def return_to_lr_def config1_def default_config_def entry_of_def
      ideal1_def ideal_cpu_def reg_def flag_def try_bl2_load_decrypt_accel_at_pc_def try_bl2_boot_enc_decrypt_accel_at_pc_def
      try_bl2_img_hash_accel_at_pc_def try_bl2_verify_sig_accel_at_pc_def try_lms_accel_at_pc_def)

lemma empty_cache_sound: "cache_sound rse_accel0"
  by (simp add: cache_sound_def rse_accel0_def)

lemma accel_leaves_no_trace_witness:
  "\<exists>s' c'. on_pc_entry ideal_cpu config1 0x100 (rse_accel0, ideal1 0xffffffff 0 0) = Some (False, s', c') \<and>
     i_regs c' = i_regs (ideal1 0xffffffff 0 0)"
  using delay_refused1 accel_leaves_no_trace[OF ideal_model ideal_sets] by blast


lemma verdict_cache_sound_witness:
  "\<exists>s' c'. on_pc_entry ideal_cpu config1 0x100 (rse_accel0, ideal1 5 0 0) = Some (True, s', c') \<and> cache_sound s'"
  by (intro exI conjI, rule delay_entry1, rule verdict_cache_sound[OF empty_cache_sound delay_entry1])

lemma config1_delay:
  "p_bl2_delay_accel config1" "entry_of (p_bl2_delay_cycles_addr config1) = 0x100" "p_bl2_delay_expected_hits config1 = 3"
  "skips_delay ideal_cpu config1 (ideal1 5 0 0)"
  by (simp_all add: config1_def default_config_def entry_of_def skips_delay_def ideal_cpu_def ideal1_def reg_def)

lemma delay_watch_ends_witness:
  "\<not> m_delay_watch_active (delay_run ideal_cpu config1 0x100 (replicate 3 (ideal1 5 0 0)) (snd (configure_pc_watches config1 rse_accel0)))"
  using delay_watch_ends[OF ideal_model ideal_sets config1_delay(1) _ _ _ _ _ refl, of "0x100" "replicate 3 (ideal1 5 0 0)"]
  by (simp add: config1_delay list_all_iff)


lemma bl2_load_in_chunks_witness:
  "\<exists>s' c'. try_bl2_load_decrypt_accel_at_pc ideal_cpu config1 0x300 (accel1, ideal1 0x700 0 0) = (True, s', c') \<and>
     i_mem c' = decrypt_chunks (replicate 16 7) 0 0x2020 [16, 4] (i_mem (ideal1 0x700 0 0))"
proof -
  let ?c = "ideal1 0x700 0 0"
  obtain out where out: "aes_ctr_xcrypt_buffer (replicate 16 7) (replicate 16 0) (ram_read (i_mem ?c) 0x2020 20) 0 = Some out"
    using xcrypt_defined[of "replicate 16 7"] by (metis (no_types, lifting) insertCI length_replicate not_None_eq)
  have buf: "le_word (ram_read (i_mem ?c) 0x1004 4) = (0x2020 :: u32)"
    by (simp add: ideal1_def ram_read_def upt_conv_Cons)
  have blk: "le_word (ram_read (i_mem ?c) 0x1000 4) = (0 :: u32)"
    by (simp add: ideal1_def ram_read_def upt_conv_Cons)
  have fresh: "\<not> m_image_decrypted accel1 0" by (simp add: accel1_def rse_accel0_def)
  have found: "find_bl2_load_snapshot_for_decrypt config1 accel1 0 0x2020 = Some (0, 0x2000, 0x20, 20, 0x24)"
    by (simp add: find_bl2_load_snapshot_for_decrypt_def config1_def default_config_def upt_conv_Cons accel1_def snapshot0_def)
  have key: "cached_key accel1 0x700 0 = Some (replicate 16 7)"
    by (simp add: cached_key_def accel1_def bl2_boot_enc_valid_key_size_def)
  have "\<exists>s' c'. try_bl2_load_decrypt_accel_at_pc ideal_cpu config1 0x300 (accel1, ?c) = (True, s', c')"
    using found key buf blk out fresh
    by (simp add: try_bl2_load_decrypt_accel_at_pc_def Let_def config1_load ideal_ops ideal.reg ideal1_regs
        read_words.simps flag_def decrypt_range_def return_to_lr_def)
  then obtain s' c' where r: "try_bl2_load_decrypt_accel_at_pc ideal_cpu config1 0x300 (accel1, ?c) = (True, s', c')" by blast
  with bl2_load_in_chunks[OF ideal_model r, of 0 "0x2000" "0x20" 20 "0x24" "replicate 16 7" "[16, 4]"] found key buf
  show ?thesis by (auto simp: word_at_def ideal1_def accel1_def rse_accel0_def)
qed

end
