(* ===== verification/Spec2Isabelle.thy ===== *)
theory Spec2Isabelle
  imports Prelude Tlm_Regs Word_Window Rse_Atu Rse_Lcm Rse_Kmu Dma350 Mmu720ae Zena_Ssu Zena_Fmu Mhu_Psa Mhu_Frame
    Mhu_Scmi Mhu320ae Strata_State Strata_Flash Strata_Props Strata_Driver Strata_Dmi Strata_Backing Cc3xx_Aes Cc3xx_Sha Cc3xx_Pka Cc3xx Cc3xx_Dma Cc3xx_Native
    Rse_Lms Rse_Mcuboot Rse_P256 Rse_Accel Rse_Accel_Spec Rse_Accel_Effects Rse_Accel_Props
begin

text \<open>
  A model of the register-level peripherals of the qbox platform (\<^verbatim>\<open>src/systemc-components\<close>).
\<close>

end
